(* ===== verification/Prelude.thy ===== *)
theory Prelude
  imports Complex_Main "HOL-Library.Char_ord" "HOL-Library.List_Lexorder"
    "HOL-Library.Multiset" "HOL-Library.AList"
begin

text \<open>
  Shared vocabulary of the development: the names of the model's basic types, the result of a
  store operation, Go's nil-map and nil-slice reads, decimal rendering, and the one sorting
  routine the league package uses (sort.Slice and sort.SliceStable with a less function), with
  its correctness proved once for every strict weak order.
\<close>

section \<open>Names of the basic types\<close>

type_synonym team_id = string
type_synonym player_id = string
type_synonym time = int  \<comment> \<open>nanoseconds since the zero instant of Go's time.Time\<close>
type_synonym duration = int  \<comment> \<open>nanoseconds, as Go's time.Duration\<close>

abbreviation isZero :: "time \<Rightarrow> bool" where
  "isZero t \<equiv> t = 0"

definition second :: duration where "second = 1000000000"
definition minute :: duration where "minute = 60 * second"
definition hour :: duration where "hour = 60 * minute"

lemma second_pos [simp]: "0 < second" by (simp add: second_def)
lemma minute_pos [simp]: "0 < minute" by (simp add: minute_def)
lemma hour_pos [simp]: "0 < hour" by (simp add: hour_def)

named_theorems league_simps \<open>unfolding rules of the small helpers of the model\<close>
named_theorems length_simps \<open>operations that keep the length of a list\<close>

section \<open>Go maps and slices\<close>

text \<open>A read of a map at a missing key gives the zero value; of a slice-valued map, nil.\<close>

definition mapList :: "('k \<times> 'v list) list \<Rightarrow> 'k \<Rightarrow> 'v list" where
  "mapList m k = (case map_of m k of None \<Rightarrow> [] | Some xs \<Rightarrow> xs)"

lemma mapList_update [simp]:
  "mapList (AList.update k v m) k' = (if k' = k then v else mapList m k')"
  by (simp add: mapList_def update_conv)

lemma mapList_Nil [simp]: "mapList [] k = []"
  by (simp add: mapList_def)

lemma mapList_mem: "x \<in> set (mapList m k) \<Longrightarrow> \<exists>xs. (k, xs) \<in> set m \<and> x \<in> set xs"
  by (cases "map_of m k") (auto simp: mapList_def dest: map_of_SomeD)

lemma mapList_distinct_keys:
  "distinct (map fst m) \<Longrightarrow> (k, xs) \<in> set m \<Longrightarrow> mapList m k = xs"
  by (simp add: mapList_def)

definition indexWhere :: "('a \<Rightarrow> bool) \<Rightarrow> 'a list \<Rightarrow> nat option" where
  "indexWhere P xs = find (\<lambda>i. P (xs ! i)) [0..<length xs]"

lemma indexWhere_Some:
  "indexWhere P xs = Some i \<Longrightarrow> i < length xs \<and> P (xs ! i) \<and> (\<forall>j<i. \<not> P (xs ! j))"
  by (auto simp: indexWhere_def find_Some_iff)

lemma indexWhere_None: "indexWhere P xs = None \<longleftrightarrow> (\<forall>x\<in>set xs. \<not> P x)"
  unfolding indexWhere_def find_None_iff by (auto simp: all_set_conv_all_nth)

text \<open>The first error a loop with early return reports.\<close>

fun firstError :: "('a \<Rightarrow> 'e option) \<Rightarrow> 'a list \<Rightarrow> 'e option" where
  "firstError f [] = None"
| "firstError f (x # xs) = (case f x of None \<Rightarrow> firstError f xs | Some e \<Rightarrow> Some e)"

lemma firstError_None: "firstError f xs = None \<longleftrightarrow> (\<forall>x\<in>set xs. f x = None)"
  by (induction xs) (auto split: option.splits)

lemma firstError_Some: "firstError f xs = Some e \<Longrightarrow> \<exists>x\<in>set xs. f x = Some e"
  by (induction xs) (auto split: option.splits)

section \<open>Decimal rendering\<close>

fun natDigits :: "nat \<Rightarrow> string" where
  "natDigits n = (if n < 10 then [char_of (48 + n)]
     else natDigits (n div 10) @ [char_of (48 + n mod 10)])"

declare natDigits.simps [simp del]

definition itoa :: "int \<Rightarrow> string" where
  "itoa n = (if n < 0 then CHR ''-'' # natDigits (nat (- n)) else natDigits (nat n))"

definition pad2 :: "int \<Rightarrow> string" where
  "pad2 n = (let d = itoa n in if length d < 2 then replicate (2 - length d) (CHR ''0'') @ d else d)"

definition decValue :: "string \<Rightarrow> nat" where
  "decValue s = foldl (\<lambda>acc c. 10 * acc + (of_char c - 48)) 0 s"

lemma decValue_natDigits: "decValue (natDigits n) = n"
proof (induction n rule: natDigits.induct)
  case (1 n)
  have small: "k < 10 \<Longrightarrow> (of_char (char_of (48 + k) :: char) :: nat) - 48 = k" for k :: nat
    by simp
  show ?case
  proof (cases "n < 10")
    case True
    then show ?thesis by (simp add: natDigits.simps decValue_def)
  next
    case False
    then have "decValue (natDigits (n div 10)) = n div 10" by (rule 1)
    then show ?thesis using False small [of "n mod 10"]
      by (subst natDigits.simps) (simp add: decValue_def)
  qed
qed

lemma natDigits_inject [simp]: "natDigits m = natDigits n \<longleftrightarrow> m = n"
  by (metis decValue_natDigits)

section \<open>Sorting by a less function\<close>

text \<open>
  sort.SliceStable (and sort.Slice wherever the code makes its less function total, so that
  stability cannot be observed) is modelled by a stable insertion sort: an element is placed in
  front of the first element it is less than.
\<close>

fun insertStable :: "('a \<Rightarrow> 'a \<Rightarrow> bool) \<Rightarrow> 'a \<Rightarrow> 'a list \<Rightarrow> 'a list" where
  "insertStable lt x [] = [x]"
| "insertStable lt x (y # ys) = (if lt x y then x # y # ys else y # insertStable lt x ys)"

definition sortStable :: "('a \<Rightarrow> 'a \<Rightarrow> bool) \<Rightarrow> 'a list \<Rightarrow> 'a list" where
  "sortStable lt xs = foldl (\<lambda>acc x. insertStable lt x acc) [] xs"

lemma mset_insertStable [simp]: "mset (insertStable lt x xs) = add_mset x (mset xs)"
  by (induction xs) auto

lemma sortStable_append1: "sortStable lt (xs @ [x]) = insertStable lt x (sortStable lt xs)"
  by (simp add: sortStable_def)

lemma sortStable_Nil [simp]: "sortStable lt [] = []"
  by (simp add: sortStable_def)

lemma mset_sortStable [simp]: "mset (sortStable lt xs) = mset xs"
  by (induction xs rule: rev_induct) (simp_all add: sortStable_append1)

lemma set_sortStable [simp]: "set (sortStable lt xs) = set xs"
  using mset_sortStable [of lt xs] by (metis set_mset_mset)

lemma length_sortStable [simp, length_simps]: "length (sortStable lt xs) = length xs"
  using mset_sortStable [of lt xs] by (metis size_mset)

lemma distinct_sortStable [simp]: "distinct (sortStable lt xs) = distinct xs"
  using mset_sortStable [of lt xs] by (metis mset_eq_imp_distinct_iff)

lemma distinct_map_sortStable [simp]:
  "distinct (map f (sortStable lt xs)) = distinct (map f xs)"
  by (metis mset_eq_imp_distinct_iff mset_map mset_sortStable)

text \<open>The interface of a less function, and what a stable sort by it promises.\<close>

locale weak_order =
  fixes lt :: "'a \<Rightarrow> 'a \<Rightarrow> bool"
  assumes irrefl: "\<not> lt x x"
    and trans: "lt x y \<Longrightarrow> lt y z \<Longrightarrow> lt x z"
    and neg_trans: "\<not> lt x y \<Longrightarrow> \<not> lt y z \<Longrightarrow> \<not> lt x z"
begin

definition tied :: "'a \<Rightarrow> 'a \<Rightarrow> bool" where
  "tied x y \<longleftrightarrow> \<not> lt x y \<and> \<not> lt y x"

lemma asym: "lt x y \<Longrightarrow> \<not> lt y x"
  using irrefl trans by blast

lemma tied_less: "tied x y \<Longrightarrow> lt x z \<longleftrightarrow> lt y z"
  using neg_trans trans unfolding tied_def by blast

lemma insert_sorted:
  "sorted_wrt (\<lambda>a b. \<not> lt b a) ys \<Longrightarrow> sorted_wrt (\<lambda>a b. \<not> lt b a) (insertStable lt x ys)"
proof (induction ys)
  case (Cons y ys)
  show ?case
  proof (cases "lt x y")
    case True
    have above: "\<not> lt z y" if "z \<in> set (y # ys)" for z
      using that Cons.prems irrefl by auto
    have "\<not> lt z x" if "z \<in> set (y # ys)" for z
      using above [OF that] True trans by blast
    then show ?thesis using True Cons.prems by simp
  next
    case False
    have "set (insertStable lt x ys) = insert x (set ys)"
      by (metis mset_insertStable set_mset_add_mset_insert set_mset_mset)
    then show ?thesis using False Cons by auto
  qed
qed simp

lemma sort_sorted: "sorted_wrt (\<lambda>a b. \<not> lt b a) (sortStable lt xs)"
  by (induction xs rule: rev_induct) (simp_all add: sortStable_append1 insert_sorted)

lemma insert_tied:
  "sorted_wrt (\<lambda>a b. \<not> lt b a) ys \<Longrightarrow>
   filter (tied z) (insertStable lt x ys) = filter (tied z) ys @ filter (tied z) [x]"
proof (induction ys)
  case (Cons y ys)
  have above: "\<not> lt w y" if "w \<in> set (y # ys)" for w
    using that Cons.prems irrefl by auto
  have "\<not> tied z w" if "lt x y" "tied z x" "w \<in> set (y # ys)" for w
  proof -
    have "lt x w" using above [OF that(3)] that(1) neg_trans by blast
    then have "lt z w" using tied_less [OF that(2)] by blast
    then show ?thesis by (simp add: tied_def)
  qed
  then have hit: "lt x y \<Longrightarrow> tied z x \<Longrightarrow> filter (tied z) (y # ys) = []"
    by (intro filter_False) blast
  show ?case
  proof (cases "lt x y")
    case True
    then show ?thesis using hit by (cases "tied z x") simp_all
  next
    case False
    then show ?thesis using Cons by simp
  qed
qed simp

lemma sort_stable: "filter (tied z) (sortStable lt xs) = filter (tied z) xs"
  by (induction xs rule: rev_induct) (simp_all add: sortStable_append1 insert_tied sort_sorted)

lemma sort_head_minimal:
  assumes "sortStable lt xs = y # ys" and "z \<in> set xs"
  shows "\<not> lt z y"
proof -
  have "z \<in> set (y # ys)" unfolding assms(1) [symmetric] using assms(2) by simp
  moreover have "sorted_wrt (\<lambda>a b. \<not> lt b a) (y # ys)"
    unfolding assms(1) [symmetric] by (rule sort_sorted)
  ultimately show ?thesis using irrefl by auto
qed

end

text \<open>A less function that also separates distinct elements orders a list in one way only.\<close>

locale total_order = weak_order +
  assumes total: "x \<noteq> y \<Longrightarrow> lt x y \<or> lt y x"
begin

lemma sorted_unique:
  assumes "mset xs = mset ys" "sorted_wrt (\<lambda>a b. \<not> lt b a) xs" "sorted_wrt (\<lambda>a b. \<not> lt b a) ys"
  shows "xs = ys"
  using assms
proof (induction xs arbitrary: ys)
  case (Cons x xs)
  then obtain y ys' where ys: "ys = y # ys'" by (cases ys) auto
  have "x = y"
  proof (rule ccontr)
    assume "x \<noteq> y"
    moreover have "x \<in> set ys'" "y \<in> set xs"
      using Cons.prems(1) ys \<open>x \<noteq> y\<close> by (metis set_ConsD list.set_intros(1) set_mset_mset)+
    ultimately show False using total Cons.prems ys by auto
  qed
  then show ?case using Cons ys by auto
qed simp

lemma sort_perm: "mset xs = mset ys \<Longrightarrow> sortStable lt xs = sortStable lt ys"
  by (rule sorted_unique) (simp_all add: sort_sorted)

end

text \<open>Comparison by a key, and lexicographic composition of two comparisons.\<close>

lemma weak_order_key: "weak_order (\<lambda>x y. (f x :: 'k :: linorder) < f y)"
  by unfold_locales auto

lemma weak_order_key_desc: "weak_order (\<lambda>x y. (f y :: 'k :: linorder) < f x)"
  by unfold_locales auto

definition thenBy :: "('a \<Rightarrow> 'a \<Rightarrow> bool) \<Rightarrow> ('a \<Rightarrow> 'a \<Rightarrow> bool) \<Rightarrow> 'a \<Rightarrow> 'a \<Rightarrow> bool" where
  "thenBy l1 l2 x y = (l1 x y \<or> (\<not> l1 y x \<and> l2 x y))"

lemma weak_order_thenBy:
  assumes "weak_order l1" "weak_order l2"
  shows "weak_order (thenBy l1 l2)"
proof -
  have irr: "\<And>x. \<not> l1 x x" "\<And>x. \<not> l2 x x"
    and tr: "\<And>x y z. l1 x y \<Longrightarrow> l1 y z \<Longrightarrow> l1 x z" "\<And>x y z. l2 x y \<Longrightarrow> l2 y z \<Longrightarrow> l2 x z"
    and nt: "\<And>x y z. \<not> l1 x y \<Longrightarrow> \<not> l1 y z \<Longrightarrow> \<not> l1 x z" "\<And>x y z. \<not> l2 x y \<Longrightarrow> \<not> l2 y z \<Longrightarrow> \<not> l2 x z"
    using assms unfolding weak_order_def by blast+
  show ?thesis
    by unfold_locales (auto simp: thenBy_def irr; metis irr tr nt)+
qed

text \<open>
  A less function with a key that tells its tie classes apart: grouping a sorted list by runs of
  equal keys is then the same as filtering by each key.
\<close>

function partitionEqual :: "('a \<Rightarrow> 'a \<Rightarrow> bool) \<Rightarrow> 'a list \<Rightarrow> 'a list list" where
  "partitionEqual eq [] = []"
| "partitionEqual eq (x # xs) = (x # takeWhile (eq x) xs) # partitionEqual eq (dropWhile (eq x) xs)"
  by pat_completeness auto

termination partitionEqual
  by (relation "measure (\<lambda>(eq, xs). length xs)") (auto simp: le_imp_less_Suc length_dropWhile_le)

lemma concat_partitionEqual [simp]: "concat (partitionEqual eq xs) = xs"
  by (induction eq xs rule: partitionEqual.induct) simp_all

lemma partitionEqual_nonempty: "[] \<notin> set (partitionEqual eq xs)"
  by (induction eq xs rule: partitionEqual.induct) simp_all

locale keyed_order = weak_order lt for lt :: "'a \<Rightarrow> 'a \<Rightarrow> bool" +
  fixes key :: "'a \<Rightarrow> 'k"
  assumes tie_key: "\<not> lt x y \<and> \<not> lt y x \<longleftrightarrow> key x = key y"
begin

definition groups :: "'a list \<Rightarrow> 'a list list" where
  "groups xs = partitionEqual (\<lambda>x y. key x = key y) (sortStable lt xs)"

lemma concat_groups: "mset (concat (groups xs)) = mset xs"
  by (simp add: groups_def)

lemma sorted_keys:
  assumes "sorted_wrt (\<lambda>a b. \<not> lt b a) xs" "sorted_wrt (\<lambda>a b. \<not> lt b a) ys"
    and "mset (map key xs) = mset (map key ys)"
  shows "map key xs = map key ys"
  using assms
proof (induction xs arbitrary: ys)
  case (Cons x xs)
  then obtain y ys' where ys: "ys = y # ys'" by (cases ys) auto
  have sets: "key ` set (x # xs) = key ` set (y # ys')"
    using Cons.prems(3) ys by (metis list.set_map set_mset_mset)
  have sx: "sorted_wrt (\<lambda>a b. \<not> lt b a) (x # xs)" and sy: "sorted_wrt (\<lambda>a b. \<not> lt b a) (y # ys')"
    using Cons.prems ys by auto
  have minimal: "\<not> lt z u"
    if so: "sorted_wrt (\<lambda>a b. \<not> lt b a) (u # us)" and mem: "key z \<in> key ` set (u # us)" for z u us
  proof -
    obtain w where w: "w \<in> set (u # us)" "key w = key z" using mem by (metis imageE)
    then have "\<not> lt w u" using so irrefl by auto
    then show ?thesis using w(2) tie_key neg_trans by metis
  qed
  have "\<not> lt y x" by (rule minimal [OF sx]) (use sets in auto)
  moreover have "\<not> lt x y" by (rule minimal [OF sy]) (use sets in auto)
  ultimately have "key x = key y" using tie_key by blast
  then show ?case using Cons ys by auto
qed simp

lemma takeWhile_key:
  assumes "sorted_wrt (\<lambda>a b. \<not> lt b a) (x # xs)"
  shows "takeWhile (\<lambda>y. key x = key y) xs = filter (\<lambda>y. key y = key x) xs \<and>
    dropWhile (\<lambda>y. key x = key y) xs = filter (\<lambda>y. key y \<noteq> key x) xs"
  using assms
proof (induction xs)
  case (Cons y ys)
  show ?case
  proof (cases "key x = key y")
    case True
    then show ?thesis using Cons by auto
  next
    case False
    have "key z \<noteq> key x" if "z \<in> set ys" for z
    proof
      assume "key z = key x"
      moreover have "\<not> lt z y" "\<not> lt y x" using Cons.prems that by auto
      ultimately have "\<not> lt x y" using tie_key neg_trans by metis
      then show False using \<open>\<not> lt y x\<close> tie_key False by blast
    qed
    then show ?thesis using False by (auto simp: filter_empty_conv filter_id_conv)
  qed
qed simp

lemma partition_sorted:
  "sorted_wrt (\<lambda>a b. \<not> lt b a) xs \<Longrightarrow>
   partitionEqual (\<lambda>x y. key x = key y) xs =
     map (\<lambda>k. filter (\<lambda>x. key x = k) xs) (remdups_adj (map key xs))"
proof (induction "length xs" arbitrary: xs rule: less_induct)
  case less
  show ?case
  proof (cases xs)
    case (Cons x ys)
    note tw = takeWhile_key [OF less.prems [unfolded Cons]]
    let ?rest = "filter (\<lambda>y. key y \<noteq> key x) ys"
    have sorted: "sorted_wrt (\<lambda>a b. \<not> lt b a) ?rest"
      using less.prems Cons by (simp add: sorted_wrt_filter)
    have split: "ys = filter (\<lambda>y. key y = key x) ys @ ?rest"
      using tw takeWhile_dropWhile_id [of "\<lambda>y. key x = key y" ys] by simp
    have adj: "remdups_adj (map key xs) = key x # remdups_adj (map key ?rest)"
    proof -
      have "remdups_adj (key x # map key (filter (\<lambda>y. key y = key x) ys) @ zs) = remdups_adj (key x # zs)" for zs
        by (induction ys) auto
      moreover have "map key xs = key x # map key (filter (\<lambda>y. key y = key x) ys) @ map key ?rest"
        unfolding Cons by (subst split) simp
      moreover have "remdups_adj (key x # map key ?rest) = key x # remdups_adj (map key ?rest)"
      proof (cases ?rest)
        case (Cons a zs)
        then have "a \<in> set ?rest" by (metis list.set_intros(1))
        then have "key a \<noteq> key x" by simp
        then show ?thesis using Cons by simp
      qed simp
      ultimately show ?thesis by simp
    qed
    have "partitionEqual (\<lambda>x y. key x = key y) ?rest =
        map (\<lambda>k. filter (\<lambda>x. key x = k) ?rest) (remdups_adj (map key ?rest))"
      using sorted by (intro less.hyps) (auto simp: Cons le_imp_less_Suc)
    also have "\<dots> = map (\<lambda>k. filter (\<lambda>x. key x = k) xs) (remdups_adj (map key ?rest))"
    proof (rule map_cong [OF refl])
      fix k assume "k \<in> set (remdups_adj (map key ?rest))"
      then have "k \<noteq> key x" by auto
      then show "filter (\<lambda>x. key x = k) ?rest = filter (\<lambda>x. key x = k) xs"
        by (auto simp: Cons intro: filter_cong)
    qed
    finally show ?thesis using tw adj by (simp add: Cons)
  qed simp
qed

lemma groups_perm:
  assumes "mset xs = mset ys"
  shows "list_all2 (\<lambda>g h. mset g = mset h) (groups xs) (groups ys)"
proof -
  have keys: "map key (sortStable lt xs) = map key (sortStable lt ys)"
    using assms by (intro sorted_keys sort_sorted) (metis mset_map mset_sortStable)
  have "mset (filter P (sortStable lt xs)) = mset (filter P (sortStable lt ys))" for P
    using assms by (simp add: mset_filter)
  then show ?thesis
    unfolding groups_def partition_sorted [OF sort_sorted] keys
    by (simp add: list_all2_conv_all_nth)
qed

lemma groups_tied: "g \<in> set (groups xs) \<Longrightarrow> x \<in> set g \<Longrightarrow> y \<in> set g \<Longrightarrow> key x = key y"
  unfolding groups_def partition_sorted [OF sort_sorted] by auto

end

section \<open>Digests\<close>

text \<open>The 32-byte sums the seeded draws compare with bytes.Compare: byte lists in lexical order.\<close>

datatype digest = Digest (digestBytes: "nat list")

instantiation digest :: linorder
begin

definition less_eq_digest :: "digest \<Rightarrow> digest \<Rightarrow> bool" where
  "less_eq_digest a b = (digestBytes a \<le> digestBytes b)"

definition less_digest :: "digest \<Rightarrow> digest \<Rightarrow> bool" where
  "less_digest a b = (digestBytes a < digestBytes b)"

instance
  by standard (auto simp: less_eq_digest_def less_digest_def digest.expand)

end

section \<open>Results of a store operation\<close>

text \<open>
  Every mutator of the Go Store returns an error: the store refuses writes (writeErrorLocked),
  the operation's own guards reject it, or the final persist fails. The in-memory state is
  returned beside the result because some mutators restore it after a failed persist and some
  do not.
\<close>

datatype 'e failure = Unhealthy | PersistFailed | Rejected 'e

type_synonym ('s, 'e, 'a) outcome = "('e failure + 'a) \<times> 's"

fun succeeded :: "('s, 'e, 'a) outcome \<Rightarrow> bool" where
  "succeeded (Inr _, _) = True"
| "succeeded (Inl _, _) = False"

lemma fold_invariant_simple:
  "(\<And>x s. x \<in> set xs \<Longrightarrow> P s \<Longrightarrow> P (f x s)) \<Longrightarrow> P s \<Longrightarrow> P (fold f xs s)"
  by (rule fold_invariant [where Q = "\<lambda>x. x \<in> set xs"]) auto

end
