(* ===== verification/Model.thy ===== *)
theory Model
  imports Prelude
begin

text \<open>
  The data of the league package (src/internal/league/model.go and the struct declarations of
  transactions.go, waivers.go, trades.go, zones.go, schedule.go, playoffs.go, postseason.go,
  lineup.go and config.go). A Go struct is a record with the fields the modelled operations read
  or write; string constants that form a closed set are datatypes; scores, points and projections
  are exact rationals, so the rounding of float64 arithmetic is outside the model. A Go map that
  the code iterates is an association list, a map that is only looked up is a partial function.
\<close>

section \<open>Teams, players, games\<close>

record team =
  teamID :: team_id
  teamName :: string
  teamDivision :: string
  teamManager :: string

record player =
  playerID :: player_id
  playerName :: string
  playerPosition :: string
  playerNFLTeam :: string
  playerADPRank :: int
  playerByeWeek :: int
  playerInjury :: string
  playerProjection :: rat
  playerPunterRank :: int
  playerHouseRank :: int

text \<open>The zero value of the struct.\<close>

definition zeroPlayer :: player where
  "zeroPlayer = \<lparr>playerID = [], playerName = [], playerPosition = [], playerNFLTeam = [], playerADPRank = 0,
     playerByeWeek = 0, playerInjury = [], playerProjection = 0, playerPunterRank = 0, playerHouseRank = 0\<rparr>"

record game_info =
  gameID :: string
  gameWeek :: int
  gameKickoff :: time
  gameAway :: string
  gameHome :: string
  gameFinal :: bool

section \<open>Draft picks and the transaction log\<close>

datatype made_by = ByManager | ByAuto | ByCommissioner

record draft_pick =
  pickNumber :: int
  pickRound :: int
  pickTeamID :: team_id
  pickPlayerID :: player_id
  pickMadeAt :: time
  pickMadeBy :: made_by

datatype txn_type = TxnAdd | TxnDrop | TxnClaim | TxnTrade | TxnAutoDrop
  | TxnCommissioner | TxnCorrection

record txn_player =
  tpPlayerID :: player_id
  tpName :: string
  tpPosition :: string
  tpNFLTeam :: string

record transaction =
  txnID :: string
  txnSeason :: int
  txnWeek :: int
  txnType :: txn_type
  txnTeamID :: team_id
  txnOtherTeamID :: team_id
  txnAdds :: "txn_player list"
  txnDrops :: "txn_player list"
  txnBid :: int
  txnPosition :: int
  txnOfferID :: string
  txnBy :: string
  txnNote :: string
  txnAt :: time

section \<open>Waivers\<close>

record waiver_claim =
  claimID :: string
  claimTeamID :: team_id
  claimAddID :: player_id
  claimDropID :: player_id
  claimBid :: int
  claimPriority :: int
  claimFiledAt :: time
  claimDeferredStreak :: int
  claimFirstDeferredAt :: time

datatype waiver_mode = PerfPriority | Faab

datatype waiver_outcome = Won | Beaten | Failed | Deferred | Expired

text \<open>
  The messages of WaiverResult.Reason and WaiverReceipt.Reason, one constructor for each
  fmt.Sprintf of Store.ProcessWaivers with its arguments.
\<close>

datatype waiver_reason = NoReason
  | DeferredTooLong int player_id
  | NotOnRoster
  | LockedDrop string
  | RosterFull string
  | BidExceedsBudget int
  | PositionLimit string int
  | ClaimAwarded
  | TakenByAnotherTeam

record waiver_receipt =
  rcptClaimID :: string
  rcptSeason :: int
  rcptWeek :: int
  rcptTeamID :: team_id
  rcptAdd :: txn_player
  rcptDrops :: "txn_player list"
  rcptBid :: int
  rcptSubmittedPriority :: int
  rcptPosition :: int
  rcptTeamCount :: int
  rcptMode :: waiver_mode
  rcptOutcome :: waiver_outcome
  rcptWinningTeamID :: team_id
  rcptWinningBid :: int
  rcptWinningBidKnown :: bool
  rcptReason :: waiver_reason
  rcptFiledAt :: time
  rcptResolvedAt :: time

record waiver_result =
  resClaim :: waiver_claim
  resOutcome :: waiver_outcome
  resReason :: waiver_reason
  resPosition :: int
  resWinningTeamID :: team_id
  resWinningBid :: int
  resWeek :: int

section \<open>Trades\<close>

datatype trade_status = TOpen | TAccepted | TExecuted | TDeclined | TWithdrawn
  | TCountered | TVetoed | TExpired | TFailed

datatype veto_policy = VetoNone | VetoCommissioner | VetoVote | VetoBoth

text \<open>The errors of the trade operations, with the arguments of their messages; FailReason is one of them.\<close>

datatype trade_error = TradeUnknownTeam | PlayerDataUnavailable | PicksNotTradable | EmptyTradeSide
  | AssetUnknown player_id | AssetNotOwned string string | AssetLocked string
  | TradeRosterSize string int int int | TradePositionLimit string int | DeadlinePassed time
  | OfferNotOpen | NotUnderReview | TradeIDUnavailable | ExecutionBlocked player_id

record trade_offer =
  offerID :: string
  offerFrom :: team_id
  offerTo :: team_id
  offerGive :: "player_id list"
  offerGet :: "player_id list"
  offerPicks :: "string list"
  offerNote :: string
  offerStatus :: trade_status
  offerParentID :: string
  offerVetoes :: "team_id list"
  offerFailReason :: "trade_error option"
  offerCreatedAt :: time
  offerAcceptedAt :: time
  offerResolvedAt :: time

section \<open>Roster zones and roster shape\<close>

datatype zone_kind = ZoneReserve | ZoneIR

record zone_assignment =
  zaZone :: zone_kind
  zaPosition :: string
  zaPlacedAt :: time

record roster_preset =
  presetSlots :: "(string \<times> int) list"
  presetBench :: int
  presetReserve :: "(string \<times> int) list"
  presetIR :: int
  presetLimits :: "(string \<times> int) list"

section \<open>Schedule, standings and playoffs\<close>

record league_matchup =
  lmID :: string
  lmWeek :: int
  lmHome :: team_id
  lmAway :: team_id
  lmHomeScore :: rat
  lmAwayScore :: rat
  lmFinal :: bool

record schedule_week =
  swWeek :: int
  swMatchups :: "league_matchup list"
  swBye :: team_id
  swClosedAt :: time

record season_schedule =
  schSeason :: int
  schSeed :: int
  schGeneratedAt :: time
  schStartWeek :: int
  schWeeks :: "schedule_week list"

record standing =
  stTeamID :: team_id
  stWins :: int
  stLosses :: int
  stTies :: int
  stPointsFor :: rat
  stPointsAgainst :: rat
  stStreak :: string
  stRank :: int
  stDecidedBy :: string

datatype phase = PhaseNone | PhaseRegularSeason | PhasePlayoffs | PhaseSeasonComplete

section \<open>Playoffs\<close>

datatype seed_source = DivisionWinner | Wildcard | Field

record playoff_config =
  pcTeamCount :: int
  pcStartWeek :: int
  pcRoundLengthWeeks :: int
  pcQualification :: string
  pcTiebreakOrder :: "string list"
  pcByes :: int
  pcDivisionWinnersFirst :: bool
  pcReseed :: bool
  pcConsolation :: bool
  pcToiletBowl :: bool

record playoff_seed =
  psSeed :: int
  psTeamID :: team_id
  psSource :: seed_source
  psExplanation :: string

record result_provenance =
  rpSource :: string
  rpState :: string
  rpObservedAt :: time
  rpAuthoritative :: bool

datatype bracket = Championship | Consolation | Toilet

text \<open>The explanations of a decided matchup, one constructor for each of their formats.\<close>

datatype decision = Undecided | ByeAdvance int | ScoreDecides rat rat | BestWeekDecides rat rat
  | SeedDecides int int | ManualCorrection string

record playoff_matchup =
  pmID :: string
  pmBracket :: bracket
  pmRound :: int
  pmWeek :: int
  pmHomeSeed :: int
  pmAwaySeed :: int
  pmHome :: team_id
  pmAway :: team_id
  pmHomeScore :: rat
  pmAwayScore :: rat
  pmWinner :: team_id
  pmFinal :: bool
  pmExplanation :: decision
  pmProvenance :: "result_provenance option"

record playoff_provenance =
  provSnapshotID :: string
  provSource :: string
  provSourceState :: string
  provCapturedAt :: time
  provFinalWeek :: int
  provStartWeek :: int
  provTiebreakOrder :: "string list"
  provAuthoritative :: bool

record audit_entry =
  auAction :: string
  auActor :: string
  auAt :: time
  auReason :: string
  auPreviewID :: string
  auMatchupID :: string
  auPreviousWinner :: team_id
  auWinner :: team_id
  auRevision :: int

datatype playoff_status = StatusNone | StatusPreview | StatusPublished

record playoff_state =
  plConfig :: playoff_config
  plSeeds :: "playoff_seed list"
  plMatchups :: "playoff_matchup list"
  plChampion :: team_id
  plRunnerUp :: team_id
  plConsolationWinner :: team_id
  plToilet :: team_id
  plStatus :: playoff_status
  plPreviewID :: string
  plRevision :: int
  plPreviewedAt :: time
  plPublishedAt :: time
  plProvenance :: playoff_provenance
  plAudit :: "audit_entry list"

section \<open>Members and Pick'em\<close>

text \<open>The role of a member is the empty string for the primary manager of a seat and co for a co-manager.\<close>

datatype member_role = PrimaryManager | CoManager

record member =
  memTeam :: team_id
  memName :: string
  memEmail :: string
  memRole :: member_role

record seat_tenure =
  tenTeam :: team_id
  tenSeason :: int
  tenFirstWeek :: int

record pickem_market =
  mkWeek :: int
  mkKickoff :: time
  mkAway :: string
  mkHome :: string
  mkLockAt :: time
  mkLineTenths :: int
  mkLinePresent :: bool
  mkObservedAt :: time
  mkSourceUpdatedAt :: time
  mkSourceURL :: string
  mkSourceProvenance :: string
  mkFrozen :: bool
  mkFrozenAt :: time
  mkVoid :: bool
  mkVoidReason :: string

section \<open>The persisted state\<close>

text \<open>
  PersistedState (model.go), restricted to the collections the modelled operations touch. The
  notification, locker-room, Blitz, watchlist and interface-preference collections are left out: no
  modelled operation reads them.
\<close>

record persisted_state =
  picks :: "draft_pick list"
  boards :: "(string \<times> player_id list) list"
  draftOrder :: "team_id list"
  draftStarted :: bool
  draftStartedAt :: time
  draftAtOverride :: time
  clockDeadline :: time
  clockPaused :: bool
  clockRemainingSec :: int
  clockDurationSec :: int
  autopick :: "team_id \<Rightarrow> bool"
  seasonSchedule :: "season_schedule option"
  playoffs :: "playoff_state option"
  seasonPhase :: phase
  rosterOverride :: "roster_preset option"
  lineups :: "team_id \<Rightarrow> int \<Rightarrow> (string \<times> player_id) list option"
  lineupAutoFilled :: "team_id \<Rightarrow> int \<Rightarrow> string list"
  transactions :: "transaction list"
  waiverClaims :: "waiver_claim list"
  waiverReceipts :: "waiver_receipt list"
  waiversProcessedThrough :: time
  tradeOffers :: "trade_offer list"
  rosterZones :: "(team_id \<times> (player_id \<times> zone_assignment) list) list"
  teamNames :: "team_id \<Rightarrow> string"
  trimmedTeamIDs :: "team_id list"
  scoringOverrides :: "(string \<times> rat) list"
  scoringChangedAt :: time
  ready :: "(team_id \<times> bool) list"
  members :: "(string \<times> member) list"
  seatTenures :: "(string \<times> seat_tenure) list"
  invites :: "string list"
  coInvites :: "(string \<times> team_id) list"
  seatRevisions :: "team_id \<Rightarrow> int"
  badgeClaims :: "(team_id \<times> string) list"
  avatarRefs :: "(team_id \<times> string) list"
  pickems :: "(string \<times> (string \<times> string) list) list"
  pickemEnteredAt :: "(string \<times> time) list"
  pickemMarkets :: "(string \<times> pickem_market) list"

text \<open>
  The members of a seat (memberForTeam, teamMembers of service.go): the map is listed in the order of its
  iteration, and a missing member is Go's zero Member.
\<close>

definition noMember :: member where
  "noMember = \<lparr>memTeam = [], memName = [], memEmail = [], memRole = PrimaryManager\<rparr>"

definition seatHolders :: "(string \<times> member) list \<Rightarrow> team_id \<Rightarrow> member_role \<Rightarrow> member list" where
  "seatHolders ms t r = filter (\<lambda>m. memTeam m = t \<and> memRole m = r) (map snd ms)"

definition memberForTeam :: "(string \<times> member) list \<Rightarrow> team_id \<Rightarrow> member" where
  "memberForTeam ms t = (case seatHolders ms t PrimaryManager of m # _ \<Rightarrow> m
     | [] \<Rightarrow> (if seatHolders ms t CoManager = [] then noMember else last (seatHolders ms t CoManager)))"

definition teamMembers :: "(string \<times> member) list \<Rightarrow> team_id \<Rightarrow> member list" where
  "teamMembers ms t =
     (if seatHolders ms t PrimaryManager = [] then [] else [last (seatHolders ms t PrimaryManager)]) @
     (if seatHolders ms t CoManager = [] then [] else [last (seatHolders ms t CoManager)])"

text \<open>The state of a new store (NewStore): every map and list empty, every scalar zero.\<close>

definition freshState :: persisted_state where
  "freshState = \<lparr>picks = [], boards = [], draftOrder = [], draftStarted = False,
     draftStartedAt = 0, draftAtOverride = 0, clockDeadline = 0, clockPaused = False,
     clockRemainingSec = 0, clockDurationSec = 0, autopick = (\<lambda>t. False),
     seasonSchedule = None, playoffs = None, seasonPhase = PhaseNone, rosterOverride = None,
     lineups = (\<lambda>t w. None), lineupAutoFilled = (\<lambda>t w. []), transactions = [],
     waiverClaims = [], waiverReceipts = [], waiversProcessedThrough = 0, tradeOffers = [],
     rosterZones = [], teamNames = (\<lambda>t. []), trimmedTeamIDs = [],
     scoringOverrides = [], scoringChangedAt = 0, ready = [], members = [], seatTenures = [], invites = [],
     coInvites = [], seatRevisions = (\<lambda>t. 0), badgeClaims = [], avatarRefs = [], pickems = [],
     pickemEnteredAt = [], pickemMarkets = []\<rparr>"

text \<open>
  What the Store reads from package variables: the active team list (defaultTeams), the active
  roster shape (CurrentRoster) and the number of draft rounds (CurrentDraftRounds).
\<close>

record league_env =
  envTeams :: "team list"
  envRoster :: roster_preset
  envRounds :: int

definition defaultTeamIDs :: "league_env \<Rightarrow> team_id list" where
  "defaultTeamIDs env = map teamID (envTeams env)"

definition knownTeam :: "league_env \<Rightarrow> team_id \<Rightarrow> bool" where
  "knownTeam env t = (t \<in> set (defaultTeamIDs env))"

definition transactionPlayerFromPlayer :: "player \<Rightarrow> txn_player" where
  "transactionPlayerFromPlayer p = \<lparr>tpPlayerID = playerID p, tpName = playerName p,
     tpPosition = playerPosition p, tpNFLTeam = playerNFLTeam p\<rparr>"

lemma tpPlayerID_from [simp]: "tpPlayerID (transactionPlayerFromPlayer p) = playerID p"
  by (simp add: transactionPlayerFromPlayer_def)

text \<open>
  The Store around the state: whether writes are refused (writeErrorLocked), the draft lifecycle
  bypass of the simulation harness, the in-memory log of claim filings, and the environment.
\<close>

record store =
  stState :: persisted_state
  stWriteError :: bool
  stLifecycleBypass :: bool
  stFilingLog :: "team_id \<Rightarrow> time list"

text \<open>
  persistLocked, seen from a mutator: after the gate at the head of the mutator has passed, the
  write succeeds or it fails, which the model takes as an oracle bit. A mutator that restores the
  previous state after a failed persist uses commitOrRestore, one that does not uses commitOnly.
\<close>

definition commitOrRestore :: "bool \<Rightarrow> store \<Rightarrow> persisted_state \<Rightarrow> 'a \<Rightarrow> (store, 'e, 'a) outcome" where
  "commitOrRestore persistOK s st r =
     (if persistOK then (Inr r, s\<lparr>stState := st\<rparr>) else (Inl PersistFailed, s))"

definition commitOnly :: "bool \<Rightarrow> store \<Rightarrow> persisted_state \<Rightarrow> 'a \<Rightarrow> (store, 'e, 'a) outcome" where
  "commitOnly persistOK s st r =
     (if persistOK then Inr r else Inl PersistFailed, s\<lparr>stState := st\<rparr>)"

text \<open>
  Some mutators restore only when the failed write is known not to have been committed
  (persistDispositionOf): a write that was committed but not verified keeps the new state.
\<close>

datatype persist_result = Persisted | NotCommitted | CommittedUnverified

definition commitDisposed :: "persist_result \<Rightarrow> store \<Rightarrow> persisted_state \<Rightarrow> 'a \<Rightarrow> (store, 'e, 'a) outcome" where
  "commitDisposed res s st r =
     (case res of Persisted \<Rightarrow> (Inr r, s\<lparr>stState := st\<rparr>)
      | NotCommitted \<Rightarrow> (Inl PersistFailed, s)
      | CommittedUnverified \<Rightarrow> (Inl PersistFailed, s\<lparr>stState := st\<rparr>))"

text \<open>The oracle bit of a mutator that takes a disposition, when no write is left unverified.\<close>

definition disposition :: "bool \<Rightarrow> persist_result" where
  "disposition ok = (if ok then Persisted else NotCommitted)"

definition gated :: "store \<Rightarrow> (store, 'e, 'a) outcome \<Rightarrow> (store, 'e, 'a) outcome" where
  "gated s k = (if stWriteError s then (Inl Unhealthy, s) else k)"

definition rejected :: "'e \<Rightarrow> store \<Rightarrow> (store, 'e, 'a) outcome" where
  "rejected e s = (Inl (Rejected e), s)"

text \<open>
  The contract of a mutator: it refuses an unhealthy store, and a rejection by its own guards
  leaves the state as it was. A mutator that also restores the state after a failed persist
  promises that no error of any kind changes the state.
\<close>

locale gated_op =
  fixes opr :: "bool \<Rightarrow> store \<Rightarrow> (store, 'e, 'a) outcome"
  assumes gate: "stWriteError s \<Longrightarrow> opr ok s = (Inl Unhealthy, s)"
    and healthy: "\<not> stWriteError s \<Longrightarrow> opr ok s \<noteq> (Inl Unhealthy, s')"
    and reject: "opr ok s = (Inl (Rejected e), s') \<Longrightarrow> stState s' = stState s"
    and persisted: "opr True s \<noteq> (Inl PersistFailed, s')"
begin

lemma refusal_keeps_state:
  "opr ok s = (Inl e, s') \<Longrightarrow> e \<noteq> PersistFailed \<Longrightarrow> stState s' = stState s"
proof -
  assume res: "opr ok s = (Inl e, s')" and ne: "e \<noteq> PersistFailed"
  show "stState s' = stState s"
  proof (cases e)
    case Unhealthy
    with res have "stWriteError s" using healthy by blast
    then have "opr ok s = (Inl Unhealthy, s)" by (rule gate)
    with res show ?thesis by simp
  next
    case (Rejected x)
    with res show ?thesis using reject by blast
  qed (simp add: ne)
qed

lemma persisted_error_keeps_state: "opr True s = (Inl e, s') \<Longrightarrow> stState s' = stState s"
  using refusal_keeps_state persisted by blast

end

locale restoring_op = gated_op +
  assumes restore: "opr False s = (r, s') \<Longrightarrow> stState s' = stState s"
begin

lemma error_keeps_state: "opr ok s = (Inl e, s') \<Longrightarrow> stState s' = stState s"
proof (cases ok)
  case True
  then show "opr ok s = (Inl e, s') \<Longrightarrow> stState s' = stState s"
    using persisted_error_keeps_state by simp
next
  case False
  then show "opr ok s = (Inl e, s') \<Longrightarrow> stState s' = stState s"
    using restore by simp
qed

end

lemma gated_Inr: "gated s k = (Inr r, s') \<longleftrightarrow> \<not> stWriteError s \<and> k = (Inr r, s')"
  by (simp add: gated_def)

lemma commitOrRestore_Inr:
  "commitOrRestore ok s st r = (Inr r', s') \<longleftrightarrow> ok \<and> r' = r \<and> s' = s\<lparr>stState := st\<rparr>"
  by (auto simp: commitOrRestore_def)

lemma commitOrRestore_Inl:
  "commitOrRestore ok s st r = (Inl e, s') \<longleftrightarrow> \<not> ok \<and> e = PersistFailed \<and> s' = s"
  by (auto simp: commitOrRestore_def)

lemma commitOnly_Inr:
  "commitOnly ok s st r = (Inr r', s') \<longleftrightarrow> ok \<and> r' = r \<and> s' = s\<lparr>stState := st\<rparr>"
  by (auto simp: commitOnly_def)

lemma commitDisposed_Inr:
  "commitDisposed res s st r = (Inr r', s') \<longleftrightarrow> res = Persisted \<and> r' = r \<and> s' = s\<lparr>stState := st\<rparr>"
  by (auto simp: commitDisposed_def split: persist_result.splits)

lemma rejected_Inr: "rejected e s \<noteq> (Inr r, s')"
  by (simp add: rejected_def)

lemma rejected_Inl: "rejected e s = (Inl x, s') \<longleftrightarrow> x = Rejected e \<and> s' = s"
  by (auto simp: rejected_def)

lemmas store_outcomes = gated_Inr commitDisposed_Inr commitOrRestore_Inr commitOrRestore_Inl commitOnly_Inr
  rejected_Inr rejected_Inl

end
