(* ===== verification/Rosters.thy ===== *)
theory Rosters
  imports Model
begin

text \<open>
  Derived rosters (src/internal/league/roster.go): every team's roster is the replay of the draft
  picks, by number, and then of the transaction log. The replay keeps each list free of
  duplicates, keeps the presence index equal to the lists, and, when each logged move takes
  players nobody owns (or, in a trade, players the named side owns), no player is ever on two
  rosters. The ownership index inverts the lists whatever order the map is iterated in.
\<close>

section \<open>The replay\<close>

record replay =
  rosters :: "(team_id \<times> player_id list) list"
  present :: "team_id \<Rightarrow> player_id \<Rightarrow> bool"

definition emptyReplay :: replay where
  "emptyReplay = \<lparr>rosters = [], present = (\<lambda>t p. False)\<rparr>"

definition rosterAdd :: "team_id \<Rightarrow> player_id \<Rightarrow> replay \<Rightarrow> replay" where
  "rosterAdd t p r =
     (if t = [] \<or> p = [] then r
      else if present r t p then r
      else r\<lparr>present := (present r)(t := (present r t)(p := True)),
             rosters := AList.update t (mapList (rosters r) t @ [p]) (rosters r)\<rparr>)"

definition rosterRemove :: "team_id \<Rightarrow> player_id \<Rightarrow> replay \<Rightarrow> replay" where
  "rosterRemove t p r =
     (if t = [] \<or> p = [] \<or> \<not> present r t p then r
      else r\<lparr>present := (present r)(t := (present r t)(p := False)),
             rosters := AList.update t (remove1 p (mapList (rosters r) t)) (rosters r)\<rparr>)"

definition replayPick :: "draft_pick \<Rightarrow> replay \<Rightarrow> replay" where
  "replayPick pk r = rosterAdd (pickTeamID pk) (pickPlayerID pk) r"

definition replayTxn :: "transaction \<Rightarrow> replay \<Rightarrow> replay" where
  "replayTxn txn r =
     (let t = txnTeamID txn; u = txnOtherTeamID txn;
          r1 = fold (\<lambda>d. rosterRemove t (tpPlayerID d)) (txnDrops txn) r;
          r2 = fold (\<lambda>g. rosterAdd t (tpPlayerID g)) (txnAdds txn) r1
      in if txnType txn = TxnTrade \<and> u \<noteq> [] then
           fold (\<lambda>d. rosterAdd u (tpPlayerID d)) (txnDrops txn)
             (fold (\<lambda>g. rosterRemove u (tpPlayerID g)) (txnAdds txn) r2)
         else r2)"

definition pickLess :: "draft_pick \<Rightarrow> draft_pick \<Rightarrow> bool" where
  "pickLess a b = (pickNumber a < pickNumber b)"

definition replayState :: "persisted_state \<Rightarrow> replay" where
  "replayState st = fold replayTxn (transactions st)
     (fold replayPick (sortStable pickLess (picks st)) emptyReplay)"

definition currentRosters :: "persisted_state \<Rightarrow> (team_id \<times> player_id list) list" where
  "currentRosters st = rosters (replayState st)"

text \<open>
  rosterOwner inverts the map by iterating it: the last entry that names a player wins. Reading
  the index at a player nobody owns gives the empty string.
\<close>

definition ownerStep :: "team_id \<times> player_id list \<Rightarrow> (player_id \<Rightarrow> team_id) \<Rightarrow> player_id \<Rightarrow> team_id" where
  "ownerStep entry ow = fold (\<lambda>p ow'. ow'(p := fst entry)) (snd entry) ow"

definition rosterOwner :: "(team_id \<times> player_id list) list \<Rightarrow> player_id \<Rightarrow> team_id" where
  "rosterOwner rs = fold ownerStep rs (\<lambda>p. [])"

definition ownerOf :: "persisted_state \<Rightarrow> player_id \<Rightarrow> team_id" where
  "ownerOf st = rosterOwner (currentRosters st)"

definition rosterOf :: "persisted_state \<Rightarrow> team_id \<Rightarrow> player_id list" where
  "rosterOf st t = mapList (currentRosters st) t"

definition draftComplete :: "league_env \<Rightarrow> persisted_state \<Rightarrow> bool" where
  "draftComplete env st = (int (length (picks st)) \<ge> int (length (envTeams env)) * envRounds env)"

interpretation pick_order: weak_order pickLess
  by unfold_locales (auto simp: pickLess_def)

section \<open>Well-formedness of the replay\<close>

text \<open>
  The replay is well formed when its keys are distinct, no roster lists a player twice, the
  presence index mirrors the lists and neither empty team nor empty player IDs occur.
\<close>

definition replayWf :: "replay \<Rightarrow> bool" where
  "replayWf r \<longleftrightarrow> distinct (map fst (rosters r)) \<and>
     (\<forall>t. distinct (mapList (rosters r) t)) \<and>
     (\<forall>t p. present r t p \<longleftrightarrow> p \<in> set (mapList (rosters r) t)) \<and>
     (\<forall>t p. present r t p \<longrightarrow> t \<noteq> [] \<and> p \<noteq> [])"

lemma replayWf_empty: "replayWf emptyReplay"
  by (simp add: replayWf_def emptyReplay_def)

lemma distinct_update_keys:
  "distinct (map fst m) \<Longrightarrow> distinct (map fst (AList.update k v m))"
  by (rule distinct_update)

lemma replayWf_add: "replayWf r \<Longrightarrow> replayWf (rosterAdd t p r)"
  unfolding replayWf_def rosterAdd_def by (auto simp: distinct_update_keys)

lemma replayWf_remove: "replayWf r \<Longrightarrow> replayWf (rosterRemove t p r)"
  unfolding replayWf_def rosterRemove_def by (auto simp: distinct_update_keys)

lemma replayWf_pick: "replayWf r \<Longrightarrow> replayWf (replayPick pk r)"
  by (simp add: replayPick_def replayWf_add)

lemma replayWf_txn: "replayWf r \<Longrightarrow> replayWf (replayTxn txn r)"
  unfolding replayTxn_def Let_def
  by (auto intro!: fold_invariant_simple [where P = replayWf] replayWf_add replayWf_remove)

lemma replayWf_state: "replayWf (replayState st)"
  unfolding replayState_def
  by (intro fold_invariant_simple [where P = replayWf] replayWf_txn replayWf_pick replayWf_empty)

section \<open>Membership after each step\<close>

definition onRoster :: "replay \<Rightarrow> team_id \<Rightarrow> player_id \<Rightarrow> bool" where
  "onRoster r t p \<longleftrightarrow> p \<in> set (mapList (rosters r) t)"

lemma present_onRoster: "replayWf r \<Longrightarrow> present r t p = onRoster r t p"
  by (simp add: replayWf_def onRoster_def)

lemma onRoster_add:
  "replayWf r \<Longrightarrow> onRoster (rosterAdd t p r) u q \<longleftrightarrow>
     onRoster r u q \<or> (u = t \<and> q = p \<and> t \<noteq> [] \<and> p \<noteq> [])"
  unfolding replayWf_def rosterAdd_def onRoster_def by auto

lemma onRoster_nonempty: "replayWf r \<Longrightarrow> onRoster r t p \<Longrightarrow> t \<noteq> [] \<and> p \<noteq> []"
  unfolding replayWf_def onRoster_def by blast

lemma onRoster_remove:
  "replayWf r \<Longrightarrow> onRoster (rosterRemove t p r) u q \<longleftrightarrow> onRoster r u q \<and> \<not> (u = t \<and> q = p)"
  unfolding replayWf_def rosterRemove_def onRoster_def by (auto, blast+)

lemma onRoster_fold_add:
  "replayWf r \<Longrightarrow> onRoster (fold (\<lambda>g. rosterAdd t (f g)) xs r) u q \<longleftrightarrow>
     onRoster r u q \<or> (u = t \<and> q \<in> f ` set xs \<and> t \<noteq> [] \<and> q \<noteq> [])"
  by (induction xs arbitrary: r) (auto simp: onRoster_add replayWf_add)

lemma onRoster_fold_remove:
  "replayWf r \<Longrightarrow> onRoster (fold (\<lambda>g. rosterRemove t (f g)) xs r) u q \<longleftrightarrow>
     onRoster r u q \<and> \<not> (u = t \<and> q \<in> f ` set xs)"
  by (induction xs arbitrary: r) (auto simp: onRoster_remove replayWf_remove)

lemma replayWf_fold_add: "replayWf r \<Longrightarrow> replayWf (fold (\<lambda>g. rosterAdd t (f g)) xs r)"
  by (intro fold_invariant_simple [where P = replayWf] replayWf_add)

lemma replayWf_fold_remove: "replayWf r \<Longrightarrow> replayWf (fold (\<lambda>g. rosterRemove t (f g)) xs r)"
  by (intro fold_invariant_simple [where P = replayWf] replayWf_remove)

definition addIDs :: "transaction \<Rightarrow> player_id set" where
  "addIDs txn = tpPlayerID ` set (txnAdds txn)"

definition dropIDs :: "transaction \<Rightarrow> player_id set" where
  "dropIDs txn = tpPlayerID ` set (txnDrops txn)"

definition isTrade :: "transaction \<Rightarrow> bool" where
  "isTrade txn \<longleftrightarrow> txnType txn = TxnTrade \<and> txnOtherTeamID txn \<noteq> []"

lemmas roster_folds = onRoster_fold_add onRoster_fold_remove replayWf_fold_add replayWf_fold_remove

lemma onRoster_move:
  assumes "replayWf r" "\<not> isTrade txn"
  shows "onRoster (replayTxn txn r) u q \<longleftrightarrow>
    (onRoster r u q \<and> \<not> (u = txnTeamID txn \<and> q \<in> dropIDs txn)) \<or>
    (u = txnTeamID txn \<and> q \<in> addIDs txn \<and> u \<noteq> [] \<and> q \<noteq> [])"
  using assms
  by (auto simp: replayTxn_def Let_def isTrade_def roster_folds addIDs_def dropIDs_def)

lemma onRoster_trade:
  assumes "replayWf r" "isTrade txn"
  shows "onRoster (replayTxn txn r) u q \<longleftrightarrow>
    ((((onRoster r u q \<and> \<not> (u = txnTeamID txn \<and> q \<in> dropIDs txn)) \<or>
      (u = txnTeamID txn \<and> q \<in> addIDs txn \<and> u \<noteq> [] \<and> q \<noteq> [])) \<and>
     \<not> (u = txnOtherTeamID txn \<and> q \<in> addIDs txn)) \<or>
     (u = txnOtherTeamID txn \<and> q \<in> dropIDs txn \<and> q \<noteq> []))"
  using assms
  by (auto simp: replayTxn_def Let_def isTrade_def roster_folds addIDs_def dropIDs_def)

section \<open>One owner per player\<close>

definition oneOwner :: "replay \<Rightarrow> bool" where
  "oneOwner r \<longleftrightarrow> (\<forall>p t u. onRoster r t p \<longrightarrow> onRoster r u p \<longrightarrow> t = u)"

text \<open>
  What the guards of the mutators establish before an entry is logged: an add, drop or claim
  takes players nobody holds (or the team itself drops in the same entry) and releases its own
  players; a trade moves players the two named sides hold.
\<close>

definition unowned :: "replay \<Rightarrow> player_id \<Rightarrow> bool" where
  "unowned r p \<longleftrightarrow> list_all (\<lambda>e. p \<notin> set (snd e)) (rosters r)"

definition txnLegal :: "replay \<Rightarrow> transaction \<Rightarrow> bool" where
  "txnLegal r txn \<longleftrightarrow>
     (if isTrade txn
      then txnTeamID txn \<noteq> txnOtherTeamID txn \<and> txnTeamID txn \<noteq> [] \<and>
           (\<forall>g\<in>set (txnAdds txn). onRoster r (txnOtherTeamID txn) (tpPlayerID g)) \<and>
           (\<forall>d\<in>set (txnDrops txn). onRoster r (txnTeamID txn) (tpPlayerID d))
      else (\<forall>g\<in>set (txnAdds txn). unowned r (tpPlayerID g)))"

lemma onRoster_entries:
  "replayWf r \<Longrightarrow> onRoster r t p \<longleftrightarrow> (\<exists>ps. (t, ps) \<in> set (rosters r) \<and> p \<in> set ps)"
  unfolding replayWf_def onRoster_def
  by (auto dest: mapList_mem simp: mapList_distinct_keys)

lemma unowned_iff: "replayWf r \<Longrightarrow> unowned r p \<longleftrightarrow> (\<forall>t. \<not> onRoster r t p)"
  by (auto simp: unowned_def list_all_iff onRoster_entries)

fun legalLog :: "replay \<Rightarrow> transaction list \<Rightarrow> bool" where
  "legalLog r [] \<longleftrightarrow> True"
| "legalLog r (txn # txns) \<longleftrightarrow> txnLegal r txn \<and> legalLog (replayTxn txn r) txns"

lemma legalLog_append:
  "legalLog r (xs @ ys) \<longleftrightarrow> legalLog r xs \<and> legalLog (fold replayTxn xs r) ys"
  by (induction xs arbitrary: r) auto

lemma oneOwner_txn:
  assumes "replayWf r" "oneOwner r" "txnLegal r txn"
  shows "oneOwner (replayTxn txn r)"
proof (cases "isTrade txn")
  case True
  have gets: "\<And>q. q \<in> addIDs txn \<Longrightarrow> onRoster r (txnOtherTeamID txn) q"
    and gives: "\<And>q. q \<in> dropIDs txn \<Longrightarrow> onRoster r (txnTeamID txn) q"
    and ne: "txnTeamID txn \<noteq> txnOtherTeamID txn"
    using assms(3) True unfolding txnLegal_def addIDs_def dropIDs_def by auto
  show ?thesis unfolding oneOwner_def onRoster_trade [OF assms(1) True]
    using assms(2) gets gives ne unfolding oneOwner_def by metis
next
  case False
  have "\<And>q u. q \<in> addIDs txn \<Longrightarrow> \<not> onRoster r u q"
    using assms(3) False unowned_iff [OF assms(1)] unfolding txnLegal_def addIDs_def by auto
  then show ?thesis unfolding oneOwner_def onRoster_move [OF assms(1) False]
    using assms(2) unfolding oneOwner_def by metis
qed

lemma oneOwner_log:
  "replayWf r \<Longrightarrow> oneOwner r \<Longrightarrow> legalLog r txns \<Longrightarrow> oneOwner (fold replayTxn txns r)"
  by (induction txns arbitrary: r) (auto simp: oneOwner_txn replayWf_txn)

definition pickReplay :: "draft_pick list \<Rightarrow> replay" where
  "pickReplay pks = fold replayPick (sortStable pickLess pks) emptyReplay"

lemma replayWf_pickReplay: "replayWf (pickReplay pks)"
  unfolding pickReplay_def
  by (intro fold_invariant_simple [where P = replayWf] replayWf_pick replayWf_empty)

lemma onRoster_picks:
  "replayWf r \<Longrightarrow> onRoster (fold replayPick pks r) t p \<longleftrightarrow>
     onRoster r t p \<or> (\<exists>pk\<in>set pks. pickTeamID pk = t \<and> pickPlayerID pk = p \<and> t \<noteq> [] \<and> p \<noteq> [])"
  by (induction pks arbitrary: r) (auto simp: onRoster_add replayWf_add replayPick_def)

lemma onRoster_pickReplay:
  "onRoster (pickReplay pks) t p \<longleftrightarrow>
     (\<exists>pk\<in>set pks. pickTeamID pk = t \<and> pickPlayerID pk = p \<and> t \<noteq> [] \<and> p \<noteq> [])"
proof -
  have "\<not> onRoster emptyReplay t p" by (simp add: onRoster_def emptyReplay_def)
  then show ?thesis unfolding pickReplay_def by (simp add: onRoster_picks replayWf_empty)
qed

lemma oneOwner_pickReplay: "distinct (map pickPlayerID pks) \<Longrightarrow> oneOwner (pickReplay pks)"
  unfolding oneOwner_def onRoster_pickReplay by (auto simp: distinct_map dest: inj_onD)

definition rostersLegal :: "persisted_state \<Rightarrow> bool" where
  "rostersLegal st \<longleftrightarrow>
     distinct (map pickPlayerID (picks st)) \<and> legalLog (pickReplay (picks st)) (transactions st)"

lemma replayState_alt: "replayState st = fold replayTxn (transactions st) (pickReplay (picks st))"
  by (simp add: replayState_def pickReplay_def)

lemma oneOwner_state: "rostersLegal st \<Longrightarrow> oneOwner (replayState st)"
  by (simp add: rostersLegal_def replayState_alt oneOwner_log oneOwner_pickReplay replayWf_pickReplay)

lemma rostersLegal_append:
  assumes "rostersLegal st" "txnLegal (replayState st) txn"
  shows "rostersLegal (st\<lparr>transactions := transactions st @ [txn]\<rparr>)"
  using assms by (simp add: rostersLegal_def replayState_alt legalLog_append)

lemma replayState_append:
  "replayState (st\<lparr>transactions := transactions st @ [txn]\<rparr>) = replayTxn txn (replayState st)"
  by (simp add: replayState_alt)

section \<open>The ownership index\<close>

lemma ownerStep_apply: "ownerStep (t, ps) ow p = (if p \<in> set ps then t else ow p)"
  by (induction ps arbitrary: ow) (auto simp: ownerStep_def)

lemma fold_ownerStep_none:
  "\<forall>e\<in>set rs. p \<notin> set (snd e) \<Longrightarrow> fold ownerStep rs ow p = ow p"
  by (induction rs arbitrary: ow) (auto simp: ownerStep_apply)

lemma fold_ownerStep_some:
  "\<exists>e\<in>set rs. p \<in> set (snd e) \<Longrightarrow> \<exists>e\<in>set rs. p \<in> set (snd e) \<and> fold ownerStep rs ow p = fst e"
proof (induction rs arbitrary: ow)
  case (Cons e rs)
  show ?case
  proof (cases "\<exists>e\<in>set rs. p \<in> set (snd e)")
    case True
    then show ?thesis using Cons.IH [of "ownerStep e ow"] by auto
  next
    case False
    then show ?thesis using Cons.prems
      by (cases e) (auto simp: ownerStep_apply fold_ownerStep_none)
  qed
qed simp

lemma rosterOwner_none: "\<forall>e\<in>set rs. p \<notin> set (snd e) \<Longrightarrow> rosterOwner rs p = []"
  by (simp add: rosterOwner_def fold_ownerStep_none)

lemma rosterOwner_cases:
  "rosterOwner rs p = [] \<or> (\<exists>ps. (rosterOwner rs p, ps) \<in> set rs \<and> p \<in> set ps)"
proof (cases "\<exists>e\<in>set rs. p \<in> set (snd e)")
  case True
  then show ?thesis using fold_ownerStep_some [OF True, of "\<lambda>p. []"]
    unfolding rosterOwner_def by force
qed (simp add: rosterOwner_none)

lemma rosterOwner_disjoint:
  assumes "\<forall>e\<in>set rs. \<forall>f\<in>set rs. p \<in> set (snd e) \<longrightarrow> p \<in> set (snd f) \<longrightarrow> fst e = fst f"
    and "(t, ps) \<in> set rs" "p \<in> set ps"
  shows "rosterOwner rs p = t"
proof -
  have "\<exists>e\<in>set rs. p \<in> set (snd e)" using assms(2,3) by force
  from fold_ownerStep_some [OF this, of "\<lambda>p. []"]
  obtain e where e: "e \<in> set rs" "p \<in> set (snd e)" "rosterOwner rs p = fst e"
    unfolding rosterOwner_def by blast
  have "fst e = fst (t, ps)"
    by (rule assms(1) [rule_format, OF e(1) assms(2) e(2)]) (simp add: assms(3))
  then show ?thesis using e(3) by simp
qed

lemma rosterOf_onRoster: "p \<in> set (rosterOf st t) \<longleftrightarrow> onRoster (replayState st) t p"
  by (simp add: rosterOf_def currentRosters_def onRoster_def)

lemma ownerOf_onRoster: "ownerOf st p \<noteq> [] \<Longrightarrow> onRoster (replayState st) (ownerOf st p) p"
  using rosterOwner_cases [of "currentRosters st" p]
  by (auto simp: ownerOf_def currentRosters_def onRoster_entries replayWf_state)

lemma rosterOwner_empty:
  assumes "\<forall>e\<in>set rs. snd e \<noteq> [] \<longrightarrow> fst e \<noteq> []"
  shows "rosterOwner rs p = [] \<longleftrightarrow> list_all (\<lambda>e. p \<notin> set (snd e)) rs"
proof (cases "\<exists>e\<in>set rs. p \<in> set (snd e)")
  case True
  from fold_ownerStep_some [OF True, of "\<lambda>p. []"]
  obtain e where "e \<in> set rs" "p \<in> set (snd e)" "rosterOwner rs p = fst e"
    unfolding rosterOwner_def by blast
  moreover then have "fst e \<noteq> []" using assms by auto
  ultimately show ?thesis using True by (auto simp: list_all_iff)
next
  case False
  then show ?thesis by (auto simp: rosterOwner_none list_all_iff)
qed

lemma ownerOf_empty: "ownerOf st p = [] \<longleftrightarrow> unowned (replayState st) p"
proof -
  have "fst e \<noteq> []" if "e \<in> set (currentRosters st)" "snd e \<noteq> []" for e
  proof -
    have "onRoster (replayState st) (fst e) (hd (snd e))"
      using that unfolding onRoster_entries [OF replayWf_state] currentRosters_def
      by (intro exI [of _ "snd e"]) simp
    then show ?thesis using onRoster_nonempty [OF replayWf_state] by blast
  qed
  then show ?thesis unfolding ownerOf_def unowned_def
    by (subst rosterOwner_empty) (auto simp: currentRosters_def)
qed

lemma ownerOf_iff:
  assumes "rostersLegal st" "t \<noteq> []"
  shows "ownerOf st p = t \<longleftrightarrow> p \<in> set (rosterOf st t)"
  using assms oneOwner_state [OF assms(1)] ownerOf_onRoster [of st p] ownerOf_empty [of st p]
  unfolding rosterOf_onRoster oneOwner_def unowned_iff [OF replayWf_state] by metis

lemma rosterOf_distinct: "distinct (rosterOf st t)"
  using replayWf_state [of st] by (simp add: rosterOf_def currentRosters_def replayWf_def)

lemma rostersLegal_owner_perm:
  assumes "rostersLegal st" "mset rs = mset (currentRosters st)"
  shows "rosterOwner rs p = ownerOf st p"
proof -
  have same: "set rs = set (currentRosters st)" using assms(2) by (metis set_mset_mset)
  show ?thesis
  proof (cases "\<exists>e\<in>set rs. p \<in> set (snd e)")
    case False
    then show ?thesis using same by (simp add: ownerOf_def rosterOwner_none)
  next
    case True
    then obtain t ps where e: "(t, ps) \<in> set rs" "p \<in> set ps" by (auto simp: prod_eq_iff)
    have on: "onRoster (replayState st) (fst f) p" if "f \<in> set rs" "p \<in> set (snd f)" for f
      using that same unfolding onRoster_entries [OF replayWf_state] currentRosters_def
      by (intro exI [of _ "snd f"]) simp
    have agree: "\<forall>e\<in>set rs. \<forall>f\<in>set rs. p \<in> set (snd e) \<longrightarrow> p \<in> set (snd f) \<longrightarrow> fst e = fst f"
      using on oneOwner_state [OF assms(1)] unfolding oneOwner_def by blast
    have "rosterOwner rs p = t" by (rule rosterOwner_disjoint [OF agree e])
    moreover have "rosterOwner (currentRosters st) p = t"
      by (rule rosterOwner_disjoint [OF agree [unfolded same] e(1) [unfolded same] e(2)])
    ultimately show ?thesis by (simp add: ownerOf_def)
  qed
qed

section \<open>Properties\<close>

text \<open>Replaying any picks and any transaction log, whatever they contain, gives rosters
  with one entry per team and no player twice on a team, and the ownership index reads empty at
  a player exactly when no roster lists him.\<close>

theorem rosters_well_formed:
  "distinct (map fst (currentRosters st)) \<and> distinct (rosterOf st t) \<and>
   (ownerOf st p = [] \<longleftrightarrow> (\<forall>u. p \<notin> set (rosterOf st u)))"
  using replayWf_state [of st] rosterOf_distinct [of st t] ownerOf_empty [of st p]
  by (simp add: replayWf_def currentRosters_def unowned_iff replayWf_state rosterOf_onRoster)

text \<open>When the log is legal (each entry takes unowned players, or is a trade of players the
  two sides hold), the ownership index does not depend on the order in which the rosters map is
  iterated, and it names a team exactly when that team's roster lists the player.\<close>

theorem roster_owner_unique:
  assumes "rostersLegal st" "mset rs = mset (currentRosters st)" "t \<noteq> []"
  shows "rosterOwner rs p = t \<longleftrightarrow> p \<in> set (rosterOf st t)"
  using assms by (simp add: rostersLegal_owner_perm ownerOf_iff)

definition samplePick :: "int \<Rightarrow> team_id \<Rightarrow> player_id \<Rightarrow> draft_pick" where
  "samplePick n t p = \<lparr>pickNumber = n, pickRound = 1, pickTeamID = t, pickPlayerID = p,
     pickMadeAt = n, pickMadeBy = ByManager\<rparr>"

definition samplePlayer :: "player_id \<Rightarrow> txn_player" where
  "samplePlayer p = \<lparr>tpPlayerID = p, tpName = p, tpPosition = ''WR'', tpNFLTeam = ''BUF''\<rparr>"

definition sampleTxn :: "txn_type \<Rightarrow> team_id \<Rightarrow> team_id \<Rightarrow> player_id list \<Rightarrow> player_id list \<Rightarrow> time \<Rightarrow> transaction" where
  "sampleTxn k t u as ds when = \<lparr>txnID = ''txn'', txnSeason = 2026, txnWeek = 1, txnType = k,
     txnTeamID = t, txnOtherTeamID = u, txnAdds = map samplePlayer as,
     txnDrops = map samplePlayer ds, txnBid = 0, txnPosition = 0, txnOfferID = [],
     txnBy = ''manager'', txnNote = [], txnAt = when\<rparr>"

definition sampleRosterState :: persisted_state where
  "sampleRosterState = freshState\<lparr>picks := [samplePick 2 ''b'' ''p2'', samplePick 1 ''a'' ''p1''],
     transactions := [sampleTxn TxnAdd ''a'' [] [''p3''] [] 5,
       sampleTxn TxnTrade ''a'' ''b'' [''p2''] [''p1''] 7]\<rparr>"

lemmas sample_roster_simps = sampleRosterState_def freshState_def sampleTxn_def samplePick_def
  samplePlayer_def rostersLegal_def pickReplay_def sortStable_def pickLess_def replayPick_def
  emptyReplay_def rosterAdd_def rosterRemove_def txnLegal_def isTrade_def unowned_def
  onRoster_def mapList_def replayTxn_def Let_def currentRosters_def replayState_def
  rosterOf_def

theorem roster_owner_unique_witness:
  "rosterOwner (rev (currentRosters sampleRosterState)) ''p2'' = ''a''"
proof -
  have "rostersLegal sampleRosterState" by (simp add: sample_roster_simps)
  moreover have "''p2'' \<in> set (rosterOf sampleRosterState ''a'')" by (simp add: sample_roster_simps)
  ultimately show ?thesis
    using roster_owner_unique [of sampleRosterState "rev (currentRosters sampleRosterState)" "''a''" "''p2''"]
    by simp
qed

text \<open>A logged trade between two different teams, legal where it is appended, hands exactly the
  traded players over: afterwards the first team holds what it gets and nothing it gives, the
  other team holds what it is given, and no third roster changes.\<close>

theorem trade_swaps_players:
  assumes "rostersLegal st" "isTrade txn" "txnLegal (replayState st) txn"
  defines "st' \<equiv> st\<lparr>transactions := transactions st @ [txn]\<rparr>"
  shows "set (rosterOf st' (txnTeamID txn)) =
           (set (rosterOf st (txnTeamID txn)) - dropIDs txn) \<union> addIDs txn \<and>
         set (rosterOf st' (txnOtherTeamID txn)) =
           (set (rosterOf st (txnOtherTeamID txn)) - addIDs txn) \<union> dropIDs txn \<and>
         (\<forall>u. u \<noteq> txnTeamID txn \<and> u \<noteq> txnOtherTeamID txn \<longrightarrow>
            set (rosterOf st' u) = set (rosterOf st u))"
proof -
  have gets: "\<And>q. q \<in> addIDs txn \<Longrightarrow> onRoster (replayState st) (txnOtherTeamID txn) q"
    and gives: "\<And>q. q \<in> dropIDs txn \<Longrightarrow> onRoster (replayState st) (txnTeamID txn) q"
    and ne: "txnTeamID txn \<noteq> txnOtherTeamID txn"
    using assms(2,3) unfolding txnLegal_def addIDs_def dropIDs_def by auto
  note disj = oneOwner_state [OF assms(1), unfolded oneOwner_def, rule_format]
  have ids: "\<And>q. q \<in> addIDs txn \<Longrightarrow> q \<noteq> []" "\<And>q. q \<in> dropIDs txn \<Longrightarrow> q \<noteq> []"
    using gets gives onRoster_nonempty [OF replayWf_state [of st]] by blast+
  have teams: "txnTeamID txn \<noteq> []" "txnOtherTeamID txn \<noteq> []"
    using assms(2,3) unfolding txnLegal_def isTrade_def by auto
  have apart: "\<And>q. q \<in> addIDs txn \<Longrightarrow> q \<notin> dropIDs txn"
    using gets gives ne disj by blast
  have after: "set (rosterOf st' u) = {q. onRoster (replayTxn txn (replayState st)) u q}" for u
    by (auto simp: st'_def rosterOf_onRoster replayState_append)
  have before: "set (rosterOf st u) = {q. onRoster (replayState st) u q}" for u
    by (auto simp: rosterOf_onRoster)
  show ?thesis
    unfolding after before onRoster_trade [OF replayWf_state assms(2)]
    using gets gives ne apart ids teams
    by (intro conjI allI impI set_eqI; simp; blast)
qed

theorem trade_swaps_players_witness:
  "set (rosterOf (sampleRosterState\<lparr>transactions := transactions sampleRosterState
      @ [sampleTxn TxnTrade ''b'' ''a'' [''p3''] [''p1''] 9]\<rparr>) ''b'') = {''p3''}"
proof -
  let ?t = "sampleTxn TxnTrade ''b'' ''a'' [''p3''] [''p1''] 9"
  have legal: "rostersLegal sampleRosterState" by (simp add: sample_roster_simps)
  have trade: "isTrade ?t" by (simp add: isTrade_def sampleTxn_def)
  have ok: "txnLegal (replayState sampleRosterState) ?t" by (simp add: sample_roster_simps)
  have before: "set (rosterOf sampleRosterState ''b'') = {''p1''}" by (simp add: sample_roster_simps)
  show ?thesis
    using trade_swaps_players [OF legal trade ok] before
    by (simp add: sampleTxn_def dropIDs_def addIDs_def samplePlayer_def)
qed

end
