(* ===== verification/Calendar.thy ===== *)
theory Calendar
  imports Model
begin

text \<open>
  Wall clocks and the daily run (src/internal/league/waivers.go: waiverProcessClock,
  firstRunAtOrAfter, firstRunStrictlyAfter, nextWaiverProcessingRun, clearsAt; season.go:
  firstTurnAfter; rosterops.go: tradeExecutesAt). A location is Go's time.Location: an initial
  offset and a list of ascending transitions; time.Date resolves a wall clock with the two
  lookups the standard library makes. The time-zone database itself is a parameter, the field
  rcLoadLocation of the configuration.
\<close>

section \<open>Locations and time.Date\<close>

record location =
  locInitial :: duration
  locTransitions :: "(time \<times> duration) list"

definition utcLocation :: location where
  "utcLocation = \<lparr>locInitial = 0, locTransitions = []\<rparr>"

text \<open>Location.lookup: the offset in force at an instant with the ends of its validity.\<close>

fun lookupZone :: "duration \<Rightarrow> time option \<Rightarrow> (time \<times> duration) list \<Rightarrow> time \<Rightarrow>
    duration \<times> time option \<times> time option" where
  "lookupZone off start [] t = (off, start, None)"
| "lookupZone off start ((s, o') # rest) t =
     (if t < s then (off, start, Some s) else lookupZone o' (Some s) rest t)"

definition locLookup :: "location \<Rightarrow> time \<Rightarrow> duration \<times> time option \<times> time option" where
  "locLookup loc t = lookupZone (locInitial loc) None (locTransitions loc) t"

definition offsetAt :: "location \<Rightarrow> time \<Rightarrow> duration" where
  "offsetAt loc t = fst (locLookup loc t)"

definition wallClock :: "location \<Rightarrow> time \<Rightarrow> time" where
  "wallClock loc t = t + offsetAt loc t"

definition outsideZone :: "time \<Rightarrow> time option \<Rightarrow> time option \<Rightarrow> bool" where
  "outsideZone t start end' =
     ((case start of None \<Rightarrow> False | Some s \<Rightarrow> t < s) \<or>
      (case end' of None \<Rightarrow> False | Some e \<Rightarrow> t \<ge> e))"

definition dateOffset :: "location \<Rightarrow> time \<Rightarrow> duration" where
  "dateOffset loc w =
     (case locLookup loc w of (off, start, end') \<Rightarrow>
       if off = 0 then 0
       else if outsideZone (w - off) start end' then offsetAt loc (w - off)
       else off)"

text \<open>time.Date in a location, the date given as a wall-clock instant.\<close>

definition dateIn :: "location \<Rightarrow> time \<Rightarrow> time" where
  "dateIn loc w = w - dateOffset loc w"

definition dayLength :: duration where "dayLength = 24 * hour"

lemma dayLength_pos [simp]: "0 < dayLength" by (simp add: dayLength_def)

text \<open>Midnight of the wall-clock day an instant falls on, and AddDate(0, 0, n).\<close>

definition wallMidnight :: "location \<Rightarrow> time \<Rightarrow> time" where
  "wallMidnight loc t = (wallClock loc t div dayLength) * dayLength"

definition addDays :: "location \<Rightarrow> int \<Rightarrow> time \<Rightarrow> time" where
  "addDays loc n t = dateIn loc (wallClock loc t + n * dayLength)"

definition offsetsOf :: "location \<Rightarrow> duration list" where
  "offsetsOf loc = locInitial loc # map snd (locTransitions loc)"

text \<open>The offsets of a location lie within a spread of each other, and of zero.\<close>

definition spreadBelow :: "location \<Rightarrow> duration \<Rightarrow> bool" where
  "spreadBelow loc d \<longleftrightarrow> (\<forall>x\<in>set (offsetsOf loc). \<forall>y\<in>set (offsetsOf loc). x - y \<le> d)"

lemma lookupZone_offset: "fst (lookupZone off start trs t) \<in> insert off (set (map snd trs))"
  by (induction off start trs t rule: lookupZone.induct) auto

lemma offsetAt_mem: "offsetAt loc t \<in> set (offsetsOf loc)"
  using lookupZone_offset [of "locInitial loc" None "locTransitions loc" t]
  by (simp add: offsetAt_def locLookup_def offsetsOf_def)

lemma dateOffset_mem: "dateOffset loc w \<in> set (offsetsOf loc)"
proof -
  have "fst (locLookup loc w) \<in> set (offsetsOf loc)"
    using offsetAt_mem [of loc w] by (simp add: offsetAt_def)
  then show ?thesis
    by (auto simp: dateOffset_def offsetAt_mem split: prod.splits)
qed

lemma spread_offset: "spreadBelow loc d \<Longrightarrow> offsetAt loc t - offsetAt loc u \<le> d"
  using offsetAt_mem by (auto simp: spreadBelow_def)

lemma spread_date_offset: "spreadBelow loc d \<Longrightarrow> dateOffset loc w - offsetAt loc u \<le> d"
  using offsetAt_mem dateOffset_mem by (auto simp: spreadBelow_def)

lemma spread_offset_date: "spreadBelow loc d \<Longrightarrow> offsetAt loc u - dateOffset loc w \<le> d"
  using offsetAt_mem dateOffset_mem by (auto simp: spreadBelow_def)

lemma spread_nonneg: "spreadBelow loc d \<Longrightarrow> 0 \<le> d"
  by (auto simp: spreadBelow_def offsetsOf_def)

lemma wallMidnight_bounds:
  "wallMidnight loc t \<le> wallClock loc t \<and> wallClock loc t < wallMidnight loc t + dayLength"
proof -
  have "0 < dayLength" by (rule dayLength_pos)
  then have "wallClock loc t mod dayLength < dayLength" "0 \<le> wallClock loc t mod dayLength"
    by simp_all
  moreover have "wallClock loc t = wallMidnight loc t + wallClock loc t mod dayLength"
    by (simp add: wallMidnight_def)
  ultimately show ?thesis by linarith
qed

section \<open>The process clock\<close>

text \<open>strconv.Atoi and strings.SplitN(s, ":", 2), as waiverProcessClock uses them.\<close>

definition isDigit :: "char \<Rightarrow> bool" where
  "isDigit c = (48 \<le> (of_char c :: nat) \<and> (of_char c :: nat) \<le> 57)"

definition atoi :: "string \<Rightarrow> int option" where
  "atoi s =
     (let neg = (s \<noteq> [] \<and> hd s = CHR ''-'');
          ds = (if s \<noteq> [] \<and> (hd s = CHR ''-'' \<or> hd s = CHR ''+'') then tl s else s);
          n = int (decValue ds)
      in if ds = [] \<or> \<not> list_all isDigit ds then None
         else if neg then (if n \<le> 2 ^ 63 then Some (- n) else None)
         else if n < 2 ^ 63 then Some n else None)"

definition splitColon :: "string \<Rightarrow> (string \<times> string) option" where
  "splitColon s = (if CHR '':'' \<in> set s
     then Some (takeWhile (\<lambda>c. c \<noteq> CHR '':'') s, tl (dropWhile (\<lambda>c. c \<noteq> CHR '':'') s))
     else None)"

definition defaultDraftTZ :: string where
  "defaultDraftTZ = ''America/New_York''"

record run_config =
  rcProcessTime :: string
  rcTimezone :: string
  rcLoadLocation :: "string \<Rightarrow> location option"
  rcClearDays :: int
  rcReviewHours :: int

text \<open>
  The resolved configuration (config.go, Config): the fields of the daily run above, and the
  season, waiver and trade settings the rest of the development reads.
\<close>

record league_config = run_config +
  cfgSeason :: int
  cfgWaiverMode :: waiver_mode
  cfgSeasonWeightPct :: int
  cfgFAABBudget :: int
  cfgTradeDeadline :: string
  cfgVeto :: veto_policy
  cfgSha256 :: "string \<Rightarrow> digest"

definition processLocation :: "'z run_config_scheme \<Rightarrow> location" where
  "processLocation cfg =
     (case rcLoadLocation cfg (rcTimezone cfg) of
        Some loc \<Rightarrow> loc
      | None \<Rightarrow> (case rcLoadLocation cfg defaultDraftTZ of Some loc \<Rightarrow> loc | None \<Rightarrow> utcLocation))"

definition waiverProcessClock :: "'z run_config_scheme \<Rightarrow> int \<times> int \<times> location" where
  "waiverProcessClock cfg =
     (case splitColon (rcProcessTime cfg) of
        None \<Rightarrow> (9, 0, processLocation cfg)
      | Some (h, m) \<Rightarrow>
          (case atoi h of None \<Rightarrow> 9 | Some hv \<Rightarrow> hv,
           case atoi m of None \<Rightarrow> 0 | Some mv \<Rightarrow> mv,
           processLocation cfg))"

definition runTimeOfDay :: "'z run_config_scheme \<Rightarrow> duration" where
  "runTimeOfDay cfg = (case waiverProcessClock cfg of (h, m, loc) \<Rightarrow> h * hour + m * minute)"

definition firstRunAtOrAfter :: "'z run_config_scheme \<Rightarrow> time \<Rightarrow> time" where
  "firstRunAtOrAfter cfg start =
     (case waiverProcessClock cfg of (h, m, loc) \<Rightarrow>
       let candidate = dateIn loc (wallMidnight loc start + h * hour + m * minute)
       in if candidate < start then addDays loc 1 candidate else candidate)"

definition firstRunStrictlyAfter :: "'z run_config_scheme \<Rightarrow> time \<Rightarrow> time" where
  "firstRunStrictlyAfter cfg start =
     (let candidate = firstRunAtOrAfter cfg start
      in if \<not> candidate > start then addDays (processLocation cfg) 1 candidate else candidate)"

definition nextWaiverProcessingRun :: "'z run_config_scheme \<Rightarrow> time \<Rightarrow> time \<Rightarrow> time" where
  "nextWaiverProcessingRun cfg processedThrough now =
     (if isZero processedThrough then firstRunStrictlyAfter cfg now
      else firstRunStrictlyAfter cfg processedThrough)"

definition clearsAt :: "'z run_config_scheme \<Rightarrow> time \<Rightarrow> time" where
  "clearsAt cfg droppedAt =
     (case waiverProcessClock cfg of (h, m, loc) \<Rightarrow>
       firstRunAtOrAfter cfg (addDays loc (rcClearDays cfg) droppedAt))"

definition tradeExecutesAt :: "'z run_config_scheme \<Rightarrow> time \<Rightarrow> time" where
  "tradeExecutesAt cfg acceptedAt = firstRunAtOrAfter cfg (acceptedAt + rcReviewHours cfg * hour)"

lemma waiverProcessClock_location: "snd (snd (waiverProcessClock cfg)) = processLocation cfg"
  by (auto simp: waiverProcessClock_def split: option.splits)

section \<open>Bounds of the run instants\<close>

text \<open>
  A run configuration is tame when the process time is a time of day and the offsets of the
  league's location differ by at most half of it (so a 09:00 run tolerates any zone whose offsets
  differ by four and a half hours, and every zone of the database with a daylight shift does).
\<close>

definition tameRun :: "'z run_config_scheme \<Rightarrow> duration \<Rightarrow> bool" where
  "tameRun cfg d \<longleftrightarrow> spreadBelow (processLocation cfg) d \<and> 2 * d \<le> runTimeOfDay cfg \<and>
     runTimeOfDay cfg < dayLength"

lemma addDays_bounds:
  assumes "spreadBelow loc d"
  shows "t + n * dayLength - d \<le> addDays loc n t \<and> addDays loc n t \<le> t + n * dayLength + d"
  using spread_date_offset [OF assms, of "wallClock loc t + n * dayLength" t]
    spread_offset_date [OF assms, of t "wallClock loc t + n * dayLength"]
  by (simp add: addDays_def dateIn_def wallClock_def)

lemma firstRun_eq:
  "firstRunAtOrAfter cfg t =
     (let loc = processLocation cfg; c = dateIn loc (wallMidnight loc t + runTimeOfDay cfg)
      in if c < t then addDays loc 1 c else c)"
  using waiverProcessClock_location [of cfg]
  by (cases "waiverProcessClock cfg")
    (simp add: firstRunAtOrAfter_def runTimeOfDay_def Let_def add.assoc)

lemma firstRun_bounds:
  assumes "tameRun cfg d"
  shows "t \<le> firstRunAtOrAfter cfg t \<and> firstRunAtOrAfter cfg t < t + dayLength + d"
proof -
  let ?loc = "processLocation cfg"
  define c where c: "c = dateIn ?loc (wallMidnight ?loc t + runTimeOfDay cfg)"
  have r: "firstRunAtOrAfter cfg t = (if c < t then addDays ?loc 1 c else c)"
    by (simp add: firstRun_eq Let_def c)
  have sp: "spreadBelow ?loc d" and hm: "2 * d \<le> runTimeOfDay cfg" "runTimeOfDay cfg < dayLength"
    using assms by (auto simp: tameRun_def)
  note mid = wallMidnight_bounds [of ?loc t]
  let ?w = "wallMidnight ?loc t + runTimeOfDay cfg"
  have wall: "wallClock ?loc t = t + offsetAt ?loc t" by (simp add: wallClock_def)
  have cform: "c = ?w - dateOffset ?loc ?w" by (simp add: c dateIn_def)
  have low: "c > t + runTimeOfDay cfg - dayLength - d"
    using mid cform wall spread_date_offset [OF sp, of ?w t] by linarith
  have up: "c < t + dayLength + d"
    using mid cform wall hm spread_offset_date [OF sp, of t ?w] by linarith
  show ?thesis
  proof (cases "c < t")
    case True
    then show ?thesis using r low hm addDays_bounds [OF sp, of c 1] by simp
  next
    case False
    then show ?thesis using r up by simp
  qed
qed

lemma spread_small: "tameRun cfg d \<Longrightarrow> d < dayLength"
  using spread_nonneg [of "processLocation cfg" d] by (auto simp: tameRun_def)

lemma firstRunStrictly_bounds:
  assumes "tameRun cfg d"
  shows "t < firstRunStrictlyAfter cfg t \<and> firstRunStrictlyAfter cfg t < t + dayLength + d + 1"
proof -
  have sp: "spreadBelow (processLocation cfg) d" using assms by (simp add: tameRun_def)
  show ?thesis
    using firstRun_bounds [OF assms, of t] spread_small [OF assms]
      addDays_bounds [OF sp, of t 1]
    by (auto simp: firstRunStrictlyAfter_def Let_def)
qed

lemma clearsAt_bounds:
  assumes "tameRun cfg d"
  shows "droppedAt + rcClearDays cfg * dayLength - d \<le> clearsAt cfg droppedAt \<and>
         clearsAt cfg droppedAt < droppedAt + (rcClearDays cfg + 1) * dayLength + 2 * d"
proof -
  have sp: "spreadBelow (processLocation cfg) d" using assms by (simp add: tameRun_def)
  let ?t = "addDays (processLocation cfg) (rcClearDays cfg) droppedAt"
  have "clearsAt cfg droppedAt = firstRunAtOrAfter cfg ?t"
    using waiverProcessClock_location [of cfg]
    by (cases "waiverProcessClock cfg") (simp add: clearsAt_def)
  then show ?thesis
    using firstRun_bounds [OF assms, of ?t] addDays_bounds [OF sp, of droppedAt "rcClearDays cfg"]
    by (simp add: algebra_simps)
qed

section \<open>Properties\<close>

text \<open>For every tame run configuration the daily waiver run is found at or after the given
  instant and within a day (plus the zone's offset spread) of it, the next run after an instant
  is strictly later, so the processor always advances, and a dropped player clears no earlier
  than clear_days calendar days after the drop and at most one further day later.\<close>

theorem daily_run_bounds:
  assumes "tameRun cfg d"
  shows "t \<le> firstRunAtOrAfter cfg t \<and> firstRunAtOrAfter cfg t < t + dayLength + d \<and>
    t < firstRunStrictlyAfter cfg t \<and>
    (processed \<noteq> 0 \<longrightarrow> processed < nextWaiverProcessingRun cfg processed now) \<and>
    t + rcClearDays cfg * dayLength - d \<le> clearsAt cfg t \<and>
    clearsAt cfg t < t + (rcClearDays cfg + 1) * dayLength + 2 * d"
  using firstRun_bounds [OF assms, of t] firstRunStrictly_bounds [OF assms, of t]
    firstRunStrictly_bounds [OF assms, of processed] clearsAt_bounds [OF assms, of t]
  by (simp add: nextWaiverProcessingRun_def)

text \<open>A New York style location around one summer: standard time, daylight time, standard time.\<close>

definition newYork :: location where
  "newYork = \<lparr>locInitial = - 5 * hour,
     locTransitions = [(100 * dayLength + 7 * hour, - 4 * hour), (340 * dayLength + 6 * hour, - 5 * hour)]\<rparr>"

definition sampleConfig :: league_config where
  "sampleConfig = \<lparr>rcProcessTime = ''03:00'', rcTimezone = ''America/New_York'',
     rcLoadLocation = (\<lambda>z. if z = ''America/New_York'' then Some newYork else None),
     rcClearDays = 1, rcReviewHours = 24, cfgSeason = 2026, cfgWaiverMode = PerfPriority,
     cfgSeasonWeightPct = 50, cfgFAABBudget = 100, cfgTradeDeadline = [], cfgVeto = VetoBoth,
     cfgSha256 = (\<lambda>s. Digest (map of_char s))\<rparr>"

lemmas clock_units = dayLength_def hour_def minute_def second_def

lemma sampleConfig_location [simp]: "processLocation sampleConfig = newYork"
  by (simp add: processLocation_def sampleConfig_def)

lemma sampleConfig_time: "runTimeOfDay sampleConfig = 3 * hour"
  by (simp add: runTimeOfDay_def waiverProcessClock_def splitColon_def sampleConfig_def atoi_def
      decValue_def isDigit_def Let_def)

lemma sampleConfig_tame: "tameRun sampleConfig hour"
  by (simp add: tameRun_def sampleConfig_time spreadBelow_def offsetsOf_def newYork_def clock_units)

theorem daily_run_bounds_witness:
  "200 * dayLength \<le> firstRunAtOrAfter sampleConfig (200 * dayLength) \<and>
   firstRunAtOrAfter sampleConfig (200 * dayLength) < 201 * dayLength + hour"
  using daily_run_bounds [OF sampleConfig_tame, of "200 * dayLength" 0 0] by simp

text \<open>
  Outside tame configurations the documented bound can fail: with a run at 00:30 in a zone that
  skips the hour after midnight, the run found for 23:45 of the evening before the shift lies a
  quarter of an hour before that instant.
\<close>

definition midnightGap :: location where
  "midnightGap = \<lparr>locInitial = - 4 * hour, locTransitions = [(10 * dayLength + 4 * hour, - 3 * hour)]\<rparr>"

definition gapConfig :: league_config where
  "gapConfig = sampleConfig\<lparr>rcProcessTime := ''00:30'', rcLoadLocation := (\<lambda>z. Some midnightGap)\<rparr>"

lemma run_before_instant_in_midnight_gap:
  "firstRunAtOrAfter gapConfig (10 * dayLength + 3 * hour + 45 * minute) =
     10 * dayLength + 3 * hour + 30 * minute"
proof -
  have loc: "processLocation gapConfig = midnightGap"
    by (simp add: processLocation_def gapConfig_def sampleConfig_def)
  have tod: "runTimeOfDay gapConfig = 30 * minute"
    by (simp add: runTimeOfDay_def waiverProcessClock_def splitColon_def gapConfig_def
        sampleConfig_def atoi_def decValue_def isDigit_def Let_def)
  show ?thesis
    by (simp add: firstRun_eq Let_def loc tod midnightGap_def dateIn_def dateOffset_def locLookup_def
        outsideZone_def offsetAt_def wallMidnight_def wallClock_def addDays_def clock_units)
qed

end
