(* ===== verification/WeekLocks.thy ===== *)
theory WeekLocks
  imports Calendar
begin

text \<open>
  Which NFL week it is and what it locks: the week resolvers (pickem.go, lineup_deadline.go,
  feed.go), the kickoff lock (lineup.go), the lock of a kicked-off but unfinalized week
  (week_authority.go), and the readiness of a week to close (season.go).
\<close>

section \<open>Team abbreviations\<close>

text \<open>strings.TrimSpace and strings.ToUpper on ASCII text.\<close>

definition isSpaceChar :: "char \<Rightarrow> bool" where
  "isSpaceChar c = (let n = (of_char c :: nat) in n = 32 \<or> (9 \<le> n \<and> n \<le> 13))"

definition trimSpace :: "string \<Rightarrow> string" where
  "trimSpace s = rev (dropWhile isSpaceChar (rev (dropWhile isSpaceChar s)))"

definition upperChar :: "char \<Rightarrow> char" where
  "upperChar c = (let n = (of_char c :: nat) in if 97 \<le> n \<and> n \<le> 122 then char_of (n - 32) else c)"

definition toUpper :: "string \<Rightarrow> string" where
  "toUpper s = List.map upperChar s"

definition tank01ToNFLverse :: "(string \<times> string) list" where
  "tank01ToNFLverse = [(''LAR'', ''LA''), (''WSH'', ''WAS''), (''JAC'', ''JAX'')]"

definition normalizeNFLAbbreviation :: "string \<Rightarrow> string" where
  "normalizeNFLAbbreviation abbr =
     (let upper = toUpper (trimSpace abbr)
      in case map_of tank01ToNFLverse upper of Some mapped \<Rightarrow> mapped | None \<Rightarrow> upper)"

definition teamPlays :: "game_info \<Rightarrow> string \<Rightarrow> bool" where
  "teamPlays g nflTeam = (normalizeNFLAbbreviation (gameAway g) = normalizeNFLAbbreviation nflTeam \<or>
     normalizeNFLAbbreviation (gameHome g) = normalizeNFLAbbreviation nflTeam)"

section \<open>The current week\<close>

definition defaultSeasonStartWeek :: int where "defaultSeasonStartWeek = 1"

text \<open>The loop of pickemWeekAt: the largest week seen and the smallest upcoming one.\<close>

definition pickemStep :: "time \<Rightarrow> game_info \<Rightarrow> int \<times> int option \<Rightarrow> int \<times> int option" where
  "pickemStep cutoff g acc =
     (case acc of (largest, upcoming) \<Rightarrow>
       if gameWeek g \<le> 0 then acc
       else (max largest (gameWeek g),
             if gameKickoff g > cutoff \<and> (case upcoming of None \<Rightarrow> True | Some u \<Rightarrow> gameWeek g < u)
             then Some (gameWeek g) else upcoming))"

definition pickemWeekAt :: "game_info list \<Rightarrow> time \<Rightarrow> int" where
  "pickemWeekAt games now =
     (case fold (pickemStep (now - 4 * hour)) games (0, None) of
        (largest, Some u) \<Rightarrow> u
      | (largest, None) \<Rightarrow> if largest = 0 then defaultSeasonStartWeek else largest)"

definition heldStep :: "game_info \<Rightarrow> int \<Rightarrow> int" where
  "heldStep g current =
     (if gameWeek g > 0 \<and> gameWeek g < current \<and> isZero (gameKickoff g) then gameWeek g else current)"

definition lineupCurrentWeekAt :: "game_info list \<Rightarrow> time \<Rightarrow> int" where
  "lineupCurrentWeekAt games now = fold heldStep games (pickemWeekAt games now)"

definition firstKickoff :: "game_info list \<Rightarrow> int \<Rightarrow> time option" where
  "firstKickoff games week =
     fold (\<lambda>g best. if gameWeek g \<noteq> week then best
        else case best of None \<Rightarrow> Some (gameKickoff g)
          | Some b \<Rightarrow> if gameKickoff g < b then Some (gameKickoff g) else best) games None"

definition nextKickoffForTeam :: "game_info list \<Rightarrow> string \<Rightarrow> time \<Rightarrow> time option" where
  "nextKickoffForTeam games nflTeam now =
     fold (\<lambda>g best. if \<not> teamPlays g nflTeam \<or> gameKickoff g < now - 4 * hour then best
        else case best of None \<Rightarrow> Some (gameKickoff g)
          | Some b \<Rightarrow> if gameKickoff g < b then Some (gameKickoff g) else best) games None"

section \<open>Closed weeks\<close>

definition matchupsAllFinal :: "league_matchup list \<Rightarrow> bool" where
  "matchupsAllFinal ms = (ms \<noteq> [] \<and> list_all lmFinal ms)"

definition scheduleWeekIsFinal :: "schedule_week \<Rightarrow> bool" where
  "scheduleWeekIsFinal wk = matchupsAllFinal (swMatchups wk)"

definition scheduleWeekByNumber :: "season_schedule \<Rightarrow> int \<Rightarrow> schedule_week option" where
  "scheduleWeekByNumber sch week = find (\<lambda>wk. swWeek wk = week) (schWeeks sch)"

definition weekIsFinalInSchedule :: "season_schedule option \<Rightarrow> int \<Rightarrow> bool" where
  "weekIsFinalInSchedule sch week =
     (case sch of None \<Rightarrow> False
      | Some s \<Rightarrow> (case find (\<lambda>wk. swWeek wk = week) (schWeeks s) of
          None \<Rightarrow> False | Some wk \<Rightarrow> matchupsAllFinal (swMatchups wk)))"

definition scheduleHasAllFinalWeeks :: "season_schedule option \<Rightarrow> bool" where
  "scheduleHasAllFinalWeeks sch =
     (case sch of None \<Rightarrow> False
      | Some s \<Rightarrow> schWeeks s \<noteq> [] \<and> list_all (\<lambda>wk. matchupsAllFinal (swMatchups wk)) (schWeeks s))"

text \<open>
  currentScheduleWeek walks the weeks in order, keeping the largest number seen, and returns at
  the first matchup that is not final.
\<close>

fun currentWeekLoop :: "int \<Rightarrow> schedule_week list \<Rightarrow> int" where
  "currentWeekLoop lastWeek [] = lastWeek"
| "currentWeekLoop lastWeek (wk # wks) =
     (if list_ex (\<lambda>m. \<not> lmFinal m) (swMatchups wk) then swWeek wk
      else currentWeekLoop (max lastWeek (swWeek wk)) wks)"

definition currentScheduleWeek :: "season_schedule \<Rightarrow> int" where
  "currentScheduleWeek sch =
     (case schWeeks sch of [] \<Rightarrow> 0 | wk # wks \<Rightarrow> currentWeekLoop (swWeek wk) (wk # wks))"

definition nextOpenScheduleWeek :: "season_schedule option \<Rightarrow> int" where
  "nextOpenScheduleWeek sch =
     (case sch of None \<Rightarrow> 0
      | Some s \<Rightarrow> (case schWeeks s of [] \<Rightarrow> 0
          | w # ws \<Rightarrow>
             (let next' = fold (\<lambda>wk n. if scheduleWeekIsFinal wk then n
                    else if n = 0 \<or> swWeek wk < n then swWeek wk else n) (w # ws) 0
              in if next' = 0 then swWeek w else next')))"

section \<open>Kickoff locks\<close>

definition playerLockAt :: "game_info list \<Rightarrow> int \<Rightarrow> string \<Rightarrow> time option" where
  "playerLockAt games week nflTeam =
     map_option gameKickoff (find (\<lambda>g. gameWeek g = week \<and> teamPlays g nflTeam) games)"

definition playerLocked :: "game_info list \<Rightarrow> int \<Rightarrow> string \<Rightarrow> time \<Rightarrow> bool" where
  "playerLocked games week nflTeam now =
     (case playerLockAt games week nflTeam of None \<Rightarrow> False
      | Some kickoff \<Rightarrow> \<not> isZero kickoff \<and> \<not> now < kickoff)"

definition playerLockedByUnfinalizedWeek :: "persisted_state \<Rightarrow> game_info list \<Rightarrow> string \<Rightarrow> time \<Rightarrow> int option" where
  "playerLockedByUnfinalizedWeek st games nflTeam now =
     map_option gameWeek (find (\<lambda>g. \<not> (gameWeek g \<le> 0 \<or> isZero (gameKickoff g) \<or> now < gameKickoff g) \<and>
        teamPlays g nflTeam \<and> \<not> weekIsFinalInSchedule (seasonSchedule st) (gameWeek g)) games)"

definition playerLockedForRosterMutation :: "persisted_state \<Rightarrow> game_info list \<Rightarrow> int \<Rightarrow> string \<Rightarrow> time \<Rightarrow> bool" where
  "playerLockedForRosterMutation st games week nflTeam now =
     (playerLocked games week nflTeam now \<or> playerLockedByUnfinalizedWeek st games nflTeam now \<noteq> None)"

definition lineupWeekFinalLocked :: "persisted_state \<Rightarrow> int \<Rightarrow> bool" where
  "lineupWeekFinalLocked st week = weekIsFinalInSchedule (seasonSchedule st) week"

section \<open>Closing a week\<close>

definition gameFinalAt :: "game_info \<Rightarrow> time" where
  "gameFinalAt g = gameKickoff g + 5 * hour"

text \<open>
  weekCloseLastKickoff returns the last kickoff, whether the week has games, and whether every
  kickoff is known; it stops at the first game without one.
\<close>

fun lastKickoffLoop :: "int \<Rightarrow> time \<Rightarrow> bool \<Rightarrow> game_info list \<Rightarrow> time \<times> bool \<times> bool" where
  "lastKickoffLoop week lastK found [] = (lastK, found, True)"
| "lastKickoffLoop week lastK found (g # gs) =
     (if gameWeek g \<noteq> week then lastKickoffLoop week lastK found gs
      else if isZero (gameKickoff g) then (0, True, False)
      else lastKickoffLoop week (if gameKickoff g > lastK then gameKickoff g else lastK) True gs)"

definition weekCloseLastKickoff :: "game_info list \<Rightarrow> int \<Rightarrow> time \<times> bool \<times> bool" where
  "weekCloseLastKickoff games week = lastKickoffLoop week 0 False games"

text \<open>
  firstTurnAfter moves a candidate midnight forward a day at a time until it is a Tuesday after
  the given instant. Weekday numbers follow Go (Sunday is 0); day 0 of the time line, the first
  of January of year 1, is a Monday.
\<close>

definition weekdayOf :: "location \<Rightarrow> time \<Rightarrow> int" where
  "weekdayOf loc t = (wallClock loc t div dayLength + 1) mod 7"

fun turnLoop :: "nat \<Rightarrow> location \<Rightarrow> time \<Rightarrow> time \<Rightarrow> time option" where
  "turnLoop 0 loc start candidate = None"
| "turnLoop (Suc fuel) loc start candidate =
     (if weekdayOf loc candidate \<noteq> 2 \<or> \<not> candidate > start
      then turnLoop fuel loc start (addDays loc 1 candidate)
      else Some candidate)"

definition firstTurnAfter :: "location \<Rightarrow> time \<Rightarrow> time option" where
  "firstTurnAfter loc start = turnLoop 10 loc start (dateIn loc (wallMidnight loc start))"

definition weekCloseTurnAt :: "game_info list \<Rightarrow> int \<Rightarrow> location option \<Rightarrow> time option" where
  "weekCloseTurnAt games week location =
     (let loc = (case location of None \<Rightarrow> utcLocation | Some l \<Rightarrow> l)
      in case weekCloseLastKickoff games week of (lastK, found, kickoffOK) \<Rightarrow>
        if found \<and> kickoffOK \<and> \<not> isZero lastK then firstTurnAfter loc lastK
        else
          let start = fold (\<lambda>g nxt. if gameWeek g \<le> week \<or> isZero (gameKickoff g) then nxt
                else if isZero nxt \<or> gameKickoff g < nxt then gameKickoff g else nxt) games 0
          in if isZero start then None else Some start)"

definition weekCloseStatsSettleFloor :: "game_info list \<Rightarrow> int \<Rightarrow> time option" where
  "weekCloseStatsSettleFloor games week =
     (let e = fold (\<lambda>g e. if gameWeek g \<noteq> week \<or> isZero (gameKickoff g) then e
          else if isZero e \<or> gameFinalAt g > e then gameFinalAt g else e) games 0
      in if isZero e then None else Some e)"

datatype turn_block = TurnNotReached | LedgerNeverReported | LedgerBehind | TurnPassed

definition weekCloseTurnDue :: "game_info list \<Rightarrow> int \<Rightarrow> time \<Rightarrow> time \<Rightarrow> location option \<Rightarrow> bool \<times> turn_block" where
  "weekCloseTurnDue games week statsUpdatedAt now location =
     (case weekCloseTurnAt games week location of
        None \<Rightarrow> (False, TurnNotReached)
      | Some turn \<Rightarrow>
          if now < turn then (False, TurnNotReached)
          else if isZero statsUpdatedAt then (False, LedgerNeverReported)
          else if (case weekCloseStatsSettleFloor games week of None \<Rightarrow> False
                     | Some settled \<Rightarrow> statsUpdatedAt < settled) then (False, LedgerBehind)
          else (True, TurnPassed))"

definition weekCloseReady :: "game_info list \<Rightarrow> int \<Rightarrow> time \<Rightarrow> time \<Rightarrow> bool" where
  "weekCloseReady games week statsUpdatedAt now =
     (case weekCloseLastKickoff games week of (lastK, found, kickoffOK) \<Rightarrow>
       if \<not> found \<or> \<not> kickoffOK \<or> isZero statsUpdatedAt then False
       else if list_ex (\<lambda>g. gameWeek g = week \<and> \<not> gameFinal g) games then False
       else (case weekCloseStatsSettleFloor games week of None \<Rightarrow> False
             | Some settled \<Rightarrow> \<not> now < settled \<and> \<not> statsUpdatedAt < settled))"

section \<open>The week resolvers\<close>

lemma pickem_fold:
  "fold (pickemStep cutoff) games (l, u) = (l', u') \<Longrightarrow>
     l \<le> l' \<and> (l' = l \<or> (\<exists>g\<in>set games. gameWeek g = l')) \<and>
     (\<forall>g\<in>set games. 0 < gameWeek g \<longrightarrow> gameWeek g \<le> l') \<and>
     (\<forall>v. u = Some v \<longrightarrow> (\<exists>w. u' = Some w \<and> w \<le> v)) \<and>
     (\<forall>g\<in>set games. 0 < gameWeek g \<longrightarrow> cutoff < gameKickoff g \<longrightarrow> (\<exists>w. u' = Some w \<and> w \<le> gameWeek g)) \<and>
     (\<forall>w. u' = Some w \<longrightarrow> u = Some w \<or> (\<exists>g\<in>set games. 0 < gameWeek g \<and> gameWeek g = w))"
proof (induction games arbitrary: l u)
  case (Cons g gs)
  obtain l1 u1 where step: "pickemStep cutoff g (l, u) = (l1, u1)" by (cases "pickemStep cutoff g (l, u)")
  have IH: "fold (pickemStep cutoff) gs (l1, u1) = (l', u')" using Cons.prems step by simp
  note ih = Cons.IH [OF IH]
  have one: "l \<le> l1" "l1 = l \<or> gameWeek g = l1" "0 < gameWeek g \<longrightarrow> gameWeek g \<le> l1"
    "\<forall>v. u = Some v \<longrightarrow> (\<exists>w. u1 = Some w \<and> w \<le> v)"
    "0 < gameWeek g \<longrightarrow> cutoff < gameKickoff g \<longrightarrow> (\<exists>w. u1 = Some w \<and> w \<le> gameWeek g)"
    "\<forall>w. u1 = Some w \<longrightarrow> u = Some w \<or> (0 < gameWeek g \<and> gameWeek g = w)"
    using step by (auto simp: pickemStep_def max_def split: if_splits option.splits)
  have later: "\<exists>w. u' = Some w \<and> w \<le> v" if u1v: "\<exists>w. u1 = Some w \<and> w \<le> v" for v
  proof -
    obtain w where w: "u1 = Some w" "w \<le> v" using u1v by blast
    then obtain w' where "u' = Some w'" "w' \<le> w" using ih by blast
    then show ?thesis using w(2) by auto
  qed
  show ?case
  proof (intro conjI)
    show "l \<le> l'" using ih one(1) by linarith
    show "l' = l \<or> (\<exists>h\<in>set (g # gs). gameWeek h = l')" using ih one(2) by auto
    show "\<forall>h\<in>set (g # gs). 0 < gameWeek h \<longrightarrow> gameWeek h \<le> l'" using ih one(3) by auto
    show "\<forall>v. u = Some v \<longrightarrow> (\<exists>w. u' = Some w \<and> w \<le> v)"
      using later one(4) by blast
    show "\<forall>h\<in>set (g # gs). 0 < gameWeek h \<longrightarrow> cutoff < gameKickoff h \<longrightarrow> (\<exists>w. u' = Some w \<and> w \<le> gameWeek h)"
    proof (intro ballI impI)
      fix h assume h: "h \<in> set (g # gs)" "0 < gameWeek h" "cutoff < gameKickoff h"
      show "\<exists>w. u' = Some w \<and> w \<le> gameWeek h"
        using h ih one(5) later [of "gameWeek h"] by auto
    qed
    show "\<forall>w. u' = Some w \<longrightarrow> u = Some w \<or> (\<exists>h\<in>set (g # gs). 0 < gameWeek h \<and> gameWeek h = w)"
      using ih one(6) by auto
  qed
qed auto

lemma pickemWeekAt_spec:
  "0 < pickemWeekAt games now \<and>
   (pickemWeekAt games now = defaultSeasonStartWeek \<or> (\<exists>g\<in>set games. gameWeek g = pickemWeekAt games now)) \<and>
   (\<forall>g\<in>set games. 0 < gameWeek g \<longrightarrow> gameWeek g < pickemWeekAt games now \<longrightarrow>
      gameKickoff g \<le> now - 4 * hour)"
proof -
  obtain l u where f: "fold (pickemStep (now - 4 * hour)) games (0, None) = (l, u)"
    by (cases "fold (pickemStep (now - 4 * hour)) games (0, None)")
  note spec = pickem_fold [OF f]
  show ?thesis
  proof (cases u)
    case None
    then show ?thesis using spec f
      by (auto simp: pickemWeekAt_def defaultSeasonStartWeek_def not_less)
  next
    case (Some w)
    then show ?thesis using spec f
      by (auto simp: pickemWeekAt_def)
  qed
qed

lemma held_fold:
  "fold heldStep games c \<le> c \<and>
   (fold heldStep games c = c \<or> (\<exists>g\<in>set games. 0 < gameWeek g \<and> gameWeek g = fold heldStep games c)) \<and>
   (\<forall>g\<in>set games. 0 < gameWeek g \<longrightarrow> gameWeek g < fold heldStep games c \<longrightarrow> gameKickoff g \<noteq> 0)"
proof (induction games arbitrary: c)
  case (Cons g gs)
  have one: "heldStep g c \<le> c" "heldStep g c = c \<or> (0 < gameWeek g \<and> gameWeek g = heldStep g c)"
    "0 < gameWeek g \<longrightarrow> gameWeek g < heldStep g c \<longrightarrow> gameKickoff g \<noteq> 0"
    by (auto simp: heldStep_def)
  then show ?case using Cons.IH [of "heldStep g c"] by fastforce
qed simp

lemma lineupCurrentWeekAt_spec:
  "0 < lineupCurrentWeekAt games now \<and>
   (lineupCurrentWeekAt games now = defaultSeasonStartWeek \<or>
      (\<exists>g\<in>set games. gameWeek g = lineupCurrentWeekAt games now)) \<and>
   (\<forall>g\<in>set games. 0 < gameWeek g \<longrightarrow> gameWeek g < lineupCurrentWeekAt games now \<longrightarrow>
      gameKickoff g \<noteq> 0 \<and> gameKickoff g \<le> now - 4 * hour)"
  using held_fold [of games "pickemWeekAt games now"] pickemWeekAt_spec [of games now]
  unfolding lineupCurrentWeekAt_def by (smt (verit))

section \<open>Locks over time\<close>

lemma playerLocked_game:
  "playerLocked games week nflTeam now \<Longrightarrow>
     \<exists>g\<in>set games. gameWeek g = week \<and> teamPlays g nflTeam \<and> gameKickoff g \<noteq> 0 \<and> gameKickoff g \<le> now"
  by (auto simp: playerLocked_def playerLockAt_def find_Some_iff split: option.splits)

lemma unfinalized_lock:
  "playerLockedByUnfinalizedWeek st games nflTeam now \<noteq> None \<longleftrightarrow>
     (\<exists>g\<in>set games. 0 < gameWeek g \<and> gameKickoff g \<noteq> 0 \<and> gameKickoff g \<le> now \<and>
        teamPlays g nflTeam \<and> \<not> weekIsFinalInSchedule (seasonSchedule st) (gameWeek g))"
proof -
  have "find P games \<noteq> None \<longleftrightarrow> (\<exists>g\<in>set games. P g)" for P :: "game_info \<Rightarrow> bool"
    by (metis find_None_iff)
  then show ?thesis unfolding playerLockedByUnfinalizedWeek_def
    by (auto simp: not_less not_le)
qed

section \<open>The weekly turn\<close>

text \<open>A location in which every midnight exists on the wall clock.\<close>

definition midnightsExist :: "location \<Rightarrow> bool" where
  "midnightsExist loc \<longleftrightarrow> (\<forall>k. wallClock loc (dateIn loc (k * dayLength)) = k * dayLength)"

lemma addDays_midnight:
  assumes "midnightsExist loc" "wallClock loc t = k * dayLength"
  shows "wallClock loc (addDays loc n t) = (k + n) * dayLength"
  using assms by (simp add: addDays_def midnightsExist_def distrib_right [symmetric])

lemma weekday_midnight:
  "wallClock loc t = k * dayLength \<Longrightarrow> weekdayOf loc t = (k + 1) mod 7"
  using dayLength_pos by (simp add: weekdayOf_def dayLength_def hour_def minute_def second_def)

lemma turnLoop_result:
  assumes "midnightsExist loc"
  shows "wallClock loc c = k * dayLength \<Longrightarrow> turnLoop fuel loc start c = Some r \<Longrightarrow>
    \<exists>n. wallClock loc r = (k + n) * dayLength \<and> 0 \<le> n \<and> n < int fuel \<and> weekdayOf loc r = 2 \<and> start < r"
proof (induction fuel arbitrary: c k)
  case (Suc fuel)
  show ?case
  proof (cases "weekdayOf loc c \<noteq> 2 \<or> \<not> c > start")
    case True
    have "wallClock loc (addDays loc 1 c) = (k + 1) * dayLength"
      by (rule addDays_midnight [OF assms Suc.prems(1)])
    from Suc.IH [OF this] True Suc.prems(2)
    obtain n where "wallClock loc r = (k + 1 + n) * dayLength" "0 \<le> n" "n < int fuel"
      "weekdayOf loc r = 2" "start < r" by auto
    then show ?thesis by (intro exI [of _ "n + 1"]) (simp add: add.assoc add.commute)
  next
    case False
    then show ?thesis using Suc.prems by (intro exI [of _ 0]) auto
  qed
qed simp

lemma turnLoop_some:
  assumes "midnightsExist loc" "wallClock loc c = k * dayLength"
    and "\<And>t. wallClock loc t = (k + n) * dayLength \<Longrightarrow> start < t"
    and "0 \<le> n" "(k + n + 1) mod 7 = 2" "n < int fuel"
  shows "turnLoop fuel loc start c \<noteq> None"
  using assms(2-)
proof (induction fuel arbitrary: c k n)
  case (Suc fuel)
  show ?case
  proof (cases "weekdayOf loc c \<noteq> 2 \<or> \<not> c > start")
    case True
    have "n \<noteq> 0" using True Suc.prems weekday_midnight [of loc c k] by auto
    then have "turnLoop fuel loc start (addDays loc 1 c) \<noteq> None"
      using Suc.prems addDays_midnight [OF assms(1) Suc.prems(1), of 1]
      by (intro Suc.IH [of _ "k + 1" "n - 1"]) (auto simp: algebra_simps)
    then show ?thesis using True by simp
  next
    case False
    then show ?thesis by auto
  qed
qed simp

lemma firstTurn_total:
  assumes "midnightsExist loc" "spreadBelow loc d" "d < dayLength"
  shows "\<exists>r n. firstTurnAfter loc start = Some r \<and> start < r \<and> weekdayOf loc r = 2 \<and>
    wallClock loc r = wallMidnight loc start + n * dayLength \<and> 0 \<le> n \<and> n < 10"
proof -
  define k where "k = wallClock loc start div dayLength"
  let ?c = "dateIn loc (wallMidnight loc start)"
  have c: "wallClock loc ?c = k * dayLength"
    using assms(1) by (simp add: midnightsExist_def wallMidnight_def k_def)
  define n where "n = 2 + (1 - (k + 2)) mod 7"
  have n: "0 \<le> n" "2 \<le> n" "n < 10" "(k + n + 1) mod 7 = 2"
    unfolding n_def by (simp_all add: pos_mod_bound) presburger+
  have late: "start < t" if "wallClock loc t = (k + n) * dayLength" for t
  proof -
    have "wallClock loc start < (k + 1) * dayLength"
      using wallMidnight_bounds [of loc start] by (simp add: wallMidnight_def k_def distrib_right)
    moreover have "(k + 2) * dayLength \<le> (k + n) * dayLength"
      using n(2) less_imp_le [OF dayLength_pos] by (intro mult_right_mono) simp_all
    moreover have "(k + 2) * dayLength = (k + 1) * dayLength + dayLength" by (simp add: distrib_right)
    ultimately have "wallClock loc start + dayLength < wallClock loc t"
      unfolding that by linarith
    then show ?thesis
      using spread_offset [OF assms(2), of t start] assms(3) by (simp add: wallClock_def)
  qed
  have "turnLoop 10 loc start ?c \<noteq> None"
    by (rule turnLoop_some [OF assms(1) c late n(1) n(4)]) (use n(3) in auto)
  then obtain r where r: "turnLoop 10 loc start ?c = Some r" by blast
  from turnLoop_result [OF assms(1) c r] obtain m where m: "wallClock loc r = (k + m) * dayLength"
    "0 \<le> m" "m < 10" "weekdayOf loc r = 2" "start < r" by auto
  have "wallClock loc r = wallMidnight loc start + m * dayLength"
    using m(1) by (simp add: wallMidnight_def k_def distrib_right)
  then show ?thesis using m r by (auto simp: firstTurnAfter_def)
qed

section \<open>Readiness to close\<close>

lemma lastKickoffLoop_ok:
  "lastKickoffLoop week l found games = (l', f', True) \<Longrightarrow>
     (\<forall>g\<in>set games. gameWeek g = week \<longrightarrow> gameKickoff g \<noteq> 0 \<and> gameKickoff g \<le> l') \<and> l \<le> l' \<and>
     (f' = (found \<or> (\<exists>g\<in>set games. gameWeek g = week)))"
  by (induction week l found games rule: lastKickoffLoop.induct) (auto split: if_splits)

definition settleStep :: "int \<Rightarrow> game_info \<Rightarrow> time \<Rightarrow> time" where
  "settleStep week g e = (if gameWeek g \<noteq> week \<or> isZero (gameKickoff g) then e
     else if isZero e \<or> gameFinalAt g > e then gameFinalAt g else e)"

lemma settle_fold:
  "\<forall>g\<in>set games. 0 \<le> gameKickoff g \<Longrightarrow> 0 \<le> e \<Longrightarrow>
     e \<le> fold (settleStep week) games e \<and>
     (\<forall>g\<in>set games. gameWeek g = week \<longrightarrow> gameKickoff g \<noteq> 0 \<longrightarrow>
        gameFinalAt g \<le> fold (settleStep week) games e)"
proof (induction games arbitrary: e)
  case (Cons g gs)
  have fin: "0 < gameFinalAt g" using Cons.prems(1) by (simp add: gameFinalAt_def add_nonneg_pos)
  then have one: "e \<le> settleStep week g e" "0 \<le> settleStep week g e"
    "gameWeek g = week \<longrightarrow> gameKickoff g \<noteq> 0 \<longrightarrow> gameFinalAt g \<le> settleStep week g e"
    using Cons.prems(2) by (auto simp: settleStep_def)
  have ih: "settleStep week g e \<le> fold (settleStep week) gs (settleStep week g e)"
    "\<forall>h\<in>set gs. gameWeek h = week \<longrightarrow> gameKickoff h \<noteq> 0 \<longrightarrow>
        gameFinalAt h \<le> fold (settleStep week) gs (settleStep week g e)"
    using Cons.IH [OF _ one(2)] Cons.prems(1) by auto
  show ?case using one ih by fastforce
qed simp

lemma settleFloor_ge:
  assumes "\<forall>g\<in>set games. 0 \<le> gameKickoff g"
    and "weekCloseStatsSettleFloor games week = Some settled"
    and "g \<in> set games" "gameWeek g = week" "gameKickoff g \<noteq> 0"
  shows "gameFinalAt g \<le> settled"
proof -
  have "settled = fold (settleStep week) games 0"
    using assms(2) by (auto simp: weekCloseStatsSettleFloor_def Let_def settleStep_def [abs_def]
        split: if_splits)
  then show ?thesis using settle_fold [OF assms(1), of 0 week] assms(3-5) by auto
qed

section \<open>Properties\<close>

text \<open>The week a lock is judged against never runs ahead of the season: it is at least 1,
  it is a published week (or the default first week), and every published earlier week has only
  games with a known kickoff that lies at least four hours back.\<close>

theorem current_week_never_skips:
  "0 < lineupCurrentWeekAt games now \<and>
   (lineupCurrentWeekAt games now = defaultSeasonStartWeek \<or>
      lineupCurrentWeekAt games now \<in> gameWeek ` set games) \<and>
   \<not> (\<exists>g\<in>set games. 0 < gameWeek g \<and> gameWeek g < lineupCurrentWeekAt games now \<and>
      (gameKickoff g = 0 \<or> now - 4 * hour < gameKickoff g))"
  using lineupCurrentWeekAt_spec [of games now] by force

text \<open>A player whose game has kicked off in a week that is not yet final in the schedule stays
  locked against every roster mutation at every later instant, whatever week the resolvers have
  moved on to, until that week is final.\<close>

theorem kickoff_lock_survives_week_advance:
  assumes "playerLocked games week nflTeam now" "0 < week" "now \<le> later"
    and "\<not> weekIsFinalInSchedule (seasonSchedule st) week"
  shows "playerLockedForRosterMutation st games anyWeek nflTeam later"
proof -
  obtain g where "g \<in> set games" "gameWeek g = week" "teamPlays g nflTeam" "gameKickoff g \<noteq> 0"
    "gameKickoff g \<le> now" using playerLocked_game [OF assms(1)] by blast
  then have "playerLockedByUnfinalizedWeek st games nflTeam later \<noteq> None"
    unfolding unfinalized_lock using assms by auto
  then show ?thesis by (simp add: playerLockedForRosterMutation_def)
qed

definition sampleGame :: "int \<Rightarrow> time \<Rightarrow> string \<Rightarrow> string \<Rightarrow> bool \<Rightarrow> game_info" where
  "sampleGame w k a h f = \<lparr>gameID = ''g'', gameWeek = w, gameKickoff = k, gameAway = a,
     gameHome = h, gameFinal = f\<rparr>"

theorem kickoff_lock_survives_week_advance_witness:
  "playerLockedForRosterMutation freshState
     [sampleGame 1 100 ''LAR'' ''SF'' False, sampleGame 2 (300 * hour) ''LA'' ''SEA'' False] 2 ''LAR '' (200 * hour)"
  by (rule kickoff_lock_survives_week_advance [where week = 1 and now = 100])
    (simp_all add: playerLocked_def playerLockAt_def sampleGame_def teamPlays_def
      normalizeNFLAbbreviation_def tank01ToNFLverse_def trimSpace_def isSpaceChar_def toUpper_def
      upperChar_def Let_def weekIsFinalInSchedule_def freshState_def clock_units)

text \<open>C40: In every location whose midnights exist and whose offsets differ by less than a day, the
  search for the weekly turn ends within its ten steps: it returns a Tuesday midnight of the
  league's wall clock, strictly after the last kickoff and at most nine days after it.\<close>

theorem weekly_turn_found:
  assumes "midnightsExist loc" "spreadBelow loc d" "d < dayLength"
  shows "\<exists>r. firstTurnAfter loc start = Some r \<and> start < r \<and> weekdayOf loc r = 2 \<and>
    wallClock loc r mod dayLength = 0 \<and> wallClock loc r \<le> wallClock loc start + 9 * dayLength"
proof -
  from firstTurn_total [OF assms, of start] obtain r n where r: "firstTurnAfter loc start = Some r"
    "start < r" "weekdayOf loc r = 2" "wallClock loc r = wallMidnight loc start + n * dayLength"
    "0 \<le> n" "n < 10" by blast
  have le: "n * dayLength \<le> 9 * dayLength"
    using r(6) less_imp_le [OF dayLength_pos] by (intro mult_right_mono) simp_all
  have mid: "wallMidnight loc start \<le> wallClock loc start" using wallMidnight_bounds by blast
  have "wallClock loc r mod dayLength = 0"
    unfolding r(4) by (simp add: wallMidnight_def)
  moreover have "wallClock loc r \<le> wallClock loc start + 9 * dayLength"
    unfolding r(4) using le mid by (rule add_mono [rotated])
  ultimately show ?thesis using r(1-3) by - (intro exI [of _ r] conjI; assumption)
qed

lemma newYork_midnights: "midnightsExist newYork"
proof -
  have "wallClock newYork (dateIn newYork w) = w" if "w = k * dayLength" for w k
    using that
    by (auto simp: newYork_def dateIn_def dateOffset_def locLookup_def outsideZone_def offsetAt_def
        wallClock_def clock_units)
  then show ?thesis by (simp add: midnightsExist_def)
qed

theorem weekly_turn_found_witness:
  "\<exists>r. firstTurnAfter newYork (99 * dayLength) = Some r \<and> weekdayOf newYork r = 2"
  using weekly_turn_found [OF newYork_midnights, of hour "99 * dayLength"]
  by (auto simp: spreadBelow_def offsetsOf_def newYork_def clock_units)

text \<open>A week is only reported ready to close when it has games, every one of them is final,
  kicked off at a known time, and ended (kickoff plus five hours) no later than now and no later
  than the statistics were fetched.\<close>

theorem week_close_ready_sound:
  assumes "weekCloseReady games week statsUpdatedAt now" "\<forall>g\<in>set games. 0 \<le> gameKickoff g"
  shows "(\<exists>g\<in>set games. gameWeek g = week) \<and>
    (\<forall>g\<in>set games. gameWeek g = week \<longrightarrow> gameFinal g \<and> gameKickoff g \<noteq> 0 \<and>
       gameFinalAt g \<le> now \<and> gameFinalAt g \<le> statsUpdatedAt)"
proof -
  obtain l where l: "weekCloseLastKickoff games week = (l, True, True)"
    and fin: "\<not> list_ex (\<lambda>g. gameWeek g = week \<and> \<not> gameFinal g) games"
    and "\<exists>settled. weekCloseStatsSettleFloor games week = Some settled \<and> settled \<le> now \<and> settled \<le> statsUpdatedAt"
    using assms(1) by (auto simp: weekCloseReady_def not_less split: prod.splits if_splits option.splits)
  then obtain settled where s: "weekCloseStatsSettleFloor games week = Some settled" "settled \<le> now"
    "settled \<le> statsUpdatedAt" by blast
  note loop = lastKickoffLoop_ok [OF l [unfolded weekCloseLastKickoff_def]]
  show ?thesis
    using loop fin settleFloor_ge [OF assms(2) s(1)] s(2,3)
    by (auto simp: list_ex_iff intro: order_trans)
qed

theorem week_close_ready_sound_witness:
  "gameFinalAt (sampleGame 3 (10 * hour) ''BUF'' ''MIA'' True) \<le> 20 * hour"
  using week_close_ready_sound [of "[sampleGame 3 (10 * hour) ''BUF'' ''MIA'' True]" 3 "16 * hour" "20 * hour"]
  by (simp add: weekCloseReady_def weekCloseLastKickoff_def weekCloseStatsSettleFloor_def
      sampleGame_def gameFinalAt_def Let_def clock_units)

end
