(* ===== verification/Zones.thy ===== *)
theory Zones
  imports Rosters WeekLocks
begin

text \<open>
  Reserve and IR zones and the roster cap (src/internal/league/zones.go, the cap of lineup.go's
  RosterPreset and Store.RecordTransaction in store.go). A zone assignment is an overlay on the
  derived roster; IR occupants do not count against the cap. The map of a team's zones is an
  association list with distinct keys. No mutator here restores the in-memory state after a
  failed persist.
\<close>

section \<open>The roster shape\<close>

definition presetStarters :: "roster_preset \<Rightarrow> int" where
  "presetStarters p = sum_list (map snd (presetSlots p))"

definition presetReserveTotal :: "roster_preset \<Rightarrow> int" where
  "presetReserveTotal p = sum_list (map snd (presetReserve p))"

definition presetTotal :: "roster_preset \<Rightarrow> int" where
  "presetTotal p = presetStarters p + presetBench p + presetReserveTotal p"

definition playerPoolPositions :: "string list" where
  "playerPoolPositions = [''QB'', ''RB'', ''WR'', ''TE'', ''DST'', ''K'', ''P'']"

definition validPoolPosition :: "string \<Rightarrow> bool" where
  "validPoolPosition key = list_ex (\<lambda>p. p = key) playerPoolPositions"

datatype shape_error = UnknownReservePosition string | ReserveOutOfRange string | IROutOfRange
  | UnknownLimitPosition string | LimitOutOfRange string

definition validateZonesAndLimits ::
    "(string \<times> int) list \<Rightarrow> int \<Rightarrow> (string \<times> int) list \<Rightarrow> shape_error option" where
  "validateZonesAndLimits reserve ir limits =
     (case firstError (\<lambda>(key, n).
              if \<not> validPoolPosition key then Some (UnknownReservePosition key)
              else if n < 0 \<or> n > 4 then Some (ReserveOutOfRange key) else None) reserve of
        Some e \<Rightarrow> Some e
      | None \<Rightarrow>
          if ir < 0 \<or> ir > 10 then Some IROutOfRange
          else firstError (\<lambda>(key, n).
              if \<not> validPoolPosition key then Some (UnknownLimitPosition key)
              else if n < 1 \<or> n > 20 then Some (LimitOutOfRange key) else None) limits)"

section \<open>Zone reads\<close>

definition zonesOf :: "persisted_state \<Rightarrow> team_id \<Rightarrow> (player_id \<times> zone_assignment) list" where
  "zonesOf st t = mapList (rosterZones st) t"

definition zoneOfPlayer :: "persisted_state \<Rightarrow> team_id \<Rightarrow> player_id \<Rightarrow> zone_kind option" where
  "zoneOfPlayer st t p = map_option zaZone (map_of (zonesOf st t) p)"

definition splitRosterZones :: "persisted_state \<Rightarrow> team_id \<Rightarrow> player list \<Rightarrow>
    player list \<times> player list \<times> player list" where
  "splitRosterZones st t roster =
     (filter (\<lambda>p. zoneOfPlayer st t (playerID p) = None) roster,
      filter (\<lambda>p. zoneOfPlayer st t (playerID p) = Some ZoneReserve) roster,
      filter (\<lambda>p. zoneOfPlayer st t (playerID p) = Some ZoneIR) roster)"

definition reserveOccupantCount :: "persisted_state \<Rightarrow> team_id \<Rightarrow> string \<Rightarrow> int" where
  "reserveOccupantCount st t pos =
     int (length (filter (\<lambda>(p, za). zaZone za = ZoneReserve \<and> zaPosition za = pos) (zonesOf st t)))"

definition irOccupantCount :: "persisted_state \<Rightarrow> team_id \<Rightarrow> int" where
  "irOccupantCount st t = int (length (filter (\<lambda>(p, za). zaZone za = ZoneIR) (zonesOf st t)))"

definition effectiveRosterSize :: "persisted_state \<Rightarrow> team_id \<Rightarrow> int" where
  "effectiveRosterSize st t = int (length (rosterOf st t)) - irOccupantCount st t"

definition creditedDropCount :: "persisted_state \<Rightarrow> team_id \<Rightarrow> player_id list \<Rightarrow> int" where
  "creditedDropCount st t ids = int (length (filter (\<lambda>p. zoneOfPlayer st t p \<noteq> Some ZoneIR) ids))"

definition maxOpenClaimsPerTeam :: "league_env \<Rightarrow> int" where
  "maxOpenClaimsPerTeam env = presetTotal (envRoster env)"

text \<open>
  teamWouldBreachLimit counts positions over the team's non-IR players, the outgoing and the
  incoming. The counts map becomes an association list in order of first use, so with several
  breaches the model names the first of them, where Go's map order names any.
\<close>

definition bumpCount :: "string \<Rightarrow> int \<Rightarrow> (string \<times> int) list \<Rightarrow> (string \<times> int) list" where
  "bumpCount k n counts =
     AList.update k ((case map_of counts k of None \<Rightarrow> 0 | Some c \<Rightarrow> c) + n) counts"

definition countPlayer :: "(player_id \<Rightarrow> player option) \<Rightarrow> int \<Rightarrow> player_id \<Rightarrow> (string \<times> int) list \<Rightarrow> (string \<times> int) list" where
  "countPlayer pool n p counts =
     (case pool p of None \<Rightarrow> counts | Some pl \<Rightarrow> bumpCount (playerPosition pl) n counts)"

definition positionCounts :: "persisted_state \<Rightarrow> (player_id \<Rightarrow> player option) \<Rightarrow> team_id \<Rightarrow>
    player_id list \<Rightarrow> player_id list \<Rightarrow> (string \<times> int) list" where
  "positionCounts st pool t incoming outgoing =
     (let held = filter (\<lambda>p. zoneOfPlayer st t p \<noteq> Some ZoneIR) (rosterOf st t);
          out = filter (\<lambda>p. zoneOfPlayer st t p \<noteq> Some ZoneIR) outgoing
      in fold (countPlayer pool 1) incoming
           (fold (countPlayer pool (- 1)) out (fold (countPlayer pool 1) held [])))"

definition overLimit :: "(string \<times> int) list \<Rightarrow> string \<times> int \<Rightarrow> bool" where
  "overLimit limits e = (case map_of limits (fst e) of None \<Rightarrow> False | Some cap \<Rightarrow> cap > 0 \<and> snd e > cap)"

definition teamWouldBreachLimit :: "league_env \<Rightarrow> persisted_state \<Rightarrow> (player_id \<Rightarrow> player option) \<Rightarrow>
    team_id \<Rightarrow> player_id list \<Rightarrow> player_id list \<Rightarrow> (string \<times> int) option" where
  "teamWouldBreachLimit env st pool t incoming outgoing =
     (let limits = presetLimits (envRoster env)
      in if limits = [] then None
         else (case find (overLimit limits) (positionCounts st pool t incoming outgoing) of
                 None \<Rightarrow> None
               | Some (pos, n) \<Rightarrow> Some (pos, the (map_of limits pos))))"

section \<open>Store operations\<close>

datatype roster_error = UnknownTeam team_id | AlreadyRostered string | NotOnTeam
  | LockedNoDrop string | RosterFullDrop | AlreadyZoned | LockedNoMove string
  | LockedNoActivate string | NoLongerOnIR string | IDUnavailable

definition lockedNow :: "persisted_state \<Rightarrow> game_info list \<Rightarrow> string \<Rightarrow> time \<Rightarrow> bool" where
  "lockedNow st games nflTeam now =
     (games \<noteq> [] \<and> playerLockedForRosterMutation st games (lineupCurrentWeekAt games now) nflTeam now)"

definition setZones :: "team_id \<Rightarrow> (player_id \<times> zone_assignment) list \<Rightarrow> persisted_state \<Rightarrow> persisted_state" where
  "setZones t zs st = st\<lparr>rosterZones := AList.update t zs (rosterZones st)\<rparr>"

definition deleteZone :: "team_id \<Rightarrow> player_id \<Rightarrow> persisted_state \<Rightarrow> persisted_state" where
  "deleteZone t p st = setZones t (AList.delete p (zonesOf st t)) st"

definition clearZoneAssignments :: "team_id \<Rightarrow> player_id list \<Rightarrow> persisted_state \<Rightarrow> persisted_state" where
  "clearZoneAssignments t ids st = (if zonesOf st t = [] then st else fold (deleteZone t) ids st)"

definition appendTransaction :: "transaction \<Rightarrow> persisted_state \<Rightarrow> persisted_state" where
  "appendTransaction txn st = st\<lparr>transactions := transactions st @ [txn]\<rparr>"

definition recordGuard :: "league_env \<Rightarrow> persisted_state \<Rightarrow> transaction \<Rightarrow> int \<Rightarrow> game_info list \<Rightarrow> time \<Rightarrow> roster_error option" where
  "recordGuard env st txn rosterCap games now =
     (let t = txnTeamID txn; owner = ownerOf st; ids = map tpPlayerID (txnDrops txn) in
      if \<not> knownTeam env t then Some (UnknownTeam t)
      else case firstError (\<lambda>g. if owner (tpPlayerID g) \<noteq> [] then Some (AlreadyRostered (tpName g)) else None)
                 (txnAdds txn) of
        Some e \<Rightarrow> Some e
      | None \<Rightarrow>
       (case firstError (\<lambda>d. if owner (tpPlayerID d) \<noteq> t then Some NotOnTeam
                 else if lockedNow st games (tpNFLTeam d) now then Some (LockedNoDrop (tpName d)) else None)
               (txnDrops txn) of
          Some e \<Rightarrow> Some e
        | None \<Rightarrow>
            if effectiveRosterSize st t + int (length (txnAdds txn)) - creditedDropCount st t ids > rosterCap
            then Some RosterFullDrop else None))"

definition recordTransactionWithAuthority :: "league_env \<Rightarrow> transaction \<Rightarrow> int \<Rightarrow> game_info list \<Rightarrow> time \<Rightarrow>
    bool \<Rightarrow> store \<Rightarrow> (store, roster_error, unit) outcome" where
  "recordTransactionWithAuthority env txn rosterCap games now persistOK s = gated s
     (case recordGuard env (stState s) txn rosterCap games now of
        Some e \<Rightarrow> rejected e s
      | None \<Rightarrow> commitOnly persistOK s
          (clearZoneAssignments (txnTeamID txn) (map tpPlayerID (txnDrops txn))
             (appendTransaction txn (stState s))) ())"

definition placeInZoneWithAuthority :: "team_id \<Rightarrow> player_id \<Rightarrow> zone_kind \<Rightarrow> string \<Rightarrow> string \<times> string \<Rightarrow>
    game_info list \<Rightarrow> time \<Rightarrow> bool \<Rightarrow> store \<Rightarrow> (store, roster_error, unit) outcome" where
  "placeInZoneWithAuthority t p zone pos player games now persistOK s = gated s
     (let st = stState s in
      if ownerOf st p \<noteq> t then rejected NotOnTeam s
      else if map_of (zonesOf st t) p \<noteq> None then rejected AlreadyZoned s
      else if lockedNow st games (snd player) now then rejected (LockedNoMove (fst player)) s
      else commitOnly persistOK s
        (setZones t (AList.update p \<lparr>zaZone = zone, zaPosition = pos, zaPlacedAt = now\<rparr> (zonesOf st t)) st) ())"

definition clearZoneWithAuthority :: "team_id \<Rightarrow> player_id \<Rightarrow> zone_kind \<Rightarrow> string \<times> string \<Rightarrow>
    game_info list \<Rightarrow> time \<Rightarrow> bool \<Rightarrow> store \<Rightarrow> (store, roster_error, unit) outcome" where
  "clearZoneWithAuthority t p expectZone player games now persistOK s = gated s
     (let st = stState s in
      if zoneOfPlayer st t p \<noteq> Some expectZone then rejected NotOnTeam s
      else if lockedNow st games (snd player) now then rejected (LockedNoActivate (fst player)) s
      else commitOnly persistOK s (deleteZone t p st) ())"

definition activateGuard :: "persisted_state \<Rightarrow> team_id \<Rightarrow> player_id \<Rightarrow> transaction \<Rightarrow> game_info list \<Rightarrow>
    (player_id \<Rightarrow> player option) \<Rightarrow> time \<Rightarrow> roster_error option" where
  "activateGuard st t p dropTxn games pool now =
     (if zoneOfPlayer st t p \<noteq> Some ZoneIR then Some NotOnTeam
      else case (case pool p of None \<Rightarrow> None
             | Some active \<Rightarrow> if lockedNow st games (playerNFLTeam active) now
                 then Some (LockedNoActivate (playerName active)) else None) of
        Some e \<Rightarrow> Some e
      | None \<Rightarrow> firstError (\<lambda>d. if ownerOf st (tpPlayerID d) \<noteq> t then Some NotOnTeam
              else case pool (tpPlayerID d) of None \<Rightarrow> None
                | Some dp \<Rightarrow> if lockedNow st games (playerNFLTeam dp) now
                    then Some (LockedNoDrop (playerName dp)) else None) (txnDrops dropTxn))"

definition activateFromIRWithDropAuthority :: "team_id \<Rightarrow> player_id \<Rightarrow> transaction \<Rightarrow> game_info list \<Rightarrow>
    (player_id \<Rightarrow> player option) \<Rightarrow> time \<Rightarrow> bool \<Rightarrow> store \<Rightarrow> (store, roster_error, unit) outcome" where
  "activateFromIRWithDropAuthority t p dropTxn games pool now persistOK s = gated s
     (case activateGuard (stState s) t p dropTxn games pool now of
        Some e \<Rightarrow> rejected e s
      | None \<Rightarrow> commitOnly persistOK s (appendTransaction dropTxn (deleteZone t p (stState s))) ())"

text \<open>
  AutoCutHealedIR deletes the assignment before it draws the transaction ID, so when the draw
  fails (newID is None) the error returns with the assignment already gone.
\<close>

definition autoCutHealedIR :: "team_id \<Rightarrow> txn_player \<Rightarrow> int \<Rightarrow> int \<Rightarrow> time \<Rightarrow> string option \<Rightarrow>
    bool \<Rightarrow> store \<Rightarrow> (store, roster_error, transaction) outcome" where
  "autoCutHealedIR t player season week now newID persistOK s = gated s
     (let st = stState s in
      if zoneOfPlayer st t (tpPlayerID player) \<noteq> Some ZoneIR then rejected (NoLongerOnIR (tpName player)) s
      else
        let st1 = deleteZone t (tpPlayerID player) st in
        case newID of
          None \<Rightarrow> rejected IDUnavailable (s\<lparr>stState := st1\<rparr>)
        | Some i \<Rightarrow>
            let txn = \<lparr>txnID = i, txnSeason = season, txnWeek = week, txnType = TxnAutoDrop,
                  txnTeamID = t, txnOtherTeamID = [], txnAdds = [], txnDrops = [player],
                  txnBid = 0, txnPosition = 0, txnOfferID = [], txnBy = ''system'',
                  txnNote = [], txnAt = now\<rparr>
            in commitOnly persistOK s (appendTransaction txn st1) txn)"

section \<open>The mutators are gated\<close>

lemmas store_op_defs = gated_def rejected_def commitOnly_def commitOrRestore_def

interpretation record_op: gated_op "recordTransactionWithAuthority env txn cap games now"
  by unfold_locales
    (auto simp: recordTransactionWithAuthority_def store_op_defs split: option.splits if_splits)

interpretation place_op: gated_op "placeInZoneWithAuthority t p zone pos player games now"
  by unfold_locales (auto simp: placeInZoneWithAuthority_def store_op_defs Let_def split: if_splits)

interpretation clear_op: gated_op "clearZoneWithAuthority t p zone player games now"
  by unfold_locales (auto simp: clearZoneWithAuthority_def store_op_defs Let_def split: if_splits)

interpretation activate_op: gated_op "activateFromIRWithDropAuthority t p dropTxn games pool now"
  by unfold_locales
    (auto simp: activateFromIRWithDropAuthority_def store_op_defs split: option.splits if_splits)

section \<open>Zone overlays\<close>

definition zonesWf :: "persisted_state \<Rightarrow> bool" where
  "zonesWf st \<longleftrightarrow> (\<forall>t. distinct (map fst (zonesOf st t)))"

definition zonesOnRoster :: "persisted_state \<Rightarrow> bool" where
  "zonesOnRoster st \<longleftrightarrow> (\<forall>t p. zoneOfPlayer st t p \<noteq> None \<longrightarrow> p \<in> set (rosterOf st t))"

definition irTags :: "persisted_state \<Rightarrow> team_id \<Rightarrow> player_id set" where
  "irTags st t = {p. zoneOfPlayer st t p = Some ZoneIR}"

lemma zonesOf_setZones [simp]: "zonesOf (setZones t zs st) u = (if u = t then zs else zonesOf st u)"
  by (simp add: zonesOf_def setZones_def)

lemma zonesOf_deleteZone [simp]:
  "zonesOf (deleteZone t p st) u = (if u = t then AList.delete p (zonesOf st t) else zonesOf st u)"
  by (simp add: deleteZone_def)

lemma zonesOf_fold_delete:
  "zonesOf (fold (deleteZone t) ids st) u =
     (if u = t then filter (\<lambda>e. fst e \<notin> set ids) (zonesOf st t) else zonesOf st u)"
  by (induction ids arbitrary: st) (auto simp: AList.delete_eq intro: filter_cong)

lemma zonesOf_clear:
  "zonesOf (clearZoneAssignments t ids st) u =
     (if u = t then filter (\<lambda>e. fst e \<notin> set ids) (zonesOf st t) else zonesOf st u)"
  by (auto simp: clearZoneAssignments_def zonesOf_fold_delete)

lemma state_deleteZone [simp]:
  "transactions (deleteZone t p st) = transactions st" "picks (deleteZone t p st) = picks st"
  by (simp_all add: deleteZone_def setZones_def)

lemma state_fold_delete [simp]:
  "transactions (fold (deleteZone t) ids st) = transactions st"
  "picks (fold (deleteZone t) ids st) = picks st"
  by (induction ids arbitrary: st) simp_all

lemma state_clear [simp]:
  "transactions (clearZoneAssignments t ids st) = transactions st"
  "picks (clearZoneAssignments t ids st) = picks st"
  by (simp_all add: clearZoneAssignments_def)

lemma rosterOf_cong:
  "transactions st = transactions st' \<Longrightarrow> picks st = picks st' \<Longrightarrow> rosterOf st = rosterOf st'"
  by (rule ext) (simp add: rosterOf_def currentRosters_def replayState_alt)

lemma rostersLegal_cong:
  "transactions st = transactions st' \<Longrightarrow> picks st = picks st' \<Longrightarrow> rostersLegal st = rostersLegal st'"
  by (simp add: rostersLegal_def)

lemma zoneOfPlayer_clear:
  "zoneOfPlayer (clearZoneAssignments t ids st) u p =
     (if u = t \<and> p \<in> set ids then None else zoneOfPlayer st u p)"
proof -
  have "map_of (filter (\<lambda>e. fst e \<notin> set ids) zs) p = (if p \<in> set ids then None else map_of zs p)"
    for zs :: "(player_id \<times> zone_assignment) list"
    by (induction zs) auto
  then show ?thesis by (simp add: zoneOfPlayer_def zonesOf_clear)
qed

lemma zonesWf_clear: "zonesWf st \<Longrightarrow> zonesWf (clearZoneAssignments t ids st)"
  by (auto simp: zonesWf_def zonesOf_clear distinct_map_filter)

lemma irOccupantCount_card:
  assumes "distinct (map fst (zonesOf st t))"
  shows "irOccupantCount st t = int (card (irTags st t))" "finite (irTags st t)"
proof -
  let ?irs = "filter (\<lambda>(p, za). zaZone za = ZoneIR) (zonesOf st t)"
  have "irTags st t = fst ` set ?irs"
    using assms by (force simp: irTags_def zoneOfPlayer_def)
  moreover have "distinct (map fst ?irs)" using assms by (simp add: distinct_map_filter)
  ultimately show "irOccupantCount st t = int (card (irTags st t))" "finite (irTags st t)"
    using distinct_card [of "map fst ?irs"] by (simp_all add: irOccupantCount_def)
qed

lemma irTags_clear: "irTags (clearZoneAssignments t ids st) t = irTags st t - set ids"
  by (auto simp: irTags_def zoneOfPlayer_clear)

section \<open>The cap\<close>

lemma rosterOf_append_move:
  "\<not> isTrade txn \<Longrightarrow> set (rosterOf (appendTransaction txn st) u) =
     (if u = txnTeamID txn then (set (rosterOf st u) - dropIDs txn) \<union> {q \<in> addIDs txn. u \<noteq> [] \<and> q \<noteq> []}
      else set (rosterOf st u))"
  by (auto simp: appendTransaction_def rosterOf_onRoster replayState_append onRoster_move replayWf_state)

lemma effective_after_move:
  assumes "\<not> isTrade txn" "zonesWf st" "distinct (map tpPlayerID (txnDrops txn))"
    and "dropIDs txn \<subseteq> set (rosterOf st (txnTeamID txn))"
  defines "st' \<equiv> clearZoneAssignments (txnTeamID txn) (map tpPlayerID (txnDrops txn)) (appendTransaction txn st)"
  shows "effectiveRosterSize st' (txnTeamID txn) \<le> effectiveRosterSize st (txnTeamID txn)
     + int (length (txnAdds txn)) - creditedDropCount st (txnTeamID txn) (map tpPlayerID (txnDrops txn))"
proof -
  let ?t = "txnTeamID txn" and ?ids = "map tpPlayerID (txnDrops txn)"
  let ?R = "set (rosterOf st ?t)" and ?D = "set ?ids" and ?I = "irTags st ?t"
  have D: "?D = dropIDs txn" by (simp add: dropIDs_def)
  have zones: "zonesOf (appendTransaction txn st) u = zonesOf st u" for u
    by (simp add: appendTransaction_def zonesOf_def)
  have tags: "irTags (appendTransaction txn st) ?t = ?I"
    by (simp add: irTags_def zoneOfPlayer_def zones)
  have wf: "distinct (map fst (zonesOf st ?t))" using assms(2) by (simp add: zonesWf_def)
  have wf': "distinct (map fst (zonesOf st' ?t))"
    using wf by (simp add: st'_def zonesOf_clear zones distinct_map_filter)
  have roster': "rosterOf st' = rosterOf (appendTransaction txn st)"
    by (rule rosterOf_cong) (simp_all add: st'_def)
  have len: "length (rosterOf x u) = card (set (rosterOf x u))" for x u
    by (simp add: distinct_card rosterOf_distinct)
  have "card (set (rosterOf st' ?t)) \<le> card (?R - ?D) + card (addIDs txn)"
  proof -
    have "set (rosterOf st' ?t) \<subseteq> (?R - ?D) \<union> addIDs txn"
      unfolding roster' rosterOf_append_move [OF assms(1)] D by auto
    then show ?thesis
      by (meson card_Un_le card_mono finite_Diff finite_Un finite_imageI finite_set le_trans addIDs_def
          finite_imageI [of "set (txnAdds txn)" tpPlayerID, folded addIDs_def])
  qed
  moreover have "card (addIDs txn) \<le> length (txnAdds txn)"
    unfolding addIDs_def by (metis card_length list.set_map length_map)
  moreover have "card (?R - ?D) + card ?D = card ?R"
    using assms(4) card_mono [of ?R ?D] by (simp add: D card_Diff_subset dropIDs_def)
  ultimately have roster: "int (length (rosterOf st' ?t)) \<le>
      int (length (rosterOf st ?t)) - int (card ?D) + int (length (txnAdds txn))"
    unfolding len by linarith
  have ir': "irOccupantCount st' ?t = int (card (?I - ?D))"
    using irOccupantCount_card [OF wf'] by (simp add: st'_def irTags_clear tags)
  have ir: "irOccupantCount st ?t = int (card ?I)" and fin: "finite ?I"
    using irOccupantCount_card [OF wf] by auto
  have "creditedDropCount st ?t ?ids = int (card (?D - ?I))"
  proof -
    have "set (filter (\<lambda>p. zoneOfPlayer st ?t p \<noteq> Some ZoneIR) ?ids) = ?D - ?I"
      by (auto simp: irTags_def)
    moreover have "distinct (filter (\<lambda>p. zoneOfPlayer st ?t p \<noteq> Some ZoneIR) ?ids)"
      using assms(3) by (rule distinct_filter)
    ultimately show ?thesis by (metis creditedDropCount_def distinct_card)
  qed
  moreover have "card ?D = card (?D - ?I) + card (?D \<inter> ?I)" "card ?I = card (?I - ?D) + card (?D \<inter> ?I)"
    using fin by (simp_all add: card_Diff_subset_Int Int_commute card_mono)
  ultimately show ?thesis using roster ir ir' by (simp add: effectiveRosterSize_def)
qed

section \<open>Position limits\<close>

definition holdsPosition :: "(player_id \<Rightarrow> player option) \<Rightarrow> string \<Rightarrow> player_id \<Rightarrow> bool" where
  "holdsPosition pool pos p = (case pool p of None \<Rightarrow> False | Some pl \<Rightarrow> playerPosition pl = pos)"

definition countAt :: "(player_id \<Rightarrow> player option) \<Rightarrow> string \<Rightarrow> player_id list \<Rightarrow> int" where
  "countAt pool pos ids = int (length (filter (holdsPosition pool pos) ids))"

definition readCount :: "(string \<times> int) list \<Rightarrow> string \<Rightarrow> int" where
  "readCount counts pos = (case map_of counts pos of None \<Rightarrow> 0 | Some n \<Rightarrow> n)"

lemma readCount_bump: "readCount (bumpCount k n counts) pos = readCount counts pos + (if pos = k then n else 0)"
  by (simp add: readCount_def bumpCount_def update_conv)

lemma readCount_countPlayer:
  "readCount (countPlayer pool n p counts) pos = readCount counts pos + (if holdsPosition pool pos p then n else 0)"
  by (auto simp: countPlayer_def holdsPosition_def readCount_bump split: option.splits)

lemma readCount_fold:
  "readCount (fold (countPlayer pool n) ids counts) pos = readCount counts pos + n * countAt pool pos ids"
  by (induction ids arbitrary: counts) (auto simp: readCount_countPlayer countAt_def algebra_simps)

lemma distinct_countPlayer: "distinct (map fst counts) \<Longrightarrow> distinct (map fst (countPlayer pool n p counts))"
  by (auto simp: countPlayer_def bumpCount_def distinct_update split: option.splits)

lemma distinct_count_fold:
  "distinct (map fst counts) \<Longrightarrow> distinct (map fst (fold (countPlayer pool n) ids counts))"
  by (induction ids arbitrary: counts) (auto simp: distinct_countPlayer)

definition offIR :: "persisted_state \<Rightarrow> team_id \<Rightarrow> player_id list \<Rightarrow> player_id list" where
  "offIR st t ids = filter (\<lambda>p. zoneOfPlayer st t p \<noteq> Some ZoneIR) ids"

lemma readCount_position:
  "readCount (positionCounts st pool t incoming outgoing) pos =
     countAt pool pos (offIR st t (rosterOf st t)) - countAt pool pos (offIR st t outgoing)
     + countAt pool pos incoming"
  unfolding positionCounts_def Let_def readCount_fold offIR_def by (simp add: readCount_def)

lemma distinct_positionCounts: "distinct (map fst (positionCounts st pool t incoming outgoing))"
  unfolding positionCounts_def Let_def by (intro distinct_count_fold) simp

lemma limit_breach_iff:
  "teamWouldBreachLimit env st pool t incoming outgoing = None \<longleftrightarrow>
     (\<forall>pos cap. map_of (presetLimits (envRoster env)) pos = Some cap \<longrightarrow> 0 < cap \<longrightarrow>
        readCount (positionCounts st pool t incoming outgoing) pos \<le> cap)"
proof -
  let ?cs = "positionCounts st pool t incoming outgoing" and ?ls = "presetLimits (envRoster env)"
  have "teamWouldBreachLimit env st pool t incoming outgoing = None \<longleftrightarrow>
    (\<forall>(pos, n)\<in>set ?cs. \<forall>cap. map_of ?ls pos = Some cap \<longrightarrow> \<not> (0 < cap \<and> cap < n))"
  proof -
    have "teamWouldBreachLimit env st pool t incoming outgoing = None \<longleftrightarrow> ?ls = [] \<or> find (overLimit ?ls) ?cs = None"
      by (auto simp: teamWouldBreachLimit_def Let_def split: option.splits)
    also have "\<dots> \<longleftrightarrow> (\<forall>e\<in>set ?cs. \<not> overLimit ?ls e)"
      by (auto simp: find_None_iff overLimit_def)
    finally show ?thesis by (auto simp: overLimit_def split: option.splits)
  qed
  also have "\<dots> \<longleftrightarrow> (\<forall>pos n cap. map_of ?cs pos = Some n \<longrightarrow> map_of ?ls pos = Some cap \<longrightarrow> \<not> (0 < cap \<and> cap < n))"
    using distinct_positionCounts [of st pool t incoming outgoing]
    by (fastforce dest: map_of_SomeD)
  also have "\<dots> \<longleftrightarrow> (\<forall>pos cap. map_of ?ls pos = Some cap \<longrightarrow> 0 < cap \<longrightarrow> readCount ?cs pos \<le> cap)"
    by (fastforce simp: readCount_def not_less split: option.splits)
  finally show ?thesis .
qed

section \<open>Operations and the overlay\<close>

lemma ownerOf_record:
  "recordGuard env st txn cap games now = None \<Longrightarrow>
     knownTeam env (txnTeamID txn) \<and>
     (\<forall>g\<in>set (txnAdds txn). ownerOf st (tpPlayerID g) = []) \<and>
     (\<forall>d\<in>set (txnDrops txn). ownerOf st (tpPlayerID d) = txnTeamID txn) \<and>
     effectiveRosterSize st (txnTeamID txn) + int (length (txnAdds txn))
       - creditedDropCount st (txnTeamID txn) (map tpPlayerID (txnDrops txn)) \<le> cap"
  by (auto simp: recordGuard_def Let_def firstError_None split: if_splits option.splits)

lemma move_keeps_legal:
  assumes "rostersLegal st" "\<not> isTrade txn" "\<forall>g\<in>set (txnAdds txn). ownerOf st (tpPlayerID g) = []"
  shows "rostersLegal (appendTransaction txn st)"
proof -
  have "txnLegal (replayState st) txn"
    using assms(2,3) by (simp add: txnLegal_def ownerOf_empty)
  then show ?thesis unfolding appendTransaction_def by (rule rostersLegal_append [OF assms(1)])
qed

lemma owned_drops:
  assumes "t \<noteq> []" "\<forall>d\<in>set (txnDrops txn). ownerOf st (tpPlayerID d) = t"
  shows "dropIDs txn \<subseteq> set (rosterOf st t)"
  using assms ownerOf_onRoster [of st] by (auto simp: dropIDs_def rosterOf_onRoster)

lemma zonesOnRoster_move:
  assumes "zonesOnRoster st" "\<not> isTrade txn"
  shows "zonesOnRoster (clearZoneAssignments (txnTeamID txn) (map tpPlayerID (txnDrops txn)) (appendTransaction txn st))"
proof -
  let ?st = "clearZoneAssignments (txnTeamID txn) (map tpPlayerID (txnDrops txn)) (appendTransaction txn st)"
  have roster: "rosterOf ?st = rosterOf (appendTransaction txn st)" by (rule rosterOf_cong) simp_all
  have zone: "zoneOfPlayer (appendTransaction txn st) u p = zoneOfPlayer st u p" for u p
    by (simp add: appendTransaction_def zoneOfPlayer_def zonesOf_def)
  show ?thesis
    using assms(1) unfolding zonesOnRoster_def roster rosterOf_append_move [OF assms(2)]
    by (auto simp: zoneOfPlayer_clear zone dropIDs_def)
qed

lemma zonesWf_append: "zonesWf (appendTransaction txn st) = zonesWf st"
  by (simp add: zonesWf_def appendTransaction_def zonesOf_def)

lemma rosterOf_setZones [simp]: "rosterOf (setZones t zs st) = rosterOf st"
  by (rule rosterOf_cong) (simp_all add: setZones_def)

lemma zoneOfPlayer_set:
  "zoneOfPlayer (setZones t (AList.update p za (zonesOf st t)) st) u q =
     (if u = t \<and> q = p then Some (zaZone za) else zoneOfPlayer st u q)"
  by (simp add: zoneOfPlayer_def update_conv)

lemma zoneOfPlayer_delete:
  "zoneOfPlayer (deleteZone t p st) u q = (if u = t \<and> q = p then None else zoneOfPlayer st u q)"
  by (simp add: zoneOfPlayer_def delete_conv)

lemma zonesWf_set: "zonesWf st \<Longrightarrow> zonesWf (setZones t (AList.update p za (zonesOf st t)) st)"
  by (simp add: zonesWf_def distinct_update)

lemma zonesWf_delete: "zonesWf st \<Longrightarrow> zonesWf (deleteZone t p st)"
  by (simp add: zonesWf_def distinct_delete)

section \<open>Properties\<close>

text \<open>A successful RecordTransaction appends exactly its entry, keeps every player on at most one
  roster, leaves the acting team within the roster cap (IR occupants not counted, IR drops not
  credited twice) and leaves no zone tag on a player who is off the roster.\<close>

theorem record_transaction_sound:
  assumes "recordTransactionWithAuthority env txn cap games now ok s = (Inr r, s')"
    and "rostersLegal (stState s)" "zonesWf (stState s)" "zonesOnRoster (stState s)"
    and "\<not> isTrade txn" "distinct (map tpPlayerID (txnDrops txn))" "txnTeamID txn \<noteq> []"
  shows "transactions (stState s') = transactions (stState s) @ [txn] \<and> rostersLegal (stState s') \<and>
    zonesWf (stState s') \<and> zonesOnRoster (stState s') \<and>
    effectiveRosterSize (stState s') (txnTeamID txn) \<le> cap"
proof -
  let ?st = "stState s"
  from assms(1) have g: "recordGuard env ?st txn cap games now = None"
    and s': "stState s' = clearZoneAssignments (txnTeamID txn) (map tpPlayerID (txnDrops txn)) (appendTransaction txn ?st)"
    by (auto simp: recordTransactionWithAuthority_def store_outcomes split: option.splits)
  note guard = ownerOf_record [OF g]
  have legal: "rostersLegal (appendTransaction txn ?st)"
    using move_keeps_legal [OF assms(2,5)] guard by blast
  have drops: "dropIDs txn \<subseteq> set (rosterOf ?st (txnTeamID txn))"
    using owned_drops [OF assms(7)] guard by blast
  have "transactions (stState s') = transactions ?st @ [txn]"
    unfolding s' by (simp add: appendTransaction_def)
  moreover have "rostersLegal (stState s')"
    using legal rostersLegal_cong [of "stState s'" "appendTransaction txn ?st"] by (simp add: s')
  moreover have "zonesWf (stState s')" unfolding s' by (simp add: zonesWf_clear zonesWf_append assms(3))
  moreover have "zonesOnRoster (stState s')" unfolding s' by (rule zonesOnRoster_move [OF assms(4,5)])
  moreover have "effectiveRosterSize (stState s') (txnTeamID txn) \<le> cap"
    unfolding s' using effective_after_move [OF assms(5,3,6) drops] guard by linarith
  ultimately show ?thesis by blast
qed

definition sampleTeam :: "team_id \<Rightarrow> team" where
  "sampleTeam t = \<lparr>teamID = t, teamName = t, teamDivision = [], teamManager = ''Manager''\<rparr>"

definition sampleEnv :: league_env where
  "sampleEnv = \<lparr>envTeams = [sampleTeam ''a'', sampleTeam ''b''],
     envRoster = \<lparr>presetSlots = [(''WR'', 1)], presetBench = 1, presetReserve = [(''WR'', 1)],
       presetIR = 1, presetLimits = [(''WR'', 2)]\<rparr>, envRounds = 3\<rparr>"

definition sampleStore :: "persisted_state \<Rightarrow> store" where
  "sampleStore st = \<lparr>stState = st, stWriteError = False, stLifecycleBypass = False,
     stFilingLog = (\<lambda>t. [])\<rparr>"

lemmas sample_zone_simps = sampleEnv_def sampleTeam_def sampleStore_def knownTeam_def
  defaultTeamIDs_def zonesOf_def zoneOfPlayer_def effectiveRosterSize_def irOccupantCount_def
  creditedDropCount_def ownerOf_def rosterOwner_def ownerStep_def

theorem record_transaction_sound_witness:
  "transactions (stState (snd (recordTransactionWithAuthority sampleEnv
     (sampleTxn TxnAdd ''a'' [] [''p9''] [''p2''] 11) 2 [] 0 True (sampleStore sampleRosterState)))) =
   transactions sampleRosterState @ [sampleTxn TxnAdd ''a'' [] [''p9''] [''p2''] 11]"
proof -
  let ?t = "sampleTxn TxnAdd ''a'' [] [''p9''] [''p2''] 11" and ?s = "sampleStore sampleRosterState"
  obtain r s' where res: "recordTransactionWithAuthority sampleEnv ?t 2 [] 0 True ?s = (Inr r, s')"
    by (simp add: recordTransactionWithAuthority_def recordGuard_def sample_roster_simps
        sample_zone_simps store_op_defs lockedNow_def)
  have "rostersLegal (stState ?s)" "zonesWf (stState ?s)" "zonesOnRoster (stState ?s)"
    by (simp_all add: sample_roster_simps sampleStore_def zonesWf_def zonesOnRoster_def zonesOf_def zoneOfPlayer_def)
  from record_transaction_sound [OF res this] res show ?thesis
    by (simp add: isTrade_def sampleTxn_def samplePlayer_def sampleStore_def)
qed

text \<open>The position-limit check is exact: it reports no breach precisely when, for every limited
  position, the non-IR players the team would hold there after the move stay within the limit.\<close>

theorem limit_check_exact:
  "teamWouldBreachLimit env st pool t incoming outgoing = None \<longleftrightarrow>
     \<not> (\<exists>pos cap. map_of (presetLimits (envRoster env)) pos = Some cap \<and> 0 < cap \<and>
        cap < countAt pool pos (offIR st t (rosterOf st t)) - countAt pool pos (offIR st t outgoing)
            + countAt pool pos incoming)"
  unfolding limit_breach_iff readCount_position by (meson not_less)

text \<open>Placing a player in a zone needs his owner to act, an empty overlay for him and no kickoff
  lock; it changes no roster and keeps every tag on a rostered player. Clearing it is exactly
  the inverse on the overlay.\<close>

theorem zone_place_clear_roundtrip:
  assumes "placeInZoneWithAuthority t p zone pos player games now True s = (Inr u, s1)"
    and "zonesOnRoster (stState s)" "zonesWf (stState s)" "t \<noteq> []"
    and "clearZoneWithAuthority t p zone player games later True s1 = (Inr v, s2)"
  shows "p \<in> set (rosterOf (stState s) t) \<and> zoneOfPlayer (stState s) t p = None \<and>
    zoneOfPlayer (stState s1) t p = Some zone \<and> zonesOnRoster (stState s1) \<and> zonesWf (stState s1) \<and>
    rosterOf (stState s1) = rosterOf (stState s) \<and>
    zoneOfPlayer (stState s2) = zoneOfPlayer (stState s) \<and> zonesOnRoster (stState s2)"
proof -
  let ?st = "stState s" and ?za = "\<lparr>zaZone = zone, zaPosition = pos, zaPlacedAt = now\<rparr>"
  from assms(1) have own: "ownerOf ?st p = t" and free: "map_of (zonesOf ?st t) p = None"
    and s1: "stState s1 = setZones t (AList.update p ?za (zonesOf ?st t)) ?st"
    by (auto simp: placeInZoneWithAuthority_def store_outcomes Let_def split: if_splits)
  from assms(5) have s2: "stState s2 = deleteZone t p (stState s1)"
    by (auto simp: clearZoneWithAuthority_def store_outcomes Let_def split: if_splits)
  have held: "p \<in> set (rosterOf ?st t)"
    using ownerOf_onRoster [of ?st p] own assms(4) by (simp add: rosterOf_onRoster)
  have none: "zoneOfPlayer ?st t p = None" using free by (simp add: zoneOfPlayer_def)
  have roster: "rosterOf (stState s1) = rosterOf ?st" by (simp add: s1)
  have zone1: "zoneOfPlayer (stState s1) u q = (if u = t \<and> q = p then Some zone else zoneOfPlayer ?st u q)" for u q
    unfolding s1 zoneOfPlayer_set by simp
  have zone2: "zoneOfPlayer (stState s2) = zoneOfPlayer ?st"
    by (intro ext) (simp add: s2 zoneOfPlayer_delete zone1 none)
  have roster2: "rosterOf (stState s2) = rosterOf ?st"
    unfolding s2 using roster by (simp add: deleteZone_def)
  show ?thesis
    using held none assms(2,3) unfolding zonesOnRoster_def zone1 zone2 roster roster2
    by (auto simp: s1 zonesWf_set)
qed

definition samplePlacement :: "(store, roster_error, unit) outcome" where
  "samplePlacement = placeInZoneWithAuthority ''a'' ''p2'' ZoneIR ''WR'' (''P'', ''BUF'') [] 5 True
     (sampleStore sampleRosterState)"

theorem zone_place_clear_roundtrip_witness:
  "zoneOfPlayer (stState (snd samplePlacement)) ''a'' ''p2'' = Some ZoneIR"
proof -
  obtain s1 where s1: "samplePlacement = (Inr (), s1)"
    by (simp add: samplePlacement_def placeInZoneWithAuthority_def sample_roster_simps sample_zone_simps
        store_op_defs lockedNow_def)
  have st1: "stState s1 = setZones ''a'' [(''p2'', \<lparr>zaZone = ZoneIR, zaPosition = ''WR'', zaPlacedAt = 5\<rparr>)]
      sampleRosterState"
    using s1 by (auto simp: samplePlacement_def placeInZoneWithAuthority_def sampleStore_def zonesOf_def
        sampleRosterState_def freshState_def store_op_defs Let_def split: if_splits)
  have w1: "\<not> stWriteError s1"
    using s1 by (auto simp: samplePlacement_def placeInZoneWithAuthority_def sampleStore_def
        store_op_defs Let_def split: if_splits)
  obtain s2 where s2: "clearZoneWithAuthority ''a'' ''p2'' ZoneIR (''P'', ''BUF'') [] 9 True s1 = (Inr (), s2)"
    using w1 by (simp add: clearZoneWithAuthority_def st1 zoneOfPlayer_def lockedNow_def store_op_defs)
  have "zonesOnRoster (stState (sampleStore sampleRosterState))" "zonesWf (stState (sampleStore sampleRosterState))"
    by (simp_all add: sampleStore_def sampleRosterState_def freshState_def zonesOnRoster_def zonesWf_def
        zonesOf_def zoneOfPlayer_def)
  from zone_place_clear_roundtrip [OF s1 [unfolded samplePlacement_def] this _ s2]
  show ?thesis unfolding s1 by simp
qed

text \<open>The automatic cut of a healed IR occupant logs one auto-drop of him, takes him off the
  roster and off IR, keeps the log legal and every remaining tag on a rostered player; repeating
  it is rejected.\<close>

theorem auto_cut_sound:
  assumes "autoCutHealedIR t player season week now (Some i) True s = (Inr txn, s')"
    and "rostersLegal (stState s)" "zonesOnRoster (stState s)"
  shows "transactions (stState s') = transactions (stState s) @ [txn] \<and> txnType txn = TxnAutoDrop \<and>
    rostersLegal (stState s') \<and> zonesOnRoster (stState s') \<and>
    tpPlayerID player \<notin> set (rosterOf (stState s') t) \<and>
    fst (autoCutHealedIR t player season week later j ok s') = Inl (Rejected (NoLongerOnIR (tpName player)))"
proof -
  let ?st = "stState s" and ?p = "tpPlayerID player"
  from assms(1) have ir: "zoneOfPlayer ?st t ?p = Some ZoneIR" and healthy: "\<not> stWriteError s"
    and txn: "txn = \<lparr>txnID = i, txnSeason = season, txnWeek = week, txnType = TxnAutoDrop,
        txnTeamID = t, txnOtherTeamID = [], txnAdds = [], txnDrops = [player], txnBid = 0,
        txnPosition = 0, txnOfferID = [], txnBy = ''system'', txnNote = [], txnAt = now\<rparr>"
    and s': "s' = s\<lparr>stState := appendTransaction txn (deleteZone t ?p ?st)\<rparr>"
    by (auto simp: autoCutHealedIR_def store_outcomes Let_def split: if_splits)
  have move: "\<not> isTrade txn" by (simp add: txn isTrade_def)
  have legal: "rostersLegal (deleteZone t ?p ?st)"
    using assms(2) by (subst rostersLegal_cong [of _ ?st]) simp_all
  have roster: "rosterOf (deleteZone t ?p ?st) = rosterOf ?st" by (rule rosterOf_cong) simp_all
  have after: "set (rosterOf (stState s') u) = (if u = t then set (rosterOf ?st u) - {?p} else set (rosterOf ?st u))" for u
    by (simp add: s' rosterOf_append_move [OF move] roster) (simp add: txn dropIDs_def addIDs_def)
  have zone: "zoneOfPlayer (stState s') u q = (if u = t \<and> q = ?p then None else zoneOfPlayer ?st u q)" for u q
    by (simp add: s' appendTransaction_def zoneOfPlayer_delete [symmetric]) (simp add: zoneOfPlayer_def zonesOf_def)
  have "rostersLegal (stState s')"
    using move_keeps_legal [OF legal move] by (simp add: s' txn)
  moreover have "zonesOnRoster (stState s')"
    using assms(3) unfolding zonesOnRoster_def zone after by auto
  moreover have "fst (autoCutHealedIR t player season week later j ok s') = Inl (Rejected (NoLongerOnIR (tpName player)))"
    using healthy zone [of t ?p] by (simp add: autoCutHealedIR_def s' store_op_defs)
  ultimately show ?thesis using after [of t] by (simp add: s' txn appendTransaction_def)
qed

definition irState :: persisted_state where
  "irState = sampleRosterState\<lparr>rosterZones := [(''a'', [(''p2'', \<lparr>zaZone = ZoneIR, zaPosition = ''WR'', zaPlacedAt = 5\<rparr>),
     (''p3'', \<lparr>zaZone = ZoneReserve, zaPosition = ''WR'', zaPlacedAt = 6\<rparr>)])]\<rparr>"

lemma irState_legal: "rostersLegal irState"
  by (simp add: irState_def sample_roster_simps)

lemma irState_rosters: "rosterOf irState ''a'' = [''p3'', ''p2'']" "rosterOf irState ''b'' = [''p1'']"
  by (simp_all add: irState_def sample_roster_simps)

lemma irState_zonesOf: "zonesOf irState t = (if t = ''a'' then
     [(''p2'', \<lparr>zaZone = ZoneIR, zaPosition = ''WR'', zaPlacedAt = 5\<rparr>),
      (''p3'', \<lparr>zaZone = ZoneReserve, zaPosition = ''WR'', zaPlacedAt = 6\<rparr>)] else [])"
  by (simp add: irState_def zonesOf_def mapList_def)

lemma irState_zone: "zoneOfPlayer irState t p =
     (if t = ''a'' \<and> p = ''p2'' then Some ZoneIR else if t = ''a'' \<and> p = ''p3'' then Some ZoneReserve else None)"
  by (simp add: zoneOfPlayer_def irState_zonesOf)

lemma irState_zones: "zonesOnRoster irState" "zonesWf irState"
  by (auto simp: zonesOnRoster_def zonesWf_def irState_zone irState_zonesOf irState_rosters split: if_splits)

theorem auto_cut_sound_witness:
  "\<exists>txn s'. autoCutHealedIR ''a'' (samplePlayer ''p2'') 2026 3 99 (Some ''x'') True (sampleStore irState) = (Inr txn, s') \<and>
     ''p2'' \<notin> set (rosterOf (stState s') ''a'')"
proof -
  obtain txn s' where r: "autoCutHealedIR ''a'' (samplePlayer ''p2'') 2026 3 99 (Some ''x'') True (sampleStore irState)
      = (Inr txn, s')"
    by (simp add: autoCutHealedIR_def sampleStore_def store_op_defs samplePlayer_def irState_zone Let_def)
  have "rostersLegal (stState (sampleStore irState))" "zonesOnRoster (stState (sampleStore irState))"
    by (simp_all add: sampleStore_def irState_legal irState_zones)
  from auto_cut_sound [OF r this, of 0 None True] r show ?thesis by (simp add: samplePlayer_def)
qed

definition reserveDrop :: transaction where
  "reserveDrop = sampleTxn TxnDrop ''a'' [] [] [''p3''] 50"

definition afterActivation :: persisted_state where
  "afterActivation = stState (snd (activateFromIRWithDropAuthority ''a'' ''p2'' reserveDrop [] (\<lambda>p. None) 50 True
     (sampleStore irState)))"

text \<open>ActivateFromIRWithDrop, unlike the other mutators, removes the activated player's tag only:
  when the named drop sits in the reserve zone (which the service allows) his tag stays behind on
  a player no longer on the roster and keeps occupying the reserve.\<close>

theorem activation_leaves_orphan_tag:
  "zonesOnRoster irState \<and> zoneOfPlayer afterActivation ''a'' ''p3'' = Some ZoneReserve \<and>
    ''p3'' \<notin> set (rosterOf afterActivation ''a'') \<and> reserveOccupantCount afterActivation ''a'' ''WR'' = 1"
proof -
  note dropTxn_def = reserveDrop_def
  have own: "ownerOf irState ''p3'' = ''a''"
    using ownerOf_iff [OF irState_legal, of "''a''" "''p3''"] by (simp add: irState_rosters)
  have "activateGuard irState ''a'' ''p2'' reserveDrop [] (\<lambda>p. None) 50 = None"
    by (simp add: activateGuard_def dropTxn_def sampleTxn_def samplePlayer_def own irState_zone)
  then have s': "afterActivation = appendTransaction reserveDrop (deleteZone ''a'' ''p2'' irState)"
    by (simp add: afterActivation_def activateFromIRWithDropAuthority_def sampleStore_def store_op_defs)
  have move: "\<not> isTrade reserveDrop" by (simp add: isTrade_def dropTxn_def sampleTxn_def)
  have roster: "rosterOf (deleteZone ''a'' ''p2'' irState) = rosterOf irState" by (rule rosterOf_cong) simp_all
  have zones: "zonesOf afterActivation ''a'' = [(''p3'', \<lparr>zaZone = ZoneReserve, zaPosition = ''WR'', zaPlacedAt = 6\<rparr>)]"
    by (simp add: s' appendTransaction_def zonesOf_def deleteZone_def setZones_def)
      (simp add: irState_zonesOf [of "''a''", unfolded zonesOf_def])
  show ?thesis
    using irState_zones(1) rosterOf_append_move [OF move, of "deleteZone ''a'' ''p2'' irState" "''a''"]
    by (simp add: zoneOfPlayer_def zones reserveOccupantCount_def s' [symmetric] roster irState_rosters)
      (simp add: dropTxn_def sampleTxn_def dropIDs_def samplePlayer_def addIDs_def)
qed

end
