(* ===== verification/DraftOrder.thy ===== *)
theory DraftOrder
  imports Zones
begin

text \<open>
  Snake-draft arithmetic (src/internal/league/store.go: activeTeamCount, pickRound, teamOnClock;
  waivers.go: roundOneOrder, reverseStrings). With no teams at all teamOnClock divides by zero in
  Go; the properties assume a league with teams.
\<close>

definition draftIDs :: "league_env \<Rightarrow> team_id list \<Rightarrow> team_id list" where
  "draftIDs env order = (if order = [] then defaultTeamIDs env else order)"

definition activeTeamCount :: "league_env \<Rightarrow> team_id list \<Rightarrow> int" where
  "activeTeamCount env order =
     (if order = [] then int (length (defaultTeamIDs env)) else int (length order))"

definition pickRound :: "int \<Rightarrow> int \<Rightarrow> int" where
  "pickRound teamCount number =
     (let n = (if teamCount \<le> 0 then 1 else teamCount) in (number - 1) div n + 1)"

definition teamOnClock :: "league_env \<Rightarrow> team_id list \<Rightarrow> int \<Rightarrow> team_id" where
  "teamOnClock env order pickNo =
     (let ids = draftIDs env order;
          number = (if pickNo < 1 then 1 else pickNo);
          n = int (length ids);
          index = (number - 1) mod n;
          round = (number - 1) div n + 1
      in ids ! nat (if round mod 2 = 0 then n - 1 - index else index))"

definition roundOneOrder :: "league_env \<Rightarrow> team_id list \<Rightarrow> team_id list" where
  "roundOneOrder env order =
     map (\<lambda>i. teamOnClock env order (int i + 1)) [0..<nat (activeTeamCount env order)]"

definition reverseStrings :: "string list \<Rightarrow> string list" where
  "reverseStrings ss = rev ss"

lemma activeTeamCount_ids: "activeTeamCount env order = int (length (draftIDs env order))"
  by (simp add: activeTeamCount_def draftIDs_def)

lemma teamOnClock_pick:
  assumes "k < length (draftIDs env order)"
  shows "teamOnClock env order (int (r * length (draftIDs env order)) + int k + 1) =
    (if even r then draftIDs env order ! k else rev (draftIDs env order) ! k)"
proof -
  let ?ids = "draftIDs env order"
  let ?n = "length ?ids"
  have pos: "0 < ?n" using assms by linarith
  have nat_m: "(r * ?n + k) mod ?n = k" "(r * ?n + k) div ?n = r" using assms pos by simp_all
  have m: "(int (r * ?n) + int k) mod int ?n = int k"
    using nat_m(1) by (metis of_nat_add of_nat_mod)
  have d: "(int (r * ?n) + int k) div int ?n = int r"
    using nat_m(2) by (metis of_nat_add of_nat_div)
  have par: "(int r + 1) mod 2 = 0 \<longleftrightarrow> odd r" by presburger
  have flip: "nat (int ?n - 1 - int k) = ?n - Suc k" using assms by linarith
  have "0 \<le> int (r * ?n)" "0 \<le> int k" by simp_all
  then have ge: "\<not> int (r * ?n) + int k + 1 < 1" by linarith
  show ?thesis
    using m d par assms flip ge by (simp add: teamOnClock_def Let_def rev_nth del: of_nat_mult)
qed

lemma snake_round:
  "map (\<lambda>k. teamOnClock env order (int (r * length (draftIDs env order)) + int k + 1))
      [0..<length (draftIDs env order)] =
    (if even r then draftIDs env order else rev (draftIDs env order))"
  by (rule nth_equalityI) (auto simp: teamOnClock_pick simp del: of_nat_mult of_nat_add)

lemma roundOneOrder_ids: "roundOneOrder env order = draftIDs env order"
  using snake_round [of env order 0] by (simp add: roundOneOrder_def activeTeamCount_ids)

definition clockTeams :: "league_env \<Rightarrow> team_id list \<Rightarrow> nat \<Rightarrow> team_id list" where
  "clockTeams env order m = map (\<lambda>k. teamOnClock env order (int k + 1)) [0..<m]"

lemma clockTeams_round:
  "clockTeams env order (Suc r * length (draftIDs env order)) =
   clockTeams env order (r * length (draftIDs env order)) @
     (if even r then draftIDs env order else rev (draftIDs env order))"
proof -
  let ?n = "length (draftIDs env order)"
  have "[0..<Suc r * ?n] = [0..<r * ?n] @ map (\<lambda>k. r * ?n + k) [0..<?n]"
    by (rule nth_equalityI) (auto simp: nth_append)
  then show ?thesis
    unfolding clockTeams_def snake_round [symmetric] by (simp add: comp_def)
qed

lemma count_list_distinct: "distinct xs \<Longrightarrow> x \<in> set xs \<Longrightarrow> count_list xs x = 1"
  by (induction xs) auto

lemma clockTeams_count:
  assumes "distinct (draftIDs env order)" "t \<in> set (draftIDs env order)"
  shows "count_list (clockTeams env order (r * length (draftIDs env order))) t = r"
proof (induction r)
  case (Suc r)
  have "count_list (draftIDs env order) t = 1" by (rule count_list_distinct [OF assms])
  then show ?case using Suc unfolding clockTeams_round by simp
qed (simp add: clockTeams_def)

section \<open>Properties\<close>

text \<open>The draft order is a snake: round r calls the teams in the drawn order when r is odd
  and in the reverse order when it is even, so after r full rounds every team of a duplicate-free
  order has been on the clock exactly r times.\<close>

theorem snake_draft_fair:
  assumes "distinct (draftIDs env order)" "t \<in> set (draftIDs env order)"
  shows "count_list (clockTeams env order (r * length (draftIDs env order))) t = r \<and>
    map (\<lambda>k. teamOnClock env order (int (r * length (draftIDs env order)) + int k + 1))
      [0..<length (draftIDs env order)] =
    (if even r then draftIDs env order else rev (draftIDs env order))"
  using clockTeams_count [OF assms] snake_round by blast

theorem snake_draft_fair_witness:
  "count_list (clockTeams sampleEnv [] 6) ''b'' = 3"
  using snake_draft_fair [of sampleEnv "[]" "''b''" 3]
  by (simp add: draftIDs_def defaultTeamIDs_def sampleEnv_def sampleTeam_def)

end
