(* ===== verification/Standings.thy ===== *)
theory Standings
  imports WeekLocks
begin

text \<open>
  Regular-season standings (src/internal/league/standings.go): the tally over the final matchups,
  and the tie-break chain that partitions the teams rule by rule. SHA-256 is a parameter of the
  inputs; the seeded draw formats its preimage as the code does.
\<close>

section \<open>Inputs\<close>

record pickem_record =
  pkCorrect :: int
  pkTotal :: int

record tiebreak_inputs =
  tbSeed :: int
  tbChain :: "string list"
  tbPickem :: "(team_id \<Rightarrow> pickem_record option) option"
  tbSha256 :: "string \<Rightarrow> digest"

definition defaultTiebreakChain :: "string list" where
  "defaultTiebreakChain = [''record'', ''head-to-head'', ''points-for'', ''pickem'', ''seeded-draw'']"

definition validTiebreakRules :: "string list" where
  "validTiebreakRules = [''record'', ''head-to-head'', ''points-for'', ''pickem'', ''seeded-draw'']"

datatype chain_error = ChainTooShort | ChainStart | ChainEnd | UnknownRule string | RepeatedRule string

fun chainRulesLoop :: "string list \<Rightarrow> string list \<Rightarrow> chain_error option" where
  "chainRulesLoop seen [] = None"
| "chainRulesLoop seen (k # ks) =
     (if k \<notin> set validTiebreakRules then Some (UnknownRule k)
      else if k \<in> set seen then Some (RepeatedRule k)
      else chainRulesLoop (k # seen) ks)"

definition validateTiebreakChain :: "string list \<Rightarrow> chain_error option" where
  "validateTiebreakChain chain =
     (if length chain < 2 then Some ChainTooShort
      else if hd chain \<noteq> ''record'' then Some ChainStart
      else if last chain \<noteq> ''seeded-draw'' then Some ChainEnd
      else chainRulesLoop [] chain)"

section \<open>The tally\<close>

type_synonym tally = "team_id \<Rightarrow> standing option"

definition emptyStanding :: "team_id \<Rightarrow> standing" where
  "emptyStanding t = \<lparr>stTeamID = t, stWins = 0, stLosses = 0, stTies = 0, stPointsFor = 0,
     stPointsAgainst = 0, stStreak = [], stRank = 0, stDecidedBy = []\<rparr>"

definition bump :: "team_id \<Rightarrow> (standing \<Rightarrow> standing) \<Rightarrow> tally \<Rightarrow> tally" where
  "bump t f tab = tab(t := map_option f (tab t))"

definition addPoints :: "rat \<Rightarrow> rat \<Rightarrow> standing \<Rightarrow> standing" where
  "addPoints x y s = s\<lparr>stPointsFor := stPointsFor s + x, stPointsAgainst := stPointsAgainst s + y\<rparr>"

definition addWin :: "standing \<Rightarrow> standing" where "addWin s = s\<lparr>stWins := stWins s + 1\<rparr>"
definition addLoss :: "standing \<Rightarrow> standing" where "addLoss s = s\<lparr>stLosses := stLosses s + 1\<rparr>"
definition addTie :: "standing \<Rightarrow> standing" where "addTie s = s\<lparr>stTies := stTies s + 1\<rparr>"

type_synonym tally_state = "tally \<times> (team_id \<Rightarrow> string list)"

definition noteResult :: "team_id \<Rightarrow> string \<Rightarrow> (team_id \<Rightarrow> string list) \<Rightarrow> team_id \<Rightarrow> string list" where
  "noteResult t r res = res(t := res t @ [r])"

definition tallyMatchup :: "league_matchup \<Rightarrow> tally_state \<Rightarrow> tally_state" where
  "tallyMatchup m acc =
     (case acc of (tab, res) \<Rightarrow>
       let h = lmHome m; a = lmAway m; hs = lmHomeScore m; as = lmAwayScore m in
       if \<not> lmFinal m \<or> tab h = None \<or> tab a = None then acc
       else
         let tab1 = bump a (addPoints as hs) (bump h (addPoints hs as) tab) in
         if hs > as then (bump a addLoss (bump h addWin tab1), noteResult a ''L'' (noteResult h ''W'' res))
         else if as > hs then (bump h addLoss (bump a addWin tab1), noteResult h ''L'' (noteResult a ''W'' res))
         else (bump a addTie (bump h addTie tab1), noteResult a ''T'' (noteResult h ''T'' res)))"

definition emDash :: string where
  "emDash = [CHR 0xE2, CHR 0x80, CHR 0x94]"

definition computeStreak :: "string list \<Rightarrow> string" where
  "computeStreak results =
     (if results = [] then emDash
      else last results @ itoa (int (length (takeWhile (\<lambda>r. r = last results) (rev results)))))"

definition weekBefore :: "schedule_week \<Rightarrow> schedule_week \<Rightarrow> bool" where
  "weekBefore a b = (swWeek a < swWeek b)"

definition seasonMatchups :: "season_schedule \<Rightarrow> league_matchup list" where
  "seasonMatchups sch = concat (map swMatchups (sortStable weekBefore (schWeeks sch)))"

definition emptyTally :: "team_id list \<Rightarrow> tally" where
  "emptyTally ids t = (if t \<in> set ids then Some (emptyStanding t) else None)"

definition tallySeason :: "season_schedule \<Rightarrow> team_id list \<Rightarrow> tally" where
  "tallySeason sch ids =
     (case fold tallyMatchup (seasonMatchups sch) (emptyTally ids, \<lambda>t. []) of
        (tab, res) \<Rightarrow> (\<lambda>t. map_option (\<lambda>s. s\<lparr>stStreak := computeStreak (res t)\<rparr>) (tab t)))"

section \<open>The tie-break rules\<close>

definition winPct :: "standing \<Rightarrow> rat" where
  "winPct s = (let games = stWins s + stLosses s + stTies s
     in if games = 0 then 0 else (of_int (stWins s) + of_int (stTies s) / 2) / of_int games)"

text \<open>standings[id] at a team of the tally; a nil dereference otherwise, which cannot occur.\<close>

definition standingOf :: "tally \<Rightarrow> team_id \<Rightarrow> standing" where
  "standingOf tab t = (case tab t of None \<Rightarrow> emptyStanding t | Some s \<Rightarrow> s)"

text \<open>headToHeadPct accumulates games, wins of a, wins of b and ties over the pair's final matchups.\<close>

definition headToHeadStep :: "team_id \<Rightarrow> team_id \<Rightarrow> league_matchup \<Rightarrow> int \<times> int \<times> int \<times> int \<Rightarrow> int \<times> int \<times> int \<times> int" where
  "headToHeadStep a b m acc =
     (case acc of (games, wa, wb, ties) \<Rightarrow>
       if \<not> lmFinal m then acc
       else if \<not> ((lmHome m = a \<and> lmAway m = b) \<or> (lmHome m = b \<and> lmAway m = a)) then acc
       else if lmHomeScore m = lmAwayScore m then (games + 1, wa, wb, ties + 1)
       else
         let winner = (if lmAwayScore m > lmHomeScore m then lmAway m else lmHome m)
         in if winner = a then (games + 1, wa + 1, wb, ties) else (games + 1, wa, wb + 1, ties))"

definition headToHeadPct :: "season_schedule \<Rightarrow> team_id \<Rightarrow> team_id \<Rightarrow> (rat \<times> rat) option" where
  "headToHeadPct sch a b =
     (case fold (headToHeadStep a b) (concat (map swMatchups (schWeeks sch))) (0, 0, 0, 0) of
        (games, wa, wb, ties) \<Rightarrow>
          if games = 0 then None
          else Some ((of_int wa + of_int ties / 2) / of_int games, (of_int wb + of_int ties / 2) / of_int games))"

definition descLess :: "(team_id \<Rightarrow> rat) \<Rightarrow> team_id \<Rightarrow> team_id \<Rightarrow> bool" where
  "descLess v a b = (v a > v b)"

definition groupByDescendingFloat :: "(team_id \<Rightarrow> rat) \<Rightarrow> team_id list \<Rightarrow> team_id list list" where
  "groupByDescendingFloat v teams = partitionEqual (\<lambda>a b. v a = v b) (sortStable (descLess v) teams)"

definition pickemKey :: "(team_id \<Rightarrow> pickem_record option) \<Rightarrow> team_id \<Rightarrow> int \<times> int \<times> rat" where
  "pickemKey records t =
     (case records t of None \<Rightarrow> (0, 0, 0)
      | Some r \<Rightarrow> if pkTotal r > 0 then (1, pkCorrect r, of_int (pkCorrect r) / of_int (pkTotal r))
                  else (0, pkCorrect r, 0))"

definition pickemLess :: "(team_id \<Rightarrow> pickem_record option) \<Rightarrow> team_id \<Rightarrow> team_id \<Rightarrow> bool" where
  "pickemLess records a b =
     (case pickemKey records a of (pi', ci, ai) \<Rightarrow>
      case pickemKey records b of (pj, cj, aj) \<Rightarrow>
        if pi' \<noteq> pj then pi' > pj else if ci \<noteq> cj then ci > cj else ai > aj)"

definition groupByPickem :: "(team_id \<Rightarrow> pickem_record option) \<Rightarrow> team_id list \<Rightarrow> team_id list list" where
  "groupByPickem records teams =
     partitionEqual (\<lambda>a b. pickemKey records a = pickemKey records b) (sortStable (pickemLess records) teams)"

definition seededDrawHash :: "(string \<Rightarrow> digest) \<Rightarrow> int \<Rightarrow> team_id \<Rightarrow> digest" where
  "seededDrawHash sha seed t = sha (itoa seed @ ''|'' @ t)"

definition drawLess :: "(string \<Rightarrow> digest) \<Rightarrow> int \<Rightarrow> team_id \<Rightarrow> team_id \<Rightarrow> bool" where
  "drawLess sha seed a b = (seededDrawHash sha seed a < seededDrawHash sha seed b)"

definition groupBySeededDraw :: "(string \<Rightarrow> digest) \<Rightarrow> int \<Rightarrow> team_id list \<Rightarrow> team_id list list" where
  "groupBySeededDraw sha seed teams =
     partitionEqual (\<lambda>a b. seededDrawHash sha seed a = seededDrawHash sha seed b)
       (sortStable (drawLess sha seed) teams)"

definition groupByHeadToHead :: "season_schedule \<Rightarrow> team_id list \<Rightarrow> team_id list list" where
  "groupByHeadToHead sch teams =
     (case teams of
        [a, b] \<Rightarrow> (case headToHeadPct sch a b of
            None \<Rightarrow> [teams]
          | Some (pa, pb) \<Rightarrow> if pa = pb then [teams] else if pa > pb then [[a], [b]] else [[b], [a]])
      | _ \<Rightarrow> [teams])"

definition groupByTiebreakRule :: "tally \<Rightarrow> season_schedule \<Rightarrow> tiebreak_inputs \<Rightarrow> string \<Rightarrow>
    team_id list \<Rightarrow> team_id list list" where
  "groupByTiebreakRule tab sch tb rule teams =
     (if rule = ''record'' then groupByDescendingFloat (\<lambda>t. winPct (standingOf tab t)) teams
      else if rule = ''head-to-head'' then groupByHeadToHead sch teams
      else if rule = ''points-for'' then groupByDescendingFloat (\<lambda>t. stPointsFor (standingOf tab t)) teams
      else if rule = ''pickem'' then
        (case tbPickem tb of None \<Rightarrow> [teams] | Some records \<Rightarrow> groupByPickem records teams)
      else if rule = ''seeded-draw'' then groupBySeededDraw (tbSha256 tb) (tbSeed tb) teams
      else [teams])"

text \<open>
  resolveTiebreakChain returns the order; the DecidedBy field it sets on the shared standings is
  threaded as a function. The record rule never marks, and the last group of a level never marks.
\<close>

definition markDecided :: "string \<Rightarrow> team_id list list \<Rightarrow> team_id list \<Rightarrow> (team_id \<Rightarrow> string) \<Rightarrow> team_id \<Rightarrow> string" where
  "markDecided rule later resolved dec =
     (if later \<noteq> [] \<and> rule \<noteq> ''record'' \<and> resolved \<noteq> [] \<and> dec (last resolved) = []
      then dec(last resolved := rule) else dec)"

fun foldGroups :: "(team_id list \<Rightarrow> (team_id \<Rightarrow> string) \<Rightarrow> team_id list \<times> (team_id \<Rightarrow> string)) \<Rightarrow> string \<Rightarrow>
    team_id list list \<Rightarrow> (team_id \<Rightarrow> string) \<Rightarrow> team_id list \<times> (team_id \<Rightarrow> string)" where
  "foldGroups rec rule [] dec = ([], dec)"
| "foldGroups rec rule (g # gs) dec =
     (case rec g dec of (resolved, dec1) \<Rightarrow>
       case foldGroups rec rule gs (markDecided rule gs resolved dec1) of (out, dec2) \<Rightarrow> (resolved @ out, dec2))"

primrec resolveTiebreakChain :: "(string \<Rightarrow> team_id list \<Rightarrow> team_id list list) \<Rightarrow> string list \<Rightarrow>
    team_id list \<Rightarrow> (team_id \<Rightarrow> string) \<Rightarrow> team_id list \<times> (team_id \<Rightarrow> string)" where
  "resolveTiebreakChain groupBy [] = (\<lambda>teams dec. (teams, dec))"
| "resolveTiebreakChain groupBy (rule # rest) = (\<lambda>teams dec.
     if length teams \<le> 1 then (teams, dec)
     else foldGroups (resolveTiebreakChain groupBy rest) rule (groupBy rule teams) dec)"

definition computeStandings :: "season_schedule \<Rightarrow> team_id list \<Rightarrow> tiebreak_inputs \<Rightarrow> standing list" where
  "computeStandings sch ids tb =
     (let tab = tallySeason sch ids;
          chain = (if tbChain tb = [] then defaultTiebreakChain else tbChain tb)
      in case resolveTiebreakChain (groupByTiebreakRule tab sch tb) chain ids (\<lambda>t. []) of
        (order, dec) \<Rightarrow>
          map (\<lambda>(i, t). (standingOf tab t)\<lparr>stRank := int i + 1, stDecidedBy := dec t\<rparr>)
            (zip [0..<length order] order))"

section \<open>The rules as ordered partitions\<close>

interpretation desc_order: keyed_order "descLess v" v
  by unfold_locales (auto simp: descLess_def)

interpretation pickem_order: keyed_order "pickemLess records" "pickemKey records"
  by unfold_locales (auto simp: pickemLess_def split: prod.splits if_splits)

interpretation draw_order: keyed_order "drawLess sha seed" "seededDrawHash sha seed"
  by unfold_locales (auto simp: drawLess_def)

text \<open>
  What the chain needs of a rule: its groups partition the teams, and which teams fall into which
  group does not depend on the order the teams came in.
\<close>

locale tiebreak_rule =
  fixes groupsOf :: "team_id list \<Rightarrow> team_id list list"
  assumes partition: "mset (concat (groupsOf ts)) = mset ts"
    and order_free: "mset ts = mset us \<Longrightarrow> list_all2 (\<lambda>g h. mset g = mset h) (groupsOf ts) (groupsOf us)"

locale tiebreak_chain =
  fixes groupBy :: "string \<Rightarrow> team_id list \<Rightarrow> team_id list list"
  assumes rule: "tiebreak_rule (groupBy r)"
begin

lemma foldGroups_concat:
  assumes "\<And>g d. g \<in> set gs \<Longrightarrow> mset (fst (rec g d)) = mset g"
  shows "\<exists>rs. fst (foldGroups rec r gs dec) = concat rs \<and> list_all2 (\<lambda>x g. mset x = mset g) rs gs"
  using assms
proof (induction gs arbitrary: dec)
  case (Cons g gs)
  obtain res d1 where r1: "rec g dec = (res, d1)" by (cases "rec g dec")
  obtain rs where rs: "fst (foldGroups rec r gs (markDecided r gs res d1)) = concat rs"
      "list_all2 (\<lambda>x g. mset x = mset g) rs gs"
    using Cons.IH [of "markDecided r gs res d1"] Cons.prems by auto
  have "mset res = mset g" using Cons.prems [of g dec] r1 by simp
  then show ?case using rs r1 by (intro exI [of _ "res # rs"]) (simp add: split_beta)
qed simp

lemma mset_concat_all2: "list_all2 (\<lambda>x g. mset x = mset g) rs gs \<Longrightarrow> mset (concat rs) = mset (concat gs)"
  by (induction rs gs rule: list_all2_induct) simp_all

lemma resolve_perm: "mset (fst (resolveTiebreakChain groupBy chain ts dec)) = mset ts"
proof (induction chain arbitrary: ts dec)
  case (Cons r rest)
  obtain rs where rs: "fst (foldGroups (resolveTiebreakChain groupBy rest) r (groupBy r ts) dec) = concat rs"
      "list_all2 (\<lambda>x g. mset x = mset g) rs (groupBy r ts)"
    using foldGroups_concat [of "groupBy r ts" "resolveTiebreakChain groupBy rest" r dec] Cons.IH by blast
  then show ?case
    using mset_concat_all2 [OF rs(2)] tiebreak_rule.partition [OF rule, of r ts] by auto
qed simp

lemma foldGroups_order_free:
  assumes "list_all2 (\<lambda>g h. \<forall>d d'. fst (rec g d) = fst (rec h d')) gs hs"
  shows "fst (foldGroups rec r gs d) = fst (foldGroups rec r hs d')"
  using assms
proof (induction gs hs arbitrary: d d' rule: list_all2_induct)
  case (Cons g gs h hs)
  obtain x e where g: "rec g d = (x, e)" by (cases "rec g d")
  obtain y e' where h: "rec h d' = (y, e')" by (cases "rec h d'")
  have "x = y" using Cons.hyps(1) g h by (metis fst_conv)
  then show ?case using Cons.IH g h by (simp add: split_beta)
qed simp

lemma resolve_order_free:
  assumes "chain \<noteq> []" "mset ts = mset us" "distinct ts"
    and "\<And>vs g. set vs \<subseteq> set ts \<Longrightarrow> distinct vs \<Longrightarrow> g \<in> set (groupBy (last chain) vs) \<Longrightarrow> length g \<le> 1"
  shows "fst (resolveTiebreakChain groupBy chain ts d) = fst (resolveTiebreakChain groupBy chain us d')"
  using assms
proof (induction chain arbitrary: ts us d d')
  case (Cons r rest)
  have short: "xs = ys" if "mset xs = mset ys" "length xs \<le> 1" for xs ys :: "team_id list"
  proof (cases xs)
    case (Cons x zs)
    then show ?thesis using that by (cases ys) auto
  qed (use that in auto)
  show ?case
  proof (cases "length ts \<le> 1")
    case True
    then show ?thesis using short [OF Cons.prems(2)] by simp
  next
    case False
    moreover have "length us = length ts" using Cons.prems(2) by (metis size_mset)
    moreover have "list_all2 (\<lambda>g h. \<forall>d d'. fst (resolveTiebreakChain groupBy rest g d) =
        fst (resolveTiebreakChain groupBy rest h d')) (groupBy r ts) (groupBy r us)"
    proof (rule list.rel_mono_strong)
      show "list_all2 (\<lambda>g h. mset g = mset h) (groupBy r ts) (groupBy r us)"
        by (rule tiebreak_rule.order_free [OF rule Cons.prems(2)])
    next
      fix g h
      assume mem: "g \<in> set (groupBy r ts)" and eq: "mset g = mset h"
      have part: "mset (concat (groupBy r ts)) = mset ts" by (rule tiebreak_rule.partition [OF rule])
      then have sub: "set g \<subseteq> set ts" using mem by (metis UN_upper set_concat set_mset_mset)
      have "distinct (concat (groupBy r ts))"
        using part Cons.prems(3) by (metis mset_eq_imp_distinct_iff)
      then have dg: "distinct g" using mem by (simp add: distinct_concat_iff)
      show "\<forall>d d'. fst (resolveTiebreakChain groupBy rest g d) = fst (resolveTiebreakChain groupBy rest h d')"
      proof (cases "rest = []")
        case True
        then have "length g \<le> 1" using Cons.prems(4) [OF order_refl Cons.prems(3)] mem by simp
        then show ?thesis using short [OF eq] True by simp
      next
        case False
        show ?thesis
        proof (intro allI, rule Cons.IH [OF False eq dg])
          fix vs w assume "set vs \<subseteq> set g" "distinct vs" "w \<in> set (groupBy (last rest) vs)"
          then show "length w \<le> 1" using Cons.prems(4) [of vs w] sub False by auto
        qed
      qed
    qed
    ultimately show ?thesis
      by (auto intro!: foldGroups_order_free)
  qed
qed simp

end

lemma keyed_rule:
  assumes "keyed_order lt' key'"
  shows "tiebreak_rule (\<lambda>ts. partitionEqual (\<lambda>a b. key' a = key' b) (sortStable lt' ts))"
  using keyed_order.concat_groups [OF assms] keyed_order.groups_perm [OF assms]
  unfolding keyed_order.groups_def [OF assms] by unfold_locales auto

lemma single_group_rule: "tiebreak_rule (\<lambda>ts. [ts])"
  by unfold_locales auto

lemma headToHead_swap:
  assumes "a \<noteq> b"
  shows "headToHeadPct sch b a = map_option (\<lambda>(x, y). (y, x)) (headToHeadPct sch a b)"
proof -
  have "fold (headToHeadStep b a) ms (g, wb, wa, t) =
      (case fold (headToHeadStep a b) ms (g, wa, wb, t) of (g', wa', wb', t') \<Rightarrow> (g', wb', wa', t'))" for ms g wa wb t
    using assms by (induction ms arbitrary: g wa wb t) (auto simp: headToHeadStep_def Let_def)
  then show ?thesis by (auto simp: headToHeadPct_def split: prod.splits)
qed

lemma two_perm: "mset [a, b] = mset us \<Longrightarrow> us = [a, b] \<or> us = [b, a]"
proof -
  assume eq: "mset [a, b] = mset us"
  then have "length us = 2" by (metis length_Cons list.size(3) numeral_2_eq_2 size_mset)
  then obtain x y where "us = [x, y]" by (auto simp: length_Suc_conv numeral_2_eq_2)
  then show ?thesis using eq by (auto simp: add_eq_conv_ex add_mset_eq_single)
qed

lemma headToHead_rule: "tiebreak_rule (groupByHeadToHead sch)"
proof
  show "mset (concat (groupByHeadToHead sch ts)) = mset ts" for ts
    by (auto simp: groupByHeadToHead_def split: list.splits option.splits)
next
  fix ts us :: "team_id list" assume eq: "mset ts = mset us"
  show "list_all2 (\<lambda>g h. mset g = mset h) (groupByHeadToHead sch ts) (groupByHeadToHead sch us)"
  proof (cases "\<exists>a b. ts = [a, b]")
    case True
    then obtain a b where ts: "ts = [a, b]" by blast
    show ?thesis
    proof (cases "a = b \<or> us = ts")
      case True
      then have "us = ts" using two_perm [of a b us] eq ts by auto
      then show ?thesis by (simp add: list_all2_refl)
    next
      case False
      then have us: "us = [b, a]" and ne: "a \<noteq> b" using two_perm [of a b us] eq ts by auto
      show ?thesis
        by (auto simp: ts us groupByHeadToHead_def headToHead_swap [OF ne] split: option.splits prod.splits)
    qed
  next
    case False
    have "\<not> (\<exists>a b. us = [a, b])"
    proof
      assume "\<exists>a b. us = [a, b]"
      then obtain a b where "us = [a, b]" by blast
      then show False using two_perm [of a b ts] eq False by auto
    qed
    then have "groupByHeadToHead sch us = [us]" "groupByHeadToHead sch ts = [ts]"
      using False by (auto simp: groupByHeadToHead_def split: list.splits)
    then show ?thesis using eq by simp
  qed
qed

lemma rule_if:
  "tiebreak_rule f \<Longrightarrow> tiebreak_rule g \<Longrightarrow> tiebreak_rule (\<lambda>ts. if c then f ts else g ts)"
  by (cases c) simp_all

lemma rule_pickem:
  "tiebreak_rule (\<lambda>ts. case p of None \<Rightarrow> [ts] | Some records \<Rightarrow> groupByPickem records ts)"
  by (cases p) (simp_all add: single_group_rule groupByPickem_def keyed_rule [OF pickem_order.keyed_order_axioms])

lemma rule_cases: "tiebreak_rule (groupByTiebreakRule tab sch tb r)"
  unfolding groupByTiebreakRule_def [abs_def] groupByDescendingFloat_def groupBySeededDraw_def
  by (intro rule_if rule_pickem headToHead_rule single_group_rule keyed_rule desc_order.keyed_order_axioms
      draw_order.keyed_order_axioms)

interpretation chain: tiebreak_chain "groupByTiebreakRule tab sch tb"
  by (rule tiebreak_chain.intro) (rule rule_cases)

section \<open>Conservation\<close>

lemma dom_bump [simp]: "bump t f tab u = None \<longleftrightarrow> tab u = None"
  by (simp add: bump_def)

lemma dom_tallyMatchup: "fst (tallyMatchup m (tab, res)) u = None \<longleftrightarrow> tab u = None"
  by (simp add: tallyMatchup_def Let_def)

lemma dom_fold_tally: "fst (fold tallyMatchup ms acc) u = None \<longleftrightarrow> fst acc u = None"
  by (induction ms arbitrary: acc) (auto simp: dom_tallyMatchup [of _ "fst acc" "snd acc" for acc, simplified])

definition tableSum :: "(standing \<Rightarrow> 'n :: comm_monoid_add) \<Rightarrow> team_id set \<Rightarrow> tally \<Rightarrow> 'n" where
  "tableSum f ids tab = (\<Sum>t\<in>ids. f (standingOf tab t))"

lemma tableSum_bump:
  fixes f :: "standing \<Rightarrow> 'n :: ab_group_add"
  assumes "finite ids" "t \<in> ids" "tab t \<noteq> None" and "\<And>s. f (g s) = f s + d"
  shows "tableSum f ids (bump t g tab) = tableSum f ids tab + d"
proof -
  have "tableSum f ids (bump t g tab) = f (standingOf (bump t g tab) t) + (\<Sum>u\<in>ids - {t}. f (standingOf (bump t g tab) u))"
    unfolding tableSum_def using assms(1,2) by (rule sum.remove)
  also have "(\<Sum>u\<in>ids - {t}. f (standingOf (bump t g tab) u)) = (\<Sum>u\<in>ids - {t}. f (standingOf tab u))"
    by (rule sum.cong) (auto simp: bump_def standingOf_def)
  also have "f (standingOf (bump t g tab) t) = f (standingOf tab t) + d"
    using assms(3,4) by (auto simp: bump_def standingOf_def)
  finally show ?thesis
    using sum.remove [OF assms(1,2), of "\<lambda>u. f (standingOf tab u)"] by (simp add: tableSum_def algebra_simps)
qed

definition balanced :: "team_id set \<Rightarrow> tally \<Rightarrow> bool" where
  "balanced ids tab \<longleftrightarrow> (\<forall>t. tab t \<noteq> None \<longleftrightarrow> t \<in> ids) \<and>
     tableSum stWins ids tab = tableSum stLosses ids tab \<and>
     tableSum stPointsFor ids tab = tableSum stPointsAgainst ids tab"

lemma tally_simps [simp]:
  "stWins (addPoints x y s) = stWins s" "stLosses (addPoints x y s) = stLosses s"
  "stPointsFor (addPoints x y s) = stPointsFor s + x" "stPointsAgainst (addPoints x y s) = stPointsAgainst s + y"
  "stWins (addWin s) = stWins s + 1" "stLosses (addWin s) = stLosses s"
  "stPointsFor (addWin s) = stPointsFor s" "stPointsAgainst (addWin s) = stPointsAgainst s"
  "stWins (addLoss s) = stWins s" "stLosses (addLoss s) = stLosses s + 1"
  "stPointsFor (addLoss s) = stPointsFor s" "stPointsAgainst (addLoss s) = stPointsAgainst s"
  "stWins (addTie s) = stWins s" "stLosses (addTie s) = stLosses s"
  "stPointsFor (addTie s) = stPointsFor s" "stPointsAgainst (addTie s) = stPointsAgainst s"
  by (simp_all add: addPoints_def addWin_def addLoss_def addTie_def)

lemma balanced_step:
  assumes "finite ids" "balanced ids tab"
  shows "balanced ids (fst (tallyMatchup m (tab, res)))"
proof (cases "\<not> lmFinal m \<or> tab (lmHome m) = None \<or> tab (lmAway m) = None")
  case True
  then show ?thesis using assms(2) by (simp add: tallyMatchup_def Let_def)
next
  case False
  let ?h = "lmHome m" and ?a = "lmAway m"
  have mem: "?h \<in> ids" "?a \<in> ids" "tab ?h \<noteq> None" "tab ?a \<noteq> None"
    using False assms(2) by (auto simp: balanced_def)
  note wins = tableSum_bump [OF assms(1), of _ _ stWins] and losses = tableSum_bump [OF assms(1), of _ _ stLosses]
    and pf = tableSum_bump [OF assms(1), of _ _ stPointsFor] and pa = tableSum_bump [OF assms(1), of _ _ stPointsAgainst]
  have "tableSum stWins ids (fst (tallyMatchup m (tab, res))) = tableSum stLosses ids (fst (tallyMatchup m (tab, res)))"
    using False mem assms(2)
    by (auto simp: tallyMatchup_def Let_def balanced_def wins [where d = 0] wins [where d = 1]
        losses [where d = 0] losses [where d = 1])
  moreover have "tableSum stPointsFor ids (fst (tallyMatchup m (tab, res))) =
      tableSum stPointsAgainst ids (fst (tallyMatchup m (tab, res)))"
    using False mem assms(2)
    by (auto simp: tallyMatchup_def Let_def balanced_def pf [where d = 0] pa [where d = 0]
        pf [where g = "addPoints x y" and d = x for x y] pa [where g = "addPoints x y" and d = y for x y])
  ultimately show ?thesis
    using assms(2) by (simp add: balanced_def dom_tallyMatchup)
qed

lemma balanced_fold:
  "finite ids \<Longrightarrow> balanced ids (fst acc) \<Longrightarrow> balanced ids (fst (fold tallyMatchup ms acc))"
proof (induction ms arbitrary: acc)
  case (Cons m ms)
  then show ?case using balanced_step [of ids "fst acc" m "snd acc"] by simp
qed simp

lemma balanced_empty: "balanced (set ids) (emptyTally ids)"
  by (simp add: balanced_def emptyTally_def tableSum_def standingOf_def emptyStanding_def)

text \<open>Facts of a standing the closing streak update does not touch.\<close>

lemma tallySeason_alt:
  "tallySeason sch ids = (\<lambda>t. map_option (\<lambda>s. s\<lparr>stStreak := computeStreak
     (snd (fold tallyMatchup (seasonMatchups sch) (emptyTally ids, \<lambda>t. [])) t)\<rparr>)
     (fst (fold tallyMatchup (seasonMatchups sch) (emptyTally ids, \<lambda>t. [])) t))"
  by (simp add: tallySeason_def split_beta)

lemma tableSum_streak:
  assumes "\<And>s x. f (s\<lparr>stStreak := x\<rparr>) = f s"
  shows "tableSum f A (tallySeason sch ids) =
    tableSum f A (fst (fold tallyMatchup (seasonMatchups sch) (emptyTally ids, \<lambda>t. [])))"
  unfolding tableSum_def
  by (rule sum.cong) (auto simp: tallySeason_alt standingOf_def assms split: option.splits)

lemma balanced_season: "balanced (set ids) (tallySeason sch ids)"
proof -
  let ?f = "fst (fold tallyMatchup (seasonMatchups sch) (emptyTally ids, \<lambda>t. []))"
  have "balanced (set ids) ?f" by (rule balanced_fold) (simp_all add: balanced_empty)
  moreover have "tallySeason sch ids t = None \<longleftrightarrow> ?f t = None" for t by (simp add: tallySeason_alt)
  ultimately show ?thesis unfolding balanced_def by (simp add: tableSum_streak)
qed

definition tagged :: "tally \<Rightarrow> bool" where
  "tagged tab \<longleftrightarrow> (\<forall>t s. tab t = Some s \<longrightarrow> stTeamID s = t)"

lemma tagged_bump: "tagged tab \<Longrightarrow> (\<And>s. stTeamID (f s) = stTeamID s) \<Longrightarrow> tagged (bump t f tab)"
  by (auto simp: tagged_def bump_def)

lemma tagged_step: "tagged tab \<Longrightarrow> tagged (fst (tallyMatchup m (tab, res)))"
  by (auto simp: tallyMatchup_def Let_def addPoints_def addWin_def addLoss_def addTie_def
      intro!: tagged_bump)

lemma tagged_season: "tagged (tallySeason sch ids)"
proof -
  have "tagged (fst (fold tallyMatchup ms acc))" if "tagged (fst acc)" for ms acc
    using that
  proof (induction ms arbitrary: acc)
    case (Cons m ms)
    then show ?case using tagged_step [of "fst acc" m "snd acc"] by simp
  qed simp
  moreover have "tagged (emptyTally ids)" by (simp add: tagged_def emptyTally_def emptyStanding_def)
  ultimately have "tagged (fst (fold tallyMatchup (seasonMatchups sch) (emptyTally ids, \<lambda>t. [])))" by simp
  then show ?thesis by (auto simp: tagged_def tallySeason_alt)
qed

lemma standingOf_team: "stTeamID (standingOf (tallySeason sch ids) t) = t"
  using tagged_season [of sch ids]
  by (auto simp: tagged_def standingOf_def emptyStanding_def split: option.splits)

section \<open>The order\<close>

definition effectiveChain :: "tiebreak_inputs \<Rightarrow> string list" where
  "effectiveChain tb = (if tbChain tb = [] then defaultTiebreakChain else tbChain tb)"

definition standingsOrder :: "season_schedule \<Rightarrow> team_id list \<Rightarrow> tiebreak_inputs \<Rightarrow> team_id list" where
  "standingsOrder sch ids tb =
     fst (resolveTiebreakChain (groupByTiebreakRule (tallySeason sch ids) sch tb) (effectiveChain tb) ids (\<lambda>t. []))"

lemma standings_teams: "map stTeamID (computeStandings sch ids tb) = standingsOrder sch ids tb"
  by (auto simp: computeStandings_def Let_def standingsOrder_def effectiveChain_def standingOf_team
      split_beta comp_def intro: nth_equalityI)

lemma standings_nth:
  assumes "i < length (standingsOrder sch ids tb)"
  shows "\<exists>d. computeStandings sch ids tb ! i =
    (standingOf (tallySeason sch ids) (standingsOrder sch ids tb ! i))\<lparr>stRank := int i + 1, stDecidedBy := d\<rparr>"
  using assms
  by (auto simp: computeStandings_def Let_def standingsOrder_def effectiveChain_def split_beta)

lemma length_standings: "length (computeStandings sch ids tb) = length (standingsOrder sch ids tb)"
  by (metis length_map standings_teams)

lemma order_perm: "mset (standingsOrder sch ids tb) = mset ids"
  by (simp add: standingsOrder_def chain.resolve_perm)

lemma sorted_all: "(\<And>x y. x \<in> set xs \<Longrightarrow> y \<in> set xs \<Longrightarrow> R x y) \<Longrightarrow> sorted_wrt R xs"
  by (induction xs) auto

lemma sorted_concat_perm:
  assumes "list_all2 (\<lambda>x g. mset x = mset g) rs gs" "sorted_wrt R (concat gs)"
    and "\<And>g x y. g \<in> set gs \<Longrightarrow> x \<in> set g \<Longrightarrow> y \<in> set g \<Longrightarrow> R x y"
  shows "sorted_wrt R (concat rs)"
  using assms
proof (induction rs gs rule: list_all2_induct)
  case (Cons r rs g gs)
  have sg: "set r = set g" using Cons.hyps(1) by (metis set_mset_mset)
  have sc: "set (concat rs) = set (concat gs)"
    using chain.mset_concat_all2 [OF Cons.hyps(2)] by (metis set_mset_mset)
  have "sorted_wrt R r"
    by (rule sorted_all) (use Cons.prems(2) [of g] sg in auto)
  moreover have "sorted_wrt R (concat rs)"
    by (rule Cons.IH) (use Cons.prems in \<open>auto simp: sorted_wrt_append\<close>)
  moreover have "\<forall>x\<in>set r. \<forall>y\<in>set (concat rs). R x y"
    using Cons.prems(1) unfolding sg sc by (simp add: sorted_wrt_append)
  ultimately show ?case by (simp add: sorted_wrt_append)
qed simp

lemma order_by_record:
  assumes "tbChain tb = [] \<or> hd (tbChain tb) = ''record''"
  shows "sorted_wrt (\<lambda>a b. winPct (standingOf (tallySeason sch ids) b) \<le> winPct (standingOf (tallySeason sch ids) a))
    (standingsOrder sch ids tb)"
proof -
  let ?v = "\<lambda>t. winPct (standingOf (tallySeason sch ids) t)"
  let ?by = "groupByTiebreakRule (tallySeason sch ids) sch tb"
  obtain rest where chain: "effectiveChain tb = ''record'' # rest"
    using assms by (cases "tbChain tb") (auto simp: effectiveChain_def defaultTiebreakChain_def)
  have groups: "?by ''record'' ids = desc_order.groups ?v ids"
    by (simp add: groupByTiebreakRule_def groupByDescendingFloat_def desc_order.groups_def)
  obtain rs where rs: "fst (foldGroups (resolveTiebreakChain ?by rest) ''record'' (?by ''record'' ids) (\<lambda>t. [])) = concat rs"
      "list_all2 (\<lambda>x g. mset x = mset g) rs (?by ''record'' ids)"
    using chain.foldGroups_concat [of "?by ''record'' ids" "resolveTiebreakChain ?by rest"]
      chain.resolve_perm by blast
  have "sorted_wrt (\<lambda>a b. ?v b \<le> ?v a) (concat (desc_order.groups ?v ids))"
    using desc_order.sort_sorted [of ?v ids] by (simp add: desc_order.groups_def descLess_def not_less)
  then have "sorted_wrt (\<lambda>a b. ?v b \<le> ?v a) (concat rs)"
    by (rule sorted_concat_perm [OF rs(2) [unfolded groups]])
      (rule eq_refl, rule desc_order.groups_tied)
  then have long: "\<not> length ids \<le> 1 \<Longrightarrow> ?thesis"
    using rs(1) by (simp add: standingsOrder_def chain)
  have "length ids \<le> 1 \<Longrightarrow> standingsOrder sch ids tb = ids"
    by (simp add: standingsOrder_def chain)
  moreover have "length xs \<le> 1 \<Longrightarrow> sorted_wrt R xs" for xs :: "team_id list" and R
    by (cases xs) auto
  ultimately show ?thesis using long by fastforce
qed

section \<open>Properties\<close>

lemma standings_map:
  assumes "\<And>s r d. f (s\<lparr>stRank := r, stDecidedBy := d\<rparr>) = f s"
  shows "map f (computeStandings sch ids tb) =
    map (\<lambda>t. f (standingOf (tallySeason sch ids) t)) (standingsOrder sch ids tb)"
proof (rule nth_equalityI)
  fix i assume "i < length (map f (computeStandings sch ids tb))"
  then have i: "i < length (standingsOrder sch ids tb)" by (simp add: length_standings)
  from standings_nth [OF i] obtain d where "computeStandings sch ids tb ! i =
    (standingOf (tallySeason sch ids) (standingsOrder sch ids tb ! i))\<lparr>stRank := int i + 1, stDecidedBy := d\<rparr>" ..
  then show "map f (computeStandings sch ids tb) ! i =
      map (\<lambda>t. f (standingOf (tallySeason sch ids) t)) (standingsOrder sch ids tb) ! i"
    using i assms by (simp add: length_standings)
qed (simp add: length_standings)

lemma standings_rank:
  "i < length (standingsOrder sch ids tb) \<Longrightarrow> stRank (computeStandings sch ids tb ! i) = int i + 1"
  using standings_nth [of i sch ids tb] by auto

text \<open>The standings list every team exactly once, ranked 1 to n in list order, and when the
  chain starts with the record (as every valid chain does) no team stands above one with a better
  winning percentage.\<close>

theorem standings_rank_teams:
  assumes "tbChain tb = [] \<or> hd (tbChain tb) = ''record''"
  shows "mset (map stTeamID (computeStandings sch ids tb)) = mset ids \<and>
    map stRank (computeStandings sch ids tb) = map (\<lambda>i. int i + 1) [0..<length ids] \<and>
    sorted_wrt (\<lambda>a b. winPct b \<le> winPct a) (computeStandings sch ids tb)"
proof -
  let ?out = "computeStandings sch ids tb" and ?order = "standingsOrder sch ids tb"
  have len: "length ?order = length ids" using order_perm [of sch ids tb] by (metis size_mset)
  have "map stRank ?out = map (\<lambda>i. int i + 1) [0..<length ids]"
    by (rule nth_equalityI) (simp_all add: length_standings len standings_rank)
  moreover have "sorted_wrt (\<lambda>x y. y \<le> x) (map winPct ?out)"
    using order_by_record [OF assms, of sch ids]
    by (subst standings_map) (simp_all add: winPct_def Let_def sorted_wrt_map)
  ultimately show ?thesis by (simp add: standings_teams order_perm sorted_wrt_map)
qed

definition sampleMatchup :: "int \<Rightarrow> team_id \<Rightarrow> team_id \<Rightarrow> rat \<Rightarrow> rat \<Rightarrow> bool \<Rightarrow> league_matchup" where
  "sampleMatchup w h a x y f = \<lparr>lmID = ''m'', lmWeek = w, lmHome = h, lmAway = a, lmHomeScore = x,
     lmAwayScore = y, lmFinal = f\<rparr>"

definition sampleSchedule :: season_schedule where
  "sampleSchedule = \<lparr>schSeason = 2026, schSeed = 7, schGeneratedAt = 1, schStartWeek = 1,
     schWeeks = [\<lparr>swWeek = 1, swMatchups = [sampleMatchup 1 ''a'' ''b'' 90 100 True],
       swBye = ''c'', swClosedAt = 0\<rparr>]\<rparr>"

definition sampleInputs :: tiebreak_inputs where
  "sampleInputs = \<lparr>tbSeed = 7, tbChain = [], tbPickem = None, tbSha256 = (\<lambda>s. Digest (map of_char s))\<rparr>"

theorem standings_rank_teams_witness:
  "mset (map stTeamID (computeStandings sampleSchedule [''a'', ''b'', ''c''] sampleInputs)) = {#''a'', ''b'', ''c''#}"
  using standings_rank_teams [of sampleInputs sampleSchedule "[''a'', ''b'', ''c'']"]
  by (simp add: sampleInputs_def)

text \<open>Over all teams of the standings, wins equal losses and points for equal points against,
  whatever matchups (byes, unknown teams, ties, repeated pairings) the schedule contains.\<close>

theorem standings_conserve:
  assumes "distinct ids"
  shows "sum_list (map stWins (computeStandings sch ids tb)) = sum_list (map stLosses (computeStandings sch ids tb)) \<and>
    sum_list (map stPointsFor (computeStandings sch ids tb)) = sum_list (map stPointsAgainst (computeStandings sch ids tb))"
proof -
  let ?out = "computeStandings sch ids tb" and ?order = "standingsOrder sch ids tb"
  have dist: "distinct ?order" using order_perm assms by (metis mset_eq_imp_distinct_iff)
  have ids: "set ?order = set ids" using order_perm by (metis set_mset_mset)
  have sum: "sum_list (map f ?out) = tableSum f (set ids) (tallySeason sch ids)"
    if f: "\<And>s r d. f (s\<lparr>stRank := r, stDecidedBy := d\<rparr>) = f s" for f :: "standing \<Rightarrow> 'n :: comm_monoid_add"
    by (simp add: standings_map [OF f] tableSum_def sum_list_distinct_conv_sum_set dist ids)
  show ?thesis
    using balanced_season [of ids sch] by (simp add: sum balanced_def)
qed

theorem standings_conserve_witness:
  "sum_list (map stWins (computeStandings sampleSchedule [''a'', ''b'', ''c''] sampleInputs)) =
   sum_list (map stLosses (computeStandings sampleSchedule [''a'', ''b'', ''c''] sampleInputs))"
  using standings_conserve [of "[''a'', ''b'', ''c'']" sampleSchedule sampleInputs] by simp

text \<open>When the digests of the teams differ and the chain ends with the seeded draw (as every
  valid chain does), the standings do not depend on the order the teams are listed in.\<close>

theorem standings_order_independent:
  assumes "distinct ids" "mset ids = mset ids'"
    and "inj_on (seededDrawHash (tbSha256 tb) (tbSeed tb)) (set ids)"
    and "tbChain tb = [] \<or> last (tbChain tb) = ''seeded-draw''"
  shows "map (\<lambda>s. s\<lparr>stDecidedBy := []\<rparr>) (computeStandings sch ids tb) =
         map (\<lambda>s. s\<lparr>stDecidedBy := []\<rparr>) (computeStandings sch ids' tb)"
proof -
  have sets: "set ids = set ids'" using assms(2) by (metis set_mset_mset)
  have tal: "tallySeason sch ids = tallySeason sch ids'"
    by (simp add: tallySeason_def emptyTally_def [abs_def] sets)
  have final: "last (effectiveChain tb) = ''seeded-draw''" "effectiveChain tb \<noteq> []"
    using assms(4) by (auto simp: effectiveChain_def defaultTiebreakChain_def)
  have "length g \<le> 1" if "set vs \<subseteq> set ids" "distinct vs"
    "g \<in> set (groupByTiebreakRule tab sch tb (last (effectiveChain tb)) vs)" for vs g tab
  proof (rule ccontr)
    assume "\<not> length g \<le> 1"
    then obtain x y zs where g: "g = x # y # zs" by (cases g; cases "tl g") auto
    have grp: "g \<in> set (draw_order.groups (tbSha256 tb) (tbSeed tb) vs)"
      using that(3) by (simp add: final groupByTiebreakRule_def groupBySeededDraw_def draw_order.groups_def)
    then have "seededDrawHash (tbSha256 tb) (tbSeed tb) x = seededDrawHash (tbSha256 tb) (tbSeed tb) y"
      using draw_order.groups_tied [OF grp] g by simp
    moreover have cv: "mset (concat (draw_order.groups (tbSha256 tb) (tbSeed tb) vs)) = mset vs"
      by (rule draw_order.concat_groups)
    have "set g \<subseteq> set vs" using grp cv by (metis UN_upper set_concat set_mset_mset)
    moreover have "distinct g"
      using grp cv that(2) by (metis distinct_concat_iff mset_eq_imp_distinct_iff)
    ultimately show False using assms(3) that(1) g by (auto dest: inj_onD)
  qed
  then have order: "standingsOrder sch ids tb = standingsOrder sch ids' tb"
    unfolding standingsOrder_def tal [symmetric]
    by (intro chain.resolve_order_free [OF final(2) assms(2,1)])
  have nth: "(computeStandings sch js tb ! i)\<lparr>stDecidedBy := []\<rparr> =
      (standingOf (tallySeason sch js) (standingsOrder sch js tb ! i))\<lparr>stRank := int i + 1, stDecidedBy := []\<rparr>"
    if "i < length (standingsOrder sch js tb)" for i js
    using standings_nth [OF that] by auto
  show ?thesis
    by (rule nth_equalityI) (simp_all add: length_standings order nth nth [of _ ids, unfolded order] tal)
qed

theorem standings_order_independent_witness:
  "map stTeamID (computeStandings sampleSchedule [''c'', ''b'', ''a''] sampleInputs) =
   map stTeamID (computeStandings sampleSchedule [''a'', ''b'', ''c''] sampleInputs)"
proof -
  have "inj_on (seededDrawHash (tbSha256 sampleInputs) (tbSeed sampleInputs)) {''c'', ''b'', ''a''}"
    by (simp add: sampleInputs_def seededDrawHash_def)
  then have "map (\<lambda>s. s\<lparr>stDecidedBy := []\<rparr>) (computeStandings sampleSchedule [''c'', ''b'', ''a''] sampleInputs) =
      map (\<lambda>s. s\<lparr>stDecidedBy := []\<rparr>) (computeStandings sampleSchedule [''a'', ''b'', ''c''] sampleInputs)"
    by (intro standings_order_independent) (simp_all add: sampleInputs_def)
  then have "map stTeamID (map (\<lambda>s. s\<lparr>stDecidedBy := []\<rparr>) (computeStandings sampleSchedule [''c'', ''b'', ''a''] sampleInputs)) =
      map stTeamID (map (\<lambda>s. s\<lparr>stDecidedBy := []\<rparr>) (computeStandings sampleSchedule [''a'', ''b'', ''c''] sampleInputs))"
    by simp
  then show ?thesis by (simp add: comp_def)
qed

end
