(* ===== verification/WaiverOrder.thy ===== *)
theory WaiverOrder
  imports DraftOrder Standings
begin

text \<open>
  Waiver availability and the claim order (src/internal/league/waivers.go and deferredClearsAt of
  rosterops.go): when a player is free, on waivers or rostered; the base order of the teams; the
  in-period penalties; the FAAB budgets; the private priorities of a team's claims and the
  selection of the next claim of a run.
\<close>

section \<open>Availability\<close>

datatype availability = Rostered | OnWaivers | FreeAgent
datatype hold_reason = NoHold | DroppedHold | KickoffHold

record waiver_status =
  wsState :: availability
  wsResolvesAt :: time
  wsReason :: hold_reason

definition gameWeekWaiverClear :: "league_config \<Rightarrow> game_info list \<Rightarrow> int \<Rightarrow> time \<times> bool" where
  "gameWeekWaiverClear cfg games week =
     (case fold (\<lambda>g (lastFinal, allFinal).
              if gameWeek g \<noteq> week then (lastFinal, allFinal)
              else (if isZero (gameKickoff g) then lastFinal
                    else if isZero lastFinal \<or> gameFinalAt g > lastFinal then gameFinalAt g else lastFinal,
                    allFinal \<and> gameFinal g)) games (0, True) of
        (lastFinal, allFinal) \<Rightarrow>
          if isZero lastFinal then (0, False) else (firstRunAtOrAfter cfg lastFinal, allFinal))"

definition isFreeAgencyDrop :: "transaction \<Rightarrow> bool" where
  "isFreeAgencyDrop txn =
     (case txnType txn of
        TxnDrop \<Rightarrow> True | TxnAutoDrop \<Rightarrow> True
      | TxnAdd \<Rightarrow> txnDrops txn \<noteq> [] | TxnClaim \<Rightarrow> txnDrops txn \<noteq> []
      | _ \<Rightarrow> False)"

definition dropStep :: "player_id \<Rightarrow> transaction \<Rightarrow> (time \<times> txn_type) option \<Rightarrow> (time \<times> txn_type) option" where
  "dropStep p txn acc =
     (if \<not> isFreeAgencyDrop txn then acc
      else fold (\<lambda>d best. if tpPlayerID d \<noteq> p then best
              else case best of None \<Rightarrow> Some (txnAt txn, txnType txn)
                | Some (t, k) \<Rightarrow> if txnAt txn > t then Some (txnAt txn, txnType txn) else best)
             (txnDrops txn) acc)"

definition lastDropInstant :: "persisted_state \<Rightarrow> player_id \<Rightarrow> (time \<times> txn_type) option" where
  "lastDropInstant st p = fold (dropStep p) (transactions st) None"

definition deferredClearsAt :: "league_config \<Rightarrow> game_info list \<Rightarrow> time \<Rightarrow> time" where
  "deferredClearsAt cfg games droppedAt =
     (case firstKickoff games (lineupCurrentWeekAt games droppedAt + 1) of
        Some first' \<Rightarrow> firstRunAtOrAfter cfg first'
      | None \<Rightarrow> firstRunAtOrAfter cfg (droppedAt + 7 * 24 * hour))"

definition kickoffWaiverStatus :: "league_config \<Rightarrow> game_info list \<Rightarrow> string \<Rightarrow> time \<Rightarrow> waiver_status option" where
  "kickoffWaiverStatus cfg games nflTeam now =
     (case fold (\<lambda>g best. if \<not> teamPlays g nflTeam then best
              else if \<not> isZero (gameKickoff g) \<and> \<not> now < gameKickoff g \<and>
                 (case best of None \<Rightarrow> True | Some b \<Rightarrow> gameKickoff g > gameKickoff b)
              then Some g else best) games None of
        None \<Rightarrow> None
      | Some g \<Rightarrow>
          (case gameWeekWaiverClear cfg games (gameWeek g) of (clears, allFinal) \<Rightarrow>
             if allFinal \<and> \<not> now < clears then None
             else Some \<lparr>wsState = OnWaivers, wsResolvesAt = clears, wsReason = KickoffHold\<rparr>))"

definition dropClears :: "league_config \<Rightarrow> game_info list \<Rightarrow> time \<times> txn_type \<Rightarrow> time" where
  "dropClears cfg games d =
     (if snd d = TxnAutoDrop then deferredClearsAt cfg games (fst d) else clearsAt cfg (fst d))"

definition playerWaiverStatus :: "persisted_state \<Rightarrow> league_config \<Rightarrow> game_info list \<Rightarrow> player_id \<Rightarrow> string \<Rightarrow>
    time \<Rightarrow> waiver_status" where
  "playerWaiverStatus st cfg games p nflTeam now =
     (if ownerOf st p \<noteq> [] then \<lparr>wsState = Rostered, wsResolvesAt = 0, wsReason = NoHold\<rparr>
      else
        let free = \<lparr>wsState = FreeAgent, wsResolvesAt = 0, wsReason = NoHold\<rparr>;
            status = (case lastDropInstant st p of None \<Rightarrow> free
              | Some d \<Rightarrow> if now < dropClears cfg games d
                  then \<lparr>wsState = OnWaivers, wsResolvesAt = dropClears cfg games d, wsReason = DroppedHold\<rparr>
                  else free)
        in case kickoffWaiverStatus cfg games nflTeam now of
             None \<Rightarrow> status
           | Some kickoff \<Rightarrow> if wsResolvesAt status > wsResolvesAt kickoff then status else kickoff)"

definition waiverStatusHoldsPlayer :: "waiver_status \<Rightarrow> bool" where
  "waiverStatusHoldsPlayer status = (wsState status = OnWaivers)"

section \<open>The base order\<close>

definition lastClosedWeek :: "season_schedule option \<Rightarrow> int" where
  "lastClosedWeek sch =
     (case sch of None \<Rightarrow> 0
      | Some s \<Rightarrow> fold (\<lambda>wk week. if swWeek wk > week \<and> matchupsAllFinal (swMatchups wk) then swWeek wk else week)
                   (schWeeks s) 0)"

definition weekPoints :: "season_schedule \<Rightarrow> int \<Rightarrow> (team_id \<times> rat) list" where
  "weekPoints sch week =
     fold (\<lambda>m pts. AList.update (lmAway m) (lmAwayScore m) (AList.update (lmHome m) (lmHomeScore m) pts))
       (concat (map swMatchups (filter (\<lambda>wk. swWeek wk = week) (schWeeks sch)))) []"

definition pointsLess :: "(team_id \<Rightarrow> rat) \<Rightarrow> (team_id \<Rightarrow> digest) \<Rightarrow> team_id \<Rightarrow> team_id \<Rightarrow> bool" where
  "pointsLess pts draw a b = (if pts a \<noteq> pts b then pts a > pts b else draw a < draw b)"

definition weeklyPointsRank :: "(string \<Rightarrow> digest) \<Rightarrow> season_schedule \<Rightarrow> team_id list \<Rightarrow> int \<Rightarrow> (team_id \<Rightarrow> int) \<Rightarrow>
    team_id \<Rightarrow> int" where
  "weeklyPointsRank sha sch ids week seasonRank t =
     (let points = weekPoints sch week;
          pts = (\<lambda>u. case map_of points u of None \<Rightarrow> 0 | Some x \<Rightarrow> x);
          ranked = sortStable (pointsLess pts (seededDrawHash sha (schSeed sch)))
                     (filter (\<lambda>u. map_of points u \<noteq> None) ids)
      in if map_of points t = None then seasonRank t
         else case indexWhere (\<lambda>u. u = t) ranked of None \<Rightarrow> 0 | Some i \<Rightarrow> int i + 1)"

definition seasonRankOf :: "standing list \<Rightarrow> team_id \<Rightarrow> int" where
  "seasonRankOf table t = (case map_of (map (\<lambda>s. (stTeamID s, stRank s)) (rev table)) t of None \<Rightarrow> 0 | Some r \<Rightarrow> r)"

definition combinedLess :: "(team_id \<Rightarrow> int) \<Rightarrow> (team_id \<Rightarrow> digest) \<Rightarrow> team_id \<Rightarrow> team_id \<Rightarrow> bool" where
  "combinedLess combined draw a b = (if combined a \<noteq> combined b then combined a > combined b else draw a < draw b)"

definition performanceScore :: "season_schedule \<Rightarrow> team_id list \<Rightarrow> league_config \<Rightarrow> int \<Rightarrow> team_id \<Rightarrow> int" where
  "performanceScore sch ids cfg week t =
     (let table = computeStandings sch ids \<lparr>tbSeed = schSeed sch, tbChain = [], tbPickem = None, tbSha256 = cfgSha256 cfg\<rparr>;
          seasonRank = seasonRankOf table;
          sw = cfgSeasonWeightPct cfg
      in sw * seasonRank t + (100 - sw) * weeklyPointsRank (cfgSha256 cfg) sch ids week seasonRank t)"

definition performanceBaseOrder :: "season_schedule \<Rightarrow> team_id list \<Rightarrow> league_config \<Rightarrow> int \<Rightarrow> team_id list" where
  "performanceBaseOrder sch ids cfg week =
     sortStable (combinedLess (performanceScore sch ids cfg week) (seededDrawHash (cfgSha256 cfg) (schSeed sch))) ids"

definition waiverBaseOrder :: "league_env \<Rightarrow> persisted_state \<Rightarrow> league_config \<Rightarrow> team_id list" where
  "waiverBaseOrder env st cfg =
     (case seasonSchedule st of
        None \<Rightarrow> reverseStrings (roundOneOrder env (draftOrder st))
      | Some sch \<Rightarrow>
          if lastClosedWeek (seasonSchedule st) = 0 then reverseStrings (roundOneOrder env (draftOrder st))
          else performanceBaseOrder sch (defaultTeamIDs env) cfg (lastClosedWeek (seasonSchedule st)))"

section \<open>In-period penalties\<close>

definition moveToBack :: "team_id list \<Rightarrow> team_id \<Rightarrow> team_id list" where
  "moveToBack order t =
     (case indexWhere (\<lambda>u. u = t) order of
        None \<Rightarrow> order | Some i \<Rightarrow> take i order @ drop (Suc i) order @ [t])"

definition weekClosedAt :: "season_schedule option \<Rightarrow> int \<Rightarrow> time option" where
  "weekClosedAt sch week =
     (case sch of None \<Rightarrow> None
      | Some s \<Rightarrow> (case find (\<lambda>wk. swWeek wk = week) (schWeeks s) of
          None \<Rightarrow> None | Some wk \<Rightarrow> if isZero (swClosedAt wk) then None else Some (swClosedAt wk)))"

definition weekSettledBoundary :: "season_schedule option \<Rightarrow> game_info list \<Rightarrow> int \<Rightarrow> time option" where
  "weekSettledBoundary sch games week =
     (case weekClosedAt sch week of
        Some t \<Rightarrow> Some t
      | None \<Rightarrow> (case weekCloseLastKickoff games week of (boundary, found, kickoffOK) \<Rightarrow>
          if found \<and> kickoffOK then Some boundary else None))"

definition waiverPenaltyFallbackFloor :: "persisted_state \<Rightarrow> time \<Rightarrow> time" where
  "waiverPenaltyFallbackFloor st now =
     (let week = lastClosedWeek (seasonSchedule st);
          settled = (if week > 0 then weekSettledBoundary (seasonSchedule st) [] week else None);
          fallback = (case seasonSchedule st of None \<Rightarrow> 0
            | Some sch \<Rightarrow> if now > schGeneratedAt sch then schGeneratedAt sch else 0)
      in case settled of None \<Rightarrow> fallback | Some b \<Rightarrow> if now > b then b else fallback)"

definition waiverPenaltyBoundary :: "persisted_state \<Rightarrow> game_info list \<Rightarrow> time \<Rightarrow> time" where
  "waiverPenaltyBoundary st games now =
     (let week = lastClosedWeek (seasonSchedule st);
          settled = (if week > 0 then weekSettledBoundary (seasonSchedule st) games week else None)
      in case settled of
           None \<Rightarrow> waiverPenaltyFallbackFloor st now
         | Some b \<Rightarrow> if now > b then b else waiverPenaltyFallbackFloor st now)"

definition atLess :: "transaction \<Rightarrow> transaction \<Rightarrow> bool" where
  "atLess a b = (txnAt a < txnAt b)"

definition claimsAfter :: "time \<Rightarrow> transaction list \<Rightarrow> transaction list" where
  "claimsAfter boundary txns = filter (\<lambda>txn. txnType txn = TxnClaim \<and> txnAt txn > boundary) txns"

definition applyInPeriodPenalties :: "team_id list \<Rightarrow> transaction list \<Rightarrow> time \<Rightarrow> team_id list" where
  "applyInPeriodPenalties base txns boundary =
     fold (\<lambda>txn order. moveToBack order (txnTeamID txn)) (sortStable atLess (claimsAfter boundary txns)) base"

definition waiverOrder :: "league_env \<Rightarrow> persisted_state \<Rightarrow> league_config \<Rightarrow> game_info list \<Rightarrow> time \<Rightarrow> team_id list" where
  "waiverOrder env st cfg games now =
     applyInPeriodPenalties (waiverBaseOrder env st cfg) (transactions st) (waiverPenaltyBoundary st games now)"

definition faabRemaining :: "league_env \<Rightarrow> persisted_state \<Rightarrow> int \<Rightarrow> team_id \<Rightarrow> int option" where
  "faabRemaining env st budget t =
     (if t \<in> set (defaultTeamIDs env)
      then Some (fold (\<lambda>txn left. if txnType txn = TxnClaim \<and> txnTeamID txn = t then left - txnBid txn else left)
             (transactions st) budget)
      else None)"

definition waiverOrderPosition :: "team_id list \<Rightarrow> team_id \<Rightarrow> int" where
  "waiverOrderPosition order t = (case indexWhere (\<lambda>u. u = t) order of None \<Rightarrow> 0 | Some i \<Rightarrow> int i + 1)"

section \<open>A team's claims\<close>

definition waiverClaimByTeamAndPlayer :: "waiver_claim list \<Rightarrow> team_id \<Rightarrow> player_id \<Rightarrow> waiver_claim option" where
  "waiverClaimByTeamAndPlayer claims t p = find (\<lambda>c. claimTeamID c = t \<and> claimAddID c = p) claims"

definition teamOpenClaimCount :: "waiver_claim list \<Rightarrow> team_id \<Rightarrow> int" where
  "teamOpenClaimCount claims t = int (length (filter (\<lambda>c. claimTeamID c = t) claims))"

definition maxInt :: int where "maxInt = 2 ^ 63 - 1"

definition effectivePriority :: "waiver_claim \<Rightarrow> int" where
  "effectivePriority c = (if claimPriority c \<le> 0 then maxInt else claimPriority c)"

definition priorityLess :: "waiver_claim \<Rightarrow> waiver_claim \<Rightarrow> bool" where
  "priorityLess a b =
     (if effectivePriority a \<noteq> effectivePriority b then effectivePriority a < effectivePriority b
      else if claimFiledAt a \<noteq> claimFiledAt b then claimFiledAt a < claimFiledAt b
      else claimID a < claimID b)"

definition teamClaimIndices :: "waiver_claim list \<Rightarrow> team_id \<Rightarrow> nat list" where
  "teamClaimIndices claims t =
     sortStable (\<lambda>i j. priorityLess (claims ! i) (claims ! j))
       (filter (\<lambda>i. claimTeamID (claims ! i) = t) [0..<length claims])"

definition renumber :: "nat list \<Rightarrow> waiver_claim list \<Rightarrow> waiver_claim list" where
  "renumber indices claims =
     fold (\<lambda>(pos, i) cs. cs[i := (cs ! i)\<lparr>claimPriority := int pos + 1\<rparr>]) (enumerate 0 indices) claims"

definition normalizeTeamClaimPriorities :: "waiver_claim list \<Rightarrow> team_id \<Rightarrow> waiver_claim list \<times> nat list" where
  "normalizeTeamClaimPriorities claims t =
     (let indices = teamClaimIndices claims t in (renumber indices claims, indices))"

fun normalizeLoop :: "team_id list \<Rightarrow> team_id list \<Rightarrow> waiver_claim list \<Rightarrow> waiver_claim list" where
  "normalizeLoop seen [] claims = claims"
| "normalizeLoop seen (t # ts) claims =
     (if t \<in> set seen then normalizeLoop seen ts claims
      else normalizeLoop (t # seen) ts (fst (normalizeTeamClaimPriorities claims t)))"

definition normalizeAllClaimPriorities :: "waiver_claim list \<Rightarrow> waiver_claim list" where
  "normalizeAllClaimPriorities claims = normalizeLoop [] (map claimTeamID claims) claims"

section \<open>The next claim\<close>

definition claimLess :: "team_id list \<Rightarrow> waiver_claim \<Rightarrow> waiver_claim \<Rightarrow> bool" where
  "claimLess order a b =
     (let pa = waiverOrderPosition order (claimTeamID a); pb = waiverOrderPosition order (claimTeamID b)
      in if pa \<noteq> pb then pa < pb else claimPriority a < claimPriority b)"

definition claimLessFAAB :: "team_id list \<Rightarrow> waiver_claim \<Rightarrow> waiver_claim \<Rightarrow> bool" where
  "claimLessFAAB order a b =
     (if claimBid a \<noteq> claimBid b then claimBid a > claimBid b
      else
        let pa = waiverOrderPosition order (claimTeamID a); pb = waiverOrderPosition order (claimTeamID b)
        in if pa \<noteq> pb then pa < pb else claimPriority a < claimPriority b)"

definition claimLessFor :: "waiver_mode \<Rightarrow> team_id list \<Rightarrow> waiver_claim \<Rightarrow> waiver_claim \<Rightarrow> bool" where
  "claimLessFor mode order = (case mode of Faab \<Rightarrow> claimLessFAAB order | PerfPriority \<Rightarrow> claimLess order)"

definition bestIndex :: "('a \<Rightarrow> 'a \<Rightarrow> bool) \<Rightarrow> 'a list \<Rightarrow> nat" where
  "bestIndex lt xs = fold (\<lambda>i best. if lt (xs ! i) (xs ! best) then i else best) [1..<length xs] 0"

definition pickNextClaim :: "waiver_claim list \<Rightarrow> team_id list \<Rightarrow> waiver_mode \<Rightarrow> waiver_claim \<times> waiver_claim list" where
  "pickNextClaim remaining order mode =
     (let best = bestIndex (claimLessFor mode order) remaining
      in (remaining ! best, take best remaining @ drop (Suc best) remaining))"

text \<open>waiverWinningBid walks the log from its newest entry to the one that settled the ownership.\<close>

fun winningBidLoop :: "transaction list \<Rightarrow> player_id \<Rightarrow> team_id \<Rightarrow> int \<times> bool" where
  "winningBidLoop [] p t = (0, False)"
| "winningBidLoop (txn # older) p t =
     (let names = (\<lambda>ps. list_ex (\<lambda>x. tpPlayerID x = p) ps);
          own = (txnTeamID txn = t);
          counter = (\<not> own \<and> txnType txn = TxnTrade \<and> txnOtherTeamID txn = t);
          acquired = (if own then names (txnAdds txn) else counter \<and> names (txnDrops txn));
          released = (if own then names (txnDrops txn) else counter \<and> names (txnAdds txn))
      in if \<not> acquired \<and> \<not> released then winningBidLoop older p t
         else if acquired \<and> \<not> released \<and> txnType txn = TxnClaim then (txnBid txn, True)
         else (0, False))"

definition waiverWinningBid :: "transaction list \<Rightarrow> player_id \<Rightarrow> team_id \<Rightarrow> int \<times> bool" where
  "waiverWinningBid txns p t = winningBidLoop (rev txns) p t"

definition receiptPlayer :: "(player_id \<Rightarrow> player option) \<Rightarrow> player_id \<Rightarrow> txn_player" where
  "receiptPlayer pool p =
     (case pool p of Some pl \<Rightarrow> transactionPlayerFromPlayer pl
      | None \<Rightarrow> \<lparr>tpPlayerID = p, tpName = p, tpPosition = [], tpNFLTeam = []\<rparr>)"

section \<open>Penalties keep the teams\<close>

lemma indexWhere_split:
  "indexWhere P xs = Some i \<Longrightarrow> xs = take i xs @ xs ! i # drop (Suc i) xs \<and> P (xs ! i) \<and> (\<forall>y\<in>set (take i xs). \<not> P y)"
  using indexWhere_Some [of P xs i]
  by (auto simp: id_take_nth_drop [symmetric] in_set_conv_nth)

lemma moveToBack_remove1: "moveToBack order t = (if t \<in> set order then remove1 t order @ [t] else order)"
proof (cases "indexWhere (\<lambda>u. u = t) order")
  case None
  then have "t \<notin> set order" by (auto simp: indexWhere_None)
  then show ?thesis using None by (simp add: moveToBack_def)
next
  case (Some i)
  note sp = indexWhere_split [OF Some]
  then have mem: "t \<in> set order" using indexWhere_Some [OF Some] by auto
  have at_i: "order ! i = t" and before: "t \<notin> set (take i order)" using sp by auto
  have "remove1 t (take i order @ order ! i # drop (Suc i) order) = take i order @ drop (Suc i) order"
    using at_i before by (simp add: remove1_append)
  then have "remove1 t order = take i order @ drop (Suc i) order"
    using sp by (metis (no_types, lifting))
  then show ?thesis using Some mem by (simp add: moveToBack_def)
qed

lemma mset_moveToBack [simp]: "mset (moveToBack order t) = mset order"
  by (simp add: moveToBack_remove1)

lemma mset_fold_moveToBack: "mset (fold (\<lambda>txn order. moveToBack order (txnTeamID txn)) txns base) = mset base"
  by (induction txns arbitrary: base) simp_all

lemma penalties_perm: "mset (applyInPeriodPenalties base txns boundary) = mset base"
  by (simp add: applyInPeriodPenalties_def mset_fold_moveToBack)

lemma remdups_snoc: "remdups (ts @ [t]) = filter (\<lambda>u. u \<noteq> t) (remdups ts) @ [t]"
  by (induction ts) auto

lemma mset_fold_back: "mset (fold (\<lambda>t order. moveToBack order t) ts base) = mset base"
  by (induction ts arbitrary: base) simp_all

lemma penalties_form:
  assumes "distinct base"
  shows "fold (\<lambda>t order. moveToBack order t) ts base =
    filter (\<lambda>t. t \<notin> set ts) base @ filter (\<lambda>t. t \<in> set base) (remdups ts)"
proof (induction ts rule: rev_induct)
  case (snoc t ts)
  let ?now = "fold (\<lambda>t order. moveToBack order t) ts base"
  have now: "distinct ?now" "set ?now = set base"
    using mset_fold_back [of ts base] assms by (metis mset_eq_imp_distinct_iff) (metis mset_fold_back set_mset_mset)
  have step: "fold (\<lambda>t order. moveToBack order t) (ts @ [t]) base = moveToBack ?now t" by simp
  have rm: "remove1 t ?now = filter (\<lambda>u. u \<noteq> t) ?now"
    using now(1) by (simp add: distinct_remove1_removeAll removeAll_filter_not_eq) (rule filter_cong, auto)
  show ?case
  proof (cases "t \<in> set base")
    case True
    then show ?thesis
      unfolding step moveToBack_remove1 [of ?now] rm now(2)
      unfolding snoc.IH
      by (auto simp: remdups_snoc conj_commute intro!: filter_cong)
  next
    case False
    then have "filter (\<lambda>u. u \<notin> set (ts @ [t])) base = filter (\<lambda>u. u \<notin> set ts) base"
      by (intro filter_cong) auto
    moreover have "filter (\<lambda>u. u \<in> set base) (remdups (ts @ [t])) = filter (\<lambda>u. u \<in> set base) (remdups ts)"
      using False by (auto simp: remdups_snoc intro!: filter_cong)
    ultimately show ?thesis
      unfolding step moveToBack_remove1 [of ?now] now(2) using snoc.IH False by simp
  qed
qed simp

interpretation at_order: weak_order atLess
  by unfold_locales (auto simp: atLess_def)

section \<open>The base order is sorted\<close>

lemma combined_total:
  "weak_order (combinedLess combined draw)"
  by unfold_locales (auto simp: combinedLess_def split: if_splits)

interpretation combined_order: weak_order "combinedLess combined draw"
  by (rule combined_total)

lemma mset_waiverBaseOrder:
  "mset (waiverBaseOrder env st cfg) =
     (if lastClosedWeek (seasonSchedule st) = 0 \<or> seasonSchedule st = None
      then mset (draftIDs env (draftOrder st)) else mset (defaultTeamIDs env))"
  by (auto simp: waiverBaseOrder_def reverseStrings_def roundOneOrder_ids performanceBaseOrder_def
      split: option.splits)

section \<open>Selecting the next claim\<close>

interpretation claim_order: weak_order "claimLess order"
  by unfold_locales (auto simp: claimLess_def Let_def split: if_splits)

interpretation faab_order: weak_order "claimLessFAAB order"
  by unfold_locales (auto simp: claimLessFAAB_def Let_def split: if_splits)

lemma weak_order_claimLessFor: "weak_order (claimLessFor mode order)"
  by (cases mode) (simp_all add: claimLessFor_def claim_order.weak_order_axioms faab_order.weak_order_axioms)

context weak_order
begin

lemma bestIndex_fold:
  "n \<le> length xs \<Longrightarrow> 0 < n \<Longrightarrow>
   (let b = fold (\<lambda>i best. if lt (xs ! i) (xs ! best) then i else best) [1..<n] 0
    in b < n \<and> (\<forall>j<n. \<not> lt (xs ! j) (xs ! b)) \<and> (\<forall>j<b. lt (xs ! b) (xs ! j)))"
proof (induction n)
  case (Suc n)
  show ?case
  proof (cases "n = 0")
    case True
    then show ?thesis using irrefl by simp
  next
    case False
    define b where "b = fold (\<lambda>i best. if lt (xs ! i) (xs ! best) then i else best) [1..<n] 0"
    have b: "b < n" "\<forall>j<n. \<not> lt (xs ! j) (xs ! b)" "\<forall>j<b. lt (xs ! b) (xs ! j)"
      using Suc False by (auto simp: b_def Let_def)
    have step: "fold (\<lambda>i best. if lt (xs ! i) (xs ! best) then i else best) [1..<Suc n] 0 =
        (if lt (xs ! n) (xs ! b) then n else b)"
      using False by (simp add: b_def)
    show ?thesis
    proof (cases "lt (xs ! n) (xs ! b)")
      case True
      have beats: "lt (xs ! n) (xs ! j)" if "j < n" for j
        using b(2) that True neg_trans by blast
      then have "\<forall>j<Suc n. \<not> lt (xs ! j) (xs ! n)" using irrefl asym by (auto simp: less_Suc_eq)
      then show ?thesis unfolding step using True beats by (simp add: Let_def)
    next
      case False
      then show ?thesis unfolding step using b by (auto simp: Let_def less_Suc_eq)
    qed
  qed
qed simp

lemma bestIndex_least:
  assumes "xs \<noteq> []"
  shows "bestIndex lt xs < length xs" "\<forall>x\<in>set xs. \<not> lt x (xs ! bestIndex lt xs)"
    "\<forall>j<bestIndex lt xs. lt (xs ! bestIndex lt xs) (xs ! j)"
  using bestIndex_fold [of "length xs" xs] assms
  by (auto simp: bestIndex_def Let_def in_set_conv_nth)

end

lemma pickNext_spec:
  assumes "remaining \<noteq> []" "pickNextClaim remaining order mode = (next', rest)"
  shows "\<exists>before after. remaining = before @ next' # after \<and> rest = before @ after \<and>
    (\<forall>c\<in>set remaining. \<not> claimLessFor mode order c next') \<and>
    (\<forall>c\<in>set before. claimLessFor mode order next' c)"
proof -
  note bi = weak_order.bestIndex_least [OF weak_order_claimLessFor [of mode order] assms(1)]
  let ?b = "bestIndex (claimLessFor mode order) remaining"
  have "remaining = take ?b remaining @ remaining ! ?b # drop (Suc ?b) remaining"
    using bi(1) by (rule id_take_nth_drop)
  moreover have "\<forall>c\<in>set (take ?b remaining). claimLessFor mode order (remaining ! ?b) c"
    using bi(1,3) by (auto simp: in_set_conv_nth)
  ultimately show ?thesis using assms(2) bi(2)
    by (intro exI [of _ "take ?b remaining"] exI [of _ "drop (Suc ?b) remaining"])
      (auto simp: pickNextClaim_def Let_def)
qed

section \<open>Normalizing priorities\<close>

definition unranked :: "waiver_claim \<Rightarrow> waiver_claim" where
  "unranked c = c\<lparr>claimPriority := 0\<rparr>"

definition claimsOf :: "waiver_claim list \<Rightarrow> team_id \<Rightarrow> waiver_claim list" where
  "claimsOf claims t = filter (\<lambda>c. claimTeamID c = t) claims"

text \<open>A team's priorities are normal when they are 1 to the number of its claims, each once.\<close>

definition prioritiesNormal :: "waiver_claim list \<Rightarrow> team_id \<Rightarrow> bool" where
  "prioritiesNormal claims t \<longleftrightarrow>
     mset (map claimPriority (claimsOf claims t)) = mset (map (\<lambda>p. int p + 1) [0..<length (claimsOf claims t)])"

lemma renumber_fold:
  fixes k :: nat
  assumes "distinct idx" "set idx \<subseteq> {..<length claims}"
  defines "cs \<equiv> fold (\<lambda>(pos, i) cs. cs[i := (cs ! i)\<lparr>claimPriority := int pos + 1\<rparr>]) (enumerate k idx) claims"
  shows "length cs = length claims" "\<And>i. i \<notin> set idx \<Longrightarrow> cs ! i = claims ! i"
    "\<And>p. p < length idx \<Longrightarrow> cs ! (idx ! p) = (claims ! (idx ! p))\<lparr>claimPriority := int (k + p) + 1\<rparr>"
  using assms(1,2) unfolding cs_def
proof (induction idx arbitrary: k claims)
  case (Cons i idx)
  {
    case (1 k claims)
    let ?c = "claims[i := (claims ! i)\<lparr>claimPriority := int k + 1\<rparr>]"
    from 1 have dis: "distinct idx" "set idx \<subseteq> {..<length ?c}" by simp_all
    show ?case using Cons.IH(1) [OF dis, of "Suc k"] by simp
  next
    case (2 j k claims)
    let ?c = "claims[i := (claims ! i)\<lparr>claimPriority := int k + 1\<rparr>]"
    from 2 have dis: "j \<notin> set idx" "distinct idx" "set idx \<subseteq> {..<length ?c}" and ne: "j \<noteq> i" by simp_all
    show ?case using Cons.IH(2) [OF dis, of "Suc k"] ne by simp
  next
    case (3 p k claims)
    let ?c = "claims[i := (claims ! i)\<lparr>claimPriority := int k + 1\<rparr>]"
    from 3 have dis: "distinct idx" "i \<notin> set idx" "set idx \<subseteq> {..<length ?c}" "i < length claims" by simp_all
    show ?case
    proof (cases p)
      case 0
      then show ?thesis using Cons.IH(2) [OF dis(2) dis(1) dis(3), of "Suc k"] dis by simp
    next
      case (Suc q)
      then have q: "q < length idx" using 3 by simp
      then have "idx ! q \<noteq> i" using dis(2) by auto
      then show ?thesis using Cons.IH(3) [OF q dis(1) dis(3), of "Suc k"] Suc by simp
    qed
  }
qed simp_all

lemma filter_indices: "filter P xs = map ((!) xs) (filter (\<lambda>i. P (xs ! i)) [0..<length xs])"
  by (metis (no_types, lifting) comp_apply filter_cong filter_map map_nth)

lemma indices_mset: "mset (teamClaimIndices claims t) = mset (filter (\<lambda>i. claimTeamID (claims ! i) = t) [0..<length claims])"
  by (simp add: teamClaimIndices_def)

lemma indices_ok:
  "distinct (teamClaimIndices claims t)" "set (teamClaimIndices claims t) \<subseteq> {..<length claims}"
  "i \<in> set (teamClaimIndices claims t) \<longleftrightarrow> i < length claims \<and> claimTeamID (claims ! i) = t"
  "length (teamClaimIndices claims t) = length (claimsOf claims t)"
  by (auto simp: teamClaimIndices_def claimsOf_def filter_indices [of _ claims])

lemmas renumbered = renumber_fold [where k = 0, OF indices_ok(1,2), folded renumber_def]

lemma normalize_unranked:
  "map unranked (fst (normalizeTeamClaimPriorities claims t)) = map unranked claims"
proof (rule nth_equalityI)
  fix i assume "i < length (map unranked (fst (normalizeTeamClaimPriorities claims t)))"
  then have i: "i < length claims" by (simp add: normalizeTeamClaimPriorities_def Let_def renumbered)
  show "map unranked (fst (normalizeTeamClaimPriorities claims t)) ! i = map unranked claims ! i"
  proof (cases "i \<in> set (teamClaimIndices claims t)")
    case True
    then obtain p where "p < length (teamClaimIndices claims t)" "teamClaimIndices claims t ! p = i"
      by (auto simp: in_set_conv_nth)
    then show ?thesis using renumbered(3) [of p claims t] i
      by (simp add: normalizeTeamClaimPriorities_def Let_def renumbered(1) unranked_def)
  next
    case False
    then show ?thesis using i by (simp add: normalizeTeamClaimPriorities_def Let_def renumbered)
  qed
qed (simp add: normalizeTeamClaimPriorities_def Let_def renumbered)

lemma unranked_team: "map unranked xs = map unranked ys \<Longrightarrow>
    i < length ys \<Longrightarrow> claimTeamID (xs ! i) = claimTeamID (ys ! i)"
proof -
  assume eq: "map unranked xs = map unranked ys" and i: "i < length ys"
  have "length xs = length ys" using eq by (metis length_map)
  then have "unranked (xs ! i) = unranked (ys ! i)" using eq i by (metis nth_map)
  then show ?thesis by (metis unranked_def waiver_claim.ext_inject waiver_claim.surjective waiver_claim.update_convs(6))
qed

lemma normalize_indices:
  "filter (\<lambda>i. claimTeamID (fst (normalizeTeamClaimPriorities claims t) ! i) = u)
      [0..<length (fst (normalizeTeamClaimPriorities claims t))] =
   filter (\<lambda>i. claimTeamID (claims ! i) = u) [0..<length claims]"
proof -
  have "length (fst (normalizeTeamClaimPriorities claims t)) = length claims"
    using normalize_unranked [of claims t] by (metis length_map)
  then show ?thesis
    using unranked_team [OF normalize_unranked [of claims t]] by (auto intro!: filter_cong)
qed

lemma normalize_other:
  assumes "u \<noteq> t"
  shows "claimsOf (fst (normalizeTeamClaimPriorities claims t)) u = claimsOf claims u"
proof -
  have "fst (normalizeTeamClaimPriorities claims t) ! i = claims ! i"
    if "i \<in> set (filter (\<lambda>i. claimTeamID (claims ! i) = u) [0..<length claims])" for i
  proof -
    have "i \<notin> set (teamClaimIndices claims t)" using that assms by (auto simp: indices_ok(3))
    then show ?thesis by (simp add: normalizeTeamClaimPriorities_def Let_def renumbered(2))
  qed
  then show ?thesis
    unfolding claimsOf_def filter_indices [of _ "fst (normalizeTeamClaimPriorities claims t)"]
      normalize_indices filter_indices [of _ claims]
    by (intro map_cong) auto
qed

lemma normalize_team: "prioritiesNormal (fst (normalizeTeamClaimPriorities claims t)) t"
proof -
  let ?cs = "fst (normalizeTeamClaimPriorities claims t)" and ?idx = "teamClaimIndices claims t"
  have cs: "?cs = renumber ?idx claims" by (simp add: normalizeTeamClaimPriorities_def Let_def)
  have "mset (map claimPriority (claimsOf ?cs t)) =
      mset (map (\<lambda>i. claimPriority (?cs ! i)) (filter (\<lambda>i. claimTeamID (claims ! i) = t) [0..<length claims]))"
    unfolding claimsOf_def filter_indices [of _ ?cs] normalize_indices by (simp add: comp_def)
  also have "\<dots> = mset (map (\<lambda>i. claimPriority (?cs ! i)) ?idx)"
    by (simp only: mset_map indices_mset)
  also have "map (\<lambda>i. claimPriority (?cs ! i)) ?idx = map (\<lambda>p. int p + 1) [0..<length ?idx]"
    by (rule nth_equalityI) (simp_all add: cs renumbered(3))
  finally have "mset (map claimPriority (claimsOf ?cs t)) = mset (map (\<lambda>p. int p + 1) [0..<length ?idx])" .
  moreover from this have "length (claimsOf ?cs t) = length ?idx" by (metis length_map length_upt minus_nat.diff_0 size_mset)
  ultimately show ?thesis by (simp add: prioritiesNormal_def)
qed

lemma normal_cong: "claimsOf cs t = claimsOf cs' t \<Longrightarrow> prioritiesNormal cs t = prioritiesNormal cs' t"
  by (simp add: prioritiesNormal_def)

lemma normalizeLoop_spec:
  "map unranked (normalizeLoop seen ts claims) = map unranked claims \<and>
   (\<forall>u. u \<in> set seen \<longrightarrow> prioritiesNormal claims u \<longrightarrow> prioritiesNormal (normalizeLoop seen ts claims) u) \<and>
   ((\<forall>u\<in>set seen. prioritiesNormal claims u) \<longrightarrow> (\<forall>u\<in>set ts. prioritiesNormal (normalizeLoop seen ts claims) u))"
proof (induction seen ts claims rule: normalizeLoop.induct)
  case (2 seen t ts claims)
  let ?c = "fst (normalizeTeamClaimPriorities claims t)"
  show ?case
  proof (cases "t \<in> set seen")
    case True
    then show ?thesis using 2(1) by auto
  next
    case False
    note ih = 2(2) [OF False]
    have keep: "prioritiesNormal ?c u" if "u \<noteq> t" "prioritiesNormal claims u" for u
      using that normal_cong [OF normalize_other [OF that(1), of claims]] by blast
    have seen: "u \<noteq> t" if "u \<in> set seen" for u using that False by auto
    show ?thesis
      using ih keep seen normalize_team [of claims t] normalize_unranked [of claims t] False by auto
  qed
qed simp

lemma normalizeAll_spec:
  "map unranked (normalizeAllClaimPriorities claims) = map unranked claims"
  "prioritiesNormal (normalizeAllClaimPriorities claims) t"
proof -
  have same: "map unranked (normalizeAllClaimPriorities claims) = map unranked claims"
    unfolding normalizeAllClaimPriorities_def using normalizeLoop_spec by blast
  show "map unranked (normalizeAllClaimPriorities claims) = map unranked claims" by (rule same)
  show "prioritiesNormal (normalizeAllClaimPriorities claims) t"
  proof (cases "t \<in> set (map claimTeamID claims)")
    case True
    then show ?thesis unfolding normalizeAllClaimPriorities_def
      using normalizeLoop_spec [of "[]" "map claimTeamID claims" claims] by auto
  next
    case False
    have "length (normalizeAllClaimPriorities claims) = length claims" using same by (metis length_map)
    then have "claimsOf (normalizeAllClaimPriorities claims) t = []"
      using unranked_team [OF same] False by (force simp: claimsOf_def filter_empty_conv in_set_conv_nth)
    then show ?thesis by (simp add: prioritiesNormal_def)
  qed
qed

lemma priority_weak_order: "weak_order (\<lambda>i j. priorityLess (f i) (f j))"
  by unfold_locales (auto simp: priorityLess_def split: if_splits)

lemma normalize_nth_other:
  "claimTeamID (claims ! i) \<noteq> t \<Longrightarrow> fst (normalizeTeamClaimPriorities claims t) ! i = claims ! i"
  by (simp add: normalizeTeamClaimPriorities_def Let_def renumbered(2) indices_ok(3))

lemma normalize_length [simp]: "length (fst (normalizeTeamClaimPriorities claims t)) = length claims"
  by (simp add: normalizeTeamClaimPriorities_def Let_def renumbered(1))

lemma normalize_team_order:
  assumes "i < length claims" "j < length claims" "claimTeamID (claims ! i) = t" "claimTeamID (claims ! j) = t"
    and "claimPriority (fst (normalizeTeamClaimPriorities claims t) ! i) <
      claimPriority (fst (normalizeTeamClaimPriorities claims t) ! j)"
  shows "\<not> priorityLess (claims ! j) (claims ! i)"
proof -
  let ?idx = "teamClaimIndices claims t"
  obtain p where p: "p < length ?idx" "?idx ! p = i" using assms(1,3) indices_ok(3) [of i claims t] by (auto simp: in_set_conv_nth)
  obtain q where q: "q < length ?idx" "?idx ! q = j" using assms(2,4) indices_ok(3) [of j claims t] by (auto simp: in_set_conv_nth)
  have "p < q"
    using assms(5) renumbered(3) [OF p(1)] renumbered(3) [OF q(1)] p(2) q(2)
    by (simp add: normalizeTeamClaimPriorities_def Let_def)
  moreover have "sorted_wrt (\<lambda>i j. \<not> priorityLess (claims ! j) (claims ! i)) ?idx"
    unfolding teamClaimIndices_def by (rule weak_order.sort_sorted [OF priority_weak_order])
  ultimately show ?thesis using p(2) q by (metis sorted_wrt_nth_less)
qed

lemma normalizeLoop_seen:
  "claimTeamID (claims ! i) \<in> set seen \<Longrightarrow> normalizeLoop seen ts claims ! i = claims ! i"
proof (induction seen ts claims rule: normalizeLoop.induct)
  case (2 seen t ts claims)
  show ?case
  proof (cases "t \<in> set seen")
    case True
    then show ?thesis using 2(1,3) by simp
  next
    case False
    then have ne: "claimTeamID (claims ! i) \<noteq> t" using 2(3) by auto
    show ?thesis using 2(2) [OF False] 2(3) False normalize_nth_other [OF ne] by simp
  qed
qed simp

lemma normalizeLoop_order:
  "i < length claims \<Longrightarrow> j < length claims \<Longrightarrow> claimTeamID (claims ! i) = t \<Longrightarrow> claimTeamID (claims ! j) = t \<Longrightarrow>
   t \<in> set ts \<Longrightarrow> t \<notin> set seen \<Longrightarrow>
   claimPriority (normalizeLoop seen ts claims ! i) < claimPriority (normalizeLoop seen ts claims ! j) \<Longrightarrow>
   \<not> priorityLess (claims ! j) (claims ! i)"
proof (induction seen ts claims rule: normalizeLoop.induct)
  case (2 seen u ts claims)
  show ?case
  proof (cases "u \<in> set seen")
    case True
    then have "t \<in> set ts" using 2 by auto
    then show ?thesis using 2(1) [OF True] 2(3-) True by simp
  next
    case False
    let ?c = "fst (normalizeTeamClaimPriorities claims u)"
    show ?thesis
    proof (cases "u = t")
      case True
      have tm: "claimTeamID (?c ! i) = t" "claimTeamID (?c ! j) = t"
        using 2(3-6) unranked_team [OF normalize_unranked [of claims u]] by auto
      then have "normalizeLoop (u # seen) ts ?c ! i = ?c ! i" "normalizeLoop (u # seen) ts ?c ! j = ?c ! j"
        using True by (auto intro: normalizeLoop_seen)
      then show ?thesis using normalize_team_order [of i claims j u] 2(3-) False True by simp
    next
      case ne: False
      have keep: "?c ! i = claims ! i" "?c ! j = claims ! j"
        using 2(5,6) ne by (auto intro!: normalize_nth_other)
      then show ?thesis using 2(2) [OF False] 2(3-) False ne by simp
    qed
  qed
qed simp

lemma normalizeAll_order:
  assumes "i < length claims" "j < length claims" "claimTeamID (claims ! i) = claimTeamID (claims ! j)"
    and "claimPriority (normalizeAllClaimPriorities claims ! i) < claimPriority (normalizeAllClaimPriorities claims ! j)"
  shows "\<not> priorityLess (claims ! j) (claims ! i)"
  by (rule normalizeLoop_order [of i claims j "claimTeamID (claims ! i)" "map claimTeamID claims" "[]"])
    (use assms in \<open>simp_all add: normalizeAllClaimPriorities_def\<close>)

section \<open>The newest drop\<close>

lemma dropStep_keep: "\<not> (isFreeAgencyDrop txn \<and> p \<in> tpPlayerID ` set (txnDrops txn)) \<Longrightarrow> dropStep p txn acc = acc"
proof -
  assume no: "\<not> (isFreeAgencyDrop txn \<and> p \<in> tpPlayerID ` set (txnDrops txn))"
  have "p \<notin> tpPlayerID ` set ds \<Longrightarrow> fold (\<lambda>d best. if tpPlayerID d \<noteq> p then best else g best) ds acc = acc" for ds g
    by (induction ds) auto
  then show ?thesis using no by (auto simp: dropStep_def)
qed

lemma dropStep_hit:
  assumes "isFreeAgencyDrop txn" "p \<in> tpPlayerID ` set (txnDrops txn)"
  shows "dropStep p txn acc =
    (case acc of None \<Rightarrow> Some (txnAt txn, txnType txn)
     | Some (t, k) \<Rightarrow> if txnAt txn > t then Some (txnAt txn, txnType txn) else acc)"
proof -
  define g where "g = (\<lambda>best. case best of None \<Rightarrow> Some (txnAt txn, txnType txn)
      | Some (t, k) \<Rightarrow> if txnAt txn > t then Some (txnAt txn, txnType txn) else best)"
  have idem: "g (g b) = g b" for b by (auto simp: g_def split: option.splits)
  have "fold (\<lambda>d best. if tpPlayerID d \<noteq> p then best else g best) ds (g b) = g b" for ds b
    by (induction ds) (auto simp: idem)
  then have "p \<in> tpPlayerID ` set ds \<Longrightarrow> fold (\<lambda>d best. if tpPlayerID d \<noteq> p then best else g best) ds acc = g acc" for ds
    by (induction ds) auto
  from this [OF assms(2)] show ?thesis using assms(1) unfolding g_def dropStep_def by simp
qed

definition drops :: "player_id \<Rightarrow> transaction \<Rightarrow> bool" where
  "drops p txn = (isFreeAgencyDrop txn \<and> p \<in> tpPlayerID ` set (txnDrops txn))"

lemma lastDrop_fold:
  "case fold (dropStep p) txns None of
     None \<Rightarrow> \<not> (\<exists>txn\<in>set txns. drops p txn)
   | Some (t, k) \<Rightarrow> (\<exists>txn\<in>set txns. drops p txn \<and> txnAt txn = t \<and> txnType txn = k) \<and>
       (\<forall>txn\<in>set txns. drops p txn \<longrightarrow> txnAt txn \<le> t)"
proof (induction txns rule: rev_induct)
  case (snoc x txns)
  show ?case
  proof (cases "drops p x")
    case False
    then have "dropStep p x acc = acc" for acc by (intro dropStep_keep) (simp add: drops_def)
    then show ?thesis using snoc False by (auto split: option.splits)
  next
    case True
    then have "dropStep p x acc = (case acc of None \<Rightarrow> Some (txnAt x, txnType x)
       | Some (t, k) \<Rightarrow> if txnAt x > t then Some (txnAt x, txnType x) else acc)" for acc
      by (intro dropStep_hit) (simp_all add: drops_def)
    then have step: "fold (dropStep p) (txns @ [x]) None = (case fold (dropStep p) txns None of
        None \<Rightarrow> Some (txnAt x, txnType x)
      | Some (t, k) \<Rightarrow> if txnAt x > t then Some (txnAt x, txnType x) else fold (dropStep p) txns None)"
      by simp
    show ?thesis
    proof (cases "fold (dropStep p) txns None")
      case None
      then have "\<forall>txn\<in>set txns. \<not> drops p txn" using snoc by simp
      then show ?thesis unfolding step None using True by auto
    next
      case (Some tk)
      obtain t k where tk: "tk = (t, k)" by (cases tk)
      have ih: "\<exists>txn\<in>set txns. drops p txn \<and> txnAt txn = t \<and> txnType txn = k"
        "\<forall>txn\<in>set txns. drops p txn \<longrightarrow> txnAt txn \<le> t"
        using snoc Some tk by simp_all
      show ?thesis
      proof (cases "txnAt x > t")
        case later: True
        have "txnAt txn \<le> txnAt x" if "txn \<in> set txns" "drops p txn" for txn
          using ih(2) that later by (metis less_le_trans order.order_iff_strict order_le_less_trans)
        then show ?thesis unfolding step Some tk using True later by auto
      next
        case False
        then show ?thesis unfolding step Some tk using ih by auto
      qed
    qed
  qed
qed simp

section \<open>Properties\<close>

text \<open>C21: The in-period penalties only reorder the base waiver order: the teams that won a claim
  after the period boundary leave their base places and stand at the back, the team whose last won
  claim is the latest at the very end, and the others keep their base order in front.\<close>

theorem waiver_order_penalties:
  fixes games :: "game_info list" and now :: time
  assumes "distinct (waiverBaseOrder env st cfg)"
  defines "winners \<equiv> map txnTeamID (sortStable atLess
    (claimsAfter (waiverPenaltyBoundary st games now) (transactions st)))"
  shows "mset (waiverOrder env st cfg games now) = mset (waiverBaseOrder env st cfg) \<and>
    waiverOrder env st cfg games now =
      filter (\<lambda>t. t \<notin> set winners) (waiverBaseOrder env st cfg) @
      filter (\<lambda>t. t \<in> set (waiverBaseOrder env st cfg)) (remdups winners)"
proof -
  have "waiverOrder env st cfg games now = fold (\<lambda>t order. moveToBack order t) winners (waiverBaseOrder env st cfg)"
    by (simp add: waiverOrder_def applyInPeriodPenalties_def winners_def fold_map comp_def)
  then show ?thesis
    using penalties_form [OF assms(1), of winners] mset_fold_back [of winners] by metis
qed

definition samplePriorityState :: persisted_state where
  "samplePriorityState = freshState\<lparr>draftOrder := [''a'', ''b'', ''c''],
     transactions := [sampleTxn TxnClaim ''c'' [] [''p9''] [] 8, sampleTxn TxnClaim ''b'' [] [''p8''] [] 7,
       sampleTxn TxnAdd ''a'' [] [''p7''] [] 9, sampleTxn TxnClaim ''c'' [] [''p6''] [] 6]\<rparr>"

theorem waiver_order_penalties_witness:
  "waiverOrder sampleEnv samplePriorityState sampleConfig [] 10 = [''a'', ''b'', ''c'']"
proof -
  have base: "waiverBaseOrder sampleEnv samplePriorityState sampleConfig = [''c'', ''b'', ''a'']"
    by (simp add: waiverBaseOrder_def samplePriorityState_def freshState_def reverseStrings_def
        roundOneOrder_ids draftIDs_def)
  have boundary: "waiverPenaltyBoundary samplePriorityState [] 10 = 0"
    by (simp add: waiverPenaltyBoundary_def waiverPenaltyFallbackFloor_def samplePriorityState_def
        freshState_def lastClosedWeek_def Let_def)
  have "distinct (waiverBaseOrder sampleEnv samplePriorityState sampleConfig)" unfolding base by simp
  from waiver_order_penalties [OF this, of "[]" 10] show ?thesis
    unfolding base boundary
    by (simp add: samplePriorityState_def freshState_def claimsAfter_def sampleTxn_def sortStable_def atLess_def)
qed

text \<open>pickNextClaim takes out one claim of a non-empty list and leaves the others in their
  order. In perf-priority mode no claim left over belongs to a team in front of the winner's, in
  FAAB mode none bids more; a claim that ties with the one taken stood behind it.\<close>

theorem next_claim_is_best:
  assumes "remaining \<noteq> []" "pickNextClaim remaining order mode = (next', rest)"
  shows "\<exists>front behind. remaining = front @ next' # behind \<and> rest = front @ behind \<and>
    (\<forall>c\<in>set front. claimLessFor mode order next' c) \<and>
    (\<forall>c\<in>set rest. case mode of
       Faab \<Rightarrow> claimBid c \<le> claimBid next'
     | PerfPriority \<Rightarrow> waiverOrderPosition order (claimTeamID next') \<le> waiverOrderPosition order (claimTeamID c) \<and>
         (claimTeamID c = claimTeamID next' \<longrightarrow> claimPriority next' \<le> claimPriority c))"
proof -
  obtain front behind where fb: "remaining = front @ next' # behind" "rest = front @ behind"
    "\<forall>c\<in>set front. claimLessFor mode order next' c"
    "\<forall>c\<in>set remaining. \<not> claimLessFor mode order c next'"
    using pickNext_spec [OF assms] by blast
  have "case mode of
       Faab \<Rightarrow> claimBid c \<le> claimBid next'
     | PerfPriority \<Rightarrow> waiverOrderPosition order (claimTeamID next') \<le> waiverOrderPosition order (claimTeamID c) \<and>
         (claimTeamID c = claimTeamID next' \<longrightarrow> claimPriority next' \<le> claimPriority c)"
    if "c \<in> set rest" for c
  proof -
    have "\<not> claimLessFor mode order c next'" using that fb(1,2,4) by auto
    then show ?thesis
      by (cases mode) (auto simp: claimLessFor_def claimLess_def claimLessFAAB_def Let_def split: if_splits)
  qed
  then show ?thesis using fb by blast
qed

definition sampleClaim :: "string \<Rightarrow> team_id \<Rightarrow> player_id \<Rightarrow> player_id \<Rightarrow> int \<Rightarrow> int \<Rightarrow> time \<Rightarrow> waiver_claim" where
  "sampleClaim i t a d bid prio filed = \<lparr>claimID = i, claimTeamID = t, claimAddID = a, claimDropID = d,
     claimBid = bid, claimPriority = prio, claimFiledAt = filed, claimDeferredStreak = 0,
     claimFirstDeferredAt = 0\<rparr>"

theorem next_claim_is_best_witness:
  "fst (pickNextClaim [sampleClaim ''c1'' ''a'' ''p3'' [] 4 1 5, sampleClaim ''c2'' ''b'' ''p3'' [] 7 1 6]
     [''a'', ''b''] Faab) = sampleClaim ''c2'' ''b'' ''p3'' [] 7 1 6"
proof -
  obtain n r where p: "pickNextClaim [sampleClaim ''c1'' ''a'' ''p3'' [] 4 1 5, sampleClaim ''c2'' ''b'' ''p3'' [] 7 1 6]
     [''a'', ''b''] Faab = (n, r)" by force
  from next_claim_is_best [OF _ p] show ?thesis
    unfolding p by (auto simp: sampleClaim_def append_eq_Cons_conv Cons_eq_append_conv)
qed

text \<open>normalizeAllClaimPriorities changes nothing of a claim but its priority, numbers the
  claims of every team 1 to N with each number once, and never ranks one claim of a team before
  another that the private priorities (an unset priority last, then the filing time, then the
  claim id) put first.\<close>

theorem claim_priorities_normalized:
  "map unranked (normalizeAllClaimPriorities claims) = map unranked claims \<and>
   prioritiesNormal (normalizeAllClaimPriorities claims) t \<and>
   (\<forall>i < length claims. \<forall>j < length claims. claimTeamID (claims ! i) = claimTeamID (claims ! j) \<longrightarrow>
      claimPriority (normalizeAllClaimPriorities claims ! i) < claimPriority (normalizeAllClaimPriorities claims ! j) \<longrightarrow>
      \<not> priorityLess (claims ! j) (claims ! i))"
  using normalizeAll_spec [of claims] normalizeAll_order [of _ claims] by blast

theorem claim_priorities_normalized_witness:
  "claimPriority (normalizeAllClaimPriorities [sampleClaim ''c1'' ''a'' ''p3'' [] 0 0 5, sampleClaim ''c2'' ''a'' ''p4'' [] 0 1 6] ! 1) \<le>
   claimPriority (normalizeAllClaimPriorities [sampleClaim ''c1'' ''a'' ''p3'' [] 0 0 5, sampleClaim ''c2'' ''a'' ''p4'' [] 0 1 6] ! 0)"
  using claim_priorities_normalized [of "[sampleClaim ''c1'' ''a'' ''p3'' [] 0 0 5, sampleClaim ''c2'' ''a'' ''p4'' [] 0 1 6]" "''a''"]
  by (fastforce simp: sampleClaim_def priorityLess_def effectivePriority_def maxInt_def)

text \<open>A player nobody owns is on waivers exactly when the newest free-agency drop naming him
  has not cleared yet or his NFL team has kicked off in a week that is not final and settled (a
  resolution instant before the zero time, which no schedule has, would not count); a drop in the log with no newer one is the one that counts.\<close>

theorem waiver_hold_exact:
  "wsState (playerWaiverStatus st cfg games p nfl now) =
     (if ownerOf st p \<noteq> [] then Rostered
      else if (\<exists>d. lastDropInstant st p = Some d \<and> now < dropClears cfg games d) \<or>
        (\<exists>k. kickoffWaiverStatus cfg games nfl now = Some k \<and> 0 \<le> wsResolvesAt k) then OnWaivers
      else FreeAgent) \<and>
   (case lastDropInstant st p of
      None \<Rightarrow> filter (drops p) (transactions st) = []
    | Some (t, k) \<Rightarrow> list_ex (\<lambda>txn. txnAt txn = t \<and> txnType txn = k) (filter (drops p) (transactions st)) \<and>
        list_all (\<lambda>txn. txnAt txn \<le> t) (filter (drops p) (transactions st)))"
proof
  have kick: "kickoffWaiverStatus cfg games nfl now = Some k \<Longrightarrow> wsState k = OnWaivers" for k
    by (auto simp: kickoffWaiverStatus_def split: option.splits prod.splits if_splits)
  show "wsState (playerWaiverStatus st cfg games p nfl now) =
     (if ownerOf st p \<noteq> [] then Rostered
      else if (\<exists>d. lastDropInstant st p = Some d \<and> now < dropClears cfg games d) \<or>
        (\<exists>k. kickoffWaiverStatus cfg games nfl now = Some k \<and> 0 \<le> wsResolvesAt k) then OnWaivers
      else FreeAgent)"
  proof (cases "kickoffWaiverStatus cfg games nfl now")
    case None
    then show ?thesis by (cases "lastDropInstant st p") (simp_all add: playerWaiverStatus_def Let_def)
  next
    case (Some k)
    note on = kick [OF Some]
    show ?thesis
    proof (cases "lastDropInstant st p")
      case None
      then show ?thesis using Some on by (simp add: playerWaiverStatus_def Let_def)
    next
      case drop: (Some d)
      then show ?thesis using Some on by (cases "now < dropClears cfg games d") (auto simp: playerWaiverStatus_def Let_def)
    qed
  qed
next
  show "case lastDropInstant st p of
      None \<Rightarrow> filter (drops p) (transactions st) = []
    | Some (t, k) \<Rightarrow> list_ex (\<lambda>txn. txnAt txn = t \<and> txnType txn = k) (filter (drops p) (transactions st)) \<and>
        list_all (\<lambda>txn. txnAt txn \<le> t) (filter (drops p) (transactions st))"
    unfolding lastDropInstant_def using lastDrop_fold [where p = p and txns = "transactions st"]
    by (auto simp: filter_empty_conv list_ex_iff list_all_iff split: option.splits)
qed

end
