(* ===== verification/WaiverRun.thy ===== *)
theory WaiverRun
  imports WaiverOrder
begin

text \<open>
  One waiver run (src/internal/league/store.go: ProcessWaivers, BaselineWaiversProcessedThrough;
  rosterops.go: evalWaiverRun). The run sorts the open claims into due ones and ones that stay
  open, resolves the due ones in order against the state left by the wins before them, and writes
  everything with one persist or restores the state it found.
\<close>

section \<open>The run\<close>

text \<open>
  The inputs of a run. riNewID n is what randomTransactionID returns when the log holds n
  entries; every draw of a run is followed by an append, so no two draws share an n.
\<close>

record run_input =
  riNow :: time
  riConfig :: league_config
  riGames :: "game_info list"
  riPool :: "player_id \<Rightarrow> player option"
  riCap :: int
  riNewID :: "nat \<Rightarrow> string option"

datatype waiver_error = WaiverIDUnavailable

text \<open>A Go map read of an absent player yields the zero Player.\<close>

definition poolRead :: "(player_id \<Rightarrow> player option) \<Rightarrow> player_id \<Rightarrow> player" where
  "poolRead pool p = (case pool p of Some pl \<Rightarrow> pl | None \<Rightarrow> zeroPlayer)"

definition runWeek :: "run_input \<Rightarrow> int" where
  "runWeek ri = lineupCurrentWeekAt (riGames ri) (riNow ri)"

definition waiverClaimDeferralLimit :: int where "waiverClaimDeferralLimit = 3"
definition waiverClaimDeferralWindow :: int where "waiverClaimDeferralWindow = 48 * hour"

definition claimOutgoing :: "waiver_claim \<Rightarrow> player_id list" where
  "claimOutgoing c = (if claimDropID c \<noteq> [] then [claimDropID c] else [])"

definition settled :: "waiver_claim \<Rightarrow> waiver_claim" where
  "settled c = c\<lparr>claimDeferredStreak := 0, claimFirstDeferredAt := 0\<rparr>"

definition deferredOnce :: "time \<Rightarrow> waiver_claim \<Rightarrow> waiver_claim" where
  "deferredOnce now c =
     (let c1 = (if claimDeferredStreak c = 0 then c\<lparr>claimFirstDeferredAt := now\<rparr> else c)
      in c1\<lparr>claimDeferredStreak := claimDeferredStreak c1 + 1\<rparr>)"

definition expiresNow :: "time \<Rightarrow> waiver_claim \<Rightarrow> bool" where
  "expiresNow now c = (claimDeferredStreak c \<ge> waiverClaimDeferralLimit \<and>
     now - claimFirstDeferredAt c \<ge> waiverClaimDeferralWindow)"

definition expiryReason :: "waiver_claim \<Rightarrow> waiver_reason" where
  "expiryReason c = DeferredTooLong (claimDeferredStreak c) (claimAddID c)"

definition claimResult :: "waiver_claim \<Rightarrow> waiver_outcome \<Rightarrow> waiver_reason \<Rightarrow> int \<Rightarrow> int \<Rightarrow> waiver_result" where
  "claimResult c outcome reason position week =
     \<lparr>resClaim = c, resOutcome = outcome, resReason = reason, resPosition = position,
      resWinningTeamID = [], resWinningBid = 0, resWeek = week\<rparr>"

definition expiryReceipt :: "run_input \<Rightarrow> waiver_claim \<Rightarrow> waiver_receipt" where
  "expiryReceipt ri c =
     \<lparr>rcptClaimID = claimID c, rcptSeason = cfgSeason (riConfig ri), rcptWeek = runWeek ri,
      rcptTeamID = claimTeamID c, rcptAdd = receiptPlayer (riPool ri) (claimAddID c),
      rcptDrops = map (receiptPlayer (riPool ri)) (claimOutgoing c), rcptBid = claimBid c,
      rcptSubmittedPriority = claimPriority c, rcptPosition = 0, rcptTeamCount = 0,
      rcptMode = cfgWaiverMode (riConfig ri), rcptOutcome = Expired, rcptWinningTeamID = [],
      rcptWinningBid = 0, rcptWinningBidKnown = False, rcptReason = expiryReason c,
      rcptFiledAt = claimFiledAt c, rcptResolvedAt = riNow ri\<rparr>"

definition addReceipt :: "waiver_receipt \<Rightarrow> persisted_state \<Rightarrow> persisted_state" where
  "addReceipt r st = st\<lparr>waiverReceipts := waiverReceipts st @ [r]\<rparr>"

text \<open>The pass over the pending claims: due claims, claims that stay open, results, the state.\<close>

record claim_pass =
  cpDue :: "waiver_claim list"
  cpOpen :: "waiver_claim list"
  cpResults :: "waiver_result list"
  cpState :: persisted_state

definition classifyClaim :: "run_input \<Rightarrow> waiver_claim \<Rightarrow> claim_pass \<Rightarrow> claim_pass" where
  "classifyClaim ri c cp =
     (if claimFiledAt c > riNow ri then cp\<lparr>cpOpen := cpOpen cp @ [settled c]\<rparr>
      else case riPool ri (claimAddID c) of
        None \<Rightarrow>
          (let c1 = deferredOnce (riNow ri) c in
           if expiresNow (riNow ri) c1
           then cp\<lparr>cpResults := cpResults cp @ [claimResult c1 Expired (expiryReason c1) 0 (runWeek ri)],
                   cpState := addReceipt (expiryReceipt ri c1) (cpState cp)\<rparr>
           else if claimDeferredStreak c1 = 1
           then cp\<lparr>cpResults := cpResults cp @ [claimResult c1 Deferred NoReason 0 (runWeek ri)],
                   cpOpen := cpOpen cp @ [c1]\<rparr>
           else cp\<lparr>cpOpen := cpOpen cp @ [c1]\<rparr>)
      | Some player \<Rightarrow>
          if waiverStatusHoldsPlayer (playerWaiverStatus (cpState cp) (riConfig ri) (riGames ri) (claimAddID c)
               (playerNFLTeam player) (riNow ri))
          then cp\<lparr>cpOpen := cpOpen cp @ [settled c]\<rparr>
          else cp\<lparr>cpDue := cpDue cp @ [settled c]\<rparr>)"

definition classifyClaims :: "run_input \<Rightarrow> persisted_state \<Rightarrow> claim_pass" where
  "classifyClaims ri st = fold (classifyClaim ri) (waiverClaims st)
     \<lparr>cpDue = [], cpOpen = [], cpResults = [], cpState = st\<rparr>"

definition budgetLeft :: "league_env \<Rightarrow> run_input \<Rightarrow> persisted_state \<Rightarrow> team_id \<Rightarrow> int" where
  "budgetLeft env ri st t =
     (case faabRemaining env st (cfgFAABBudget (riConfig ri)) t of None \<Rightarrow> 0 | Some n \<Rightarrow> n)"

text \<open>The cases of the switch in ProcessWaivers, in its order.\<close>

datatype verdict = VBeaten team_id | VFailed waiver_reason | VAwarded

definition claimVerdict :: "league_env \<Rightarrow> run_input \<Rightarrow> persisted_state \<Rightarrow> waiver_claim \<Rightarrow> verdict" where
  "claimVerdict env ri st c =
     (let owner = ownerOf st; add = claimAddID c; drop' = claimDropID c; t = claimTeamID c;
          faab = (cfgWaiverMode (riConfig ri) = Faab);
          breach = (case riPool ri add of None \<Rightarrow> None
            | Some _ \<Rightarrow> teamWouldBreachLimit env st (riPool ri) t [add] (claimOutgoing c))
      in if owner add \<noteq> [] then VBeaten (owner add)
         else if drop' \<noteq> [] \<and> owner drop' \<noteq> t then VFailed NotOnRoster
         else if drop' \<noteq> [] \<and> playerLockedForRosterMutation st (riGames ri) (runWeek ri)
             (playerNFLTeam (poolRead (riPool ri) drop')) (riNow ri)
           then VFailed (LockedDrop (playerName (poolRead (riPool ri) drop')))
         else if effectiveRosterSize st t + 1 - creditedDropCount st t (claimOutgoing c) > riCap ri
           then VFailed (RosterFull (playerName (poolRead (riPool ri) add)))
         else if faab \<and> claimBid c > budgetLeft env ri st t
           then VFailed (BidExceedsBudget (budgetLeft env ri st t))
         else case breach of Some (pos, cap) \<Rightarrow> VFailed (PositionLimit pos cap) | None \<Rightarrow> VAwarded)"

definition awardTxn :: "run_input \<Rightarrow> int \<Rightarrow> string \<Rightarrow> waiver_claim \<Rightarrow> transaction" where
  "awardTxn ri position newID c =
     (let faab = (cfgWaiverMode (riConfig ri) = Faab) in
      \<lparr>txnID = newID, txnSeason = cfgSeason (riConfig ri), txnWeek = runWeek ri, txnType = TxnClaim,
       txnTeamID = claimTeamID c, txnOtherTeamID = [],
       txnAdds = [transactionPlayerFromPlayer (poolRead (riPool ri) (claimAddID c))],
       txnDrops = map (\<lambda>p. transactionPlayerFromPlayer (poolRead (riPool ri) p)) (claimOutgoing c),
       txnBid = (if faab then claimBid c else 0), txnPosition = (if faab then 0 else position),
       txnOfferID = [], txnBy = ''manager'', txnNote = [], txnAt = riNow ri\<rparr>)"

definition resolveReceipt :: "run_input \<Rightarrow> team_id list \<Rightarrow> waiver_claim \<Rightarrow> waiver_result \<Rightarrow> bool \<Rightarrow> waiver_receipt" where
  "resolveReceipt ri order c res bidKnown =
     \<lparr>rcptClaimID = claimID c, rcptSeason = cfgSeason (riConfig ri), rcptWeek = runWeek ri,
      rcptTeamID = claimTeamID c, rcptAdd = receiptPlayer (riPool ri) (claimAddID c),
      rcptDrops = map (receiptPlayer (riPool ri)) (claimOutgoing c), rcptBid = claimBid c,
      rcptSubmittedPriority = claimPriority c, rcptPosition = waiverOrderPosition order (claimTeamID c),
      rcptTeamCount = int (length order), rcptMode = cfgWaiverMode (riConfig ri),
      rcptOutcome = resOutcome res, rcptWinningTeamID = resWinningTeamID res,
      rcptWinningBid = resWinningBid res, rcptWinningBidKnown = bidKnown,
      rcptReason = (case resOutcome res of Won \<Rightarrow> ClaimAwarded | Beaten \<Rightarrow> TakenByAnotherTeam | _ \<Rightarrow> resReason res),
      rcptFiledAt = claimFiledAt c, rcptResolvedAt = riNow ri\<rparr>"

text \<open>
  One iteration of the resolution loop after pickNextClaim: the result and the new state, or None
  when drawing the transaction ID fails.
\<close>

definition resolveClaim :: "league_env \<Rightarrow> run_input \<Rightarrow> team_id list \<Rightarrow> waiver_claim \<Rightarrow> persisted_state \<Rightarrow>
    (waiver_result \<times> persisted_state) option" where
  "resolveClaim env ri order c st =
     (let position = waiverOrderPosition order (claimTeamID c);
          res = (\<lambda>outcome reason. claimResult c outcome reason position (runWeek ri));
          faab = (cfgWaiverMode (riConfig ri) = Faab)
      in case claimVerdict env ri st c of
           VBeaten w \<Rightarrow>
             (let bid = (if faab then waiverWinningBid (transactions st) (claimAddID c) w else (0, False));
                  r = (res Beaten NoReason)\<lparr>resWinningTeamID := w, resWinningBid := fst bid\<rparr>
              in Some (r, addReceipt (resolveReceipt ri order c r (snd bid)) st))
         | VFailed reason \<Rightarrow>
             (let r = res Failed reason in Some (r, addReceipt (resolveReceipt ri order c r False) st))
         | VAwarded \<Rightarrow>
             (case riNewID ri (length (transactions st)) of
                None \<Rightarrow> None
              | Some i \<Rightarrow>
                  (let r = (res Won NoReason)\<lparr>resWinningBid := (if faab then claimBid c else 0)\<rparr>
                   in Some (r, addReceipt (resolveReceipt ri order c r False)
                        (clearZoneAssignments (claimTeamID c) (claimOutgoing c)
                          (appendTransaction (awardTxn ri position i c) st))))))"

lemma pickNextClaim_shrinks:
  "remaining \<noteq> [] \<Longrightarrow> length (snd (pickNextClaim remaining order mode)) < length remaining"
proof -
  assume ne: "remaining \<noteq> []"
  obtain n r where p: "pickNextClaim remaining order mode = (n, r)" by force
  from pickNext_spec [OF ne p] show ?thesis unfolding p by auto
qed

function resolveAll :: "league_env \<Rightarrow> run_input \<Rightarrow> team_id list \<Rightarrow> time \<Rightarrow> waiver_claim list \<Rightarrow> persisted_state \<Rightarrow>
    waiver_result list \<Rightarrow> (persisted_state \<times> waiver_result list) option" where
  "resolveAll env ri base boundary remaining st results =
     (if remaining = [] then Some (st, results)
      else
        let order = applyInPeriodPenalties base (transactions st) boundary;
            picked = pickNextClaim remaining order (cfgWaiverMode (riConfig ri))
        in case resolveClaim env ri order (fst picked) st of
             None \<Rightarrow> None
           | Some (res, st') \<Rightarrow> resolveAll env ri base boundary (snd picked) st' (results @ [res]))"
  by pat_completeness auto

termination resolveAll
  by (relation "measure (\<lambda>(env, ri, base, boundary, remaining, st, results). length remaining)")
    (auto intro: pickNextClaim_shrinks)

declare resolveAll.simps [simp del]

definition processWaivers :: "league_env \<Rightarrow> run_input \<Rightarrow> bool \<Rightarrow> store \<Rightarrow> (store, waiver_error, waiver_result list) outcome" where
  "processWaivers env ri persistOK s = gated s
     (let st = stState s in
      if waiverClaims st = []
      then commitOrRestore persistOK s (st\<lparr>waiversProcessedThrough := riNow ri\<rparr>) []
      else
        let cp = classifyClaims ri st;
            base = waiverBaseOrder env (cpState cp) (riConfig ri);
            boundary = waiverPenaltyBoundary (cpState cp) (riGames ri) (riNow ri)
        in case resolveAll env ri base boundary (cpDue cp) (cpState cp) (cpResults cp) of
             None \<Rightarrow> rejected WaiverIDUnavailable s
           | Some (st', results) \<Rightarrow> commitOrRestore persistOK s
               (st'\<lparr>waiverClaims := normalizeAllClaimPriorities (cpOpen cp),
                    waiversProcessedThrough := riNow ri\<rparr>) results)"

definition baselineWaiversProcessedThrough :: "time \<Rightarrow> bool \<Rightarrow> store \<Rightarrow> (store, waiver_error, unit) outcome" where
  "baselineWaiversProcessedThrough now persistOK s = gated s
     (if \<not> isZero (waiversProcessedThrough (stState s)) then (Inr (), s)
      else commitOnly persistOK s ((stState s)\<lparr>waiversProcessedThrough := now\<rparr>) ())"

text \<open>
  evalWaiverRun, the tick's waiver step: what it decides from the state, the schedule mirror and
  the player pool, and the store it leaves. The run's instant is the scheduled one, not the tick's.
\<close>

datatype run_decision = BaselineRun | RunNotDue | RunDeferred | RunAt time

definition waiverRunDecision :: "league_config \<Rightarrow> persisted_state \<Rightarrow> game_info list \<Rightarrow> bool \<Rightarrow> time \<Rightarrow> run_decision" where
  "waiverRunDecision cfg st games poolUnavailable now =
     (if isZero (waiversProcessedThrough st) then BaselineRun
      else
        let nextRun = nextWaiverProcessingRun cfg (waiversProcessedThrough st) now in
        if now < nextRun then RunNotDue
        else if games = [] \<or> poolUnavailable then RunDeferred
        else RunAt nextRun)"

definition evalWaiverRun :: "league_env \<Rightarrow> run_input \<Rightarrow> bool \<Rightarrow> bool \<Rightarrow> store \<Rightarrow> waiver_result list \<times> store" where
  "evalWaiverRun env ri poolUnavailable persistOK s =
     (case waiverRunDecision (riConfig ri) (stState s) (riGames ri) poolUnavailable (riNow ri) of
        BaselineRun \<Rightarrow> ([], snd (baselineWaiversProcessedThrough (riNow ri) persistOK s))
      | RunNotDue \<Rightarrow> ([], s)
      | RunDeferred \<Rightarrow> ([], s)
      | RunAt nextRun \<Rightarrow>
          (case processWaivers env (ri\<lparr>riNow := nextRun, riCap := presetTotal (envRoster env)\<rparr>) persistOK s of
             (Inl e, s') \<Rightarrow> ([], s')
           | (Inr results, s') \<Rightarrow> (results, s')))"

section \<open>One claim\<close>

definition awardState :: "run_input \<Rightarrow> team_id list \<Rightarrow> string \<Rightarrow> waiver_claim \<Rightarrow> persisted_state \<Rightarrow> persisted_state" where
  "awardState ri order i c st = clearZoneAssignments (claimTeamID c) (claimOutgoing c)
     (appendTransaction (awardTxn ri (waiverOrderPosition order (claimTeamID c)) i c) st)"

text \<open>The parts of the state that no resolution touches.\<close>

definition sameFrame :: "persisted_state \<Rightarrow> persisted_state \<Rightarrow> bool" where
  "sameFrame st st' \<longleftrightarrow> picks st' = picks st \<and> draftOrder st' = draftOrder st \<and>
     seasonSchedule st' = seasonSchedule st \<and> waiverClaims st' = waiverClaims st \<and>
     tradeOffers st' = tradeOffers st \<and> playoffs st' = playoffs st"

lemma frame_deleteZone: "sameFrame st (deleteZone t p st)"
  by (simp add: sameFrame_def deleteZone_def setZones_def)

lemma frame_trans: "sameFrame a b \<Longrightarrow> sameFrame b c \<Longrightarrow> sameFrame a c"
  by (simp add: sameFrame_def)

lemma frame_clear: "sameFrame st (clearZoneAssignments t ids st)"
proof -
  have "sameFrame st (fold (deleteZone t) ids st)" for st
  proof (induction ids arbitrary: st)
    case (Cons i ids)
    then show ?case using frame_trans [OF frame_deleteZone [of st t i]] by simp
  qed (simp add: sameFrame_def)
  then show ?thesis by (simp add: clearZoneAssignments_def sameFrame_def)
qed

lemma receipts_deleteZone: "waiverReceipts (deleteZone t p st) = waiverReceipts st"
  by (simp add: deleteZone_def setZones_def)

lemma receipts_clear [simp]: "waiverReceipts (clearZoneAssignments t ids st) = waiverReceipts st"
proof -
  have "waiverReceipts (fold (deleteZone t) ids st) = waiverReceipts st" for st
    by (induction ids arbitrary: st) (simp_all add: receipts_deleteZone)
  then show ?thesis by (simp add: clearZoneAssignments_def)
qed

lemma award_parts [simp]:
  "transactions (awardState ri order i c st) =
     transactions st @ [awardTxn ri (waiverOrderPosition order (claimTeamID c)) i c]"
  "picks (awardState ri order i c st) = picks st"
  "waiverReceipts (awardState ri order i c st) = waiverReceipts st"
  by (simp_all add: awardState_def appendTransaction_def)

lemma receipt_parts [simp]:
  "transactions (addReceipt r st) = transactions st" "picks (addReceipt r st) = picks st"
  "waiverReceipts (addReceipt r st) = waiverReceipts st @ [r]" "rosterZones (addReceipt r st) = rosterZones st"
  by (simp_all add: addReceipt_def)

lemma frame_receipt: "sameFrame st (addReceipt r st)"
  by (simp add: sameFrame_def addReceipt_def)

lemma frame_award: "sameFrame st (awardState ri order i c st)"
  unfolding awardState_def
  by (rule frame_trans [OF _ frame_clear]) (simp add: sameFrame_def appendTransaction_def)

lemma resolveClaim_cases:
  assumes "resolveClaim env ri order c st = Some (res, st')"
  obtains
    (refused) r where "claimVerdict env ri st c \<noteq> VAwarded" "st' = addReceipt r st" "resOutcome res \<in> {Beaten, Failed}"
      "rcptOutcome r = resOutcome res" "rcptClaimID r = claimID c" "rcptTeamID r = claimTeamID c"
      "rcptFiledAt r = claimFiledAt c" "rcptResolvedAt r = riNow ri"
  | (won) r i where "claimVerdict env ri st c = VAwarded" "riNewID ri (length (transactions st)) = Some i"
      "st' = addReceipt r (awardState ri order i c st)" "resOutcome res = Won"
      "rcptOutcome r = Won" "rcptClaimID r = claimID c" "rcptTeamID r = claimTeamID c"
      "rcptFiledAt r = claimFiledAt c" "rcptResolvedAt r = riNow ri"
proof (cases "claimVerdict env ri st c")
  case (VBeaten w)
  with assms refused show ?thesis
    by (auto simp: resolveClaim_def Let_def resolveReceipt_def claimResult_def)
next
  case (VFailed reason)
  with assms refused show ?thesis
    by (auto simp: resolveClaim_def Let_def resolveReceipt_def claimResult_def)
next
  case VAwarded
  with assms won show ?thesis
    by (auto simp: resolveClaim_def Let_def resolveReceipt_def claimResult_def awardState_def split: option.splits)
qed

lemma verdict_awarded:
  assumes "claimVerdict env ri st c = VAwarded"
  shows "ownerOf st (claimAddID c) = []" "claimDropID c \<noteq> [] \<Longrightarrow> ownerOf st (claimDropID c) = claimTeamID c"
    "claimDropID c \<noteq> [] \<Longrightarrow> \<not> playerLockedForRosterMutation st (riGames ri) (runWeek ri)
       (playerNFLTeam (poolRead (riPool ri) (claimDropID c))) (riNow ri)"
    "effectiveRosterSize st (claimTeamID c) + 1 - creditedDropCount st (claimTeamID c) (claimOutgoing c) \<le> riCap ri"
    "cfgWaiverMode (riConfig ri) = Faab \<Longrightarrow> claimBid c \<le> budgetLeft env ri st (claimTeamID c)"
    "riPool ri (claimAddID c) \<noteq> None \<Longrightarrow>
       teamWouldBreachLimit env st (riPool ri) (claimTeamID c) [claimAddID c] (claimOutgoing c) = None"
  using assms by (auto simp: claimVerdict_def Let_def split: if_splits option.splits)

section \<open>The loop\<close>

lemma resolveAll_invariant:
  assumes "resolveAll env ri base boundary remaining st results = Some (st', results')"
    and "P st"
    and "\<And>order c st res st'. c \<in> set remaining \<Longrightarrow> P st \<Longrightarrow> resolveClaim env ri order c st = Some (res, st') \<Longrightarrow> P st'"
  shows "P st'"
  using assms
proof (induction env ri base boundary remaining st results rule: resolveAll.induct)
  case (1 env ri base boundary remaining st results)
  show ?case
  proof (cases "remaining = []")
    case True
    then show ?thesis using 1(2,3) by (simp add: resolveAll.simps)
  next
    case False
    define order where "order = applyInPeriodPenalties base (transactions st) boundary"
    obtain c rest where picked: "pickNextClaim remaining order (cfgWaiverMode (riConfig ri)) = (c, rest)" by force
    obtain front behind where fb: "remaining = front @ c # behind" "rest = front @ behind"
      using pickNext_spec [OF False picked] by blast
    obtain res st1 where step: "resolveClaim env ri order c st = Some (res, st1)"
      and rec: "resolveAll env ri base boundary rest st1 (results @ [res]) = Some (st', results')"
      using 1(2) False picked
      by (subst (asm) resolveAll.simps) (auto simp: Let_def order_def split: option.splits)
    have now: "P st1" using 1(4) [OF _ 1(3) step] fb(1) by simp
    show ?thesis
    proof (rule 1(1) [OF False order_def refl, unfolded picked, simplified, OF step refl rec now])
      fix order' d sa res' sb
      assume "d \<in> set rest" "P sa" "resolveClaim env ri order' d sa = Some (res', sb)"
      then show "P sb" using 1(4) [of d sa order' res' sb] fb by simp
    qed
  qed
qed

lemma resolveAll_accounts:
  assumes "resolveAll env ri base boundary remaining st results = Some (st', results')"
  shows "\<exists>rs txns new. waiverReceipts st' = waiverReceipts st @ rs \<and> transactions st' = transactions st @ txns \<and>
     results' = results @ new \<and> map resOutcome new = map rcptOutcome rs \<and>
     map (\<lambda>x. claimID (resClaim x)) new = map rcptClaimID rs \<and>
     mset (map rcptClaimID rs) = mset (map claimID remaining) \<and>
     (\<forall>r\<in>set rs. rcptOutcome r \<in> {Won, Beaten, Failed} \<and> rcptResolvedAt r = riNow ri \<and>
        (\<exists>c\<in>set remaining. rcptClaimID r = claimID c \<and> rcptFiledAt r = claimFiledAt c)) \<and>
     map txnTeamID txns = map rcptTeamID (filter (\<lambda>r. rcptOutcome r = Won) rs) \<and>
     (\<forall>txn\<in>set txns. txnType txn = TxnClaim \<and> txnAt txn = riNow ri)"
  using assms
proof (induction env ri base boundary remaining st results rule: resolveAll.induct)
  case (1 env ri base boundary remaining st results)
  show ?case
  proof (cases "remaining = []")
    case True
    then show ?thesis using 1(2) by (simp add: resolveAll.simps)
  next
    case False
    define order where "order = applyInPeriodPenalties base (transactions st) boundary"
    obtain c rest where picked: "pickNextClaim remaining order (cfgWaiverMode (riConfig ri)) = (c, rest)" by force
    obtain front behind where fb: "remaining = front @ c # behind" "rest = front @ behind"
      using pickNext_spec [OF False picked] by blast
    obtain res st1 where step: "resolveClaim env ri order c st = Some (res, st1)"
      and rec: "resolveAll env ri base boundary rest st1 (results @ [res]) = Some (st', results')"
      using 1(2) False picked
      by (subst (asm) resolveAll.simps) (auto simp: Let_def order_def split: option.splits)
    obtain rs txns new where ih: "waiverReceipts st' = waiverReceipts st1 @ rs" "transactions st' = transactions st1 @ txns"
      "results' = (results @ [res]) @ new" "map resOutcome new = map rcptOutcome rs"
      "map (\<lambda>x. claimID (resClaim x)) new = map rcptClaimID rs"
      "mset (map rcptClaimID rs) = mset (map claimID rest)"
      "\<forall>r\<in>set rs. rcptOutcome r \<in> {Won, Beaten, Failed} \<and> rcptResolvedAt r = riNow ri \<and>
        (\<exists>c\<in>set rest. rcptClaimID r = claimID c \<and> rcptFiledAt r = claimFiledAt c)"
      "map txnTeamID txns = map rcptTeamID (filter (\<lambda>r. rcptOutcome r = Won) rs)"
      "\<forall>txn\<in>set txns. txnType txn = TxnClaim \<and> txnAt txn = riNow ri"
      using 1(1) [OF False order_def refl, unfolded picked, simplified, OF step refl rec] by (auto simp: comp_def)
    have rest: "set remaining = insert c (set rest)"
      "mset (map claimID remaining) = add_mset (claimID c) (mset (map claimID rest))" using fb by auto
    have claim: "claimID (resClaim res) = claimID c"
      using step by (auto simp: resolveClaim_def Let_def claimResult_def split: verdict.splits option.splits)
    from step show ?thesis
    proof (cases rule: resolveClaim_cases)
      case (refused r)
      show ?thesis
        by (rule exI [of _ "r # rs"], rule exI [of _ txns], rule exI [of _ "res # new"])
          (use ih refused rest claim in auto)
    next
      case (won r i)
      have "txnTeamID (awardTxn ri p i c) = claimTeamID c" "txnType (awardTxn ri p i c) = TxnClaim"
        "txnAt (awardTxn ri p i c) = riNow ri" for p
        by (simp_all add: awardTxn_def Let_def)
      then show ?thesis
        by (intro exI [of _ "r # rs"] exI [of _ "awardTxn ri (waiverOrderPosition order (claimTeamID c)) i c # txns"]
            exI [of _ "res # new"]) (use ih won rest claim in auto)
    qed
  qed
qed

section \<open>Sorting the claims\<close>

definition heldClaim :: "run_input \<Rightarrow> persisted_state \<Rightarrow> waiver_claim \<Rightarrow> bool" where
  "heldClaim ri st c \<longleftrightarrow> (case riPool ri (claimAddID c) of None \<Rightarrow> False
     | Some pl \<Rightarrow> wsState (playerWaiverStatus st (riConfig ri) (riGames ri) (claimAddID c) (playerNFLTeam pl) (riNow ri)) = OnWaivers)"

definition expiredClaim :: "run_input \<Rightarrow> waiver_claim \<Rightarrow> bool" where
  "expiredClaim ri c \<longleftrightarrow> claimFiledAt c \<le> riNow ri \<and> riPool ri (claimAddID c) = None \<and>
     expiresNow (riNow ri) (deferredOnce (riNow ri) c)"

definition dueClaim :: "run_input \<Rightarrow> persisted_state \<Rightarrow> waiver_claim \<Rightarrow> bool" where
  "dueClaim ri st c \<longleftrightarrow> claimFiledAt c \<le> riNow ri \<and> riPool ri (claimAddID c) \<noteq> None \<and> \<not> heldClaim ri st c"

definition openClaim :: "run_input \<Rightarrow> persisted_state \<Rightarrow> waiver_claim \<Rightarrow> bool" where
  "openClaim ri st c \<longleftrightarrow> \<not> dueClaim ri st c \<and> \<not> expiredClaim ri c"

definition leftOpen :: "run_input \<Rightarrow> waiver_claim \<Rightarrow> waiver_claim" where
  "leftOpen ri c = (if claimFiledAt c \<le> riNow ri \<and> riPool ri (claimAddID c) = None
     then deferredOnce (riNow ri) c else settled c)"

definition expiryReceipts :: "run_input \<Rightarrow> waiver_claim list \<Rightarrow> waiver_receipt list" where
  "expiryReceipts ri cs = map (\<lambda>c. expiryReceipt ri (deferredOnce (riNow ri) c)) (filter (expiredClaim ri) cs)"

lemma status_frame [simp]:
  "playerWaiverStatus (st\<lparr>waiverReceipts := rs\<rparr>) cfg games p nfl now = playerWaiverStatus st cfg games p nfl now"
proof -
  have "currentRosters (st\<lparr>waiverReceipts := rs\<rparr>) = currentRosters st"
    by (simp add: currentRosters_def replayState_def)
  then show ?thesis by (simp add: playerWaiverStatus_def ownerOf_def lastDropInstant_def)
qed

lemma classify_fold:
  "cpState cp = st\<lparr>waiverReceipts := waiverReceipts st @ rs\<rparr> \<Longrightarrow>
   cpDue (fold (classifyClaim ri) cs cp) = cpDue cp @ map settled (filter (dueClaim ri st) cs) \<and>
   cpOpen (fold (classifyClaim ri) cs cp) = cpOpen cp @ map (leftOpen ri) (filter (openClaim ri st) cs) \<and>
   cpState (fold (classifyClaim ri) cs cp) = st\<lparr>waiverReceipts := waiverReceipts st @ rs @ expiryReceipts ri cs\<rparr>"
proof (induction cs arbitrary: cp rs)
  case (Cons c cs)
  let ?cp = "classifyClaim ri c cp"
  have step: "cpDue ?cp = cpDue cp @ map settled (filter (dueClaim ri st) [c]) \<and>
     cpOpen ?cp = cpOpen cp @ map (leftOpen ri) (filter (openClaim ri st) [c]) \<and>
     cpState ?cp = st\<lparr>waiverReceipts := waiverReceipts st @ (rs @ expiryReceipts ri [c])\<rparr>"
    using Cons.prems
    by (auto simp: classifyClaim_def openClaim_def dueClaim_def expiredClaim_def heldClaim_def leftOpen_def
        expiryReceipts_def addReceipt_def waiverStatusHoldsPlayer_def Let_def split: option.splits if_splits)
  note ih = Cons.IH [OF conjunct2 [OF conjunct2 [OF step]]]
  have "expiryReceipts ri (c # cs) = expiryReceipts ri [c] @ expiryReceipts ri cs" by (simp add: expiryReceipts_def)
  then show ?case using ih step by (simp split: if_splits)
qed (simp add: expiryReceipts_def)

lemma classifyClaims_spec:
  "cpDue (classifyClaims ri st) = map settled (filter (dueClaim ri st) (waiverClaims st))"
  "cpOpen (classifyClaims ri st) = map (leftOpen ri) (filter (openClaim ri st) (waiverClaims st))"
  "cpState (classifyClaims ri st) = st\<lparr>waiverReceipts := waiverReceipts st @ expiryReceipts ri (waiverClaims st)\<rparr>"
  using classify_fold [of "\<lparr>cpDue = [], cpOpen = [], cpResults = [], cpState = st\<rparr>" st "[]" ri "waiverClaims st"]
  by (simp_all add: classifyClaims_def)

lemma settled_parts [simp]: "claimID (settled c) = claimID c" "claimTeamID (settled c) = claimTeamID c"
  "claimAddID (settled c) = claimAddID c" "claimDropID (settled c) = claimDropID c"
  "claimBid (settled c) = claimBid c" "claimFiledAt (settled c) = claimFiledAt c" "claimPriority (settled c) = claimPriority c"
  by (simp_all add: settled_def)

lemma deferred_parts [simp]: "claimID (deferredOnce now c) = claimID c" "claimTeamID (deferredOnce now c) = claimTeamID c"
  "claimFiledAt (deferredOnce now c) = claimFiledAt c" "claimAddID (deferredOnce now c) = claimAddID c"
  by (simp_all add: deferredOnce_def Let_def)

lemma expiryReceipt_parts [simp]:
  "rcptClaimID (expiryReceipt ri c) = claimID c" "rcptOutcome (expiryReceipt ri c) = Expired"
  "rcptTeamID (expiryReceipt ri c) = claimTeamID c" "rcptFiledAt (expiryReceipt ri c) = claimFiledAt c"
  "rcptResolvedAt (expiryReceipt ri c) = riNow ri"
  by (simp_all add: expiryReceipt_def)

lemma split_claims:
  "mset (map f (filter (dueClaim ri st) cs)) + mset (map f (filter (expiredClaim ri) cs)) =
   mset (map f (filter (\<lambda>c. \<not> openClaim ri st c) cs))"
proof (induction cs)
  case (Cons c cs)
  have "\<not> (dueClaim ri st c \<and> expiredClaim ri c)" by (auto simp: dueClaim_def expiredClaim_def)
  then show ?case using Cons by (auto simp: openClaim_def)
qed simp

text \<open>What a successful run with open claims did, in terms of the loop.\<close>

lemma processWaivers_success:
  assumes "processWaivers env ri ok s = (Inr results, s')" "waiverClaims (stState s) \<noteq> []"
  obtains st1 where
    "resolveAll env ri (waiverBaseOrder env (stState s) (riConfig ri))
       (waiverPenaltyBoundary (stState s) (riGames ri) (riNow ri))
       (map settled (filter (dueClaim ri (stState s)) (waiverClaims (stState s))))
       ((stState s)\<lparr>waiverReceipts := waiverReceipts (stState s) @ expiryReceipts ri (waiverClaims (stState s))\<rparr>)
       (cpResults (classifyClaims ri (stState s))) = Some (st1, results)"
    "stState s' = st1\<lparr>waiverClaims := normalizeAllClaimPriorities
        (map (leftOpen ri) (filter (openClaim ri (stState s)) (waiverClaims (stState s)))),
       waiversProcessedThrough := riNow ri\<rparr>"
proof -
  have base: "waiverBaseOrder env (st\<lparr>waiverReceipts := rs\<rparr>) cfg = waiverBaseOrder env st cfg" for st rs cfg
    by (simp add: waiverBaseOrder_def split: option.split)
  have boundary: "waiverPenaltyBoundary (st\<lparr>waiverReceipts := rs\<rparr>) games now = waiverPenaltyBoundary st games now"
    for st rs games now
    by (simp add: waiverPenaltyBoundary_def waiverPenaltyFallbackFloor_def Let_def cong: if_cong option.case_cong)
  from assms that show ?thesis
    by (auto simp: processWaivers_def store_outcomes Let_def classifyClaims_spec base boundary split: option.splits)
qed

interpretation waiver_run: restoring_op "processWaivers env ri"
  by unfold_locales (auto simp: processWaivers_def store_op_defs Let_def split: if_splits option.splits)

interpretation baseline_run: gated_op "baselineWaiversProcessedThrough now"
  by unfold_locales (auto simp: baselineWaiversProcessedThrough_def store_op_defs split: if_splits)

section \<open>What an award keeps\<close>

definition poolKeyed :: "(player_id \<Rightarrow> player option) \<Rightarrow> bool" where
  "poolKeyed pool \<longleftrightarrow> (\<forall>p pl. pool p = Some pl \<longrightarrow> playerID pl = p)"

definition claimSane :: "run_input \<Rightarrow> waiver_claim \<Rightarrow> bool" where
  "claimSane ri c \<longleftrightarrow> claimTeamID c \<noteq> [] \<and> (claimDropID c \<noteq> [] \<longrightarrow> riPool ri (claimDropID c) \<noteq> None)"

text \<open>What a run keeps of the rosters, relative to the state it started from.\<close>

definition runSafe :: "run_input \<Rightarrow> persisted_state \<Rightarrow> persisted_state \<Rightarrow> bool" where
  "runSafe ri st0 st \<longleftrightarrow> rostersLegal st \<and> zonesWf st \<and> zonesOnRoster st \<and>
     (\<forall>t. effectiveRosterSize st t \<le> max (effectiveRosterSize st0 t) (riCap ri))"

lemma ownerOf_cong: "transactions st = transactions st' \<Longrightarrow> picks st = picks st' \<Longrightarrow> ownerOf st = ownerOf st'"
  by (simp add: ownerOf_def currentRosters_def replayState_alt)

lemma effective_cong:
  "transactions st = transactions st' \<Longrightarrow> picks st = picks st' \<Longrightarrow> rosterZones st = rosterZones st' \<Longrightarrow>
   effectiveRosterSize st t = effectiveRosterSize st' t"
  using rosterOf_cong [of st st'] by (simp add: effectiveRosterSize_def irOccupantCount_def zonesOf_def)

lemma zones_cong:
  "rosterZones st = rosterZones st' \<Longrightarrow> zonesWf st = zonesWf st'"
  "transactions st = transactions st' \<Longrightarrow> picks st = picks st' \<Longrightarrow> rosterZones st = rosterZones st' \<Longrightarrow>
     zonesOnRoster st = zonesOnRoster st'"
  using rosterOf_cong [of st st'] by (simp_all add: zonesWf_def zonesOnRoster_def zoneOfPlayer_def zonesOf_def)

lemma runSafe_cong:
  assumes "transactions st = transactions st'" "picks st = picks st'" "rosterZones st = rosterZones st'"
  shows "runSafe ri st0 st = runSafe ri st0 st'"
  unfolding runSafe_def
  using rostersLegal_cong [OF assms(1,2)] zones_cong(1) [OF assms(3)] zones_cong(2) [OF assms]
    effective_cong [OF assms] by simp

lemma effective_other:
  assumes "\<not> isTrade txn" "u \<noteq> txnTeamID txn"
  shows "effectiveRosterSize (clearZoneAssignments (txnTeamID txn) ids (appendTransaction txn st)) u = effectiveRosterSize st u"
proof -
  let ?st = "clearZoneAssignments (txnTeamID txn) ids (appendTransaction txn st)"
  have roster: "rosterOf ?st = rosterOf (appendTransaction txn st)" by (rule rosterOf_cong) simp_all
  have "set (rosterOf ?st u) = set (rosterOf st u)"
    unfolding roster rosterOf_append_move [OF assms(1)] using assms(2) by simp
  then have "length (rosterOf ?st u) = length (rosterOf st u)"
    by (metis distinct_card rosterOf_distinct)
  moreover have "zonesOf ?st u = zonesOf st u"
    using assms(2) by (simp add: zonesOf_clear) (simp add: appendTransaction_def zonesOf_def)
  ultimately show ?thesis by (simp add: effectiveRosterSize_def irOccupantCount_def)
qed

lemma award_txn_parts:
  assumes "poolKeyed (riPool ri)" "riPool ri (claimAddID c) \<noteq> None" "claimSane ri c"
  shows "map tpPlayerID (txnAdds (awardTxn ri n i c)) = [claimAddID c]"
    "map tpPlayerID (txnDrops (awardTxn ri n i c)) = claimOutgoing c"
    "txnTeamID (awardTxn ri n i c) = claimTeamID c" "\<not> isTrade (awardTxn ri n i c)"
  using assms by (auto simp: awardTxn_def poolRead_def claimOutgoing_def poolKeyed_def claimSane_def isTrade_def Let_def)

lemma award_safe:
  assumes "claimVerdict env ri st c = VAwarded" "runSafe ri st0 st" "poolKeyed (riPool ri)"
    and "riPool ri (claimAddID c) \<noteq> None" "claimSane ri c"
  shows "runSafe ri st0 (awardState ri order i c st)"
proof -
  let ?txn = "awardTxn ri (waiverOrderPosition order (claimTeamID c)) i c"
  note parts = award_txn_parts [OF assms(3-5), of "waiverOrderPosition order (claimTeamID c)" i]
  note v = verdict_awarded [OF assms(1)]
  have team: "claimTeamID c \<noteq> []" using assms(5) by (simp add: claimSane_def)
  have st': "awardState ri order i c st =
      clearZoneAssignments (txnTeamID ?txn) (map tpPlayerID (txnDrops ?txn)) (appendTransaction ?txn st)"
    by (simp add: awardState_def parts)
  have adds: "\<forall>g\<in>set (txnAdds ?txn). ownerOf st (tpPlayerID g) = []"
    using parts(1) v(1) by auto
  have legal: "rostersLegal (awardState ri order i c st)"
    using move_keeps_legal [OF _ parts(4) adds] assms(2)
      rostersLegal_cong [of "awardState ri order i c st" "appendTransaction ?txn st"]
    by (simp add: runSafe_def awardState_def)
  have drops: "dropIDs ?txn \<subseteq> set (rosterOf st (txnTeamID ?txn))"
  proof (rule owned_drops)
    show "txnTeamID ?txn \<noteq> []" using team parts(3) by simp
    show "\<forall>d\<in>set (txnDrops ?txn). ownerOf st (tpPlayerID d) = txnTeamID ?txn"
    proof
      fix d assume "d \<in> set (txnDrops ?txn)"
      then have "tpPlayerID d \<in> set (claimOutgoing c)" using parts(2) by (metis imageI list.set_map)
      then show "ownerOf st (tpPlayerID d) = txnTeamID ?txn"
        using v(2) parts(3) by (auto simp: claimOutgoing_def split: if_splits)
    qed
  qed
  have dis: "distinct (map tpPlayerID (txnDrops ?txn))" unfolding parts(2) by (simp add: claimOutgoing_def)
  have wf: "zonesWf st" "zonesOnRoster st" using assms(2) by (simp_all add: runSafe_def)
  have "length (txnAdds ?txn) = 1" using parts(1) by (metis length_Cons length_map list.size(3) One_nat_def)
  then have own: "effectiveRosterSize (awardState ri order i c st) (claimTeamID c) \<le> riCap ri"
    using effective_after_move [OF parts(4) wf(1) dis drops] v(4) unfolding st' parts(2,3) by simp
  have "effectiveRosterSize (awardState ri order i c st) t \<le> max (effectiveRosterSize st0 t) (riCap ri)" for t
  proof (cases "t = claimTeamID c")
    case False
    then have "effectiveRosterSize (awardState ri order i c st) t = effectiveRosterSize st t"
      unfolding st' by (intro effective_other) (simp_all add: parts)
    then show ?thesis using assms(2) by (simp add: runSafe_def)
  qed (use own in simp)
  moreover have "zonesWf (awardState ri order i c st)" unfolding st' by (simp add: zonesWf_clear zonesWf_append wf)
  moreover have "zonesOnRoster (awardState ri order i c st)" unfolding st' by (rule zonesOnRoster_move [OF wf(2) parts(4)])
  ultimately show ?thesis using legal by (simp add: runSafe_def)
qed

lemma resolve_safe:
  assumes "resolveClaim env ri order c st = Some (res, st')" "runSafe ri st0 st" "poolKeyed (riPool ri)"
    and "riPool ri (claimAddID c) \<noteq> None" "claimSane ri c"
  shows "runSafe ri st0 st'"
  using assms(1)
proof (cases rule: resolveClaim_cases)
  case (refused r)
  then show ?thesis using assms(2) runSafe_cong [of "addReceipt r st" st] by simp
next
  case (won r i)
  then show ?thesis using award_safe [OF won(1) assms(2-5), of order i]
      runSafe_cong [of "addReceipt r (awardState ri order i c st)" "awardState ri order i c st"] by simp
qed

section \<open>Budgets\<close>

definition budgetsCovered :: "league_env \<Rightarrow> int \<Rightarrow> persisted_state \<Rightarrow> bool" where
  "budgetsCovered env budget st \<longleftrightarrow> (\<forall>t n. faabRemaining env st budget t = Some n \<longrightarrow> 0 \<le> n)"

lemma faab_append:
  "faabRemaining env (st\<lparr>transactions := transactions st @ [txn]\<rparr>) budget t =
     map_option (\<lambda>n. if txnType txn = TxnClaim \<and> txnTeamID txn = t then n - txnBid txn else n) (faabRemaining env st budget t)"
  by (simp add: faabRemaining_def)

lemma faab_cong: "transactions st = transactions st' \<Longrightarrow> faabRemaining env st budget t = faabRemaining env st' budget t"
  by (simp add: faabRemaining_def)

lemma resolve_budget:
  assumes "resolveClaim env ri order c st = Some (res, st')" "budgetsCovered env (cfgFAABBudget (riConfig ri)) st"
    and "cfgWaiverMode (riConfig ri) = Faab"
  shows "budgetsCovered env (cfgFAABBudget (riConfig ri)) st'"
  using assms(1)
proof (cases rule: resolveClaim_cases)
  case (refused r)
  then show ?thesis using assms(2) faab_cong [of "addReceipt r st" st] by (simp add: budgetsCovered_def)
next
  case (won r i)
  let ?txn = "awardTxn ri (waiverOrderPosition order (claimTeamID c)) i c"
  have txn: "txnType ?txn = TxnClaim" "txnTeamID ?txn = claimTeamID c" "txnBid ?txn = claimBid c"
    using assms(3) by (simp_all add: awardTxn_def Let_def)
  have "faabRemaining env st' b t = faabRemaining env (st\<lparr>transactions := transactions st @ [?txn]\<rparr>) b t" for b t
    by (rule faab_cong) (simp add: won(3))
  then show ?thesis
    using assms(2) verdict_awarded(5) [OF won(1) assms(3)] txn
    by (auto simp: budgetsCovered_def faab_append budgetLeft_def)
qed

section \<open>A winner goes to the back\<close>

lemma insert_last: "(\<forall>y\<in>set ys. \<not> lt x y) \<Longrightarrow> insertStable lt x ys = ys @ [x]"
  by (induction ys) auto

lemma boundary_before: "0 < now \<Longrightarrow> waiverPenaltyBoundary st games now < now"
  by (auto simp: waiverPenaltyBoundary_def waiverPenaltyFallbackFloor_def Let_def split: option.split if_splits)

lemma penalty_of_latest:
  assumes "\<forall>txn\<in>set txns. txnAt txn \<le> txnAt new" "txnType new = TxnClaim" "boundary < txnAt new"
  shows "applyInPeriodPenalties base (txns @ [new]) boundary =
    moveToBack (applyInPeriodPenalties base txns boundary) (txnTeamID new)"
proof -
  have "claimsAfter boundary (txns @ [new]) = claimsAfter boundary txns @ [new]"
    using assms(2,3) by (simp add: claimsAfter_def)
  moreover have "sortStable atLess (claimsAfter boundary txns @ [new]) = sortStable atLess (claimsAfter boundary txns) @ [new]"
    unfolding sortStable_append1
    using assms(1) by (intro insert_last) (auto simp: atLess_def claimsAfter_def not_less)
  ultimately show ?thesis by (simp add: applyInPeriodPenalties_def)
qed

lemma position_last:
  assumes "distinct order" "t \<in> set order"
  shows "last (moveToBack order t) = t" "waiverOrderPosition (moveToBack order t) t = int (length (moveToBack order t))"
proof -
  have mb: "moveToBack order t = remove1 t order @ [t]" using assms(2) by (simp add: moveToBack_remove1)
  show "last (moveToBack order t) = t" by (simp add: mb)
  have no: "t \<notin> set (remove1 t order)" using assms(1) by simp
  have "indexWhere (\<lambda>u. u = t) (xs @ [t]) = Some (length xs)" if "t \<notin> set xs" for xs
  proof (cases "indexWhere (\<lambda>u. u = t) (xs @ [t])")
    case None
    then show ?thesis by (auto simp: indexWhere_None)
  next
    case (Some k)
    from indexWhere_Some [OF this] that have "k = length xs"
      by (auto simp: nth_append split: if_splits)
    then show ?thesis using Some by simp
  qed
  from this [OF no] show "waiverOrderPosition (moveToBack order t) t = int (length (moveToBack order t))"
    by (simp add: waiverOrderPosition_def mb)
qed

section \<open>Properties\<close>

text \<open>C1: A successful waiver run settles every open claim exactly once. The claims that are not
  due (filed after the run's instant, their player still on waivers, or absent from the pool and not
  yet expired) stay open, renumbered 1 to N per team; every other claim gets exactly one receipt;
  receipts and transactions are only appended, one claim entry for each receipt that says won; and
  the run's instant is recorded.\<close>

theorem waiver_run_accounts_for_claims:
  assumes "processWaivers env ri ok s = (Inr results, s')" "waiverClaims (stState s) \<noteq> []"
  shows "\<exists>rs txns. waiverReceipts (stState s') = waiverReceipts (stState s) @ rs \<and>
    transactions (stState s') = transactions (stState s) @ txns \<and>
    mset (map rcptClaimID rs) =
      mset (map claimID (filter (\<lambda>c. \<not> openClaim ri (stState s) c) (waiverClaims (stState s)))) \<and>
    map unranked (waiverClaims (stState s')) =
      map (unranked \<circ> leftOpen ri) (filter (openClaim ri (stState s)) (waiverClaims (stState s))) \<and>
    (\<forall>t. prioritiesNormal (waiverClaims (stState s')) t) \<and>
    map txnTeamID txns = map rcptTeamID (filter (\<lambda>r. rcptOutcome r = Won) rs) \<and>
    (\<forall>txn\<in>set txns. txnType txn = TxnClaim \<and> txnAt txn = riNow ri) \<and>
    waiversProcessedThrough (stState s') = riNow ri"
proof -
  let ?cs = "waiverClaims (stState s)"
  obtain st1 where run: "resolveAll env ri (waiverBaseOrder env (stState s) (riConfig ri))
       (waiverPenaltyBoundary (stState s) (riGames ri) (riNow ri)) (map settled (filter (dueClaim ri (stState s)) ?cs))
       ((stState s)\<lparr>waiverReceipts := waiverReceipts (stState s) @ expiryReceipts ri ?cs\<rparr>)
       (cpResults (classifyClaims ri (stState s))) = Some (st1, results)"
    and s': "stState s' = st1\<lparr>waiverClaims := normalizeAllClaimPriorities
        (map (leftOpen ri) (filter (openClaim ri (stState s)) ?cs)), waiversProcessedThrough := riNow ri\<rparr>"
    by (rule processWaivers_success [OF assms])
  obtain rs txns where acc: "waiverReceipts st1 = waiverReceipts (stState s) @ expiryReceipts ri ?cs @ rs"
    "transactions st1 = transactions (stState s) @ txns"
    "mset (map rcptClaimID rs) = mset (map claimID (filter (dueClaim ri (stState s)) ?cs))"
    "map txnTeamID txns = map rcptTeamID (filter (\<lambda>r. rcptOutcome r = Won) rs)"
    "\<forall>txn\<in>set txns. txnType txn = TxnClaim \<and> txnAt txn = riNow ri"
    using resolveAll_accounts [OF run] by (auto simp: comp_def)
  have "mset (map rcptClaimID (expiryReceipts ri ?cs)) = mset (map claimID (filter (expiredClaim ri) ?cs))"
    by (simp add: expiryReceipts_def comp_def)
  then have ids: "mset (map rcptClaimID (expiryReceipts ri ?cs @ rs)) =
      mset (map claimID (filter (\<lambda>c. \<not> openClaim ri (stState s) c) ?cs))"
    using split_claims [of claimID ri "stState s" ?cs] acc(3) by (simp add: add.commute)
  have won: "filter (\<lambda>r. rcptOutcome r = Won) (expiryReceipts ri ?cs @ rs) = filter (\<lambda>r. rcptOutcome r = Won) rs"
    by (simp add: expiryReceipts_def filter_empty_conv)
  show ?thesis
    by (intro exI [of _ "expiryReceipts ri ?cs @ rs"] exI [of _ txns] conjI)
      (use acc ids normalizeAll_spec in \<open>simp_all add: s' won comp_def del: filter_append map_append\<close>)
qed

text \<open>C12: A receipt of a run never precedes the filing of its claim. An expiry needs a player absent
  from the pool, at least two earlier deferrals in a row and 48 hours since the first of them; every
  other receipt belongs to a claim on a pool player who is not on waivers.\<close>

theorem waiver_receipts_justified:
  assumes "processWaivers env ri ok s = (Inr results, s')" "waiverClaims (stState s) \<noteq> []"
    and "waiverReceipts (stState s') = waiverReceipts (stState s) @ rs" "r \<in> set rs"
  shows "\<exists>c\<in>set (waiverClaims (stState s)). rcptClaimID r = claimID c \<and> rcptFiledAt r = claimFiledAt c \<and>
    claimFiledAt c \<le> riNow ri \<and> rcptResolvedAt r = riNow ri \<and>
    (if rcptOutcome r = Expired
     then riPool ri (claimAddID c) = None \<and> 2 \<le> claimDeferredStreak c \<and> claimFirstDeferredAt c + 48 * hour \<le> riNow ri
     else riPool ri (claimAddID c) \<noteq> None \<and> \<not> heldClaim ri (stState s) c)"
proof -
  let ?cs = "waiverClaims (stState s)"
  obtain st1 where run: "resolveAll env ri (waiverBaseOrder env (stState s) (riConfig ri))
       (waiverPenaltyBoundary (stState s) (riGames ri) (riNow ri)) (map settled (filter (dueClaim ri (stState s)) ?cs))
       ((stState s)\<lparr>waiverReceipts := waiverReceipts (stState s) @ expiryReceipts ri ?cs\<rparr>)
       (cpResults (classifyClaims ri (stState s))) = Some (st1, results)"
    and s': "waiverReceipts (stState s') = waiverReceipts st1"
    using processWaivers_success [OF assms(1,2)] by (metis (no_types, lifting) persisted_state.select_convs(20)
      persisted_state.surjective persisted_state.update_convs(19) persisted_state.update_convs(21))
  obtain rs2 where acc: "waiverReceipts st1 = waiverReceipts (stState s) @ expiryReceipts ri ?cs @ rs2"
    "\<forall>r\<in>set rs2. rcptOutcome r \<in> {Won, Beaten, Failed} \<and> rcptResolvedAt r = riNow ri \<and>
        (\<exists>c\<in>set (map settled (filter (dueClaim ri (stState s)) ?cs)). rcptClaimID r = claimID c \<and> rcptFiledAt r = claimFiledAt c)"
    using resolveAll_accounts [OF run] by auto
  have "rs = expiryReceipts ri ?cs @ rs2" using assms(3) acc(1) s' by simp
  then consider "r \<in> set (expiryReceipts ri ?cs)" | "r \<in> set rs2" using assms(4) by auto
  then show ?thesis
  proof cases
    case 1
    then obtain c where c: "c \<in> set ?cs" "expiredClaim ri c" "r = expiryReceipt ri (deferredOnce (riNow ri) c)"
      by (auto simp: expiryReceipts_def)
    have "2 \<le> claimDeferredStreak c \<and> claimFirstDeferredAt c + 48 * hour \<le> riNow ri"
      using c(2) by (auto simp: expiredClaim_def expiresNow_def deferredOnce_def Let_def waiverClaimDeferralLimit_def
          waiverClaimDeferralWindow_def hour_def minute_def second_def split: if_splits)
    then show ?thesis using c by (intro bexI [of _ c]) (auto simp: expiredClaim_def)
  next
    case 2
    then obtain c where c: "c \<in> set ?cs" "dueClaim ri (stState s) c" "rcptClaimID r = claimID c"
      "rcptFiledAt r = claimFiledAt c" "rcptResolvedAt r = riNow ri" "rcptOutcome r \<noteq> Expired"
      using acc(2) by fastforce
    then show ?thesis by (intro bexI [of _ c]) (auto simp: dueClaim_def)
  qed
qed

text \<open>C2: When the log and the zone tags are legal, the pool is keyed by player ID and knows every
  player a claim would drop, a run leaves every player on at most one roster, no zone tag off its
  roster, and no team above the larger of its size before the run and the roster cap.\<close>

theorem waiver_run_keeps_rosters:
  assumes "processWaivers env ri ok s = (Inr results, s')"
    and "rostersLegal (stState s)" "zonesWf (stState s)" "zonesOnRoster (stState s)" "poolKeyed (riPool ri)"
    and "\<forall>c\<in>set (waiverClaims (stState s)). claimSane ri c"
  shows "rostersLegal (stState s') \<and> zonesWf (stState s') \<and> zonesOnRoster (stState s') \<and>
    (\<forall>t. effectiveRosterSize (stState s') t \<le> max (effectiveRosterSize (stState s) t) (riCap ri))"
proof (cases "waiverClaims (stState s) = []")
  case True
  then have "stState s' = (stState s)\<lparr>waiversProcessedThrough := riNow ri\<rparr>"
    using assms(1) by (auto simp: processWaivers_def store_outcomes)
  then show ?thesis using assms(2-4) runSafe_cong [of "stState s'" "stState s" ri "stState s"] by (simp add: runSafe_def)
next
  case False
  let ?st = "stState s" and ?cs = "waiverClaims (stState s)"
  obtain st1 where run: "resolveAll env ri (waiverBaseOrder env ?st (riConfig ri))
       (waiverPenaltyBoundary ?st (riGames ri) (riNow ri)) (map settled (filter (dueClaim ri ?st) ?cs))
       (?st\<lparr>waiverReceipts := waiverReceipts ?st @ expiryReceipts ri ?cs\<rparr>)
       (cpResults (classifyClaims ri ?st)) = Some (st1, results)"
    and s': "stState s' = st1\<lparr>waiverClaims := normalizeAllClaimPriorities
        (map (leftOpen ri) (filter (openClaim ri ?st) ?cs)), waiversProcessedThrough := riNow ri\<rparr>"
    by (rule processWaivers_success [OF assms(1) False])
  have start: "runSafe ri ?st (?st\<lparr>waiverReceipts := waiverReceipts ?st @ expiryReceipts ri ?cs\<rparr>)"
    using assms(2-4) runSafe_cong [of "?st\<lparr>waiverReceipts := waiverReceipts ?st @ expiryReceipts ri ?cs\<rparr>" ?st ri ?st]
    by (simp add: runSafe_def)
  have "runSafe ri ?st st1"
  proof (rule resolveAll_invariant [where P = "runSafe ri ?st", OF run start])
    fix order c st res st'
    assume c: "c \<in> set (map settled (filter (dueClaim ri ?st) ?cs))" "runSafe ri ?st st"
      "resolveClaim env ri order c st = Some (res, st')"
    then have "riPool ri (claimAddID c) \<noteq> None" "claimSane ri c"
      using assms(6) by (auto simp: dueClaim_def claimSane_def)
    then show "runSafe ri ?st st'" using resolve_safe [OF c(3,2) assms(5)] by blast
  qed
  then show ?thesis using runSafe_cong [of "stState s'" st1 ri ?st] by (simp add: s' runSafe_def)
qed

text \<open>C3: In FAAB mode a run never spends more than a team has: if every budget is non-negative
  before the run, every budget is non-negative after it.\<close>

theorem faab_never_overspent:
  assumes "processWaivers env ri ok s = (Inr results, s')" "cfgWaiverMode (riConfig ri) = Faab"
    and "faabRemaining env (stState s') (cfgFAABBudget (riConfig ri)) t = Some left'"
    and "\<forall>u n. faabRemaining env (stState s) (cfgFAABBudget (riConfig ri)) u = Some n \<longrightarrow> 0 \<le> n"
  shows "0 \<le> left'"
proof -
  let ?st = "stState s" and ?cs = "waiverClaims (stState s)" and ?b = "cfgFAABBudget (riConfig ri)"
  have start: "budgetsCovered env ?b ?st" using assms(4) by (simp add: budgetsCovered_def)
  have "budgetsCovered env ?b (stState s')"
  proof (cases "?cs = []")
    case True
    then have "transactions (stState s') = transactions ?st"
      using assms(1) by (auto simp: processWaivers_def store_outcomes)
    then show ?thesis using start faab_cong [of "stState s'" ?st] by (simp add: budgetsCovered_def)
  next
    case False
    obtain st1 where run: "resolveAll env ri (waiverBaseOrder env ?st (riConfig ri))
         (waiverPenaltyBoundary ?st (riGames ri) (riNow ri)) (map settled (filter (dueClaim ri ?st) ?cs))
         (?st\<lparr>waiverReceipts := waiverReceipts ?st @ expiryReceipts ri ?cs\<rparr>)
         (cpResults (classifyClaims ri ?st)) = Some (st1, results)"
      and s': "stState s' = st1\<lparr>waiverClaims := normalizeAllClaimPriorities
          (map (leftOpen ri) (filter (openClaim ri ?st) ?cs)), waiversProcessedThrough := riNow ri\<rparr>"
      by (rule processWaivers_success [OF assms(1) False])
    have "budgetsCovered env ?b st1"
    proof (rule resolveAll_invariant [where P = "budgetsCovered env ?b", OF run])
      show "budgetsCovered env ?b (?st\<lparr>waiverReceipts := waiverReceipts ?st @ expiryReceipts ri ?cs\<rparr>)"
        using start faab_cong [of "?st\<lparr>waiverReceipts := waiverReceipts ?st @ expiryReceipts ri ?cs\<rparr>" ?st]
        by (simp add: budgetsCovered_def)
    qed (rule resolve_budget [OF _ _ assms(2)])
    then show ?thesis using faab_cong [of "stState s'" st1] by (simp add: s' budgetsCovered_def)
  qed
  then show ?thesis using assms(3) by (simp add: budgetsCovered_def)
qed

text \<open>C13: When a claim of a run is awarded, the order the next claim of the same run is compared by
  has the winner at the very end, provided no logged transaction lies after the run's instant.\<close>

theorem run_winner_goes_to_back:
  assumes "resolveClaim env ri order c st = Some (res, st')" "resOutcome res = Won" "0 < riNow ri"
    and "\<forall>txn\<in>set (transactions st). txnAt txn \<le> riNow ri"
    and "distinct base" "claimTeamID c \<in> set base" "boundary = waiverPenaltyBoundary st0 (riGames ri) (riNow ri)"
  shows "waiverOrderPosition (applyInPeriodPenalties base (transactions st') boundary) (claimTeamID c) = int (length base)"
  using assms(1)
proof (cases rule: resolveClaim_cases)
  case (refused r)
  then show ?thesis using assms(2) by auto
next
  case (won r i)
  let ?txn = "awardTxn ri (waiverOrderPosition order (claimTeamID c)) i c"
  let ?before = "applyInPeriodPenalties base (transactions st) boundary"
  have txn: "txnType ?txn = TxnClaim" "txnTeamID ?txn = claimTeamID c" "txnAt ?txn = riNow ri"
    by (simp_all add: awardTxn_def Let_def)
  have after: "applyInPeriodPenalties base (transactions st') boundary = moveToBack ?before (claimTeamID c)"
    using penalty_of_latest [of "transactions st" ?txn boundary base] txn assms(4) boundary_before [OF assms(3)]
    by (simp add: won(3) assms(7))
  have perm: "mset ?before = mset base" by (rule penalties_perm)
  then have "distinct ?before" "claimTeamID c \<in> set ?before" "length ?before = length base"
    using assms(5,6) by (metis mset_eq_imp_distinct_iff, metis set_mset_mset, metis size_mset)
  then show ?thesis unfolding after
    using position_last(2) [of ?before "claimTeamID c"] by (metis mset_moveToBack size_mset)
qed

text \<open>A run that fails, whether the store is unhealthy, the ID draw fails half way or the persist
  fails, leaves the whole state as it was.\<close>

theorem failed_run_restores_state:
  assumes "processWaivers env ri ok s = (Inl e, s')"
  shows "stState s' = stState s"
  by (rule waiver_run.error_keeps_state [OF assms])

section \<open>A sample run\<close>

definition samplePool :: "player_id \<Rightarrow> player option" where
  "samplePool p = (if p \<in> set [''p1'', ''p2'', ''p3'', ''p9'']
     then Some (zeroPlayer\<lparr>playerID := p, playerName := p, playerPosition := ''WR'', playerNFLTeam := ''BUF''\<rparr>) else None)"

definition sampleInput :: "waiver_mode \<Rightarrow> run_input" where
  "sampleInput mode = \<lparr>riNow = 100, riConfig = sampleConfig\<lparr>cfgWaiverMode := mode\<rparr>, riGames = [], riPool = samplePool,
     riCap = 2, riNewID = (\<lambda>n. Some ''txn-1'')\<rparr>"

definition sampleClaimState :: persisted_state where
  "sampleClaimState = sampleRosterState\<lparr>waiverClaims := [sampleClaim ''c1'' ''a'' ''p9'' ''p2'' 4 1 5,
     sampleClaim ''c2'' ''b'' ''p9'' ''p1'' 7 1 6, (sampleClaim ''c3'' ''b'' ''p7'' [] 7 2 6)\<lparr>claimDeferredStreak := 2,
       claimFirstDeferredAt := - 48 * hour\<rparr>, sampleClaim ''c4'' ''a'' ''p8'' [] 0 2 7]\<rparr>"

definition sampleRun :: "waiver_mode \<Rightarrow> (store, waiver_error, waiver_result list) outcome" where
  "sampleRun mode = processWaivers sampleEnv (sampleInput mode) True (sampleStore sampleClaimState)"

lemma sampleRun_succeeds: "succeeded (sampleRun Faab)" "succeeded (sampleRun PerfPriority)"
  by code_simp+

lemma sampleRun_result:
  obtains results s' where "processWaivers sampleEnv (sampleInput mode) True (sampleStore sampleClaimState) = (Inr results, s')"
    "snd (sampleRun mode) = s'"
proof -
  have "succeeded (sampleRun mode)" using sampleRun_succeeds by (cases mode) simp_all
  then show ?thesis using that by (cases "sampleRun mode") (auto simp: sampleRun_def elim: succeeded.elims)
qed

lemma sampleRun_claims: "stState (sampleStore sampleClaimState) = sampleClaimState" "waiverClaims sampleClaimState \<noteq> []"
  by (simp_all add: sampleStore_def sampleClaimState_def)

theorem waiver_run_accounts_for_claims_witness:
  "\<exists>rs. waiverReceipts (stState (snd (sampleRun Faab))) = rs \<and> mset (map rcptClaimID rs) = {#''c1'', ''c2'', ''c3''#}"
proof -
  have ids: "map claimID (filter (\<lambda>c. \<not> openClaim (sampleInput Faab) sampleClaimState c) (waiverClaims sampleClaimState)) =
      [''c1'', ''c2'', ''c3'']" by code_simp
  have none: "waiverReceipts sampleClaimState = []"
    by (simp add: sampleClaimState_def sampleRosterState_def freshState_def)
  obtain results s' where run: "processWaivers sampleEnv (sampleInput Faab) True (sampleStore sampleClaimState) = (Inr results, s')"
    and s': "snd (sampleRun Faab) = s'" by (rule sampleRun_result)
  from waiver_run_accounts_for_claims [OF run] sampleRun_claims
  obtain rs where "waiverReceipts (stState s') = rs"
    "mset (map rcptClaimID rs) = mset (map claimID (filter (\<lambda>c. \<not> openClaim (sampleInput Faab) sampleClaimState c)
      (waiverClaims sampleClaimState)))" using none by auto
  then show ?thesis unfolding ids s' by auto
qed

theorem waiver_receipts_justified_witness:
  "\<exists>r\<in>set (waiverReceipts (stState (snd (sampleRun Faab)))). \<exists>c\<in>set (waiverClaims sampleClaimState).
     rcptClaimID r = claimID c \<and> rcptFiledAt r = claimFiledAt c"
proof -
  have none: "waiverReceipts sampleClaimState = []"
    by (simp add: sampleClaimState_def sampleRosterState_def freshState_def)
  obtain results s' where run: "processWaivers sampleEnv (sampleInput Faab) True (sampleStore sampleClaimState) = (Inr results, s')"
    and s': "snd (sampleRun Faab) = s'" by (rule sampleRun_result)
  have "waiverReceipts (stState (snd (sampleRun Faab))) \<noteq> []" by code_simp
  then obtain r rs where "waiverReceipts (stState s') = r # rs" using s' by (cases "waiverReceipts (stState s')") auto
  then show ?thesis
    using waiver_receipts_justified [OF run, of "r # rs" r] sampleRun_claims none s' by auto
qed

lemma sampleClaims_legal: "rostersLegal sampleClaimState" "zonesWf sampleClaimState" "zonesOnRoster sampleClaimState"
  "poolKeyed samplePool" "\<forall>c\<in>set (waiverClaims sampleClaimState). claimSane (sampleInput mode) c"
proof -
  show "rostersLegal sampleClaimState" by (simp add: sampleClaimState_def sample_roster_simps)
  show "zonesWf sampleClaimState" "zonesOnRoster sampleClaimState"
    by (simp_all add: zonesWf_def zonesOnRoster_def zoneOfPlayer_def zonesOf_def sampleClaimState_def mapList_def
        sampleRosterState_def freshState_def)
  show "poolKeyed samplePool" by (auto simp: poolKeyed_def samplePool_def split: if_splits)
  show "\<forall>c\<in>set (waiverClaims sampleClaimState). claimSane (sampleInput mode) c"
    by (simp add: sampleClaimState_def claimSane_def sampleClaim_def sampleInput_def samplePool_def)
qed

theorem waiver_run_keeps_rosters_witness: "rostersLegal (stState (snd (sampleRun PerfPriority)))"
proof -
  obtain results s' where run: "processWaivers sampleEnv (sampleInput PerfPriority) True (sampleStore sampleClaimState) = (Inr results, s')"
    and s': "snd (sampleRun PerfPriority) = s'" by (rule sampleRun_result)
  show ?thesis unfolding s'
    using waiver_run_keeps_rosters [OF run] sampleClaims_legal sampleRun_claims
    by (simp add: sampleInput_def)
qed

theorem faab_never_overspent_witness:
  "0 \<le> the (faabRemaining sampleEnv (stState (snd (sampleRun Faab))) 100 ''b'')"
proof -
  obtain results s' where run: "processWaivers sampleEnv (sampleInput Faab) True (sampleStore sampleClaimState) = (Inr results, s')"
    and s': "snd (sampleRun Faab) = s'" by (rule sampleRun_result)
  have budget: "cfgWaiverMode (riConfig (sampleInput Faab)) = Faab" "cfgFAABBudget (riConfig (sampleInput Faab)) = 100"
    by (simp_all add: sampleInput_def sampleConfig_def)
  have before: "0 \<le> n" if "faabRemaining sampleEnv (stState (sampleStore sampleClaimState)) 100 u = Some n" for u n
    using that by (auto simp: faabRemaining_def sampleClaimState_def sampleRosterState_def sampleTxn_def sampleStore_def split: if_splits)
  have "''b'' \<in> set (defaultTeamIDs sampleEnv)" by (simp add: sample_zone_simps)
  then obtain n where n: "faabRemaining sampleEnv (stState s') 100 ''b'' = Some n" by (simp add: faabRemaining_def)
  have "0 \<le> n"
    by (rule faab_never_overspent [OF run budget(1), unfolded budget(2), OF n]) (use before in blast)
  then show ?thesis unfolding s' n by simp
qed

theorem run_winner_goes_to_back_witness:
  "waiverOrderPosition (applyInPeriodPenalties [''b'', ''a''] (transactions (stState
     (snd (sampleRun PerfPriority)))) 0) ''b'' \<le> 2 \<and>
   (\<exists>res st'. resolveClaim sampleEnv (sampleInput Faab) [''b'', ''a''] (sampleClaim ''c2'' ''b'' ''p9'' ''p1'' 7 1 6)
      sampleClaimState = Some (res, st') \<and>
    waiverOrderPosition (applyInPeriodPenalties [''b'', ''a''] (transactions st') 0) ''b'' = 2)"
proof
  show "waiverOrderPosition (applyInPeriodPenalties [''b'', ''a''] (transactions (stState
     (snd (sampleRun PerfPriority)))) 0) ''b'' \<le> 2" by code_simp
  let ?c = "sampleClaim ''c2'' ''b'' ''p9'' ''p1'' 7 1 6"
  have "map_option (\<lambda>x. resOutcome (fst x)) (resolveClaim sampleEnv (sampleInput Faab) [''b'', ''a''] ?c sampleClaimState) = Some Won"
    by code_simp
  then obtain res st' where r: "resolveClaim sampleEnv (sampleInput Faab) [''b'', ''a''] ?c sampleClaimState = Some (res, st')"
    "resOutcome res = Won" by auto
  have txns: "\<forall>txn\<in>set (transactions sampleClaimState). txnAt txn \<le> riNow (sampleInput Faab)"
    by (simp add: sampleClaimState_def sampleRosterState_def sampleTxn_def sampleInput_def)
  have b: "0 = waiverPenaltyBoundary sampleClaimState (riGames (sampleInput Faab)) (riNow (sampleInput Faab))"
    by code_simp
  have "waiverOrderPosition (applyInPeriodPenalties [''b'', ''a''] (transactions st') 0) (claimTeamID ?c) = int (length [''b'', ''a''])"
    by (rule run_winner_goes_to_back [OF r _ txns _ _ b]) (simp_all add: sampleInput_def sampleClaim_def)
  then show "\<exists>res st'. resolveClaim sampleEnv (sampleInput Faab) [''b'', ''a''] ?c sampleClaimState = Some (res, st') \<and>
      waiverOrderPosition (applyInPeriodPenalties [''b'', ''a''] (transactions st') 0) ''b'' = 2"
    using r by (auto simp: sampleClaim_def)
qed

theorem failed_run_restores_state_witness:
  "stState (snd (processWaivers sampleEnv (sampleInput Faab) False (sampleStore sampleClaimState))) = sampleClaimState"
proof -
  have "\<not> succeeded (processWaivers sampleEnv (sampleInput Faab) False (sampleStore sampleClaimState))" by code_simp
  then obtain e s' where "processWaivers sampleEnv (sampleInput Faab) False (sampleStore sampleClaimState) = (Inl e, s')"
    by (cases "processWaivers sampleEnv (sampleInput Faab) False (sampleStore sampleClaimState)")
      (auto, metis succeeded.simps(1) sum.exhaust)
  from failed_run_restores_state [OF this] this show ?thesis by (simp add: sampleStore_def)
qed

definition unknownDropState :: persisted_state where
  "unknownDropState = sampleRosterState\<lparr>picks := [samplePick 2 ''b'' ''p2'', samplePick 1 ''a'' ''gone''],
     transactions := [sampleTxn TxnAdd ''a'' [] [''p3''] [] 5],
     waiverClaims := [sampleClaim ''c1'' ''a'' ''p9'' ''gone'' 4 1 5]\<rparr>"

text \<open>The hypothesis on dropped players of waiver_run_keeps_rosters is needed: a drop the pool
  does not know becomes a drop of the empty player ID, which removes nobody, although the cap check
  has credited it; here a full roster of two ends with three players.\<close>

theorem unknown_drop_exceeds_cap:
  "effectiveRosterSize unknownDropState ''a'' = 2 \<and> riCap (sampleInput PerfPriority) = 2 \<and>
   effectiveRosterSize (stState (snd (processWaivers sampleEnv (sampleInput PerfPriority) True
     (sampleStore unknownDropState)))) ''a'' = 3"
  by code_simp

end
