(* ===== verification/Claims.thy ===== *)
theory Claims
  imports WaiverRun
begin

text \<open>
  Filing, cancelling and reordering waiver claims (src/internal/league/store.go: fileClaimWithAuthority,
  allowWaiverFilingLocked, recordWaiverFilingLocked, CancelClaim, MoveClaim). All three mutators
  restore the state after a failed persist; the in-memory filing log is not part of the state.
\<close>

datatype claim_error = ClaimUnknownTeam team_id | TooManyFilings | AlreadyOnRoster | DuplicateClaim
  | TooManyOpen | NotClaimable | ClaimIDExists | DropNotOnRoster | DropLocked string
  | BadDirection | ClaimNotOpen

definition waiverFilingRateLimit :: nat where "waiverFilingRateLimit = 60"
definition waiverFilingRateWindow :: int where "waiverFilingRateWindow = hour"

text \<open>allowWaiverFilingLocked answers and prunes the team's log as a side effect.\<close>

definition prunedFilings :: "(team_id \<Rightarrow> time list) \<Rightarrow> team_id \<Rightarrow> time \<Rightarrow> time list" where
  "prunedFilings filings t now = filter (\<lambda>filed. filed > now - waiverFilingRateWindow) (filings t)"

definition allowWaiverFiling :: "team_id \<Rightarrow> time \<Rightarrow> store \<Rightarrow> bool \<times> store" where
  "allowWaiverFiling t now s =
     (let kept = prunedFilings (stFilingLog s) t now
      in (length kept < waiverFilingRateLimit, s\<lparr>stFilingLog := (stFilingLog s)(t := kept)\<rparr>))"

definition recordWaiverFiling :: "team_id \<Rightarrow> time \<Rightarrow> store \<Rightarrow> store" where
  "recordWaiverFiling t now s = s\<lparr>stFilingLog := (stFilingLog s)(t := stFilingLog s t @ [now])\<rparr>"

text \<open>The checks after the rate limit. The pool is None where Go passes a nil map.\<close>

definition fileGuard :: "league_env \<Rightarrow> persisted_state \<Rightarrow> waiver_claim \<Rightarrow> game_info list \<Rightarrow>
    (player_id \<Rightarrow> player option) option \<Rightarrow> time \<Rightarrow> claim_error option" where
  "fileGuard env st c games pool now =
     (let t = claimTeamID c; owner = ownerOf st; drop' = claimDropID c in
      if owner (claimAddID c) \<noteq> [] then Some AlreadyOnRoster
      else if waiverClaimByTeamAndPlayer (waiverClaims st) t (claimAddID c) \<noteq> None then Some DuplicateClaim
      else if teamOpenClaimCount (waiverClaims st) t \<ge> maxOpenClaimsPerTeam env then Some TooManyOpen
      else if (case pool of None \<Rightarrow> False | Some look \<Rightarrow> look (claimAddID c) = None) then Some NotClaimable
      else if list_ex (\<lambda>e. claimID e = claimID c) (waiverClaims st) then Some ClaimIDExists
      else if drop' \<noteq> [] \<and> owner drop' \<noteq> t then Some DropNotOnRoster
      else if drop' \<noteq> [] \<and> games \<noteq> [] then
        (case (case pool of None \<Rightarrow> None | Some look \<Rightarrow> look drop') of
           None \<Rightarrow> None
         | Some d \<Rightarrow> if playerLockedForRosterMutation st games (lineupCurrentWeekAt games now) (playerNFLTeam d) now
             then Some (DropLocked (playerName d)) else None)
      else None)"

definition fileClaimState :: "waiver_claim \<Rightarrow> persisted_state \<Rightarrow> persisted_state" where
  "fileClaimState c st =
     (case normalizeTeamClaimPriorities (waiverClaims st) (claimTeamID c) of (claims, indices) \<Rightarrow>
        st\<lparr>waiverClaims := claims @ [c\<lparr>claimPriority := int (length indices) + 1\<rparr>]\<rparr>)"

definition fileClaimWithAuthority :: "league_env \<Rightarrow> waiver_claim \<Rightarrow> game_info list \<Rightarrow>
    (player_id \<Rightarrow> player option) option \<Rightarrow> time \<Rightarrow> bool \<Rightarrow> store \<Rightarrow> (store, claim_error, unit) outcome" where
  "fileClaimWithAuthority env c games pool now persistOK s = gated s
     (let t = claimTeamID c in
      if \<not> knownTeam env t then rejected (ClaimUnknownTeam t) s
      else
        let (allowed, s1) = (if isZero now then (True, s) else allowWaiverFiling t now s) in
        if \<not> allowed then rejected TooManyFilings s1
        else case fileGuard env (stState s1) c games pool now of
          Some e \<Rightarrow> rejected e s1
        | None \<Rightarrow>
            (case commitOrRestore persistOK s1 (fileClaimState c (stState s1)) () of
               (Inl e, s2) \<Rightarrow> (Inl e, s2)
             | (Inr u, s2) \<Rightarrow> (Inr u, if isZero now then s2 else recordWaiverFiling t now s2)))"

definition cancelClaim :: "team_id \<Rightarrow> string \<Rightarrow> bool \<Rightarrow> store \<Rightarrow> (store, claim_error, unit) outcome" where
  "cancelClaim t cid persistOK s = gated s
     (let st = stState s; mine = (\<lambda>c. claimID c = cid \<and> claimTeamID c = t);
          kept = filter (\<lambda>c. \<not> mine c) (waiverClaims st)
      in if \<not> list_ex mine (waiverClaims st) then (Inr (), s)
         else commitOrRestore persistOK s
           (st\<lparr>waiverClaims := fst (normalizeTeamClaimPriorities kept t)\<rparr>) ())"

definition swapPriorities :: "nat \<Rightarrow> nat \<Rightarrow> waiver_claim list \<Rightarrow> waiver_claim list" where
  "swapPriorities a b cs =
     (let pa = claimPriority (cs ! a); pb = claimPriority (cs ! b);
          cs1 = cs[a := (cs ! a)\<lparr>claimPriority := pb\<rparr>]
      in cs1[b := (cs1 ! b)\<lparr>claimPriority := pa\<rparr>])"

definition moveClaim :: "team_id \<Rightarrow> string \<Rightarrow> string \<Rightarrow> bool \<Rightarrow> store \<Rightarrow> (store, claim_error, bool) outcome" where
  "moveClaim t cid direction persistOK s = gated s
     (let st = stState s in
      if direction \<noteq> ''up'' \<and> direction \<noteq> ''down'' then rejected BadDirection s
      else case normalizeTeamClaimPriorities (waiverClaims st) t of (claims, indices) \<Rightarrow>
        (case indexWhere (\<lambda>i. claimID (claims ! i) = cid) indices of
           None \<Rightarrow> rejected ClaimNotOpen s
         | Some position \<Rightarrow>
             (let target = (if direction = ''down'' then int position + 1 else int position - 1) in
              if target < 0 \<or> target \<ge> int (length indices)
              then commitOrRestore persistOK s (st\<lparr>waiverClaims := claims\<rparr>) False
              else commitOrRestore persistOK s
                (st\<lparr>waiverClaims := swapPriorities (indices ! position) (indices ! nat target) claims\<rparr>) True)))"

section \<open>The mutators restore\<close>

interpretation file_op: restoring_op "fileClaimWithAuthority env c games pool now"
  by unfold_locales
    (auto simp: fileClaimWithAuthority_def store_op_defs allowWaiverFiling_def recordWaiverFiling_def Let_def
      split: if_splits option.splits)

interpretation cancel_op: restoring_op "cancelClaim t cid"
  by unfold_locales (auto simp: cancelClaim_def store_op_defs Let_def split: if_splits)

interpretation move_op: restoring_op "moveClaim t cid direction"
  by unfold_locales (auto simp: moveClaim_def store_op_defs Let_def split: if_splits option.splits prod.splits)

section \<open>The claim list\<close>

definition claimsWf :: "waiver_claim list \<Rightarrow> bool" where
  "claimsWf claims \<longleftrightarrow> distinct (map claimID claims) \<and> distinct (map (\<lambda>c. (claimTeamID c, claimAddID c)) claims) \<and>
     (\<forall>t. prioritiesNormal claims t)"

lemma unranked_maps:
  assumes "map unranked xs = map unranked ys"
  shows "map claimID xs = map claimID ys" "map claimTeamID xs = map claimTeamID ys"
    "map (\<lambda>c. (claimTeamID c, claimAddID c)) xs = map (\<lambda>c. (claimTeamID c, claimAddID c)) ys"
    "length xs = length ys" "i < length ys \<Longrightarrow> claimID (xs ! i) = claimID (ys ! i)"
proof -
  have "map (f \<circ> unranked) xs = map (f \<circ> unranked) ys" for f :: "waiver_claim \<Rightarrow> 'x"
    using assms by (metis map_map)
  from this [of claimID] this [of claimTeamID] this [of "\<lambda>c. (claimTeamID c, claimAddID c)"]
  show "map claimID xs = map claimID ys" "map claimTeamID xs = map claimTeamID ys"
    "map (\<lambda>c. (claimTeamID c, claimAddID c)) xs = map (\<lambda>c. (claimTeamID c, claimAddID c)) ys"
    by (simp_all add: comp_def unranked_def)
  show len: "length xs = length ys" using assms by (metis length_map)
  show "i < length ys \<Longrightarrow> claimID (xs ! i) = claimID (ys ! i)"
    using \<open>map claimID xs = map claimID ys\<close> len by (metis nth_map)
qed

lemma normalize_all_normal:
  assumes "\<forall>u. u \<noteq> t \<longrightarrow> prioritiesNormal claims u"
  shows "\<forall>u. prioritiesNormal (fst (normalizeTeamClaimPriorities claims t)) u"
proof
  fix u
  show "prioritiesNormal (fst (normalizeTeamClaimPriorities claims t)) u"
  proof (cases "u = t")
    case False
    then show ?thesis using assms normal_cong [OF normalize_other [OF False, of claims]] by blast
  qed (use normalize_team in blast)
qed

lemma find_None: "waiverClaimByTeamAndPlayer claims t p = None \<longleftrightarrow> (t, p) \<notin> set (map (\<lambda>c. (claimTeamID c, claimAddID c)) claims)"
  by (force simp: waiverClaimByTeamAndPlayer_def find_None_iff)

lemma claimsOf_append: "claimsOf (xs @ ys) t = claimsOf xs t @ claimsOf ys t"
  by (simp add: claimsOf_def)

lemma filed_wf:
  assumes "claimsWf claims" "claimID c \<notin> set (map claimID claims)"
    "waiverClaimByTeamAndPlayer claims (claimTeamID c) (claimAddID c) = None"
  defines "cs \<equiv> fst (normalizeTeamClaimPriorities claims (claimTeamID c))"
  shows "claimsWf (cs @ [c\<lparr>claimPriority := int (length (claimsOf claims (claimTeamID c))) + 1\<rparr>])"
proof -
  let ?t = "claimTeamID c"
  let ?c = "c\<lparr>claimPriority := int (length (claimsOf claims ?t)) + 1\<rparr>"
  note same = unranked_maps [OF normalize_unranked [of claims ?t], folded cs_def]
  have normal: "\<forall>u. prioritiesNormal cs u"
    unfolding cs_def using assms(1) by (intro normalize_all_normal) (simp add: claimsWf_def)
  have count: "length (claimsOf cs ?t) = length (claimsOf claims ?t)"
  proof -
    have "map claimTeamID cs = map claimTeamID claims" by (rule same(2))
    then have "length (filter (\<lambda>u. u = ?t) (map claimTeamID cs)) = length (filter (\<lambda>u. u = ?t) (map claimTeamID claims))" by simp
    then show ?thesis by (simp add: claimsOf_def filter_map comp_def)
  qed
  have "prioritiesNormal (cs @ [?c]) u" for u
  proof (cases "u = ?t")
    case True
    have "mset (map claimPriority (claimsOf cs ?t)) = mset (map (\<lambda>p. int p + 1) [0..<length (claimsOf claims ?t)])"
      using normal count unfolding prioritiesNormal_def by metis
    then show ?thesis
      unfolding prioritiesNormal_def claimsOf_append True by (simp add: claimsOf_def [of "[?c]"] count)
  next
    case False
    then have "claimsOf (cs @ [?c]) u = claimsOf cs u" by (simp add: claimsOf_def)
    then show ?thesis using normal normal_cong by metis
  qed
  moreover have "distinct (map claimID (cs @ [?c]))"
    using assms(1,2) same(1) by (simp add: claimsWf_def image_iff)
  moreover have "distinct (map (\<lambda>c. (claimTeamID c, claimAddID c)) (cs @ [?c]))"
  proof -
    have "map (\<lambda>c. (claimTeamID c, claimAddID c)) (cs @ [?c]) =
        map (\<lambda>c. (claimTeamID c, claimAddID c)) claims @ [(?t, claimAddID c)]"
      using same(3) by simp
    moreover have "distinct (map (\<lambda>c. (claimTeamID c, claimAddID c)) claims @ [(?t, claimAddID c)])"
      using assms(1,3) by (simp add: claimsWf_def find_None del: distinct_map)
    ultimately show ?thesis by metis
  qed
  ultimately show ?thesis by (simp add: claimsWf_def)
qed

lemma cancelled_wf:
  assumes "claimsWf claims"
  shows "claimsWf (fst (normalizeTeamClaimPriorities (filter (\<lambda>c. \<not> (claimID c = cid \<and> claimTeamID c = t)) claims) t))"
proof -
  let ?kept = "filter (\<lambda>c. \<not> (claimID c = cid \<and> claimTeamID c = t)) claims"
  note same = unranked_maps [OF normalize_unranked [of ?kept t]]
  have "prioritiesNormal ?kept u" if "u \<noteq> t" for u
  proof -
    have "claimsOf ?kept u = claimsOf claims u" using that by (auto simp: claimsOf_def intro: filter_cong)
    then show ?thesis using assms normal_cong by (metis claimsWf_def)
  qed
  then have "\<forall>u. prioritiesNormal (fst (normalizeTeamClaimPriorities ?kept t)) u" by (intro normalize_all_normal) blast
  then show ?thesis using assms unfolding claimsWf_def same by (simp add: distinct_map_filter)
qed

lemma normalized_indices:
  assumes "normalizeTeamClaimPriorities claims t = (cs, idx)"
  shows "distinct idx" "set idx = {i. i < length cs \<and> claimTeamID (cs ! i) = t}" "length cs = length claims"
    "\<And>p. p < length idx \<Longrightarrow> claimPriority (cs ! (idx ! p)) = int p + 1" "cs = fst (normalizeTeamClaimPriorities claims t)"
proof -
  have idx: "idx = teamClaimIndices claims t" and cs: "cs = renumber idx claims"
    using assms by (auto simp: normalizeTeamClaimPriorities_def Let_def)
  show fst: "cs = fst (normalizeTeamClaimPriorities claims t)" using assms by simp
  show "distinct idx" unfolding idx by (rule indices_ok(1))
  show len: "length cs = length claims" unfolding fst by simp
  show "claimPriority (cs ! (idx ! p)) = int p + 1" if "p < length idx" for p
    using renumbered(3) [of p claims t] that unfolding cs idx by simp
  show "set idx = {i. i < length cs \<and> claimTeamID (cs ! i) = t}"
    using indices_ok(3) [of _ claims t] unranked_team [OF normalize_unranked [of claims t], folded fst] len
    unfolding idx by auto
qed

lemma swap_nth:
  assumes "a < length cs" "b < length cs" "a \<noteq> b"
  shows "length (swapPriorities a b cs) = length cs"
    "swapPriorities a b cs ! k = (if k = a then (cs ! a)\<lparr>claimPriority := claimPriority (cs ! b)\<rparr>
      else if k = b then (cs ! b)\<lparr>claimPriority := claimPriority (cs ! a)\<rparr> else cs ! k)"
    "map unranked (swapPriorities a b cs) = map unranked cs"
proof -
  show nth: "swapPriorities a b cs ! k = (if k = a then (cs ! a)\<lparr>claimPriority := claimPriority (cs ! b)\<rparr>
      else if k = b then (cs ! b)\<lparr>claimPriority := claimPriority (cs ! a)\<rparr> else cs ! k)" for k
    using assms by (simp add: swapPriorities_def Let_def nth_list_update)
  show len: "length (swapPriorities a b cs) = length cs" by (simp add: swapPriorities_def Let_def)
  show "map unranked (swapPriorities a b cs) = map unranked cs"
    by (rule nth_equalityI) (auto simp: len nth unranked_def)
qed

lemma swap_normal:
  assumes "distinct idx" "set idx = {i. i < length cs \<and> claimTeamID (cs ! i) = t}"
    and "p < length idx" "q < length idx" "p \<noteq> q" "\<forall>u. prioritiesNormal cs u"
  shows "prioritiesNormal (swapPriorities (idx ! p) (idx ! q) cs) u"
proof -
  let ?a = "idx ! p" and ?b = "idx ! q"
  let ?cs = "swapPriorities ?a ?b cs"
  have ab: "?a < length cs" "?b < length cs" "?a \<noteq> ?b" "claimTeamID (cs ! ?a) = t" "claimTeamID (cs ! ?b) = t"
    using assms(1-5) nth_mem [of p idx] nth_mem [of q idx] by (auto simp: nth_eq_iff_index_eq)
  note sw = swap_nth [OF ab(1-3)]
  have team: "claimTeamID (?cs ! k) = claimTeamID (cs ! k)" for k by (simp add: sw(2))
  have idxs: "filter (\<lambda>i. claimTeamID (?cs ! i) = v) [0..<length ?cs] = filter (\<lambda>i. claimTeamID (cs ! i) = v) [0..<length cs]" for v
    by (simp add: team sw(1))
  show ?thesis
  proof (cases "u = t")
    case False
    have "claimsOf ?cs u = claimsOf cs u"
      unfolding claimsOf_def filter_indices [of _ ?cs] idxs filter_indices [of _ cs]
      using False ab by (intro map_cong) (auto simp: sw(2))
    then show ?thesis using assms(6) normal_cong by metis
  next
    case True
    let ?I = "filter (\<lambda>i. claimTeamID (cs ! i) = t) [0..<length cs]"
    have "set ?I = set idx" "distinct ?I" using assms(2) by auto
    then have I: "mset ?I = mset idx" using assms(1) by (metis set_eq_iff_mset_eq_distinct)
    have ff: "map (\<lambda>k. claimPriority (?cs ! k)) idx =
        (map (\<lambda>k. claimPriority (cs ! k)) idx)[q := map (\<lambda>k. claimPriority (cs ! k)) idx ! p, p := map (\<lambda>k. claimPriority (cs ! k)) idx ! q]"
      using assms(1,3-5) by (intro nth_equalityI) (auto simp: sw(2) nth_list_update nth_eq_iff_index_eq)
    have "mset (map claimPriority (claimsOf ?cs t)) = image_mset (\<lambda>k. claimPriority (?cs ! k)) (mset ?I)"
      unfolding claimsOf_def filter_indices [of _ ?cs] idxs by (simp add: comp_def)
    also have "\<dots> = mset (map (\<lambda>k. claimPriority (?cs ! k)) idx)" unfolding I by simp
    also have "\<dots> = mset (map (\<lambda>k. claimPriority (cs ! k)) idx)"
      unfolding ff using assms(3,4) by (intro mset_swap) simp_all
    also have "\<dots> = image_mset (\<lambda>k. claimPriority (cs ! k)) (mset ?I)" unfolding I by simp
    also have "\<dots> = mset (map claimPriority (claimsOf cs t))"
      unfolding claimsOf_def filter_indices [of _ cs] by (simp add: comp_def)
    finally have same: "mset (map claimPriority (claimsOf ?cs t)) = mset (map claimPriority (claimsOf cs t))" .
    moreover have "length (claimsOf ?cs t) = length (claimsOf cs t)" using same by (metis length_map size_mset)
    ultimately show ?thesis using assms(6) unfolding True prioritiesNormal_def by metis
  qed
qed

section \<open>Successful calls\<close>

lemma file_success:
  assumes "fileClaimWithAuthority env c games pool now ok s = (Inr r, s')"
  shows "stState s' = fileClaimState c (stState s)" "fileGuard env (stState s) c games pool now = None"
    "knownTeam env (claimTeamID c)"
    "\<not> isZero now \<Longrightarrow> length (prunedFilings (stFilingLog s) (claimTeamID c) now) < waiverFilingRateLimit"
    "\<not> isZero now \<Longrightarrow> stFilingLog s' (claimTeamID c) = prunedFilings (stFilingLog s) (claimTeamID c) now @ [now]"
  using assms
  by (auto simp: fileClaimWithAuthority_def store_op_defs allowWaiverFiling_def recordWaiverFiling_def Let_def
      split: if_splits option.splits)

lemma fileGuard_None:
  assumes "fileGuard env st c games pool now = None"
  shows "ownerOf st (claimAddID c) = []"
    "waiverClaimByTeamAndPlayer (waiverClaims st) (claimTeamID c) (claimAddID c) = None"
    "teamOpenClaimCount (waiverClaims st) (claimTeamID c) < maxOpenClaimsPerTeam env"
    "claimID c \<notin> set (map claimID (waiverClaims st))"
    "claimDropID c \<noteq> [] \<Longrightarrow> ownerOf st (claimDropID c) = claimTeamID c"
  using assms by (auto simp: fileGuard_def Let_def list_ex_iff split: if_splits)

lemma fileClaimState_claims:
  "waiverClaims (fileClaimState c st) = fst (normalizeTeamClaimPriorities (waiverClaims st) (claimTeamID c)) @
     [c\<lparr>claimPriority := int (length (claimsOf (waiverClaims st) (claimTeamID c))) + 1\<rparr>]"
  by (simp add: fileClaimState_def normalizeTeamClaimPriorities_def Let_def indices_ok(4))

lemma cancel_success:
  assumes "cancelClaim t cid ok s = (Inr r, s')"
  shows "stState s' = stState s \<and> \<not> (\<exists>c\<in>set (waiverClaims (stState s)). claimID c = cid \<and> claimTeamID c = t) \<or>
    waiverClaims (stState s') = fst (normalizeTeamClaimPriorities
      (filter (\<lambda>c. \<not> (claimID c = cid \<and> claimTeamID c = t)) (waiverClaims (stState s))) t)"
  using assms by (auto simp: cancelClaim_def store_outcomes Let_def list_ex_iff split: if_splits)

lemma move_success:
  assumes "moveClaim t cid direction ok s = (Inr moved, s')"
    and "normalizeTeamClaimPriorities (waiverClaims (stState s)) t = (cs, idx)"
  obtains p where "p < length idx" "claimID (cs ! (idx ! p)) = cid" "direction = ''up'' \<or> direction = ''down''"
    "moved \<longleftrightarrow> (if direction = ''down'' then Suc p < length idx else 0 < p)"
    "waiverClaims (stState s') = (if moved
       then swapPriorities (idx ! p) (idx ! (if direction = ''down'' then Suc p else p - 1)) cs else cs)"
proof -
  obtain p where p: "indexWhere (\<lambda>i. claimID (cs ! i) = cid) idx = Some p"
    using assms by (auto simp: moveClaim_def store_outcomes Let_def split: option.splits if_splits)
  note hit = indexWhere_Some [OF p]
  have dir: "direction = ''up'' \<or> direction = ''down''"
    using assms by (auto simp: moveClaim_def store_outcomes Let_def split: if_splits)
  show ?thesis
  proof (rule that [of p])
    show "p < length idx" "claimID (cs ! (idx ! p)) = cid" using hit by auto
    show "direction = ''up'' \<or> direction = ''down''" by (rule dir)
    have flip: "nat (int p + 1) = Suc p" "nat (int p - 1) = p - 1" by linarith+
    show "moved \<longleftrightarrow> (if direction = ''down'' then Suc p < length idx else 0 < p)"
      using assms p dir hit by (auto simp: moveClaim_def store_outcomes Let_def split: if_splits)
    show "waiverClaims (stState s') = (if moved
       then swapPriorities (idx ! p) (idx ! (if direction = ''down'' then Suc p else p - 1)) cs else cs)"
      using assms p dir hit flip by (auto simp: moveClaim_def store_outcomes Let_def split: if_splits)
  qed
qed

lemma moved_wf:
  assumes "claimsWf (waiverClaims (stState s))" "moveClaim t cid direction ok s = (Inr moved, s')"
  shows "claimsWf (waiverClaims (stState s'))"
proof -
  obtain cs idx where norm: "normalizeTeamClaimPriorities (waiverClaims (stState s)) t = (cs, idx)" by force
  note ni = normalized_indices [OF norm]
  have all: "\<forall>u. prioritiesNormal cs u"
    unfolding ni(5) using assms(1) by (intro normalize_all_normal) (simp add: claimsWf_def)
  have same: "map unranked cs = map unranked (waiverClaims (stState s))" unfolding ni(5) by (rule normalize_unranked)
  obtain p where p: "p < length idx" "moved \<longleftrightarrow> (if direction = ''down'' then Suc p < length idx else 0 < p)"
    and res: "waiverClaims (stState s') = (if moved
       then swapPriorities (idx ! p) (idx ! (if direction = ''down'' then Suc p else p - 1)) cs else cs)"
    by (rule move_success [OF assms(2) norm])
  let ?q = "if direction = ''down'' then Suc p else p - 1"
  have "map unranked (waiverClaims (stState s')) = map unranked (waiverClaims (stState s)) \<and>
    (\<forall>u. prioritiesNormal (waiverClaims (stState s')) u)"
  proof (cases moved)
    case False
    then show ?thesis using res same all by simp
  next
    case True
    have q: "?q < length idx" "p \<noteq> ?q" using True p by (auto split: if_splits)
    have ab: "idx ! p < length cs" "idx ! ?q < length cs" "idx ! p \<noteq> idx ! ?q"
      using ni(1,2) p(1) q nth_mem [of p idx] nth_mem [of ?q idx] by (auto simp: nth_eq_iff_index_eq)
    show ?thesis
      using swap_nth(3) [OF ab] swap_normal [OF ni(1,2) p(1) q all] res same True by simp
  qed
  then show ?thesis using assms(1) unranked_maps [of "waiverClaims (stState s')" "waiverClaims (stState s)"]
    unfolding claimsWf_def by metis
qed

lemma run_wf:
  assumes "claimsWf (waiverClaims (stState s))" "processWaivers env ri ok s = (Inr results, s')"
  shows "claimsWf (waiverClaims (stState s'))"
proof (cases "waiverClaims (stState s) = []")
  case True
  then have "waiverClaims (stState s') = []" using assms(2) by (auto simp: processWaivers_def store_outcomes)
  then show ?thesis using assms(1) True by simp
next
  case False
  let ?open = "map (leftOpen ri) (filter (openClaim ri (stState s)) (waiverClaims (stState s)))"
  obtain st1 where s': "waiverClaims (stState s') = normalizeAllClaimPriorities ?open"
    using processWaivers_success [OF assms(2) False]
    by (metis (no_types, lifting) persisted_state.select_convs(19) persisted_state.surjective
      persisted_state.update_convs(19) persisted_state.update_convs(21))
  have ids: "claimID (leftOpen ri c) = claimID c" "claimTeamID (leftOpen ri c) = claimTeamID c"
    "claimAddID (leftOpen ri c) = claimAddID c" for c by (simp_all add: leftOpen_def)
  have "distinct (map claimID ?open)" "distinct (map (\<lambda>c. (claimTeamID c, claimAddID c)) ?open)"
    using assms(1) by (simp_all add: claimsWf_def ids comp_def distinct_map_filter)
  then show ?thesis unfolding s' claimsWf_def
    using normalizeAll_spec [of ?open] unranked_maps [OF normalizeAll_spec(1) [of ?open]] by metis
qed

section \<open>The waiver machine\<close>

text \<open>Every call of a waiver mutator, successful or not, is a step of the machine.\<close>

inductive waiver_step :: "league_env \<Rightarrow> store \<Rightarrow> store \<Rightarrow> bool" for env where
  file_claim: "fileClaimWithAuthority env c games pool now ok s = (r, s') \<Longrightarrow> waiver_step env s s'"
| cancel_claim: "cancelClaim t cid ok s = (r, s') \<Longrightarrow> waiver_step env s s'"
| move_claim: "moveClaim t cid direction ok s = (r, s') \<Longrightarrow> waiver_step env s s'"
| run_waivers: "processWaivers env ri ok s = (r, s') \<Longrightarrow> waiver_step env s s'"

lemma waiver_step_wf:
  assumes "waiver_step env s s'" "claimsWf (waiverClaims (stState s))"
  shows "claimsWf (waiverClaims (stState s'))"
  using assms(1)
proof cases
  case (file_claim c games pool now ok r)
  show ?thesis
  proof (cases r)
    case (Inl e)
    then show ?thesis using file_op.error_keeps_state file_claim assms(2) by metis
  next
    case (Inr u)
    note ok = file_success [OF file_claim [unfolded Inr]]
    show ?thesis unfolding ok(1) fileClaimState_claims
      using filed_wf [OF assms(2)] fileGuard_None [OF ok(2)] by blast
  qed
next
  case (cancel_claim t cid ok r)
  show ?thesis
  proof (cases r)
    case (Inl e)
    then show ?thesis using cancel_op.error_keeps_state cancel_claim assms(2) by metis
  next
    case (Inr u)
    show ?thesis using cancel_success [OF cancel_claim [unfolded Inr]] cancelled_wf [OF assms(2)] assms(2) by auto
  qed
next
  case (move_claim t cid direction ok r)
  then show ?thesis using move_op.error_keeps_state moved_wf [OF assms(2)] assms(2)
    by (cases r) (metis, blast)
next
  case (run_waivers ri ok r)
  then show ?thesis using waiver_run.error_keeps_state run_wf [OF assms(2)] assms(2)
    by (cases r) (metis, blast)
qed

section \<open>Properties\<close>

text \<open>C15: The claim list stays well formed under every sequence of filings, cancellations, moves and
  waiver runs, failed ones included: claim IDs are unique, a team holds at most one claim per player,
  and every team's priorities are 1 to the number of its claims, each once.\<close>

theorem waiver_machine_invariant:
  assumes "(waiver_step env)\<^sup>*\<^sup>* s s'" "claimsWf (waiverClaims (stState s))"
  shows "claimsWf (waiverClaims (stState s'))"
  using assms by (induction rule: rtranclp_induct) (auto intro: waiver_step_wf)

text \<open>A filed claim goes to the end of its team's private order, names a player nobody owns and
  the team had no claim on, drops only a player of the team, keeps the team within the open-claim
  cap, and leaves every other team's claims alone.\<close>

theorem filed_claim_sound:
  assumes "fileClaimWithAuthority env c games pool now ok s = (Inr r, s')"
  shows "waiverClaims (stState s') = fst (normalizeTeamClaimPriorities (waiverClaims (stState s)) (claimTeamID c)) @
      [c\<lparr>claimPriority := teamOpenClaimCount (waiverClaims (stState s)) (claimTeamID c) + 1\<rparr>] \<and>
    ownerOf (stState s) (claimAddID c) = [] \<and>
    (claimDropID c \<noteq> [] \<longrightarrow> ownerOf (stState s) (claimDropID c) = claimTeamID c) \<and>
    teamOpenClaimCount (waiverClaims (stState s')) (claimTeamID c) \<le> maxOpenClaimsPerTeam env \<and>
    (\<forall>u. u \<noteq> claimTeamID c \<longrightarrow> claimsOf (waiverClaims (stState s')) u = claimsOf (waiverClaims (stState s)) u)"
proof -
  note ok = file_success [OF assms]
  note guard = fileGuard_None [OF ok(2)]
  let ?old = "waiverClaims (stState s)" and ?t = "claimTeamID c"
  let ?cs = "fst (normalizeTeamClaimPriorities ?old ?t)"
  have count: "teamOpenClaimCount ?old ?t = int (length (claimsOf ?old ?t))"
    by (simp add: teamOpenClaimCount_def claimsOf_def)
  have new: "waiverClaims (stState s') = ?cs @ [c\<lparr>claimPriority := teamOpenClaimCount ?old ?t + 1\<rparr>]"
    unfolding ok(1) fileClaimState_claims count by simp
  have "map claimTeamID ?cs = map claimTeamID ?old" by (rule unranked_maps(2) [OF normalize_unranked])
  then have "length (filter (\<lambda>u. u = ?t) (map claimTeamID ?cs)) = length (filter (\<lambda>u. u = ?t) (map claimTeamID ?old))" by simp
  then have "teamOpenClaimCount ?cs ?t = teamOpenClaimCount ?old ?t"
    by (simp add: teamOpenClaimCount_def filter_map comp_def)
  then have "teamOpenClaimCount (waiverClaims (stState s')) ?t \<le> maxOpenClaimsPerTeam env"
    unfolding new using guard(3) by (simp add: teamOpenClaimCount_def)
  moreover have "claimsOf (waiverClaims (stState s')) u = claimsOf ?old u" if "u \<noteq> ?t" for u
    unfolding new claimsOf_append using normalize_other [OF that, of ?old] that by (simp add: claimsOf_def)
  ultimately show ?thesis using new guard by blast
qed

text \<open>Whatever a team files, cancels and files again, the log of its accepted filings never holds
  more than sixty instants of the last hour; the sixty-first attempt in that window is refused.\<close>

theorem filing_rate_bounded:
  assumes "now \<noteq> 0"
  shows "(fileClaimWithAuthority env c games pool now ok s = (Inr r, s') \<longrightarrow>
      length (stFilingLog s' (claimTeamID c)) \<le> 60 \<and> last (stFilingLog s' (claimTeamID c)) = now \<and>
      stFilingLog s' (claimTeamID c) \<noteq> []) \<and>
    (knownTeam env (claimTeamID c) \<longrightarrow> \<not> stWriteError s \<longrightarrow>
     60 \<le> length (filter (\<lambda>filed. now - hour < filed) (stFilingLog s (claimTeamID c))) \<longrightarrow>
     fst (fileClaimWithAuthority env c games pool now ok s) = Inl (Rejected TooManyFilings))"
proof -
  have "length (stFilingLog s' (claimTeamID c)) \<le> 60 \<and> last (stFilingLog s' (claimTeamID c)) = now \<and>
      stFilingLog s' (claimTeamID c) \<noteq> []"
    if "fileClaimWithAuthority env c games pool now ok s = (Inr r, s')"
    using file_success(4,5) [OF that] assms by (simp add: waiverFilingRateLimit_def)
  moreover have "fst (fileClaimWithAuthority env c games pool now ok s) = Inl (Rejected TooManyFilings)"
    if "knownTeam env (claimTeamID c)" "\<not> stWriteError s"
      "60 \<le> length (filter (\<lambda>filed. now - hour < filed) (stFilingLog s (claimTeamID c)))"
    using that assms
    by (simp add: fileClaimWithAuthority_def gated_def rejected_def allowWaiverFiling_def prunedFilings_def
        waiverFilingRateWindow_def waiverFilingRateLimit_def Let_def)
  ultimately show ?thesis by blast
qed

text \<open>Moving a claim up changes the private order of one team by one place: the named claim and
  the team's claim just before it swap priorities, and nothing else of the normalized list changes.\<close>

theorem move_claim_swaps:
  assumes "moveClaim t cid ''up'' ok s = (Inr True, s1)"
  defines "cs \<equiv> fst (normalizeTeamClaimPriorities (waiverClaims (stState s)) t)"
  shows "\<exists>i j. i < length cs \<and> j < length cs \<and> claimID (cs ! i) = cid \<and> claimTeamID (cs ! j) = t \<and>
    claimPriority (cs ! i) = claimPriority (cs ! j) + 1 \<and>
    waiverClaims (stState s1) = cs[i := (cs ! i)\<lparr>claimPriority := claimPriority (cs ! j)\<rparr>,
      j := (cs ! j)\<lparr>claimPriority := claimPriority (cs ! i)\<rparr>]"
proof -
  obtain idx where norm: "normalizeTeamClaimPriorities (waiverClaims (stState s)) t = (cs, idx)"
    by (simp add: cs_def prod_eq_iff)
  note ni = normalized_indices [OF norm]
  obtain p where p: "p < length idx" "claimID (cs ! (idx ! p)) = cid" "0 < p"
    and res: "waiverClaims (stState s1) = swapPriorities (idx ! p) (idx ! (p - 1)) cs"
    by (rule move_success [OF assms(1) norm]) simp
  have q: "p - 1 < length idx" "p \<noteq> p - 1" using p by auto
  have ab: "idx ! p < length cs" "idx ! (p - 1) < length cs" "idx ! p \<noteq> idx ! (p - 1)"
    using ni(1,2) p(1) q nth_mem [of p idx] nth_mem [of "p - 1" idx] by (auto simp: nth_eq_iff_index_eq)
  have t: "claimTeamID (cs ! (idx ! (p - 1))) = t" using ni(2) nth_mem [OF q(1)] by auto
  have pr: "claimPriority (cs ! (idx ! p)) = claimPriority (cs ! (idx ! (p - 1))) + 1"
    using ni(4) [OF p(1)] ni(4) [OF q(1)] p(3) by simp
  show ?thesis
    by (intro exI [of _ "idx ! p"] exI [of _ "idx ! (p - 1)"] conjI)
      (use ab p(2) t pr res in \<open>simp_all add: swapPriorities_def Let_def\<close>)
qed

section \<open>Witnesses\<close>

definition filedOnce :: "(store, claim_error, unit) outcome" where
  "filedOnce = fileClaimWithAuthority sampleEnv (sampleClaim ''c9'' ''a'' ''p9'' ''p2'' 3 0 50) [] (Some samplePool) 50 True
     (sampleStore sampleRosterState)"

lemma filedOnce_succeeds: "succeeded filedOnce"
  by code_simp

lemma filedOnce_result: obtains s' where
  "fileClaimWithAuthority sampleEnv (sampleClaim ''c9'' ''a'' ''p9'' ''p2'' 3 0 50) [] (Some samplePool) 50 True
     (sampleStore sampleRosterState) = (Inr (), s')" "snd filedOnce = s'"
  using filedOnce_succeeds by (cases filedOnce) (auto simp: filedOnce_def elim: succeeded.elims)

theorem waiver_machine_invariant_witness: "claimsWf (waiverClaims (stState (snd filedOnce)))"
proof -
  obtain s' where r: "fileClaimWithAuthority sampleEnv (sampleClaim ''c9'' ''a'' ''p9'' ''p2'' 3 0 50) []
      (Some samplePool) 50 True (sampleStore sampleRosterState) = (Inr (), s')" and s': "snd filedOnce = s'"
    by (rule filedOnce_result)
  have "(waiver_step sampleEnv)\<^sup>*\<^sup>* (sampleStore sampleRosterState) s'"
    using r by (blast intro: waiver_step.intros)
  moreover have "claimsWf (waiverClaims (stState (sampleStore sampleRosterState)))"
    by (simp add: sampleStore_def sampleRosterState_def freshState_def claimsWf_def prioritiesNormal_def claimsOf_def)
  ultimately show ?thesis unfolding s' by (rule waiver_machine_invariant)
qed

theorem filed_claim_sound_witness:
  "teamOpenClaimCount (waiverClaims (stState (snd filedOnce))) ''a'' \<le> maxOpenClaimsPerTeam sampleEnv"
proof -
  obtain s' where r: "fileClaimWithAuthority sampleEnv (sampleClaim ''c9'' ''a'' ''p9'' ''p2'' 3 0 50) []
      (Some samplePool) 50 True (sampleStore sampleRosterState) = (Inr (), s')" and s': "snd filedOnce = s'"
    by (rule filedOnce_result)
  from filed_claim_sound [OF r] have "teamOpenClaimCount (waiverClaims (stState s'))
      (claimTeamID (sampleClaim ''c9'' ''a'' ''p9'' ''p2'' 3 0 50)) \<le> maxOpenClaimsPerTeam sampleEnv" by blast
  then show ?thesis unfolding s' by (simp add: sampleClaim_def)
qed

theorem filing_rate_bounded_witness: "length (stFilingLog (snd filedOnce) ''a'') \<le> 60"
proof -
  obtain s' where r: "fileClaimWithAuthority sampleEnv (sampleClaim ''c9'' ''a'' ''p9'' ''p2'' 3 0 50) []
      (Some samplePool) 50 True (sampleStore sampleRosterState) = (Inr (), s')" and s': "snd filedOnce = s'"
    by (rule filedOnce_result)
  have "(50 :: time) \<noteq> 0" by simp
  from filing_rate_bounded [OF this] r have "length (stFilingLog s' (claimTeamID (sampleClaim ''c9'' ''a'' ''p9'' ''p2'' 3 0 50))) \<le> 60"
    by blast
  then show ?thesis unfolding s' by (simp add: sampleClaim_def)
qed

definition twoClaims :: store where
  "twoClaims = sampleStore (sampleRosterState\<lparr>waiverClaims := [sampleClaim ''c1'' ''a'' ''p9'' [] 3 1 50,
     sampleClaim ''c2'' ''a'' ''p8'' [] 3 2 51]\<rparr>)"

theorem move_claim_swaps_witness:
  "map claimPriority (waiverClaims (stState (snd (moveClaim ''a'' ''c2'' ''up'' True twoClaims)))) = [2, 1]"
proof -
  have "fst (moveClaim ''a'' ''c2'' ''up'' True twoClaims) = Inr True" by code_simp
  then obtain s1 where m: "moveClaim ''a'' ''c2'' ''up'' True twoClaims = (Inr True, s1)"
    by (cases "moveClaim ''a'' ''c2'' ''up'' True twoClaims") auto
  have cs: "fst (normalizeTeamClaimPriorities (waiverClaims (stState twoClaims)) ''a'') =
      [sampleClaim ''c1'' ''a'' ''p9'' [] 3 1 50, sampleClaim ''c2'' ''a'' ''p8'' [] 3 2 51]" by code_simp
  from move_claim_swaps [OF m] show ?thesis unfolding cs m
    by (auto simp: sampleClaim_def less_Suc_eq numeral_2_eq_2 nth_Cons')
qed

end
