(* ===== verification/TradeRules.thy ===== *)
theory TradeRules
  imports Claims
begin

text \<open>
  The rules of a trade (src/internal/league/trades.go): the deadline and expiry instants, the
  statuses, and the single content validation that proposing, countering, accepting and executing
  share.
\<close>

section \<open>time.Parse with the RFC3339 layout\<close>

text \<open>
  The steps of time.Parse for this layout: four digits of year, two of month and day, one or two of
  hour, two of minute and second, an optional fraction of which nine digits count, and Z or a signed
  offset.
\<close>

definition takeDigits :: "nat \<Rightarrow> string \<Rightarrow> (int \<times> string) option" where
  "takeDigits n s = (if n \<le> length s \<and> list_all isDigit (take n s)
     then Some (int (decValue (take n s)), drop n s) else None)"

definition takeHour :: "string \<Rightarrow> (int \<times> string) option" where
  "takeHour s = (case takeDigits 2 s of Some r \<Rightarrow> Some r | None \<Rightarrow> takeDigits 1 s)"

definition skipChar :: "char \<Rightarrow> string \<Rightarrow> string option" where
  "skipChar c s = (case s of [] \<Rightarrow> None | x # xs \<Rightarrow> if x = c then Some xs else None)"

definition takeFraction :: "string \<Rightarrow> int \<times> string" where
  "takeFraction s = (case s of
     c # d # rest \<Rightarrow>
       (if (c = CHR ''.'' \<or> c = CHR '','') \<and> isDigit d
        then let ds = takeWhile isDigit (d # rest); nine = take 9 ds
             in (int (decValue nine) * 10 ^ (9 - length nine), drop (length ds) (d # rest))
        else (0, s))
   | _ \<Rightarrow> (0, s))"

definition takeZone :: "string \<Rightarrow> (duration \<times> string) option" where
  "takeZone s = (case s of [] \<Rightarrow> None
     | c # rest \<Rightarrow>
         if c = CHR ''Z'' then Some (0, rest)
         else if c = CHR ''+'' \<or> c = CHR ''-'' then
           Option.bind (takeDigits 2 rest) (\<lambda>(h, r1). Option.bind (skipChar CHR '':'' r1) (\<lambda>r2.
             Option.bind (takeDigits 2 r2) (\<lambda>(m, r3).
               if h > 24 \<or> m > 60 then None
               else Some ((if c = CHR ''-'' then - 1 else 1) * (h * hour + m * minute), r3))))
         else None)"

definition leapYear :: "int \<Rightarrow> bool" where
  "leapYear y = (y mod 4 = 0 \<and> (y mod 100 \<noteq> 0 \<or> y mod 400 = 0))"

definition monthLengths :: "int \<Rightarrow> int list" where
  "monthLengths y = [31, if leapYear y then 29 else 28, 31, 30, 31, 30, 31, 31, 30, 31, 30, 31]"

definition dayNumber :: "int \<Rightarrow> int \<Rightarrow> int \<Rightarrow> int" where
  "dayNumber y m d = 365 * (y - 1) + (y - 1) div 4 - (y - 1) div 100 + (y - 1) div 400 +
     sum_list (take (nat (m - 1)) (monthLengths y)) + d - 1"

definition parseRFC3339 :: "string \<Rightarrow> time option" where
  "parseRFC3339 s =
     Option.bind (takeDigits 4 s) (\<lambda>(y, r1). Option.bind (skipChar CHR ''-'' r1) (\<lambda>r2.
     Option.bind (takeDigits 2 r2) (\<lambda>(mo, r3). Option.bind (skipChar CHR ''-'' r3) (\<lambda>r4.
     Option.bind (takeDigits 2 r4) (\<lambda>(d, r5). Option.bind (skipChar CHR ''T'' r5) (\<lambda>r6.
     Option.bind (takeHour r6) (\<lambda>(h, r7). Option.bind (skipChar CHR '':'' r7) (\<lambda>r8.
     Option.bind (takeDigits 2 r8) (\<lambda>(mi, r9). Option.bind (skipChar CHR '':'' r9) (\<lambda>r10.
     Option.bind (takeDigits 2 r10) (\<lambda>(sec, r11).
     case takeFraction r11 of (nsec, r12) \<Rightarrow>
     Option.bind (takeZone r12) (\<lambda>(off, r13).
       if r13 \<noteq> [] \<or> mo < 1 \<or> mo > 12 \<or> h > 23 \<or> mi > 59 \<or> sec > 59 \<or> d < 1 \<or>
          d > monthLengths y ! nat (mo - 1) then None
       else Some (dayNumber y mo d * dayLength + h * hour + mi * minute + sec * second + nsec - off)))))))))))))"

section \<open>Deadline and expiry\<close>

definition parseTradeDeadline :: "league_config \<Rightarrow> time option" where
  "parseTradeDeadline cfg =
     (let deadline = trimSpace (cfgTradeDeadline cfg)
      in if deadline = [] then None else parseRFC3339 deadline)"

definition tradeDeadlineState :: "league_config \<Rightarrow> time \<Rightarrow> time \<times> bool \<times> bool" where
  "tradeDeadlineState cfg now =
     (case parseTradeDeadline cfg of None \<Rightarrow> (0, False, False)
      | Some deadline \<Rightarrow> (deadline, True, \<not> now < deadline))"

definition tradeOfferMaxAge :: duration where "tradeOfferMaxAge = 7 * 24 * hour"

definition tradeOfferExpiryAt :: "league_config \<Rightarrow> time \<Rightarrow> time option" where
  "tradeOfferExpiryAt cfg createdAt =
     (if isZero createdAt then None
      else
        let expiresAt = createdAt + tradeOfferMaxAge
        in case parseTradeDeadline cfg of
             Some deadline \<Rightarrow> if deadline < expiresAt then Some deadline else Some expiresAt
           | None \<Rightarrow> Some expiresAt)"

definition tradeVetoThreshold :: "int \<Rightarrow> int" where
  "tradeVetoThreshold seatCount = (if seatCount < 2 then 0 else (seatCount - 1) div 2)"

definition tradeStatusTerminal :: "trade_status \<Rightarrow> bool" where
  "tradeStatusTerminal s = (case s of TOpen \<Rightarrow> False | TAccepted \<Rightarrow> False | _ \<Rightarrow> True)"

fun cleanLoop :: "string list \<Rightarrow> string list \<Rightarrow> string list" where
  "cleanLoop seen [] = []"
| "cleanLoop seen (raw # ids) =
     (let i = trimSpace raw in
      if i = [] \<or> i \<in> set seen then cleanLoop seen ids else i # cleanLoop (i # seen) ids)"

definition cleanTradePlayerIDs :: "string list \<Rightarrow> string list" where
  "cleanTradePlayerIDs ids = cleanLoop [] ids"

definition findTradeOffer :: "trade_offer list \<Rightarrow> string \<Rightarrow> trade_offer option" where
  "findTradeOffer offers i = find (\<lambda>o'. offerID o' = i) offers"

definition tradePerspective :: "trade_offer \<Rightarrow> team_id \<Rightarrow> player_id list \<times> player_id list" where
  "tradePerspective offer t = (if t = offerFrom offer then (offerGet offer, offerGive offer)
     else (offerGive offer, offerGet offer))"

definition teamNameByID :: "league_env \<Rightarrow> persisted_state \<Rightarrow> team_id \<Rightarrow> string" where
  "teamNameByID env st i =
     (let override = trimSpace (teamNames st i) in
      if override \<noteq> [] then override
      else case find (\<lambda>t. teamID t = i) (envTeams env) of Some t \<Rightarrow> teamName t | None \<Rightarrow> i)"

section \<open>Content validation\<close>

text \<open>
  The inputs every trade mutator takes: the configuration, the schedule mirror, the player lookup
  (tiPoolEmpty says its map has no entries), the instant, and the roster bounds.
\<close>

record trade_input =
  tiConfig :: league_config
  tiGames :: "game_info list"
  tiPool :: "player_id \<Rightarrow> player option"
  tiPoolEmpty :: bool
  tiNow :: time
  tiStarters :: int
  tiCap :: int

definition validateTradeAsset :: "persisted_state \<Rightarrow> trade_input \<Rightarrow> int \<Rightarrow> player_id \<Rightarrow> team_id \<Rightarrow> string \<Rightarrow> trade_error option" where
  "validateTradeAsset st ti week p expected name =
     (case tiPool ti p of
        None \<Rightarrow> Some (AssetUnknown p)
      | Some pl \<Rightarrow>
          if ownerOf st p \<noteq> expected then Some (AssetNotOwned (playerName pl) name)
          else if playerLockedForRosterMutation st (tiGames ti) week (playerNFLTeam pl) (tiNow ti)
          then Some (AssetLocked (playerName pl)) else None)"

definition countInZone :: "persisted_state \<Rightarrow> team_id \<Rightarrow> player_id list \<Rightarrow> zone_kind \<Rightarrow> int" where
  "countInZone st t ids zone = int (length (filter (\<lambda>p. zoneOfPlayer st t p = Some zone) ids))"

datatype trade_operation = ValidateMutation | ValidateExecution

text \<open>The effective size of one side after the trade.\<close>

definition sideAfter :: "persisted_state \<Rightarrow> team_id \<Rightarrow> player_id list \<Rightarrow> player_id list \<Rightarrow> int" where
  "sideAfter st t outgoing incoming =
     effectiveRosterSize st t - (int (length outgoing) - countInZone st t outgoing ZoneIR) + int (length incoming)"

definition validateTradeAssetsForOperation :: "league_env \<Rightarrow> persisted_state \<Rightarrow> trade_input \<Rightarrow> trade_offer \<Rightarrow>
    trade_operation \<Rightarrow> trade_error option" where
  "validateTradeAssetsForOperation env st ti offer operation =
     (let from' = offerFrom offer; to' = offerTo offer; give = offerGive offer; get = offerGet offer;
          week = lineupCurrentWeekAt (tiGames ti) (tiNow ti);
          fromName = teamNameByID env st from'; toName = teamNameByID env st to';
          outside = (\<lambda>n. n < tiStarters ti \<or> n > tiCap ti);
          fromNext = sideAfter st from' give get; toNext = sideAfter st to' get give
      in if tiPoolEmpty ti then Some PlayerDataUnavailable
         else if offerPicks offer \<noteq> [] then Some PicksNotTradable
         else if give = [] \<or> get = [] then Some EmptyTradeSide
         else case firstError (\<lambda>p. validateTradeAsset st ti week p from' fromName) give of Some e \<Rightarrow> Some e
         | None \<Rightarrow> (case firstError (\<lambda>p. validateTradeAsset st ti week p to' toName) get of Some e \<Rightarrow> Some e
         | None \<Rightarrow>
            if outside fromNext then Some (TradeRosterSize fromName fromNext (tiStarters ti) (tiCap ti))
            else if outside toNext then Some (TradeRosterSize toName toNext (tiStarters ti) (tiCap ti))
            else (case teamWouldBreachLimit env st (tiPool ti) from' get give of
                Some (pos, n) \<Rightarrow> Some (TradePositionLimit pos n)
              | None \<Rightarrow> (case teamWouldBreachLimit env st (tiPool ti) to' give get of
                  Some (pos, n) \<Rightarrow> Some (TradePositionLimit pos n)
                | None \<Rightarrow>
                    if operation \<noteq> ValidateExecution then
                      (case parseTradeDeadline (tiConfig ti) of
                         Some deadline \<Rightarrow> if \<not> tiNow ti < deadline then Some (DeadlinePassed deadline) else None
                       | None \<Rightarrow> None)
                    else None))))"

definition validateTradeAssets :: "league_env \<Rightarrow> persisted_state \<Rightarrow> trade_input \<Rightarrow> trade_offer \<Rightarrow> trade_error option" where
  "validateTradeAssets env st ti offer = validateTradeAssetsForOperation env st ti offer ValidateMutation"

definition validateTradeAssetsForExecution :: "league_env \<Rightarrow> persisted_state \<Rightarrow> trade_input \<Rightarrow> trade_offer \<Rightarrow> trade_error option" where
  "validateTradeAssetsForExecution env st ti offer = validateTradeAssetsForOperation env st ti offer ValidateExecution"

text \<open>errors.Is(err, ErrTradeAssetLocked): the one execution failure that is retried.\<close>

definition assetLocked :: "trade_error \<Rightarrow> bool" where
  "assetLocked e = (case e of AssetLocked _ \<Rightarrow> True | _ \<Rightarrow> False)"

text \<open>transactionPlayersFromIDs fails at the first ID the pool does not know.\<close>

fun transactionPlayersFromIDs :: "(player_id \<Rightarrow> player option) \<Rightarrow> player_id list \<Rightarrow> trade_error + txn_player list" where
  "transactionPlayersFromIDs pool [] = Inr []"
| "transactionPlayersFromIDs pool (p # ps) =
     (case pool p of None \<Rightarrow> Inl (ExecutionBlocked p)
      | Some pl \<Rightarrow> (case transactionPlayersFromIDs pool ps of
          Inl e \<Rightarrow> Inl e | Inr txns \<Rightarrow> Inr (transactionPlayerFromPlayer pl # txns)))"

section \<open>What the validation establishes\<close>

lemma asset_ok:
  "validateTradeAsset st ti week p t name = None \<longleftrightarrow>
     (\<exists>pl. tiPool ti p = Some pl \<and> ownerOf st p = t \<and>
        \<not> playerLockedForRosterMutation st (tiGames ti) week (playerNFLTeam pl) (tiNow ti))"
  by (auto simp: validateTradeAsset_def split: option.splits)

lemma validated:
  assumes "validateTradeAssetsForOperation env st ti offer op = None"
  shows "offerGive offer \<noteq> []" "offerGet offer \<noteq> []" "offerPicks offer = []" "\<not> tiPoolEmpty ti"
    "p \<in> set (offerGive offer) \<Longrightarrow> tiPool ti p \<noteq> None \<and> ownerOf st p = offerFrom offer"
    "p \<in> set (offerGet offer) \<Longrightarrow> tiPool ti p \<noteq> None \<and> ownerOf st p = offerTo offer"
    "tiStarters ti \<le> sideAfter st (offerFrom offer) (offerGive offer) (offerGet offer)"
    "sideAfter st (offerFrom offer) (offerGive offer) (offerGet offer) \<le> tiCap ti"
    "tiStarters ti \<le> sideAfter st (offerTo offer) (offerGet offer) (offerGive offer)"
    "sideAfter st (offerTo offer) (offerGet offer) (offerGive offer) \<le> tiCap ti"
    "op = ValidateMutation \<Longrightarrow> parseTradeDeadline (tiConfig ti) = Some deadline \<Longrightarrow> tiNow ti < deadline"
  using assms
  by (auto simp: validateTradeAssetsForOperation_def Let_def firstError_None asset_ok split: if_splits option.splits)

lemma players_from_ids:
  "transactionPlayersFromIDs pool ids = Inr txns \<Longrightarrow> poolKeyed pool \<Longrightarrow> map tpPlayerID txns = ids"
  by (induction ids arbitrary: txns) (auto simp: poolKeyed_def split: option.splits sum.splits)

lemma players_known: "\<forall>p\<in>set ids. pool p \<noteq> None \<Longrightarrow> \<exists>txns. transactionPlayersFromIDs pool ids = Inr txns"
  by (induction ids) (auto split: option.splits)

end
