(* ===== verification/Trades.thy ===== *)
theory Trades
  imports TradeRules
begin

text \<open>
  The life of a trade offer (src/internal/league/store.go, the TradeOffer mutators; trades.go, the
  Service actions around them; rosterops.go, evalTradeTick). None of the store mutators restores the
  state after a failed persist. A Service action validates against a snapshot taken earlier and the
  store mutator validates again under the lock, so every action takes both the snapshot and the
  store.
\<close>

section \<open>Store mutators\<close>

definition offerIndex :: "persisted_state \<Rightarrow> string \<Rightarrow> nat option" where
  "offerIndex st i = indexWhere (\<lambda>o'. offerID o' = i) (tradeOffers st)"

text \<open>The index of an offer with the wanted status, and the offer.\<close>

definition offerWith :: "persisted_state \<Rightarrow> string \<Rightarrow> trade_status \<Rightarrow> (nat \<times> trade_offer) option" where
  "offerWith st i status =
     (case offerIndex st i of None \<Rightarrow> None
      | Some k \<Rightarrow> if offerStatus (tradeOffers st ! k) = status then Some (k, tradeOffers st ! k) else None)"

definition setOffer :: "nat \<Rightarrow> trade_offer \<Rightarrow> persisted_state \<Rightarrow> persisted_state" where
  "setOffer k offer st = st\<lparr>tradeOffers := (tradeOffers st)[k := offer]\<rparr>"

definition appendOffer :: "trade_offer \<Rightarrow> persisted_state \<Rightarrow> persisted_state" where
  "appendOffer offer st = st\<lparr>tradeOffers := tradeOffers st @ [offer]\<rparr>"

definition resolveOffer :: "trade_status \<Rightarrow> time \<Rightarrow> trade_offer \<Rightarrow> trade_offer" where
  "resolveOffer status now offer = offer\<lparr>offerStatus := status, offerResolvedAt := now\<rparr>"

definition proposeTradeOffer :: "league_env \<Rightarrow> trade_input \<Rightarrow> trade_offer \<Rightarrow> bool \<Rightarrow> store \<Rightarrow> (store, trade_error, unit) outcome" where
  "proposeTradeOffer env ti offer persistOK s = gated s
     (if \<not> knownTeam env (offerFrom offer) \<or> \<not> knownTeam env (offerTo offer) then rejected TradeUnknownTeam s
      else case validateTradeAssets env (stState s) (ti\<lparr>tiNow := offerCreatedAt offer\<rparr>) offer of
        Some e \<Rightarrow> rejected e s
      | None \<Rightarrow> commitOnly persistOK s (appendOffer offer (stState s)) ())"

definition counterTradeOffer :: "league_env \<Rightarrow> string \<Rightarrow> trade_offer \<Rightarrow> trade_input \<Rightarrow> bool \<Rightarrow> store \<Rightarrow> (store, trade_error, unit) outcome" where
  "counterTradeOffer env originalID newOffer ti persistOK s = gated s
     (case offerWith (stState s) originalID TOpen of
        None \<Rightarrow> rejected OfferNotOpen s
      | Some (k, original) \<Rightarrow>
          (case validateTradeAssets env (stState s) ti newOffer of
             Some e \<Rightarrow> rejected e s
           | None \<Rightarrow> commitOnly persistOK s
               (appendOffer newOffer (setOffer k (resolveOffer TCountered (tiNow ti) original) (stState s))) ()))"

definition closeOpenOffer :: "trade_status \<Rightarrow> string \<Rightarrow> time \<Rightarrow> bool \<Rightarrow> store \<Rightarrow> (store, trade_error, unit) outcome" where
  "closeOpenOffer status i now persistOK s = gated s
     (case offerWith (stState s) i TOpen of
        None \<Rightarrow> rejected OfferNotOpen s
      | Some (k, offer) \<Rightarrow> commitOnly persistOK s (setOffer k (resolveOffer status now offer) (stState s)) ())"

definition declineTradeOffer :: "string \<Rightarrow> time \<Rightarrow> bool \<Rightarrow> store \<Rightarrow> (store, trade_error, unit) outcome" where
  "declineTradeOffer = closeOpenOffer TDeclined"

definition withdrawTradeOffer :: "string \<Rightarrow> time \<Rightarrow> bool \<Rightarrow> store \<Rightarrow> (store, trade_error, unit) outcome" where
  "withdrawTradeOffer = closeOpenOffer TWithdrawn"

definition acceptTradeOffer :: "league_env \<Rightarrow> string \<Rightarrow> trade_input \<Rightarrow> bool \<Rightarrow> store \<Rightarrow> (store, trade_error, unit) outcome" where
  "acceptTradeOffer env i ti persistOK s = gated s
     (case offerWith (stState s) i TOpen of
        None \<Rightarrow> rejected OfferNotOpen s
      | Some (k, offer) \<Rightarrow>
          (case validateTradeAssets env (stState s) ti offer of
             Some e \<Rightarrow> rejected e s
           | None \<Rightarrow> commitOnly persistOK s
               (setOffer k (offer\<lparr>offerStatus := TAccepted, offerAcceptedAt := tiNow ti\<rparr>) (stState s)) ()))"

definition tradeTxn :: "trade_input \<Rightarrow> trade_offer \<Rightarrow> string \<Rightarrow> txn_player list \<Rightarrow> txn_player list \<Rightarrow> transaction" where
  "tradeTxn ti offer newID adds drops' =
     \<lparr>txnID = newID, txnSeason = cfgSeason (tiConfig ti), txnWeek = lineupCurrentWeekAt (tiGames ti) (tiNow ti),
      txnType = TxnTrade, txnTeamID = offerFrom offer, txnOtherTeamID = offerTo offer, txnAdds = adds,
      txnDrops = drops', txnBid = 0, txnPosition = 0, txnOfferID = offerID offer, txnBy = ''manager'',
      txnNote = [], txnAt = tiNow ti\<rparr>"

definition executedState :: "trade_input \<Rightarrow> nat \<Rightarrow> trade_offer \<Rightarrow> transaction \<Rightarrow> persisted_state \<Rightarrow> persisted_state" where
  "executedState ti k offer txn st =
     clearZoneAssignments (offerTo offer) (offerGet offer)
       (clearZoneAssignments (offerFrom offer) (offerGive offer)
         (setOffer k (resolveOffer TExecuted (tiNow ti) offer) (appendTransaction txn st)))"

text \<open>
  ExecuteTradeOffer. A failed validation other than a lock is recorded on the offer and returned as
  the error, so this error comes with a changed state.
\<close>

definition executeTradeOffer :: "league_env \<Rightarrow> string \<Rightarrow> trade_input \<Rightarrow> string option \<Rightarrow> bool \<Rightarrow> store \<Rightarrow>
    (store, trade_error, transaction) outcome" where
  "executeTradeOffer env i ti newID persistOK s = gated s
     (case offerWith (stState s) i TAccepted of
        None \<Rightarrow> rejected NotUnderReview s
      | Some (k, offer) \<Rightarrow>
          if tiPoolEmpty ti then rejected PlayerDataUnavailable s
          else case validateTradeAssetsForExecution env (stState s) ti offer of
            Some e \<Rightarrow>
              if assetLocked e then rejected e s
              else (Inl (if persistOK then Rejected e else PersistFailed),
                s\<lparr>stState := setOffer k ((resolveOffer TFailed (tiNow ti) offer)\<lparr>offerFailReason := Some e\<rparr>) (stState s)\<rparr>)
          | None \<Rightarrow>
              (case newID of None \<Rightarrow> rejected TradeIDUnavailable s
               | Some tid \<Rightarrow>
                  (case transactionPlayersFromIDs (tiPool ti) (offerGet offer) of Inl e \<Rightarrow> rejected e s
                   | Inr adds \<Rightarrow>
                      (case transactionPlayersFromIDs (tiPool ti) (offerGive offer) of Inl e \<Rightarrow> rejected e s
                       | Inr drops' \<Rightarrow>
                          (let txn = tradeTxn ti offer tid adds drops'
                           in commitOnly persistOK s (executedState ti k offer txn (stState s)) txn)))))"

definition commissionerVetoTradeOffer :: "string \<Rightarrow> time \<Rightarrow> bool \<Rightarrow> store \<Rightarrow> (store, trade_error, unit) outcome" where
  "commissionerVetoTradeOffer i now persistOK s = gated s
     (case offerWith (stState s) i TAccepted of
        None \<Rightarrow> rejected NotUnderReview s
      | Some (k, offer) \<Rightarrow> commitOnly persistOK s (setOffer k (resolveOffer TVetoed now offer) (stState s)) ())"

definition fileTradeVetoOffer :: "string \<Rightarrow> team_id \<Rightarrow> time \<Rightarrow> int \<Rightarrow> bool \<Rightarrow> store \<Rightarrow> (store, trade_error, bool) outcome" where
  "fileTradeVetoOffer i t now threshold persistOK s = gated s
     (case offerWith (stState s) i TAccepted of
        None \<Rightarrow> rejected NotUnderReview s
      | Some (k, offer) \<Rightarrow>
          if t \<in> set (offerVetoes offer) then (Inr False, s)
          else
            let voted = offer\<lparr>offerVetoes := offerVetoes offer @ [t]\<rparr>;
                crossed = (int (length (offerVetoes voted)) \<ge> threshold)
            in commitOnly persistOK s
                 (setOffer k (if crossed then resolveOffer TVetoed now voted else voted) (stState s)) crossed)"

definition expireTradeOffer :: "string \<Rightarrow> league_config \<Rightarrow> time \<Rightarrow> bool \<Rightarrow> store \<Rightarrow> (store, trade_error, bool) outcome" where
  "expireTradeOffer i cfg now persistOK s = gated s
     (case offerWith (stState s) i TOpen of
        None \<Rightarrow> (Inr False, s)
      | Some (k, offer) \<Rightarrow>
          (let due = (case tradeOfferExpiryAt cfg (offerCreatedAt offer) of None \<Rightarrow> True | Some e \<Rightarrow> \<not> now < e)
           in if \<not> due then (Inr False, s)
              else commitOnly persistOK s (setOffer k (resolveOffer TExpired now offer) (stState s)) True))"

lemmas trade_mutators = proposeTradeOffer_def counterTradeOffer_def closeOpenOffer_def acceptTradeOffer_def
  commissionerVetoTradeOffer_def fileTradeVetoOffer_def expireTradeOffer_def

interpretation propose_op: gated_op "proposeTradeOffer env ti offer"
  by unfold_locales (auto simp: trade_mutators store_op_defs split: option.splits if_splits)

interpretation counter_op: gated_op "counterTradeOffer env i newOffer ti"
  by unfold_locales (auto simp: trade_mutators store_op_defs split: option.splits if_splits)

interpretation close_op: gated_op "closeOpenOffer status i now"
  by unfold_locales (auto simp: trade_mutators store_op_defs split: option.splits if_splits)

interpretation accept_op: gated_op "acceptTradeOffer env i ti"
  by unfold_locales (auto simp: trade_mutators store_op_defs split: option.splits if_splits)

interpretation veto_op: gated_op "commissionerVetoTradeOffer i now"
  by unfold_locales (auto simp: trade_mutators store_op_defs split: option.splits if_splits)

interpretation vote_op: gated_op "fileTradeVetoOffer i t now threshold"
  by unfold_locales (auto simp: trade_mutators store_op_defs Let_def split: option.splits if_splits)

interpretation expire_op: gated_op "expireTradeOffer i cfg now"
  by unfold_locales (auto simp: trade_mutators store_op_defs Let_def split: option.splits if_splits)

section \<open>The tick\<close>

text \<open>One offer of the tick's snapshot: it expires, executes, waits, or is left alone.\<close>

record tick_input = trade_input +
  tkPoolUnavailable :: bool
  tkNewID :: "string \<Rightarrow> string option"
  tkPersist :: "string \<Rightarrow> bool"

definition tickOffer :: "league_env \<Rightarrow> tick_input \<Rightarrow> trade_offer \<Rightarrow> store \<Rightarrow> store" where
  "tickOffer env tk offer s =
     (let now = tiNow tk; ok = tkPersist tk (offerID offer) in
      case offerStatus offer of
        TOpen \<Rightarrow> snd (expireTradeOffer (offerID offer) (tiConfig tk) now ok s)
      | TAccepted \<Rightarrow>
          if now < tradeExecutesAt (tiConfig tk) (offerAcceptedAt offer) then s
          else if tkPoolUnavailable tk then s
          else snd (executeTradeOffer env (offerID offer) (trade_input.truncate tk) (tkNewID tk (offerID offer)) ok s)
      | _ \<Rightarrow> s)"

definition evalTradeTick :: "league_env \<Rightarrow> tick_input \<Rightarrow> persisted_state \<Rightarrow> store \<Rightarrow> store" where
  "evalTradeTick env tk snap s =
     fold (tickOffer env (tk\<lparr>tiStarters := presetStarters (envRoster env), tiCap := presetTotal (envRoster env)\<rparr>))
       (tradeOffers snap) s"

section \<open>Service actions\<close>

text \<open>
  What the Service knows of a request: the acting team (actingTeam's answer), whether the caller is
  a commissioner, whether the confirmation phrase matched, whether the player data is unavailable,
  which seats have a manager, and what randomTradeOfferID and randomTransactionID return.
\<close>

record trade_request =
  rqTeam :: "team_id option"
  rqCommissioner :: bool
  rqConfirmed :: bool
  rqDataUnavailable :: bool
  rqSeated :: "team_id \<Rightarrow> bool"
  rqOfferID :: "string option"
  rqTxnID :: "string option"

datatype trade_service_error = NotSignedIn | OwnTeam | SeatWithoutManager | NoteTooLong | DataUnavailable
  | OfferClosed | OnlyReceiverActs | OnlyProposerActs | NotConfirmed | NotCommissioner | PolicyForbids
  | TradeNotFound | PartyCannotVote | OfferIDUnavailable | ContentRejected trade_error
  | StoreRefused "trade_error failure"

type_synonym 'a service_result = "(trade_service_error + 'a) \<times> store"

fun fromStore :: "(store, trade_error, 'a) outcome \<Rightarrow> 'a service_result" where
  "fromStore (Inl e, s) = (Inl (StoreRefused e), s)"
| "fromStore (Inr r, s) = (Inr r, s)"

text \<open>utf8.RuneCountInString on valid UTF-8: the bytes that do not continue a character.\<close>

definition runeCount :: "string \<Rightarrow> int" where
  "runeCount s = int (length (filter (\<lambda>c. \<not> (128 \<le> (of_char c :: nat) \<and> (of_char c :: nat) < 192)) s))"

definition tradeNoteMaxRunes :: int where "tradeNoteMaxRunes = 280"

definition withBounds :: "league_env \<Rightarrow> trade_input \<Rightarrow> trade_input" where
  "withBounds env ti = ti\<lparr>tiStarters := presetStarters (envRoster env), tiCap := presetTotal (envRoster env)\<rparr>"

definition newTradeOffer :: "team_id \<Rightarrow> team_id \<Rightarrow> string list \<Rightarrow> string list \<Rightarrow> string list \<Rightarrow> string \<Rightarrow> string \<Rightarrow> time \<Rightarrow> trade_offer" where
  "newTradeOffer from' to' give get pickIDs note' parent now =
     \<lparr>offerID = [], offerFrom = from', offerTo = to', offerGive = cleanTradePlayerIDs give,
      offerGet = cleanTradePlayerIDs get, offerPicks = cleanTradePlayerIDs pickIDs, offerNote = note',
      offerStatus = TOpen, offerParentID = parent, offerVetoes = [], offerFailReason = None,
      offerCreatedAt = now, offerAcceptedAt = 0, offerResolvedAt = 0\<rparr>"

definition proposeTrade :: "league_env \<Rightarrow> trade_request \<Rightarrow> trade_input \<Rightarrow> string \<Rightarrow> string list \<Rightarrow> string list \<Rightarrow> string list \<Rightarrow>
    string \<Rightarrow> persisted_state \<Rightarrow> bool \<Rightarrow> store \<Rightarrow> unit service_result" where
  "proposeTrade env rq ti toTeam give get pickIDs note snap persistOK s =
     (case rqTeam rq of None \<Rightarrow> (Inl NotSignedIn, s)
      | Some t \<Rightarrow>
         (let to' = trimSpace toTeam; note' = trimSpace note; bti = withBounds env ti;
              offer = newTradeOffer t to' give get pickIDs note' [] (tiNow ti)
          in if to' = t then (Inl OwnTeam, s)
             else if \<not> (knownTeam env to' \<and> rqSeated rq to') then (Inl SeatWithoutManager, s)
             else if runeCount note' > tradeNoteMaxRunes then (Inl NoteTooLong, s)
             else if rqDataUnavailable rq then (Inl DataUnavailable, s)
             else case validateTradeAssets env snap bti offer of Some e \<Rightarrow> (Inl (ContentRejected e), s)
             | None \<Rightarrow> (case rqOfferID rq of None \<Rightarrow> (Inl OfferIDUnavailable, s)
                | Some i \<Rightarrow> fromStore (proposeTradeOffer env bti (offer\<lparr>offerID := i\<rparr>) persistOK s))))"

definition openOffer :: "persisted_state \<Rightarrow> string \<Rightarrow> trade_offer option" where
  "openOffer snap i = (case findTradeOffer (tradeOffers snap) i of None \<Rightarrow> None
     | Some o' \<Rightarrow> if offerStatus o' = TOpen then Some o' else None)"

definition counterTrade :: "league_env \<Rightarrow> trade_request \<Rightarrow> trade_input \<Rightarrow> string \<Rightarrow> string list \<Rightarrow> string list \<Rightarrow> string list \<Rightarrow>
    string \<Rightarrow> persisted_state \<Rightarrow> bool \<Rightarrow> store \<Rightarrow> unit service_result" where
  "counterTrade env rq ti i give get pickIDs note snap persistOK s =
     (case rqTeam rq of None \<Rightarrow> (Inl NotSignedIn, s)
      | Some t \<Rightarrow> (case openOffer snap i of None \<Rightarrow> (Inl OfferClosed, s)
         | Some original \<Rightarrow>
            (let note' = trimSpace note; bti = withBounds env ti;
                 offer = newTradeOffer t (offerFrom original) give get pickIDs note' (offerID original) (tiNow ti)
             in if offerTo original \<noteq> t then (Inl OnlyReceiverActs, s)
                else if runeCount note' > tradeNoteMaxRunes then (Inl NoteTooLong, s)
                else if rqDataUnavailable rq then (Inl DataUnavailable, s)
                else case validateTradeAssets env snap bti offer of Some e \<Rightarrow> (Inl (ContentRejected e), s)
                | None \<Rightarrow> (case rqOfferID rq of None \<Rightarrow> (Inl OfferIDUnavailable, s)
                   | Some j \<Rightarrow> fromStore (counterTradeOffer env i (offer\<lparr>offerID := j\<rparr>) bti persistOK s)))))"

definition declineTrade :: "trade_request \<Rightarrow> string \<Rightarrow> time \<Rightarrow> persisted_state \<Rightarrow> bool \<Rightarrow> store \<Rightarrow> unit service_result" where
  "declineTrade rq i now snap persistOK s =
     (case rqTeam rq of None \<Rightarrow> (Inl NotSignedIn, s)
      | Some t \<Rightarrow> (case openOffer snap i of None \<Rightarrow> (Inl OfferClosed, s)
         | Some offer \<Rightarrow>
            if offerTo offer \<noteq> t then (Inl OnlyReceiverActs, s)
            else if \<not> rqConfirmed rq then (Inl NotConfirmed, s)
            else fromStore (declineTradeOffer i now persistOK s)))"

definition withdrawTrade :: "trade_request \<Rightarrow> string \<Rightarrow> time \<Rightarrow> persisted_state \<Rightarrow> bool \<Rightarrow> store \<Rightarrow> unit service_result" where
  "withdrawTrade rq i now snap persistOK s =
     (case rqTeam rq of None \<Rightarrow> (Inl NotSignedIn, s)
      | Some t \<Rightarrow> (case openOffer snap i of None \<Rightarrow> (Inl OfferClosed, s)
         | Some offer \<Rightarrow>
            if offerFrom offer \<noteq> t then (Inl OnlyProposerActs, s)
            else fromStore (withdrawTradeOffer i now persistOK s)))"

text \<open>Under the policy none the accepted offer executes in the same request.\<close>

definition acceptTrade :: "league_env \<Rightarrow> trade_request \<Rightarrow> trade_input \<Rightarrow> string \<Rightarrow> persisted_state \<Rightarrow> bool \<Rightarrow> bool \<Rightarrow> store \<Rightarrow>
    transaction option service_result" where
  "acceptTrade env rq ti i snap acceptOK executeOK s =
     (case rqTeam rq of None \<Rightarrow> (Inl NotSignedIn, s)
      | Some t \<Rightarrow> (case openOffer snap i of None \<Rightarrow> (Inl OfferClosed, s)
         | Some offer \<Rightarrow>
            (let bti = withBounds env ti in
             if offerTo offer \<noteq> t then (Inl OnlyReceiverActs, s)
             else if rqDataUnavailable rq then (Inl DataUnavailable, s)
             else case validateTradeAssets env snap bti offer of Some e \<Rightarrow> (Inl (ContentRejected e), s)
             | None \<Rightarrow>
                if \<not> rqConfirmed rq then (Inl NotConfirmed, s)
                else (case acceptTradeOffer env i bti acceptOK s of
                  (Inl e, s1) \<Rightarrow> (Inl (StoreRefused e), s1)
                | (Inr _, s1) \<Rightarrow>
                    if cfgVeto (tiConfig ti) \<noteq> VetoNone then (Inr None, s1)
                    else (case executeTradeOffer env i bti (rqTxnID rq) executeOK s1 of
                      (Inl e, s2) \<Rightarrow> (Inl (StoreRefused e), s2)
                    | (Inr txn, s2) \<Rightarrow> (Inr (Some txn), s2))))))"

definition reviewable :: "persisted_state \<Rightarrow> string \<Rightarrow> bool" where
  "reviewable snap i = (case findTradeOffer (tradeOffers snap) i of None \<Rightarrow> False | Some o' \<Rightarrow> offerStatus o' = TAccepted)"

definition approveTrade :: "league_env \<Rightarrow> trade_request \<Rightarrow> trade_input \<Rightarrow> string \<Rightarrow> persisted_state \<Rightarrow> bool \<Rightarrow> store \<Rightarrow>
    transaction service_result" where
  "approveTrade env rq ti i snap persistOK s =
     (if \<not> rqCommissioner rq then (Inl NotCommissioner, s)
      else if cfgVeto (tiConfig ti) \<noteq> VetoCommissioner \<and> cfgVeto (tiConfig ti) \<noteq> VetoBoth then (Inl PolicyForbids, s)
      else if \<not> reviewable snap i then (Inl TradeNotFound, s)
      else if \<not> rqConfirmed rq then (Inl NotConfirmed, s)
      else if rqDataUnavailable rq then (Inl DataUnavailable, s)
      else fromStore (executeTradeOffer env i (withBounds env ti) (rqTxnID rq) persistOK s))"

definition commissionerVetoTrade :: "trade_request \<Rightarrow> league_config \<Rightarrow> string \<Rightarrow> time \<Rightarrow> persisted_state \<Rightarrow> bool \<Rightarrow> store \<Rightarrow>
    unit service_result" where
  "commissionerVetoTrade rq cfg i now snap persistOK s =
     (if \<not> rqCommissioner rq then (Inl NotCommissioner, s)
      else if cfgVeto cfg \<noteq> VetoCommissioner \<and> cfgVeto cfg \<noteq> VetoBoth then (Inl PolicyForbids, s)
      else if \<not> reviewable snap i then (Inl TradeNotFound, s)
      else if \<not> rqConfirmed rq then (Inl NotConfirmed, s)
      else fromStore (commissionerVetoTradeOffer i now persistOK s))"

definition voteVetoTrade :: "league_env \<Rightarrow> trade_request \<Rightarrow> league_config \<Rightarrow> string \<Rightarrow> time \<Rightarrow> persisted_state \<Rightarrow> bool \<Rightarrow> store \<Rightarrow>
    bool service_result" where
  "voteVetoTrade env rq cfg i now snap persistOK s =
     (case rqTeam rq of None \<Rightarrow> (Inl NotSignedIn, s)
      | Some t \<Rightarrow>
          if cfgVeto cfg \<noteq> VetoVote \<and> cfgVeto cfg \<noteq> VetoBoth then (Inl PolicyForbids, s)
          else (case findTradeOffer (tradeOffers snap) i of None \<Rightarrow> (Inl TradeNotFound, s)
            | Some offer \<Rightarrow>
                if t = offerFrom offer \<or> t = offerTo offer then (Inl PartyCannotVote, s)
                else fromStore (fileTradeVetoOffer i t now
                  (tradeVetoThreshold (int (length (defaultTeamIDs env)))) persistOK s)))"

end
