(* ===== verification/TradeLife.thy ===== *)
theory TradeLife
  imports Trades
begin

text \<open>
  The lifecycle of offers as an abstract machine, and the proof that every Service action and every
  tick, in any interleaving and against any earlier snapshot, is a sequence of its steps.
\<close>

section \<open>The abstract lifecycle\<close>

definition sameDeal :: "trade_offer \<Rightarrow> trade_offer \<Rightarrow> bool" where
  "sameDeal a b \<longleftrightarrow> offerID b = offerID a \<and> offerFrom b = offerFrom a \<and> offerTo b = offerTo a \<and>
     offerGive b = offerGive a \<and> offerGet b = offerGet a \<and> offerPicks b = offerPicks a \<and>
     offerNote b = offerNote a \<and> offerParentID b = offerParentID a \<and> offerCreatedAt b = offerCreatedAt a"

inductive status_edge :: "trade_status \<Rightarrow> trade_status \<Rightarrow> bool" where
  accepted: "status_edge TOpen TAccepted"
| declined: "status_edge TOpen TDeclined"
| withdrawn: "status_edge TOpen TWithdrawn"
| countered: "status_edge TOpen TCountered"
| expired: "status_edge TOpen TExpired"
| executed: "status_edge TAccepted TExecuted"
| vetoed: "status_edge TAccepted TVetoed"
| failed: "status_edge TAccepted TFailed"

code_pred status_edge .

inductive_simps status_edge_simps: "status_edge a b"

text \<open>A new offer is open, with a fresh ID, between two different teams, with something on both sides.\<close>

definition freshOffer :: "trade_offer list \<Rightarrow> trade_offer \<Rightarrow> bool" where
  "freshOffer os offer \<longleftrightarrow> offerStatus offer = TOpen \<and> offerVetoes offer = [] \<and>
     offerID offer \<notin> offerID ` set os \<and> offerFrom offer \<noteq> offerTo offer \<and>
     offerGive offer \<noteq> [] \<and> offerGet offer \<noteq> [] \<and> distinct (offerGive offer) \<and> distinct (offerGet offer)"

inductive offer_step :: "trade_offer list \<Rightarrow> trade_offer list \<Rightarrow> bool" where
  propose: "freshOffer os offer \<Longrightarrow> offer_step os (os @ [offer])"
| resolve: "k < length os \<Longrightarrow> sameDeal (os ! k) offer \<Longrightarrow> offerVetoes offer = offerVetoes (os ! k) \<Longrightarrow>
    status_edge (offerStatus (os ! k)) (offerStatus offer) \<Longrightarrow> offer_step os (os[k := offer])"
| vote: "k < length os \<Longrightarrow> offerStatus (os ! k) = TAccepted \<Longrightarrow> t \<notin> set (offerVetoes (os ! k)) \<Longrightarrow>
    t \<noteq> offerFrom (os ! k) \<Longrightarrow> t \<noteq> offerTo (os ! k) \<Longrightarrow>
    offer_step os (os[k := (os ! k)\<lparr>offerVetoes := offerVetoes (os ! k) @ [t]\<rparr>])"

lemma sameDeal_refl [simp]: "sameDeal a a" by (simp add: sameDeal_def)
lemma sameDeal_trans: "sameDeal a b \<Longrightarrow> sameDeal b c \<Longrightarrow> sameDeal a c" by (simp add: sameDeal_def)

lemma status_terminal: "status_edge a b \<Longrightarrow> \<not> tradeStatusTerminal a"
  by (auto simp: status_edge_simps tradeStatusTerminal_def)

text \<open>Along the machine offers keep their place and their deal, and a resolved offer is frozen.\<close>

definition offersExtend :: "trade_offer list \<Rightarrow> trade_offer list \<Rightarrow> bool" where
  "offersExtend os os' \<longleftrightarrow> length os \<le> length os' \<and>
     (\<forall>k<length os. sameDeal (os ! k) (os' ! k) \<and> (tradeStatusTerminal (offerStatus (os ! k)) \<longrightarrow> os' ! k = os ! k))"

lemma offersExtend_refl [simp]: "offersExtend os os" by (simp add: offersExtend_def)

lemma offersExtend_trans:
  assumes "offersExtend a b" "offersExtend b c"
  shows "offersExtend a c"
proof -
  have "sameDeal (a ! k) (c ! k) \<and> (tradeStatusTerminal (offerStatus (a ! k)) \<longrightarrow> c ! k = a ! k)"
    if "k < length a" for k
  proof -
    have "k < length b" using assms(1) that by (simp add: offersExtend_def)
    then have "sameDeal (a ! k) (b ! k)" "sameDeal (b ! k) (c ! k)"
      "tradeStatusTerminal (offerStatus (a ! k)) \<longrightarrow> b ! k = a ! k"
      "tradeStatusTerminal (offerStatus (b ! k)) \<longrightarrow> c ! k = b ! k"
      using assms that unfolding offersExtend_def by blast+
    then show ?thesis using sameDeal_trans [of "a ! k" "b ! k" "c ! k"]
      by (cases "tradeStatusTerminal (offerStatus (a ! k))") auto
  qed
  then show ?thesis using assms by (simp add: offersExtend_def)
qed

lemma offer_step_extend: "offer_step os os' \<Longrightarrow> offersExtend os os'"
proof (induction rule: offer_step.induct)
  case (resolve k os offer)
  then show ?case by (auto simp: offersExtend_def nth_list_update dest: status_terminal)
qed (auto simp: offersExtend_def nth_append nth_list_update sameDeal_def tradeStatusTerminal_def)

lemma offer_steps_extend: "offer_step\<^sup>*\<^sup>* os os' \<Longrightarrow> offersExtend os os'"
  by (induction rule: rtranclp_induct) (auto intro: offersExtend_trans offer_step_extend)

section \<open>The store mutators simulate the lifecycle\<close>

abbreviation offersOf :: "store \<Rightarrow> trade_offer list" where
  "offersOf s \<equiv> tradeOffers (stState s)"

lemma offerWith_Some:
  assumes "offerWith st i status = Some (k, offer)"
  shows "k < length (tradeOffers st)" "offer = tradeOffers st ! k" "offerStatus offer = status" "offerID offer = i"
    "\<forall>j<k. offerID (tradeOffers st ! j) \<noteq> i"
  using assms indexWhere_Some [of "\<lambda>o'. offerID o' = i" "tradeOffers st"]
  by (auto simp: offerWith_def offerIndex_def split: option.splits if_splits)

lemma offers_frame [simp]:
  "tradeOffers (setOffer k offer st) = (tradeOffers st)[k := offer]"
  "tradeOffers (appendOffer offer st) = tradeOffers st @ [offer]"
  "tradeOffers (appendTransaction txn st) = tradeOffers st"
  "tradeOffers (clearZoneAssignments t ids st) = tradeOffers st"
  using frame_clear [of st t ids] by (simp_all add: setOffer_def appendOffer_def appendTransaction_def sameFrame_def)

lemma sameDeal_resolve [simp]:
  "sameDeal offer (resolveOffer status now offer)" "offerStatus (resolveOffer status now offer) = status"
  "offerVetoes (resolveOffer status now offer) = offerVetoes offer"
  by (simp_all add: sameDeal_def resolveOffer_def)

lemma resolve_step:
  assumes "offerWith st i a = Some (k, offer)" "status_edge a status" "sameDeal offer offer'"
    "offerStatus offer' = status" "offerVetoes offer' = offerVetoes offer"
  shows "offer_step\<^sup>*\<^sup>* (tradeOffers st) ((tradeOffers st)[k := offer'])"
  using offerWith_Some [OF assms(1)] assms(2-5) by (intro r_into_rtranclp offer_step.resolve) auto

lemma propose_sim:
  assumes "proposeTradeOffer env ti offer ok s = (r, s')" "freshOffer (offersOf s) offer"
  shows "offer_step\<^sup>*\<^sup>* (offersOf s) (offersOf s')"
  using assms by (auto simp: proposeTradeOffer_def store_op_defs offer_step.propose split: if_splits option.splits)

lemma freshOffer_update:
  "freshOffer os offer \<Longrightarrow> k < length os \<Longrightarrow> offerID o' = offerID (os ! k) \<Longrightarrow> freshOffer (os[k := o']) offer"
  by (auto simp: freshOffer_def dest: set_update_subset_insert [THEN subsetD])

lemma counter_sim:
  assumes "counterTradeOffer env i newOffer ti ok s = (r, s')" "freshOffer (offersOf s) newOffer"
  shows "offer_step\<^sup>*\<^sup>* (offersOf s) (offersOf s')"
proof (cases "offersOf s' = offersOf s")
  case False
  then obtain k offer where w: "offerWith (stState s) i TOpen = Some (k, offer)"
    and s': "offersOf s' = (offersOf s)[k := resolveOffer TCountered (tiNow ti) offer] @ [newOffer]"
    using assms(1) by (auto simp: counterTradeOffer_def store_op_defs split: if_splits option.splits)
  note ow = offerWith_Some [OF w]
  have "offer_step\<^sup>*\<^sup>* (offersOf s) ((offersOf s)[k := resolveOffer TCountered (tiNow ti) offer])"
    by (rule resolve_step [OF w status_edge.countered]) simp_all
  moreover have "freshOffer ((offersOf s)[k := resolveOffer TCountered (tiNow ti) offer]) newOffer"
    using freshOffer_update [OF assms(2) ow(1)] ow(2) by (simp add: resolveOffer_def)
  ultimately show ?thesis unfolding s' by (meson offer_step.propose rtranclp.rtrancl_into_rtrancl)
qed simp

lemmas resolved_by = resolve_step [OF _ _ sameDeal_resolve]

lemma close_sim:
  "closeOpenOffer status i now ok s = (r, s') \<Longrightarrow> status_edge TOpen status \<Longrightarrow> offer_step\<^sup>*\<^sup>* (offersOf s) (offersOf s')"
  by (auto simp: closeOpenOffer_def store_op_defs intro: resolved_by split: if_splits option.splits)

lemma accept_sim:
  "acceptTradeOffer env i ti ok s = (r, s') \<Longrightarrow> offer_step\<^sup>*\<^sup>* (offersOf s) (offersOf s')"
  by (auto simp: acceptTradeOffer_def store_op_defs split: if_splits option.splits)
    (erule resolve_step [OF _ status_edge.accepted]; simp add: sameDeal_def)+

lemma veto_sim:
  "commissionerVetoTradeOffer i now ok s = (r, s') \<Longrightarrow> offer_step\<^sup>*\<^sup>* (offersOf s) (offersOf s')"
  by (auto simp: commissionerVetoTradeOffer_def store_op_defs intro: resolved_by [OF _ status_edge.vetoed] split: if_splits option.splits)

lemma expire_sim:
  "expireTradeOffer i cfg now ok s = (r, s') \<Longrightarrow> offer_step\<^sup>*\<^sup>* (offersOf s) (offersOf s')"
  by (auto simp: expireTradeOffer_def store_op_defs Let_def split: if_splits option.splits)
    (erule resolved_by [OF _ status_edge.expired])+

text \<open>What an execution does to the store, in one of four ways.\<close>

lemma execute_cases:
  assumes "executeTradeOffer env i ti newID ok s = (r, s')"
  obtains
    (refused) e where "r = Inl e" "s' = s"
  | (failed) k offer e where "offerWith (stState s) i TAccepted = Some (k, offer)"
      "validateTradeAssetsForExecution env (stState s) ti offer = Some e" "\<not> assetLocked e"
      "r = Inl (if ok then Rejected e else PersistFailed)"
      "s' = s\<lparr>stState := setOffer k ((resolveOffer TFailed (tiNow ti) offer)\<lparr>offerFailReason := Some e\<rparr>) (stState s)\<rparr>"
  | (executed) k offer tid adds drops' where "offerWith (stState s) i TAccepted = Some (k, offer)"
      "validateTradeAssetsForExecution env (stState s) ti offer = None"
      "transactionPlayersFromIDs (tiPool ti) (offerGet offer) = Inr adds"
      "transactionPlayersFromIDs (tiPool ti) (offerGive offer) = Inr drops'"
      "r = (if ok then Inr (tradeTxn ti offer tid adds drops') else Inl PersistFailed)"
      "s' = s\<lparr>stState := executedState ti k offer (tradeTxn ti offer tid adds drops') (stState s)\<rparr>"
proof (cases "offerWith (stState s) i TAccepted")
  case None
  then show ?thesis using assms refused by (auto simp: executeTradeOffer_def store_op_defs split: if_splits)
next
  case (Some ko)
  obtain k offer where ko: "ko = (k, offer)" by (cases ko)
  show ?thesis
  proof (cases "stWriteError s \<or> tiPoolEmpty ti")
    case True
    then show ?thesis using assms refused Some ko by (auto simp: executeTradeOffer_def store_op_defs split: if_splits)
  next
    case False
    show ?thesis
    proof (cases "validateTradeAssetsForExecution env (stState s) ti offer")
      case (Some e)
      then show ?thesis using assms refused failed [of k offer e] False \<open>offerWith (stState s) i TAccepted = Some ko\<close> ko
        by (auto simp: executeTradeOffer_def store_op_defs split: if_splits)
    next
      case None
      then show ?thesis using assms refused executed [of k offer] False Some ko
        by (auto simp: executeTradeOffer_def store_op_defs Let_def split: if_splits option.splits sum.splits)
    qed
  qed
qed

lemma execute_sim:
  assumes "executeTradeOffer env i ti newID ok s = (r, s')"
  shows "offer_step\<^sup>*\<^sup>* (offersOf s) (offersOf s')"
  using assms
proof (cases rule: execute_cases)
  case (failed k offer e)
  then show ?thesis
    by (auto simp: sameDeal_def resolveOffer_def intro!: resolve_step [OF failed(1) status_edge.failed])
next
  case (executed k offer tid adds drops')
  then show ?thesis
    by (auto simp: executedState_def intro!: resolved_by [OF executed(1) status_edge.executed])
qed simp

lemma vote_sim:
  assumes "fileTradeVetoOffer i t now threshold ok s = (r, s')"
    and "\<And>k offer. offerWith (stState s) i TAccepted = Some (k, offer) \<Longrightarrow> t \<noteq> offerFrom offer \<and> t \<noteq> offerTo offer"
  shows "offer_step\<^sup>*\<^sup>* (offersOf s) (offersOf s')"
proof (cases "offersOf s' = offersOf s")
  case False
  then obtain k offer where w: "offerWith (stState s) i TAccepted = Some (k, offer)" "t \<notin> set (offerVetoes offer)"
    and s': "offersOf s' = (offersOf s)[k := offer\<lparr>offerVetoes := offerVetoes offer @ [t]\<rparr>] \<or>
      offersOf s' = (offersOf s)[k := resolveOffer TVetoed now (offer\<lparr>offerVetoes := offerVetoes offer @ [t]\<rparr>)]"
    using assms(1) by (auto simp: fileTradeVetoOffer_def store_op_defs Let_def split: if_splits option.splits)
  note ow = offerWith_Some [OF w(1)]
  let ?voted = "offer\<lparr>offerVetoes := offerVetoes offer @ [t]\<rparr>"
  let ?os = "(offersOf s)[k := ?voted]"
  have one: "offer_step (offersOf s) ?os" using offer_step.vote [OF ow(1)] ow w(2) assms(2) [OF w(1)] by auto
  have two: "offer_step ?os (?os[k := resolveOffer TVetoed now ?voted])"
    using ow by (intro offer_step.resolve) (auto simp: sameDeal_def resolveOffer_def status_edge_simps)
  show ?thesis using s' one two by (auto simp: converse_rtranclp_into_rtranclp)
qed simp

section \<open>What holds of the offers\<close>

definition offersSound :: "trade_offer list \<Rightarrow> bool" where
  "offersSound os \<longleftrightarrow> distinct (map offerID os) \<and>
     list_all (\<lambda>o'. offerFrom o' \<noteq> offerTo o' \<and> offerGive o' \<noteq> [] \<and> offerGet o' \<noteq> [] \<and>
       distinct (offerGive o') \<and> distinct (offerGet o') \<and> distinct (offerVetoes o') \<and>
       offerFrom o' \<notin> set (offerVetoes o') \<and> offerTo o' \<notin> set (offerVetoes o') \<and>
       (offerStatus o' \<in> {TOpen, TDeclined, TWithdrawn, TCountered, TExpired} \<longrightarrow> offerVetoes o' = [])) os"

lemma sound_at: "offersSound os \<Longrightarrow> k < length os \<Longrightarrow> offersSound [os ! k]"
  by (simp add: offersSound_def list_all_length)

lemma sound_update:
  assumes "offersSound os" "k < length os" "offerID o' = offerID (os ! k)" "offersSound [o']"
  shows "offersSound (os[k := o'])"
proof -
  have "map offerID (os[k := o']) = map offerID os"
    using assms(2,3) by (metis list_update_id map_update nth_map)
  moreover have "list_all P (os[k := o'])" if "list_all P os" "P o'" for P
    using that by (auto simp: list_all_iff dest: set_update_subset_insert [THEN subsetD])
  ultimately show ?thesis using assms(1,4) by (simp add: offersSound_def)
qed

lemma offer_step_sound: "offer_step os os' \<Longrightarrow> offersSound os \<Longrightarrow> offersSound os'"
proof (induction rule: offer_step.induct)
  case (propose os offer)
  then show ?case by (auto simp: offersSound_def freshOffer_def)
next
  case (resolve k os offer)
  then have "offersSound [os ! k]" by (simp add: sound_at)
  with resolve show ?case
    by (intro sound_update) (auto simp: offersSound_def sameDeal_def status_edge_simps)
next
  case (vote k os t)
  then have "offersSound [os ! k]" by (simp add: sound_at)
  with vote show ?case by (intro sound_update) (auto simp: offersSound_def)
qed

lemma offer_steps_sound: "offer_step\<^sup>*\<^sup>* os os' \<Longrightarrow> offersSound os \<Longrightarrow> offersSound os'"
  by (induction rule: rtranclp_induct) (auto intro: offer_step_sound)

lemma findTradeOffer_index:
  assumes "findTradeOffer os i = Some offer"
  obtains j where "j < length os" "os ! j = offer" "offerID offer = i"
  using assms by (auto simp: findTradeOffer_def find_Some_iff)

text \<open>An offer read from an earlier snapshot is the same deal as the stored one with its ID.\<close>

lemma snapshot_deal:
  assumes "offer_step\<^sup>*\<^sup>* os (tradeOffers st)" "offersSound os"
    and "findTradeOffer os i = Some offer" "offerWith st i status = Some (k, current)"
  shows "sameDeal offer current"
proof -
  obtain j where j: "j < length os" "os ! j = offer" "offerID offer = i"
    using findTradeOffer_index [OF assms(3)] .
  have ext: "j < length (tradeOffers st)" "sameDeal offer (tradeOffers st ! j)"
    using offer_steps_extend [OF assms(1)] j by (auto simp: offersExtend_def)
  have dis: "distinct (map offerID (tradeOffers st))"
    using offer_steps_sound [OF assms(1,2)] by (simp add: offersSound_def)
  note ow = offerWith_Some [OF assms(4)]
  have "map offerID (tradeOffers st) ! j = map offerID (tradeOffers st) ! k"
    using ext ow j by (simp add: sameDeal_def)
  then have "j = k" using nth_eq_iff_index_eq [OF dis, of j k] ext(1) ow(1) by simp
  then show ?thesis using ext ow by simp
qed

end
