(* ===== verification/TradeSystem.thy ===== *)
theory TradeSystem
  imports TradeLife
begin

text \<open>
  The trade room as a transition system: Service actions, each deciding on any snapshot the store
  has ever given out, the tick, and everything else that leaves the offers alone, interleaved in any
  order. Its offers simulate the lifecycle of TradeLife.
\<close>

section \<open>Service actions simulate the lifecycle\<close>

lemma fromStore_snd: "fromStore x = (r, s') \<Longrightarrow> \<exists>r'. x = (r', s')"
  by (cases x; cases "fst x") auto

lemma clean_loop: "set (cleanLoop seen ids) \<inter> set seen = {} \<and> distinct (cleanLoop seen ids) \<and> [] \<notin> set (cleanLoop seen ids)"
  by (induction seen ids rule: cleanLoop.induct) (auto simp: Let_def)

lemma clean_distinct [simp]: "distinct (cleanTradePlayerIDs ids)"
  using clean_loop [of "[]" ids] by (simp add: cleanTradePlayerIDs_def)

lemma validated_mutation:
  "validateTradeAssets env st ti offer = None \<Longrightarrow> offerGive offer \<noteq> [] \<and> offerGet offer \<noteq> []"
  unfolding validateTradeAssets_def using validated by blast

abbreviation freshID :: "string option \<Rightarrow> store \<Rightarrow> bool" where
  "freshID i s \<equiv> (case i of None \<Rightarrow> True | Some j \<Rightarrow> j \<notin> offerID ` set (offersOf s))"

lemma propose_service_sim:
  assumes "proposeTrade env rq ti toT give get pickIDs note snap ok s = (r, s')" "freshID (rqOfferID rq) s"
  shows "offer_step\<^sup>*\<^sup>* (offersOf s) (offersOf s')"
proof (cases "s' = s")
  case False
  obtain t i r' offer where t: "trimSpace toT \<noteq> t" "rqOfferID rq = Some i"
    and o': "offer = newTradeOffer t (trimSpace toT) give get pickIDs (trimSpace note) [] (tiNow ti)"
    and v: "validateTradeAssets env snap (withBounds env ti) offer = None"
    and p: "proposeTradeOffer env (withBounds env ti) (offer\<lparr>offerID := i\<rparr>) ok s = (r', s')"
    using assms(1) False
    by (auto simp: proposeTrade_def Let_def split: option.splits if_splits dest!: fromStore_snd)
  show ?thesis
    using validated_mutation [OF v] t assms(2)
    by (intro propose_sim [OF p]) (auto simp: freshOffer_def o' newTradeOffer_def)
qed simp

lemma counter_service_sim:
  assumes "counterTrade env rq ti i give get pickIDs note snap ok s = (r, s')" "freshID (rqOfferID rq) s"
    and "offersSound (tradeOffers snap)"
  shows "offer_step\<^sup>*\<^sup>* (offersOf s) (offersOf s')"
proof (cases "s' = s")
  case False
  obtain t j r' original offer where t: "openOffer snap i = Some original" "offerTo original = t" "rqOfferID rq = Some j"
    and o': "offer = newTradeOffer t (offerFrom original) give get pickIDs (trimSpace note) (offerID original) (tiNow ti)"
    and v: "validateTradeAssets env snap (withBounds env ti) offer = None"
    and p: "counterTradeOffer env i (offer\<lparr>offerID := j\<rparr>) (withBounds env ti) ok s = (r', s')"
    using assms(1) False
    by (auto simp: counterTrade_def Let_def split: option.splits if_splits dest!: fromStore_snd)
  have "original \<in> set (tradeOffers snap)"
    using t(1) by (auto simp: openOffer_def findTradeOffer_def find_Some_iff split: option.splits if_splits)
  then have "offerFrom original \<noteq> offerTo original"
    using assms(3) by (auto simp: offersSound_def list_all_iff)
  then show ?thesis
    using validated_mutation [OF v] t assms(2)
    by (intro counter_sim [OF p]) (auto simp: freshOffer_def o' newTradeOffer_def)
qed simp

lemma accept_service_sim:
  assumes "acceptTrade env rq ti i snap aok eok s = (r, s')"
  shows "offer_step\<^sup>*\<^sup>* (offersOf s) (offersOf s')"
proof (cases "s' = s")
  case False
  let ?bti = "withBounds env ti"
  obtain ra s1 where a: "acceptTradeOffer env i ?bti aok s = (ra, s1)" by fastforce
  obtain rx s2 where x: "executeTradeOffer env i ?bti (rqTxnID rq) eok s1 = (rx, s2)" by fastforce
  have "s' = s1 \<or> s' = s2"
    using assms False a x by (auto simp: acceptTrade_def Let_def split: option.splits if_splits sum.splits)
  then show ?thesis using accept_sim [OF a] execute_sim [OF x] by auto
qed simp

lemma approve_service_sim:
  assumes "approveTrade env rq ti i snap ok s = (r, s')"
  shows "offer_step\<^sup>*\<^sup>* (offersOf s) (offersOf s')"
  using assms by (auto simp: approveTrade_def split: if_splits dest!: fromStore_snd intro: execute_sim)

lemma commissioner_veto_service_sim:
  assumes "commissionerVetoTrade rq cfg i now snap ok s = (r, s')"
  shows "offer_step\<^sup>*\<^sup>* (offersOf s) (offersOf s')"
  using assms by (auto simp: commissionerVetoTrade_def split: if_splits dest!: fromStore_snd intro: veto_sim)

lemma close_service_sim:
  "declineTrade rq i now snap ok s = (r, s') \<Longrightarrow> offer_step\<^sup>*\<^sup>* (offersOf s) (offersOf s')"
  "withdrawTrade rq i now snap ok s = (r, s') \<Longrightarrow> offer_step\<^sup>*\<^sup>* (offersOf s) (offersOf s')"
  by (auto simp: declineTrade_def withdrawTrade_def declineTradeOffer_def withdrawTradeOffer_def
      split: option.splits if_splits dest!: fromStore_snd intro: close_sim status_edge.intros)

lemma vote_service_sim:
  assumes "voteVetoTrade env rq cfg i now snap ok s = (r, s')"
    and "offer_step\<^sup>*\<^sup>* (tradeOffers snap) (offersOf s)" "offersSound (tradeOffers snap)"
  shows "offer_step\<^sup>*\<^sup>* (offersOf s) (offersOf s')"
proof (cases "s' = s")
  case False
  obtain t n r' offer where f: "findTradeOffer (tradeOffers snap) i = Some offer" "t \<noteq> offerFrom offer" "t \<noteq> offerTo offer"
    and v: "fileTradeVetoOffer i t now n ok s = (r', s')"
    using assms(1) False
    by (auto simp: voteVetoTrade_def split: option.splits if_splits dest!: fromStore_snd)
  show ?thesis
  proof (rule vote_sim [OF v])
    fix k current assume "offerWith (stState s) i TAccepted = Some (k, current)"
    then show "t \<noteq> offerFrom current \<and> t \<noteq> offerTo current"
      using snapshot_deal [OF assms(2,3) f(1)] f(2,3) by (simp add: sameDeal_def)
  qed
qed simp

lemma tick_offer_sim: "offer_step\<^sup>*\<^sup>* (offersOf s) (offersOf (tickOffer env tk offer s))"
proof (cases "tickOffer env tk offer s = s")
  case False
  let ?ok = "tkPersist tk (offerID offer)"
  obtain r1 s1 where e: "expireTradeOffer (offerID offer) (tiConfig tk) (tiNow tk) ?ok s = (r1, s1)" by fastforce
  obtain r2 s2 where x: "executeTradeOffer env (offerID offer) (trade_input.truncate tk)
      (tkNewID tk (offerID offer)) ?ok s = (r2, s2)" by fastforce
  have "tickOffer env tk offer s = s1 \<or> tickOffer env tk offer s = s2"
    using False e x by (auto simp: tickOffer_def Let_def split: trade_status.splits if_splits)
  then show ?thesis using expire_sim [OF e] execute_sim [OF x] by auto
qed simp

lemma tick_sim: "offer_step\<^sup>*\<^sup>* (offersOf s) (offersOf (evalTradeTick env tk snap s))"
  unfolding evalTradeTick_def
proof (induction "tradeOffers snap" arbitrary: s rule: list.induct)
  case (Cons offer os)
  have "offer_step\<^sup>*\<^sup>* (offersOf s) (offersOf (fold (tickOffer env tk') os' s))" for tk' os'
    by (induction os' arbitrary: s) (auto intro: rtranclp_trans tick_offer_sim)
  then show ?case .
qed (auto simp: fold_def)

section \<open>The transition system\<close>

text \<open>
  The life of the offers, with the snapshots a request may still hold: any Service action or tick on any of them.
  The IDs drawn for new offers are new (freshID): the code draws them at random and does not look for a clash.
\<close>

inductive trade_run :: "league_env \<Rightarrow> store \<Rightarrow> persisted_state list \<Rightarrow> store \<Rightarrow> bool" for env s0 where
  start: "trade_run env s0 [stState s0] s0"
| propose: "trade_run env s0 snaps s \<Longrightarrow> snap \<in> set snaps \<Longrightarrow> freshID (rqOfferID rq) s \<Longrightarrow>
    proposeTrade env rq ti toT give get pickIDs note snap ok s = (r1, s') \<Longrightarrow> trade_run env s0 (stState s' # snaps) s'"
| counter: "trade_run env s0 snaps s \<Longrightarrow> snap \<in> set snaps \<Longrightarrow> freshID (rqOfferID rq) s \<Longrightarrow>
    counterTrade env rq ti i give get pickIDs note snap ok s = (r1, s') \<Longrightarrow> trade_run env s0 (stState s' # snaps) s'"
| decline: "trade_run env s0 snaps s \<Longrightarrow> snap \<in> set snaps \<Longrightarrow>
    declineTrade rq i now snap ok s = (r1, s') \<Longrightarrow> trade_run env s0 (stState s' # snaps) s'"
| withdraw: "trade_run env s0 snaps s \<Longrightarrow> snap \<in> set snaps \<Longrightarrow>
    withdrawTrade rq i now snap ok s = (r1, s') \<Longrightarrow> trade_run env s0 (stState s' # snaps) s'"
| accept: "trade_run env s0 snaps s \<Longrightarrow> snap \<in> set snaps \<Longrightarrow>
    acceptTrade env rq ti i snap ok ok' s = (r2, s') \<Longrightarrow> trade_run env s0 (stState s' # snaps) s'"
| approve: "trade_run env s0 snaps s \<Longrightarrow> snap \<in> set snaps \<Longrightarrow>
    approveTrade env rq ti i snap ok s = (r3, s') \<Longrightarrow> trade_run env s0 (stState s' # snaps) s'"
| veto: "trade_run env s0 snaps s \<Longrightarrow> snap \<in> set snaps \<Longrightarrow>
    commissionerVetoTrade rq cfg i now snap ok s = (r1, s') \<Longrightarrow> trade_run env s0 (stState s' # snaps) s'"
| vote: "trade_run env s0 snaps s \<Longrightarrow> snap \<in> set snaps \<Longrightarrow>
    voteVetoTrade env rq cfg i now snap ok s = (r4, s') \<Longrightarrow> trade_run env s0 (stState s' # snaps) s'"
| tick: "trade_run env s0 snaps s \<Longrightarrow> snap \<in> set snaps \<Longrightarrow>
    s' = evalTradeTick env tk snap s \<Longrightarrow> trade_run env s0 (stState s' # snaps) s'"
| other: "trade_run env s0 snaps s \<Longrightarrow> offersOf s' = offersOf s \<Longrightarrow> trade_run env s0 (stState s' # snaps) s'"

definition runInv :: "store \<Rightarrow> persisted_state list \<Rightarrow> store \<Rightarrow> bool" where
  "runInv s0 snaps s \<longleftrightarrow> offer_step\<^sup>*\<^sup>* (offersOf s0) (offersOf s) \<and>
     (\<forall>snap\<in>set snaps. offer_step\<^sup>*\<^sup>* (offersOf s0) (tradeOffers snap) \<and> offer_step\<^sup>*\<^sup>* (tradeOffers snap) (offersOf s))"

lemma runInv_step:
  assumes "runInv s0 snaps s" "offer_step\<^sup>*\<^sup>* (offersOf s) (offersOf s')"
  shows "runInv s0 (stState s' # snaps) s'"
  using assms by (auto simp: runInv_def intro: rtranclp_trans)

lemma runInv_snap:
  assumes "runInv s0 snaps s" "snap \<in> set snaps" "offersSound (offersOf s0)"
  shows "offersSound (tradeOffers snap)" "offer_step\<^sup>*\<^sup>* (tradeOffers snap) (offersOf s)"
  using assms by (auto simp: runInv_def intro: offer_steps_sound)

lemma trade_run_inv:
  assumes "trade_run env s0 snaps s" "offersSound (offersOf s0)"
  shows "runInv s0 snaps s"
  using assms
proof (induction rule: trade_run.induct)
  case start
  then show ?case by (simp add: runInv_def)
next
  case (propose snaps s)
  then show ?case using runInv_step propose_service_sim by metis
next
  case (counter snaps s snap)
  then show ?case using runInv_step counter_service_sim runInv_snap(1) by metis
next
  case (vote snaps s snap)
  then show ?case using runInv_step vote_service_sim runInv_snap by metis
next
  case (other snaps s s')
  then show ?case using runInv_step [of s0 snaps s s'] by simp
qed (metis runInv_step close_service_sim accept_service_sim approve_service_sim commissioner_veto_service_sim tick_sim)+

end
