(* ===== verification/TradeProps.thy ===== *)
theory TradeProps
  imports TradeSystem
begin

text \<open>
  What a trade does to the rosters, and the properties of the trade room.
\<close>

section \<open>A sample trade\<close>

definition tradeRq :: "team_id \<Rightarrow> trade_request" where
  "tradeRq t = \<lparr>rqTeam = Some t, rqCommissioner = True, rqConfirmed = True, rqDataUnavailable = False,
     rqSeated = (\<lambda>u. True), rqOfferID = Some ''o1'', rqTxnID = Some ''x1''\<rparr>"

definition tradeTi :: "time \<Rightarrow> trade_input" where
  "tradeTi now = \<lparr>tiConfig = sampleConfig\<lparr>cfgTradeDeadline := ''0001-01-03T00:00:00Z''\<rparr>, tiGames = [],
     tiPool = samplePool, tiPoolEmpty = False, tiNow = now, tiStarters = 1, tiCap = 2\<rparr>"

definition offered :: store where
  "offered = snd (proposeTrade sampleEnv (tradeRq ''a'') (tradeTi 5) ''b'' [''p2''] [''p1''] [] ''fair?''
     sampleRosterState True (sampleStore sampleRosterState))"

definition accepted :: store where
  "accepted = snd (acceptTrade sampleEnv (tradeRq ''b'') (tradeTi 6) ''o1'' (stState offered) True True offered)"

definition executed :: store where
  "executed = snd (approveTrade sampleEnv (tradeRq ''b'') (tradeTi 7) ''o1'' (stState accepted) True accepted)"

lemma trade_start: "trade_run sampleEnv (sampleStore sampleRosterState) [sampleRosterState] (sampleStore sampleRosterState)"
  using trade_run.start [of sampleEnv "sampleStore sampleRosterState"] by (simp add: sampleStore_def)

lemma sound_start: "offersSound (offersOf (sampleStore sampleRosterState))"
  by (simp add: sampleStore_def sampleRosterState_def freshState_def offersSound_def)

lemma trade_offered: "trade_run sampleEnv (sampleStore sampleRosterState) [stState offered, sampleRosterState] offered"
  using trade_run.propose [OF trade_start, of sampleRosterState "tradeRq ''a''" "tradeTi 5" "''b''" "[''p2'']" "[''p1'']" "[]"
      "''fair?''" True "fst (proposeTrade sampleEnv (tradeRq ''a'') (tradeTi 5) ''b'' [''p2''] [''p1''] [] ''fair?''
         sampleRosterState True (sampleStore sampleRosterState))" offered]
  by (simp add: offered_def tradeRq_def sampleStore_def sampleRosterState_def freshState_def)

lemma trade_accepted:
  "trade_run sampleEnv (sampleStore sampleRosterState) [stState accepted, stState offered, sampleRosterState] accepted"
  using trade_run.accept [OF trade_offered, of "stState offered" "tradeRq ''b''" "tradeTi 6" "''o1''" True True
      "fst (acceptTrade sampleEnv (tradeRq ''b'') (tradeTi 6) ''o1'' (stState offered) True True offered)" accepted]
  by (simp add: accepted_def)

lemma trade_executed:
  "trade_run sampleEnv (sampleStore sampleRosterState)
     [stState executed, stState accepted, stState offered, sampleRosterState] executed"
  using trade_run.approve [OF trade_accepted, of "stState accepted" "tradeRq ''b''" "tradeTi 7" "''o1''" True
      "fst (approveTrade sampleEnv (tradeRq ''b'') (tradeTi 7) ''o1'' (stState accepted) True accepted)" executed]
  by (simp add: executed_def)

section \<open>Rosters after an execution\<close>

lemma rosterOf_append_trade:
  assumes "isTrade txn"
  shows "set (rosterOf (appendTransaction txn st) u) =
    {q. (((q \<in> set (rosterOf st u) \<and> \<not> (u = txnTeamID txn \<and> q \<in> dropIDs txn)) \<or>
      (u = txnTeamID txn \<and> q \<in> addIDs txn \<and> u \<noteq> [] \<and> q \<noteq> [])) \<and> \<not> (u = txnOtherTeamID txn \<and> q \<in> addIDs txn)) \<or>
     (u = txnOtherTeamID txn \<and> q \<in> dropIDs txn \<and> q \<noteq> [])}"
  by (auto simp: appendTransaction_def rosterOf_onRoster replayState_append onRoster_trade [OF replayWf_state assms])

text \<open>The pure arithmetic of one side: outgoing players leave, their IR tags go with them.\<close>

lemma side_size:
  assumes "zonesWf st" "distinct out'" "distinct inc" "set out' \<subseteq> set (rosterOf st t)"
    and "set (rosterOf st t) \<inter> set inc = {}"
    and "set (rosterOf st' t) = (set (rosterOf st t) - set out') \<union> set inc"
    and "zonesWf st'" "irTags st' t = irTags st t - set out'"
  shows "effectiveRosterSize st' t = sideAfter st t out' inc"
proof -
  have len: "length (rosterOf x u) = card (set (rosterOf x u))" for x u
    by (simp add: distinct_card rosterOf_distinct)
  have wf: "distinct (map fst (zonesOf st t))" "distinct (map fst (zonesOf st' t))"
    using assms(1,7) by (simp_all add: zonesWf_def)
  have "card (set (rosterOf st' t)) = card (set (rosterOf st t) - set out') + card (set inc)"
    unfolding assms(6) using assms(5) by (intro card_Un_disjoint) auto
  moreover have "card (set (rosterOf st t) - set out') + card (set out') = card (set (rosterOf st t))"
    using assms(4) card_mono [of "set (rosterOf st t)" "set out'"] by (simp add: card_Diff_subset)
  ultimately have roster: "int (length (rosterOf st' t)) =
      int (length (rosterOf st t)) - int (length out') + int (length inc)"
    unfolding len using assms(2,3) by (simp add: distinct_card)
  have "countInZone st t out' ZoneIR = int (card (irTags st t \<inter> set out'))"
  proof -
    have "set (filter (\<lambda>p. zoneOfPlayer st t p = Some ZoneIR) out') = irTags st t \<inter> set out'" by (auto simp: irTags_def)
    then show ?thesis using assms(2) distinct_card [of "filter (\<lambda>p. zoneOfPlayer st t p = Some ZoneIR) out'"]
      by (simp add: countInZone_def)
  qed
  moreover have "int (card (irTags st t - set out')) = int (card (irTags st t)) - int (card (irTags st t \<inter> set out'))"
    using irOccupantCount_card(2) [OF wf(1)] card_Diff_subset_Int [of "irTags st t" "set out'"]
      card_mono [of "irTags st t" "irTags st t \<inter> set out'"] by simp
  ultimately show ?thesis
    using roster irOccupantCount_card(1) [OF wf(1)] irOccupantCount_card(1) [OF wf(2)] assms(8)
    by (simp add: sideAfter_def effectiveRosterSize_def)
qed

definition swapped :: "persisted_state \<Rightarrow> trade_offer \<Rightarrow> team_id \<Rightarrow> player_id set" where
  "swapped st offer u =
     (if u = offerFrom offer then (set (rosterOf st u) - set (offerGive offer)) \<union> set (offerGet offer)
      else if u = offerTo offer then (set (rosterOf st u) - set (offerGet offer)) \<union> set (offerGive offer)
      else set (rosterOf st u))"

lemma owned_players:
  assumes "t \<noteq> []" "\<forall>p\<in>set ps. ownerOf st p = t"
  shows "set ps \<subseteq> set (rosterOf st t)"
proof
  fix p assume "p \<in> set ps"
  then show "p \<in> set (rosterOf st t)" using assms ownerOf_onRoster [of st p] by (simp add: rosterOf_onRoster)
qed

lemma executed_rosters:
  assumes "rostersLegal st" "offersSound [offer]" "offerFrom offer \<noteq> []" "offerTo offer \<noteq> []"
    and parts: "txnType txn = TxnTrade" "txnTeamID txn = offerFrom offer" "txnOtherTeamID txn = offerTo offer"
      "map tpPlayerID (txnAdds txn) = offerGet offer" "map tpPlayerID (txnDrops txn) = offerGive offer"
    and "\<forall>p\<in>set (offerGive offer). ownerOf st p = offerFrom offer"
    and "\<forall>p\<in>set (offerGet offer). ownerOf st p = offerTo offer"
  shows "rostersLegal (appendTransaction txn st)"
    "set (rosterOf (appendTransaction txn st) u) = swapped st offer u"
    "set (offerGive offer) \<subseteq> set (rosterOf st (offerFrom offer))" "set (offerGet offer) \<subseteq> set (rosterOf st (offerTo offer))"
    "set (rosterOf st (offerFrom offer)) \<inter> set (offerGet offer) = {}" "set (rosterOf st (offerTo offer)) \<inter> set (offerGive offer) = {}"
proof -
  let ?from = "offerFrom offer" and ?to = "offerTo offer"
  have ne: "?from \<noteq> ?to" using assms(2) by (simp add: offersSound_def)
  have trade: "isTrade txn" "txnTeamID txn = ?from" "txnOtherTeamID txn = ?to"
    using assms(4) parts by (simp_all add: isTrade_def)
  have ids: "addIDs txn = set (offerGet offer)" "dropIDs txn = set (offerGive offer)"
    by (simp_all add: addIDs_def dropIDs_def parts(4,5) [symmetric])
  show give: "set (offerGive offer) \<subseteq> set (rosterOf st ?from)"
    by (rule owned_players) (use assms in simp_all)
  show get: "set (offerGet offer) \<subseteq> set (rosterOf st ?to)"
    by (rule owned_players) (use assms in simp_all)
  have one: "p \<in> set (rosterOf st t) \<Longrightarrow> p \<in> set (rosterOf st u) \<Longrightarrow> t = u" for t u p
    using oneOwner_state [OF assms(1)] unfolding oneOwner_def rosterOf_onRoster by blast
  show "set (rosterOf st ?from) \<inter> set (offerGet offer) = {}" "set (rosterOf st ?to) \<inter> set (offerGive offer) = {}"
    using one ne give get by blast+
  have nonempty: "[] \<notin> set (offerGive offer)" "[] \<notin> set (offerGet offer)"
    using give get onRoster_nonempty [OF replayWf_state] unfolding rosterOf_onRoster subset_iff by blast+
  have "txnLegal (replayState st) txn"
    using trade ne assms(3) give get ids unfolding txnLegal_def
    by (auto simp: rosterOf_onRoster [symmetric] addIDs_def dropIDs_def)
  then show "rostersLegal (appendTransaction txn st)"
    unfolding appendTransaction_def by (rule rostersLegal_append [OF assms(1)])
  show "set (rosterOf (appendTransaction txn st) u) = swapped st offer u"
    unfolding rosterOf_append_trade [OF trade(1)] trade ids swapped_def
    using ne assms(3) nonempty give get one by auto
qed

lemma zone_frame:
  "zonesOf (appendTransaction txn st) = zonesOf st" "zonesOf (setOffer k offer st) = zonesOf st"
  "zoneOfPlayer (appendTransaction txn st) = zoneOfPlayer st" "zoneOfPlayer (setOffer k offer st) = zoneOfPlayer st"
  "zonesWf (setOffer k offer st) = zonesWf st"
  by (simp_all add: fun_eq_iff zonesOf_def appendTransaction_def setOffer_def zoneOfPlayer_def zonesWf_def)

lemma executed_zones:
  "zoneOfPlayer (executedState ti k offer txn st) u p =
     (if (u = offerFrom offer \<and> p \<in> set (offerGive offer)) \<or> (u = offerTo offer \<and> p \<in> set (offerGet offer))
      then None else zoneOfPlayer st u p)"
  "zonesWf st \<Longrightarrow> zonesWf (executedState ti k offer txn st)"
  by (simp_all add: executedState_def zoneOfPlayer_clear zone_frame zonesWf_clear zonesWf_append)

lemma executed_log:
  "transactions (executedState ti k offer txn st) = transactions st @ [txn]"
  "picks (executedState ti k offer txn st) = picks st"
  by (simp_all add: executedState_def setOffer_def appendTransaction_def)

text \<open>C20: An executed trade appends exactly one trade entry to the log and swaps exactly the offered
  players between the two sides; nobody else's roster changes, every player keeps one owner, the zone
  tags of the traded players are gone so that every tag stays on a rostered player, and the effective
  size of both sides is between the starting lineup and the cap.\<close>

theorem executed_trade_sound:
  assumes "executeTradeOffer env i ti newID ok s = (Inr txn, s')"
    and "offerWith (stState s) i TAccepted = Some (k, offer)"
    and "rostersLegal (stState s)" "zonesWf (stState s)" "zonesOnRoster (stState s)" "offersSound (offersOf s)"
    and "offerFrom offer \<noteq> []" "offerTo offer \<noteq> []" "poolKeyed (tiPool ti)"
  shows "transactions (stState s') = transactions (stState s) @ [txn] \<and> txnType txn = TxnTrade \<and>
    (\<forall>u. set (rosterOf (stState s') u) = swapped (stState s) offer u) \<and>
    rostersLegal (stState s') \<and> zonesWf (stState s') \<and> zonesOnRoster (stState s') \<and>
    list_all (\<lambda>t. tiStarters ti \<le> effectiveRosterSize (stState s') t \<and> effectiveRosterSize (stState s') t \<le> tiCap ti)
      [offerFrom offer, offerTo offer]"
  using assms(1)
proof (cases rule: execute_cases)
  case (executed k' offer' tid adds drops')
  let ?st = "stState s" and ?st' = "stState s'"
  have same: "k' = k" "offer' = offer" using executed(1) assms(2) by simp_all
  have st': "?st' = executedState ti k offer txn ?st" and txn: "txn = tradeTxn ti offer tid adds drops'"
    using executed(5,6) same by (auto split: if_splits)
  note v = validated [OF executed(2) [unfolded same validateTradeAssetsForExecution_def]]
  have sound: "offersSound [offer]" using sound_at [OF assms(6)] offerWith_Some(1,2) [OF assms(2)] by simp
  note ids = players_from_ids [OF executed(3) assms(9)] players_from_ids [OF executed(4) assms(9)]
  have parts: "txnType txn = TxnTrade" "txnTeamID txn = offerFrom offer" "txnOtherTeamID txn = offerTo offer"
      "map tpPlayerID (txnAdds txn) = offerGet offer" "map tpPlayerID (txnDrops txn) = offerGive offer"
    using ids same by (simp_all add: txn tradeTxn_def)
  have owns: "\<forall>p\<in>set (offerGive offer). ownerOf ?st p = offerFrom offer" "\<forall>p\<in>set (offerGet offer). ownerOf ?st p = offerTo offer"
    using v(5,6) by blast+
  note rosters = executed_rosters [OF assms(3) sound assms(7,8) parts owns]
  have after: "set (rosterOf ?st' u) = swapped ?st offer u" for u
    using rosters(2) rosterOf_cong [of ?st' "appendTransaction txn ?st"]
    by (simp add: st' executed_log) (simp add: appendTransaction_def)
  have legal: "rostersLegal ?st'"
    using rosters(1) rostersLegal_cong [of ?st' "appendTransaction txn ?st"]
    by (simp add: st' executed_log) (simp add: appendTransaction_def)
  have wf: "zonesWf ?st'" unfolding st' by (rule executed_zones(2) [OF assms(4)])
  have on: "zonesOnRoster ?st'"
    using assms(5) unfolding zonesOnRoster_def after by (auto simp: st' executed_zones swapped_def)
  have ne: "offerFrom offer \<noteq> offerTo offer" "distinct (offerGive offer)" "distinct (offerGet offer)"
    using sound by (simp_all add: offersSound_def)
  have "effectiveRosterSize ?st' (offerFrom offer) = sideAfter ?st (offerFrom offer) (offerGive offer) (offerGet offer)"
    using rosters(3,5) ne after wf
    by (intro side_size [OF assms(4)]) (auto simp: swapped_def irTags_def st' executed_zones)
  moreover have "effectiveRosterSize ?st' (offerTo offer) = sideAfter ?st (offerTo offer) (offerGet offer) (offerGive offer)"
    using rosters(4,6) ne after wf
    by (intro side_size [OF assms(4)]) (auto simp: swapped_def irTags_def st' executed_zones)
  ultimately show ?thesis
    using v(7-10) legal wf on after by (simp add: st' executed_log) (simp add: txn tradeTxn_def)
qed simp_all

definition execInput :: trade_input where
  "execInput = withBounds sampleEnv (tradeTi 7)"

lemma executed_result:
  obtains txn where "executeTradeOffer sampleEnv ''o1'' execInput (Some ''x1'') True accepted = (Inr txn, executed)"
proof -
  let ?x = "executeTradeOffer sampleEnv ''o1'' execInput (Some ''x1'') True accepted"
  have "succeeded ?x" "reviewable (stState accepted) ''o1''" by code_simp+
  then show ?thesis using that
    by (cases ?x) (auto simp: executed_def execInput_def approveTrade_def tradeRq_def tradeTi_def sampleConfig_def elim: succeeded.elims)
qed

lemma accepted_offer:
  obtains offer where "offerWith (stState accepted) ''o1'' TAccepted = Some (0, offer)"
    "offerFrom offer = ''a''" "offerTo offer = ''b''" "offerGive offer = [''p2'']" "offerGet offer = [''p1'']"
    "offerVetoes offer = []"
proof -
  have "map_option (\<lambda>(k, o'). (k, offerFrom o', offerTo o', offerGive o', offerGet o', offerVetoes o'))
      (offerWith (stState accepted) ''o1'' TAccepted) = Some (0, ''a'', ''b'', [''p2''], [''p1''], [])" by code_simp
  then show ?thesis using that by auto
qed

lemma accepted_frame:
  "transactions (stState accepted) = transactions sampleRosterState" "picks (stState accepted) = picks sampleRosterState"
  "rosterZones (stState accepted) = []" "stWriteError accepted = False"
  by code_simp+

theorem executed_trade_sound_witness:
  "set (rosterOf (stState executed) ''a'') = (set (rosterOf (stState accepted) ''a'') - {''p2''}) \<union> {''p1''}"
proof -
  obtain txn where r: "executeTradeOffer sampleEnv ''o1'' execInput (Some ''x1'') True accepted = (Inr txn, executed)"
    using executed_result by blast
  obtain offer where o': "offerWith (stState accepted) ''o1'' TAccepted = Some (0, offer)" "offerFrom offer = ''a''"
      "offerTo offer = ''b''" "offerGive offer = [''p2'']" "offerGet offer = [''p1'']" using accepted_offer by blast
  have "rostersLegal (stState accepted)"
    using rostersLegal_cong [of "stState accepted" sampleRosterState] accepted_frame by (simp add: sample_roster_simps)
  moreover have "zonesWf (stState accepted)" "zonesOnRoster (stState accepted)"
    by (simp_all add: zonesWf_def zonesOnRoster_def zoneOfPlayer_def zonesOf_def accepted_frame)
  moreover have "offersSound (offersOf accepted)"
    using trade_run_inv [OF trade_accepted sound_start] sound_start by (auto simp: runInv_def intro: offer_steps_sound)
  moreover have "poolKeyed (tiPool execInput)"
    by (auto simp: poolKeyed_def execInput_def withBounds_def tradeTi_def samplePool_def split: if_splits)
  ultimately show ?thesis using executed_trade_sound [OF r o'(1)] o' by (auto simp: swapped_def)
qed

section \<open>The life of an offer\<close>

text \<open>C16: The trade room refines the offer lifecycle: whatever Service actions and ticks run, in any
  interleaving and each on any earlier snapshot, the offers evolve only by the lifecycle's steps; in
  particular no offer disappears, its terms never change, and a resolved offer is frozen.\<close>

theorem trade_room_refines_lifecycle:
  assumes "trade_run env s0 snaps s" "offersSound (offersOf s0)"
  shows "offer_step\<^sup>*\<^sup>* (offersOf s0) (offersOf s) \<and> offersExtend (offersOf s0) (offersOf s)"
  using trade_run_inv [OF assms] by (simp add: runInv_def offer_steps_extend)

theorem trade_room_refines_lifecycle_witness:
  "offer_step\<^sup>*\<^sup>* [] (offersOf executed) \<and> map offerStatus (offersOf executed) = [TExecuted]"
proof -
  have "map offerStatus (offersOf executed) = [TExecuted]" by code_simp
  then show ?thesis
    using trade_room_refines_lifecycle [OF trade_executed sound_start]
    by (simp add: sampleStore_def sampleRosterState_def freshState_def)
qed

text \<open>C19: In every reachable trade room every offer has two different sides, players on both sides and none
  listed twice; a team vetoes an offer at most once, no party to it does, and only accepted offers and those
  resolved from them carry vetoes. The random IDs drawn for new offers are taken to be new, which the code does
  not check (the premises on freshID in trade_run); the uniqueness of offer IDs rests on that alone.\<close>

theorem trade_offers_sound:
  assumes "trade_run env s0 snaps s" "offersSound (offersOf s0)"
  shows "\<forall>x\<in>set (offersOf s). offerFrom x \<noteq> offerTo x \<and> offerGive x \<noteq> [] \<and> offerGet x \<noteq> [] \<and>
    distinct (offerGive x) \<and> distinct (offerGet x) \<and> distinct (offerVetoes x) \<and>
    offerFrom x \<notin> set (offerVetoes x) \<and> offerTo x \<notin> set (offerVetoes x) \<and>
    (offerStatus x \<in> {TOpen, TDeclined, TWithdrawn, TCountered, TExpired} \<longrightarrow> offerVetoes x = [])"
proof -
  have "offersSound (offersOf s)"
    using trade_run_inv [OF assms] assms(2) by (auto simp: runInv_def intro: offer_steps_sound)
  then show ?thesis by (simp add: offersSound_def list_all_iff)
qed

theorem trade_offers_sound_witness:
  "length (offersOf accepted) = 1 \<and> offerFrom (hd (offersOf accepted)) \<notin> set (offerVetoes (hd (offersOf accepted)))"
proof -
  have "length (offersOf accepted) = 1" "offersOf accepted \<noteq> []" by code_simp+
  then show ?thesis using trade_offers_sound [OF trade_accepted sound_start] hd_in_set by metis
qed

text \<open>An offer executes at most once: after a successful execution no sequence of actions and
  ticks brings the store to a state in which executing it again is not refused.\<close>

theorem trade_executes_once:
  assumes "executeTradeOffer env i ti newID ok s = (Inr txn, s1)" "offersSound (offersOf s)"
    and "trade_run env s1 snaps s2" "\<not> stWriteError s2"
  shows "executeTradeOffer env i ti' newID' ok' s2 = (Inl (Rejected NotUnderReview), s2)"
proof -
  obtain k offer where w: "offerWith (stState s) i TAccepted = Some (k, offer)"
    and o1: "offersOf s1 = (offersOf s)[k := resolveOffer TExecuted (tiNow ti) offer]"
    using assms(1) by (cases rule: execute_cases) (auto simp: executedState_def split: if_splits)
  note ow = offerWith_Some [OF w]
  have sound1: "offersSound (offersOf s1)"
    using offer_steps_sound [OF execute_sim [OF assms(1)] assms(2)] .
  note inv = trade_run_inv [OF assms(3) sound1, unfolded runInv_def, THEN conjunct1]
  let ?done = "offersOf s2 ! k"
  have k: "k < length (offersOf s2)" "?done = resolveOffer TExecuted (tiNow ti) offer"
    using offer_steps_extend [OF inv] ow(1) o1 by (auto simp: offersExtend_def tradeStatusTerminal_def resolveOffer_def)
  then have d: "offerID ?done = i" "offerStatus ?done = TExecuted" using ow by (simp_all add: resolveOffer_def)
  have dis: "distinct (map offerID (offersOf s2))"
    using offer_steps_sound [OF inv sound1] by (simp add: offersSound_def)
  have "offerWith (stState s2) i TAccepted = None"
  proof (rule ccontr)
    assume "offerWith (stState s2) i TAccepted \<noteq> None"
    then obtain j o2 where j: "offerWith (stState s2) i TAccepted = Some (j, o2)" by auto
    note jw = offerWith_Some [OF j]
    have "j = k" using nth_eq_iff_index_eq [OF dis, of j k] jw k(1) d(1) by simp
    then show False using jw d(2) by simp
  qed
  then show ?thesis using assms(4) by (simp add: executeTradeOffer_def store_op_defs)
qed

theorem trade_executes_once_witness:
  "executeTradeOffer sampleEnv ''o1'' (tradeTi 9) (Some ''x2'') True executed = (Inl (Rejected NotUnderReview), executed)"
proof -
  obtain txn where r: "executeTradeOffer sampleEnv ''o1'' execInput (Some ''x1'') True accepted = (Inr txn, executed)"
    using executed_result by blast
  have "offersSound (offersOf accepted)"
    using trade_run_inv [OF trade_accepted sound_start] sound_start by (auto simp: runInv_def intro: offer_steps_sound)
  moreover have "\<not> stWriteError executed" by code_simp
  ultimately show ?thesis using trade_executes_once [OF r _ trade_run.start] by simp
qed

text \<open>An execution the rules reject never touches log, picks or zone tags: a locked player leaves
  the whole store as it was (the tick retries), any other reason resolves exactly that offer as failed
  with the reason recorded.\<close>

theorem rejected_execution_atomic:
  assumes "executeTradeOffer env i ti newID ok s = (Inl (Rejected e), s')"
  shows "transactions (stState s') = transactions (stState s) \<and> picks (stState s') = picks (stState s) \<and>
    rosterZones (stState s') = rosterZones (stState s) \<and>
    (s' = s \<or> (\<exists>k offer. \<not> assetLocked e \<and> offerWith (stState s) i TAccepted = Some (k, offer) \<and>
       offersOf s' = (offersOf s)[k := offer\<lparr>offerStatus := TFailed, offerResolvedAt := tiNow ti, offerFailReason := Some e\<rparr>]))"
  using assms
proof (cases rule: execute_cases)
  case (failed k offer e')
  then have "e' = e" by (auto split: if_splits)
  with failed have "offersOf s' = (offersOf s)[k := offer\<lparr>offerStatus := TFailed, offerResolvedAt := tiNow ti, offerFailReason := Some e\<rparr>]"
    by (simp add: resolveOffer_def)
  moreover have "transactions (stState s') = transactions (stState s)" "picks (stState s') = picks (stState s)"
    "rosterZones (stState s') = rosterZones (stState s)"
    using failed(5) by (simp_all add: setOffer_def)
  ultimately show ?thesis using failed(1,3) \<open>e' = e\<close> by blast
next
  case executed
  then show ?thesis by (auto split: if_splits)
qed simp

theorem rejected_execution_atomic_witness:
  "transactions (stState (snd (executeTradeOffer sampleEnv ''o1'' (execInput\<lparr>tiCap := 1\<rparr>) (Some ''x1'') True accepted))) =
     transactions (stState accepted)"
proof -
  let ?x = "executeTradeOffer sampleEnv ''o1'' (execInput\<lparr>tiCap := 1\<rparr>) (Some ''x1'') True accepted"
  have "fst ?x = Inl (Rejected (TradeRosterSize ''a'' 2 1 1))" by code_simp
  then have "?x = (Inl (Rejected (TradeRosterSize ''a'' 2 1 1)), snd ?x)" by (metis prod.collapse)
  from rejected_execution_atomic [OF this] show ?thesis by simp
qed

text \<open>A first veto vote of a team is recorded, and the offer is vetoed with it exactly when at
  least half of the seats other than the two parties have voted.\<close>

theorem veto_vote_threshold:
  assumes "fileTradeVetoOffer i t now (tradeVetoThreshold seats) ok s = (Inr crossed, s')" "2 \<le> seats"
    and "offerWith (stState s) i TAccepted = Some (k, offer)" "t \<notin> set (offerVetoes offer)"
  shows "(crossed \<longleftrightarrow> seats - 2 \<le> 2 * int (length (offerVetoes offer) + 1)) \<and>
    offerVetoes (offersOf s' ! k) = offerVetoes offer @ [t] \<and>
    offerStatus (offersOf s' ! k) = (if crossed then TVetoed else TAccepted)"
proof -
  note ow = offerWith_Some [OF assms(3)]
  have thr: "tradeVetoThreshold seats \<le> n \<longleftrightarrow> seats - 2 \<le> 2 * n" for n
    using assms(2) by (auto simp: tradeVetoThreshold_def)
  have c: "crossed \<longleftrightarrow> tradeVetoThreshold seats \<le> int (length (offerVetoes offer) + 1)"
    and o': "offersOf s' = (offersOf s)[k := (if crossed then resolveOffer TVetoed now (offer\<lparr>offerVetoes := offerVetoes offer @ [t]\<rparr>)
        else offer\<lparr>offerVetoes := offerVetoes offer @ [t]\<rparr>)]"
    using assms by (auto simp: fileTradeVetoOffer_def store_op_defs Let_def split: if_splits)
  have "crossed \<longleftrightarrow> seats - 2 \<le> 2 * int (length (offerVetoes offer) + 1)" using c thr by simp
  then show ?thesis unfolding o' using ow by (simp add: resolveOffer_def)
qed

theorem veto_vote_threshold_witness:
  "offerStatus (offersOf (snd (fileTradeVetoOffer ''o1'' ''c'' 8 (tradeVetoThreshold 4) True accepted)) ! 0) = TVetoed"
proof -
  let ?x = "fileTradeVetoOffer ''o1'' ''c'' 8 (tradeVetoThreshold 4) True accepted"
  obtain offer where o': "offerWith (stState accepted) ''o1'' TAccepted = Some (0, offer)" "offerVetoes offer = []"
    using accepted_offer by blast
  have "fst ?x = Inr True" by code_simp
  then have "?x = (Inr True, snd ?x)" by (metis prod.collapse)
  from veto_vote_threshold [OF this _ o'(1)] o'(2) show ?thesis by simp
qed

section \<open>Deadline and expiry\<close>

text \<open>No offer is proposed, countered or accepted at or after the league's trade deadline.\<close>

theorem no_deal_after_deadline:
  assumes "fst (proposeTrade env rq ti toT give get pickIDs note snap ok s) = Inr () \<or>
      fst (counterTrade env rq ti i give get pickIDs note snap ok s) = Inr () \<or>
      fst (acceptTrade env rq ti i snap ok ok' s) = Inr r"
    and "parseTradeDeadline (tiConfig ti) = Some deadline"
  shows "tiNow ti < deadline"
proof -
  have v: "tiNow ti < deadline" if "validateTradeAssets env st (withBounds env ti) offer = None" for st offer
    using validated(11) [OF that [unfolded validateTradeAssets_def], of deadline] assms(2) by (simp add: withBounds_def)
  show ?thesis
    using assms(1)
    by (auto simp: proposeTrade_def counterTrade_def acceptTrade_def Let_def v split: option.splits if_splits)
qed

theorem no_deal_after_deadline_witness:
  "fst (acceptTrade sampleEnv (tradeRq ''b'') (tradeTi 6) ''o1'' (stState offered) True True offered) = Inr None \<and>
    tiNow (tradeTi 6) < 2 * dayLength"
proof -
  have a: "fst (acceptTrade sampleEnv (tradeRq ''b'') (tradeTi 6) ''o1'' (stState offered) True True offered) = Inr None"
    by code_simp
  moreover have "parseTradeDeadline (tiConfig (tradeTi 6)) = Some (2 * dayLength)" by code_simp
  ultimately show ?thesis
    using no_deal_after_deadline [of sampleEnv "tradeRq ''b''" "tradeTi 6" _ _ _ _ _ "stState offered" True offered "''o1''" True None]
    by blast
qed

definition lateTi :: trade_input where
  "lateTi = (tradeTi (8 * dayLength))\<lparr>tiConfig := sampleConfig\<rparr>"

text \<open>The expiry is enforced by the tick only: an open offer past its expiry is accepted by the
  service when the tick has not run yet.\<close>

theorem late_offer_accepted:
  "tradeOfferExpiryAt (tiConfig lateTi) (offerCreatedAt (offersOf offered ! 0)) = Some (7 * dayLength + 5) \<and>
   tiNow lateTi = 8 * dayLength \<and>
   fst (acceptTrade sampleEnv (tradeRq ''b'') lateTi ''o1'' (stState offered) True True offered) = Inr None"
  by (intro conjI) code_simp+

end
