(* ===== verification/RoundRobin.thy ===== *)
theory RoundRobin
  imports Model
begin

text \<open>
  The season schedule generator (src/internal/league/schedule.go): the circle method, the
  divisional weighting of a partial cycle and the home/away alternation. math/rand/v2's Shuffle is
  its loop of swaps over the draws its source yields for the seed; the draws are a parameter.
\<close>

section \<open>Parameters\<close>

record schedule_params =
  spSeason :: int
  spTeamIDs :: "team_id list"
  spDivisions :: "(team_id \<times> string) list"
  spStartWeek :: int
  spWeeks :: int
  spSeed :: int

definition maxNFLWeek :: int where "maxNFLWeek = 18"

definition byeSentinel :: team_id where "byeSentinel = ''BYE''"

datatype schedule_error = TeamCount nat | EmptyTeamID | ReservedTeamID | DuplicateTeamID team_id
  | NoWeeks | BadStartWeek | PastLastWeek int int

fun checkTeamIDs :: "team_id list \<Rightarrow> team_id list \<Rightarrow> schedule_error option" where
  "checkTeamIDs seen [] = None"
| "checkTeamIDs seen (i # ids) =
     (if i = [] then Some EmptyTeamID
      else if i = byeSentinel then Some ReservedTeamID
      else if i \<in> set seen then Some (DuplicateTeamID i)
      else checkTeamIDs (i # seen) ids)"

definition validateScheduleParams :: "schedule_params \<Rightarrow> schedule_error option" where
  "validateScheduleParams p =
     (let start = (if spStartWeek p = 0 then 1 else spStartWeek p) in
      if length (spTeamIDs p) < 4 \<or> length (spTeamIDs p) > 14 then Some (TeamCount (length (spTeamIDs p)))
      else case checkTeamIDs [] (spTeamIDs p) of Some e \<Rightarrow> Some e
      | None \<Rightarrow>
          if spWeeks p < 1 then Some NoWeeks
          else if start < 1 then Some BadStartWeek
          else if start + spWeeks p - 1 > maxNFLWeek then Some (PastLastWeek start (spWeeks p))
          else None)"

definition seasonStartWeekForSchedule :: "season_schedule option \<Rightarrow> int" where
  "seasonStartWeekForSchedule schedule =
     (case schedule of None \<Rightarrow> 1
      | Some sch \<Rightarrow>
          if schStartWeek sch > 0 then schStartWeek sch
          else
            let start = fold (\<lambda>w start. if swWeek w > 0 \<and> (start = 0 \<or> swWeek w < start) then swWeek w else start)
                  (schWeeks sch) 0
            in if start > 0 then start else 1)"

definition earliestKickoffForWeek :: "game_info list \<Rightarrow> int \<Rightarrow> time option" where
  "earliestKickoffForWeek games week =
     fold (\<lambda>g found. if gameWeek g \<noteq> week \<or> isZero (gameKickoff g) then found
        else case found of None \<Rightarrow> Some (gameKickoff g)
        | Some t \<Rightarrow> if gameKickoff g < t then Some (gameKickoff g) else found) games None"

section \<open>Shuffle\<close>

text \<open>rand.Shuffle: for i from n - 1 down to 1, swap i with the draw for that step, at most i.\<close>

definition swapAt :: "nat \<Rightarrow> nat \<Rightarrow> 'a list \<Rightarrow> 'a list" where
  "swapAt i j xs = xs[i := xs ! j, j := xs ! i]"

definition shuffle :: "(nat \<Rightarrow> nat) \<Rightarrow> 'a list \<Rightarrow> 'a list" where
  "shuffle draw xs = fold (\<lambda>i. swapAt i (draw i)) (rev [1..<length xs]) xs"

section \<open>The circle method\<close>

type_synonym pairing = "team_id \<times> team_id"

text \<open>One rotation: slot 0 stays, the others move up by one and the last comes to slot 1.\<close>

definition rotateRing :: "team_id list \<Rightarrow> team_id list" where
  "rotateRing arr = (fold (\<lambda>i a. a[i := a ! (i - 1)]) (rev [2..<length arr]) arr)[1 := arr ! (length arr - 1)]"

definition roundPairs :: "'a list \<Rightarrow> ('a \<times> 'a) list" where
  "roundPairs arr = map (\<lambda>i. (arr ! i, arr ! (length arr - 1 - i))) [0..<length arr div 2]"

fun circleRounds :: "nat \<Rightarrow> team_id list \<Rightarrow> pairing list list" where
  "circleRounds 0 arr = []"
| "circleRounds (Suc k) arr = roundPairs arr # circleRounds k (rotateRing arr)"

definition circleMethodRounds :: "team_id list \<Rightarrow> pairing list list" where
  "circleMethodRounds ring = circleRounds (length ring - 1) ring"

section \<open>Which round fills which week\<close>

definition divisionOf :: "(team_id \<times> string) list \<Rightarrow> team_id \<Rightarrow> string" where
  "divisionOf divisions t = (case map_of divisions t of None \<Rightarrow> [] | Some d \<Rightarrow> d)"

definition intraDivisionCount :: "pairing list \<Rightarrow> (team_id \<times> string) list \<Rightarrow> int" where
  "intraDivisionCount pairs divisions =
     int (length (filter (\<lambda>(a, b). a \<noteq> byeSentinel \<and> b \<noteq> byeSentinel \<and>
       divisionOf divisions a \<noteq> [] \<and> divisionOf divisions a = divisionOf divisions b) pairs))"

definition rankLess :: "nat \<times> int \<Rightarrow> nat \<times> int \<Rightarrow> bool" where
  "rankLess a b = (if snd a \<noteq> snd b then snd a > snd b else fst a < fst b)"

definition weekRoundSequence :: "nat \<Rightarrow> nat \<Rightarrow> pairing list list \<Rightarrow> (team_id \<times> string) list \<Rightarrow> nat list" where
  "weekRoundSequence weeks numRounds rounds divisions =
     (let remainder = weeks mod numRounds; fullWeeks = weeks - remainder;
          full = map (\<lambda>w. w mod numRounds) [0..<fullWeeks]
      in if remainder = 0 then full
         else if divisions = [] then full @ map (\<lambda>i. i mod numRounds) [0..<remainder]
         else
           let ranks = sortStable rankLess
                 (map (\<lambda>i. (i, intraDivisionCount (rounds ! i) divisions)) [0..<numRounds])
           in full @ map (\<lambda>i. fst (ranks ! i)) [0..<remainder])"

section \<open>Home and away\<close>

definition meetingKey :: "team_id \<Rightarrow> team_id \<Rightarrow> string" where
  "meetingKey lo hi = lo @ ''|'' @ hi"

definition resolveHomeAway :: "team_id \<Rightarrow> team_id \<Rightarrow> (string \<Rightarrow> int) \<Rightarrow> team_id \<times> team_id \<times> (string \<Rightarrow> int)" where
  "resolveHomeAway a b counts =
     (let lo = (if b < a then b else a); hi = (if b < a then a else b);
          key = meetingKey lo hi; meeting = counts key; counts' = counts(key := meeting + 1)
      in if meeting mod 2 = 0 then (lo, hi, counts') else (hi, lo, counts'))"

definition matchupID :: "int \<Rightarrow> int \<Rightarrow> team_id \<Rightarrow> team_id \<Rightarrow> string" where
  "matchupID season week home away = itoa season @ ''-w'' @ pad2 week @ ''-'' @ home @ ''-'' @ away"

definition newMatchup :: "int \<Rightarrow> int \<Rightarrow> team_id \<Rightarrow> team_id \<Rightarrow> league_matchup" where
  "newMatchup season week home away = \<lparr>lmID = matchupID season week home away, lmWeek = week,
     lmHome = home, lmAway = away, lmHomeScore = 0, lmAwayScore = 0, lmFinal = False\<rparr>"

text \<open>One pairing of a week: a bye, or a matchup whose venue depends on the meetings so far.\<close>

definition addPairing :: "int \<Rightarrow> int \<Rightarrow> pairing \<Rightarrow> (string \<Rightarrow> int) \<times> schedule_week \<Rightarrow> (string \<Rightarrow> int) \<times> schedule_week" where
  "addPairing season nflWeek pair acc =
     (case pair of (a, b) \<Rightarrow> case acc of (counts, week) \<Rightarrow>
       if a = byeSentinel then (counts, week\<lparr>swBye := b\<rparr>)
       else if b = byeSentinel then (counts, week\<lparr>swBye := a\<rparr>)
       else (case resolveHomeAway a b counts of (home, away, counts') \<Rightarrow>
         (counts', week\<lparr>swMatchups := swMatchups week @ [newMatchup season nflWeek home away]\<rparr>)))"

definition matchupIDLess :: "league_matchup \<Rightarrow> league_matchup \<Rightarrow> bool" where
  "matchupIDLess a b = (lmID a < lmID b)"

definition addWeek :: "int \<Rightarrow> int \<Rightarrow> pairing list \<Rightarrow> (string \<Rightarrow> int) \<Rightarrow> (string \<Rightarrow> int) \<times> schedule_week" where
  "addWeek season nflWeek pairs counts =
     (case fold (addPairing season nflWeek) pairs
        (counts, \<lparr>swWeek = nflWeek, swMatchups = [], swBye = [], swClosedAt = 0\<rparr>) of
      (counts', week) \<Rightarrow> (counts', week\<lparr>swMatchups := sortStable matchupIDLess (swMatchups week)\<rparr>))"

fun buildWeeks :: "int \<Rightarrow> int \<Rightarrow> pairing list list \<Rightarrow> (string \<Rightarrow> int) \<Rightarrow> schedule_week list" where
  "buildWeeks season nflWeek [] counts = []"
| "buildWeeks season nflWeek (pairs # rounds) counts =
     (case addWeek season nflWeek pairs counts of (counts', week) \<Rightarrow>
        week # buildWeeks season (nflWeek + 1) rounds counts')"

definition paddedRing :: "team_id list \<Rightarrow> team_id list" where
  "paddedRing ring = (if odd (length ring) then ring @ [byeSentinel] else ring)"

definition generateSchedule :: "(int \<Rightarrow> nat \<Rightarrow> nat \<Rightarrow> nat) \<Rightarrow> schedule_params \<Rightarrow> schedule_error + season_schedule" where
  "generateSchedule rnd p =
     (case validateScheduleParams p of Some e \<Rightarrow> Inl e
      | None \<Rightarrow>
          (let start = (if spStartWeek p = 0 then 1 else spStartWeek p);
               ring = paddedRing (shuffle (rnd (spSeed p) (length (spTeamIDs p))) (spTeamIDs p));
               numRounds = length ring - 1;
               rounds = circleMethodRounds ring;
               weekRounds = weekRoundSequence (nat (spWeeks p)) numRounds rounds (spDivisions p)
           in Inr \<lparr>schSeason = spSeason p, schSeed = spSeed p, schGeneratedAt = 0, schStartWeek = start,
                schWeeks = buildWeeks (spSeason p) start (map (\<lambda>r. rounds ! r) weekRounds) (\<lambda>k. 0)\<rparr>))"

section \<open>Shuffling permutes\<close>

lemma mset_swapAt: "i < length xs \<Longrightarrow> j < length xs \<Longrightarrow> mset (swapAt i j xs) = mset xs"
  by (simp add: swapAt_def mset_swap)

lemma length_swapAt [simp, length_simps]: "length (swapAt i j xs) = length xs"
  by (simp add: swapAt_def)

lemma length_shuffle [simp, length_simps]: "length (shuffle draw xs) = length xs"
proof -
  have "length (fold (\<lambda>i. swapAt i (draw i)) is ys) = length ys" for "is" and ys :: "'a list"
    by (induction "is" arbitrary: ys) simp_all
  then show ?thesis by (simp add: shuffle_def)
qed

lemma mset_shuffle:
  assumes "\<forall>i. draw i \<le> i"
  shows "mset (shuffle draw xs) = mset xs"
proof -
  have "mset (fold (\<lambda>i. swapAt i (draw i)) is ys) = mset ys" if "\<forall>i\<in>set is. i < length ys" for "is" and ys :: "'a list"
    using that
  proof (induction "is" arbitrary: ys)
    case (Cons i "is")
    have "draw i < length ys" using Cons.prems assms le_less_trans by auto
    then show ?case using Cons by (simp add: mset_swapAt)
  qed simp
  then show ?thesis by (auto simp: shuffle_def)
qed

section \<open>The circle method is a round robin\<close>

lemma shift_loop:
  "k \<le> length arr \<Longrightarrow> fold (\<lambda>i a. a[i := a ! (i - 1)]) (rev [2..<k]) arr =
     map (\<lambda>i. if 2 \<le> i \<and> i < k then arr ! (i - 1) else arr ! i) [0..<length arr]"
proof (induction k arbitrary: arr)
  case (Suc k)
  show ?case
  proof (cases "2 \<le> k")
    case True
    let ?a = "arr[k := arr ! (k - 1)]"
    have "fold (\<lambda>i a. a[i := a ! (i - 1)]) (rev [2..<k]) ?a =
        map (\<lambda>i. if 2 \<le> i \<and> i < k then ?a ! (i - 1) else ?a ! i) [0..<length arr]"
      using Suc.IH [of ?a] Suc.prems by simp
    also have "\<dots> = map (\<lambda>i. if 2 \<le> i \<and> i < Suc k then arr ! (i - 1) else arr ! i) [0..<length arr]"
      using True Suc.prems by (intro map_cong [OF refl]) (auto simp: nth_list_update less_Suc_eq)
    finally show ?thesis using True by simp
  next
    case False
    then have none: "\<not> (2 \<le> i \<and> i < Suc k)" for i by auto
    have "rev [2..<Suc k] = []" using False by simp
    then show ?thesis by (simp only: fold_simps none if_False map_nth)
  qed
qed (simp add: map_nth)

lemma rotateRing_map:
  "rotateRing arr = (map (\<lambda>i. if 2 \<le> i then arr ! (i - 1) else arr ! i) [0..<length arr])[1 := arr ! (length arr - 1)]"
proof -
  have "map (\<lambda>i. if 2 \<le> i \<and> i < length arr then arr ! (i - 1) else arr ! i) [0..<length arr] =
      map (\<lambda>i. if 2 \<le> i then arr ! (i - 1) else arr ! i) [0..<length arr]" by (intro map_cong) auto
  then show ?thesis by (simp only: rotateRing_def shift_loop [OF order_refl])
qed

lemma length_rotateRing [simp, length_simps]: "length (rotateRing arr) = length arr"
  by (simp add: rotateRing_map)

lemma rotateRing_nth:
  assumes "p < length arr"
  shows "rotateRing arr ! p = (if p = 0 then arr ! 0 else if p = 1 then arr ! (length arr - 1) else arr ! (p - 1))"
  using assms by (auto simp: rotateRing_map nth_list_update)

text \<open>After r rotations the element of slot 1 + u stands in slot 1 + (u + r) mod m.\<close>

lemma rotations_nth:
  assumes "length arr = Suc m" "u < m"
  shows "(rotateRing ^^ r) arr ! Suc ((u + r) mod m) = arr ! Suc u" "(rotateRing ^^ r) arr ! 0 = arr ! 0"
proof -
  have len: "length ((rotateRing ^^ r) arr) = Suc m" for r using assms(1) by (induction r) simp_all
  show "(rotateRing ^^ r) arr ! 0 = arr ! 0" by (induction r) (simp_all add: rotateRing_nth len)
  show "(rotateRing ^^ r) arr ! Suc ((u + r) mod m) = arr ! Suc u"
  proof (induction r)
    case (Suc r)
    have step: "(u + Suc r) mod m = (if Suc ((u + r) mod m) = m then 0 else Suc ((u + r) mod m))"
      using assms(2) by (simp add: mod_Suc)
    have "(u + r) mod m < m" using assms(2) by simp
    then show ?case using Suc step by (auto simp: rotateRing_nth len)
  qed (use assms in simp)
qed

lemma circleRounds_nth: "r < k \<Longrightarrow> circleRounds k arr ! r = roundPairs ((rotateRing ^^ r) arr)"
  by (induction k arr arbitrary: r rule: circleRounds.induct)
    (auto simp: nth_Cons' less_Suc_eq_0_disj funpow_swap1)

lemma length_circleRounds [simp, length_simps]: "length (circleRounds k arr) = k"
  by (induction k arr rule: circleRounds.induct) simp_all

definition meets :: "pairing list \<Rightarrow> team_id \<Rightarrow> team_id \<Rightarrow> bool" where
  "meets pairs a b \<longleftrightarrow> (a, b) \<in> set pairs \<or> (b, a) \<in> set pairs"

lemma roundPairs_meets:
  assumes "distinct arr" "even (length arr)" "p < length arr" "q < length arr"
  shows "meets (roundPairs arr) (arr ! p) (arr ! q) \<longleftrightarrow> p + q = length arr - 1"
proof -
  let ?n = "length arr"
  have pair: "(arr ! p, arr ! q) \<in> set (roundPairs arr) \<longleftrightarrow> p < ?n div 2 \<and> q = ?n - 1 - p"
    if "p < ?n" "q < ?n" for p q
  proof -
    have "(arr ! p, arr ! q) \<in> set (roundPairs arr) \<longleftrightarrow>
        (\<exists>i<?n div 2. arr ! p = arr ! i \<and> arr ! q = arr ! (?n - 1 - i))"
      by (auto simp: roundPairs_def)
    also have "\<dots> \<longleftrightarrow> (\<exists>i<?n div 2. p = i \<and> q = ?n - 1 - i)"
      using assms(1) that by (auto simp: nth_eq_iff_index_eq)
    finally show ?thesis by auto
  qed
  from assms(2) obtain h where "?n = 2 * h" by blast
  then show ?thesis using pair assms(3,4) unfolding meets_def by (auto simp del: One_nat_def)
qed

text \<open>In each round every slot of the ring is paired exactly once.\<close>

definition slotsOf :: "('a \<times> 'a) list \<Rightarrow> 'a list" where
  "slotsOf pairs = concat (map (\<lambda>(a, b). [a, b]) pairs)"

lemma mset_slots: "mset (slotsOf pairs) = mset (map fst pairs) + mset (map snd pairs)"
  by (induction pairs) (auto simp: slotsOf_def)

lemma mset_roundPairs:
  assumes "even (length arr)"
  shows "mset (slotsOf (roundPairs arr)) = mset arr"
proof -
  obtain h where h: "length arr = 2 * h" using assms by blast
  have "map fst (roundPairs arr) = take h arr"
    by (rule nth_equalityI) (use h in \<open>simp_all add: roundPairs_def\<close>)
  moreover have "map snd (roundPairs arr) = rev (drop h arr)"
    by (rule nth_equalityI) (use h in \<open>auto simp: roundPairs_def rev_nth mult_2\<close>)
  ultimately show ?thesis unfolding mset_slots by (simp flip: mset_append)
qed

lemma mset_rotateRing:
  assumes "2 \<le> length arr"
  shows "mset (rotateRing arr) = mset arr"
proof -
  obtain x xs where xs: "arr = x # xs" "xs \<noteq> []" using assms by (cases arr) fastforce+
  have "rotateRing arr = x # List.last xs # butlast xs"
  proof (rule nth_equalityI)
    fix i assume "i < length (rotateRing arr)"
    then have i: "i < length arr" by simp
    consider "i = 0" | "i = 1" | k where "i = Suc (Suc k)" by (metis One_nat_def not0_implies_Suc)
    then show "rotateRing arr ! i = (x # List.last xs # butlast xs) ! i"
      by cases (use i xs in \<open>simp_all add: rotateRing_nth nth_butlast last_conv_nth\<close>)
  qed (use xs in simp)
  moreover have "mset (List.last xs # butlast xs) = mset xs"
    using append_butlast_last_id [OF xs(2)] by (metis mset.simps(2) mset_append add_mset_add_single mset.simps(1))
  ultimately show ?thesis using xs by simp
qed

lemma mset_rotations: "2 \<le> length arr \<Longrightarrow> mset ((rotateRing ^^ r) arr) = mset arr"
proof (induction r)
  case (Suc r)
  have "length ((rotateRing ^^ r) arr) = length arr" using Suc by (metis size_mset)
  then show ?case using Suc mset_rotateRing [of "(rotateRing ^^ r) arr"] by simp
qed simp

lemma doubling_hits:
  assumes "odd (m :: nat)"
  shows "\<exists>!r. r < m \<and> (c + 2 * r) mod m = 0"
proof -
  have m: "0 < m" using assms odd_pos by blast
  let ?f = "\<lambda>r. (c + 2 * r) mod m"
  have inj: "inj_on ?f {..<m}"
  proof (rule linorder_inj_onI')
    fix r r' assume r: "r \<in> {..<m}" "r' \<in> {..<m}" "r < r'"
    show "?f r \<noteq> ?f r'"
    proof
      assume "?f r = ?f r'"
      then have "m dvd 2 * (r' - r)" using r mod_eq_dvd_iff_nat [of "c + 2 * r" "c + 2 * r'" m]
        by (simp add: diff_mult_distrib2)
      then have "m dvd r' - r" using assms by (simp add: coprime_dvd_mult_right_iff)
      then show False using r by (auto dest: dvd_imp_le)
    qed
  qed
  moreover have "?f ` {..<m} \<subseteq> {..<m}" using m by auto
  ultimately have "?f ` {..<m} = {..<m}" by (simp add: endo_inj_surj)
  then have "0 \<in> ?f ` {..<m}" using m by simp
  then obtain r where r: "0 = ?f r" "r \<in> {..<m}" by (rule imageE)
  have "r' = r" if "r' < m \<and> ?f r' = 0" for r'
    using inj_onD [OF inj, of r' r] r that by simp
  then show ?thesis using r by (metis (no_types, lifting) lessThan_iff)
qed

lemma shifted_inj:
  assumes "u < m" "v < (m :: nat)" "(u + r) mod m = (v + r) mod m"
  shows "u = v"
proof -
  have sub: "u = v" if "u \<le> v" "v < m" "(u + r) mod m = (v + r) mod m" for u v
  proof -
    have "m dvd v - u" using that mod_eq_dvd_iff_nat [of "u + r" "v + r" m] by simp
    then show ?thesis using that by (meson diff_is_0_eq dvd_imp_le le_antisym le_less_trans less_imp_diff_less not_less zero_less_diff)
  qed
  show ?thesis using sub [of u v] sub [of v u] assms by (cases "u \<le> v") simp_all
qed

lemma opposite_slots:
  assumes "odd m" "u < m" "v < m" "u \<noteq> v" "r < m"
  shows "Suc ((u + r) mod m) + Suc ((v + r) mod m) = m \<longleftrightarrow> (u + v + 2 + 2 * r) mod m = 0"
proof -
  let ?j = "(u + r) mod m" and ?k = "(v + r) mod m"
  have lt: "?j < m" "?k < m" using assms(2) by simp_all
  have "?j \<noteq> ?k"
    using shifted_inj [OF assms(2,3)] assms(4) by blast
  have sum: "(?j + ?k + 2) mod m = (u + v + 2 + 2 * r) mod m"
    by (metis (no_types, lifting) mod_add_eq mod_add_left_eq add.assoc add.commute add.left_commute mult_2)
  show ?thesis
  proof
    assume "Suc ?j + Suc ?k = m"
    then have "?j + ?k + 2 = m" by simp
    then show "(u + v + 2 + 2 * r) mod m = 0" using sum by simp
  next
    assume "(u + v + 2 + 2 * r) mod m = 0"
    then obtain q where q: "?j + ?k + 2 = m * q" using sum by auto
    have "q < 3"
    proof (rule ccontr)
      assume "\<not> q < 3"
      then have "m * 3 \<le> m * q" by simp
      then show False using lt q by linarith
    qed
    moreover have "q \<noteq> 0" using q by (intro notI) simp
    moreover have "q \<noteq> 2"
    proof
      assume "q = 2"
      then have "?j + ?k + 2 = 2 * m" using q by simp
      then show False using lt \<open>?j \<noteq> ?k\<close> by linarith
    qed
    ultimately have "q = 1" by simp
    then show "Suc ?j + Suc ?k = m" using q by simp
  qed
qed

lemma circle_meets_once:
  assumes "distinct ring" "even (length ring)" "2 \<le> length ring" "a \<in> set ring" "b \<in> set ring" "a \<noteq> b"
  shows "\<exists>!r. r < length ring - 1 \<and> meets (circleMethodRounds ring ! r) a b"
proof -
  obtain m where m: "length ring = Suc m" using assms(3) by (cases ring) auto
  have odd: "odd m" using assms(2) m by simp
  obtain p q where pq: "p < Suc m" "q < Suc m" "ring ! p = a" "ring ! q = b"
    using assms(4,5) m by (metis in_set_conv_nth)
  have ne: "p \<noteq> q" using assms(6) pq by auto
  have dis: "distinct ((rotateRing ^^ r) ring)" and len: "length ((rotateRing ^^ r) ring) = Suc m" for r
    using mset_rotations [OF assms(3), of r] assms(1) m by (metis mset_eq_imp_distinct_iff, metis size_mset)
  define pos where "pos p r = (if p = 0 then 0 else Suc ((p - 1 + r) mod m))" for p r
  have pos: "(rotateRing ^^ r) ring ! pos p r = ring ! p" "pos p r < Suc m" if "p < Suc m" for p r
    using that rotations_nth [OF m, of "p - 1" r] odd_pos [OF odd] by (auto simp: pos_def rotations_nth(2) [OF m odd_pos [OF odd]])
  have iff: "meets (circleMethodRounds ring ! r) a b \<longleftrightarrow> pos p r + pos q r = m" if "r < m" for r
    using roundPairs_meets [OF dis, of r "pos p r" "pos q r"] pos [OF pq(1), of r] pos [OF pq(2), of r] pq(3,4) that assms(2)
    by (simp add: circleMethodRounds_def circleRounds_nth m len)
  have fixed: "\<exists>!r. r < m \<and> Suc ((u + r) mod m) = m" if "u < m" for u
  proof -
    have "Suc ((u + r) mod m) = m \<longleftrightarrow> r = m - 1 - u" if "r < m" for r
    proof (cases "u + r < m")
      case False
      then have "(u + r) mod m = u + r - m" using that \<open>u < m\<close> by (simp add: mod_if)
      then show ?thesis using False that \<open>u < m\<close> by auto
    qed (use that in auto)
    moreover have "m - 1 - u < m" using that by simp
    ultimately show ?thesis by blast
  qed
  have "\<exists>!r. r < m \<and> pos p r + pos q r = m"
  proof (cases "p = 0 \<or> q = 0")
    case True
    then show ?thesis
    proof
      assume "p = 0"
      then show ?thesis using fixed [of "q - 1"] pq ne by (simp add: pos_def)
    next
      assume "q = 0"
      then show ?thesis using fixed [of "p - 1"] pq ne by (simp add: pos_def)
    qed
  next
    case False
    then obtain u v where uv: "p = Suc u" "q = Suc v" by (metis not0_implies_Suc)
    have "pos p r + pos q r = m \<longleftrightarrow> (u + v + 2 + 2 * r) mod m = 0" if "r < m" for r
      using opposite_slots [OF odd _ _ _ that, of u v] pq ne by (simp add: pos_def uv)
    then show ?thesis using doubling_hits [OF odd, of "u + v + 2"] by (metis (no_types, lifting))
  qed
  then show ?thesis using iff m by (metis (no_types, lifting) diff_Suc_1)
qed

end
