(* ===== verification/SeasonSchedule.thy ===== *)
theory SeasonSchedule
  imports RoundRobin
begin

text \<open>
  What a generated schedule promises: who plays in each week, how often two teams meet and who is
  at home.
\<close>

section \<open>Accepted parameters\<close>

lemma checkTeamIDs_None:
  "checkTeamIDs seen ids = None \<longleftrightarrow>
     distinct ids \<and> set ids \<inter> set seen = {} \<and> [] \<notin> set ids \<and> byeSentinel \<notin> set ids"
  by (induction seen ids rule: checkTeamIDs.induct) auto

definition firstWeek :: "schedule_params \<Rightarrow> int" where
  "firstWeek p = (if spStartWeek p = 0 then 1 else spStartWeek p)"

definition paramsOK :: "schedule_params \<Rightarrow> bool" where
  "paramsOK p \<longleftrightarrow> length (spTeamIDs p) \<in> {4..14} \<and> distinct (spTeamIDs p) \<and> [] \<notin> set (spTeamIDs p) \<and>
     byeSentinel \<notin> set (spTeamIDs p) \<and> 1 \<le> spWeeks p \<and> 1 \<le> firstWeek p \<and> firstWeek p + spWeeks p - 1 \<le> 18"

lemma validate_params: "validateScheduleParams p = None \<longleftrightarrow> paramsOK p"
  using checkTeamIDs_None [of "[]" "spTeamIDs p"]
  by (cases "checkTeamIDs [] (spTeamIDs p)")
    (auto simp: validateScheduleParams_def Let_def paramsOK_def firstWeek_def maxNFLWeek_def)

section \<open>The ring\<close>

definition scheduleRing :: "(int \<Rightarrow> nat \<Rightarrow> nat \<Rightarrow> nat) \<Rightarrow> schedule_params \<Rightarrow> team_id list" where
  "scheduleRing rnd p = paddedRing (shuffle (rnd (spSeed p) (length (spTeamIDs p))) (spTeamIDs p))"

lemma ring_facts:
  assumes "paramsOK p" "\<forall>i. rnd (spSeed p) (length (spTeamIDs p)) i \<le> i"
  defines "ring \<equiv> scheduleRing rnd p"
  shows "distinct ring" "even (length ring)" "4 \<le> length ring" "[] \<notin> set ring"
    "filter_mset (\<lambda>t. t \<noteq> byeSentinel) (mset ring) = mset (spTeamIDs p)"
proof -
  let ?sh = "shuffle (rnd (spSeed p) (length (spTeamIDs p))) (spTeamIDs p)"
  have perm: "mset ?sh = mset (spTeamIDs p)" using assms(2) by (rule mset_shuffle)
  then have sh: "distinct ?sh" "set ?sh = set (spTeamIDs p)" "length ?sh = length (spTeamIDs p)"
    using assms(1) by (metis paramsOK_def mset_eq_imp_distinct_iff, metis set_mset_mset, metis size_mset)
  show "distinct ring" "even (length ring)" "4 \<le> length ring" "[] \<notin> set ring"
    using sh assms(1) by (auto simp: ring_def scheduleRing_def paddedRing_def paramsOK_def byeSentinel_def)
  have "filter_mset (\<lambda>t. t \<noteq> byeSentinel) (mset (spTeamIDs p)) = mset (spTeamIDs p)"
    using assms(1) by (auto simp: paramsOK_def filter_mset_eq_conv)
  then show "filter_mset (\<lambda>t. t \<noteq> byeSentinel) (mset ring) = mset (spTeamIDs p)"
    using perm by (simp add: ring_def scheduleRing_def paddedRing_def)
qed

section \<open>One week\<close>

definition weekTeams :: "schedule_week \<Rightarrow> team_id list" where
  "weekTeams w = concat (map (\<lambda>m. [lmHome m, lmAway m]) (swMatchups w)) @ (if swBye w = [] then [] else [swBye w])"

definition plays :: "schedule_week \<Rightarrow> team_id \<Rightarrow> team_id \<Rightarrow> bool" where
  "plays w a b \<longleftrightarrow> list_ex (\<lambda>m. (lmHome m = a \<and> lmAway m = b) \<or> (lmHome m = b \<and> lmAway m = a)) (swMatchups w)"

lemma resolve_cases:
  obtains counts' where "resolveHomeAway a b counts = (a, b, counts')" | counts' where "resolveHomeAway a b counts = (b, a, counts')"
proof -
  have "\<exists>c. resolveHomeAway a b counts = (a, b, c) \<or> resolveHomeAway a b counts = (b, a, c)"
    by (auto simp: resolveHomeAway_def Let_def)
  then show ?thesis using that by blast
qed

lemma pairing_teams:
  assumes "distinct (slotsOf pairs)" "[] \<notin> set (slotsOf pairs)" "swBye wk = [] \<or> byeSentinel \<notin> set (slotsOf pairs)"
  shows "mset (weekTeams (snd (fold (addPairing season week) pairs (counts, wk)))) =
    mset (weekTeams wk) + filter_mset (\<lambda>t. t \<noteq> byeSentinel) (mset (slotsOf pairs))"
  using assms
proof (induction pairs arbitrary: counts wk)
  case (Cons pair pairs)
  obtain a b where ab: "pair = (a, b)" by (cases pair)
  have slots: "slotsOf (pair # pairs) = a # b # slotsOf pairs" by (simp add: slotsOf_def ab)
  show ?case
  proof (cases "a = byeSentinel \<or> b = byeSentinel")
    case True
    let ?other = "if a = byeSentinel then b else a"
    have "addPairing season week pair (counts, wk) = (counts, wk\<lparr>swBye := ?other\<rparr>)"
      using True by (auto simp: addPairing_def ab)
    moreover have "mset (weekTeams (wk\<lparr>swBye := ?other\<rparr>)) = mset (weekTeams wk) + {#?other#}"
      using True Cons.prems slots by (auto simp: weekTeams_def)
    ultimately show ?thesis using Cons.IH [of "wk\<lparr>swBye := ?other\<rparr>" counts] Cons.prems True slots by auto
  next
    case False
    obtain home away counts' where r: "resolveHomeAway a b counts = (home, away, counts')" and
      "mset [home, away] = mset [a, b]" by (rule resolve_cases [of a b counts]) auto
    moreover have "addPairing season week pair (counts, wk) =
        (counts', wk\<lparr>swMatchups := swMatchups wk @ [newMatchup season week home away]\<rparr>)"
      using False r by (simp add: addPairing_def ab)
    moreover have "mset (weekTeams (wk\<lparr>swMatchups := swMatchups wk @ [newMatchup season week home away]\<rparr>)) =
        mset (weekTeams wk) + mset [home, away]"
      by (simp add: weekTeams_def newMatchup_def)
    ultimately show ?thesis
      using Cons.IH [of "wk\<lparr>swMatchups := swMatchups wk @ [newMatchup season week home away]\<rparr>" counts']
        Cons.prems False slots by auto
  qed
qed (simp add: slotsOf_def)

lemma pairing_plays:
  assumes "a \<noteq> byeSentinel" "b \<noteq> byeSentinel"
  shows "plays (snd (fold (addPairing season week) pairs (counts, wk))) a b \<longleftrightarrow> plays wk a b \<or> meets pairs a b"
proof (induction pairs arbitrary: counts wk)
  case (Cons pair pairs)
  obtain x y where xy: "pair = (x, y)" by (cases pair)
  show ?case
  proof (cases "x = byeSentinel \<or> y = byeSentinel")
    case True
    let ?other = "if x = byeSentinel then y else x"
    have "addPairing season week pair (counts, wk) = (counts, wk\<lparr>swBye := ?other\<rparr>)"
      using True by (auto simp: addPairing_def xy)
    moreover have "plays (wk\<lparr>swBye := ?other\<rparr>) a b = plays wk a b" by (simp add: plays_def)
    ultimately show ?thesis using Cons.IH True assms by (auto simp: meets_def xy)
  next
    case False
    obtain home away counts' where r: "resolveHomeAway x y counts = (home, away, counts')" and
      "(home = x \<and> away = y) \<or> (home = y \<and> away = x)" by (rule resolve_cases [of x y counts]) auto
    moreover have "addPairing season week pair (counts, wk) =
        (counts', wk\<lparr>swMatchups := swMatchups wk @ [newMatchup season week home away]\<rparr>)"
      using False r by (simp add: addPairing_def xy)
    ultimately show ?thesis using Cons.IH by (auto simp: meets_def xy plays_def newMatchup_def)
  qed
qed (simp add: meets_def)

lemma addWeek_fold:
  "addWeek season week pairs counts = (counts', wk) \<Longrightarrow>
     \<exists>wk0. fold (addPairing season week) pairs (counts, \<lparr>swWeek = week, swMatchups = [], swBye = [], swClosedAt = 0\<rparr>) = (counts', wk0)
       \<and> mset (swMatchups wk) = mset (swMatchups wk0) \<and> swBye wk = swBye wk0 \<and> swWeek wk = swWeek wk0"
  by (auto simp: addWeek_def split: prod.splits)

lemma fold_week_number: "swWeek (snd (fold (addPairing season week) pairs acc)) = swWeek (snd acc)"
  by (induction pairs arbitrary: acc) (auto simp: addPairing_def resolveHomeAway_def Let_def split: prod.splits)

lemma week_teams_perm:
  "mset (swMatchups wk) = mset (swMatchups wk0) \<Longrightarrow> swBye wk = swBye wk0 \<Longrightarrow> mset (weekTeams wk) = mset (weekTeams wk0)"
proof -
  have "mset (concat (map f xs)) = (\<Sum>x\<in>#mset xs. mset (f x))" for f :: "league_matchup \<Rightarrow> team_id list" and xs
    by (induction xs) simp_all
  then show "mset (swMatchups wk) = mset (swMatchups wk0) \<Longrightarrow> swBye wk = swBye wk0 \<Longrightarrow> mset (weekTeams wk) = mset (weekTeams wk0)"
    by (simp add: weekTeams_def)
qed

lemma addWeek_sound:
  assumes "addWeek season week pairs counts = (counts', wk)"
  shows "swWeek wk = week"
    "distinct (slotsOf pairs) \<Longrightarrow> [] \<notin> set (slotsOf pairs) \<Longrightarrow>
       mset (weekTeams wk) = filter_mset (\<lambda>t. t \<noteq> byeSentinel) (mset (slotsOf pairs))"
    "a \<noteq> byeSentinel \<Longrightarrow> b \<noteq> byeSentinel \<Longrightarrow> plays wk a b \<longleftrightarrow> meets pairs a b"
proof -
  let ?wk = "\<lparr>swWeek = week, swMatchups = [], swBye = [], swClosedAt = 0\<rparr>"
  obtain wk0 where f: "fold (addPairing season week) pairs (counts, ?wk) = (counts', wk0)"
    and p: "mset (swMatchups wk) = mset (swMatchups wk0)" "swBye wk = swBye wk0" "swWeek wk = swWeek wk0"
    using addWeek_fold [OF assms] by blast
  show "swWeek wk = week" using fold_week_number [of season week pairs "(counts, ?wk)"] f p by simp
  show "mset (weekTeams wk) = filter_mset (\<lambda>t. t \<noteq> byeSentinel) (mset (slotsOf pairs))"
    if "distinct (slotsOf pairs)" "[] \<notin> set (slotsOf pairs)"
    using pairing_teams [OF that, of ?wk season week counts] f week_teams_perm [OF p(1,2)] by (simp add: weekTeams_def)
  show "plays wk a b \<longleftrightarrow> meets pairs a b" if "a \<noteq> byeSentinel" "b \<noteq> byeSentinel"
  proof -
    have "set (swMatchups wk) = set (swMatchups wk0)" using p(1) by (metis set_mset_mset)
    then have "plays wk a b = plays wk0 a b" by (simp add: plays_def list_ex_iff)
    then show ?thesis using pairing_plays [OF that, of season week pairs counts ?wk] f by (simp add: plays_def)
  qed
qed

lemma buildWeeks_nth:
  "length (buildWeeks season week rounds counts) = length rounds"
  "w < length rounds \<Longrightarrow> \<exists>c c'. addWeek season (week + int w) (rounds ! w) c = (c', buildWeeks season week rounds counts ! w)"
proof (induction season week rounds counts arbitrary: w rule: buildWeeks.induct)
  case (2 season week pairs rounds counts)
  {
    case 1
    show ?case using 2 by (auto split: prod.splits)
  next
    case 2
    obtain counts' wk where a: "addWeek season week pairs counts = (counts', wk)" by fastforce
    show ?case
    proof (cases w)
      case 0
      then show ?thesis using a by auto
    next
      case (Suc v)
      then show ?thesis using "2.IH"(2) [OF a [symmetric], of v] 2 a by (simp add: add.assoc)
    qed
  }
qed simp_all

section \<open>Which round fills which week\<close>

definition fullWeeks :: "nat \<Rightarrow> nat \<Rightarrow> nat" where
  "fullWeeks weeks numRounds = weeks - weeks mod numRounds"

definition rankedRounds :: "nat \<Rightarrow> pairing list list \<Rightarrow> (team_id \<times> string) list \<Rightarrow> (nat \<times> int) list" where
  "rankedRounds numRounds rounds divisions =
     sortStable rankLess (map (\<lambda>i. (i, intraDivisionCount (rounds ! i) divisions)) [0..<numRounds])"

definition trailingRounds :: "nat \<Rightarrow> nat \<Rightarrow> pairing list list \<Rightarrow> (team_id \<times> string) list \<Rightarrow> nat list" where
  "trailingRounds weeks numRounds rounds divisions =
     (if divisions = [] then [0..<weeks mod numRounds]
      else take (weeks mod numRounds) (map fst (rankedRounds numRounds rounds divisions)))"

lemma length_ranked [simp]: "length (rankedRounds n rounds divisions) = n"
  by (simp add: rankedRounds_def)

lemma fst_ranked: "set (map fst (rankedRounds n rounds divisions)) = {..<n}" "distinct (map fst (rankedRounds n rounds divisions))"
  by (simp_all add: rankedRounds_def comp_def image_image lessThan_atLeast0)

lemma sequence_split:
  assumes "0 < n"
  shows "weekRoundSequence weeks n rounds divisions =
    map (\<lambda>w. w mod n) [0..<fullWeeks weeks n] @ trailingRounds weeks n rounds divisions"
proof -
  have r: "weeks mod n < n" using assms by simp
  have "map (\<lambda>i. i mod n) [0..<weeks mod n] = [0..<weeks mod n]" using r by (intro map_idI) simp
  moreover have "map (\<lambda>i. fst (rankedRounds n rounds divisions ! i)) [0..<weeks mod n] =
      take (weeks mod n) (map fst (rankedRounds n rounds divisions))"
    using r by (intro nth_equalityI) simp_all
  ultimately show ?thesis
    by (simp add: weekRoundSequence_def Let_def fullWeeks_def trailingRounds_def rankedRounds_def)
qed

lemma trailing:
  assumes "0 < n"
  shows "length (trailingRounds weeks n rounds divisions) = weeks mod n"
    "distinct (trailingRounds weeks n rounds divisions)" "set (trailingRounds weeks n rounds divisions) \<subseteq> {..<n}"
proof -
  have r: "weeks mod n < n" using assms by simp
  show "length (trailingRounds weeks n rounds divisions) = weeks mod n"
    using r by (simp add: trailingRounds_def)
  show "distinct (trailingRounds weeks n rounds divisions)"
    using fst_ranked(2) by (simp add: trailingRounds_def)
  show "set (trailingRounds weeks n rounds divisions) \<subseteq> {..<n}"
    using fst_ranked(1) [of n rounds divisions] set_take_subset [of "weeks mod n" "map fst (rankedRounds n rounds divisions)"] r
    by (auto simp: trailingRounds_def)
qed

lemma sequence_facts:
  assumes "0 < n"
  shows "length (weekRoundSequence weeks n rounds divisions) = weeks"
    "set (weekRoundSequence weeks n rounds divisions) \<subseteq> {..<n}"
    "w < fullWeeks weeks n \<Longrightarrow> weekRoundSequence weeks n rounds divisions ! w = w mod n"
    "fullWeeks weeks n \<le> w \<Longrightarrow> weekRoundSequence weeks n rounds divisions ! w =
       trailingRounds weeks n rounds divisions ! (w - fullWeeks weeks n)"
proof -
  have len: "fullWeeks weeks n + weeks mod n = weeks" by (simp add: fullWeeks_def)
  then show "length (weekRoundSequence weeks n rounds divisions) = weeks"
    by (simp add: sequence_split [OF assms] trailing(1) [OF assms])
  show "set (weekRoundSequence weeks n rounds divisions) \<subseteq> {..<n}"
    using trailing(3) [OF assms, of weeks rounds divisions] assms by (auto simp: sequence_split [OF assms])
qed (simp_all add: sequence_split [OF assms] nth_append)

section \<open>The generated schedule\<close>

abbreviation drawsOK :: "(int \<Rightarrow> nat \<Rightarrow> nat \<Rightarrow> nat) \<Rightarrow> schedule_params \<Rightarrow> bool" where
  "drawsOK rnd p \<equiv> (\<forall>i. rnd (spSeed p) (length (spTeamIDs p)) i \<le> i)"

definition cycleLength :: "schedule_params \<Rightarrow> nat" where
  "cycleLength p = (if even (length (spTeamIDs p)) then length (spTeamIDs p) - 1 else length (spTeamIDs p))"

lemma length_ring: "length (scheduleRing rnd p) - 1 = cycleLength p"
  by (simp add: scheduleRing_def paddedRing_def cycleLength_def)

definition scheduleRounds :: "(int \<Rightarrow> nat \<Rightarrow> nat \<Rightarrow> nat) \<Rightarrow> schedule_params \<Rightarrow> pairing list list" where
  "scheduleRounds rnd p = circleMethodRounds (scheduleRing rnd p)"

definition scheduleSeq :: "(int \<Rightarrow> nat \<Rightarrow> nat \<Rightarrow> nat) \<Rightarrow> schedule_params \<Rightarrow> nat list" where
  "scheduleSeq rnd p = weekRoundSequence (nat (spWeeks p)) (cycleLength p) (scheduleRounds rnd p) (spDivisions p)"

lemma generated:
  assumes "generateSchedule rnd p = Inr sch" "drawsOK rnd p"
  shows "paramsOK p" "schStartWeek sch = firstWeek p"
    "schWeeks sch = buildWeeks (spSeason p) (firstWeek p) (map ((!) (scheduleRounds rnd p)) (scheduleSeq rnd p)) (\<lambda>k. 0)"
    "0 < cycleLength p" "length (scheduleRounds rnd p) = cycleLength p" "length (schWeeks sch) = nat (spWeeks p)"
    "length (scheduleSeq rnd p) = nat (spWeeks p)" "w < nat (spWeeks p) \<Longrightarrow> scheduleSeq rnd p ! w < cycleLength p"
proof -
  show ok: "paramsOK p" using assms(1) validate_params by (auto simp: generateSchedule_def split: option.splits)
  then have "validateScheduleParams p = None" using validate_params by blast
  then have sch: "sch = \<lparr>schSeason = spSeason p, schSeed = spSeed p, schGeneratedAt = 0, schStartWeek = firstWeek p,
      schWeeks = buildWeeks (spSeason p) (firstWeek p) (map ((!) (scheduleRounds rnd p)) (scheduleSeq rnd p)) (\<lambda>k. 0)\<rparr>"
    using assms(1) length_ring [of rnd p]
    by (simp add: generateSchedule_def Let_def scheduleRounds_def scheduleSeq_def firstWeek_def scheduleRing_def)
  then show "schStartWeek sch = firstWeek p"
    "schWeeks sch = buildWeeks (spSeason p) (firstWeek p) (map ((!) (scheduleRounds rnd p)) (scheduleSeq rnd p)) (\<lambda>k. 0)" by simp_all
  show n: "0 < cycleLength p" using ok by (auto simp: paramsOK_def cycleLength_def)
  show "length (scheduleRounds rnd p) = cycleLength p" by (simp only: scheduleRounds_def circleMethodRounds_def length_ring length_circleRounds)
  show len: "length (scheduleSeq rnd p) = nat (spWeeks p)" using sequence_facts(1) [OF n] by (simp add: scheduleSeq_def)
  then show "length (schWeeks sch) = nat (spWeeks p)" by (simp add: sch buildWeeks_nth)
  show "scheduleSeq rnd p ! w < cycleLength p" if "w < nat (spWeeks p)"
  proof -
    have "set (scheduleSeq rnd p) \<subseteq> {..<cycleLength p}" unfolding scheduleSeq_def by (rule sequence_facts(2) [OF n])
    moreover have "scheduleSeq rnd p ! w \<in> set (scheduleSeq rnd p)" using len that by simp
    ultimately show ?thesis by blast
  qed
qed

lemma week_slots:
  assumes "generateSchedule rnd p = Inr sch" "drawsOK rnd p" "w < nat (spWeeks p)"
  shows "mset (slotsOf (scheduleRounds rnd p ! (scheduleSeq rnd p ! w))) = mset (scheduleRing rnd p)"
proof -
  note g = generated [OF assms(1,2)]
  note ring = ring_facts [of p rnd, OF g(1) assms(2)]
  let ?r = "scheduleSeq rnd p ! w"
  have pairs: "scheduleRounds rnd p ! ?r = roundPairs ((rotateRing ^^ ?r) (scheduleRing rnd p))"
    using g(8) [OF assms(3)] by (simp only: scheduleRounds_def circleMethodRounds_def circleRounds_nth length_ring)
  have "mset ((rotateRing ^^ ?r) (scheduleRing rnd p)) = mset (scheduleRing rnd p)"
    using ring(3) by (intro mset_rotations) simp
  moreover from this have "even (length ((rotateRing ^^ ?r) (scheduleRing rnd p)))"
    using ring(2) by (metis size_mset)
  ultimately show ?thesis unfolding pairs by (simp add: mset_roundPairs)
qed

text \<open>Every week is an addWeek of the round its index selects.\<close>

lemma generated_week:
  assumes "generateSchedule rnd p = Inr sch" "drawsOK rnd p" "w < nat (spWeeks p)"
  shows "swWeek (schWeeks sch ! w) = firstWeek p + int w"
    "mset (weekTeams (schWeeks sch ! w)) = mset (spTeamIDs p)"
    "a \<noteq> byeSentinel \<Longrightarrow> b \<noteq> byeSentinel \<Longrightarrow> plays (schWeeks sch ! w) a b \<longleftrightarrow> meets (scheduleRounds rnd p ! (scheduleSeq rnd p ! w)) a b"
proof -
  note g = generated [OF assms(1,2)]
  let ?rounds = "scheduleRounds rnd p" and ?r = "scheduleSeq rnd p ! w"
  note ring = ring_facts [of p rnd, OF g(1) assms(2)]
  obtain c c' where a: "addWeek (spSeason p) (firstWeek p + int w) (?rounds ! ?r) c = (c', schWeeks sch ! w)"
    using buildWeeks_nth(2) [of w "map ((!) ?rounds) (scheduleSeq rnd p)" "spSeason p" "firstWeek p" "\<lambda>k. 0"] assms(3) g(3,7) by auto
  note week = addWeek_sound [OF a]
  have slots: "mset (slotsOf (?rounds ! ?r)) = mset (scheduleRing rnd p)" by (rule week_slots [OF assms(1-3)])
  then have d: "distinct (slotsOf (?rounds ! ?r))" "[] \<notin> set (slotsOf (?rounds ! ?r))"
    using ring(1,4) by (metis mset_eq_imp_distinct_iff, metis set_mset_mset)
  show "swWeek (schWeeks sch ! w) = firstWeek p + int w" by (rule week(1))
  show "mset (weekTeams (schWeeks sch ! w)) = mset (spTeamIDs p)" using week(2) [OF d] slots ring(5) by simp
  show "plays (schWeeks sch ! w) a b \<longleftrightarrow> meets (scheduleRounds rnd p ! (scheduleSeq rnd p ! w)) a b" if "a \<noteq> byeSentinel" "b \<noteq> byeSentinel"
    using week(3) [OF that] .
qed

text \<open>A generated schedule covers the configured number of consecutive weeks and in every one
  of them every team appears exactly once, in one matchup or as the bye team.\<close>

theorem generated_weeks_complete:
  assumes "generateSchedule rnd p = Inr sch" "drawsOK rnd p"
  shows "length (schWeeks sch) = nat (spWeeks p) \<and> 1 \<le> firstWeek p \<and> firstWeek p + spWeeks p - 1 \<le> 18 \<and>
    (\<forall>w<nat (spWeeks p). swWeek (schWeeks sch ! w) = firstWeek p + int w \<and>
       mset (weekTeams (schWeeks sch ! w)) = mset (spTeamIDs p) \<and> distinct (weekTeams (schWeeks sch ! w)))"
proof -
  have "distinct (weekTeams (schWeeks sch ! w))" if "w < nat (spWeeks p)" for w
    using generated_week(2) [OF assms that] generated(1) [OF assms]
    by (metis mset_eq_imp_distinct_iff paramsOK_def)
  then show ?thesis
    using generated(1,6) [OF assms] generated_week(1,2) [OF assms] by (auto simp: paramsOK_def)
qed

lemma round_once:
  assumes "generateSchedule rnd p = Inr sch" "drawsOK rnd p"
    and "a \<in> set (spTeamIDs p)" "b \<in> set (spTeamIDs p)" "a \<noteq> b"
  shows "\<exists>!r. r < cycleLength p \<and> meets (scheduleRounds rnd p ! r) a b"
    "a \<noteq> byeSentinel" "b \<noteq> byeSentinel"
proof -
  note ok = generated(1) [OF assms(1,2)]
  show ab: "a \<noteq> byeSentinel" "b \<noteq> byeSentinel" using ok assms(3,4) by (auto simp: paramsOK_def)
  note ring = ring_facts [of p rnd, OF ok assms(2)]
  have "set (spTeamIDs p) \<subseteq> set (scheduleRing rnd p)"
    using arg_cong [OF ring(5), of set_mset] by auto
  then show "\<exists>!r. r < cycleLength p \<and> meets (scheduleRounds rnd p ! r) a b"
    using circle_meets_once [OF ring(1,2), of a b, unfolded length_ring] ring(3) assms(3-5)
    unfolding scheduleRounds_def by auto
qed

text \<open>C36: In every full cycle of the schedule (N - 1 weeks for an even number of teams, N for an odd
  one) any two teams meet exactly once.\<close>

theorem full_cycle_round_robin:
  assumes "generateSchedule rnd p = Inr sch" "drawsOK rnd p"
    and "a \<in> set (spTeamIDs p)" "b \<in> set (spTeamIDs p)" "a \<noteq> b"
    and "(c + 1) * cycleLength p \<le> nat (spWeeks p)"
  shows "\<exists>!w. w \<in> {c * cycleLength p..<(c + 1) * cycleLength p} \<and> plays (schWeeks sch ! w) a b"
proof -
  let ?n = "cycleLength p" and ?rounds = "scheduleRounds rnd p"
  note g = generated [OF assms(1,2)]
  note once = round_once [OF assms(1-5)]
  have full: "(c + 1) * ?n \<le> fullWeeks (nat (spWeeks p)) ?n"
  proof -
    have "c + 1 \<le> nat (spWeeks p) div ?n" using div_le_mono [OF assms(6), of ?n] g(4) by simp
    then show ?thesis
      using mult_le_mono1 [of "c + 1" "nat (spWeeks p) div ?n" ?n] by (simp add: fullWeeks_def minus_mod_eq_div_mult)
  qed
  have plays: "plays (schWeeks sch ! (c * ?n + r)) a b \<longleftrightarrow> meets (?rounds ! r) a b" if "r < ?n" for r
  proof -
    have lt: "c * ?n + r < (c + 1) * ?n" using that by simp
    then show ?thesis
      using generated_week(3) [OF assms(1,2) _ once(2,3), of "c * ?n + r"] assms(6) full
        sequence_facts(3) [OF g(4), of "c * ?n + r"] that by (simp add: scheduleSeq_def)
  qed
  obtain r where r: "r < ?n" "meets (?rounds ! r) a b" and uniq: "\<And>r'. r' < ?n \<Longrightarrow> meets (?rounds ! r') a b \<Longrightarrow> r' = r"
    using once(1) by blast
  show ?thesis
  proof (rule ex1I)
    show "c * ?n + r \<in> {c * ?n..<(c + 1) * ?n} \<and> plays (schWeeks sch ! (c * ?n + r)) a b"
      using r plays by simp
    fix w assume w: "w \<in> {c * ?n..<(c + 1) * ?n} \<and> plays (schWeeks sch ! w) a b"
    then obtain r' where r': "w = c * ?n + r'" "r' < ?n" by (auto simp: le_iff_add)
    then show "w = c * ?n + r" using w plays uniq by simp
  qed
qed

lemma rankLess_order: "weak_order rankLess"
proof -
  have eq: "rankLess = thenBy (\<lambda>a b. snd b < snd a) (\<lambda>a b. fst a < fst b)"
    by (intro ext) (auto simp: rankLess_def thenBy_def)
  show ?thesis unfolding eq by (intro weak_order_thenBy weak_order_key weak_order_key_desc)
qed

interpretation round_rank: weak_order rankLess by (rule rankLess_order)

text \<open>The trailing weeks that do not fill a cycle use different rounds, so no two teams meet twice
  in them, and with divisions configured every round they use has at least as many meetings inside a
  division as every round they leave out.\<close>

theorem trailing_rounds_favour_divisions:
  assumes "0 < n" "divisions \<noteq> []"
  shows "\<exists>seq. weekRoundSequence weeks n rounds divisions = map (\<lambda>w. w mod n) [0..<weeks - weeks mod n] @ seq \<and>
    length seq = weeks mod n \<and> distinct seq \<and> set seq \<subseteq> {..<n} \<and>
    (\<forall>r\<in>set seq. \<forall>q\<in>{..<n} - set seq. intraDivisionCount (rounds ! q) divisions \<le> intraDivisionCount (rounds ! r) divisions)"
proof -
  let ?ranked = "rankedRounds n rounds divisions" and ?k = "weeks mod n"
  define seq where seq: "seq = trailingRounds weeks n rounds divisions"
  have take: "seq = map fst (take ?k ?ranked)" using assms(2) by (simp add: seq trailingRounds_def take_map)
  have tail: "set (map fst ?ranked) = set seq \<union> set (map fst (drop ?k ?ranked))"
    unfolding take by (metis append_take_drop_id map_append set_append)
  have val: "e \<in> set ?ranked \<Longrightarrow> snd e = intraDivisionCount (rounds ! fst e) divisions" for e
    by (auto simp: rankedRounds_def)
  have sorted: "\<not> rankLess y x" if "x \<in> set (take ?k ?ranked)" "y \<in> set (drop ?k ?ranked)" for x y
  proof -
    have "sorted_wrt (\<lambda>a b. \<not> rankLess b a) (take ?k ?ranked @ drop ?k ?ranked)"
      unfolding append_take_drop_id unfolding rankedRounds_def by (rule round_rank.sort_sorted)
    then show ?thesis using that unfolding sorted_wrt_append by blast
  qed
  have "intraDivisionCount (rounds ! q) divisions \<le> intraDivisionCount (rounds ! r) divisions"
    if rq: "r \<in> set seq" "q \<in> {..<n} - set seq" for r q
  proof -
    obtain x where x: "x \<in> set (take ?k ?ranked)" "fst x = r" using rq(1) unfolding take set_map image_iff by metis
    have "q \<in> set (map fst (drop ?k ?ranked))"
      using rq(2) tail fst_ranked(1) [of n rounds divisions] by blast
    then obtain y where y: "y \<in> set (drop ?k ?ranked)" "fst y = q" unfolding set_map image_iff by metis
    have "snd y \<le> snd x" using sorted [OF x(1) y(1)] by (auto simp: rankLess_def split: if_splits)
    then show ?thesis using val x y by (metis in_set_dropD in_set_takeD)
  qed
  then show ?thesis
    using trailing [OF assms(1), of weeks rounds divisions, folded seq]
    by (intro exI [of _ seq]) (simp add: sequence_split [OF assms(1)] fullWeeks_def seq [symmetric])
qed

section \<open>Venues\<close>

text \<open>The games the first team has hosted against the second in a list of weeks.\<close>

definition hosted :: "schedule_week list \<Rightarrow> team_id \<Rightarrow> team_id \<Rightarrow> int" where
  "hosted ws a b = (\<Sum>w\<leftarrow>ws. int (length (filter (\<lambda>m. lmHome m = a \<and> lmAway m = b) (swMatchups w))))"

text \<open>The counter of a pair is the number of its meetings, and its parity says who has hosted once more.\<close>

definition balanced :: "(string \<Rightarrow> int) \<Rightarrow> (team_id \<Rightarrow> team_id \<Rightarrow> int) \<Rightarrow> team_id \<Rightarrow> team_id \<Rightarrow> bool" where
  "balanced counts h a b \<longleftrightarrow> counts (meetingKey a b) = h a b + h b a \<and> h a b - h b a = counts (meetingKey a b) mod 2"

lemma meetingKey_inject:
  assumes "CHR ''|'' \<notin> set a" "CHR ''|'' \<notin> set c" "meetingKey a b = meetingKey c d"
  shows "a = c \<and> b = d"
proof -
  have take: "takeWhile (\<lambda>x. x \<noteq> CHR ''|'') (meetingKey u v) = u" if "CHR ''|'' \<notin> set u" for u v
  proof -
    have "\<forall>x\<in>set u. x \<noteq> CHR ''|''" using that by auto
    then show ?thesis by (simp add: meetingKey_def takeWhile_append2)
  qed
  have "a = c" using take [OF assms(1), of b] take [OF assms(2), of d] assms(3) by simp
  then show ?thesis using assms(3) by (simp add: meetingKey_def)
qed

definition hostedIn :: "league_matchup list \<Rightarrow> team_id \<Rightarrow> team_id \<Rightarrow> int" where
  "hostedIn ms a b = int (length (filter (\<lambda>m. lmHome m = a \<and> lmAway m = b) ms))"

lemma pairing_balanced:
  assumes "balanced counts (\<lambda>x y. h x y + hostedIn (swMatchups wk) x y) a b" "a < b" "CHR ''|'' \<notin> set a"
    and "\<forall>t\<in>set (slotsOf pairs). CHR ''|'' \<notin> set t" "\<forall>(x, y)\<in>set pairs. x \<noteq> y"
    and "fold (addPairing season week) pairs (counts, wk) = (counts', wk')"
  shows "balanced counts' (\<lambda>x y. h x y + hostedIn (swMatchups wk') x y) a b"
  using assms
proof (induction pairs arbitrary: counts wk)
  case (Cons pair pairs)
  obtain x y where xy: "pair = (x, y)" by (cases pair)
  have free: "CHR ''|'' \<notin> set x" "CHR ''|'' \<notin> set y" "\<forall>t\<in>set (slotsOf pairs). CHR ''|'' \<notin> set t" "x \<noteq> y"
    using Cons.prems(4,5) by (simp_all add: slotsOf_def xy)
  obtain counts1 wk1 where step: "addPairing season week pair (counts, wk) = (counts1, wk1)" by fastforce
  have now: "balanced counts1 (\<lambda>x y. h x y + hostedIn (swMatchups wk1) x y) a b"
  proof (cases "x = byeSentinel \<or> y = byeSentinel")
    case True
    then show ?thesis using Cons.prems(1) step by (auto simp: addPairing_def xy split: if_splits)
  next
    case False
    define lo hi where "lo = (if y < x then y else x)" and "hi = (if y < x then x else y)"
    have ord: "lo < hi" "CHR ''|'' \<notin> set lo" using free by (auto simp: lo_def hi_def)
    let ?c = "counts (meetingKey lo hi)"
    have step1: "counts1 = counts(meetingKey lo hi := ?c + 1)"
      "swMatchups wk1 = swMatchups wk @ [if ?c mod 2 = 0 then newMatchup season week lo hi else newMatchup season week hi lo]"
      using step False by (auto simp: addPairing_def xy resolveHomeAway_def Let_def lo_def hi_def split: if_splits)
    have same: "meetingKey a b = meetingKey lo hi \<longleftrightarrow> a = lo \<and> b = hi"
      using meetingKey_inject [OF Cons.prems(3) ord(2)] by blast
    have parity: "(?c + 1) mod 2 = (if ?c mod 2 = 0 then 1 else 0)" by presburger
    have other: "hostedIn (swMatchups wk1) u v = hostedIn (swMatchups wk) u v +
        (if ?c mod 2 = 0 then (if u = lo \<and> v = hi then 1 else 0) else (if u = hi \<and> v = lo then 1 else 0))" for u v
      unfolding step1(2) hostedIn_def newMatchup_def by (cases "?c mod 2 = 0") simp_all
    show ?thesis
    proof (cases "a = lo \<and> b = hi")
      case True
      then have hit: "a = lo" "b = hi" "lo \<noteq> hi" using ord(1) by auto
      show ?thesis
      proof -
        have here: "hostedIn (swMatchups wk1) lo hi = hostedIn (swMatchups wk) lo hi + (if ?c mod 2 = 0 then 1 else 0)"
          "hostedIn (swMatchups wk1) hi lo = hostedIn (swMatchups wk) hi lo + (if ?c mod 2 = 0 then 0 else 1)"
          using other [of lo hi] other [of hi lo] hit(3) by simp_all
        have before: "?c = h lo hi + hostedIn (swMatchups wk) lo hi + (h hi lo + hostedIn (swMatchups wk) hi lo)"
          "h lo hi + hostedIn (swMatchups wk) lo hi - (h hi lo + hostedIn (swMatchups wk) hi lo) = ?c mod 2"
          using Cons.prems(1) by (simp_all add: balanced_def hit)
        have now: "counts1 (meetingKey lo hi) = ?c + 1" by (simp add: step1(1))
        show ?thesis
        proof (cases "?c mod 2 = 0")
          case True
          then have "hostedIn (swMatchups wk1) lo hi = hostedIn (swMatchups wk) lo hi + 1"
            "hostedIn (swMatchups wk1) hi lo = hostedIn (swMatchups wk) hi lo" "(?c + 1) mod 2 = 1"
            using here parity by simp_all
          then show ?thesis using True before unfolding balanced_def hit(1,2) now by (intro conjI; linarith)
        next
          case False
          then have "hostedIn (swMatchups wk1) lo hi = hostedIn (swMatchups wk) lo hi"
            "hostedIn (swMatchups wk1) hi lo = hostedIn (swMatchups wk) hi lo + 1" "(?c + 1) mod 2 = 0"
            using here parity by simp_all
          moreover have "?c mod 2 = 1" using False by presburger
          ultimately show ?thesis using before unfolding balanced_def hit(1,2) now by (intro conjI; linarith)
        qed
      qed
    next
      case False
      have not: "(a = lo \<and> b = hi) = False" "(a = hi \<and> b = lo) = False" "(b = lo \<and> a = hi) = False" "(b = hi \<and> a = lo) = False"
        using False Cons.prems(2) ord(1) by (blast dest: less_asym)+
      have "hostedIn (swMatchups wk1) a b = hostedIn (swMatchups wk) a b"
        using other [of a b] by (simp only: not if_False if_cancel add_0_right)
      moreover have "hostedIn (swMatchups wk1) b a = hostedIn (swMatchups wk) b a"
        using other [of b a] by (simp only: not if_False if_cancel add_0_right)
      moreover have "counts1 (meetingKey a b) = counts (meetingKey a b)"
        using False same step1(1) by simp
      ultimately show ?thesis using Cons.prems(1) by (simp only: balanced_def)
    qed
  qed
  have "fold (addPairing season week) pairs (counts1, wk1) = (counts', wk')" using Cons.prems(6) step by simp
  then show ?case using Cons.IH [OF now Cons.prems(2,3) free(3)] Cons.prems(5) by simp
qed simp

lemma hostedIn_perm: "mset ms = mset ms' \<Longrightarrow> hostedIn ms a b = hostedIn ms' a b"
  by (metis hostedIn_def mset_filter size_mset)

lemma hosted_simps [simp]:
  "hosted [] a b = 0" "hosted (w # ws) a b = hostedIn (swMatchups w) a b + hosted ws a b"
  by (simp_all add: hosted_def hostedIn_def)

lemma week_balanced:
  assumes "balanced counts h a b" "a < b" "CHR ''|'' \<notin> set a"
    and "\<forall>t\<in>set (slotsOf pairs). CHR ''|'' \<notin> set t" "\<forall>(x, y)\<in>set pairs. x \<noteq> y"
    and "addWeek season week pairs counts = (counts', wk)"
  shows "balanced counts' (\<lambda>x y. h x y + hostedIn (swMatchups wk) x y) a b"
proof -
  let ?wk = "\<lparr>swWeek = week, swMatchups = [], swBye = [], swClosedAt = 0\<rparr>"
  obtain wk0 where f: "fold (addPairing season week) pairs (counts, ?wk) = (counts', wk0)"
    and p: "mset (swMatchups wk) = mset (swMatchups wk0)" using addWeek_fold [OF assms(6)] by blast
  have "balanced counts (\<lambda>x y. h x y + hostedIn (swMatchups ?wk) x y) a b"
    using assms(1) by (simp add: hostedIn_def)
  from pairing_balanced [OF this assms(2-5) f] show ?thesis by (simp add: hostedIn_perm [OF p])
qed

lemma build_balanced:
  assumes "balanced counts h a b" "a < b" "CHR ''|'' \<notin> set a" "k \<le> length rounds"
    and "\<forall>pairs\<in>set rounds. (\<forall>t\<in>set (slotsOf pairs). CHR ''|'' \<notin> set t) \<and> (\<forall>(x, y)\<in>set pairs. x \<noteq> y)"
  shows "\<exists>c. balanced c (\<lambda>x y. h x y + hosted (take k (buildWeeks season week rounds counts)) x y) a b"
  using assms
proof (induction season week rounds counts arbitrary: k h rule: buildWeeks.induct)
  case (1 season week counts)
  then show ?case by auto
next
  case (2 season week pairs rounds counts)
  obtain counts' wk where step: "addWeek season week pairs counts = (counts', wk)" by fastforce
  show ?case
  proof (cases k)
    case 0
    then show ?thesis using "2.prems"(1) by auto
  next
    case (Suc j)
    have "balanced counts' (\<lambda>x y. h x y + hostedIn (swMatchups wk) x y) a b"
      using "2.prems" step by (intro week_balanced) auto
    from "2.IH" [OF step [symmetric] this "2.prems"(2,3), of j] "2.prems"(4,5) Suc
    show ?thesis by (simp add: step add.assoc)
  qed
qed

lemma slots_mem: "(x, y) \<in> set pairs \<Longrightarrow> x \<in> set (slotsOf pairs) \<and> y \<in> set (slotsOf pairs)"
  by (force simp: slotsOf_def)

lemma slots_differ: "distinct (slotsOf pairs) \<Longrightarrow> (x, y) \<in> set pairs \<Longrightarrow> x \<noteq> y"
  by (induction pairs) (auto simp: slotsOf_def)

text \<open>Venues alternate: at every point of the season the lexically smaller of two teams has hosted
  the other as often as it was hosted, or exactly once more when their number of meetings is odd.\<close>

theorem venues_alternate:
  assumes "generateSchedule rnd p = Inr sch" "drawsOK rnd p"
    and "a \<in> set (spTeamIDs p)" "a < b" "\<forall>t\<in>set (spTeamIDs p). CHR ''|'' \<notin> set t" "k \<le> nat (spWeeks p)"
  shows "hosted (take k (schWeeks sch)) a b - hosted (take k (schWeeks sch)) b a =
    (hosted (take k (schWeeks sch)) a b + hosted (take k (schWeeks sch)) b a) mod 2"
proof -
  note g = generated [OF assms(1,2)]
  note ring = ring_facts [of p rnd, OF g(1) assms(2)]
  let ?rounds = "map ((!) (scheduleRounds rnd p)) (scheduleSeq rnd p)"
  have "(\<forall>t\<in>set (slotsOf pairs). CHR ''|'' \<notin> set t) \<and> (\<forall>(x, y)\<in>set pairs. x \<noteq> y)" if pr: "pairs \<in> set ?rounds" for pairs
  proof -
    obtain w where w: "w < nat (spWeeks p)" "pairs = scheduleRounds rnd p ! (scheduleSeq rnd p ! w)"
    proof -
      obtain r where "r \<in> set (scheduleSeq rnd p)" "pairs = scheduleRounds rnd p ! r" using pr by auto
      then show ?thesis using that g(7) by (auto simp: in_set_conv_nth)
    qed
    have slots: "mset (slotsOf pairs) = mset (scheduleRing rnd p)"
      unfolding w(2) by (rule week_slots [OF assms(1,2) w(1)])
    have "{t \<in> set (scheduleRing rnd p). t \<noteq> byeSentinel} = set (spTeamIDs p)"
      using arg_cong [OF ring(5), of set_mset] by simp
    moreover have "set (slotsOf pairs) = set (scheduleRing rnd p)" using slots by (metis set_mset_mset)
    moreover have "CHR ''|'' \<notin> set byeSentinel" by (simp add: byeSentinel_def)
    moreover have "distinct (slotsOf pairs)" using slots ring(1) by (metis mset_eq_imp_distinct_iff)
    ultimately have "\<forall>t\<in>set (slotsOf pairs). CHR ''|'' \<notin> set t" using assms(5) by blast
    moreover have "\<forall>(x, y)\<in>set pairs. x \<noteq> y" using slots_differ [OF \<open>distinct (slotsOf pairs)\<close>] by blast
    ultimately show ?thesis by blast
  qed
  moreover have "balanced (\<lambda>k. 0) (\<lambda>x y. 0) a b" by (simp add: balanced_def)
  ultimately obtain c where "balanced c (\<lambda>x y. 0 + hosted (take k (schWeeks sch)) x y) a b"
    using build_balanced [of "\<lambda>k. 0" "\<lambda>x y. 0" a b k ?rounds "spSeason p" "firstWeek p"] assms(3-6) g(3,7)
    by auto
  then show ?thesis by (simp add: balanced_def)
qed

section \<open>A sample season\<close>

definition sampleParams :: schedule_params where
  "sampleParams = \<lparr>spSeason = 2026, spTeamIDs = [''a'', ''b'', ''c'', ''d'', ''e''],
     spDivisions = [(''a'', ''E''), (''b'', ''E''), (''c'', ''W''), (''d'', ''W'')], spStartWeek = 0, spWeeks = 12, spSeed = 7\<rparr>"

definition zeroDraws :: "int \<Rightarrow> nat \<Rightarrow> nat \<Rightarrow> nat" where
  "zeroDraws seed n i = 0"

lemma zeroDraws_le [simp]: "zeroDraws seed n i \<le> i"
  by (simp add: zeroDraws_def)

lemma sample_season:
  obtains sch where "generateSchedule zeroDraws sampleParams = Inr sch"
proof -
  have "validateScheduleParams sampleParams = None" by code_simp
  then show ?thesis using that by (simp add: generateSchedule_def Let_def)
qed

lemma sample_params [simp]:
  "nat (spWeeks sampleParams) = 12" "cycleLength sampleParams = 5"
  "spTeamIDs sampleParams = [''a'', ''b'', ''c'', ''d'', ''e'']"
  by (simp_all add: sampleParams_def cycleLength_def)

theorem generated_weeks_complete_witness:
  "\<exists>sch. generateSchedule zeroDraws sampleParams = Inr sch \<and> length (schWeeks sch) = 12 \<and>
     mset (weekTeams (schWeeks sch ! 3)) = mset [''a'', ''b'', ''c'', ''d'', ''e'']"
proof -
  obtain sch where sch: "generateSchedule zeroDraws sampleParams = Inr sch" by (rule sample_season)
  from generated_weeks_complete [OF sch] show ?thesis using sch by simp
qed

theorem full_cycle_round_robin_witness:
  "\<exists>sch. generateSchedule zeroDraws sampleParams = Inr sch \<and>
     (\<exists>!w. w \<in> {5..<10} \<and> plays (schWeeks sch ! w) ''b'' ''d'')"
proof -
  obtain sch where sch: "generateSchedule zeroDraws sampleParams = Inr sch" by (rule sample_season)
  from full_cycle_round_robin [OF sch, of "''b''" "''d''" 1] show ?thesis using sch by simp
qed

theorem trailing_rounds_favour_divisions_witness:
  "\<exists>seq. weekRoundSequence 12 5 (scheduleRounds zeroDraws sampleParams) (spDivisions sampleParams) =
     map (\<lambda>w. w mod 5) [0..<10] @ seq \<and> length seq = 2 \<and> distinct seq"
  using trailing_rounds_favour_divisions [of 5 "spDivisions sampleParams" 12 "scheduleRounds zeroDraws sampleParams"]
  by (auto simp: sampleParams_def)

theorem venues_alternate_witness:
  "\<exists>sch. generateSchedule zeroDraws sampleParams = Inr sch \<and>
     hosted (take 9 (schWeeks sch)) ''a'' ''c'' - hosted (take 9 (schWeeks sch)) ''c'' ''a'' =
       (hosted (take 9 (schWeeks sch)) ''a'' ''c'' + hosted (take 9 (schWeeks sch)) ''c'' ''a'') mod 2"
proof -
  obtain sch where sch: "generateSchedule zeroDraws sampleParams = Inr sch" by (rule sample_season)
  from venues_alternate [OF sch, of "''a''" "''c''" 9] show ?thesis using sch by simp
qed

end
