(* ===== verification/Playoffs.thy ===== *)
theory Playoffs
  imports Standings SeasonSchedule
begin

text \<open>
  The playoff engine (src/internal/league/playoffs.go): seeding, the first round with its byes, the
  rounds that follow, the consolation and toilet brackets and the sealed outcomes. Scores are exact
  rationals, so the explanation of a decision carries the scores and not their two decimals.
\<close>

datatype playoff_error = TeamCountRange | TeamCountExceeds int int | RoundLength | StartWeekEarly
  | NoDivisions | TooManyDivisions int int | BracketPastEnd int int | SeedMissing int bracket
  | UnknownMatchup string | NoOpponent string | OtherPlayoffError string

section \<open>Sizes\<close>

function pow2From :: "nat \<Rightarrow> nat \<Rightarrow> nat" where
  "pow2From k n = (if 2 ^ k < n then pow2From (Suc k) n else 2 ^ k)"
  by pat_completeness auto

termination pow2From
  by (relation "measure (\<lambda>(k, n). n - 2 ^ k)") (auto intro: diff_less_mono2)

function log2From :: "nat \<Rightarrow> nat \<Rightarrow> nat" where
  "log2From r n = (if 2 ^ r < n then log2From (Suc r) n else r)"
  by pat_completeness auto

termination log2From
  by (relation "measure (\<lambda>(r, n). n - 2 ^ r)") (auto intro: diff_less_mono2)

declare pow2From.simps [simp del] log2From.simps [simp del]

definition nextPow2 :: "int \<Rightarrow> int" where
  "nextPow2 n = (if n < 1 then 1 else int (pow2From 0 (nat n)))"

definition log2 :: "int \<Rightarrow> int" where
  "log2 n = int (log2From 0 (nat n))"

definition validatePlayoffConfig :: "playoff_config \<Rightarrow> int \<Rightarrow> int \<Rightarrow> int \<Rightarrow> int \<Rightarrow> playoff_error option" where
  "validatePlayoffConfig cfg leagueTeamCount divisionCount seasonStart seasonFinal =
     (if pcTeamCount cfg < 2 \<or> pcTeamCount cfg > 8 then Some TeamCountRange
      else if pcTeamCount cfg > leagueTeamCount then Some (TeamCountExceeds (pcTeamCount cfg) leagueTeamCount)
      else if pcRoundLengthWeeks cfg \<noteq> 1 \<and> pcRoundLengthWeeks cfg \<noteq> 2 then Some RoundLength
      else if pcStartWeek cfg \<le> seasonStart then Some StartWeekEarly
      else if pcDivisionWinnersFirst cfg \<and> divisionCount = 0 then Some NoDivisions
      else if pcDivisionWinnersFirst cfg \<and> pcTeamCount cfg < divisionCount
        then Some (TooManyDivisions (pcTeamCount cfg) divisionCount)
      else
        let rounds = log2 (nextPow2 (pcTeamCount cfg));
            end' = pcStartWeek cfg + rounds * pcRoundLengthWeeks cfg - 1
        in if end' > seasonFinal then Some (BracketPastEnd end' seasonFinal) else None)"

section \<open>Seeding\<close>

definition rankOrder :: "standing \<Rightarrow> standing \<Rightarrow> bool" where
  "rankOrder a b = (if stRank a \<noteq> stRank b then stRank a < stRank b else stTeamID a < stTeamID b)"

definition standingSeedExplanation :: "standing \<Rightarrow> string" where
  "standingSeedExplanation st = (if stDecidedBy st \<noteq> [] then ''final standings tie-break: '' @ stDecidedBy st
     else ''final standings record'')"

definition seedFrom :: "seed_source \<Rightarrow> standing \<Rightarrow> playoff_seed" where
  "seedFrom source st = \<lparr>psSeed = 0, psTeamID = stTeamID st, psSource = source,
     psExplanation = standingSeedExplanation st\<rparr>"

text \<open>The best-ranked team of every division, until the field is full.\<close>

fun divisionWinners :: "(team_id \<times> string) list \<Rightarrow> nat \<Rightarrow> string list \<Rightarrow> standing list \<Rightarrow> standing list" where
  "divisionWinners divisions room seen [] = []"
| "divisionWinners divisions room seen (st # sts) =
     (let d = divisionOf divisions (stTeamID st) in
      if d = [] \<or> d \<in> set seen then divisionWinners divisions room seen sts
      else if room \<le> 1 then [st]
      else st # divisionWinners divisions (room - 1) (d # seen) sts)"

definition numberSeeds :: "playoff_seed list \<Rightarrow> playoff_seed list" where
  "numberSeeds seeds = map (\<lambda>i. (seeds ! i)\<lparr>psSeed := int i + 1\<rparr>) [0..<length seeds]"

definition seedPlayoffs :: "standing list \<Rightarrow> (team_id \<times> string) list \<Rightarrow> playoff_config \<Rightarrow> playoff_error + playoff_seed list" where
  "seedPlayoffs standings divisions cfg =
     (let n = nat (pcTeamCount cfg); ordered = sortStable rankOrder standings in
      if pcTeamCount cfg < 2 \<or> pcTeamCount cfg > 8 then Inl TeamCountRange
      else if pcTeamCount cfg > int (length standings) then Inl (TeamCountExceeds (pcTeamCount cfg) (int (length standings)))
      else if pcDivisionWinnersFirst cfg \<and> divisions \<noteq> [] then
        (let winners = divisionWinners divisions n [] ordered;
             others = filter (\<lambda>st. stTeamID st \<notin> stTeamID ` set winners) ordered
         in Inr (numberSeeds (map (seedFrom DivisionWinner) winners @
              map (seedFrom Wildcard) (take (n - length winners) others))))
      else Inr (numberSeeds (map (seedFrom Field) (take n ordered))))"

definition rankOnlyOrder :: "standing \<Rightarrow> standing \<Rightarrow> bool" where
  "rankOnlyOrder a b = (stRank a < stRank b)"

definition nonPlayoffToiletSeeds :: "standing list \<Rightarrow> int \<Rightarrow> playoff_seed list" where
  "nonPlayoffToiletSeeds standings teamCount =
     (let ordered = sortStable rankOnlyOrder standings in
      if teamCount \<ge> int (length ordered) then []
      else
        let rest = rev (drop (nat teamCount) ordered)
        in map (\<lambda>i. \<lparr>psSeed = int i + 1, psTeamID = stTeamID (rest ! i), psSource = Field, psExplanation = []\<rparr>)
             [0..<length rest])"

section \<open>The first round\<close>

definition bracketName :: "bracket \<Rightarrow> string" where
  "bracketName b = (case b of Championship \<Rightarrow> ''championship'' | Consolation \<Rightarrow> ''consolation'' | Toilet \<Rightarrow> ''toilet'')"

definition playoffMatchupID :: "bracket \<Rightarrow> int \<Rightarrow> int \<Rightarrow> int \<Rightarrow> string" where
  "playoffMatchupID b r home away =
     bracketName b @ ''-r'' @ itoa r @ ''-s'' @ itoa home @ ''-s'' @ itoa away"

definition bySeed :: "playoff_seed list \<Rightarrow> int \<Rightarrow> playoff_seed option" where
  "bySeed seeds n = map_of (rev (map (\<lambda>s. (psSeed s, s)) seeds)) n"

definition round1Matchup :: "playoff_seed list \<Rightarrow> bracket \<Rightarrow> int \<Rightarrow> int \<Rightarrow> int \<Rightarrow> playoff_error + playoff_matchup" where
  "round1Matchup seeds b week slots k =
     (let away = slots + 1 - k in
      case bySeed seeds k of None \<Rightarrow> Inl (SeedMissing k b)
      | Some home \<Rightarrow>
          (let m = \<lparr>pmID = playoffMatchupID b 1 k away, pmBracket = b, pmRound = 1, pmWeek = week, pmHomeSeed = k,
                 pmAwaySeed = 0, pmHome = psTeamID home, pmAway = [], pmHomeScore = 0, pmAwayScore = 0, pmWinner = [],
                 pmFinal = False, pmExplanation = Undecided, pmProvenance = None\<rparr>
           in case bySeed seeds away of
                Some a \<Rightarrow> Inr (m\<lparr>pmAwaySeed := away, pmAway := psTeamID a\<rparr>)
              | None \<Rightarrow> Inr (m\<lparr>pmFinal := True, pmWinner := psTeamID home, pmExplanation := ByeAdvance k\<rparr>)))"

fun collect :: "('a \<Rightarrow> 'e + 'b) \<Rightarrow> 'a list \<Rightarrow> 'e + 'b list" where
  "collect f [] = Inr []"
| "collect f (x # xs) = (case f x of Inl e \<Rightarrow> Inl e
     | Inr y \<Rightarrow> (case collect f xs of Inl e \<Rightarrow> Inl e | Inr ys \<Rightarrow> Inr (y # ys)))"

definition pairBracketRound1 :: "playoff_seed list \<Rightarrow> bracket \<Rightarrow> int \<Rightarrow> playoff_error + playoff_matchup list" where
  "pairBracketRound1 seeds b week =
     (let slots = nextPow2 (int (length seeds))
      in collect (round1Matchup seeds b week slots) [1..slots div 2])"

definition roundWeek :: "playoff_config \<Rightarrow> int \<Rightarrow> int" where
  "roundWeek cfg r = pcStartWeek cfg + (r - 1) * pcRoundLengthWeeks cfg"

definition emptyProvenance :: playoff_provenance where
  "emptyProvenance = \<lparr>provSnapshotID = [], provSource = [], provSourceState = [], provCapturedAt = 0, provFinalWeek = 0,
     provStartWeek = 0, provTiebreakOrder = [], provAuthoritative = False\<rparr>"

definition newPlayoffState :: "playoff_config \<Rightarrow> playoff_seed list \<Rightarrow> playoff_matchup list \<Rightarrow> playoff_state" where
  "newPlayoffState cfg seeds ms = \<lparr>plConfig = cfg, plSeeds = seeds, plMatchups = ms, plChampion = [], plRunnerUp = [],
     plConsolationWinner = [], plToilet = [], plStatus = StatusNone, plPreviewID = [], plRevision = 0, plPreviewedAt = 0,
     plPublishedAt = 0, plProvenance = emptyProvenance, plAudit = []\<rparr>"

definition generatePlayoffState :: "standing list \<Rightarrow> (team_id \<times> string) list \<Rightarrow> playoff_config \<Rightarrow> playoff_error + playoff_state" where
  "generatePlayoffState standings divisions cfg =
     (if pcTeamCount cfg < 2 \<or> pcTeamCount cfg > 8 then Inl TeamCountRange
      else if pcTeamCount cfg > int (length standings) then Inl (TeamCountExceeds (pcTeamCount cfg) (int (length standings)))
      else case seedPlayoffs standings divisions cfg of Inl e \<Rightarrow> Inl e
      | Inr seeds \<Rightarrow>
          (case pairBracketRound1 seeds Championship (roundWeek cfg 1) of Inl e \<Rightarrow> Inl e
           | Inr champ \<Rightarrow>
              (let toiletSeeds = nonPlayoffToiletSeeds standings (pcTeamCount cfg) in
               if pcToiletBowl cfg \<and> length toiletSeeds \<ge> 2 then
                 (case pairBracketRound1 toiletSeeds Toilet (roundWeek cfg 1) of Inl e \<Rightarrow> Inl e
                  | Inr toilet \<Rightarrow> Inr (newPlayoffState cfg seeds (champ @ toilet)))
               else Inr (newPlayoffState cfg seeds champ))))"

section \<open>Results\<close>

record round_result =
  rrMatchupID :: string
  rrHomeScore :: rat
  rrAwayScore :: rat
  rrHomeBest :: rat
  rrAwayBest :: rat
  rrFinal :: bool
  rrAuthoritative :: bool
  rrSourceState :: string
  rrSource :: string
  rrObservedAt :: time

definition resolvePlayoffWinner :: "playoff_matchup \<Rightarrow> round_result \<Rightarrow> team_id" where
  "resolvePlayoffWinner m res =
     (if pmHomeScore m \<noteq> pmAwayScore m then (if pmHomeScore m > pmAwayScore m then pmHome m else pmAway m)
      else if rrHomeBest res \<noteq> rrAwayBest res then (if rrHomeBest res > rrAwayBest res then pmHome m else pmAway m)
      else if pmHomeSeed m \<le> pmAwaySeed m then pmHome m else pmAway m)"

definition playoffWinnerExplanation :: "playoff_matchup \<Rightarrow> round_result \<Rightarrow> decision" where
  "playoffWinnerExplanation m res =
     (if pmHomeScore m \<noteq> pmAwayScore m then ScoreDecides (pmHomeScore m) (pmAwayScore m)
      else if rrHomeBest res \<noteq> rrAwayBest res then BestWeekDecides (rrHomeBest res) (rrAwayBest res)
      else SeedDecides (pmHomeSeed m) (pmAwaySeed m))"

definition lowerChar :: "char \<Rightarrow> char" where
  "lowerChar c = (let n = (of_char c :: nat) in if 65 \<le> n \<and> n \<le> 90 then char_of (n + 32) else c)"

definition toLower :: "string \<Rightarrow> string" where
  "toLower s = map lowerChar s"

definition playoffResultProvenance :: "round_result \<Rightarrow> result_provenance option" where
  "playoffResultProvenance res =
     (if rrSource res = [] \<and> rrSourceState res = [] \<and> isZero (rrObservedAt res) \<and> \<not> rrAuthoritative res then None
      else Some \<lparr>rpSource = rrSource res, rpState = toLower (trimSpace (rrSourceState res)),
        rpObservedAt = rrObservedAt res, rpAuthoritative = rrAuthoritative res\<rparr>)"

definition decide :: "round_result \<Rightarrow> playoff_matchup \<Rightarrow> playoff_matchup" where
  "decide res m =
     (let scored = m\<lparr>pmHomeScore := rrHomeScore res, pmAwayScore := rrAwayScore res, pmFinal := True\<rparr>
      in scored\<lparr>pmWinner := resolvePlayoffWinner scored res, pmExplanation := playoffWinnerExplanation scored res,
           pmProvenance := playoffResultProvenance res\<rparr>)"

text \<open>The map from matchup ID to index keeps the last index of an ID.\<close>

definition lastIndex :: "playoff_matchup list \<Rightarrow> string \<Rightarrow> nat option" where
  "lastIndex ms i = (case indexWhere (\<lambda>m. pmID m = i) (rev ms) of None \<Rightarrow> None | Some k \<Rightarrow> Some (length ms - 1 - k))"

fun applyResults :: "round_result list \<Rightarrow> playoff_matchup list \<Rightarrow> playoff_error + playoff_matchup list" where
  "applyResults [] ms = Inr ms"
| "applyResults (res # rest) ms =
     (case lastIndex ms (rrMatchupID res) of None \<Rightarrow> Inl (UnknownMatchup (rrMatchupID res))
      | Some k \<Rightarrow>
          if pmFinal (ms ! k) then applyResults rest ms
          else if pmHome (ms ! k) = [] \<or> pmAway (ms ! k) = [] then Inl (NoOpponent (rrMatchupID res))
          else applyResults rest (ms[k := decide res (ms ! k)]))"

section \<open>The rounds after the first\<close>

definition presentBrackets :: "playoff_matchup list \<Rightarrow> bracket list" where
  "presentBrackets ms = foldl (\<lambda>out b. if b \<in> set out then out else out @ [b]) [] (map pmBracket ms)"

definition matchupsForRound :: "playoff_matchup list \<Rightarrow> bracket \<Rightarrow> int \<Rightarrow> playoff_matchup list" where
  "matchupsForRound ms b r = filter (\<lambda>m. pmBracket m = b \<and> pmRound m = r) ms"

definition allFinal :: "playoff_matchup list \<Rightarrow> bool" where
  "allFinal ms = (ms \<noteq> [] \<and> list_all pmFinal ms)"

definition bracketTotalRounds :: "playoff_config \<Rightarrow> playoff_matchup list \<Rightarrow> bracket \<Rightarrow> int" where
  "bracketTotalRounds cfg ms b =
     (if b = Championship then log2 (nextPow2 (pcTeamCount cfg))
      else
        let round1 = matchupsForRound ms b 1
        in if round1 = [] then 0 else log2 (int (length round1) * 2))"

text \<open>Seed and team of the side that goes on: the winner, or in the toilet bracket the loser.\<close>

definition advancer :: "bool \<Rightarrow> playoff_matchup \<Rightarrow> int \<times> team_id" where
  "advancer losers m =
     (if losers \<and> pmAway m \<noteq> [] then
        (if pmWinner m = pmHome m then (pmAwaySeed m, pmAway m) else (pmHomeSeed m, pmHome m))
      else (if pmWinner m \<noteq> pmHome m then pmAwaySeed m else pmHomeSeed m, pmWinner m))"

definition laterMatchup :: "bracket \<Rightarrow> int \<Rightarrow> int \<Rightarrow> int \<times> team_id \<Rightarrow> int \<times> team_id \<Rightarrow> playoff_matchup" where
  "laterMatchup b r week home away = \<lparr>pmID = playoffMatchupID b r (fst home) (fst away), pmBracket = b, pmRound = r,
     pmWeek = week, pmHomeSeed = fst home, pmAwaySeed = fst away, pmHome = snd home, pmAway = snd away,
     pmHomeScore = 0, pmAwayScore = 0, pmWinner = [], pmFinal = False, pmExplanation = Undecided, pmProvenance = None\<rparr>"

definition nextRoundMatchups :: "playoff_matchup list \<Rightarrow> bracket \<Rightarrow> int \<Rightarrow> int \<Rightarrow> bool \<Rightarrow> bool \<Rightarrow> playoff_matchup list" where
  "nextRoundMatchups prev b r week reseed losers =
     (let adv = map (advancer losers) prev;
          advancers = (if reseed then sortStable (\<lambda>x y. fst x < fst y) adv else adv);
          n = length advancers
      in map (\<lambda>i. if reseed then laterMatchup b r week (advancers ! i) (advancers ! (n - 1 - i))
           else laterMatchup b r week (advancers ! (2 * i)) (advancers ! (2 * i + 1))) [0..<n div 2])"

definition round1Losers :: "playoff_matchup list \<Rightarrow> playoff_seed list" where
  "round1Losers round1 = map (\<lambda>m. case (if pmWinner m = pmAway m then (pmHomeSeed m, pmHome m) else (pmAwaySeed m, pmAway m)) of
       (seed, t) \<Rightarrow> \<lparr>psSeed = seed, psTeamID = t, psSource = Field, psExplanation = []\<rparr>)
     (filter (\<lambda>m. pmAway m \<noteq> []) round1)"

definition reseedBySeedAscending :: "playoff_seed list \<Rightarrow> playoff_seed list" where
  "reseedBySeedAscending seeds = numberSeeds (sortStable (\<lambda>a b. psSeed a < psSeed b) seeds)"

definition loserOf :: "playoff_matchup \<Rightarrow> team_id" where
  "loserOf m = (if pmWinner m = pmAway m then pmHome m else pmAway m)"

definition finalizeBracket :: "bracket \<Rightarrow> playoff_matchup list \<Rightarrow> playoff_state \<Rightarrow> playoff_state" where
  "finalizeBracket b finalRound st =
     (case finalRound of [m] \<Rightarrow>
        (case b of Championship \<Rightarrow> st\<lparr>plChampion := pmWinner m, plRunnerUp := loserOf m\<rparr>
         | Consolation \<Rightarrow> st\<lparr>plConsolationWinner := pmWinner m\<rparr>
         | Toilet \<Rightarrow> st\<lparr>plToilet := loserOf m\<rparr>)
      | _ \<Rightarrow> st)"

definition maxRound :: "playoff_matchup list \<Rightarrow> bracket \<Rightarrow> int" where
  "maxRound ms b = fold (\<lambda>m r. if pmBracket m = b \<and> pmRound m > r then pmRound m else r) ms 0"

definition advanceRounds :: "bracket \<Rightarrow> int \<Rightarrow> playoff_matchup list \<Rightarrow> playoff_state \<Rightarrow> playoff_state" where
  "advanceRounds b r current st =
     (let ms = plMatchups st; cfg = plConfig st in
      if r \<ge> bracketTotalRounds cfg ms b then finalizeBracket b current st
      else if matchupsForRound ms b (r + 1) = [] then
        st\<lparr>plMatchups := ms @ nextRoundMatchups current b (r + 1)
          (if b = Consolation then roundWeek cfg (r + 2) else roundWeek cfg (r + 1)) (pcReseed cfg) (b = Toilet)\<rparr>
      else st)"

definition spawnConsolation :: "bracket \<Rightarrow> int \<Rightarrow> playoff_matchup list \<Rightarrow> playoff_state \<Rightarrow> playoff_state" where
  "spawnConsolation b r current st =
     (if b = Championship \<and> r = 1 \<and> pcConsolation (plConfig st) \<and> matchupsForRound (plMatchups st) Consolation 1 = [] \<and>
         length (round1Losers current) \<ge> 2
      then (case pairBracketRound1 (reseedBySeedAscending (round1Losers current)) Consolation (roundWeek (plConfig st) 2) of
          Inl _ \<Rightarrow> st
        | Inr ms \<Rightarrow> st\<lparr>plMatchups := plMatchups st @ ms\<rparr>)
      else st)"

definition advanceBracket :: "bracket \<Rightarrow> playoff_state \<Rightarrow> playoff_state" where
  "advanceBracket b st =
     (let r = maxRound (plMatchups st) b; current = matchupsForRound (plMatchups st) b r in
      if r = 0 \<or> \<not> allFinal current then st
      else spawnConsolation b r current (advanceRounds b r current st))"

definition advancePlayoffRound :: "playoff_state \<Rightarrow> round_result list \<Rightarrow> playoff_error + playoff_state" where
  "advancePlayoffRound st results =
     (case applyResults results (plMatchups st) of Inl e \<Rightarrow> Inl e
      | Inr ms \<Rightarrow> Inr (fold advanceBracket (presentBrackets ms) (st\<lparr>plMatchups := ms\<rparr>)))"

end
