(* ===== verification/Brackets.thy ===== *)
theory Brackets
  imports Playoffs
begin

text \<open>
  The shape of a playoff bracket and its invariant: how many matchups a round has, who plays in it
  and who comes out of it.
\<close>

section \<open>Sizes\<close>

lemma log2From_least:
  "n \<le> 2 ^ log2From r n \<and> r \<le> log2From r n \<and> (log2From r n = r \<or> 2 ^ (log2From r n - 1) < n)"
proof (induction r n rule: log2From.induct)
  case (1 r n)
  show ?case
  proof (cases "2 ^ r < n")
    case True
    then have "log2From r n = log2From (Suc r) n" by (subst log2From.simps) simp
    then show ?thesis using 1 [OF True] True by auto
  qed (subst log2From.simps, simp)+
qed

lemma pow2From_log2From: "pow2From r n = 2 ^ log2From r n"
proof (induction r n rule: pow2From.induct)
  case (1 r n)
  show ?case
  proof (cases "2 ^ r < n")
    case True
    then show ?thesis using 1 [OF True] by (subst pow2From.simps, subst log2From.simps) simp
  qed (subst pow2From.simps, subst log2From.simps, simp)
qed

definition roundsFor :: "nat \<Rightarrow> nat" where
  "roundsFor n = log2From 0 n"

lemma roundsFor_bounds: "n \<le> 2 ^ roundsFor n" "2 \<le> n \<Longrightarrow> 2 ^ (roundsFor n - 1) < n" "2 \<le> n \<Longrightarrow> 1 \<le> roundsFor n"
proof -
  show "n \<le> 2 ^ roundsFor n" using log2From_least [of n 0] by (simp add: roundsFor_def)
  show one: "1 \<le> roundsFor n" if "2 \<le> n"
  proof (rule ccontr)
    assume "\<not> 1 \<le> roundsFor n"
    then have "roundsFor n = 0" by simp
    then have "n \<le> 1" using \<open>n \<le> 2 ^ roundsFor n\<close> by simp
    then show False using that by simp
  qed
  show "2 ^ (roundsFor n - 1) < n" if "2 \<le> n"
    using log2From_least [of n 0] one [OF that] by (simp add: roundsFor_def)
qed

lemma roundsFor_pow2 [simp]: "roundsFor (2 ^ k) = k"
proof -
  have "(2 :: nat) ^ k \<le> 2 ^ roundsFor (2 ^ k)" by (rule roundsFor_bounds(1))
  then have "k \<le> roundsFor (2 ^ k)" by simp
  moreover have "roundsFor (2 ^ k) \<le> k"
    using log2From_least [of "2 ^ k" 0] by (auto simp: roundsFor_def)
  ultimately show ?thesis by simp
qed

lemma nextPow2_rounds: "1 \<le> n \<Longrightarrow> nextPow2 (int n) = 2 ^ roundsFor n" "log2 (2 ^ k) = int k"
proof -
  show "1 \<le> n \<Longrightarrow> nextPow2 (int n) = 2 ^ roundsFor n"
    by (simp add: nextPow2_def pow2From_log2From roundsFor_def)
  have "nat ((2 :: int) ^ k) = 2 ^ k" by (simp add: nat_power_eq)
  then show "log2 (2 ^ k) = int k" using roundsFor_pow2 [of k] by (simp only: log2_def roundsFor_def)
qed

section \<open>Who plays in a round\<close>

type_synonym entrant = "int \<times> team_id"

definition sidesOf :: "playoff_matchup \<Rightarrow> entrant \<times> entrant" where
  "sidesOf m = ((pmHomeSeed m, pmHome m), (pmAwaySeed m, pmAway m))"

definition entrants :: "playoff_matchup list \<Rightarrow> entrant list" where
  "entrants ms = filter (\<lambda>e. snd e \<noteq> []) (slotsOf (map sidesOf ms))"

lemma slotsOf_simps [simp]:
  "slotsOf [] = []" "slotsOf ((a, b) # ps) = a # b # slotsOf ps" "slotsOf (ps @ qs) = slotsOf ps @ slotsOf qs"
  by (simp_all add: slotsOf_def)

lemma entrants_simps [simp]:
  "entrants [] = []"
  "entrants (m # ms) = (if pmHome m = [] then [] else [(pmHomeSeed m, pmHome m)]) @
     (if pmAway m = [] then [] else [(pmAwaySeed m, pmAway m)]) @ entrants ms"
  by (simp_all add: entrants_def sidesOf_def)

text \<open>A matchup has a home side; a bye is final; a final matchup was won by one of its sides.\<close>

definition matchupOK :: "playoff_matchup \<Rightarrow> bool" where
  "matchupOK m \<longleftrightarrow> pmHome m \<noteq> [] \<and> pmHome m \<noteq> pmAway m \<and>
     (pmAway m = [] \<longrightarrow> pmFinal m \<and> pmWinner m = pmHome m) \<and>
     (pmFinal m \<longrightarrow> pmWinner m = pmHome m \<or> (pmWinner m = pmAway m \<and> pmAway m \<noteq> []))"

definition roundOK :: "playoff_matchup list \<Rightarrow> bool" where
  "roundOK ms \<longleftrightarrow> list_all matchupOK ms \<and> distinct (map fst (entrants ms)) \<and> distinct (map snd (entrants ms))"

lemma advancer_cases:
  assumes "matchupOK m" "pmFinal m"
  shows "advancer losers m = (pmHomeSeed m, pmHome m) \<or> (advancer losers m = (pmAwaySeed m, pmAway m) \<and> pmAway m \<noteq> [])"
  using assms by (auto simp: advancer_def matchupOK_def)

lemma advancers_entrants:
  assumes "list_all matchupOK ms" "list_all pmFinal ms"
  shows "mset (map (advancer losers) ms) \<subseteq># mset (entrants ms)"
  using assms
proof (induction ms)
  case (Cons m ms)
  then have ih: "mset (map (advancer losers) ms) \<subseteq># mset (entrants ms)" by simp
  have one: "{#advancer losers m#} \<subseteq># mset (entrants [m])"
    using advancer_cases [of m losers] Cons.prems by (auto simp: matchupOK_def)
  have "mset (map (advancer losers) (m # ms)) = {#advancer losers m#} + mset (map (advancer losers) ms)" by simp
  moreover have "mset (entrants (m # ms)) = mset (entrants [m]) + mset (entrants ms)" by simp
  ultimately show ?case using subset_mset.add_mono [OF one ih] by argo
qed simp

lemma distinct_submset:
  assumes "mset xs \<subseteq># mset ys" "distinct ys"
  shows "distinct xs"
  unfolding distinct_count_atmost_1
proof
  fix a
  have "count (mset xs) a \<le> count (mset ys) a" using assms(1) by (rule mset_subset_eq_count)
  also have "\<dots> \<le> 1" using assms(2) by (simp add: distinct_count_atmost_1)
  finally have "count (mset xs) a \<le> 1" .
  moreover have "1 \<le> count (mset xs) a" if "a \<in> set xs"
    using that by (simp add: Suc_le_eq count_greater_zero_iff)
  moreover have "count (mset xs) a = 0" if "a \<notin> set xs" using that by simp
  ultimately show "count (mset xs) a = (if a \<in> set xs then 1 else 0)"
    by (cases "a \<in> set xs") (simp_all add: le_antisym)
qed

lemma advancers_map_distinct:
  assumes "mset (map (advancer losers) ms) \<subseteq># mset (entrants ms)" "distinct (map f (entrants ms))"
  shows "distinct (map f (map (advancer losers) ms))"
proof -
  have "mset (map f (map (advancer losers) ms)) \<subseteq># mset (map f (entrants ms))"
    using image_mset_subseteq_mono [OF assms(1), of f] unfolding mset_map .
  then show ?thesis using assms(2) by (rule distinct_submset)
qed

lemma advancers_distinct:
  assumes "roundOK ms" "list_all pmFinal ms"
  shows "distinct (map fst (map (advancer losers) ms))" "distinct (map snd (map (advancer losers) ms))"
    "\<forall>e\<in>set (map (advancer losers) ms). snd e \<noteq> []" "set (map (advancer losers) ms) \<subseteq> set (entrants ms)"
proof -
  have ok: "list_all matchupOK ms" using assms(1) by (simp add: roundOK_def)
  have sub: "mset (map (advancer losers) ms) \<subseteq># mset (entrants ms)" by (rule advancers_entrants [OF ok assms(2)])
  show "distinct (map fst (map (advancer losers) ms))" "distinct (map snd (map (advancer losers) ms))"
    by (rule advancers_map_distinct [OF sub], use assms(1) in \<open>simp add: roundOK_def\<close>)+
  show s: "set (map (advancer losers) ms) \<subseteq> set (entrants ms)" using set_mset_mono [OF sub] by simp
  show "\<forall>e\<in>set (map (advancer losers) ms). snd e \<noteq> []" using s by (auto simp: entrants_def)
qed

section \<open>The next round\<close>

lemma adjacent_slots:
  "even (length xs) \<Longrightarrow> slotsOf (map (\<lambda>i. (xs ! (2 * i), xs ! (2 * i + 1))) [0..<length xs div 2]) = xs"
proof (induction xs rule: induct_list012)
  case (3 x y zs)
  have "map (\<lambda>i. ((x # y # zs) ! (2 * i), (x # y # zs) ! (2 * i + 1))) [0..<length (x # y # zs) div 2] =
      (x, y) # map (\<lambda>i. (zs ! (2 * i), zs ! (2 * i + 1))) [0..<length zs div 2]"
    by (simp add: upt_conv_Cons del: upt_Suc flip: map_Suc_upt)
  then show ?case using 3 by simp
qed simp_all

lemma slots_filter_id: "\<forall>e\<in>set (slotsOf ps). P e \<Longrightarrow> filter P (slotsOf ps) = slotsOf ps"
  by (simp add: filter_id_conv)

lemma slots_map_differ: "distinct (map f (slotsOf ps)) \<Longrightarrow> (h, a) \<in> set ps \<Longrightarrow> f h \<noteq> f a"
  by (induction ps) auto

lemma next_round:
  fixes b r week reseed losers
  assumes "roundOK prev" "list_all pmFinal prev" "even (length prev)"
  defines "ns \<equiv> nextRoundMatchups prev b r week reseed losers"
  shows "length ns = length prev div 2" "mset (entrants ns) = mset (map (advancer losers) prev)"
    "roundOK ns" "\<forall>m\<in>set ns. pmBracket m = b \<and> pmRound m = r \<and> \<not> pmFinal m"
    "\<forall>m\<in>set ns. pmID m = playoffMatchupID b r (pmHomeSeed m) (pmAwaySeed m)"
proof -
  let ?adv = "map (advancer losers) prev"
  define advs where "advs = (if reseed then sortStable (\<lambda>x y. fst x < fst y) ?adv else ?adv)"
  define ps where "ps = (if reseed then roundPairs advs
    else map (\<lambda>i. (advs ! (2 * i), advs ! (2 * i + 1))) [0..<length advs div 2])"
  have ns: "ns = map (\<lambda>(h, a). laterMatchup b r week h a) ps"
    by (simp add: ns_def nextRoundMatchups_def advs_def ps_def Let_def roundPairs_def comp_def)
  have perm: "mset advs = mset ?adv" by (simp add: advs_def)
  then have len: "length advs = length prev" by (metis length_map size_mset)
  then show "length ns = length prev div 2" by (simp add: ns ps_def roundPairs_def)
  have slots: "mset (slotsOf ps) = mset advs"
    using assms(3) len mset_roundPairs [of advs] adjacent_slots [of advs] by (simp add: ps_def)
  note dis = advancers_distinct [OF assms(1,2), of losers]
  have set_advs: "set advs = set ?adv" using perm by (metis set_mset_mset)
  have set_slots: "set (slotsOf ps) = set advs" using slots by (metis set_mset_mset)
  have "map sidesOf ns = ps" by (simp add: ns comp_def case_prod_unfold laterMatchup_def sidesOf_def)
  then have ent: "entrants ns = slotsOf ps"
    using dis(3) set_advs set_slots by (simp add: entrants_def slots_filter_id)
  then show m: "mset (entrants ns) = mset ?adv" using slots perm by simp
  have d: "distinct (map fst (entrants ns))" "distinct (map snd (entrants ns))"
    using dis(1,2) m by (metis mset_eq_imp_distinct_iff mset_map)+
  show "\<forall>m\<in>set ns. pmBracket m = b \<and> pmRound m = r \<and> \<not> pmFinal m"
    "\<forall>m\<in>set ns. pmID m = playoffMatchupID b r (pmHomeSeed m) (pmAwaySeed m)"
    by (auto simp: ns laterMatchup_def)
  have "matchupOK m" if mem_ns: "m \<in> set ns" for m
  proof -
    have dd: "distinct (map snd (slotsOf ps))" using d(2) ent by simp
    obtain h a where ha: "(h, a) \<in> set ps" "m = laterMatchup b r week h a" using mem_ns by (auto simp: ns)
    have mem: "h \<in> set (slotsOf ps) \<and> a \<in> set (slotsOf ps)" by (rule slots_mem [OF ha(1)])
    have "snd h \<noteq> snd a" using slots_map_differ [OF dd ha(1)] .
    then show ?thesis using mem dis(3) set_advs set_slots by (auto simp: ha(2) matchupOK_def laterMatchup_def)
  qed
  then show "roundOK ns" using d by (simp add: roundOK_def list_all_iff)
qed

section \<open>The first round\<close>

definition paddedSeeds :: "nat \<Rightarrow> playoff_seed list \<Rightarrow> entrant list" where
  "paddedSeeds slots seeds = map (\<lambda>s. (psSeed s, psTeamID s)) seeds @ replicate (slots - length seeds) (0, [])"

definition numbered :: "playoff_seed list \<Rightarrow> bool" where
  "numbered seeds \<longleftrightarrow> (\<forall>i<length seeds. psSeed (seeds ! i) = int i + 1)"

lemma bySeed_numbered:
  assumes "numbered seeds"
  shows "bySeed seeds (int i + 1) = (if i < length seeds then Some (seeds ! i) else None)"
proof -
  let ?kvs = "map (\<lambda>s. (psSeed s, s)) seeds"
  have keys: "map fst ?kvs = map (\<lambda>i. int i + 1) [0..<length seeds]"
    using assms by (intro nth_equalityI) (simp_all add: numbered_def)
  have dis: "distinct (map fst (rev ?kvs))"
    unfolding rev_map [symmetric] distinct_rev keys by (simp add: distinct_map inj_on_def)
  show ?thesis
  proof (cases "i < length seeds")
    case True
    then have "(int i + 1, seeds ! i) \<in> set (rev ?kvs)" using assms by (force simp: numbered_def in_set_conv_nth)
    then show ?thesis using map_of_is_SomeI [OF dis] True by (simp add: bySeed_def)
  next
    case False
    have "int i + 1 \<notin> set (map fst ?kvs)" unfolding keys using False by auto
    then show ?thesis using False by (simp add: bySeed_def map_of_eq_None_iff image_image)
  qed
qed

lemma collect_Inr:
  "(\<forall>x\<in>set xs. f x = Inr (g x)) \<Longrightarrow> collect f xs = Inr (map g xs)"
  by (induction xs) simp_all

definition firstRound :: "playoff_seed list \<Rightarrow> bracket \<Rightarrow> int \<Rightarrow> nat \<Rightarrow> nat \<Rightarrow> playoff_matchup" where
  "firstRound seeds b week slots i =
     (let away = slots - 1 - i; bye = \<not> away < length seeds in
      \<lparr>pmID = playoffMatchupID b 1 (int i + 1) (int slots - int i), pmBracket = b, pmRound = 1, pmWeek = week,
       pmHomeSeed = int i + 1, pmAwaySeed = (if bye then 0 else int slots - int i), pmHome = psTeamID (seeds ! i),
       pmAway = (if bye then [] else psTeamID (seeds ! away)), pmHomeScore = 0, pmAwayScore = 0,
       pmWinner = (if bye then psTeamID (seeds ! i) else []), pmFinal = bye,
       pmExplanation = (if bye then ByeAdvance (int i + 1) else Undecided), pmProvenance = None\<rparr>)"

lemma first_round:
  assumes "numbered seeds" "2 \<le> length seeds" "distinct (map psTeamID seeds)" "[] \<notin> set (map psTeamID seeds)"
  shows "\<exists>ms. pairBracketRound1 seeds b week = Inr ms \<and> length ms = 2 ^ (roundsFor (length seeds) - 1) \<and>
    mset (entrants ms) = mset (map (\<lambda>s. (psSeed s, psTeamID s)) seeds) \<and> roundOK ms \<and>
    (\<forall>m\<in>set ms. pmBracket m = b \<and> pmRound m = 1) \<and> distinct (map pmHomeSeed ms) \<and>
    (\<exists>m\<in>set ms. \<not> pmFinal m)"
proof -
  let ?n = "length seeds" and ?T = "roundsFor (length seeds)"
  define slots where "slots = (2 :: nat) ^ ?T"
  define h where "h = (2 :: nat) ^ (?T - 1)"
  note T = roundsFor_bounds(3) [OF assms(2)]
  have sh: "slots = 2 * h" using T by (cases ?T) (simp_all add: slots_def h_def)
  have lt: "h < ?n" "?n \<le> slots" using roundsFor_bounds(1) roundsFor_bounds(2) [OF assms(2)] by (simp_all add: h_def slots_def)
  define ms where "ms = map (firstRound seeds b week slots) [0..<h]"
  have ks: "[1..nextPow2 (int ?n) div 2] = map (\<lambda>i. int i + 1) [0..<h]"
  proof -
    have "nextPow2 (int ?n) = int slots" using nextPow2_rounds(1) [of ?n] assms(2) by (simp add: slots_def)
    then have "nextPow2 (int ?n) div 2 = int h" using sh by simp
    then show ?thesis by (intro nth_equalityI) simp_all
  qed
  have "nextPow2 (int ?n) = int slots" using nextPow2_rounds(1) [of ?n] assms(2) by (simp add: slots_def)
  moreover have "round1Matchup seeds b week (int slots) (int i + 1) = Inr (firstRound seeds b week slots i)" if "i < h" for i
  proof -
    have "int slots + 1 - (int i + 1) = int (slots - 1 - i) + 1" using that sh by simp
    then show ?thesis
      using bySeed_numbered [OF assms(1), of i] bySeed_numbered [OF assms(1), of "slots - 1 - i"] that lt sh
      by (auto simp: round1Matchup_def firstRound_def Let_def)
  qed
  ultimately have "pairBracketRound1 seeds b week = Inr ms"
    unfolding pairBracketRound1_def Let_def ks by (subst collect_Inr [of _ _ "\<lambda>k. firstRound seeds b week slots (nat (k - 1))"])
      (auto simp: ms_def)
  moreover have len: "length ms = h" by (simp add: ms_def)
  moreover have sides: "map sidesOf ms = roundPairs (paddedSeeds slots seeds)"
    using lt sh assms(1) by (intro nth_equalityI)
      (auto simp: ms_def roundPairs_def paddedSeeds_def sidesOf_def firstRound_def Let_def nth_append numbered_def)
  have ent: "mset (entrants ms) = mset (map (\<lambda>s. (psSeed s, psTeamID s)) seeds)"
  proof -
    have len_p: "length (paddedSeeds slots seeds) = slots" using lt by (simp add: paddedSeeds_def)
    then have "even (length (paddedSeeds slots seeds))" using sh by simp
    then have "mset (slotsOf (map sidesOf ms)) = mset (paddedSeeds slots seeds)"
      unfolding sides by (rule mset_roundPairs)
    then have "mset (entrants ms) = filter_mset (\<lambda>e. snd e \<noteq> []) (mset (paddedSeeds slots seeds))"
      by (simp add: entrants_def)
    moreover have "filter (\<lambda>e. snd e \<noteq> []) (paddedSeeds slots seeds) = map (\<lambda>s. (psSeed s, psTeamID s)) seeds"
    proof -
      have "psTeamID s \<noteq> []" if "s \<in> set seeds" for s
        using assms(4) that image_eqI [of "[]" psTeamID s "set seeds"] by auto
      then show ?thesis by (simp add: paddedSeeds_def filter_id_conv)
    qed
    ultimately show ?thesis by (metis mset_filter)
  qed
  have "matchupOK m" if m: "m \<in> set ms" for m
  proof -
    obtain i where i: "i < h" "m = firstRound seeds b week slots i" using m by (auto simp: ms_def)
    have "psTeamID (seeds ! i) \<noteq> psTeamID (seeds ! (slots - 1 - i))" if "slots - 1 - i < ?n"
      using nth_eq_iff_index_eq [OF assms(3), of i "slots - 1 - i"] i(1) that lt sh by simp
    moreover have "psTeamID (seeds ! j) \<noteq> []" if "j < ?n" for j using assms(4) that by (metis in_set_conv_nth length_map nth_map)
    ultimately show ?thesis using i(1) lt by (simp add: i(2) matchupOK_def firstRound_def Let_def)
  qed
  moreover have "distinct (map fst (entrants ms))" "distinct (map snd (entrants ms))"
  proof -
    have "map psSeed seeds = map (\<lambda>i. int i + 1) [0..<?n]"
      using assms(1) by (intro nth_equalityI) (simp_all add: numbered_def)
    then have "distinct (map psSeed seeds)" by (simp add: distinct_map inj_on_def)
    then show "distinct (map fst (entrants ms))" "distinct (map snd (entrants ms))"
      using arg_cong [OF ent, of "image_mset fst"] arg_cong [OF ent, of "image_mset snd"] assms(3)
      by (metis (no_types, lifting) comp_def fst_conv list.map_comp map_eq_conv mset_eq_imp_distinct_iff mset_map snd_conv)+
  qed
  moreover have "\<forall>m\<in>set ms. pmBracket m = b \<and> pmRound m = 1" by (auto simp: ms_def firstRound_def Let_def)
  moreover have "distinct (map pmHomeSeed ms)" by (simp add: ms_def comp_def firstRound_def Let_def distinct_map inj_on_def)
  moreover have "\<exists>m\<in>set ms. \<not> pmFinal m"
  proof -
    have "h - 1 < h" by (simp add: h_def)
    moreover have "\<not> pmFinal (firstRound seeds b week slots (h - 1))" using lt sh by (simp add: firstRound_def Let_def)
    ultimately show ?thesis by (auto simp: ms_def)
  qed
  ultimately show ?thesis using ent by (auto simp: roundOK_def list_all_iff h_def)
qed

section \<open>The bracket invariant\<close>

abbreviation bround :: "playoff_matchup list \<Rightarrow> bracket \<Rightarrow> nat \<Rightarrow> playoff_matchup list" where
  "bround ms b r \<equiv> matchupsForRound ms b (int r)"

text \<open>
  A bracket of T rounds that has reached round R: every round is half as long as the one before,
  pairs distinct seeds and teams, and is made of exactly the entrants who came out of the one
  before, which is final.
\<close>

definition bracketInv :: "playoff_matchup list \<Rightarrow> bracket \<Rightarrow> nat \<Rightarrow> nat \<Rightarrow> bool" where
  "bracketInv ms b T R \<longleftrightarrow> 1 \<le> R \<and> R \<le> T \<and>
     (\<forall>m\<in>set ms. pmBracket m = b \<longrightarrow> 1 \<le> pmRound m \<and> pmRound m \<le> int R) \<and>
     (\<forall>r\<in>{1..R}. length (bround ms b r) = 2 ^ (T - r) \<and> roundOK (bround ms b r)) \<and>
     (\<forall>r\<in>{1..<R}. list_all pmFinal (bround ms b r) \<and>
        mset (entrants (bround ms b (Suc r))) = mset (map (advancer (b = Toilet)) (bround ms b r)))"

text \<open>What a set of results does to one matchup.\<close>

definition resulted :: "playoff_matchup \<Rightarrow> playoff_matchup \<Rightarrow> bool" where
  "resulted m m' \<longleftrightarrow> m' = m \<or> (\<not> pmFinal m \<and> pmHome m \<noteq> [] \<and> pmAway m \<noteq> [] \<and> (\<exists>res. m' = decide res m))"

lemma decide_frame [simp]:
  "pmID (decide res m) = pmID m" "pmBracket (decide res m) = pmBracket m" "pmRound (decide res m) = pmRound m"
  "pmHomeSeed (decide res m) = pmHomeSeed m" "pmAwaySeed (decide res m) = pmAwaySeed m"
  "pmHome (decide res m) = pmHome m" "pmAway (decide res m) = pmAway m" "pmFinal (decide res m)"
  "pmWeek (decide res m) = pmWeek m"
  by (simp_all add: decide_def Let_def)

lemma decide_winner: "pmWinner (decide res m) = pmHome m \<or> pmWinner (decide res m) = pmAway m"
  by (simp add: decide_def Let_def resolvePlayoffWinner_def)

lemma resulted_refl [simp]: "resulted m m" by (simp add: resulted_def)

lemma resulted_trans: "resulted m m' \<Longrightarrow> resulted m' m'' \<Longrightarrow> resulted m m''"
  by (auto simp: resulted_def)

lemma resulted_frame:
  "resulted m m' \<Longrightarrow> pmID m' = pmID m \<and> pmBracket m' = pmBracket m \<and> pmRound m' = pmRound m \<and> sidesOf m' = sidesOf m"
  by (auto simp: resulted_def sidesOf_def)

lemma resulted_final: "resulted m m' \<Longrightarrow> pmFinal m \<Longrightarrow> m' = m"
  by (auto simp: resulted_def)

lemma resulted_ok: "resulted m m' \<Longrightarrow> matchupOK m \<Longrightarrow> matchupOK m'"
  by (auto simp: resulted_def matchupOK_def) (metis decide_winner)+

lemma lastIndex_Some: "lastIndex ms i = Some k \<Longrightarrow> k < length ms \<and> pmID (ms ! k) = i"
  by (auto simp: lastIndex_def rev_nth dest!: indexWhere_Some split: option.splits)

lemma applyResults_resulted: "applyResults results ms = Inr ms' \<Longrightarrow> list_all2 resulted ms ms'"
proof (induction results ms rule: applyResults.induct)
  case (1 ms)
  then show ?case by (simp add: list_all2_same)
next
  case (2 res rest ms)
  then obtain k where k: "lastIndex ms (rrMatchupID res) = Some k" by (auto split: option.splits)
  show ?case
  proof (cases "pmFinal (ms ! k)")
    case True
    then show ?thesis using 2 k by simp
  next
    case False
    let ?ms = "ms[k := decide res (ms ! k)]"
    have sides: "pmHome (ms ! k) \<noteq> []" "pmAway (ms ! k) \<noteq> []" and rest: "applyResults rest ?ms = Inr ms'"
      using "2.prems" k False by (auto split: if_splits)
    have "list_all2 resulted ms ?ms"
      using lastIndex_Some [OF k] False sides
      by (auto simp: list_all2_conv_all_nth nth_list_update resulted_def)
    moreover have "list_all2 resulted ?ms ms'" using "2.IH"(2) [OF k False _ rest] sides by auto
    ultimately show ?thesis by (rule list_all2_trans [rotated]) (rule resulted_trans)
  qed
qed

lemma resulted_round:
  "list_all2 resulted ms ms' \<Longrightarrow> list_all2 resulted (matchupsForRound ms b r) (matchupsForRound ms' b r)"
  unfolding matchupsForRound_def
  by (induction rule: list_all2_induct) (auto dest: resulted_frame)

lemma resulted_entrants: "list_all2 resulted ms ms' \<Longrightarrow> entrants ms' = entrants ms"
proof -
  assume "list_all2 resulted ms ms'"
  then have "map sidesOf ms' = map sidesOf ms"
    by (induction rule: list_all2_induct) (auto dest: resulted_frame)
  then show ?thesis by (simp add: entrants_def)
qed

lemma resulted_all_final: "list_all2 resulted ms ms' \<Longrightarrow> list_all pmFinal ms \<Longrightarrow> ms' = ms"
  by (induction rule: list_all2_induct) (auto dest: resulted_final)

lemma resulted_roundOK: "list_all2 resulted ms ms' \<Longrightarrow> roundOK ms \<Longrightarrow> roundOK ms'"
proof -
  assume r: "list_all2 resulted ms ms'" and ok: "roundOK ms"
  have "list_all matchupOK ms \<Longrightarrow> list_all matchupOK ms'"
    using r by (induction rule: list_all2_induct) (auto dest: resulted_ok)
  then show ?thesis using ok by (simp add: roundOK_def resulted_entrants [OF r])
qed

lemma bracketInv_resulted:
  assumes "bracketInv ms b T R" "list_all2 resulted ms ms'"
  shows "bracketInv ms' b T R"
proof -
  note rr = resulted_round [OF assms(2), of b]
  have bounds: "1 \<le> pmRound m' \<and> pmRound m' \<le> int R" if "m' \<in> set ms'" "pmBracket m' = b" for m'
  proof -
    obtain k where k: "k < length ms'" "ms' ! k = m'" using \<open>m' \<in> set ms'\<close> by (metis in_set_conv_nth)
    then have "resulted (ms ! k) m'" "ms ! k \<in> set ms" using assms(2) by (auto simp: list_all2_conv_all_nth)
    then show ?thesis using assms(1) resulted_frame [of "ms ! k" m'] \<open>pmBracket m' = b\<close> by (auto simp: bracketInv_def)
  qed
  have rounds: "length (bround ms' b r) = 2 ^ (T - r) \<and> roundOK (bround ms' b r)" if "r \<in> {1..R}" for r
    using assms(1) that list_all2_lengthD [OF rr [of "int r"]] resulted_roundOK [OF rr [of "int r"]]
    unfolding bracketInv_def by metis
  have same: "bround ms' b r = bround ms b r" if "r \<in> {1..<R}" for r
    using assms(1) that resulted_all_final [OF rr] unfolding bracketInv_def by blast
  have links: "list_all pmFinal (bround ms' b r) \<and>
      mset (entrants (bround ms' b (Suc r))) = mset (map (advancer (b = Toilet)) (bround ms' b r))" if "r \<in> {1..<R}" for r
    using assms(1) that same [OF that] resulted_entrants [OF rr [of "int (Suc r)"]] unfolding bracketInv_def by metis
  show ?thesis using assms(1) bounds rounds links by (auto simp: bracketInv_def)
qed

lemma bround_append: "matchupsForRound (ms @ ns) b r = matchupsForRound ms b r @ matchupsForRound ns b r"
  by (simp add: matchupsForRound_def)

lemma bround_all: "\<forall>m\<in>set ns. pmBracket m = b \<and> pmRound m = r \<Longrightarrow> matchupsForRound ns b q = (if q = r then ns else [])"
  by (auto simp: matchupsForRound_def filter_id_conv filter_empty_conv)

lemma bround_other: "\<forall>m\<in>set ns. pmBracket m \<noteq> b \<Longrightarrow> matchupsForRound ns b q = []"
  by (auto simp: matchupsForRound_def filter_empty_conv)

lemma bracketInv_other:
  assumes "bracketInv ms b T R" "\<forall>m\<in>set ns. pmBracket m \<noteq> b"
  shows "bracketInv (ms @ ns) b T R"
  using assms(1) unfolding bracketInv_def by (simp add: bround_append bround_other [OF assms(2)]) (use assms(2) in auto)

lemma bracketInv_first:
  assumes "\<forall>m\<in>set ms. pmBracket m \<noteq> b" "\<forall>m\<in>set ns. pmBracket m = b \<and> pmRound m = 1"
    "length ns = 2 ^ (T - 1)" "roundOK ns" "1 \<le> T"
  shows "bracketInv (ms @ ns) b T 1"
proof -
  have "bround (ms @ ns) b 1 = ns"
    by (simp add: bround_append bround_other [OF assms(1)] bround_all [OF assms(2)])
  then show ?thesis using assms by (auto simp: bracketInv_def)
qed

lemma bracketInv_next:
  fixes week reseed
  assumes "bracketInv ms b T R" "R < T" "list_all pmFinal (bround ms b R)"
  defines "ns \<equiv> nextRoundMatchups (bround ms b R) b (int R + 1) week reseed (b = Toilet)"
  shows "bracketInv (ms @ ns) b T (Suc R)" "\<forall>m\<in>set ns. pmBracket m = b"
proof -
  have R: "1 \<le> R" "length (bround ms b R) = 2 ^ (T - R)" "roundOK (bround ms b R)"
    using assms(1) by (auto simp: bracketInv_def)
  have half: "(2 :: nat) ^ (T - R) = 2 * 2 ^ (T - Suc R)" using assms(2) by (metis Suc_diff_Suc power_Suc)
  then have even: "even (length (bround ms b R))" using R(2) by simp
  note nx = next_round [OF R(3) assms(3) even, of b "int R + 1" week reseed "b = Toilet", folded ns_def]
  show b: "\<forall>m\<in>set ns. pmBracket m = b" using nx(4) by blast
  have frame: "bround (ms @ ns) b r = (if r = Suc R then ns else bround ms b r)" if "r \<le> Suc R" for r
  proof -
    have "bround ms b (Suc R) = []"
      using assms(1) by (auto simp: bracketInv_def matchupsForRound_def filter_empty_conv)
    moreover have "matchupsForRound ns b (int r) = (if r = Suc R then ns else [])"
      using bround_all [of ns b "int R + 1" "int r"] nx(4) by auto
    ultimately show ?thesis by (auto simp: bround_append)
  qed
  have size: "length ns = 2 ^ (T - Suc R)" using nx(1) R(2) half by simp
  have rounds: "length (bround (ms @ ns) b r) = 2 ^ (T - r) \<and> roundOK (bround (ms @ ns) b r)" if "r \<in> {1..Suc R}" for r
    using assms(1) that frame [of r] size nx(3) by (auto simp: bracketInv_def le_Suc_eq)
  have links: "list_all pmFinal (bround (ms @ ns) b r) \<and>
      mset (entrants (bround (ms @ ns) b (Suc r))) = mset (map (advancer (b = Toilet)) (bround (ms @ ns) b r))"
    if "r \<in> {1..<Suc R}" for r
  proof (cases "r = R")
    case True
    then show ?thesis using frame [of R] frame [of "Suc R"] assms(3) nx(2) by simp
  next
    case False
    then show ?thesis using assms(1) that frame [of r] frame [of "Suc r"] by (auto simp: bracketInv_def)
  qed
  have bounds: "1 \<le> pmRound m \<and> pmRound m \<le> int (Suc R)" if "m \<in> set (ms @ ns)" "pmBracket m = b" for m
    using assms(1) that nx(4) by (auto simp: bracketInv_def)
  show "bracketInv (ms @ ns) b T (Suc R)" using rounds links bounds assms(2) by (auto simp: bracketInv_def)
qed

lemma maxRound_inv:
  assumes "bracketInv ms b T R"
  shows "maxRound ms b = int R"
proof -
  have le: "r \<le> fold (\<lambda>m r. if pmBracket m = b \<and> pmRound m > r then pmRound m else r) xs r \<and>
      (\<forall>m\<in>set xs. pmBracket m = b \<longrightarrow> pmRound m \<le> fold (\<lambda>m r. if pmBracket m = b \<and> pmRound m > r then pmRound m else r) xs r)"
    for xs r
  proof (induction xs arbitrary: r)
    case (Cons m xs)
    show ?case using Cons [of "if pmBracket m = b \<and> pmRound m > r then pmRound m else r"] by auto
  qed simp
  have ge: "fold (\<lambda>m r. if pmBracket m = b \<and> pmRound m > r then pmRound m else r) xs r \<le> n"
    if "r \<le> n" "\<forall>m\<in>set xs. pmBracket m = b \<longrightarrow> pmRound m \<le> n" for xs r n
    using that by (induction xs arbitrary: r) auto
  have "length (bround ms b R) = 2 ^ (T - R)" using assms by (auto simp: bracketInv_def)
  then have "bround ms b R \<noteq> []" by auto
  then obtain m where "m \<in> set ms" "pmBracket m = b" "pmRound m = int R"
    by (auto simp: matchupsForRound_def filter_empty_conv)
  then have "int R \<le> maxRound ms b" using le [of 0 ms] by (auto simp: maxRound_def)
  moreover have "maxRound ms b \<le> int R"
    using assms unfolding maxRound_def by (intro ge) (auto simp: bracketInv_def)
  ultimately show ?thesis by simp
qed

lemma total_rounds_inv:
  assumes "bracketInv ms b T R" "b = Championship \<Longrightarrow> T = roundsFor (nat (pcTeamCount cfg)) \<and> 2 \<le> pcTeamCount cfg"
  shows "bracketTotalRounds cfg ms b = int T"
proof (cases "b = Championship")
  case True
  then have "1 \<le> nat (pcTeamCount cfg)" using assms(2) by linarith
  then show ?thesis
    using True assms(2) nextPow2_rounds(1) [of "nat (pcTeamCount cfg)"] nextPow2_rounds(2) [of T]
    by (simp add: bracketTotalRounds_def)
next
  case False
  have len: "length (matchupsForRound ms b 1) = 2 ^ (T - 1)" "1 \<le> T"
    using assms(1) by (force simp: bracketInv_def)+
  then have "int (length (matchupsForRound ms b 1)) * 2 = 2 ^ T" by (cases T) simp_all
  moreover have "matchupsForRound ms b 1 \<noteq> []" using len by auto
  ultimately show ?thesis using False nextPow2_rounds(2) [of T] by (simp add: bracketTotalRounds_def Let_def)
qed

section \<open>The invariant of a playoff state\<close>

definition champRounds :: "playoff_state \<Rightarrow> nat" where
  "champRounds st = roundsFor (nat (pcTeamCount (plConfig st)))"

definition playoffInv :: "playoff_state \<Rightarrow> bool" where
  "playoffInv st \<longleftrightarrow> 2 \<le> pcTeamCount (plConfig st) \<and>
     (\<exists>R. bracketInv (plMatchups st) Championship (champRounds st) R) \<and>
     (\<forall>m\<in>set (plMatchups st). \<exists>T R. bracketInv (plMatchups st) (pmBracket m) T R) \<and>
     (\<forall>m\<in>set (plMatchups st). \<exists>x. pmID m = playoffMatchupID (pmBracket m) (pmRound m) (pmHomeSeed m) x) \<and>
     (plChampion st \<noteq> [] \<longrightarrow> (\<exists>m. bround (plMatchups st) Championship (champRounds st) = [m] \<and> pmFinal m \<and>
        pmWinner m = plChampion st \<and> plRunnerUp st = loserOf m))"

end
