(* ===== verification/PlayoffRun.thy ===== *)
theory PlayoffRun
  imports Brackets
begin

text \<open>
  The brackets keep their invariant under every set of results: applying the results, generating
  the next round, spawning the consolation bracket and sealing the outcomes.
\<close>

section \<open>Advancing keeps the invariant\<close>

lemma bround_champ_final:
  assumes "bracketInv ms b T R" "bround ms b T = [m]" "1 \<le> T"
  shows "R = T"
proof -
  have "m \<in> set ms" "pmBracket m = b" "pmRound m = int T"
  proof -
    have "m \<in> set (bround ms b T)" using assms(2) by simp
    then show "m \<in> set ms" "pmBracket m = b" "pmRound m = int T" by (simp_all add: matchupsForRound_def)
  qed
  then show ?thesis using assms(1) unfolding bracketInv_def by force
qed

lemma finalize_frame [simp]:
  "plMatchups (finalizeBracket b ms st) = plMatchups st" "plConfig (finalizeBracket b ms st) = plConfig st"
  by (auto simp: finalizeBracket_def split: list.splits bracket.splits)

lemma champRounds_matchups [simp]: "champRounds (st\<lparr>plMatchups := ms\<rparr>) = champRounds st"
  by (simp add: champRounds_def)

lemma champRounds_pos: "playoffInv st \<Longrightarrow> 1 \<le> champRounds st"
proof -
  assume "playoffInv st"
  then have "2 \<le> pcTeamCount (plConfig st)" by (simp add: playoffInv_def)
  then have "2 \<le> nat (pcTeamCount (plConfig st))" by linarith
  then show ?thesis unfolding champRounds_def by (rule roundsFor_bounds(3))
qed

lemma playoffInv_append:
  assumes "playoffInv st" "\<forall>m\<in>set ns. pmBracket m = b" "\<exists>T R. bracketInv (plMatchups st @ ns) b T R"
    and "b = Championship \<Longrightarrow> \<exists>R. bracketInv (plMatchups st @ ns) b (champRounds st) R \<and> plChampion st = []"
    and "\<forall>m\<in>set ns. \<exists>x. pmID m = playoffMatchupID (pmBracket m) (pmRound m) (pmHomeSeed m) x"
  shows "playoffInv (st\<lparr>plMatchups := plMatchups st @ ns\<rparr>)"
proof -
  let ?st = "st\<lparr>plMatchups := plMatchups st @ ns\<rparr>"
  have other: "bracketInv (plMatchups st @ ns) b' T R" if "bracketInv (plMatchups st) b' T R" "b' \<noteq> b" for b' T R
    using bracketInv_other [OF that(1)] assms(2) that(2) by auto
  have champ: "\<exists>R. bracketInv (plMatchups ?st) Championship (champRounds ?st) R"
  proof (cases "b = Championship")
    case True
    then show ?thesis using assms(4) by auto
  next
    case False
    obtain R where "bracketInv (plMatchups st) Championship (champRounds st) R" using assms(1) by (auto simp: playoffInv_def)
    then show ?thesis using other False by auto
  qed
  have all: "\<exists>T R. bracketInv (plMatchups ?st) b' T R" if mb: "m \<in> set (plMatchups ?st)" "pmBracket m = b'" for m b'
  proof (cases "b' = b")
    case True
    then show ?thesis using assms(3) by simp
  next
    case False
    then have "m \<in> set (plMatchups st)" using mb assms(2) by auto
    then obtain T R where "bracketInv (plMatchups st) b' T R" using assms(1) mb(2) unfolding playoffInv_def by blast
    then have "bracketInv (plMatchups ?st) b' T R" using other False by simp
    then show ?thesis by blast
  qed
  have sealed: "\<exists>m. bround (plMatchups ?st) Championship (champRounds ?st) = [m] \<and> pmFinal m \<and>
      pmWinner m = plChampion ?st \<and> plRunnerUp ?st = loserOf m" if "plChampion ?st \<noteq> []"
  proof -
    have "b \<noteq> Championship" using assms(4) that by auto
    then have "matchupsForRound ns Championship r = []" for r using assms(2) by (intro bround_other) auto
    then show ?thesis using assms(1) that by (simp add: playoffInv_def bround_append)
  qed
  have "\<exists>x. pmID m = playoffMatchupID (pmBracket m) (pmRound m) (pmHomeSeed m) x" if "m \<in> set (plMatchups ?st)" for m
    using assms(1,5) that by (auto simp: playoffInv_def)
  then show ?thesis using assms(1) champ all sealed by (simp add: playoffInv_def)
qed

lemma champion_sealed:
  assumes "playoffInv st" "plChampion st \<noteq> []" "bracketInv (plMatchups st) Championship (champRounds st) R"
  shows "R = champRounds st"
proof -
  obtain m where "bround (plMatchups st) Championship (champRounds st) = [m]" using assms(1,2) by (auto simp: playoffInv_def)
  moreover have "1 \<le> champRounds st" by (rule champRounds_pos [OF assms(1)])
  ultimately show ?thesis using bround_champ_final [OF assms(3)] by blast
qed

lemma advanceRounds_inv:
  assumes "playoffInv st" "bracketInv (plMatchups st) b T R" "b = Championship \<Longrightarrow> T = champRounds st"
    and "list_all pmFinal (bround (plMatchups st) b R)"
  shows "playoffInv (advanceRounds b (int R) (bround (plMatchups st) b R) st)"
proof -
  let ?ms = "plMatchups st" and ?cfg = "plConfig st"
  have total: "bracketTotalRounds ?cfg ?ms b = int T"
    using total_rounds_inv [OF assms(2), of ?cfg] assms(1,3) by (simp add: champRounds_def playoffInv_def)
  have RT: "R \<le> T" "1 \<le> R" using assms(2) by (simp_all add: bracketInv_def)
  show ?thesis
  proof (cases "R = T")
    case True
    have "length (bround ?ms b R) = 2 ^ (T - R)" using assms(2) RT by (auto simp: bracketInv_def)
    then obtain m where m: "bround ?ms b R = [m]" using True by (auto simp: length_Suc_conv)
    have "playoffInv (finalizeBracket b [m] st)"
    proof (cases b)
      case Championship
      then show ?thesis using assms(1,3,4) m True by (auto simp: playoffInv_def finalizeBracket_def champRounds_def)
    qed (use assms(1) in \<open>simp_all add: playoffInv_def finalizeBracket_def champRounds_def\<close>)
    then show ?thesis using True total m by (simp add: advanceRounds_def Let_def)
  next
    case False
    then have lt: "R < T" using RT by simp
    define week where "week = (if b = Consolation then roundWeek ?cfg (int R + 2) else roundWeek ?cfg (int R + 1))"
    let ?ns = "nextRoundMatchups (bround ?ms b R) b (int R + 1) week (pcReseed ?cfg) (b = Toilet)"
    note nx = bracketInv_next [OF assms(2) lt assms(4), of week "pcReseed ?cfg"]
    have "matchupsForRound ?ms b (int R + 1) = []"
      using assms(2) by (auto simp: bracketInv_def matchupsForRound_def filter_empty_conv)
    then have eq: "advanceRounds b (int R) (bround ?ms b R) st = st\<lparr>plMatchups := ?ms @ ?ns\<rparr>"
      using total lt by (simp add: advanceRounds_def Let_def week_def)
    have ids: "\<forall>m\<in>set ?ns. \<exists>x. pmID m = playoffMatchupID (pmBracket m) (pmRound m) (pmHomeSeed m) x"
      by (auto simp: nextRoundMatchups_def laterMatchup_def Let_def)
    have "plChampion st = []" if "b = Championship"
      using champion_sealed [OF assms(1)] assms(2,3) that lt by auto
    then show ?thesis unfolding eq
      using nx ids assms(3) by (intro playoffInv_append [OF assms(1), of _ b]) auto
  qed
qed

lemma losers_entrants:
  assumes "list_all matchupOK ms" "list_all pmFinal ms"
  shows "mset (map (\<lambda>s. (psSeed s, psTeamID s)) (round1Losers ms)) \<subseteq># mset (entrants ms)"
  using assms
proof (induction ms)
  case (Cons m ms)
  then have ih: "mset (map (\<lambda>s. (psSeed s, psTeamID s)) (round1Losers ms)) \<subseteq># mset (entrants ms)" by simp
  have one: "mset (map (\<lambda>s. (psSeed s, psTeamID s)) (round1Losers [m])) \<subseteq># mset (entrants [m])"
    using Cons.prems by (auto simp: round1Losers_def matchupOK_def)
  have "mset (map (\<lambda>s. (psSeed s, psTeamID s)) (round1Losers (m # ms))) =
      mset (map (\<lambda>s. (psSeed s, psTeamID s)) (round1Losers [m])) + mset (map (\<lambda>s. (psSeed s, psTeamID s)) (round1Losers ms))"
    by (simp add: round1Losers_def)
  moreover have "mset (entrants (m # ms)) = mset (entrants [m]) + mset (entrants ms)" by simp
  ultimately show ?case using subset_mset.add_mono [OF one ih] by argo
qed (simp add: round1Losers_def)

lemma numberSeeds_facts:
  "numbered (numberSeeds seeds)" "length (numberSeeds seeds) = length seeds"
  "map psTeamID (numberSeeds seeds) = map psTeamID seeds"
  by (auto simp: numbered_def numberSeeds_def intro!: nth_equalityI)

lemma reseed_facts:
  "numbered (reseedBySeedAscending seeds)" "length (reseedBySeedAscending seeds) = length seeds"
  "mset (map psTeamID (reseedBySeedAscending seeds)) = mset (map psTeamID seeds)"
  by (simp_all add: reseedBySeedAscending_def numberSeeds_facts)

lemma pairBracket_ids:
  assumes "pairBracketRound1 seeds b week = Inr ms" "m \<in> set ms"
  shows "\<exists>x. pmID m = playoffMatchupID (pmBracket m) (pmRound m) (pmHomeSeed m) x"
proof -
  have one: "\<exists>k. round1Matchup seeds b week slots k = Inr m" if "collect (round1Matchup seeds b week slots) ks = Inr ms" for slots ks
    using that assms(2) by (induction ks arbitrary: ms) (auto split: sum.splits)
  then obtain slots k where "round1Matchup seeds b week slots k = Inr m"
    using one assms(1) unfolding pairBracketRound1_def Let_def by blast
  then show ?thesis by (auto simp: round1Matchup_def Let_def split: option.splits)
qed

lemma first_round_inv:
  assumes "playoffInv st" "numbered seeds" "2 \<le> length seeds" "distinct (map psTeamID seeds)" "[] \<notin> set (map psTeamID seeds)"
    and "\<forall>m\<in>set (plMatchups st). pmBracket m \<noteq> b" "b \<noteq> Championship"
    and "pairBracketRound1 seeds b week = Inr ms"
  shows "playoffInv (st\<lparr>plMatchups := plMatchups st @ ms\<rparr>)"
proof -
  have ms: "length ms = 2 ^ (roundsFor (length seeds) - 1)" "roundOK ms" "\<forall>m\<in>set ms. pmBracket m = b \<and> pmRound m = 1"
    using first_round [OF assms(2-5), of b week] assms(8) by auto
  have inv: "bracketInv (plMatchups st @ ms) b (roundsFor (length seeds)) 1"
    using bracketInv_first [OF assms(6) ms(3,1,2)] roundsFor_bounds(3) [OF assms(3)] by simp
  have ids: "\<exists>x. pmID m = playoffMatchupID (pmBracket m) (pmRound m) (pmHomeSeed m) x" if "m \<in> set ms" for m
    using pairBracket_ids [OF assms(8)] that by blast
  show ?thesis using inv ids assms(7) ms(3) by (intro playoffInv_append [OF assms(1), of _ b]) auto
qed

lemma spawn_inv:
  assumes "playoffInv st" "roundOK current" "list_all pmFinal current"
  shows "playoffInv (spawnConsolation b r current st)"
proof (cases "spawnConsolation b r current st = st")
  case False
  let ?seeds = "reseedBySeedAscending (round1Losers current)"
  obtain ms where none: "matchupsForRound (plMatchups st) Consolation 1 = []" and len: "2 \<le> length (round1Losers current)"
    and ms: "pairBracketRound1 ?seeds Consolation (roundWeek (plConfig st) 2) = Inr ms"
    and eq: "spawnConsolation b r current st = st\<lparr>plMatchups := plMatchups st @ ms\<rparr>"
    using False by (auto simp: spawnConsolation_def split: if_splits sum.splits)
  have sub: "mset (map psTeamID (round1Losers current)) \<subseteq># mset (map snd (entrants current))"
    using image_mset_subseteq_mono [OF losers_entrants, of current snd] assms(2,3)
    unfolding mset_map by (simp add: roundOK_def image_mset.compositionality comp_def)
  have dis: "distinct (map psTeamID (round1Losers current))"
    by (rule distinct_submset [OF sub]) (use assms(2) in \<open>simp add: roundOK_def\<close>)
  have ne: "[] \<notin> set (map psTeamID (round1Losers current))"
    using set_mset_mono [OF sub] by (auto simp: entrants_def)
  have "\<forall>m\<in>set (plMatchups st). pmBracket m \<noteq> Consolation"
  proof (rule ccontr)
    assume "\<not> ?thesis"
    then obtain m T R where "m \<in> set (plMatchups st)" "bracketInv (plMatchups st) Consolation T R"
      using assms(1) unfolding playoffInv_def by metis
    then have "length (bround (plMatchups st) Consolation 1) = 2 ^ (T - 1)" by (force simp: bracketInv_def)
    then show False using none by simp
  qed
  moreover have "distinct (map psTeamID ?seeds)" "[] \<notin> set (map psTeamID ?seeds)"
    using dis ne reseed_facts(3) [of "round1Losers current"] by (metis mset_eq_imp_distinct_iff, metis set_mset_mset)
  ultimately show ?thesis unfolding eq
    using first_round_inv [OF assms(1) reseed_facts(1) _ _ _ _ _ ms] len by (simp add: reseed_facts(2))
qed (use assms(1) in simp)

lemma advanceBracket_inv:
  assumes "playoffInv st"
  shows "playoffInv (advanceBracket b st)"
proof (cases "advanceBracket b st = st")
  case False
  let ?ms = "plMatchups st" and ?r = "maxRound (plMatchups st) b"
  let ?current = "matchupsForRound ?ms b ?r"
  have fin: "allFinal ?current" and eq: "advanceBracket b st = spawnConsolation b ?r ?current (advanceRounds b ?r ?current st)"
    using False by (auto simp: advanceBracket_def Let_def split: if_splits)
  obtain m where m: "m \<in> set ?ms" "pmBracket m = b" using fin by (auto simp: allFinal_def matchupsForRound_def filter_empty_conv)
  obtain T R where inv: "bracketInv ?ms b T R" and T: "b = Championship \<Longrightarrow> T = champRounds st"
  proof (cases "b = Championship")
    case True
    obtain R where "bracketInv ?ms Championship (champRounds st) R" using assms unfolding playoffInv_def by blast
    then show ?thesis using that True by blast
  next
    case False
    obtain T R where "bracketInv ?ms b T R" using assms m unfolding playoffInv_def by blast
    then show ?thesis using that False by blast
  qed
  have r: "?r = int R" by (rule maxRound_inv [OF inv])
  have ok: "roundOK (bround ?ms b R)" "list_all pmFinal (bround ?ms b R)"
    using inv fin unfolding r by (auto simp: bracketInv_def allFinal_def)
  show ?thesis unfolding eq r by (intro spawn_inv advanceRounds_inv [OF assms inv T] ok)
qed (use assms in simp)

lemma results_inv:
  assumes "playoffInv st" "list_all2 resulted (plMatchups st) ms"
  shows "playoffInv (st\<lparr>plMatchups := ms\<rparr>)"
proof -
  let ?st = "st\<lparr>plMatchups := ms\<rparr>"
  have brackets: "bracketInv (plMatchups st) b T R \<Longrightarrow> bracketInv ms b T R" for b T R
    using bracketInv_resulted assms(2) by blast
  have ex: "\<exists>m0\<in>set (plMatchups st). resulted m0 m" if m: "m \<in> set ms" for m
  proof -
    obtain k where k: "k < length ms" "ms ! k = m" using m by (metis in_set_conv_nth)
    then have "resulted (plMatchups st ! k) m" "k < length (plMatchups st)" using assms(2) by (auto simp: list_all2_conv_all_nth)
    then show ?thesis using nth_mem by blast
  qed
  have all: "\<exists>T R. bracketInv ms (pmBracket m) T R" if m: "m \<in> set ms" for m
  proof -
    obtain m0 where m0: "m0 \<in> set (plMatchups st)" "resulted m0 m" using ex [OF m] by blast
    then obtain T R where "bracketInv (plMatchups st) (pmBracket m0) T R" using assms(1) unfolding playoffInv_def by blast
    then show ?thesis using brackets resulted_frame [OF m0(2)] by metis
  qed
  have ids: "\<exists>x. pmID m = playoffMatchupID (pmBracket m) (pmRound m) (pmHomeSeed m) x" if m: "m \<in> set ms" for m
  proof -
    obtain m0 where m0: "m0 \<in> set (plMatchups st)" "resulted m0 m" using ex [OF m] by blast
    then have "\<exists>x. pmID m0 = playoffMatchupID (pmBracket m0) (pmRound m0) (pmHomeSeed m0) x"
      using assms(1) unfolding playoffInv_def by blast
    then show ?thesis using resulted_frame [OF m0(2)] by (auto simp: sidesOf_def)
  qed
  have champ: "\<exists>R. bracketInv ms Championship (champRounds st) R" using assms(1) brackets unfolding playoffInv_def by blast
  have sealed: "\<exists>m. bround ms Championship (champRounds st) = [m] \<and> pmFinal m \<and> pmWinner m = plChampion st \<and>
      plRunnerUp st = loserOf m" if c: "plChampion st \<noteq> []"
  proof -
    obtain m where m: "bround (plMatchups st) Championship (champRounds st) = [m]" "pmFinal m" "pmWinner m = plChampion st"
      "plRunnerUp st = loserOf m" using assms(1) c unfolding playoffInv_def by blast
    have "bround ms Championship (champRounds st) = [m]"
      using resulted_all_final [OF resulted_round [OF assms(2)]] m(1,2) by simp
    then show ?thesis using m by blast
  qed
  have two: "2 \<le> pcTeamCount (plConfig st)" using assms(1) by (simp add: playoffInv_def)
  show ?thesis using two champ all ids sealed by (simp add: playoffInv_def)
qed

lemma advance_inv:
  assumes "playoffInv st" "advancePlayoffRound st results = Inr st'"
  shows "playoffInv st'"
proof -
  obtain ms where ms: "applyResults results (plMatchups st) = Inr ms"
    and st': "st' = fold advanceBracket (presentBrackets ms) (st\<lparr>plMatchups := ms\<rparr>)"
    using assms(2) by (auto simp: advancePlayoffRound_def split: sum.splits)
  have "playoffInv (st\<lparr>plMatchups := ms\<rparr>)" by (rule results_inv [OF assms(1) applyResults_resulted [OF ms]])
  then show ?thesis unfolding st' by (intro fold_invariant_simple [where P = playoffInv] advanceBracket_inv)
qed

end
