(* ===== verification/Postseason.thy ===== *)
theory Postseason
  imports PlayoffRun WeekLocks
begin

text \<open>
  The postseason lifecycle (src/internal/league/postseason.go): the checks of its rules and of the
  standings snapshot a bracket is built from, the commissioner's preview, and the Store operations that
  preview, publish, advance and correct the bracket. The SHA-256 digests of the standings and of the
  preview are parameters (functions of what is hashed), and so is the clock. Scores are rationals, so
  the checks for NaN and infinite scores have no counterpart.
\<close>

datatype rule_error = RulesWithoutTeamCount | FieldRange | FieldExceedsLeague int int | FirstWeekTooEarly
  | RoundWeeksInvalid | WinnersNeedDivisions | WinnersExceedField int int | UnknownQualification
  | QualificationNeedsDivisions | ByesRange int | ByesExpected int int | RuleChain chain_error

datatype provenance_error = FinalWeekMissing | StartWeekRange | NoCapturedAt | NoSource | SourceNotFinal
  | NotAuthoritative | NoSnapshotID | InvalidSeasonWeeks | EmptyStandingTeam | DuplicateStandingTeam team_id
  | ChainInvalid chain_error

datatype round_error = NoResults | NoResultID | DuplicateResult string | UnknownResult string | ResultNotFinal string
  | ResultNoSource string | ResultConflict string | ResultNoOpponent string | ResultInactive string | PartialResults string

datatype postseason_error = PostseasonDisabled | SnapshotMismatch | BadProvenance provenance_error
  | BadRound round_error | BracketError playoff_error
  | NotAPreview | NoActor | NoPreviewID | AlreadyPublished | NoConfirmation | NoPreview | OtherPublished
  | PreviewFirst | NotPublished

datatype correction_error = BracketNotPublished | NotConfirmed | NoActorOrReason | NoCorrectionIDs
  | UnknownCorrection string | CorrectionNotFinal | CorrectionWinner | CorrectionEarlierRound | CorrectionScore

section \<open>Rules and provenance\<close>

definition validatePostseasonConfig :: "playoff_config \<Rightarrow> int \<Rightarrow> int \<Rightarrow> rule_error option" where
  "validatePostseasonConfig cfg leagueTeamCount divisionCount =
     (let n = pcTeamCount cfg; expectedByes = nextPow2 n - n in
      if n = 0 then
        (if pcStartWeek cfg \<noteq> 0 \<or> pcRoundLengthWeeks cfg \<noteq> 0 \<or> pcDivisionWinnersFirst cfg \<or> pcReseed cfg \<or>
            pcConsolation cfg \<or> pcToiletBowl cfg \<or> pcByes cfg \<noteq> 0 \<or> pcQualification cfg \<noteq> [] \<or> pcTiebreakOrder cfg \<noteq> []
         then Some RulesWithoutTeamCount else None)
      else if n < 2 \<or> n > 8 then Some FieldRange
      else if leagueTeamCount > 0 \<and> n > leagueTeamCount then Some (FieldExceedsLeague n leagueTeamCount)
      else if pcStartWeek cfg < 1 then Some FirstWeekTooEarly
      else if pcRoundLengthWeeks cfg \<noteq> 1 \<and> pcRoundLengthWeeks cfg \<noteq> 2 then Some RoundWeeksInvalid
      else if pcDivisionWinnersFirst cfg \<and> divisionCount = 0 then Some WinnersNeedDivisions
      else if pcDivisionWinnersFirst cfg \<and> divisionCount > 0 \<and> n < divisionCount then Some (WinnersExceedField n divisionCount)
      else if pcQualification cfg \<notin> {[], ''top-record'', ''division-winners-wildcards''} then Some UnknownQualification
      else if pcQualification cfg = ''division-winners-wildcards'' \<and> divisionCount = 0 then Some QualificationNeedsDivisions
      else if pcByes cfg < 0 \<or> pcByes cfg > n then Some (ByesRange n)
      else if pcByes cfg \<noteq> 0 \<and> pcByes cfg \<noteq> expectedByes then Some (ByesExpected expectedByes n)
      else if pcTiebreakOrder cfg \<noteq> [] then map_option RuleChain (validateTiebreakChain (pcTiebreakOrder cfg))
      else None)"

definition standingsOrder :: "standing list \<Rightarrow> standing list" where
  "standingsOrder sts = sortStable rankOrder sts"

fun checkStandingIDs :: "team_id list \<Rightarrow> standing list \<Rightarrow> provenance_error option" where
  "checkStandingIDs seen [] = None"
| "checkStandingIDs seen (st # sts) =
     (if trimSpace (stTeamID st) = [] then Some EmptyStandingTeam
      else if stTeamID st \<in> set seen then Some (DuplicateStandingTeam (stTeamID st))
      else checkStandingIDs (stTeamID st # seen) sts)"

text \<open>The snapshot ID digests the final week and the standings in rank order.\<close>

definition playoffStandingsSnapshotID :: "(int \<Rightarrow> standing list \<Rightarrow> string) \<Rightarrow> standing list \<Rightarrow> int \<Rightarrow> provenance_error + string" where
  "playoffStandingsSnapshotID digest sts finalWeek = (case checkStandingIDs [] sts of Some e \<Rightarrow> Inl e
     | None \<Rightarrow> Inr (digest finalWeek (standingsOrder sts)))"

definition isFinalState :: "string \<Rightarrow> bool" where
  "isFinalState s = (toLower (trimSpace s) = ''final'')"

definition newPlayoffProvenanceFromSource ::
  "(int \<Rightarrow> standing list \<Rightarrow> string) \<Rightarrow> standing list \<Rightarrow> int \<Rightarrow> int \<Rightarrow> time \<Rightarrow> string \<Rightarrow> string \<Rightarrow> bool \<Rightarrow> string list \<Rightarrow>
     provenance_error + playoff_provenance" where
  "newPlayoffProvenanceFromSource digest sts finalWeek start capturedAt source sourceState authoritative tiebreakOrder =
     (let order = (if tiebreakOrder = [] then defaultTiebreakChain else tiebreakOrder) in
      if finalWeek < 1 then Inl FinalWeekMissing
      else if start < 1 \<or> start > finalWeek then Inl StartWeekRange
      else if isZero capturedAt then Inl NoCapturedAt
      else if trimSpace source = [] then Inl NoSource
      else if \<not> isFinalState sourceState \<or> \<not> authoritative then Inl SourceNotFinal
      else case validateTiebreakChain order of Some e \<Rightarrow> Inl (ChainInvalid e)
      | None \<Rightarrow>
          (case playoffStandingsSnapshotID digest sts finalWeek of Inl e \<Rightarrow> Inl e
           | Inr i \<Rightarrow> Inr \<lparr>provSnapshotID = i, provSource = trimSpace source, provSourceState = ''final'',
               provCapturedAt = capturedAt, provFinalWeek = finalWeek, provStartWeek = start,
               provTiebreakOrder = order, provAuthoritative = True\<rparr>))"

definition newPlayoffProvenance ::
  "(int \<Rightarrow> standing list \<Rightarrow> string) \<Rightarrow> standing list \<Rightarrow> int \<Rightarrow> time \<Rightarrow> string list \<Rightarrow> provenance_error + playoff_provenance" where
  "newPlayoffProvenance digest sts finalWeek capturedAt tiebreakOrder =
     newPlayoffProvenanceFromSource digest sts finalWeek 1 capturedAt ''regular-season-final'' ''final'' True tiebreakOrder"

definition validatePlayoffProvenance :: "playoff_provenance \<Rightarrow> provenance_error option" where
  "validatePlayoffProvenance p =
     (if trimSpace (provSnapshotID p) = [] then Some NoSnapshotID
      else if trimSpace (provSource p) = [] then Some NoSource
      else if \<not> isFinalState (provSourceState p) then Some SourceNotFinal
      else if \<not> provAuthoritative p then Some NotAuthoritative
      else if isZero (provCapturedAt p) then Some NoCapturedAt
      else if provFinalWeek p < 1 \<or> provStartWeek p < 1 \<or> provStartWeek p > provFinalWeek p then Some InvalidSeasonWeeks
      else map_option ChainInvalid (validateTiebreakChain (provTiebreakOrder p)))"

section \<open>The preview\<close>

text \<open>The divisions are a map from teams, so an association list of them names each team once.\<close>

definition countDivisions :: "(team_id \<times> string) list \<Rightarrow> int" where
  "countDivisions divisions = int (length (remdups (filter (\<lambda>d. d \<noteq> []) (map snd divisions))))"

definition previewConfig :: "playoff_config \<Rightarrow> playoff_provenance \<Rightarrow> playoff_config" where
  "previewConfig cfg prov =
     (let cfg1 = (if pcQualification cfg = ''division-winners-wildcards'' then cfg\<lparr>pcDivisionWinnersFirst := True\<rparr> else cfg)
      in if pcTiebreakOrder cfg1 = [] then cfg1\<lparr>pcTiebreakOrder := provTiebreakOrder prov\<rparr> else cfg1)"

definition buildPlayoffPreview ::
  "(int \<Rightarrow> standing list \<Rightarrow> string) \<Rightarrow> (string \<Rightarrow> playoff_config \<Rightarrow> string) \<Rightarrow> standing list \<Rightarrow> (team_id \<times> string) list \<Rightarrow>
     playoff_config \<Rightarrow> playoff_provenance \<Rightarrow> postseason_error + playoff_state" where
  "buildPlayoffPreview digest previewDigest sts divisions cfg prov =
     (if pcTeamCount cfg < 2 then Inl PostseasonDisabled
      else case validatePlayoffProvenance prov of Some e \<Rightarrow> Inl (BadProvenance e)
      | None \<Rightarrow>
          (case playoffStandingsSnapshotID digest sts (provFinalWeek prov) of Inl e \<Rightarrow> Inl (BadProvenance e)
           | Inr expected \<Rightarrow>
              if provSnapshotID prov \<noteq> expected then Inl SnapshotMismatch
              else case validatePlayoffConfig cfg (int (length sts)) (countDivisions divisions) (provStartWeek prov) maxNFLWeek of
                Some e \<Rightarrow> Inl (BracketError e)
              | None \<Rightarrow>
                  (let cfg' = previewConfig cfg prov in
                   case generatePlayoffState sts divisions cfg' of Inl e \<Rightarrow> Inl (BracketError e)
                   | Inr st \<Rightarrow> Inr (st\<lparr>plStatus := StatusPreview, plPreviewID := ''preview-'' @ previewDigest (provSnapshotID prov) cfg',
                       plRevision := 1, plProvenance := prov, plPreviewedAt := provCapturedAt prov\<rparr>))))"

definition effectivePlayoffStatus :: "playoff_state \<Rightarrow> playoff_status" where
  "effectivePlayoffStatus st =
     (if plStatus st \<noteq> StatusNone then plStatus st
      else if plSeeds st \<noteq> [] \<or> plMatchups st \<noteq> [] \<or> plChampion st \<noteq> [] \<or> plRunnerUp st \<noteq> [] \<or>
        plConsolationWinner st \<noteq> [] \<or> plToilet st \<noteq> [] then StatusPublished
      else StatusNone)"

definition playoffTruth :: "persisted_state \<Rightarrow> playoff_state option" where
  "playoffTruth st = map_option (\<lambda>p. if plStatus p = StatusNone then p\<lparr>plStatus := effectivePlayoffStatus p\<rparr> else p) (playoffs st)"

section \<open>Authoritative rounds\<close>

definition lookupMatchup :: "playoff_matchup list \<Rightarrow> string \<Rightarrow> playoff_matchup option" where
  "lookupMatchup ms i = map_option (\<lambda>k. ms ! k) (lastIndex ms i)"

definition activeIDs :: "playoff_matchup list \<Rightarrow> string list" where
  "activeIDs ms = map pmID (filter (\<lambda>m. pmRound m = maxRound ms (pmBracket m) \<and> \<not> pmFinal m) ms)"

definition checkResult :: "playoff_matchup list \<Rightarrow> round_result \<Rightarrow> round_error option" where
  "checkResult ms res =
     (let i = rrMatchupID res in
      case lookupMatchup ms i of None \<Rightarrow> Some (UnknownResult i)
      | Some m \<Rightarrow>
          if \<not> rrFinal res \<or> \<not> rrAuthoritative res \<or> \<not> isFinalState (rrSourceState res) then Some (ResultNotFinal i)
          else if trimSpace (rrSource res) = [] \<or> isZero (rrObservedAt res) then Some (ResultNoSource i)
          else if pmFinal m then
            (if pmHomeScore m \<noteq> rrHomeScore res \<or> pmAwayScore m \<noteq> rrAwayScore res then Some (ResultConflict i) else None)
          else if pmHome m = [] \<or> pmAway m = [] then Some (ResultNoOpponent i)
          else if i \<notin> set (activeIDs ms) then Some (ResultInactive i)
          else None)"

fun checkResults :: "playoff_matchup list \<Rightarrow> string list \<Rightarrow> round_result list \<Rightarrow> round_error option" where
  "checkResults ms seen [] = None"
| "checkResults ms seen (res # rest) =
     (if trimSpace (rrMatchupID res) = [] then Some NoResultID
      else if rrMatchupID res \<in> set seen then Some (DuplicateResult (rrMatchupID res))
      else case checkResult ms res of Some e \<Rightarrow> Some e | None \<Rightarrow> checkResults ms (rrMatchupID res # seen) rest)"

text \<open>The missing matchup a partial set is refused for is the first in bracket order (the code's set iteration picks any).\<close>

definition validateAuthoritativePlayoffRound :: "playoff_state \<Rightarrow> round_result list \<Rightarrow> round_error option" where
  "validateAuthoritativePlayoffRound st results =
     (if results = [] then Some NoResults
      else case checkResults (plMatchups st) [] results of Some e \<Rightarrow> Some e
      | None \<Rightarrow>
          (case filter (\<lambda>i. i \<notin> rrMatchupID ` set results) (activeIDs (plMatchups st)) of
             [] \<Rightarrow> None | i # _ \<Rightarrow> Some (PartialResults i)))"

definition advanceAuthoritativePlayoffRound :: "playoff_state \<Rightarrow> round_result list \<Rightarrow> postseason_error + playoff_state" where
  "advanceAuthoritativePlayoffRound st results =
     (case validateAuthoritativePlayoffRound st results of Some e \<Rightarrow> Inl (BadRound e)
      | None \<Rightarrow> (case advancePlayoffRound st results of Inl e \<Rightarrow> Inl (BracketError e) | Inr st' \<Rightarrow> Inr st'))"

section \<open>The Store operations\<close>

text \<open>An absent time is the clock's reading; UTC conversion does not change an instant.\<close>

definition playoffNow :: "time \<Rightarrow> time \<Rightarrow> time" where
  "playoffNow clock at' = (if isZero at' then clock else at')"

definition playoffAudit :: "time \<Rightarrow> string \<Rightarrow> string \<Rightarrow> time \<Rightarrow> int \<Rightarrow> audit_entry" where
  "playoffAudit clock action actor at' revision = \<lparr>auAction = action, auActor = trimSpace actor, auAt = playoffNow clock at',
     auReason = [], auPreviewID = [], auMatchupID = [], auPreviousWinner = [], auWinner = [], auRevision = revision\<rparr>"

definition previewCandidate :: "time \<Rightarrow> playoff_state option \<Rightarrow> playoff_state \<Rightarrow> string \<Rightarrow> time \<Rightarrow> playoff_state" where
  "previewCandidate clock previous preview actor at' =
     (let revision = (case previous of None \<Rightarrow> plRevision preview
            | Some p \<Rightarrow> if plRevision p \<ge> plRevision preview then plRevision p + 1 else plRevision preview);
          audit = (playoffAudit clock ''preview'' actor at' revision)
            \<lparr>auPreviewID := plPreviewID preview, auReason := ''commissioner preview''\<rparr>
      in preview\<lparr>plRevision := revision, plAudit := plAudit preview @ [audit]\<rparr>)"

definition setPlayoffPreview ::
  "time \<Rightarrow> playoff_state \<Rightarrow> string \<Rightarrow> time \<Rightarrow> persist_result \<Rightarrow> store \<Rightarrow> (store, postseason_error, unit) outcome" where
  "setPlayoffPreview clock preview actor at' res s =
     (if plStatus preview \<noteq> StatusPreview then rejected NotAPreview s
      else if trimSpace actor = [] then rejected NoActor s
      else if plPreviewID preview = [] then rejected NoPreviewID s
      else case validatePlayoffProvenance (plProvenance preview) of Some e \<Rightarrow> rejected (BadProvenance e) s
      | None \<Rightarrow> gated s
          (let st = stState s;
               commit = commitDisposed res s (st\<lparr>playoffs := Some (previewCandidate clock (playoffs st) preview actor at')\<rparr>) ()
           in case playoffs st of None \<Rightarrow> commit
              | Some current \<Rightarrow>
                  if effectivePlayoffStatus current = StatusPublished then rejected AlreadyPublished s
                  else if effectivePlayoffStatus current = StatusPreview \<and> plPreviewID current = plPreviewID preview
                    then (Inr (), s)
                  else commit))"

definition publishedCandidate :: "time \<Rightarrow> playoff_state \<Rightarrow> string \<Rightarrow> time \<Rightarrow> playoff_state" where
  "publishedCandidate clock current actor at' =
     (let when' = playoffNow clock at'; revision = plRevision current + 1;
          audit = (playoffAudit clock ''publish'' actor when' revision)
            \<lparr>auPreviewID := plPreviewID current, auReason := ''commissioner published preview''\<rparr>
      in current\<lparr>plStatus := StatusPublished, plPublishedAt := when', plRevision := revision,
           plAudit := plAudit current @ [audit]\<rparr>)"

definition publishConfirmation :: string where
  "publishConfirmation = ''PUBLISH PLAYOFF BRACKET''"

definition correctionConfirmation :: string where
  "correctionConfirmation = ''CORRECT PLAYOFF BRACKET''"

definition publishPlayoffPreview ::
  "time \<Rightarrow> string \<Rightarrow> string \<Rightarrow> string \<Rightarrow> time \<Rightarrow> persist_result \<Rightarrow> store \<Rightarrow> (store, postseason_error, playoff_state) outcome" where
  "publishPlayoffPreview clock previewID confirmation actor at' res s = gated s
     (if trimSpace previewID = [] then rejected NoPreviewID s
      else if trimSpace confirmation \<noteq> publishConfirmation then rejected NoConfirmation s
      else if trimSpace actor = [] then rejected NoActor s
      else case playoffs (stState s) of None \<Rightarrow> rejected NoPreview s
      | Some current \<Rightarrow>
          if effectivePlayoffStatus current = StatusPublished then
            (if plPreviewID current = previewID then (Inr current, s) else rejected OtherPublished s)
          else if plStatus current \<noteq> StatusPreview \<or> plPreviewID current \<noteq> previewID then rejected PreviewFirst s
          else case validatePlayoffProvenance (plProvenance current) of Some e \<Rightarrow> rejected (BadProvenance e) s
          | None \<Rightarrow>
              (let candidate = publishedCandidate clock current actor at'
               in commitDisposed res s ((stState s)\<lparr>playoffs := Some candidate\<rparr>) candidate))"

definition sameBracket :: "playoff_state \<Rightarrow> playoff_state \<Rightarrow> bool" where
  "sameBracket p q \<longleftrightarrow> plMatchups p = plMatchups q \<and> plChampion p = plChampion q \<and> plRunnerUp p = plRunnerUp q \<and>
     plConsolationWinner p = plConsolationWinner q \<and> plToilet p = plToilet q"

definition latestObserved :: "round_result list \<Rightarrow> time" where
  "latestObserved results = foldl (\<lambda>at' res. if rrObservedAt res > at' then rrObservedAt res else at') 0 results"

definition advancedCandidate :: "time \<Rightarrow> playoff_state \<Rightarrow> playoff_state \<Rightarrow> round_result list \<Rightarrow> playoff_state" where
  "advancedCandidate clock current advanced results =
     (let revision = plRevision current + 1;
          audit = (playoffAudit clock ''advance'' ''system'' (latestObserved results) revision)
            \<lparr>auReason := ''authoritative final results''\<rparr>
      in advanced\<lparr>plRevision := revision, plAudit := plAudit current @ [audit]\<rparr>)"

definition advancePublishedPlayoffRound ::
  "time \<Rightarrow> round_result list \<Rightarrow> persist_result \<Rightarrow> store \<Rightarrow> (store, postseason_error, playoff_state) outcome" where
  "advancePublishedPlayoffRound clock results res s = gated s
     (case playoffs (stState s) of None \<Rightarrow> rejected NotPublished s
      | Some current \<Rightarrow>
          if plStatus current \<noteq> StatusPublished then rejected NotPublished s
          else case validateAuthoritativePlayoffRound current results of Some e \<Rightarrow> rejected (BadRound e) s
          | None \<Rightarrow>
              (case advanceAuthoritativePlayoffRound current results of Inl e \<Rightarrow> rejected e s
               | Inr advanced \<Rightarrow>
                  if sameBracket advanced current then (Inr current, s)
                  else
                    (let candidate = advancedCandidate clock current advanced results; st = stState s;
                         ended = (if plChampion candidate \<noteq> [] \<and> seasonPhase st \<noteq> PhaseSeasonComplete
                           then st\<lparr>seasonPhase := PhaseSeasonComplete\<rparr> else st)
                     in commitDisposed res s (ended\<lparr>playoffs := Some candidate\<rparr>) candidate)))"

record playoff_correction =
  coMatchupID :: string
  coWinner :: team_id
  coHomeScore :: rat
  coAwayScore :: rat
  coScoresProvided :: bool
  coActor :: string
  coReason :: string
  coConfirmation :: string
  coAt :: time

definition correctionGuard :: "playoff_state \<Rightarrow> playoff_correction \<Rightarrow> correction_error + nat" where
  "correctionGuard current co =
     (if plStatus current \<noteq> StatusPublished then Inl BracketNotPublished
      else if trimSpace (coConfirmation co) \<noteq> correctionConfirmation then Inl NotConfirmed
      else if trimSpace (coActor co) = [] \<or> trimSpace (coReason co) = [] then Inl NoActorOrReason
      else if trimSpace (coMatchupID co) = [] \<or> trimSpace (coWinner co) = [] then Inl NoCorrectionIDs
      else case indexWhere (\<lambda>m. pmID m = coMatchupID co) (plMatchups current) of
        None \<Rightarrow> Inl (UnknownCorrection (coMatchupID co))
      | Some k \<Rightarrow>
          (let m = plMatchups current ! k in
           if \<not> pmFinal m then Inl CorrectionNotFinal
           else if coWinner co \<noteq> pmHome m \<and> coWinner co \<noteq> pmAway m then Inl CorrectionWinner
           else if pmRound m < bracketTotalRounds (plConfig current) (plMatchups current) (pmBracket m) then Inl CorrectionEarlierRound
           else if coScoresProvided co \<and> (coHomeScore co < 0 \<or> coAwayScore co < 0) then Inl CorrectionScore
           else Inr k))"

definition correctedMatchup :: "time \<Rightarrow> playoff_correction \<Rightarrow> playoff_matchup \<Rightarrow> playoff_matchup" where
  "correctedMatchup clock co m =
     (let scored = (if coScoresProvided co then m\<lparr>pmHomeScore := coHomeScore co, pmAwayScore := coAwayScore co\<rparr> else m)
      in scored\<lparr>pmWinner := coWinner co,
           pmProvenance := Some \<lparr>rpSource = ''commissioner-correction'', rpState = ''final'',
             rpObservedAt = playoffNow clock (coAt co), rpAuthoritative = True\<rparr>,
           pmExplanation := ManualCorrection (trimSpace (coReason co))\<rparr>)"

definition correctedCandidate :: "time \<Rightarrow> playoff_state \<Rightarrow> playoff_correction \<Rightarrow> nat \<Rightarrow> playoff_state" where
  "correctedCandidate clock current co k =
     (let target = correctedMatchup clock co (plMatchups current ! k); revision = plRevision current + 1;
          sealed = finalizeBracket (pmBracket target) [target] (current\<lparr>plMatchups := (plMatchups current)[k := target]\<rparr>);
          audit = (playoffAudit clock ''correction'' (coActor co) (coAt co) revision)
            \<lparr>auReason := trimSpace (coReason co), auMatchupID := coMatchupID co,
             auPreviousWinner := pmWinner (plMatchups current ! k), auWinner := coWinner co\<rparr>
      in sealed\<lparr>plRevision := revision, plAudit := plAudit current @ [audit]\<rparr>)"

definition correctPublishedPlayoff ::
  "time \<Rightarrow> playoff_correction \<Rightarrow> persist_result \<Rightarrow> store \<Rightarrow> (store, correction_error, playoff_state) outcome" where
  "correctPublishedPlayoff clock co res s = gated s
     (case playoffs (stState s) of None \<Rightarrow> rejected BracketNotPublished s
      | Some current \<Rightarrow>
          (case correctionGuard current co of Inl e \<Rightarrow> rejected e s
           | Inr k \<Rightarrow>
              (let m = plMatchups current ! k in
               if pmWinner m = coWinner co \<and>
                  (\<not> coScoresProvided co \<or> (pmHomeScore m = coHomeScore co \<and> pmAwayScore m = coAwayScore co))
               then (Inr current, s)
               else let candidate = correctedCandidate clock current co k
                    in commitDisposed res s ((stState s)\<lparr>playoffs := Some candidate\<rparr>) candidate)))"

end
