(* ===== verification/PlayoffSeeds.thy ===== *)
theory PlayoffSeeds
  imports PlayoffRun "HOL-Library.Sublist"
begin

text \<open>
  Seeding (SeedPlayoffs of src/internal/league/playoffs.go): the field of a postseason and its order.
\<close>

lemma divisionWinners_subseq: "subseq (divisionWinners divisions room seen sts) sts"
  by (induction divisions room seen sts rule: divisionWinners.induct) (auto simp: Let_def)

lemma divisionWinners_length: "1 \<le> room \<Longrightarrow> length (divisionWinners divisions room seen sts) \<le> room"
proof (induction divisions room seen sts rule: divisionWinners.induct)
  case (2 divisions room seen st sts)
  show ?case
  proof (cases "room \<le> 1")
    case False
    then have "1 \<le> room - 1" "Suc (room - 1) = room" by linarith+
    then show ?thesis using 2 False by (auto simp: Let_def)
  qed (use 2 in \<open>auto simp: Let_def\<close>)
qed simp

text \<open>Every team of the field is the first of its division, as long as there is room.\<close>

lemma divisionWinners_first:
  assumes "st \<in> set (divisionWinners divisions room seen sts)"
  shows "\<exists>pre post. sts = pre @ st # post \<and> divisionOf divisions (stTeamID st) \<noteq> [] \<and>
    divisionOf divisions (stTeamID st) \<notin> set seen \<and>
    (\<forall>x\<in>set pre. divisionOf divisions (stTeamID x) \<noteq> divisionOf divisions (stTeamID st))"
  using assms
proof (induction divisions room seen sts rule: divisionWinners.induct)
  case (2 divisions room seen x sts)
  let ?d = "divisionOf divisions (stTeamID x)"
  show ?case
  proof (cases "?d = [] \<or> ?d \<in> set seen")
    case True
    then obtain pre post where "sts = pre @ st # post" "divisionOf divisions (stTeamID st) \<noteq> []"
      "divisionOf divisions (stTeamID st) \<notin> set seen"
      "\<forall>y\<in>set pre. divisionOf divisions (stTeamID y) \<noteq> divisionOf divisions (stTeamID st)"
      using 2 by (auto simp: Let_def)
    then show ?thesis using True by (intro exI [of _ "x # pre"] exI [of _ post]) auto
  next
    case False
    show ?thesis
    proof (cases "st = x")
      case True
      then show ?thesis using False by (intro exI [of _ "[]"] exI [of _ sts]) auto
    next
      case ne: False
      then have "\<not> room \<le> 1" "st \<in> set (divisionWinners divisions (room - 1) (?d # seen) sts)"
        using 2(3) False by (auto simp: Let_def split: if_splits)
      then obtain pre post where "sts = pre @ st # post" "divisionOf divisions (stTeamID st) \<noteq> []"
        "divisionOf divisions (stTeamID st) \<notin> set (?d # seen)"
        "\<forall>y\<in>set pre. divisionOf divisions (stTeamID y) \<noteq> divisionOf divisions (stTeamID st)"
        using 2(2) [OF refl False] by blast
      then show ?thesis by (intro exI [of _ "x # pre"] exI [of _ post]) auto
    qed
  qed
qed simp

lemma sorted_wrt_subseq: "subseq xs ys \<Longrightarrow> sorted_wrt P ys \<Longrightarrow> sorted_wrt P xs"
proof (induction rule: list_emb.induct)
  case (list_emb_Cons2 x y xs ys)
  then show ?case using list_emb_set [OF list_emb_Cons2.hyps(2)] by fastforce
qed simp_all

lemma subseq_filter_complement:
  assumes "subseq ws xs" "distinct (map f xs)"
  shows "mset xs = mset ws + mset (filter (\<lambda>x. f x \<notin> f ` set ws) xs)"
  using assms
proof (induction rule: list_emb.induct)
  case (list_emb_Cons xs ys y)
  then have "f y \<notin> f ` set xs" using list_emb_set [OF list_emb_Cons.hyps(1)] by force
  then show ?case using list_emb_Cons by simp
next
  case (list_emb_Cons2 x y xs ys)
  then have "filter (\<lambda>z. f z \<notin> f ` set (x # xs)) ys = filter (\<lambda>z. f z \<notin> f ` set xs) ys"
    using list_emb_Cons2.prems by (intro filter_cong) (auto simp: image_iff)
  moreover have "f y \<notin> f ` set ys" using list_emb_Cons2.prems by simp
  ultimately show ?case using list_emb_Cons2 by simp
qed simp

lemma seeds_of_field:
  assumes "mset fld \<subseteq># mset standings" "distinct (map stTeamID standings)"
    and "map psTeamID seeds = map stTeamID fld"
  shows "distinct (map psTeamID (numberSeeds seeds)) \<and>
    set (map psTeamID (numberSeeds seeds)) \<subseteq> stTeamID ` set standings"
proof -
  have sub: "mset (map stTeamID fld) \<subseteq># mset (map stTeamID standings)"
    using image_mset_subseteq_mono [OF assms(1)] by simp
  have "distinct (map psTeamID (numberSeeds seeds))"
    unfolding numberSeeds_facts assms(3) by (rule distinct_submset [OF sub assms(2)])
  then show ?thesis
    unfolding numberSeeds_facts assms(3) using set_mset_mono [OF sub] by simp
qed

interpretation seed_order: weak_order rankOrder
  by unfold_locales (auto simp: rankOrder_def split: if_splits)

text \<open>The standings the field is made of, in seed order, and how many of them are division winners.\<close>

definition seedField :: "standing list \<Rightarrow> (team_id \<times> string) list \<Rightarrow> playoff_config \<Rightarrow> standing list \<times> standing list" where
  "seedField standings divisions cfg =
     (let n = nat (pcTeamCount cfg); ordered = sortStable rankOrder standings in
      if pcDivisionWinnersFirst cfg \<and> divisions \<noteq> [] then
        (let winners = divisionWinners divisions n [] ordered
         in (winners, take (n - length winners) (filter (\<lambda>st. stTeamID st \<notin> stTeamID ` set winners) ordered)))
      else ([], take n ordered))"

lemma seedPlayoffs_field:
  assumes "seedPlayoffs standings divisions cfg = Inr seeds" "seedField standings divisions cfg = (ws, rest)"
  shows "seeds = numberSeeds (map (seedFrom DivisionWinner) ws @
      map (seedFrom (if pcDivisionWinnersFirst cfg \<and> divisions \<noteq> [] then Wildcard else Field)) rest)"
    "2 \<le> pcTeamCount cfg" "pcTeamCount cfg \<le> 8" "pcTeamCount cfg \<le> int (length standings)"
  using assms by (auto simp: seedPlayoffs_def seedField_def Let_def split: if_splits)

lemma seedField_facts:
  assumes "seedField standings divisions cfg = (ws, rest)" "distinct (map stTeamID standings)"
    and "1 \<le> pcTeamCount cfg" "pcTeamCount cfg \<le> int (length standings)"
  shows "length ws + length rest = nat (pcTeamCount cfg)" "mset (ws @ rest) \<subseteq># mset standings"
    "sorted_wrt (\<lambda>a b. \<not> rankOrder b a) ws" "sorted_wrt (\<lambda>a b. \<not> rankOrder b a) rest"
    "\<And>st x. st \<in> set standings \<Longrightarrow> st \<notin> set (ws @ rest) \<Longrightarrow> x \<in> set rest \<Longrightarrow> \<not> rankOrder st x"
proof -
  define n where "n = nat (pcTeamCount cfg)"
  define ordered where "ordered = sortStable rankOrder standings"
  define winners where "winners = (if pcDivisionWinnersFirst cfg \<and> divisions \<noteq> [] then divisionWinners divisions n [] ordered else [])"
  define others where "others = filter (\<lambda>st. stTeamID st \<notin> stTeamID ` set winners) ordered"
  have n: "1 \<le> n" "n \<le> length standings" using assms(3,4) by (simp_all add: n_def)
  have eq: "ws = winners" "rest = take (n - length winners) others"
    using assms(1) by (auto simp: seedField_def Let_def winners_def others_def ordered_def n_def split: if_splits)
  have srt: "sorted_wrt (\<lambda>a b. \<not> rankOrder b a) ordered" unfolding ordered_def by (rule seed_order.sort_sorted)
  have sub: "subseq winners ordered" unfolding winners_def by (simp add: divisionWinners_subseq)
  have len: "length winners \<le> n" unfolding winners_def using divisionWinners_length [OF n(1)] by simp
  have part: "mset ordered = mset winners + mset others"
    unfolding others_def using subseq_filter_complement [OF sub] assms(2) by (simp add: ordered_def)
  then have total: "length standings = length winners + length others"
    unfolding ordered_def by (metis length_sortStable size_mset size_union)
  show "length ws + length rest = nat (pcTeamCount cfg)" using n total len by (simp add: eq n_def)
  have "mset (take (n - length winners) others) \<subseteq># mset others" by (metis append_take_drop_id mset_append mset_subset_eq_add_left)
  then show "mset (ws @ rest) \<subseteq># mset standings" using part by (simp add: eq ordered_def)
  show "sorted_wrt (\<lambda>a b. \<not> rankOrder b a) ws" unfolding eq by (rule sorted_wrt_subseq [OF sub srt])
  have so: "sorted_wrt (\<lambda>a b. \<not> rankOrder b a) others" unfolding others_def using srt by (rule sorted_wrt_filter)
  then show "sorted_wrt (\<lambda>a b. \<not> rankOrder b a) rest" unfolding eq by (rule sorted_wrt_take)
  show "\<not> rankOrder st x" if "st \<in> set standings" "st \<notin> set (ws @ rest)" "x \<in> set rest" for st x
  proof -
    have "st \<in> set ordered" using that(1) by (simp add: ordered_def)
    moreover have "set ordered = set winners \<union> set others" using arg_cong [OF part, of set_mset] by simp
    ultimately have "st \<in> set winners \<or> st \<in> set others" by blast
    then have "st \<in> set others" using that(2) eq by simp
    moreover have "set others = set (take (n - length winners) others) \<union> set (drop (n - length winners) others)"
      by (metis append_take_drop_id set_append)
    ultimately have "st \<in> set (drop (n - length winners) others)" using that(2) unfolding eq by simp
    moreover have "sorted_wrt (\<lambda>a b. \<not> rankOrder b a) (take (n - length winners) others @ drop (n - length winners) others)"
      using so by simp
    ultimately show ?thesis using that(3) unfolding eq sorted_wrt_append by blast
  qed
qed

lemma seedField_winner:
  assumes "seedField standings divisions cfg = (ws, rest)" "w \<in> set ws" "st \<in> set standings"
    and "divisionOf divisions (stTeamID st) = divisionOf divisions (stTeamID w)"
  shows "\<not> rankOrder st w"
proof -
  have "w \<in> set (divisionWinners divisions (nat (pcTeamCount cfg)) [] (sortStable rankOrder standings))"
    using assms(1,2) by (auto simp: seedField_def Let_def split: if_splits)
  then obtain pre post where eq: "sortStable rankOrder standings = pre @ w # post"
    and pre: "\<forall>x\<in>set pre. divisionOf divisions (stTeamID x) \<noteq> divisionOf divisions (stTeamID w)"
    using divisionWinners_first by blast
  have "sorted_wrt (\<lambda>a b. \<not> rankOrder b a) (pre @ w # post)" unfolding eq [symmetric] by (rule seed_order.sort_sorted)
  then have "\<forall>x\<in>set post. \<not> rankOrder x w" by (simp add: sorted_wrt_append)
  moreover have "st \<in> set (pre @ w # post)" unfolding eq [symmetric] using assms(3) by simp
  ultimately show ?thesis using pre assms(4) seed_order.irrefl by auto
qed

text \<open>
  Seeding is sound. When the standings list every team once, the field has the configured size,
  its seeds are numbered from 1, its teams are distinct and come from the standings. With division
  winners first, the winners come first in rank order, each the best-ranked team of its division;
  the other seeds follow in rank order, and no team left out ranks above them.
\<close>

theorem seed_playoffs_sound:
  assumes "seedPlayoffs standings divisions cfg = Inr seeds" "distinct (map stTeamID standings)"
  shows "int (length seeds) = pcTeamCount cfg \<and> map psSeed seeds = map (\<lambda>i. int i + 1) [0..<length seeds] \<and>
    distinct (map psTeamID seeds) \<and> set (map psTeamID seeds) \<subseteq> stTeamID ` set standings \<and>
    (\<exists>ws rest. map psTeamID seeds = map stTeamID (ws @ rest) \<and> mset (ws @ rest) \<subseteq># mset standings \<and>
       (\<forall>i<length seeds. psSource (seeds ! i) = DivisionWinner \<longleftrightarrow> i < length ws) \<and>
       sorted_wrt (\<lambda>a b. \<not> rankOrder b a) ws \<and> sorted_wrt (\<lambda>a b. \<not> rankOrder b a) rest \<and>
       (\<forall>w\<in>set ws. \<forall>st\<in>set standings. divisionOf divisions (stTeamID st) = divisionOf divisions (stTeamID w) \<longrightarrow>
          \<not> rankOrder st w) \<and>
       (\<forall>x\<in>set rest. \<forall>st\<in>set standings - set (ws @ rest). \<not> rankOrder st x))"
proof -
  obtain ws rest where wr: "seedField standings divisions cfg = (ws, rest)" by fastforce
  note fld = seedPlayoffs_field [OF assms(1) wr]
  have one: "1 \<le> pcTeamCount cfg" using fld(2) by simp
  note facts = seedField_facts [OF wr assms(2) one fld(4)]
  define src where "src = (if pcDivisionWinnersFirst cfg \<and> divisions \<noteq> [] then Wildcard else Field)"
  define raw where "raw = map (seedFrom DivisionWinner) ws @ map (seedFrom src) rest"
  have seeds: "seeds = numberSeeds raw" using fld(1) by (simp add: raw_def src_def)
  have ids: "map psTeamID raw = map stTeamID (ws @ rest)" by (simp add: raw_def seedFrom_def comp_def)
  have len: "int (length seeds) = pcTeamCount cfg"
    using facts(1) one by (simp add: seeds numberSeeds_facts raw_def)
  have nums: "map psSeed seeds = map (\<lambda>i. int i + 1) [0..<length seeds]"
    by (simp add: seeds numberSeeds_def comp_def)
  have source: "\<forall>i<length seeds. psSource (seeds ! i) = DivisionWinner \<longleftrightarrow> i < length ws"
    by (auto simp: seeds numberSeeds_def raw_def seedFrom_def nth_append src_def)
  have best: "\<forall>w\<in>set ws. \<forall>st\<in>set standings. divisionOf divisions (stTeamID st) = divisionOf divisions (stTeamID w) \<longrightarrow>
      \<not> rankOrder st w"
    using seedField_winner [OF wr] by blast
  have out: "\<forall>x\<in>set rest. \<forall>st\<in>set standings - set (ws @ rest). \<not> rankOrder st x" using facts(5) by blast
  have same: "map psTeamID seeds = map stTeamID (ws @ rest)" by (simp only: seeds numberSeeds_facts ids)
  show ?thesis
    using len nums seeds_of_field [OF facts(2) assms(2) ids] source best out facts(2,3,4) same
    unfolding seeds [symmetric] by blast
qed

section \<open>A concrete field\<close>

definition sampleStanding :: "team_id \<Rightarrow> int \<Rightarrow> standing" where
  "sampleStanding t r = \<lparr>stTeamID = t, stWins = 12 - r, stLosses = r, stTies = 0, stPointsFor = 100, stPointsAgainst = 90,
     stStreak = [], stRank = r, stDecidedBy = []\<rparr>"

definition sampleTable :: "standing list" where
  "sampleTable = [sampleStanding ''a'' 2, sampleStanding ''b'' 1, sampleStanding ''c'' 3, sampleStanding ''d'' 6,
     sampleStanding ''e'' 4, sampleStanding ''f'' 5]"

definition sampleDivisions :: "(team_id \<times> string) list" where
  "sampleDivisions = [(''a'', ''N''), (''b'', ''N''), (''c'', ''N''), (''d'', ''S''), (''e'', ''N''), (''f'', ''N'')]"

definition samplePlayoffConfig :: playoff_config where
  "samplePlayoffConfig = \<lparr>pcTeamCount = 4, pcStartWeek = 15, pcRoundLengthWeeks = 1, pcQualification = [],
     pcTiebreakOrder = [], pcByes = 0, pcDivisionWinnersFirst = True, pcReseed = True, pcConsolation = True,
     pcToiletBowl = True\<rparr>"

lemma sampleTable_ids: "distinct (map stTeamID sampleTable)" "[] \<notin> stTeamID ` set sampleTable"
  by (simp_all add: sampleTable_def sampleStanding_def)

lemma seed_playoffs_sound_witness:
  "\<exists>seeds. seedPlayoffs sampleTable sampleDivisions samplePlayoffConfig = Inr seeds \<and> distinct (map psTeamID seeds)"
proof -
  have "\<not> isl (seedPlayoffs sampleTable sampleDivisions samplePlayoffConfig)" by code_simp
  then obtain seeds where seeds: "seedPlayoffs sampleTable sampleDivisions samplePlayoffConfig = Inr seeds"
    by (metis isl_def sum.exhaust)
  then show ?thesis using seed_playoffs_sound [OF seeds sampleTable_ids(1)] by blast
qed

end
