(* ===== verification/PlayoffProps.thy ===== *)
theory PlayoffProps
  imports PlayoffSeeds
begin

text \<open>
  The playoffs from seeding to champion: every reachable state satisfies the bracket invariant, a
  champion has won every round, complete results always bring the next round or the champion.
\<close>

section \<open>Generation\<close>

lemma first_matchup_champ:
  assumes "numbered seeds" "2 \<le> length seeds" "distinct (map psTeamID seeds)" "[] \<notin> set (map psTeamID seeds)"
    and "pairBracketRound1 seeds Championship week = Inr ms" "pcTeamCount cfg = int (length seeds)"
  shows "playoffInv (newPlayoffState cfg seeds ms)" "\<forall>m\<in>set ms. pmBracket m = Championship"
proof -
  have ms: "length ms = 2 ^ (roundsFor (length seeds) - 1)" "roundOK ms" "\<forall>m\<in>set ms. pmBracket m = Championship \<and> pmRound m = 1"
    using first_round [OF assms(1-4), of Championship week] assms(5) by auto
  then show b: "\<forall>m\<in>set ms. pmBracket m = Championship" by blast
  have inv: "bracketInv ms Championship (roundsFor (length seeds)) 1"
    using bracketInv_first [of "[]" Championship ms] ms roundsFor_bounds(3) [OF assms(2)] by simp
  have ids: "\<exists>x. pmID m = playoffMatchupID (pmBracket m) (pmRound m) (pmHomeSeed m) x" if "m \<in> set ms" for m
    using pairBracket_ids [OF assms(5) that] .
  have "\<exists>T R. bracketInv ms (pmBracket m) T R" if "m \<in> set ms" for m using inv b that by metis
  then show "playoffInv (newPlayoffState cfg seeds ms)"
    using inv ids assms(2,6) unfolding playoffInv_def champRounds_def newPlayoffState_def by (auto intro!: exI [of _ 1])
qed

lemma toilet_seed_facts:
  assumes "distinct (map stTeamID standings)" "[] \<notin> stTeamID ` set standings"
  shows "numbered (nonPlayoffToiletSeeds standings n)" "distinct (map psTeamID (nonPlayoffToiletSeeds standings n))"
    "[] \<notin> set (map psTeamID (nonPlayoffToiletSeeds standings n))"
proof -
  define rest where "rest = rev (drop (nat n) (sortStable rankOnlyOrder standings))"
  define seeds where "seeds = map (\<lambda>i. \<lparr>psSeed = int i + 1, psTeamID = stTeamID (rest ! i), psSource = Field, psExplanation = []\<rparr>)
             [0..<length rest]"
  have "distinct (map stTeamID (sortStable rankOnlyOrder standings))" using assms(1) by simp
  then have d: "distinct (map stTeamID rest)" by (simp add: rest_def rev_map [symmetric] drop_map [symmetric])
  have s: "set rest \<subseteq> set standings" using set_drop_subset unfolding rest_def by fastforce
  have t: "map psTeamID seeds = map stTeamID rest" unfolding seeds_def by (rule nth_equalityI) simp_all
  have n': "numbered seeds" by (simp add: numbered_def seeds_def)
  have ne: "[] \<notin> set (map stTeamID rest)" using s assms(2) by auto
  have cases: "nonPlayoffToiletSeeds standings n = [] \<or> nonPlayoffToiletSeeds standings n = seeds"
    by (simp add: nonPlayoffToiletSeeds_def Let_def seeds_def rest_def)
  show "numbered (nonPlayoffToiletSeeds standings n)"
    using cases n' by (elim disjE) (simp_all add: numbered_def)
  show "distinct (map psTeamID (nonPlayoffToiletSeeds standings n))" using cases d t by (elim disjE) simp_all
  show "[] \<notin> set (map psTeamID (nonPlayoffToiletSeeds standings n))" using cases ne t by (elim disjE) simp_all
qed

lemma generate_inv:
  assumes "generatePlayoffState standings divisions cfg = Inr st"
    and "distinct (map stTeamID standings)" "[] \<notin> stTeamID ` set standings"
  shows "playoffInv st \<and> plConfig st = cfg \<and> plChampion st = []"
proof -
  obtain seeds champ where seeds: "seedPlayoffs standings divisions cfg = Inr seeds"
    and champ: "pairBracketRound1 seeds Championship (roundWeek cfg 1) = Inr champ" and two: "2 \<le> pcTeamCount cfg"
    using assms(1) by (auto simp: generatePlayoffState_def Let_def split: if_splits sum.splits)
  obtain ws rest where wr: "seedField standings divisions cfg = (ws, rest)" by fastforce
  note fld = seedPlayoffs_field [OF seeds wr]
  have facts: "length ws + length rest = nat (pcTeamCount cfg)" "mset (ws @ rest) \<subseteq># mset standings"
    using seedField_facts(1,2) [OF wr assms(2)] two fld(4) by auto
  define raw where "raw = map (seedFrom DivisionWinner) ws @
      map (seedFrom (if pcDivisionWinnersFirst cfg \<and> divisions \<noteq> [] then Wildcard else Field)) rest"
  have ids: "map psTeamID raw = map stTeamID (ws @ rest)" by (simp add: raw_def seedFrom_def comp_def)
  have raw: "seeds = numberSeeds raw" using fld(1) by (simp add: raw_def)
  note sf = seeds_of_field [OF facts(2) assms(2) ids, folded raw]
  have len: "int (length seeds) = pcTeamCount cfg" using facts(1) two by (simp add: raw numberSeeds_facts raw_def)
  have num: "numbered seeds" unfolding raw by (rule numberSeeds_facts)
  have ne: "[] \<notin> set (map psTeamID seeds)" using sf assms(3) by blast
  have base: "playoffInv (newPlayoffState cfg seeds champ)" "\<forall>m\<in>set champ. pmBracket m = Championship"
    using first_matchup_champ [OF num _ _ ne champ len [symmetric]] sf two len by auto
  show ?thesis
  proof (cases "st = newPlayoffState cfg seeds champ")
    case True
    then show ?thesis using base by (simp add: newPlayoffState_def)
  next
    case False
    then obtain toilet where toilet: "pairBracketRound1 (nonPlayoffToiletSeeds standings (pcTeamCount cfg)) Toilet (roundWeek cfg 1) = Inr toilet"
      and many: "2 \<le> length (nonPlayoffToiletSeeds standings (pcTeamCount cfg))"
      and st: "st = newPlayoffState cfg seeds (champ @ toilet)"
      using assms(1) seeds champ by (auto simp: generatePlayoffState_def Let_def split: if_splits sum.splits)
    have "st = (newPlayoffState cfg seeds champ)\<lparr>plMatchups := plMatchups (newPlayoffState cfg seeds champ) @ toilet\<rparr>"
      by (simp add: st newPlayoffState_def)
    moreover have "playoffInv \<dots>"
      by (rule first_round_inv [OF base(1) toilet_seed_facts(1) [OF assms(2,3)] many toilet_seed_facts(2,3) [OF assms(2,3)] _ _ toilet])
        (use base(2) in \<open>auto simp: newPlayoffState_def\<close>)
    ultimately show ?thesis by (simp add: newPlayoffState_def)
  qed
qed

section \<open>Reachable playoffs\<close>

text \<open>The playoffs a seeded state can get to by any sequences of results.\<close>

inductive playoffReach :: "playoff_state \<Rightarrow> playoff_state \<Rightarrow> bool" for st0 where
  playoffStart: "playoffReach st0 st0"
| playoffRound: "playoffReach st0 st \<Longrightarrow> advancePlayoffRound st results = Inr st' \<Longrightarrow> playoffReach st0 st'"

lemma playoffReach_inv:
  assumes "playoffReach st0 st" "playoffInv st0"
  shows "playoffInv st"
  using assms by (induction rule: playoffReach.induct) (auto intro: advance_inv)

lemma generated_reach_inv:
  assumes "generatePlayoffState standings divisions cfg = Inr st0" "distinct (map stTeamID standings)"
    "[] \<notin> stTeamID ` set standings" "playoffReach st0 st"
  shows "playoffInv st"
  using generate_inv [OF assms(1-3)] playoffReach_inv [OF assms(4)] by blast

section \<open>The champion\<close>

lemma entrant_won_before:
  assumes "bracketInv ms Championship T R" "r \<in> {1..<R}" "c \<in> snd ` set (entrants (bround ms Championship (Suc r)))"
  shows "\<exists>m\<in>set (bround ms Championship r). pmFinal m \<and> pmWinner m = c"
proof -
  have "mset (entrants (bround ms Championship (Suc r))) = mset (map (advancer False) (bround ms Championship r))"
    and fin: "list_all pmFinal (bround ms Championship r)"
    using assms(1,2) by (auto simp: bracketInv_def)
  then have "set (entrants (bround ms Championship (Suc r))) = advancer False ` set (bround ms Championship r)"
    by (metis image_set set_mset_mset)
  then obtain m where "m \<in> set (bround ms Championship r)" "c = snd (advancer False m)" using assms(3) by auto
  then show ?thesis using fin by (intro bexI [of _ m]) (auto simp: advancer_def list_all_iff)
qed

lemma winner_entrant:
  assumes "roundOK ms" "m \<in> set ms" "pmFinal m"
  shows "pmWinner m \<in> snd ` set (entrants ms)"
proof -
  have ok: "matchupOK m" using assms(1,2) by (simp add: roundOK_def list_all_iff)
  obtain pre post where ms: "ms = pre @ m # post" using assms(2) by (meson split_list)
  have app: "entrants (xs @ ys) = entrants xs @ entrants ys" for xs ys by (simp add: entrants_def)
  show ?thesis using ok assms(3) by (auto simp: ms app matchupOK_def)
qed

lemma won_rounds_below:
  assumes "bracketInv ms Championship T R" "m \<in> set (bround ms Championship q)" "pmFinal m" "1 \<le> r" "r \<le> q" "q \<le> R"
  shows "\<exists>m'\<in>set (bround ms Championship r). pmFinal m' \<and> pmWinner m' = pmWinner m"
  using assms(2-6)
proof (induction "q - r" arbitrary: q m)
  case 0
  then show ?case by auto
next
  case (Suc d)
  have "roundOK (bround ms Championship q)" using assms(1) Suc.hyps(2) Suc.prems by (auto simp: bracketInv_def)
  then have "pmWinner m \<in> snd ` set (entrants (bround ms Championship q))" using winner_entrant Suc.prems(1,2) by blast
  moreover have q: "Suc (q - 1) = q" "q - 1 \<in> {1..<R}" using Suc.hyps(2) Suc.prems by auto
  ultimately obtain m' where m': "m' \<in> set (bround ms Championship (q - 1))" "pmFinal m'" "pmWinner m' = pmWinner m"
    using entrant_won_before [OF assms(1), of "q - 1"] by metis
  have "d = (q - 1) - r" "r \<le> q - 1" using Suc.hyps(2) Suc.prems by auto
  then show ?case using Suc.hyps(1) [OF _ m'(1,2) Suc.prems(3)] m'(3) q(2) by fastforce
qed

lemma champion_rounds:
  assumes "playoffInv st" "plChampion st \<noteq> []"
  shows "(\<forall>r\<in>{1..champRounds st}. \<exists>m\<in>set (plMatchups st). pmBracket m = Championship \<and> pmRound m = int r \<and>
       pmFinal m \<and> pmWinner m = plChampion st) \<and>
    (\<exists>m. matchupsForRound (plMatchups st) Championship (int (champRounds st)) = [m] \<and>
       {plChampion st, plRunnerUp st} = {pmHome m, pmAway m} \<and> plRunnerUp st \<noteq> plChampion st)"
proof -
  obtain m where m: "bround (plMatchups st) Championship (champRounds st) = [m]" "pmFinal m" "pmWinner m = plChampion st"
      "plRunnerUp st = loserOf m" using assms unfolding playoffInv_def by blast
  obtain R where "bracketInv (plMatchups st) Championship (champRounds st) R" using assms(1) unfolding playoffInv_def by blast
  then have br: "bracketInv (plMatchups st) Championship (champRounds st) (champRounds st)"
    using champion_sealed [OF assms] by blast
  have "\<exists>m'\<in>set (bround (plMatchups st) Championship r). pmFinal m' \<and> pmWinner m' = pmWinner m"
    if "r \<in> {1..champRounds st}" for r
    by (rule won_rounds_below [OF br, of m "champRounds st"]) (use m that in auto)
  then have won: "\<forall>r\<in>{1..champRounds st}. \<exists>m\<in>set (plMatchups st). pmBracket m = Championship \<and> pmRound m = int r \<and>
       pmFinal m \<and> pmWinner m = plChampion st" unfolding m(3) by (fastforce simp: matchupsForRound_def)
  have "1 \<le> champRounds st" by (rule champRounds_pos [OF assms(1)])
  then have "roundOK [m]" using br m(1) by (force simp: bracketInv_def)
  then have "matchupOK m" by (simp add: roundOK_def)
  then have "{plChampion st, plRunnerUp st} = {pmHome m, pmAway m} \<and> plRunnerUp st \<noteq> plChampion st"
    unfolding m(3) [symmetric] m(4) using m(2) by (auto simp: matchupOK_def loserOf_def)
  then show ?thesis using won m(1) by blast
qed

text \<open>
  C22: A crowned champion earned it. In every playoff state reached from the generated brackets by any
  sets of results, a recorded champion has won a final championship matchup in every round of the
  bracket, the recorded runner-up is the other side of the deciding matchup and a different team.
\<close>

theorem champion_won_every_round:
  assumes "generatePlayoffState standings divisions cfg = Inr st0" "distinct (map stTeamID standings)"
    "[] \<notin> stTeamID ` set standings" "playoffReach st0 st" "plChampion st \<noteq> []"
  shows "(\<forall>r\<in>{1..champRounds st}. \<exists>m\<in>set (plMatchups st). pmBracket m = Championship \<and> pmRound m = int r \<and>
       pmFinal m \<and> pmWinner m = plChampion st) \<and>
    (\<exists>m. matchupsForRound (plMatchups st) Championship (int (champRounds st)) = [m] \<and>
       {plChampion st, plRunnerUp st} = {pmHome m, pmAway m} \<and> plRunnerUp st \<noteq> plChampion st)"
  using champion_rounds [OF generated_reach_inv [OF assms(1-4)] assms(5)] .

section \<open>Matchup IDs\<close>

lemma natDigits_chars: "CHR ''-'' \<notin> set (natDigits n)"
proof (induction n rule: natDigits.induct)
  case (1 n)
  have small: "char_of (48 + k) \<noteq> CHR ''-''" if "k < 10" for k :: nat
  proof -
    have "of_char (char_of (48 + k) :: char) = 48 + k" using that by simp
    moreover have "of_char (CHR ''-'') = (45 :: nat)" by simp
    ultimately show ?thesis by (metis add_leD1 eval_nat_numeral(3) le_refl not_less_eq_eq numeral_le_iff semiring_norm)
  qed
  show ?case
  proof (cases "n < 10")
    case True
    then show ?thesis using small [of n] by (simp add: natDigits.simps)
  next
    case False
    then show ?thesis using 1 small [of "n mod 10"] by (subst natDigits.simps) auto
  qed
qed

lemma natDigits_prefix: "natDigits m @ CHR ''-'' # x = natDigits n @ CHR ''-'' # y \<Longrightarrow> m = n \<and> x = y"
proof -
  assume eq: "natDigits m @ CHR ''-'' # x = natDigits n @ CHR ''-'' # y"
  have tw: "takeWhile (\<lambda>c. c \<noteq> CHR ''-'') (natDigits k @ CHR ''-'' # z) = natDigits k" for k z
    using natDigits_chars [of k] by (subst takeWhile_append2) auto
  have "natDigits m = natDigits n" using arg_cong [OF eq, of "takeWhile (\<lambda>c. c \<noteq> CHR ''-'')"] by (simp add: tw)
  then show ?thesis using eq by simp
qed

lemma natDigits_no_sign: "natDigits n @ x \<noteq> CHR ''-'' # y"
proof
  assume "natDigits n @ x = CHR ''-'' # y"
  moreover have "natDigits n \<noteq> []" by (subst natDigits.simps) simp
  ultimately have "CHR ''-'' \<in> set (natDigits n)" by (cases "natDigits n") auto
  then show False using natDigits_chars by blast
qed

lemma itoa_prefix: "itoa a @ CHR ''-'' # x = itoa b @ CHR ''-'' # y \<Longrightarrow> a = b \<and> x = y"
  unfolding itoa_def
  using natDigits_no_sign natDigits_no_sign [symmetric]
  by (auto dest!: natDigits_prefix split: if_splits)

lemma playoffMatchupID_key:
  assumes "playoffMatchupID b r h x = playoffMatchupID b' r' h' x'"
  shows "b = b' \<and> r = r' \<and> h = h'"
proof -
  have "b = b'" using assms by (auto simp: playoffMatchupID_def bracketName_def split: bracket.splits)
  then have "itoa r @ CHR ''-'' # ''s'' @ itoa h @ ''-s'' @ itoa x = itoa r' @ CHR ''-'' # ''s'' @ itoa h' @ ''-s'' @ itoa x'"
    using assms by (auto simp: playoffMatchupID_def)
  then have "r = r'" "''s'' @ itoa h @ ''-s'' @ itoa x = ''s'' @ itoa h' @ ''-s'' @ itoa x'" using itoa_prefix by blast+
  moreover from this(2) have "h = h'" using itoa_prefix [of h _ h'] by simp
  ultimately show ?thesis using \<open>b = b'\<close> by simp
qed

text \<open>No two matchups of a playoff state share an ID.\<close>

lemma round_home_seeds_distinct:
  assumes "roundOK (xs @ m # ys @ m' # zs)"
  shows "pmHomeSeed m \<noteq> pmHomeSeed m'"
proof -
  have "matchupOK m" "matchupOK m'" using assms by (auto simp: roundOK_def)
  then have "pmHome m \<noteq> []" "pmHome m' \<noteq> []" by (auto simp: matchupOK_def)
  moreover have "entrants (xs @ ys) = entrants xs @ entrants ys" for xs ys by (simp add: entrants_def)
  ultimately show ?thesis using assms by (auto simp: roundOK_def)
qed

lemma playoffInv_round:
  assumes "playoffInv st" "m \<in> set (plMatchups st)"
  shows "roundOK (matchupsForRound (plMatchups st) (pmBracket m) (pmRound m))" "matchupOK m"
proof -
  obtain T R where br: "bracketInv (plMatchups st) (pmBracket m) T R" using assms unfolding playoffInv_def by blast
  then have b: "1 \<le> pmRound m" "pmRound m \<le> int R" using assms(2) by (auto simp: bracketInv_def)
  then have "nat (pmRound m) \<in> {1..R}" "int (nat (pmRound m)) = pmRound m" by auto
  then show ok: "roundOK (matchupsForRound (plMatchups st) (pmBracket m) (pmRound m))"
    using br unfolding bracketInv_def by metis
  have "m \<in> set (matchupsForRound (plMatchups st) (pmBracket m) (pmRound m))" using assms(2) by (simp add: matchupsForRound_def)
  then show "matchupOK m" using ok by (simp add: roundOK_def list_all_iff)
qed

lemma duplicate_key_split:
  "\<not> distinct (map f xs) \<Longrightarrow> \<exists>as x bs y cs. xs = as @ x # bs @ y # cs \<and> f x = f y"
proof (induction xs)
  case (Cons a xs)
  show ?case
  proof (cases "f a \<in> f ` set xs")
    case True
    then obtain y where "y \<in> set xs" "f a = f y" by auto
    moreover from this(1) obtain bs cs where "xs = bs @ y # cs" by (meson split_list)
    ultimately show ?thesis by (metis append_Nil)
  next
    case False
    then obtain as x bs y cs where "xs = as @ x # bs @ y # cs" "f x = f y" using Cons by auto
    then show ?thesis by (metis append_Cons)
  qed
qed simp

lemma playoff_ids_distinct:
  assumes "playoffInv st"
  shows "distinct (map pmID (plMatchups st))"
proof (rule ccontr)
  assume "\<not> ?thesis"
  then obtain xs m ys m' zs where ms: "plMatchups st = xs @ m # ys @ m' # zs" and same: "pmID m = pmID m'"
    using duplicate_key_split by blast
  then have mem: "m \<in> set (plMatchups st)" "m' \<in> set (plMatchups st)" by auto
  then obtain x x' where "pmID m = playoffMatchupID (pmBracket m) (pmRound m) (pmHomeSeed m) x"
      "pmID m' = playoffMatchupID (pmBracket m') (pmRound m') (pmHomeSeed m') x'"
    using assms unfolding playoffInv_def by blast
  then have key: "pmBracket m = pmBracket m'" "pmRound m = pmRound m'" "pmHomeSeed m = pmHomeSeed m'"
    using same playoffMatchupID_key by metis+
  let ?f = "filter (\<lambda>x. pmBracket x = pmBracket m \<and> pmRound x = pmRound m)"
  have "matchupsForRound (plMatchups st) (pmBracket m) (pmRound m) = ?f xs @ m # ?f ys @ m' # ?f zs"
    using key by (simp add: ms matchupsForRound_def)
  then have "roundOK (?f xs @ m # ?f ys @ m' # ?f zs)" using playoffInv_round(1) [OF assms mem(1)] by simp
  then show False using round_home_seeds_distinct key(3) by blast
qed

section \<open>Complete results bring the next round\<close>

lemma lastIndex_distinct:
  assumes "distinct (map pmID ms)" "k < length ms"
  shows "lastIndex ms (pmID (ms ! k)) = Some k"
proof -
  have "indexWhere (\<lambda>m. pmID m = pmID (ms ! k)) (rev ms) \<noteq> None"
    unfolding indexWhere_None using assms(2) by auto
  then obtain k' where k': "lastIndex ms (pmID (ms ! k)) = Some k'" by (auto simp: lastIndex_def)
  have "map pmID ms ! k' = map pmID ms ! k" "k' < length ms" using lastIndex_Some [OF k'] assms(2) by simp_all
  then have "k' = k" using assms nth_eq_iff_index_eq [OF assms(1), of k' k] by simp
  then show ?thesis using k' by simp
qed

lemma complete_results_apply:
  assumes "distinct (map pmID ms)" "list_all matchupOK ms" "\<forall>res\<in>set results. rrMatchupID res \<in> pmID ` set ms"
  shows "\<exists>ms'. applyResults results ms = Inr ms' \<and>
    (\<forall>k<length ms. pmFinal (ms ! k) \<or> pmID (ms ! k) \<in> rrMatchupID ` set results \<longrightarrow> pmFinal (ms' ! k))"
  using assms
proof (induction results arbitrary: ms)
  case (Cons res rest)
  obtain k where k: "k < length ms" "pmID (ms ! k) = rrMatchupID res" using Cons.prems(3) by (auto simp: in_set_conv_nth)
  have li: "lastIndex ms (rrMatchupID res) = Some k" using lastIndex_distinct [OF Cons.prems(1) k(1)] k(2) by simp
  have only: "j = k" if "j < length ms" "pmID (ms ! j) = rrMatchupID res" for j
    using nth_eq_iff_index_eq [OF Cons.prems(1), of j k] k that by simp
  show ?case
  proof (cases "pmFinal (ms ! k)")
    case True
    then show ?thesis using Cons.IH [OF Cons.prems(1,2)] Cons.prems(3) li only by fastforce
  next
    case False
    define ms1 where "ms1 = ms[k := decide res (ms ! k)]"
    have ok: "matchupOK (ms ! k)" using Cons.prems(2) k(1) by (simp add: list_all_length)
    then have sides: "pmHome (ms ! k) \<noteq> []" "pmAway (ms ! k) \<noteq> []" using False by (auto simp: matchupOK_def)
    then have res: "resulted (ms ! k) (decide res (ms ! k))" using False by (auto simp: resulted_def)
    have ids: "map pmID ms1 = map pmID ms" by (simp add: ms1_def map_update list_update_same_conv k(1))
    have "list_all matchupOK ms1"
      using Cons.prems(2) resulted_ok [OF res ok] k(1) by (auto simp: ms1_def list_all_length nth_list_update)
    moreover have "\<forall>r\<in>set rest. rrMatchupID r \<in> pmID ` set ms1"
      using Cons.prems(3) arg_cong [OF ids, of set] by simp
    moreover have "distinct (map pmID ms1)" using ids Cons.prems(1) by simp
    ultimately obtain ms' where ms': "applyResults rest ms1 = Inr ms'"
      and fin: "\<forall>j<length ms1. pmFinal (ms1 ! j) \<or> pmID (ms1 ! j) \<in> rrMatchupID ` set rest \<longrightarrow> pmFinal (ms' ! j)"
      using Cons.IH [of ms1] by blast
    have "pmFinal (ms' ! j)" if "j < length ms" "pmFinal (ms ! j) \<or> pmID (ms ! j) \<in> rrMatchupID ` set (res # rest)" for j
    proof (cases "j = k")
      case True
      have "pmFinal (ms1 ! k)" using k(1) by (simp add: ms1_def decide_def Let_def)
      then show ?thesis using fin True k(1) by (simp add: ms1_def)
    next
      case False
      then have "ms1 ! j = ms ! j" "pmID (ms ! j) \<noteq> rrMatchupID res" using only that(1) by (auto simp: ms1_def)
      then show ?thesis using fin that by (auto simp: ms1_def)
    qed
    then show ?thesis using ms' li False sides by (auto simp: ms1_def)
  qed
qed simp

text \<open>Advancing a bracket only appends matchups, and only the championship touches its rounds and champion.\<close>

lemma pairBracket_bracket: "pairBracketRound1 seeds b week = Inr ms \<Longrightarrow> m \<in> set ms \<Longrightarrow> pmBracket m = b"
proof -
  assume eq: "pairBracketRound1 seeds b week = Inr ms" and m: "m \<in> set ms"
  have "\<exists>k. round1Matchup seeds b week slots k = Inr m" if "collect (round1Matchup seeds b week slots) ks = Inr ms" for slots ks
    using that m by (induction ks arbitrary: ms) (auto split: sum.splits)
  then obtain slots k where "round1Matchup seeds b week slots k = Inr m"
    using eq unfolding pairBracketRound1_def Let_def by blast
  then show ?thesis by (auto simp: round1Matchup_def Let_def split: option.splits)
qed

lemma advanceRounds_frame:
  "\<exists>ns. plMatchups (advanceRounds b r current st) = plMatchups st @ ns \<and> (\<forall>m\<in>set ns. pmBracket m = b)"
  "b \<noteq> Championship \<Longrightarrow> plChampion (advanceRounds b r current st) = plChampion st"
  "plConfig (advanceRounds b r current st) = plConfig st"
proof -
  have next_b: "\<forall>m\<in>set (nextRoundMatchups prev b q week reseed losers). pmBracket m = b" for prev q week reseed losers
    by (auto simp: nextRoundMatchups_def laterMatchup_def Let_def)
  show "\<exists>ns. plMatchups (advanceRounds b r current st) = plMatchups st @ ns \<and> (\<forall>m\<in>set ns. pmBracket m = b)"
    using next_b by (simp add: advanceRounds_def Let_def)
  show "b \<noteq> Championship \<Longrightarrow> plChampion (advanceRounds b r current st) = plChampion st"
    by (auto simp: advanceRounds_def Let_def finalizeBracket_def split: list.splits bracket.splits)
  show "plConfig (advanceRounds b r current st) = plConfig st" by (simp add: advanceRounds_def Let_def)
qed

lemma spawn_frame:
  "\<exists>ns. plMatchups (spawnConsolation b r current st) = plMatchups st @ ns \<and> (\<forall>m\<in>set ns. pmBracket m = Consolation)"
  "plChampion (spawnConsolation b r current st) = plChampion st" "plConfig (spawnConsolation b r current st) = plConfig st"
  by (auto simp: spawnConsolation_def dest: pairBracket_bracket split: sum.splits)

lemma advanceBracket_frame:
  "\<exists>ns. plMatchups (advanceBracket b st) = plMatchups st @ ns \<and> (b \<noteq> Championship \<longrightarrow> (\<forall>m\<in>set ns. pmBracket m \<noteq> Championship))"
  "b \<noteq> Championship \<Longrightarrow> plChampion (advanceBracket b st) = plChampion st"
  "plConfig (advanceBracket b st) = plConfig st"
proof -
  define r where "r = maxRound (plMatchups st) b"
  define current where "current = matchupsForRound (plMatchups st) b r"
  define s1 where "s1 = advanceRounds b r current st"
  have eq: "advanceBracket b st = st \<or> advanceBracket b st = spawnConsolation b r current s1"
    by (simp add: advanceBracket_def Let_def r_def current_def s1_def)
  obtain ns where ns: "plMatchups s1 = plMatchups st @ ns" "\<forall>m\<in>set ns. pmBracket m = b"
    using advanceRounds_frame(1) unfolding s1_def by blast
  obtain ks where ks: "plMatchups (spawnConsolation b r current s1) = plMatchups s1 @ ks" "\<forall>m\<in>set ks. pmBracket m = Consolation"
    using spawn_frame(1) by blast
  have one: "plMatchups (spawnConsolation b r current s1) = plMatchups st @ (ns @ ks)" using ns(1) ks(1) by simp
  have two: "b \<noteq> Championship \<longrightarrow> (\<forall>m\<in>set (ns @ ks). pmBracket m \<noteq> Championship)" using ns(2) ks(2) by auto
  have three: "plMatchups st = plMatchups st @ []" "b \<noteq> Championship \<longrightarrow> (\<forall>m\<in>set []. pmBracket m \<noteq> Championship)" by simp_all
  show "\<exists>ns. plMatchups (advanceBracket b st) = plMatchups st @ ns \<and> (b \<noteq> Championship \<longrightarrow> (\<forall>m\<in>set ns. pmBracket m \<noteq> Championship))"
    using eq one two three by metis
  show "b \<noteq> Championship \<Longrightarrow> plChampion (advanceBracket b st) = plChampion st"
    using eq spawn_frame(2) [of b r current s1] advanceRounds_frame(2) [of b r current st] by (auto simp: s1_def)
  show "plConfig (advanceBracket b st) = plConfig st"
    using eq spawn_frame(3) [of b r current s1] advanceRounds_frame(3) [of b r current st] by (auto simp: s1_def)
qed

lemma playoffInv_champ:
  assumes "playoffInv st"
  obtains R where "bracketInv (plMatchups st) Championship (champRounds st) R"
    "maxRound (plMatchups st) Championship = int R"
  using assms maxRound_inv unfolding playoffInv_def by blast

lemma bracketInv_round_matchup:
  assumes "bracketInv ms b T R"
  obtains m where "m \<in> set ms" "pmBracket m = b" "pmRound m = int R"
proof -
  have "length (bround ms b R) = 2 ^ (T - R)" using assms by (auto simp: bracketInv_def)
  then have "bround ms b R \<noteq> []" by auto
  then show ?thesis using that by (auto simp: matchupsForRound_def filter_empty_conv)
qed

lemma bracketInv_round_bound:
  "bracketInv ms b T R \<Longrightarrow> m \<in> set ms \<Longrightarrow> pmBracket m = b \<Longrightarrow> pmRound m \<le> int R"
  by (simp add: bracketInv_def)

text \<open>A championship whose current round is final goes on or is decided.\<close>

lemma champion_step:
  assumes "playoffInv st" "allFinal (matchupsForRound (plMatchups st) Championship (maxRound (plMatchups st) Championship))"
  shows "plChampion (advanceBracket Championship st) \<noteq> [] \<or>
    maxRound (plMatchups st) Championship < maxRound (plMatchups (advanceBracket Championship st)) Championship"
proof -
  let ?ms = "plMatchups st" and ?T = "champRounds st"
  obtain R where br: "bracketInv ?ms Championship ?T R" and mx: "maxRound ?ms Championship = int R"
    by (rule playoffInv_champ [OF assms(1)])
  have RT: "1 \<le> R" "R \<le> ?T" using br by (simp_all add: bracketInv_def)
  let ?cur = "bround ?ms Championship R"
  have fin: "list_all pmFinal ?cur" using assms(2) mx by (simp add: allFinal_def)
  have eq: "advanceBracket Championship st = spawnConsolation Championship (int R) ?cur (advanceRounds Championship (int R) ?cur st)"
    using assms(2) RT unfolding advanceBracket_def Let_def mx by simp
  have two: "2 \<le> pcTeamCount (plConfig st)" using assms(1) by (simp add: playoffInv_def)
  have total: "bracketTotalRounds (plConfig st) ?ms Championship = int ?T"
    using total_rounds_inv [OF br, of "plConfig st"] two by (simp add: champRounds_def)
  show ?thesis
  proof (cases "R = ?T")
    case True
    have "length ?cur = 2 ^ (?T - R)" "roundOK ?cur" using br RT by (auto simp: bracketInv_def)
    then obtain m where m: "?cur = [m]" "roundOK [m]" using True by (auto simp: length_Suc_conv)
    then have "pmWinner m \<noteq> []" using fin by (auto simp: roundOK_def matchupOK_def)
    moreover have "plChampion (advanceBracket Championship st) = pmWinner m"
      unfolding eq spawn_frame(2) using True total m(1) by (simp add: advanceRounds_def Let_def finalizeBracket_def)
    ultimately show ?thesis by simp
  next
    case False
    then have lt: "R < ?T" using RT by simp
    have none: "matchupsForRound ?ms Championship (int R + 1) = []"
      using br by (auto simp: bracketInv_def matchupsForRound_def filter_empty_conv)
    obtain ks where ks: "plMatchups (advanceBracket Championship st) = plMatchups (advanceRounds Championship (int R) ?cur st) @ ks"
      unfolding eq using spawn_frame(1) by blast
    let ?ns = "nextRoundMatchups ?cur Championship (int R + 1) (roundWeek (plConfig st) (int R + 1)) (pcReseed (plConfig st)) False"
    have "plMatchups (advanceRounds Championship (int R) ?cur st) = ?ms @ ?ns"
      using total lt none by (simp add: advanceRounds_def Let_def)
    moreover have "bracketInv (?ms @ ?ns) Championship ?T (Suc R)"
      using bracketInv_next(1) [OF br lt fin, of "roundWeek (plConfig st) (int R + 1)" "pcReseed (plConfig st)"] by simp
    then obtain m where m: "m \<in> set (?ms @ ?ns)" "pmBracket m = Championship" "pmRound m = int (Suc R)"
      by (rule bracketInv_round_matchup)
    ultimately have mem: "m \<in> set (plMatchups (advanceBracket Championship st))" using ks by auto
    have "playoffInv (advanceBracket Championship st)" by (rule advanceBracket_inv [OF assms(1)])
    then obtain R' where br': "bracketInv (plMatchups (advanceBracket Championship st)) Championship
        (champRounds (advanceBracket Championship st)) R'"
      "maxRound (plMatchups (advanceBracket Championship st)) Championship = int R'" by (rule playoffInv_champ)
    show ?thesis using bracketInv_round_bound [OF br'(1) mem m(2)] br'(2) m(3) mx by linarith
  qed
qed

text \<open>The other brackets leave the championship alone, whatever the order they advance in.\<close>

definition champSame :: "playoff_state \<Rightarrow> playoff_state \<Rightarrow> bool" where
  "champSame st st' \<longleftrightarrow> (\<exists>ns. plMatchups st' = plMatchups st @ ns \<and> (\<forall>m\<in>set ns. pmBracket m \<noteq> Championship)) \<and>
     plChampion st' = plChampion st \<and> playoffInv st'"

lemma champSame_refl: "playoffInv st \<Longrightarrow> champSame st st"
  by (simp add: champSame_def)

lemma champSame_step: "champSame st st' \<Longrightarrow> b \<noteq> Championship \<Longrightarrow> champSame st (advanceBracket b st')"
proof -
  assume same: "champSame st st'" and b: "b \<noteq> Championship"
  obtain ns where ns: "plMatchups st' = plMatchups st @ ns" "\<forall>m\<in>set ns. pmBracket m \<noteq> Championship"
    and rest: "plChampion st' = plChampion st" "playoffInv st'" using same unfolding champSame_def by blast
  obtain ks where ks: "plMatchups (advanceBracket b st') = plMatchups st' @ ks" "\<forall>m\<in>set ks. pmBracket m \<noteq> Championship"
    using advanceBracket_frame(1) b by blast
  have "plMatchups (advanceBracket b st') = plMatchups st @ (ns @ ks)" "\<forall>m\<in>set (ns @ ks). pmBracket m \<noteq> Championship"
    using ns ks by auto
  then show ?thesis unfolding champSame_def
    using advanceBracket_frame(2) [OF b, of st'] advanceBracket_inv [OF rest(2)] rest(1) by metis
qed

lemma champSame_fold:
  assumes "playoffInv st" "Championship \<notin> set bs"
  shows "champSame st (fold advanceBracket bs st)"
proof (rule fold_invariant_simple [where P = "champSame st"])
  show "champSame st (advanceBracket b s)" if "b \<in> set bs" "champSame st s" for b s
  proof (rule champSame_step [OF that(2)])
    show "b \<noteq> Championship" using that(1) assms(2) by metis
  qed
qed (rule champSame_refl [OF assms(1)])

lemma champSame_round:
  assumes "champSame st st'"
  shows "matchupsForRound (plMatchups st') Championship r = matchupsForRound (plMatchups st) Championship r"
  using assms by (auto simp: champSame_def bround_append bround_other)

lemma champSame_max:
  assumes "playoffInv st" "champSame st st'"
  shows "maxRound (plMatchups st') Championship = maxRound (plMatchups st) Championship"
proof -
  obtain ns where ns: "plMatchups st' = plMatchups st @ ns" "\<forall>m\<in>set ns. pmBracket m \<noteq> Championship"
    using assms(2) unfolding champSame_def by blast
  have "fold (\<lambda>m r. if pmBracket m = Championship \<and> pmRound m > r then pmRound m else r) ns r = r" for r
    using ns(2) by (induction ns) auto
  then show ?thesis by (simp add: maxRound_def ns(1))
qed

lemma presentBrackets_facts: "distinct (presentBrackets ms)" "set (presentBrackets ms) = pmBracket ` set ms"
proof -
  have "distinct (foldl (\<lambda>out b. if b \<in> set out then out else out @ [b]) out bs) \<and>
      set (foldl (\<lambda>out b. if b \<in> set out then out else out @ [b]) out bs) = set out \<union> set bs"
    if "distinct out" for out and bs :: "bracket list"
    using that by (induction bs arbitrary: out) (auto simp: insert_absorb)
  from this [of "[]" "map pmBracket ms"]
  show "distinct (presentBrackets ms)" "set (presentBrackets ms) = pmBracket ` set ms"
    by (simp_all add: presentBrackets_def)
qed

lemma distinct_split: "distinct xs \<Longrightarrow> x \<in> set xs \<Longrightarrow> \<exists>pre post. xs = pre @ x # post \<and> x \<notin> set pre \<and> x \<notin> set post"
  by (metis distinct_append disjoint_insert(2) distinct.simps(2) list.simps(15) split_list)

definition completeResults :: "round_result list \<Rightarrow> playoff_state \<Rightarrow> bool" where
  "completeResults results st \<longleftrightarrow> (\<forall>res\<in>set results. rrMatchupID res \<in> pmID ` set (plMatchups st)) \<and>
     (\<forall>m\<in>set (plMatchups st). \<not> pmFinal m \<longrightarrow> pmID m \<in> rrMatchupID ` set results)"

lemma complete_results_progress:
  assumes "playoffInv st" "completeResults results st"
  shows "\<exists>st'. advancePlayoffRound st results = Inr st' \<and>
    (plChampion st' \<noteq> [] \<or> maxRound (plMatchups st) Championship < maxRound (plMatchups st') Championship)"
proof -
  have ok: "list_all matchupOK (plMatchups st)" using playoffInv_round(2) [OF assms(1)] by (simp add: list_all_iff)
  obtain ms where ms: "applyResults results (plMatchups st) = Inr ms"
    and fin: "\<forall>k<length (plMatchups st). pmFinal (plMatchups st ! k) \<or>
      pmID (plMatchups st ! k) \<in> rrMatchupID ` set results \<longrightarrow> pmFinal (ms ! k)"
    using complete_results_apply [OF playoff_ids_distinct [OF assms(1)] ok] assms(2) unfolding completeResults_def by blast
  define s0 where "s0 = st\<lparr>plMatchups := ms\<rparr>"
  note r = applyResults_resulted [OF ms]
  have inv0: "playoffInv s0" unfolding s0_def by (rule results_inv [OF assms(1) r])
  have all: "list_all pmFinal ms"
    using fin assms(2) list_all2_lengthD [OF r] unfolding completeResults_def list_all_length by (metis nth_mem)
  obtain R where br: "bracketInv ms Championship (champRounds s0) R" and mx0: "maxRound ms Championship = int R"
    using playoffInv_champ [OF inv0] by (auto simp: s0_def)
  obtain R1 where br1: "bracketInv (plMatchups st) Championship (champRounds st) R1"
      "maxRound (plMatchups st) Championship = int R1" by (rule playoffInv_champ [OF assms(1)])
  have mx: "maxRound ms Championship = maxRound (plMatchups st) Championship"
    using maxRound_inv [OF bracketInv_resulted [OF br1(1) r]] br1(2) by simp
  obtain m where m: "m \<in> set ms" "pmBracket m = Championship" "pmRound m = int R" by (rule bracketInv_round_matchup [OF br])
  have cur: "allFinal (matchupsForRound ms Championship (maxRound ms Championship))"
    using all m unfolding mx0 by (auto simp: allFinal_def matchupsForRound_def list_all_iff filter_empty_conv)
  have "Championship \<in> set (presentBrackets ms)" using m by (force simp: presentBrackets_facts)
  then obtain pre post where bs: "presentBrackets ms = pre @ Championship # post"
    and notin: "Championship \<notin> set pre" "Championship \<notin> set post"
    using distinct_split [OF presentBrackets_facts(1)] by blast
  define s1 where "s1 = fold advanceBracket pre s0"
  define s2 where "s2 = advanceBracket Championship s1"
  define s3 where "s3 = fold advanceBracket post s2"
  have same1: "champSame s0 s1" unfolding s1_def by (rule champSame_fold [OF inv0 notin(1)])
  then have inv1: "playoffInv s1" by (simp add: champSame_def)
  have inv2: "playoffInv s2" unfolding s2_def by (rule advanceBracket_inv [OF inv1])
  have same3: "champSame s2 s3" unfolding s3_def by (rule champSame_fold [OF inv2 notin(2)])
  have max1: "maxRound (plMatchups s1) Championship = maxRound ms Championship"
    using champSame_max [OF inv0 same1] by (simp add: s0_def)
  then have "allFinal (matchupsForRound (plMatchups s1) Championship (maxRound (plMatchups s1) Championship))"
    using cur champSame_round [OF same1] by (simp add: s0_def)
  then have "plChampion s2 \<noteq> [] \<or> maxRound (plMatchups s1) Championship < maxRound (plMatchups s2) Championship"
    unfolding s2_def by (rule champion_step [OF inv1])
  then have "plChampion s3 \<noteq> [] \<or> maxRound (plMatchups st) Championship < maxRound (plMatchups s3) Championship"
    using champSame_max [OF inv2 same3] same3 max1 mx by (simp add: champSame_def)
  moreover have "advancePlayoffRound st results = Inr s3"
    by (simp add: advancePlayoffRound_def ms bs s0_def s1_def s2_def s3_def)
  ultimately show ?thesis by blast
qed

lemma advance_config: "advancePlayoffRound st results = Inr st' \<Longrightarrow> plConfig st' = plConfig st"
proof -
  assume eq: "advancePlayoffRound st results = Inr st'"
  have "plConfig (fold advanceBracket bs s) = plConfig s" for bs s
    by (induction bs arbitrary: s) (simp_all add: advanceBracket_frame(3))
  then show ?thesis using eq by (auto simp: advancePlayoffRound_def split: sum.splits)
qed

text \<open>Rounds played with the results a source delivers for each state.\<close>

fun playRounds :: "(playoff_state \<Rightarrow> round_result list) \<Rightarrow> nat \<Rightarrow> playoff_state \<Rightarrow> playoff_error + playoff_state" where
  "playRounds src 0 st = Inr st"
| "playRounds src (Suc n) st = (if plChampion st \<noteq> [] then Inr st
     else case advancePlayoffRound st (src st) of Inl e \<Rightarrow> Inl e | Inr st' \<Rightarrow> playRounds src n st')"

lemma playRounds_crowns:
  assumes "\<And>st. playoffReach st0 st \<Longrightarrow> completeResults (src st) st" "playoffInv st0"
    and "playoffReach st0 st" "champRounds st0 = champRounds st"
    and "int n + maxRound (plMatchups st) Championship > int (champRounds st0)"
  shows "\<exists>st'. playRounds src n st = Inr st' \<and> plChampion st' \<noteq> []"
  using assms(3-5)
proof (induction n arbitrary: st)
  case 0
  have "playoffInv st" by (rule playoffReach_inv [OF 0(1) assms(2)])
  then obtain R where R: "bracketInv (plMatchups st) Championship (champRounds st) R"
    "maxRound (plMatchups st) Championship = int R" by (rule playoffInv_champ)
  then have "R \<le> champRounds st" by (simp add: bracketInv_def)
  then show ?case using 0 R(2) by simp
next
  case (Suc n)
  show ?case
  proof (cases "plChampion st = []")
    case True
    have inv: "playoffInv st" by (rule playoffReach_inv [OF Suc.prems(1) assms(2)])
    obtain st' where st': "advancePlayoffRound st (src st) = Inr st'"
      and prog: "plChampion st' \<noteq> [] \<or> maxRound (plMatchups st) Championship < maxRound (plMatchups st') Championship"
      using complete_results_progress [OF inv assms(1) [OF Suc.prems(1)]] by blast
    have reach: "playoffReach st0 st'" by (rule playoffRound [OF Suc.prems(1) st'])
    have cfg: "champRounds st0 = champRounds st'"
      using Suc.prems(2) advance_config [OF st'] by (simp add: champRounds_def)
    show ?thesis
    proof (cases "plChampion st' = []")
      case True
      then have "int n + maxRound (plMatchups st') Championship > int (champRounds st0)" using prog Suc.prems(3) by simp
      then show ?thesis using Suc.IH [OF reach cfg] st' \<open>plChampion st = []\<close> by simp
    next
      case False
      then have "playRounds src n st' = Inr st'" by (cases n) simp_all
      then show ?thesis using False st' True by simp
    qed
  qed simp
qed

text \<open>
  C26: The playoffs end with a champion. From the generated brackets, when every call brings a result
  for every open matchup and for no unknown one, advancing never fails, and after at most as many
  calls as the championship has rounds a champion is recorded.
\<close>

theorem complete_results_crown_champion:
  assumes "generatePlayoffState standings divisions cfg = Inr st0" "distinct (map stTeamID standings)"
    "[] \<notin> stTeamID ` set standings" "\<And>st. playoffReach st0 st \<Longrightarrow> completeResults (src st) st"
  shows "\<exists>st. playRounds src (champRounds st0) st0 = Inr st \<and> plChampion st \<noteq> []"
proof -
  have inv: "playoffInv st0" using generate_inv [OF assms(1-3)] by blast
  then obtain R where "bracketInv (plMatchups st0) Championship (champRounds st0) R"
    "maxRound (plMatchups st0) Championship = int R" by (rule playoffInv_champ)
  then have "int (champRounds st0) + maxRound (plMatchups st0) Championship > int (champRounds st0)"
    by (simp add: bracketInv_def)
  then show ?thesis by (intro playRounds_crowns [OF assms(4) inv playoffStart refl])
qed

section \<open>Concrete playoffs\<close>

text \<open>Results in which every home side of an open matchup wins.\<close>

definition homeWins :: "playoff_state \<Rightarrow> round_result list" where
  "homeWins st = map (\<lambda>m. \<lparr>rrMatchupID = pmID m, rrHomeScore = 100, rrAwayScore = 90, rrHomeBest = 100, rrAwayBest = 90,
       rrFinal = True, rrAuthoritative = True, rrSourceState = ''final'', rrSource = ''feed'', rrObservedAt = 1\<rparr>)
     (filter (\<lambda>m. \<not> pmFinal m) (plMatchups st))"

lemma homeWins_complete: "completeResults (homeWins st) st"
  by (auto simp: completeResults_def homeWins_def image_image)

lemma sample_generated: "\<exists>st. generatePlayoffState sampleTable sampleDivisions samplePlayoffConfig = Inr st"
proof -
  have "\<not> isl (generatePlayoffState sampleTable sampleDivisions samplePlayoffConfig)" by code_simp
  then show ?thesis by (metis isl_def sum.exhaust)
qed

lemma playRounds_reach: "playRounds src n st = Inr st' \<Longrightarrow> playoffReach st0 st \<Longrightarrow> playoffReach st0 st'"
proof (induction n arbitrary: st)
  case (Suc n)
  then show ?case by (auto intro: playoffRound split: if_splits sum.splits)
qed simp

lemma champion_won_every_round_witness:
  "\<exists>st0 st. generatePlayoffState sampleTable sampleDivisions samplePlayoffConfig = Inr st0 \<and> playoffReach st0 st \<and>
     plChampion st \<noteq> [] \<and> plRunnerUp st \<noteq> plChampion st"
proof -
  obtain st0 where st0: "generatePlayoffState sampleTable sampleDivisions samplePlayoffConfig = Inr st0"
    using sample_generated by blast
  have inv: "playoffInv st0" using generate_inv [OF st0 sampleTable_ids] by blast
  then obtain R where "bracketInv (plMatchups st0) Championship (champRounds st0) R"
    "maxRound (plMatchups st0) Championship = int R" by (rule playoffInv_champ)
  then have more: "int (champRounds st0) + maxRound (plMatchups st0) Championship > int (champRounds st0)"
    by (simp add: bracketInv_def)
  obtain st where st: "playRounds homeWins (champRounds st0) st0 = Inr st" "plChampion st \<noteq> []"
    using playRounds_crowns [OF homeWins_complete inv playoffStart refl more] by blast
  have reach: "playoffReach st0 st" by (rule playRounds_reach [OF st(1) playoffStart])
  show ?thesis using champion_won_every_round [OF st0 sampleTable_ids reach st(2)] st0 reach st(2) by blast
qed

lemma complete_results_crown_champion_witness:
  "\<exists>st0 st. generatePlayoffState sampleTable sampleDivisions samplePlayoffConfig = Inr st0 \<and>
     playRounds homeWins (champRounds st0) st0 = Inr st \<and> plChampion st \<noteq> []"
proof -
  obtain st0 where st0: "generatePlayoffState sampleTable sampleDivisions samplePlayoffConfig = Inr st0"
    using sample_generated by blast
  show ?thesis using complete_results_crown_champion [OF st0 sampleTable_ids homeWins_complete] st0 by blast
qed

section \<open>Two behaviours the brackets do not exclude\<close>

text \<open>
  The toilet field is the bottom of the standings, not the teams left out of the field: a division
  winner ranked below the cut plays both brackets, and the team it displaced plays neither.
\<close>

lemma division_winner_in_both_brackets:
  "case generatePlayoffState sampleTable sampleDivisions samplePlayoffConfig of Inl _ \<Rightarrow> False
   | Inr st \<Rightarrow> ''d'' \<in> set (map psTeamID (plSeeds st)) \<and>
       list_ex (\<lambda>m. pmBracket m = Toilet \<and> (pmHome m = ''d'' \<or> pmAway m = ''d'')) (plMatchups st) \<and>
       ''e'' \<notin> set (map psTeamID (plSeeds st)) \<and>
       \<not> list_ex (\<lambda>m. pmHome m = ''e'' \<or> pmAway m = ''e'') (plMatchups st)"
  by code_simp

text \<open>
  The configuration check looks at the rounds of the championship only: with ten teams and a field of
  two the final fits the last week of the season, and the toilet bracket needs three rounds.
\<close>

lemma toilet_bracket_outlasts_season:
  "let cfg = samplePlayoffConfig\<lparr>pcTeamCount := 2, pcStartWeek := 17, pcDivisionWinnersFirst := False\<rparr>;
       table = map (\<lambda>i. sampleStanding (itoa i) i) [1..10]
   in validatePlayoffConfig cfg 10 0 1 17 = None \<and>
      (case generatePlayoffState table [] cfg of Inl _ \<Rightarrow> False
       | Inr st \<Rightarrow> roundWeek cfg (bracketTotalRounds cfg (plMatchups st) Toilet) = 19)"
  by code_simp

end
