(* ===== verification/PostseasonProps.thy ===== *)
theory PostseasonProps
  imports Postseason PlayoffProps
begin

text \<open>
  The postseason as a state machine: what previews, publications, advancements and corrections, in any
  order and with any outcome of the write, keep of the bracket, its history and its champion.
\<close>

section \<open>A validated set of results advances\<close>

lemma checkResults_each:
  "checkResults ms seen results = None \<Longrightarrow> res \<in> set results \<Longrightarrow> checkResult ms res = None"
  by (induction results arbitrary: seen) (auto split: if_splits option.splits)

lemma checkResult_known: "checkResult ms res = None \<Longrightarrow> rrMatchupID res \<in> pmID ` set ms"
proof -
  assume "checkResult ms res = None"
  then obtain k where "lastIndex ms (rrMatchupID res) = Some k"
    by (auto simp: checkResult_def lookupMatchup_def Let_def split: option.splits)
  then have "k < length ms" "pmID (ms ! k) = rrMatchupID res" using lastIndex_Some by blast+
  then show ?thesis by (metis image_eqI nth_mem)
qed

lemma open_matchup_active:
  assumes "playoffInv st" "m \<in> set (plMatchups st)" "\<not> pmFinal m"
  shows "pmID m \<in> set (activeIDs (plMatchups st))"
proof -
  obtain T R where br: "bracketInv (plMatchups st) (pmBracket m) T R" using assms(1,2) unfolding playoffInv_def by blast
  have b: "1 \<le> pmRound m" "pmRound m \<le> int R" using br assms(2) by (auto simp: bracketInv_def)
  have "pmRound m = int R"
  proof (rule ccontr)
    assume "pmRound m \<noteq> int R"
    then have "nat (pmRound m) \<in> {1..<R}" "int (nat (pmRound m)) = pmRound m" using b by auto
    then have "list_all pmFinal (matchupsForRound (plMatchups st) (pmBracket m) (pmRound m))"
      using br unfolding bracketInv_def by metis
    then show False using assms(2,3) by (auto simp: matchupsForRound_def list_all_iff)
  qed
  then show ?thesis using maxRound_inv [OF br] assms(2,3) by (force simp: activeIDs_def)
qed

lemma validated_results_complete:
  assumes "playoffInv st" "validateAuthoritativePlayoffRound st results = None"
  shows "completeResults results st"
proof -
  have checks: "checkResults (plMatchups st) [] results = None"
    and covered: "filter (\<lambda>i. i \<notin> rrMatchupID ` set results) (activeIDs (plMatchups st)) = []"
    using assms(2) by (auto simp: validateAuthoritativePlayoffRound_def split: if_splits option.splits list.splits)
  have "rrMatchupID res \<in> pmID ` set (plMatchups st)" if "res \<in> set results" for res
    by (rule checkResult_known [OF checkResults_each [OF checks that]])
  moreover have "pmID m \<in> rrMatchupID ` set results" if "m \<in> set (plMatchups st)" "\<not> pmFinal m" for m
    using open_matchup_active [OF assms(1) that] covered by (auto simp: filter_empty_conv)
  ultimately show ?thesis by (simp add: completeResults_def)
qed

text \<open>
  C30: A set of results that passes the authoritative check advances: the check accepts only sets that
  answer every open matchup of the bracket, the engine then never fails, keeps the bracket sound, and a
  championship without a champion moves to its next round or gets its champion.
\<close>

theorem validated_results_advance:
  assumes "playoffInv st" "validateAuthoritativePlayoffRound st results = None"
  shows "\<exists>st'. advanceAuthoritativePlayoffRound st results = Inr st' \<and> playoffInv st' \<and>
    (plChampion st' \<noteq> [] \<or> maxRound (plMatchups st) Championship < maxRound (plMatchups st') Championship)"
proof -
  obtain st' where st': "advancePlayoffRound st results = Inr st'"
    "plChampion st' \<noteq> [] \<or> maxRound (plMatchups st) Championship < maxRound (plMatchups st') Championship"
    using complete_results_progress [OF assms(1) validated_results_complete [OF assms]] by blast
  moreover have "advanceAuthoritativePlayoffRound st results = Inr st'"
    by (simp add: advanceAuthoritativePlayoffRound_def assms(2) st'(1))
  ultimately show ?thesis using advance_inv [OF assms(1) st'(1)] by blast
qed

section \<open>A preview is a sound bracket\<close>

lemma playoffInv_cong:
  assumes "playoffInv p" "plConfig q = plConfig p" "plMatchups q = plMatchups p" "plChampion q = plChampion p"
    "plRunnerUp q = plRunnerUp p"
  shows "playoffInv q"
  using assms by (simp add: playoffInv_def champRounds_def)

lemma checkStandingIDs_None:
  "checkStandingIDs seen sts = None \<Longrightarrow>
     distinct (map stTeamID sts) \<and> stTeamID ` set sts \<inter> set seen = {} \<and> [] \<notin> stTeamID ` set sts"
proof (induction sts arbitrary: seen)
  case (Cons st sts)
  then have "trimSpace (stTeamID st) \<noteq> []" "stTeamID st \<notin> set seen" "checkStandingIDs (stTeamID st # seen) sts = None"
    by (auto split: if_splits)
  moreover from this(1) have "stTeamID st \<noteq> []" by (auto simp: trimSpace_def)
  ultimately show ?case using Cons.IH [of "stTeamID st # seen"] by auto
qed simp

lemma preview_sound:
  assumes "buildPlayoffPreview digest previewDigest sts divisions cfg prov = Inr p"
  shows "playoffInv p \<and> plStatus p = StatusPreview \<and> plChampion p = [] \<and> plRevision p = 1 \<and> plAudit p = [] \<and>
    plPreviewID p \<noteq> [] \<and> validatePlayoffProvenance (plProvenance p) = None"
proof -
  obtain st where prov: "validatePlayoffProvenance prov = None"
    and ids: "checkStandingIDs [] sts = None"
    and gen: "generatePlayoffState sts divisions (previewConfig cfg prov) = Inr st"
    and p: "p = st\<lparr>plStatus := StatusPreview, plPreviewID := ''preview-'' @ previewDigest (provSnapshotID prov) (previewConfig cfg prov),
       plRevision := 1, plProvenance := prov, plPreviewedAt := provCapturedAt prov\<rparr>"
    using assms by (auto simp: buildPlayoffPreview_def playoffStandingsSnapshotID_def Let_def
        split: if_splits option.splits sum.splits)
  have inv: "playoffInv st \<and> plConfig st = previewConfig cfg prov \<and> plChampion st = []"
    using generate_inv [OF gen] checkStandingIDs_None [OF ids] by blast
  have audit: "plAudit st = []"
    using gen by (auto simp: generatePlayoffState_def newPlayoffState_def Let_def split: if_splits sum.splits)
  show ?thesis using inv audit prov playoffInv_cong [of st p] by (simp add: p)
qed

section \<open>A correction keeps the bracket\<close>

text \<open>What a correction may do to a matchup of the last round R of bracket b.\<close>

definition amended :: "bracket \<Rightarrow> nat \<Rightarrow> playoff_matchup \<Rightarrow> playoff_matchup \<Rightarrow> bool" where
  "amended b R m m' \<longleftrightarrow> m' = m \<or> (pmBracket m = b \<and> pmRound m = int R \<and> pmBracket m' = b \<and> pmRound m' = int R \<and>
     pmID m' = pmID m \<and> sidesOf m' = sidesOf m \<and> pmFinal m' = pmFinal m \<and> matchupOK m')"

lemma amended_round:
  "list_all2 (amended b R) ms ms' \<Longrightarrow> list_all2 (amended b R) (matchupsForRound ms b' r) (matchupsForRound ms' b' r)"
  unfolding matchupsForRound_def by (induction rule: list_all2_induct) (auto simp: amended_def)

lemma amended_other:
  "list_all2 (amended b R) ms ms' \<Longrightarrow> b' \<noteq> b \<or> r \<noteq> int R \<Longrightarrow> matchupsForRound ms' b' r = matchupsForRound ms b' r"
  unfolding matchupsForRound_def by (induction rule: list_all2_induct) (auto simp: amended_def)

lemma amended_roundOK:
  assumes "list_all2 (amended b R) ms ms'" "roundOK ms"
  shows "roundOK ms'"
proof -
  have "map sidesOf ms' = map sidesOf ms" using assms(1) by (induction rule: list_all2_induct) (auto simp: amended_def)
  then have "entrants ms' = entrants ms" by (simp add: entrants_def)
  moreover have "list_all matchupOK ms'"
    using assms unfolding roundOK_def by (induction rule: list_all2_induct) (auto simp: amended_def roundOK_def)
  ultimately show ?thesis using assms(2) by (simp add: roundOK_def)
qed

lemma amended_entrants: "list_all2 (amended b R) ms ms' \<Longrightarrow> entrants ms' = entrants ms"
proof -
  assume "list_all2 (amended b R) ms ms'"
  then have "map sidesOf ms' = map sidesOf ms" by (induction rule: list_all2_induct) (auto simp: amended_def)
  then show ?thesis by (simp add: entrants_def)
qed

lemma bracketInv_amended:
  assumes "bracketInv ms b' T R'" "list_all2 (amended b R) ms ms'" "b' = b \<Longrightarrow> R' \<le> R"
  shows "bracketInv ms' b' T R'"
proof -
  have bounds: "1 \<le> pmRound m' \<and> pmRound m' \<le> int R'" if m: "m' \<in> set ms'" "pmBracket m' = b'" for m'
  proof -
    obtain k where k: "k < length ms'" "ms' ! k = m'" using m(1) by (metis in_set_conv_nth)
    then have "amended b R (ms ! k) m'" "ms ! k \<in> set ms" using assms(2) by (auto simp: list_all2_conv_all_nth)
    then have "ms ! k \<in> set ms" "pmBracket (ms ! k) = b'" "pmRound (ms ! k) = pmRound m'" using m(2) by (auto simp: amended_def)
    then show ?thesis using assms(1) unfolding bracketInv_def by metis
  qed
  have rounds: "length (bround ms' b' r) = 2 ^ (T - r) \<and> roundOK (bround ms' b' r)" if "r \<in> {1..R'}" for r
    using assms(1) that list_all2_lengthD [OF amended_round [OF assms(2), of b' "int r"]]
      amended_roundOK [OF amended_round [OF assms(2), of b' "int r"]]
    unfolding bracketInv_def by metis
  have same: "bround ms' b' r = bround ms b' r" if "r \<in> {1..<R'}" for r
  proof (rule amended_other [OF assms(2)])
    show "b' \<noteq> b \<or> int r \<noteq> int R" using assms(3) that by auto
  qed
  have links: "list_all pmFinal (bround ms' b' r) \<and>
      mset (entrants (bround ms' b' (Suc r))) = mset (map (advancer (b' = Toilet)) (bround ms' b' r))" if "r \<in> {1..<R'}" for r
    using assms(1) that same [OF that] amended_entrants [OF amended_round [OF assms(2), of b' "int (Suc r)"]]
    unfolding bracketInv_def by metis
  show ?thesis using assms(1) bounds rounds links by (auto simp: bracketInv_def)
qed

lemma correctionGuard_facts:
  assumes "correctionGuard p co = Inr k"
  shows "k < length (plMatchups p)" "pmID (plMatchups p ! k) = coMatchupID co" "pmFinal (plMatchups p ! k)" "coWinner co \<noteq> []"
    "coWinner co = pmHome (plMatchups p ! k) \<or> coWinner co = pmAway (plMatchups p ! k)"
    "pmRound (plMatchups p ! k) \<ge> bracketTotalRounds (plConfig p) (plMatchups p) (pmBracket (plMatchups p ! k))"
    "plStatus p = StatusPublished"
proof -
  have k: "indexWhere (\<lambda>m. pmID m = coMatchupID co) (plMatchups p) = Some k" and "trimSpace (coWinner co) \<noteq> []"
    and "pmFinal (plMatchups p ! k)" "coWinner co = pmHome (plMatchups p ! k) \<or> coWinner co = pmAway (plMatchups p ! k)"
    "pmRound (plMatchups p ! k) \<ge> bracketTotalRounds (plConfig p) (plMatchups p) (pmBracket (plMatchups p ! k))"
    "plStatus p = StatusPublished"
    using assms by (auto simp: correctionGuard_def Let_def split: if_splits option.splits)
  moreover from this(2) have "coWinner co \<noteq> []" by (auto simp: trimSpace_def)
  moreover have "k < length (plMatchups p)" "pmID (plMatchups p ! k) = coMatchupID co" using indexWhere_Some [OF k] by simp_all
  ultimately show "k < length (plMatchups p)" "pmID (plMatchups p ! k) = coMatchupID co" "pmFinal (plMatchups p ! k)" "coWinner co \<noteq> []"
    "coWinner co = pmHome (plMatchups p ! k) \<or> coWinner co = pmAway (plMatchups p ! k)"
    "pmRound (plMatchups p ! k) \<ge> bracketTotalRounds (plConfig p) (plMatchups p) (pmBracket (plMatchups p ! k))"
    "plStatus p = StatusPublished" by blast+
qed

lemma correctedMatchup_frame [simp]:
  "pmID (correctedMatchup clock co m) = pmID m" "pmBracket (correctedMatchup clock co m) = pmBracket m"
  "pmRound (correctedMatchup clock co m) = pmRound m" "pmFinal (correctedMatchup clock co m) = pmFinal m"
  "sidesOf (correctedMatchup clock co m) = sidesOf m" "pmWinner (correctedMatchup clock co m) = coWinner co"
  "pmHomeSeed (correctedMatchup clock co m) = pmHomeSeed m" "pmHome (correctedMatchup clock co m) = pmHome m"
  "pmAway (correctedMatchup clock co m) = pmAway m"
  by (simp_all add: correctedMatchup_def Let_def sidesOf_def)

lemma amended_update:
  assumes "k < length ms" "amended b R (ms ! k) m'"
  shows "list_all2 (amended b R) ms (ms[k := m'])"
  using assms by (auto simp: list_all2_conv_all_nth nth_list_update amended_def)

text \<open>The matchup a correction may touch is the deciding one of its bracket.\<close>

lemma terminal_matchup:
  assumes "playoffInv p" "m \<in> set (plMatchups p)"
    "pmRound m \<ge> bracketTotalRounds (plConfig p) (plMatchups p) (pmBracket m)"
  obtains T where "bracketInv (plMatchups p) (pmBracket m) T T" "pmRound m = int T"
    "bround (plMatchups p) (pmBracket m) T = [m]" "pmBracket m = Championship \<Longrightarrow> T = champRounds p"
proof -
  have two: "2 \<le> pcTeamCount (plConfig p)" using assms(1) by (simp add: playoffInv_def)
  obtain T R where br: "bracketInv (plMatchups p) (pmBracket m) T R" and T: "pmBracket m = Championship \<Longrightarrow> T = champRounds p"
  proof (cases "pmBracket m = Championship")
    case True
    obtain R where "bracketInv (plMatchups p) Championship (champRounds p) R" using assms(1) unfolding playoffInv_def by blast
    then show ?thesis using that True by metis
  next
    case False
    obtain T R where "bracketInv (plMatchups p) (pmBracket m) T R" using assms(1,2) unfolding playoffInv_def by blast
    then show ?thesis using that False by blast
  qed
  have total: "bracketTotalRounds (plConfig p) (plMatchups p) (pmBracket m) = int T"
    using total_rounds_inv [OF br, of "plConfig p"] T two by (simp add: champRounds_def)
  have "pmRound m \<le> int R" "R \<le> T" using br assms(2) by (auto simp: bracketInv_def)
  then have eq: "R = T" "pmRound m = int T" using assms(3) total by simp_all
  have "1 \<le> T" using br eq by (simp add: bracketInv_def)
  then have "length (bround (plMatchups p) (pmBracket m) T) = 1" using br eq(1) by (force simp: bracketInv_def)
  moreover have "m \<in> set (bround (plMatchups p) (pmBracket m) T)" using assms(2) eq(2) by (simp add: matchupsForRound_def)
  ultimately have "bround (plMatchups p) (pmBracket m) T = [m]" by (auto simp: length_Suc_conv)
  then show ?thesis using that br eq T by blast
qed

lemma playoffInv_amended:
  assumes "playoffInv p" "list_all2 (amended b R) (plMatchups p) ms" "bracketInv (plMatchups p) b T R"
    and "plConfig q = plConfig p" "plMatchups q = ms"
    and "plChampion q \<noteq> [] \<Longrightarrow> \<exists>m. bround ms Championship (champRounds q) = [m] \<and> pmFinal m \<and>
        pmWinner m = plChampion q \<and> plRunnerUp q = loserOf m"
  shows "playoffInv q"
proof -
  let ?ms = "plMatchups p"
  have move: "bracketInv ms b' T' R'" if "bracketInv ?ms b' T' R'" for b' T' R'
  proof (rule bracketInv_amended [OF that assms(2)])
    show "R' \<le> R" if "b' = b"
      using maxRound_inv [OF assms(3)] maxRound_inv [OF \<open>bracketInv ?ms b' T' R'\<close>] that by simp
  qed
  have rounds: "champRounds q = champRounds p" by (simp add: champRounds_def assms(4))
  have origin: "\<exists>m0\<in>set ?ms. pmBracket m = pmBracket m0 \<and> pmRound m = pmRound m0 \<and> pmID m = pmID m0 \<and> pmHomeSeed m = pmHomeSeed m0"
    if m: "m \<in> set ms" for m
  proof -
    obtain k where k: "k < length ms" "ms ! k = m" using m by (metis in_set_conv_nth)
    then have "amended b R (?ms ! k) m" "?ms ! k \<in> set ?ms" using assms(2) by (auto simp: list_all2_conv_all_nth)
    then show ?thesis by (intro bexI [of _ "?ms ! k"]) (auto simp: amended_def sidesOf_def)
  qed
  have all: "\<exists>T R. bracketInv ms (pmBracket m) T R" if m: "m \<in> set ms" for m
  proof -
    obtain m0 where m0: "m0 \<in> set ?ms" "pmBracket m = pmBracket m0" using origin [OF m] by blast
    then obtain T' R' where "bracketInv ?ms (pmBracket m0) T' R'" using assms(1) unfolding playoffInv_def by blast
    then show ?thesis using move m0(2) by metis
  qed
  have ids: "\<exists>x. pmID m = playoffMatchupID (pmBracket m) (pmRound m) (pmHomeSeed m) x" if m: "m \<in> set ms" for m
    using origin [OF m] assms(1) unfolding playoffInv_def by metis
  have champ: "\<exists>R. bracketInv ms Championship (champRounds p) R" using assms(1) move unfolding playoffInv_def by blast
  have two: "2 \<le> pcTeamCount (plConfig p)" using assms(1) by (simp add: playoffInv_def)
  show ?thesis unfolding playoffInv_def assms(4,5) rounds using two champ all ids assms(6) rounds by auto
qed

lemma correction_inv:
  assumes "playoffInv p" "correctionGuard p co = Inr k"
  shows "playoffInv (correctedCandidate clock p co k)"
proof -
  let ?m = "plMatchups p ! k" and ?q = "correctedCandidate clock p co k"
  let ?t = "correctedMatchup clock co ?m"
  let ?ms = "(plMatchups p)[k := ?t]"
  note g = correctionGuard_facts [OF assms(2)]
  have mem: "?m \<in> set (plMatchups p)" using g(1) by simp
  obtain T where T: "bracketInv (plMatchups p) (pmBracket ?m) T T" "pmRound ?m = int T"
    "bround (plMatchups p) (pmBracket ?m) T = [?m]" "pmBracket ?m = Championship \<Longrightarrow> T = champRounds p"
    using terminal_matchup [OF assms(1) mem g(6)] by blast
  have "matchupOK ?m" by (rule playoffInv_round(2) [OF assms(1) mem])
  then have "matchupOK ?t" using g(3-5) by (auto simp: matchupOK_def)
  then have upd: "list_all2 (amended (pmBracket ?m) T) (plMatchups p) ?ms"
    by (intro amended_update g(1)) (simp add: amended_def T(2))
  have frame: "plConfig ?q = plConfig p" "plMatchups ?q = ?ms" by (simp_all add: correctedCandidate_def Let_def)
  have rounds: "champRounds ?q = champRounds p" by (simp add: champRounds_def frame)
  have sealed: "\<exists>m. bround ?ms Championship (champRounds ?q) = [m] \<and> pmFinal m \<and> pmWinner m = plChampion ?q \<and> plRunnerUp ?q = loserOf m"
    if "plChampion ?q \<noteq> []"
  proof (cases "pmBracket ?m = Championship")
    case True
    have "length (bround ?ms Championship T) = 1"
      using list_all2_lengthD [OF amended_round [OF upd, of Championship "int T"]] T(3) True by simp
    moreover have "?t \<in> set (bround ?ms Championship T)"
      using T(2) True set_update_memI [OF g(1)] by (simp add: matchupsForRound_def)
    ultimately have "bround ?ms Championship T = [?t]" by (auto simp: length_Suc_conv)
    moreover have "plChampion ?q = pmWinner ?t" "plRunnerUp ?q = loserOf ?t"
      using True by (simp_all add: correctedCandidate_def Let_def finalizeBracket_def)
    ultimately show ?thesis using g(3) T(4) True rounds by simp
  next
    case False
    then have same: "plChampion ?q = plChampion p" "plRunnerUp ?q = plRunnerUp p"
      by (cases "pmBracket ?m"; simp add: correctedCandidate_def Let_def finalizeBracket_def)+
    have "bround ?ms Championship (champRounds p) = bround (plMatchups p) Championship (champRounds p)"
      by (rule amended_other [OF upd]) (use False in simp)
    then show ?thesis using assms(1) that same rounds unfolding playoffInv_def by metis
  qed
  show ?thesis by (rule playoffInv_amended [OF assms(1) upd T(1) frame sealed])
qed

section \<open>The postseason as a state machine\<close>

text \<open>
  The steps a store's bracket can take: the Store operations with any arguments (a preview is one that
  BuildPlayoffPreview returned), with any outcome of the write, successful or not. The reset of the league, which
  withdraws any bracket (resetState in Seats), is no step of the postseason.
\<close>

inductive postseasonStep :: "store \<Rightarrow> store \<Rightarrow> bool" where
  stepPreview: "buildPlayoffPreview digest previewDigest sts divisions cfg prov = Inr preview \<Longrightarrow>
     setPlayoffPreview clock preview actor at' res s = (out1, s') \<Longrightarrow> postseasonStep s s'"
| stepPublish: "publishPlayoffPreview clock previewID confirmation actor at' res s = (out2, s') \<Longrightarrow> postseasonStep s s'"
| stepAdvance: "advancePublishedPlayoffRound clock results res s = (out3, s') \<Longrightarrow> postseasonStep s s'"
| stepCorrect: "correctPublishedPlayoff clock co res s = (out4, s') \<Longrightarrow> postseasonStep s s'"

text \<open>What the bracket of the store looks like after a step: unchanged, or the candidate of one operation.\<close>

definition bracketOf :: "store \<Rightarrow> playoff_state option" where
  "bracketOf s = playoffs (stState s)"

lemma commitDisposed_state:
  "commitDisposed res s st r = (out', s') \<Longrightarrow> s' = s \<or> s' = s\<lparr>stState := st\<rparr>"
  by (auto simp: commitDisposed_def split: persist_result.splits)

lemma setPlayoffPreview_state:
  assumes "setPlayoffPreview clock preview actor at' res s = (out', s')"
  shows "s' = s \<or> (bracketOf s' = Some (previewCandidate clock (bracketOf s) preview actor at') \<and>
    (\<forall>p. bracketOf s = Some p \<longrightarrow> effectivePlayoffStatus p \<noteq> StatusPublished))"
  using assms unfolding setPlayoffPreview_def Let_def
  by (auto simp: gated_def rejected_def bracketOf_def dest!: commitDisposed_state split: if_splits option.splits)

lemma publishPlayoffPreview_state:
  assumes "publishPlayoffPreview clock previewID confirmation actor at' res s = (out', s')"
  shows "s' = s \<or> (\<exists>p. bracketOf s = Some p \<and> plStatus p = StatusPreview \<and> bracketOf s' = Some (publishedCandidate clock p actor at'))"
  using assms unfolding publishPlayoffPreview_def Let_def
  by (auto simp: gated_def rejected_def bracketOf_def dest!: commitDisposed_state split: if_splits option.splits)

lemma advancePublished_state:
  assumes "advancePublishedPlayoffRound clock results res s = (out', s')"
  shows "s' = s \<or> (\<exists>p q. bracketOf s = Some p \<and> plStatus p = StatusPublished \<and>
    validateAuthoritativePlayoffRound p results = None \<and> advancePlayoffRound p results = Inr q \<and>
    bracketOf s' = Some (advancedCandidate clock p q results) \<and>
    (plChampion q \<noteq> [] \<longrightarrow> seasonPhase (stState s') = PhaseSeasonComplete))"
  using assms unfolding advancePublishedPlayoffRound_def Let_def
  by (auto simp: gated_def rejected_def bracketOf_def advanceAuthoritativePlayoffRound_def advancedCandidate_def Let_def
      dest!: commitDisposed_state split: if_splits option.splits sum.splits)

lemma correctPublished_state:
  assumes "correctPublishedPlayoff clock co res s = (out', s')"
  shows "s' = s \<or> (\<exists>p k. bracketOf s = Some p \<and> correctionGuard p co = Inr k \<and>
    bracketOf s' = Some (correctedCandidate clock p co k))"
  using assms unfolding correctPublishedPlayoff_def Let_def
  by (auto simp: gated_def rejected_def bracketOf_def dest!: commitDisposed_state split: if_splits option.splits sum.splits)

text \<open>
  The invariant of the bracket: sound, with a status, a preview undecided, its revisions numbered upwards
  through the audit trail, the last entry carrying the bracket's revision.
\<close>

definition historyOK :: "playoff_state \<Rightarrow> bool" where
  "historyOK p \<longleftrightarrow> plAudit p \<noteq> [] \<and> sorted_wrt (<) (map auRevision (plAudit p)) \<and> auRevision (last (plAudit p)) = plRevision p"

definition bracketSound :: "playoff_state \<Rightarrow> bool" where
  "bracketSound p \<longleftrightarrow> playoffInv p \<and> plStatus p \<noteq> StatusNone \<and> (plStatus p = StatusPreview \<longrightarrow> plChampion p = []) \<and> historyOK p"

lemma historyOK_extend:
  assumes "historyOK p" "\<exists>a. plAudit q = plAudit p @ [a] \<and> auRevision a = plRevision q" "plRevision q = plRevision p + 1"
  shows "historyOK q"
proof -
  have "auRevision x \<le> plRevision p" if "x \<in> set (plAudit p)" for x
  proof -
    have "sorted_wrt (<) (map auRevision (butlast (plAudit p) @ [last (plAudit p)]))" "x \<in> set (butlast (plAudit p) @ [last (plAudit p)])"
      using assms(1) that by (simp_all add: historyOK_def)
    then show ?thesis using assms(1) by (auto simp: historyOK_def sorted_wrt_append)
  qed
  then show ?thesis using assms by (force simp: historyOK_def sorted_wrt_append)
qed

lemma audit_revision [simp]: "auRevision (playoffAudit clock action actor at' r) = r"
  by (simp add: playoffAudit_def)

lemma step_cases:
  assumes "postseasonStep s s'"
  obtains "s' = s"
  | digest previewDigest sts divisions cfg prov preview clock actor at' where
      "buildPlayoffPreview digest previewDigest sts divisions cfg prov = Inr preview"
      "bracketOf s' = Some (previewCandidate clock (bracketOf s) preview actor at')"
      "\<And>p. bracketOf s = Some p \<Longrightarrow> effectivePlayoffStatus p \<noteq> StatusPublished"
  | p clock actor at' where "bracketOf s = Some p" "plStatus p = StatusPreview"
      "bracketOf s' = Some (publishedCandidate clock p actor at')"
  | p q clock results where "bracketOf s = Some p" "plStatus p = StatusPublished"
      "advancePlayoffRound p results = Inr q" "bracketOf s' = Some (advancedCandidate clock p q results)"
  | p clock co k where "bracketOf s = Some p" "correctionGuard p co = Inr k"
      "bracketOf s' = Some (correctedCandidate clock p co k)"
  using assms
proof (cases rule: postseasonStep.cases)
  case stepPreview
  then show ?thesis using setPlayoffPreview_state [OF stepPreview(2)] that(1) that(2) [OF stepPreview(1)] by blast
next
  case stepPublish
  then show ?thesis using publishPlayoffPreview_state [OF stepPublish] that(1,3) by blast
next
  case stepAdvance
  then show ?thesis using advancePublished_state [OF stepAdvance] that(1,4) by blast
next
  case stepCorrect
  then show ?thesis using correctPublished_state [OF stepCorrect] that(1,5) by blast
qed

lemma previewCandidate_sound:
  assumes "buildPlayoffPreview digest previewDigest sts divisions cfg prov = Inr preview"
  shows "bracketSound (previewCandidate clock previous preview actor at')"
  using preview_sound [OF assms] playoffInv_cong [of preview "previewCandidate clock previous preview actor at'"]
  by (simp add: bracketSound_def previewCandidate_def historyOK_def Let_def)

lemma publishedCandidate_sound:
  assumes "bracketSound p"
  shows "bracketSound (publishedCandidate clock p actor at')"
proof -
  have "historyOK (publishedCandidate clock p actor at')"
    by (rule historyOK_extend [of p]) (use assms in \<open>simp_all add: bracketSound_def publishedCandidate_def playoffAudit_def Let_def\<close>)
  then show ?thesis using assms playoffInv_cong [of p "publishedCandidate clock p actor at'"]
    by (simp add: bracketSound_def publishedCandidate_def Let_def)
qed

lemma advance_status: "advancePlayoffRound st results = Inr st' \<Longrightarrow> plStatus st' = plStatus st \<and> plSeeds st' = plSeeds st \<and> plPreviewID st' = plPreviewID st"
proof -
  assume eq: "advancePlayoffRound st results = Inr st'"
  have rounds: "plStatus (advanceRounds b r current st) = plStatus st \<and> plSeeds (advanceRounds b r current st) = plSeeds st \<and>
      plPreviewID (advanceRounds b r current st) = plPreviewID st" for b r current st
    by (auto simp: advanceRounds_def Let_def finalizeBracket_def split: list.splits bracket.splits)
  have spawn: "plStatus (spawnConsolation b r current st) = plStatus st \<and> plSeeds (spawnConsolation b r current st) = plSeeds st \<and>
      plPreviewID (spawnConsolation b r current st) = plPreviewID st" for b r current st
    by (auto simp: spawnConsolation_def split: sum.splits)
  have "plStatus (fold advanceBracket bs st) = plStatus st \<and> plSeeds (fold advanceBracket bs st) = plSeeds st \<and>
      plPreviewID (fold advanceBracket bs st) = plPreviewID st" for bs st
    by (induction bs arbitrary: st) (simp_all add: advanceBracket_def Let_def rounds spawn)
  then show ?thesis using eq by (auto simp: advancePlayoffRound_def split: sum.splits)
qed

lemma advancedCandidate_sound:
  assumes "bracketSound p" "plStatus p = StatusPublished" "advancePlayoffRound p results = Inr q"
  shows "bracketSound (advancedCandidate clock p q results)"
proof -
  have "historyOK (advancedCandidate clock p q results)"
    by (rule historyOK_extend [of p]) (use assms in \<open>simp_all add: bracketSound_def advancedCandidate_def playoffAudit_def Let_def\<close>)
  moreover have "playoffInv q" using assms(1) advance_inv [OF _ assms(3)] by (simp add: bracketSound_def)
  ultimately show ?thesis using assms(2) advance_status [OF assms(3)] playoffInv_cong [of q "advancedCandidate clock p q results"]
    by (simp add: bracketSound_def advancedCandidate_def Let_def)
qed

lemma correctedCandidate_frame [simp]:
  "plStatus (correctedCandidate clock p co k) = plStatus p" "plSeeds (correctedCandidate clock p co k) = plSeeds p"
  "plPreviewID (correctedCandidate clock p co k) = plPreviewID p" "plConfig (correctedCandidate clock p co k) = plConfig p"
  "plRevision (correctedCandidate clock p co k) = plRevision p + 1"
  by (auto simp: correctedCandidate_def Let_def finalizeBracket_def split: bracket.splits)

lemma correctedCandidate_sound:
  assumes "bracketSound p" "correctionGuard p co = Inr k"
  shows "bracketSound (correctedCandidate clock p co k)"
proof -
  have inv: "playoffInv (correctedCandidate clock p co k)"
    using assms(1) correction_inv [OF _ assms(2)] by (simp add: bracketSound_def)
  have "historyOK (correctedCandidate clock p co k)"
    by (rule historyOK_extend [of p]) (use assms in \<open>simp_all add: bracketSound_def\<close>, simp_all add: correctedCandidate_def playoffAudit_def Let_def)
  then show ?thesis using inv correctionGuard_facts(7) [OF assms(2)] by (simp add: bracketSound_def)
qed

lemma postseasonStep_sound:
  assumes "postseasonStep s s'" "\<And>p. bracketOf s = Some p \<Longrightarrow> bracketSound p" "bracketOf s' = Some p'"
  shows "bracketSound p'"
  using assms(1)
proof (cases rule: step_cases)
  case 1
  then show ?thesis using assms(2,3) by simp
next
  case 2
  then show ?thesis using previewCandidate_sound assms(3) by simp
next
  case 3
  then show ?thesis using publishedCandidate_sound assms(2,3) by simp
next
  case 4
  then show ?thesis using advancedCandidate_sound assms(2,3) by simp
next
  case 5
  then show ?thesis using correctedCandidate_sound assms(2,3) by simp
qed

text \<open>
  C27: The postseason is sound. From a store without a bracket, whatever previews, publications,
  advancements and corrections follow, with any arguments and with failing writes, the bracket keeps its
  invariant (each round pairs exactly the teams that came out of the one before), a champion has won a
  final matchup of every championship round and the audit trail numbers the revisions upwards.
\<close>

theorem postseason_brackets_sound:
  assumes "postseasonStep\<^sup>*\<^sup>* s0 s" "bracketOf s0 = None" "bracketOf s = Some p"
  shows "playoffInv p \<and> (plStatus p = StatusPreview \<longrightarrow> plChampion p = []) \<and> historyOK p \<and>
    (plChampion p \<noteq> [] \<longrightarrow> (\<forall>r\<in>{1..champRounds p}. \<exists>m\<in>set (plMatchups p).
       pmBracket m = Championship \<and> pmRound m = int r \<and> pmFinal m \<and> pmWinner m = plChampion p) \<and>
       plRunnerUp p \<noteq> plChampion p)"
proof -
  have sound: "bracketOf s = Some p \<Longrightarrow> bracketSound p" for p
    using assms(1)
  proof (induction arbitrary: p rule: rtranclp_induct)
    case base
    then show ?case using assms(2) by simp
  next
    case (step s s')
    then show ?case using postseasonStep_sound [OF step.hyps(2)] by blast
  qed
  then have "bracketSound p" using assms(3) by blast
  then show ?thesis using champion_rounds [of p] unfolding bracketSound_def by blast
qed

lemma advanced_keeps_final:
  assumes "advancePlayoffRound p results = Inr q" "m \<in> set (plMatchups p)" "pmFinal m"
  shows "m \<in> set (plMatchups q)"
proof -
  obtain ms where ms: "applyResults results (plMatchups p) = Inr ms"
    and q: "q = fold advanceBracket (presentBrackets ms) (p\<lparr>plMatchups := ms\<rparr>)"
    using assms(1) by (auto simp: advancePlayoffRound_def split: sum.splits)
  obtain k where k: "k < length (plMatchups p)" "plMatchups p ! k = m" using assms(2) by (metis in_set_conv_nth)
  then have "resulted m (ms ! k)" "k < length ms" using applyResults_resulted [OF ms] by (auto simp: list_all2_conv_all_nth)
  then have "m \<in> set ms" using resulted_final assms(3) by (metis nth_mem)
  moreover have "set (plMatchups st) \<subseteq> set (plMatchups (fold advanceBracket bs st))" for bs st
  proof (induction bs arbitrary: st)
    case (Cons b bs)
    have "set (plMatchups st) \<subseteq> set (plMatchups (advanceBracket b st))"
      using advanceBracket_frame(1) [of b st] by fastforce
    then show ?case using Cons by fastforce
  qed simp
  ultimately show ?thesis unfolding q by fastforce
qed

text \<open>One step on a published bracket: nothing changes, or one audited revision.\<close>

lemma published_step:
  assumes "postseasonStep s s'" "bracketOf s = Some p" "plStatus p = StatusPublished"
  shows "\<exists>p'. bracketOf s' = Some p' \<and> plStatus p' = StatusPublished \<and> plSeeds p' = plSeeds p \<and>
    plConfig p' = plConfig p \<and> plPreviewID p' = plPreviewID p \<and>
    (p' = p \<or> (plRevision p' = plRevision p + 1 \<and> (\<exists>a. plAudit p' = plAudit p @ [a] \<and> auRevision a = plRevision p' \<and>
      (\<forall>m\<in>set (plMatchups p). pmFinal m \<longrightarrow> m \<in> set (plMatchups p') \<or>
         (auAction a = ''correction'' \<and> auMatchupID a = pmID m)))))"
  using assms(1)
proof (cases rule: step_cases)
  case 1
  then show ?thesis using assms by simp
next
  case 2
  then show ?thesis using assms(2,3) by (force simp: effectivePlayoffStatus_def)
next
  case 3
  then show ?thesis using assms(2,3) by simp
next
  case (4 p0 q clock results)
  then have q: "advancePlayoffRound p results = Inr q" "bracketOf s' = Some (advancedCandidate clock p q results)"
    using assms(2) by simp_all
  have "\<forall>m\<in>set (plMatchups p). pmFinal m \<longrightarrow> m \<in> set (plMatchups q)" using advanced_keeps_final [OF q(1)] by blast
  then show ?thesis using q(2) advance_status [OF q(1)] advance_config [OF q(1)] assms(3)
    by (simp add: advancedCandidate_def playoffAudit_def Let_def)
next
  case (5 p0 clock co k)
  then have g: "correctionGuard p co = Inr k" "bracketOf s' = Some (correctedCandidate clock p co k)"
    using assms(2) by simp_all
  have audit: "plAudit (correctedCandidate clock p co k) = plAudit p @ [(playoffAudit clock ''correction'' (coActor co) (coAt co) (plRevision p + 1))
            \<lparr>auReason := trimSpace (coReason co), auMatchupID := coMatchupID co,
             auPreviousWinner := pmWinner (plMatchups p ! k), auWinner := coWinner co\<rparr>]"
    by (simp add: correctedCandidate_def Let_def)
  have "m \<in> set (plMatchups (correctedCandidate clock p co k)) \<or> coMatchupID co = pmID m" if m: "m \<in> set (plMatchups p)" for m
  proof -
    obtain j where j: "j < length (plMatchups p)" "plMatchups p ! j = m" using m by (metis in_set_conv_nth)
    show ?thesis
    proof (cases "j = k")
      case True
      then show ?thesis using correctionGuard_facts(2) [OF g(1)] j by simp
    next
      case False
      then have "plMatchups (correctedCandidate clock p co k) ! j = m" "j < length (plMatchups (correctedCandidate clock p co k))"
        using j by (simp_all add: correctedCandidate_def Let_def)
      then show ?thesis using nth_mem by blast
    qed
  qed
  then show ?thesis using g(2) assms(3) audit by (auto simp: playoffAudit_def)
qed

text \<open>What any number of steps leaves of a published bracket.\<close>

definition revisedBy :: "playoff_state \<Rightarrow> audit_entry list \<Rightarrow> playoff_state \<Rightarrow> bool" where
  "revisedBy p as p' \<longleftrightarrow> plStatus p' = StatusPublished \<and> plSeeds p' = plSeeds p \<and> plConfig p' = plConfig p \<and>
     plPreviewID p' = plPreviewID p \<and> (as = [] \<longrightarrow> p' = p) \<and> plAudit p' = plAudit p @ as \<and>
     plRevision p' = plRevision p + int (length as) \<and>
     map auRevision as = map (\<lambda>i. plRevision p + 1 + int i) [0..<length as] \<and>
     (\<forall>m\<in>set (plMatchups p). pmFinal m \<longrightarrow> m \<in> set (plMatchups p') \<or>
       (\<exists>a\<in>set as. auAction a = ''correction'' \<and> auMatchupID a = pmID m))"

lemma revised_step:
  assumes "postseasonStep s s'" "bracketOf s = Some p" "plStatus p = StatusPublished"
  shows "\<exists>p' as. bracketOf s' = Some p' \<and> revisedBy p as p' \<and> length as \<le> 1"
proof -
  obtain p' where p': "bracketOf s' = Some p'" "plStatus p' = StatusPublished" "plSeeds p' = plSeeds p" "plConfig p' = plConfig p"
    "plPreviewID p' = plPreviewID p"
    and change: "p' = p \<or> (plRevision p' = plRevision p + 1 \<and> (\<exists>a. plAudit p' = plAudit p @ [a] \<and> auRevision a = plRevision p' \<and>
      (\<forall>m\<in>set (plMatchups p). pmFinal m \<longrightarrow> m \<in> set (plMatchups p') \<or> (auAction a = ''correction'' \<and> auMatchupID a = pmID m))))"
    using published_step [OF assms] by blast
  from change show ?thesis
  proof (elim disjE conjE exE)
    assume "p' = p"
    then have "revisedBy p [] p'" using assms(3) by (simp add: revisedBy_def)
    then show ?thesis using p'(1) by fastforce
  next
    fix a assume "plRevision p' = plRevision p + 1" "plAudit p' = plAudit p @ [a]" "auRevision a = plRevision p'"
      "\<forall>m\<in>set (plMatchups p). pmFinal m \<longrightarrow> m \<in> set (plMatchups p') \<or> (auAction a = ''correction'' \<and> auMatchupID a = pmID m)"
    then have "revisedBy p [a] p'" using p' by (simp add: revisedBy_def)
    then show ?thesis using p'(1) by fastforce
  qed
qed

lemma revised_trans:
  assumes "revisedBy p as q" "revisedBy q bs r"
  shows "revisedBy p (as @ bs) r"
proof -
  have "map auRevision bs = map (\<lambda>i. plRevision p + 1 + int (length as) + int i) [0..<length bs]"
    using assms by (simp add: revisedBy_def algebra_simps)
  also have "\<dots> = map (\<lambda>i. plRevision p + 1 + int i) [length as..<length as + length bs]"
    by (rule nth_equalityI) simp_all
  finally have "map auRevision (as @ bs) = map (\<lambda>i. plRevision p + 1 + int i) [0..<length (as @ bs)]"
    using assms(1) by (simp add: revisedBy_def upt_add_eq_append [of 0, simplified])
  moreover have "m \<in> set (plMatchups r) \<or> (\<exists>a\<in>set (as @ bs). auAction a = ''correction'' \<and> auMatchupID a = pmID m)"
    if "m \<in> set (plMatchups p)" "pmFinal m" for m
    using assms that unfolding revisedBy_def by (metis in_set_conv_decomp UnCI set_append)
  ultimately show ?thesis using assms by (simp add: revisedBy_def)
qed

lemma revised_run:
  assumes "postseasonStep\<^sup>*\<^sup>* s s'" "bracketOf s = Some p" "plStatus p = StatusPublished"
  shows "\<exists>p' as. bracketOf s' = Some p' \<and> revisedBy p as p'"
  using assms(1)
proof (induction rule: rtranclp_induct)
  case base
  have "revisedBy p [] p" using assms(3) by (simp add: revisedBy_def)
  then show ?case using assms(2) by blast
next
  case (step y z)
  then obtain q as where q: "bracketOf y = Some q" "revisedBy p as q" by blast
  then have "plStatus q = StatusPublished" by (simp add: revisedBy_def)
  then obtain r bs where "bracketOf z = Some r" "revisedBy q bs r" using revised_step [OF step.hyps(2) q(1)] by blast
  then show ?case using revised_trans [OF q(2)] by blast
qed

text \<open>
  C28: Previews, publications, advancements and corrections, however many, in whatever order and whether their
  writes succeed or fail, never replace or withdraw a published bracket; only the reset of the whole league
  (resetLeague), which is none of these steps, does. Its field, rules and preview ID stay, the audit trail only
  grows, each step adding nothing or one entry and one revision, the entries carry the revisions in order, and
  every final matchup keeps its result unless one of the new entries is a correction naming it.
\<close>

theorem published_bracket_permanent:
  assumes "postseasonStep\<^sup>*\<^sup>* s s'" "bracketOf s = Some p" "plStatus p = StatusPublished"
  shows "\<exists>p' as. bracketOf s' = Some p' \<and> plStatus p' = StatusPublished \<and> plSeeds p' = plSeeds p \<and>
    plConfig p' = plConfig p \<and> plPreviewID p' = plPreviewID p \<and> (as = [] \<longrightarrow> p' = p) \<and> plAudit p' = plAudit p @ as \<and>
    plRevision p' = plRevision p + int (length as) \<and>
    map auRevision as = map (\<lambda>i. plRevision p + 1 + int i) [0..<length as] \<and>
    (postseasonStep s s' \<longrightarrow> length as \<le> 1) \<and>
    (\<forall>m\<in>set (plMatchups p). pmFinal m \<longrightarrow> m \<in> set (plMatchups p') \<or>
      (\<exists>a\<in>set as. auAction a = ''correction'' \<and> auMatchupID a = pmID m))"
proof -
  have "\<exists>p' as. bracketOf s' = Some p' \<and> revisedBy p as p' \<and> (postseasonStep s s' \<longrightarrow> length as \<le> 1)"
    using revised_step [OF _ assms(2,3)] revised_run [OF assms] by blast
  then show ?thesis unfolding revisedBy_def by blast
qed

section \<open>A concrete postseason\<close>

definition postseasonStore :: "playoff_state option \<Rightarrow> store" where
  "postseasonStore p = \<lparr>stState = freshState\<lparr>playoffs := p, seasonPhase := PhasePlayoffs\<rparr>, stWriteError = False,
     stLifecycleBypass = False, stFilingLog = (\<lambda>t. [])\<rparr>"

definition constDigest :: "int \<Rightarrow> standing list \<Rightarrow> string" where
  "constDigest w sts = ''snapshot''"

definition samplePreview :: "postseason_error + playoff_state" where
  "samplePreview = (case newPlayoffProvenance constDigest sampleTable 14 1 [] of Inl e \<Rightarrow> Inl (BadProvenance e)
     | Inr prov \<Rightarrow> buildPlayoffPreview constDigest (\<lambda>i cfg. i) sampleTable sampleDivisions samplePlayoffConfig prov)"

lemma sample_preview:
  obtains prov preview where "buildPlayoffPreview constDigest (\<lambda>i cfg. i) sampleTable sampleDivisions samplePlayoffConfig prov = Inr preview"
    "samplePreview = Inr preview"
proof -
  have "\<not> isl samplePreview" by code_simp
  then obtain preview where "samplePreview = Inr preview" by (metis isl_def sum.exhaust)
  then show ?thesis using that by (auto simp: samplePreview_def split: sum.splits)
qed

lemma validated_results_advance_witness:
  "\<exists>st st'. validateAuthoritativePlayoffRound st (homeWins st) = None \<and>
     advanceAuthoritativePlayoffRound st (homeWins st) = Inr st' \<and> playoffInv st'"
proof -
  obtain prov st where "buildPlayoffPreview constDigest (\<lambda>i cfg. i) sampleTable sampleDivisions samplePlayoffConfig prov = Inr st"
    and st: "samplePreview = Inr st" by (rule sample_preview)
  then have inv: "playoffInv st" using preview_sound by blast
  have "case samplePreview of Inl e \<Rightarrow> False | Inr st \<Rightarrow> validateAuthoritativePlayoffRound st (homeWins st) = None" by code_simp
  then have "validateAuthoritativePlayoffRound st (homeWins st) = None" by (simp add: st)
  then show ?thesis using validated_results_advance [OF inv] by blast
qed

lemma postseason_brackets_sound_witness:
  "\<exists>s p. postseasonStep\<^sup>*\<^sup>* (postseasonStore None) s \<and> bracketOf s = Some p \<and> plStatus p = StatusPreview \<and> playoffInv p"
proof -
  obtain prov st where build: "buildPlayoffPreview constDigest (\<lambda>i cfg. i) sampleTable sampleDivisions samplePlayoffConfig prov = Inr st"
    and st: "samplePreview = Inr st" by (rule sample_preview)
  note facts = preview_sound [OF build]
  define p where "p = previewCandidate 5 None st ''commissioner'' 5"
  define s where "s = (postseasonStore None)\<lparr>stState := (stState (postseasonStore None))\<lparr>playoffs := Some p\<rparr>\<rparr>"
  have actor: "trimSpace ''commissioner'' \<noteq> []" by code_simp
  have "setPlayoffPreview 5 st ''commissioner'' 5 Persisted (postseasonStore None) = (Inr (), s)"
    using facts actor by (simp add: setPlayoffPreview_def gated_def commitDisposed_def postseasonStore_def freshState_def s_def p_def)
  then have step: "postseasonStep\<^sup>*\<^sup>* (postseasonStore None) s" using stepPreview [OF build] by blast
  have br: "bracketOf (postseasonStore None) = None" "bracketOf s = Some p"
    by (simp_all add: bracketOf_def postseasonStore_def s_def)
  show ?thesis using postseason_brackets_sound [OF step br] step br(2) facts
    by (intro exI [of _ s] exI [of _ p]) (simp add: p_def previewCandidate_def Let_def)
qed

lemma published_bracket_permanent_witness:
  "\<exists>s s' p p'. bracketOf s = Some p \<and> plStatus p = StatusPublished \<and> postseasonStep s s' \<and> bracketOf s' = Some p' \<and>
     plRevision p' \<noteq> plRevision p \<and> plStatus p' = StatusPublished"
proof -
  obtain st where st: "samplePreview = Inr st" by (rule sample_preview)
  define p where "p = st\<lparr>plStatus := StatusPublished\<rparr>"
  define s where "s = postseasonStore (Some p)"
  obtain out' s' where run: "advancePublishedPlayoffRound 5 (homeWins p) Persisted s = (out', s')" by fastforce
  have "case samplePreview of Inl e \<Rightarrow> False | Inr st \<Rightarrow>
      (case advancePublishedPlayoffRound 5 (homeWins (st\<lparr>plStatus := StatusPublished\<rparr>)) Persisted (postseasonStore (Some (st\<lparr>plStatus := StatusPublished\<rparr>)))
       of (_, s') \<Rightarrow> (case playoffs (stState s') of None \<Rightarrow> False | Some q \<Rightarrow> plRevision q \<noteq> plRevision st))" by code_simp
  then have changed: "case playoffs (stState s') of None \<Rightarrow> False | Some q \<Rightarrow> plRevision q \<noteq> plRevision p"
    using run by (simp add: st p_def s_def split: option.splits)
  have step: "postseasonStep s s'" by (rule stepAdvance [OF run])
  have br: "bracketOf s = Some p" "plStatus p = StatusPublished" by (simp_all add: bracketOf_def s_def postseasonStore_def p_def)
  obtain p' where "bracketOf s' = Some p'" "plStatus p' = StatusPublished"
    using published_bracket_permanent [OF r_into_rtranclp [of postseasonStep, OF step] br] by blast
  then show ?thesis using changed step br by (auto simp: bracketOf_def)
qed

text \<open>
  BuildPlayoffPreview checks the rules before it turns the division-winners-wildcards qualification into
  division winners first, so a field smaller than the number of divisions passes with the one and is
  refused with the other.
\<close>

lemma preview_bypasses_division_check:
  "let divisions = [(''a'', ''N''), (''b'', ''S''), (''c'', ''W'')];
       cfg = samplePlayoffConfig\<lparr>pcTeamCount := 2, pcDivisionWinnersFirst := False, pcQualification := ''division-winners-wildcards''\<rparr>
   in (case newPlayoffProvenance constDigest sampleTable 14 1 [] of Inl e \<Rightarrow> False | Inr prov \<Rightarrow>
       \<not> isl (buildPlayoffPreview constDigest (\<lambda>i cfg. i) sampleTable divisions cfg prov) \<and>
       isl (buildPlayoffPreview constDigest (\<lambda>i cfg. i) sampleTable divisions (cfg\<lparr>pcDivisionWinnersFirst := True\<rparr>) prov))"
  by code_simp

end
