(* ===== verification/DraftFill.thy ===== *)
theory DraftFill
  imports DraftOrder
begin

text \<open>
  The slot model of a lineup (src/internal/league/lineup.go: slotTable, lineupSlots) and the matcher of
  the draft (draftclock.go: maximumDraftStarterFill): how many starting slots a roster can fill.
\<close>

section \<open>Slots\<close>

record slot_def =
  sdKey :: string
  sdEligible :: "string list"

record slot_instance =
  siID :: string
  siDef :: slot_def

definition slotFits :: "slot_def \<Rightarrow> string \<Rightarrow> bool" where
  "slotFits s position = list_ex (\<lambda>e. e = position) (sdEligible s)"

definition slotTable :: "slot_def list" where
  "slotTable =
    [\<lparr>sdKey = ''QB'', sdEligible = [''QB'']\<rparr>,
     \<lparr>sdKey = ''RB'', sdEligible = [''RB'']\<rparr>,
     \<lparr>sdKey = ''WR'', sdEligible = [''WR'']\<rparr>,
     \<lparr>sdKey = ''TE'', sdEligible = [''TE'']\<rparr>,
     \<lparr>sdKey = ''FLEX'', sdEligible = [''RB'', ''WR'', ''TE'']\<rparr>,
     \<lparr>sdKey = ''SUPERFLEX'', sdEligible = [''QB'', ''RB'', ''WR'', ''TE'']\<rparr>,
     \<lparr>sdKey = ''DST'', sdEligible = [''DST'']\<rparr>,
     \<lparr>sdKey = ''K'', sdEligible = [''K'']\<rparr>,
     \<lparr>sdKey = ''P'', sdEligible = [''P'']\<rparr>]"

definition slotByKey :: "string \<Rightarrow> slot_def option" where
  "slotByKey key = find (\<lambda>s. sdKey s = key) slotTable"

definition slotInstances :: "roster_preset \<Rightarrow> slot_def \<Rightarrow> slot_instance list" where
  "slotInstances preset d =
     (let n = readCount (presetSlots preset) (sdKey d) in
      if n \<le> 0 then []
      else if n = 1 then [\<lparr>siID = sdKey d, siDef = d\<rparr>]
      else map (\<lambda>i. \<lparr>siID = sdKey d @ itoa i, siDef = d\<rparr>) [1..n])"

definition lineupSlots :: "roster_preset \<Rightarrow> slot_instance list" where
  "lineupSlots preset = concat (map (slotInstances preset) slotTable)"

definition lineupSlotByID :: "roster_preset \<Rightarrow> string \<Rightarrow> slot_instance option" where
  "lineupSlotByID preset i = find (\<lambda>s. siID s = i) (lineupSlots preset)"

section \<open>The matcher\<close>

text \<open>
  The closure assign: it walks the slots the player fits and has not seen in this attempt, takes a free
  one, or moves its occupant on first. The marks stay set when an attempt fails, the matching is only
  changed by a success. The fuel d bounds the depth of the recursion; every level marks one more slot, so
  the number of slots is enough (assign_failure).
\<close>

type_synonym matching = "nat option list"

function assign :: "(nat \<Rightarrow> nat \<Rightarrow> bool) \<Rightarrow> nat \<Rightarrow> nat \<Rightarrow> nat list \<Rightarrow> bool list \<times> matching \<Rightarrow> bool \<times> bool list \<times> matching" where
  "assign fits d p [] (seen, m) = (False, seen, m)"
| "assign fits d p (k # ks) (seen, m) =
     (if seen ! k \<or> \<not> fits p k then assign fits d p ks (seen, m)
      else case m ! k of
        None \<Rightarrow> (True, seen[k := True], m[k := Some p])
      | Some q \<Rightarrow>
          (case d of 0 \<Rightarrow> (False, seen[k := True], m)
           | Suc d' \<Rightarrow>
              (case assign fits d' q [0..<length m] (seen[k := True], m) of
                 (True, seen', m') \<Rightarrow> (True, seen', m'[k := Some p])
               | (False, seen', m') \<Rightarrow> assign fits d p ks (seen', m'))))"
  by pat_completeness auto

termination assign
  by (relation "inv_image (less_than <*lex*> less_than) (\<lambda>(fits, d, p, ks, st). (d, length ks))") auto

definition placePlayer :: "(nat \<Rightarrow> nat \<Rightarrow> bool) \<Rightarrow> nat \<Rightarrow> matching \<times> nat \<Rightarrow> matching \<times> nat" where
  "placePlayer fits p acc = (case acc of (m, filled) \<Rightarrow>
     (case assign fits (length m) p [0..<length m] (replicate (length m) False, m) of
        (True, seen, m') \<Rightarrow> (m', filled + 1) | (False, seen, m') \<Rightarrow> (m', filled)))"

definition maximumFill :: "(nat \<Rightarrow> nat \<Rightarrow> bool) \<Rightarrow> nat \<Rightarrow> nat \<Rightarrow> nat" where
  "maximumFill fits slots players = snd (fold (placePlayer fits) [0..<players] (replicate slots None, 0))"

definition playerFits :: "player list \<Rightarrow> slot_instance list \<Rightarrow> nat \<Rightarrow> nat \<Rightarrow> bool" where
  "playerFits players slots p k = slotFits (siDef (slots ! k)) (playerPosition (players ! p))"

definition maximumDraftStarterFill :: "player list \<Rightarrow> roster_preset \<Rightarrow> int" where
  "maximumDraftStarterFill players preset =
     (let slots = lineupSlots preset
      in int (maximumFill (playerFits players slots) (length slots) (length players)))"

section \<open>Facts of one attempt\<close>

lemma assign_skip: "seen ! k \<or> \<not> fits p k \<Longrightarrow> assign fits d p (k # ks) (seen, m) = assign fits d p ks (seen, m)"
  by simp

lemma assign_free: "\<not> seen ! k \<Longrightarrow> fits p k \<Longrightarrow> m ! k = None \<Longrightarrow>
    assign fits d p (k # ks) (seen, m) = (True, seen[k := True], m[k := Some p])"
  by simp

lemma assign_spent: "\<not> seen ! k \<Longrightarrow> fits p k \<Longrightarrow> m ! k = Some q \<Longrightarrow>
    assign fits 0 p (k # ks) (seen, m) = (False, seen[k := True], m)"
  by simp

lemma assign_moved: "\<not> seen ! k \<Longrightarrow> fits p k \<Longrightarrow> m ! k = Some q \<Longrightarrow>
    assign fits d q [0..<length m] (seen[k := True], m) = (True, seen', m') \<Longrightarrow>
    assign fits (Suc d) p (k # ks) (seen, m) = (True, seen', m'[k := Some p])"
  by simp

lemma assign_stuck: "\<not> seen ! k \<Longrightarrow> fits p k \<Longrightarrow> m ! k = Some q \<Longrightarrow>
    assign fits d q [0..<length m] (seen[k := True], m) = (False, seen', m') \<Longrightarrow>
    assign fits (Suc d) p (k # ks) (seen, m) = assign fits (Suc d) p ks (seen', m')"
  by simp

declare assign.simps(2) [simp del]

lemma assign_induct [consumes 1, case_names Nil Skip Free Spent Moved Stuck]:
  fixes P :: "nat \<Rightarrow> nat \<Rightarrow> nat list \<Rightarrow> bool list \<Rightarrow> matching \<Rightarrow> bool \<Rightarrow> bool list \<Rightarrow> matching \<Rightarrow> bool"
  assumes "assign fits d p ks (seen, m) = (ok, seen', m')"
    and "\<And>d p seen m. P d p [] seen m False seen m"
    and "\<And>d p k ks seen m ok seen' m'. seen ! k \<or> \<not> fits p k \<Longrightarrow> assign fits d p ks (seen, m) = (ok, seen', m') \<Longrightarrow>
      P d p ks seen m ok seen' m' \<Longrightarrow> P d p (k # ks) seen m ok seen' m'"
    and "\<And>d p k ks seen m. \<not> seen ! k \<Longrightarrow> fits p k \<Longrightarrow> m ! k = None \<Longrightarrow> P d p (k # ks) seen m True (seen[k := True]) (m[k := Some p])"
    and "\<And>p k ks seen m q. \<not> seen ! k \<Longrightarrow> fits p k \<Longrightarrow> m ! k = Some q \<Longrightarrow> P 0 p (k # ks) seen m False (seen[k := True]) m"
    and "\<And>d p k ks seen m q seen' m'. \<not> seen ! k \<Longrightarrow> fits p k \<Longrightarrow> m ! k = Some q \<Longrightarrow>
      assign fits d q [0..<length m] (seen[k := True], m) = (True, seen', m') \<Longrightarrow>
      P d q [0..<length m] (seen[k := True]) m True seen' m' \<Longrightarrow> P (Suc d) p (k # ks) seen m True seen' (m'[k := Some p])"
    and "\<And>d p k ks seen m q seen1 m1 ok seen' m'. \<not> seen ! k \<Longrightarrow> fits p k \<Longrightarrow> m ! k = Some q \<Longrightarrow>
      assign fits d q [0..<length m] (seen[k := True], m) = (False, seen1, m1) \<Longrightarrow>
      assign fits (Suc d) p ks (seen1, m1) = (ok, seen', m') \<Longrightarrow>
      P d q [0..<length m] (seen[k := True]) m False seen1 m1 \<Longrightarrow> P (Suc d) p ks seen1 m1 ok seen' m' \<Longrightarrow>
      P (Suc d) p (k # ks) seen m ok seen' m'"
  shows "P d p ks seen m ok seen' m'"
  using assms(1)
proof (induction d arbitrary: p ks seen m ok seen' m')
  case 0
  then show ?case
  proof (induction ks arbitrary: seen m)
    case Nil
    then show ?case using assms(2) by simp
  next
    case (Cons k ks)
    consider (skip) "seen ! k \<or> \<not> fits p k" | (free) "\<not> seen ! k" "fits p k" "m ! k = None"
      | (held) q where "\<not> seen ! k" "fits p k" "m ! k = Some q" by fastforce
    then show ?case
    proof cases
      case skip
      then have eq: "assign fits 0 p ks (seen, m) = (ok, seen', m')" using Cons.prems assign_skip by metis
      show ?thesis by (rule assms(3) [OF skip eq Cons.IH [OF eq]])
    next
      case free
      then have "assign fits (0) p (k # ks) (seen, m) = (True, seen[k := True], m[k := Some p])" by (intro assign_free)
      then show ?thesis using Cons.prems assms(4) [of seen k p m, OF free] by simp
    next
      case held
      then have "assign fits 0 p (k # ks) (seen, m) = (False, seen[k := True], m)" by (intro assign_spent)
      then show ?thesis using Cons.prems assms(5) [of seen k p m q, OF held] by simp
    qed
  qed
next
  case (Suc d)
  show ?case using Suc.prems
  proof (induction ks arbitrary: seen m)
    case Nil
    then show ?case using assms(2) by simp
  next
    case (Cons k ks)
    consider (skip) "seen ! k \<or> \<not> fits p k" | (free) "\<not> seen ! k" "fits p k" "m ! k = None"
      | (held) q where "\<not> seen ! k" "fits p k" "m ! k = Some q" by fastforce
    then show ?case
    proof cases
      case skip
      then have eq: "assign fits (Suc d) p ks (seen, m) = (ok, seen', m')" using Cons.prems assign_skip by metis
      show ?thesis by (rule assms(3) [OF skip eq Cons.IH [OF eq]])
    next
      case free
      then have "assign fits (Suc d) p (k # ks) (seen, m) = (True, seen[k := True], m[k := Some p])" by (intro assign_free)
      then show ?thesis using Cons.prems assms(4) [of seen k p m, OF free] by simp
    next
      case held
      obtain ok1 seen1 m1 where r: "assign fits d q [0..<length m] (seen[k := True], m) = (ok1, seen1, m1)"
        by (metis prod_cases3)
      have ih: "P d q [0..<length m] (seen[k := True]) m ok1 seen1 m1" by (rule Suc.IH [OF r])
      show ?thesis
      proof (cases ok1)
        case True
        then have "assign fits (Suc d) p (k # ks) (seen, m) = (True, seen1, m1[k := Some p])"
          using held r by (intro assign_moved) simp_all
        then show ?thesis using Cons.prems assms(6) [of seen k p m q d seen1 m1, OF held] ih r True by simp
      next
        case False
        then have "assign fits (Suc d) p (k # ks) (seen, m) = assign fits (Suc d) p ks (seen1, m1)"
          using held r by (intro assign_stuck) simp_all
        then have rest: "assign fits (Suc d) p ks (seen1, m1) = (ok, seen', m')" using Cons.prems by simp
        show ?thesis using assms(7) [of seen k p m q d seen1 m1 ks ok seen' m', OF held] ih r rest False Cons.IH [OF rest] by simp
      qed
    qed
  qed
qed

lemma unmarked_other: "\<not> seen ! k \<Longrightarrow> seen ! j \<Longrightarrow> xs[k := v] ! j = xs ! j"
  by (cases "j = k") simp_all

lemma assign_frame:
  assumes "assign fits d p ks (seen, m) = (ok, seen', m')"
  shows "length seen = length m \<Longrightarrow> length m' = length m \<and> length seen' = length m \<and>
    (\<forall>k<length m. seen ! k \<longrightarrow> seen' ! k \<and> m' ! k = m ! k) \<and> (\<not> ok \<longrightarrow> m' = m)"
  using assms
proof (induction d p ks seen m ok seen' m' rule: assign_induct)
  case (Moved d p k ks seen m q seen' m')
  then have ih: "length m' = length m" "length seen' = length m"
    "\<forall>j<length m. seen[k := True] ! j \<longrightarrow> seen' ! j \<and> m' ! j = m ! j" by simp_all
  have "seen' ! j \<and> m'[k := Some p] ! j = m ! j" if "j < length m" "seen ! j" for j
  proof -
    have "j \<noteq> k" using Moved(1) that by blast
    then show ?thesis using ih(3) that by simp
  qed
  then show ?case using ih by simp
next
  case (Stuck d p k ks seen m q seen1 m1 ok seen' m')
  then have ih: "length seen1 = length m" "m1 = m" "\<forall>j<length m. seen[k := True] ! j \<longrightarrow> seen1 ! j" by simp_all
  have "seen' ! j \<and> m' ! j = m ! j" if "j < length m" "seen ! j" for j
  proof -
    have "j \<noteq> k" using Stuck(1) that by blast
    then show ?thesis using ih that Stuck by simp
  qed
  then show ?case using ih Stuck by simp
next
  case (Free d p k ks seen m)
  then show ?case by (simp add: unmarked_other)
next
  case (Spent p k ks seen m q)
  then show ?case by (simp add: unmarked_other)
qed simp_all

text \<open>A success places the player and moves the others: one slot more is taken, by players that fit.\<close>

definition fitting :: "(nat \<Rightarrow> nat \<Rightarrow> bool) \<Rightarrow> matching \<Rightarrow> bool" where
  "fitting fits m \<longleftrightarrow> (\<forall>k<length m. \<forall>q. m ! k = Some q \<longrightarrow> fits q k)"

lemma assign_success:
  assumes "assign fits d p ks (seen, m) = (ok, seen', m')"
  shows "ok \<Longrightarrow> length seen = length m \<Longrightarrow> (\<forall>j\<in>set ks. j < length m) \<Longrightarrow> fitting fits m \<Longrightarrow>
    fitting fits m' \<and> add_mset None (mset m') = add_mset (Some p) (mset m)"
  using assms
proof (induction d p ks seen m ok seen' m' rule: assign_induct)
  case (Free d p k ks seen m)
  then have k: "k < length m" by simp
  have "None \<in># mset m" using k Free(3) by (metis nth_mem_mset)
  then show ?case using Free k by (auto simp: fitting_def nth_list_update mset_update)
next
  case (Moved d p k ks seen m q seen' m')
  have k: "k < length m" using Moved.prems by simp
  have fr: "length m' = length m" "m' ! k = Some q"
    using assign_frame [OF Moved(4)] Moved(3) Moved.prems k by auto
  have ih: "fitting fits m'" "add_mset None (mset m') = add_mset (Some q) (mset m)"
    using Moved.IH Moved.prems by auto
  have "mset (m'[k := Some p]) = add_mset (Some p) (mset m' - {#Some q#})" using fr k by (simp add: mset_update)
  moreover have "Some q \<in># mset m'" using fr k by (metis nth_mem_mset)
  ultimately have "add_mset (Some q) (mset (m'[k := Some p])) = add_mset (Some p) (mset m')" by simp
  then have "add_mset (Some q) (add_mset None (mset (m'[k := Some p]))) = add_mset (Some q) (add_mset (Some p) (mset m))"
    using ih(2) by (metis add_mset_commute)
  then show ?case using ih(1) Moved(2) fr(1) k by (auto simp: fitting_def nth_list_update)
next
  case (Stuck d p k ks seen m q seen1 m1 ok seen' m')
  have fr: "m1 = m" "length seen1 = length m" using assign_frame [OF Stuck(4)] Stuck.prems by auto
  show ?case using Stuck.IH(2) Stuck.prems fr by simp
qed auto

text \<open>
  A set of slots is closed when each is held by a player who fits no slot outside it. A success leaves
  a closed set alone; a failure closes the set of the marked slots.
\<close>

definition closedSlots :: "(nat \<Rightarrow> nat \<Rightarrow> bool) \<Rightarrow> nat set \<Rightarrow> matching \<Rightarrow> bool" where
  "closedSlots fits S m \<longleftrightarrow> (\<forall>k\<in>S. k < length m \<and> (\<exists>q. m ! k = Some q \<and> (\<forall>j<length m. fits q j \<longrightarrow> j \<in> S)))"

lemma assign_inside_closed:
  assumes "assign fits d p ks (seen, m) = (ok, seen', m')"
  shows "closedSlots fits S m \<Longrightarrow> length seen = length m \<Longrightarrow> (\<forall>j\<in>set ks. j < length m) \<Longrightarrow>
    (\<forall>k\<in>set ks. fits p k \<longrightarrow> k \<in> S) \<Longrightarrow> \<not> ok"
  using assms
proof (induction d p ks seen m ok seen' m' rule: assign_induct)
  case (Free d p k ks seen m)
  then have "k \<in> S" by simp
  then show ?case using Free(3,4) by (auto simp: closedSlots_def)
next
  case (Moved d p k ks seen m q seen' m')
  then have "k \<in> S" by simp
  then have "\<forall>j<length m. fits q j \<longrightarrow> j \<in> S" using Moved(3) Moved.prems(1) by (fastforce simp: closedSlots_def)
  then show ?case using Moved.IH Moved.prems by auto
next
  case (Stuck d p k ks seen m q seen1 m1 ok seen' m')
  have fr: "m1 = m" "length seen1 = length m" using assign_frame [OF Stuck(4)] Stuck.prems by auto
  then show ?case using Stuck.IH(2) Stuck.prems by simp
qed simp_all

lemma assign_keeps_closed:
  assumes "assign fits d p ks (seen, m) = (ok, seen', m')"
  shows "closedSlots fits S m \<Longrightarrow> length seen = length m \<Longrightarrow> (\<forall>j\<in>set ks. j < length m) \<Longrightarrow> \<forall>k\<in>S. m' ! k = m ! k"
  using assms
proof (induction d p ks seen m ok seen' m' rule: assign_induct)
  case (Free d p k ks seen m)
  then have "k \<notin> S" by (auto simp: closedSlots_def)
  then show ?case by (metis nth_list_update_neq)
next
  case (Moved d p k ks seen m q seen' m')
  have "k \<notin> S"
  proof
    assume "k \<in> S"
    then have "\<forall>j<length m. fits q j \<longrightarrow> j \<in> S" using Moved(3) Moved.prems(1) by (fastforce simp: closedSlots_def)
    then show False using assign_inside_closed [OF Moved(4) Moved.prems(1)] Moved.prems(2) by auto
  qed
  then show ?case using Moved.IH Moved.prems by auto (metis nth_list_update_neq)
next
  case (Stuck d p k ks seen m q seen1 m1 ok seen' m')
  have fr: "m1 = m" "length seen1 = length m" using assign_frame [OF Stuck(4)] Stuck.prems by auto
  then show ?case using Stuck.IH(2) Stuck.prems by simp
qed simp_all

definition marked :: "bool list \<Rightarrow> nat set" where
  "marked seen = {k. k < length seen \<and> seen ! k}"

lemma marked_simps:
  "finite (marked seen)" "card (marked seen) \<le> length seen"
  "k < length seen \<Longrightarrow> marked (seen[k := True]) = insert k (marked seen)"
proof -
  have sub: "marked seen \<subseteq> {..<length seen}" by (auto simp: marked_def)
  show "finite (marked seen)" by (rule finite_subset [OF sub]) simp
  show "card (marked seen) \<le> length seen" using card_mono [OF _ sub] by simp
  show "marked (seen[k := True]) = insert k (marked seen)" if "k < length seen"
    using that by (auto simp: marked_def nth_list_update)
qed

lemma assign_failure:
  assumes "assign fits d p ks (seen, m) = (ok, seen', m')"
  shows "\<not> ok \<Longrightarrow> length seen = length m \<Longrightarrow> (\<forall>j\<in>set ks. j < length m) \<Longrightarrow> length m \<le> card (marked seen) + d \<Longrightarrow>
    (\<forall>k\<in>set ks. fits p k \<longrightarrow> k \<in> marked seen') \<and>
    (\<forall>k\<in>marked seen' - marked seen. \<exists>q. m ! k = Some q \<and> (\<forall>j<length m. fits q j \<longrightarrow> j \<in> marked seen'))"
  using assms
proof (induction d p ks seen m ok seen' m' rule: assign_induct)
  case (Nil d p seen m)
  then show ?case by simp
next
  case (Skip d p k ks seen m ok seen' m')
  then have "seen ! k \<Longrightarrow> k \<in> marked seen'" using assign_frame [OF Skip(2)] by (auto simp: marked_def)
  then show ?case using Skip by auto
next
  case (Spent p k ks seen m q)
  have "marked seen \<subseteq> {..<length m} - {k}" using Spent by (auto simp: marked_def)
  then have "card (marked seen) \<le> card ({..<length m} - {k})" by (rule card_mono [rotated]) simp
  moreover have "card ({..<length m} - {k}) = length m - 1" "1 \<le> length m" using Spent.prems by auto
  ultimately show ?case using Spent.prems by simp
next
  case (Stuck d p k ks seen m q seen1 m1 ok seen' m')
  have k: "k < length m" using Stuck.prems by simp
  have fr: "m1 = m" "length seen1 = length m" "\<forall>j<length m. seen[k := True] ! j \<longrightarrow> seen1 ! j"
    using assign_frame [OF Stuck(4)] Stuck.prems by auto
  have fr2: "length seen' = length m" "\<forall>j<length m. seen1 ! j \<longrightarrow> seen' ! j"
    using assign_frame [OF Stuck(5)] fr(1,2) by auto
  have grow: "insert k (marked seen) \<subseteq> marked seen1" "marked seen1 \<subseteq> marked seen'"
    using fr fr2 k Stuck.prems(2) by (auto simp: marked_def nth_list_update split: if_splits)
  have knew: "k \<notin> marked seen" using Stuck(1) by (simp add: marked_def)
  have "length m \<le> card (marked (seen[k := True])) + d"
    using Stuck.prems k knew by (simp add: marked_simps)
  then have ih1: "\<forall>j\<in>{0..<length m}. fits q j \<longrightarrow> j \<in> marked seen1"
    "\<forall>j\<in>marked seen1 - insert k (marked seen). \<exists>q. m ! j = Some q \<and> (\<forall>i<length m. fits q i \<longrightarrow> i \<in> marked seen1)"
    using Stuck.IH(1) Stuck.prems k by (simp_all add: marked_simps)
  have "card (marked seen) \<le> card (marked seen1)" by (rule card_mono) (use grow in \<open>auto simp: marked_simps\<close>)
  then have "length m1 \<le> card (marked seen1) + Suc d" using Stuck.prems fr(1) by simp
  then have ih2: "\<forall>j\<in>set ks. fits p j \<longrightarrow> j \<in> marked seen'"
    "\<forall>j\<in>marked seen' - marked seen1. \<exists>q. m ! j = Some q \<and> (\<forall>i<length m. fits q i \<longrightarrow> i \<in> marked seen')"
    using Stuck.IH(2) Stuck.prems fr by simp_all
  have first: "\<forall>j\<in>set (k # ks). fits p j \<longrightarrow> j \<in> marked seen'" using ih2(1) grow by auto
  have "\<exists>q. m ! j = Some q \<and> (\<forall>i<length m. fits q i \<longrightarrow> i \<in> marked seen')" if j: "j \<in> marked seen' - marked seen" for j
  proof -
    consider "j = k" | "j \<in> marked seen1 - insert k (marked seen)" | "j \<in> marked seen' - marked seen1" using j by blast
    then show ?thesis
    proof cases
      case 1
      then show ?thesis using Stuck(3) ih1(1) grow(2) by auto
    next
      case 2
      then show ?thesis using ih1(2) grow(2) by blast
    next
      case 3
      then show ?thesis using ih2(2) by blast
    qed
  qed
  then show ?case using first by blast
qed simp_all

section \<open>The matcher is maximal\<close>

text \<open>An assignment of some of the players to different slots they fit.\<close>

definition assignment :: "(nat \<Rightarrow> nat \<Rightarrow> bool) \<Rightarrow> nat \<Rightarrow> nat \<Rightarrow> nat set \<Rightarrow> (nat \<Rightarrow> nat) \<Rightarrow> bool" where
  "assignment fits slots players A f \<longleftrightarrow> A \<subseteq> {..<players} \<and> inj_on f A \<and> (\<forall>p\<in>A. f p < slots \<and> fits p (f p))"

definition placed :: "matching \<Rightarrow> nat set" where
  "placed m = {p. Some p \<in> set m}"

text \<open>
  What the matcher keeps: the matching is legal, its players are those seen so far minus the rejected
  ones, and the rejected ones only fit slots of a closed set.
\<close>

definition fillInv :: "(nat \<Rightarrow> nat \<Rightarrow> bool) \<Rightarrow> nat \<Rightarrow> nat \<Rightarrow> matching \<Rightarrow> nat \<Rightarrow> bool" where
  "fillInv fits slots seenPlayers m filled \<longleftrightarrow> length m = slots \<and> fitting fits m \<and>
     (\<forall>p. count (mset m) (Some p) \<le> 1) \<and> placed m \<subseteq> {..<seenPlayers} \<and> card (placed m) = filled \<and>
     (\<exists>S. closedSlots fits S m \<and> (\<forall>p<seenPlayers. p \<notin> placed m \<longrightarrow> (\<forall>k<slots. fits p k \<longrightarrow> k \<in> S)))"

lemma placed_simps: "finite (placed m)" "p \<in> placed m \<longleftrightarrow> (\<exists>k<length m. m ! k = Some p)"
proof -
  have "placed m \<subseteq> the ` set m" by (force simp: placed_def)
  then show "finite (placed m)" by (rule finite_subset) simp
  show "p \<in> placed m \<longleftrightarrow> (\<exists>k<length m. m ! k = Some p)" by (auto simp: placed_def in_set_conv_nth)
qed

lemma closedSlots_union: "closedSlots fits S m \<Longrightarrow> closedSlots fits T m \<Longrightarrow> closedSlots fits (S \<union> T) m"
  unfolding closedSlots_def by blast

lemma fillInv_step:
  assumes "fillInv fits slots p m filled" "placePlayer fits p (m, filled) = (m', filled')"
  shows "fillInv fits slots (Suc p) m' filled'"
proof -
  obtain S where len: "length m = slots" and fit: "fitting fits m" and once: "\<forall>q. count (mset m) (Some q) \<le> 1"
    and below: "placed m \<subseteq> {..<p}" and size': "card (placed m) = filled"
    and S: "closedSlots fits S m" "\<forall>q<p. q \<notin> placed m \<longrightarrow> (\<forall>k<slots. fits q k \<longrightarrow> k \<in> S)"
    using assms(1) unfolding fillInv_def by blast
  obtain ok seen' m1 where r: "assign fits (length m) p [0..<length m] (replicate (length m) False, m) = (ok, seen', m1)"
    by (metis prod_cases3)
  have m': "m' = m1" "filled' = (if ok then filled + 1 else filled)"
    using assms(2) r by (cases ok; auto simp: placePlayer_def)+
  have fr: "length m1 = length m" "\<not> ok \<Longrightarrow> m1 = m" using assign_frame [OF r] by auto
  show ?thesis
  proof (cases ok)
    case True
    have new: "fitting fits m1" "add_mset None (mset m1) = add_mset (Some p) (mset m)"
      using assign_success [OF r] True fit by auto
    have cnt: "count (mset m1) (Some q) = count (mset m) (Some q) + (if q = p then 1 else 0)" for q
      using arg_cong [OF new(2), of "\<lambda>M. count M (Some q)"] by simp
    have pl: "placed m1 = insert p (placed m)"
    proof -
      have mem: "q \<in> placed m1 \<longleftrightarrow> 0 < count (mset m1) (Some q)" "q \<in> placed m \<longleftrightarrow> 0 < count (mset m) (Some q)" for q
        by (simp_all add: placed_def count_greater_zero_iff)
      have "q \<in> placed m1 \<longleftrightarrow> q = p \<or> q \<in> placed m" for q
        unfolding mem cnt by (metis add_gr_0 add.right_neutral zero_less_one)
      then show ?thesis by blast
    qed
    have "count (mset m) (Some p) = 0" using below by (auto simp: placed_def count_eq_zero_iff)
    then have "\<forall>q. count (mset m1) (Some q) \<le> 1" using cnt once by simp
    moreover have "p \<notin> placed m" using below by auto
    then have "card (placed m1) = filled + 1" using pl size' by (simp add: placed_simps(1))
    moreover have "closedSlots fits S m1"
      using S(1) assign_keeps_closed [OF r S(1)] fr(1) by (simp add: closedSlots_def)
    moreover have "\<forall>q<Suc p. q \<notin> placed m1 \<longrightarrow> (\<forall>k<slots. fits q k \<longrightarrow> k \<in> S)" using S(2) pl by (simp add: less_Suc_eq)
    moreover have "placed m1 \<subseteq> {..<Suc p}" using pl below by (auto simp: less_Suc_eq)
    ultimately have "fillInv fits slots (Suc p) m1 (filled + 1)" using new(1) len fr(1) unfolding fillInv_def by blast
    then show ?thesis using True m' by simp
  next
    case False
    define M where "M = marked seen'"
    have none: "marked (replicate (length m) False) = {}" by (simp add: marked_def)
    have M: "\<forall>k<length m. fits p k \<longrightarrow> k \<in> M" "\<forall>k\<in>M. \<exists>q. m ! k = Some q \<and> (\<forall>j<length m. fits q j \<longrightarrow> j \<in> M)"
      using assign_failure [OF r] False unfolding none M_def by auto
    have "M \<subseteq> {..<length m}" using assign_frame [OF r] by (auto simp: M_def marked_def)
    then have "closedSlots fits M m" using M(2) by (auto simp: closedSlots_def)
    then have closed: "closedSlots fits (S \<union> M) m" using S(1) by (simp add: closedSlots_union)
    have "\<forall>q<Suc p. q \<notin> placed m \<longrightarrow> (\<forall>k<slots. fits q k \<longrightarrow> k \<in> S \<union> M)"
      using S(2) M(1) len by (simp add: less_Suc_eq)
    then have ex: "\<exists>S. closedSlots fits S m \<and> (\<forall>q<Suc p. q \<notin> placed m \<longrightarrow> (\<forall>k<slots. fits q k \<longrightarrow> k \<in> S))"
      using closed by (intro exI [of _ "S \<union> M"] conjI)
    have "placed m \<subseteq> {..<Suc p}" using below by (auto simp: less_Suc_eq)
    then have "fillInv fits slots (Suc p) m filled" using fit once size' len ex by (simp only: fillInv_def) simp
    then show ?thesis using False m' fr(2) by simp
  qed
qed

lemma fillInv_run:
  "fold (placePlayer fits) [0..<n] (replicate slots None, 0) = (m, filled) \<Longrightarrow> fillInv fits slots n m filled"
proof (induction n arbitrary: m filled)
  case 0
  have "closedSlots fits {} (replicate slots None)" by (simp add: closedSlots_def)
  then show ?case using 0 by (auto simp: fillInv_def fitting_def placed_def)
next
  case (Suc n)
  obtain m1 f1 where "fold (placePlayer fits) [0..<n] (replicate slots None, 0) = (m1, f1)" by fastforce
  then show ?case using Suc fillInv_step by simp
qed

lemma held_once:
  assumes "\<forall>q. count (mset m) (Some q) \<le> 1" "i < length m" "j < length m" "m ! i = Some q" "m ! j = Some q"
  shows "i = j"
proof -
  have "count (mset m) (Some q) = card {k. k < length m \<and> Some q = m ! k}"
    by (simp add: count_mset count_list_eq_length_filter length_filter_conv_card)
  then have "card {k. k < length m \<and> Some q = m ! k} \<le> Suc 0" using assms(1) by (metis One_nat_def)
  then show ?thesis using assms(2-5) by (subst (asm) card_le_Suc0_iff_eq) auto
qed

lemma fillInv_upper:
  assumes "fillInv fits slots n m filled" "assignment fits slots n A f"
  shows "card A \<le> filled"
proof -
  obtain S where len: "length m = slots" and once: "\<forall>q. count (mset m) (Some q) \<le> 1" and size': "card (placed m) = filled"
    and S: "closedSlots fits S m" "\<forall>q<n. q \<notin> placed m \<longrightarrow> (\<forall>k<slots. fits q k \<longrightarrow> k \<in> S)"
    using assms(1) unfolding fillInv_def by blast
  define onS where "onS = (\<lambda>k. the (m ! k)) ` S"
  have finS: "finite S" using S(1) by (auto simp: closedSlots_def intro: finite_subset [of S "{..<length m}"])
  have held: "\<exists>q. m ! k = Some q" if "k \<in> S" for k using S(1) that by (auto simp: closedSlots_def)
  have "inj_on (\<lambda>k. the (m ! k)) S"
  proof (rule inj_onI)
    fix i j assume ij: "i \<in> S" "j \<in> S" "the (m ! i) = the (m ! j)"
    then obtain q where "m ! i = Some q" "m ! j = Some q" using held by force
    moreover have "i < length m" "j < length m" using S(1) ij by (auto simp: closedSlots_def)
    ultimately show "i = j" using held_once [OF once] by blast
  qed
  then have cS: "card onS = card S" unfolding onS_def by (rule card_image)
  have sub: "onS \<subseteq> placed m" using S(1) by (fastforce simp: onS_def placed_simps(2) closedSlots_def)
  define B where "B = A \<inter> {q. q \<notin> placed m \<or> q \<in> onS}"
  have A: "A \<subseteq> {..<n}" "inj_on f A" "\<forall>p\<in>A. f p < slots \<and> fits p (f p)" using assms(2) by (simp_all add: assignment_def)
  have "f ` B \<subseteq> S"
  proof
    fix k assume "k \<in> f ` B"
    then obtain q where q: "q \<in> A" "k = f q" "q \<notin> placed m \<or> q \<in> onS" by (auto simp: B_def)
    then have k: "k < slots" "fits q k" "q < n" using A by auto
    show "k \<in> S"
    proof (cases "q \<in> placed m")
      case False
      then show ?thesis using S(2) k by blast
    next
      case True
      then obtain i where "i \<in> S" "q = the (m ! i)" using q(3) by (auto simp: onS_def)
      then have "\<forall>j<length m. fits q j \<longrightarrow> j \<in> S" using S(1) by (fastforce simp: closedSlots_def)
      then show ?thesis using k len by simp
    qed
  qed
  moreover have "inj_on f B" using A(2) by (auto simp: B_def intro: inj_on_subset)
  ultimately have cB: "card B \<le> card S" using finS by (metis card_image card_mono)
  have "A - B \<subseteq> placed m - onS" by (auto simp: B_def)
  then have "card (A - B) \<le> card (placed m) - card onS"
    using card_mono [of "placed m - onS" "A - B"] sub by (simp add: placed_simps(1) card_Diff_subset finite_subset)
  moreover have "card onS \<le> card (placed m)" using sub by (simp add: card_mono placed_simps(1))
  moreover have "card A = card B + card (A - B)"
  proof -
    have "finite A" using A(1) finite_subset by blast
    then show ?thesis by (metis B_def Int_lower1 card_Diff_subset card_mono finite_subset le_add_diff_inverse)
  qed
  ultimately show ?thesis using cB cS size' by linarith
qed

lemma fillInv_reached:
  assumes "fillInv fits slots n m filled"
  shows "\<exists>A f. assignment fits slots n A f \<and> card A = filled"
proof -
  have len: "length m = slots" and fit: "fitting fits m" and below: "placed m \<subseteq> {..<n}" and size': "card (placed m) = filled"
    using assms by (simp_all add: fillInv_def)
  define f where "f p = (SOME k. k < length m \<and> m ! k = Some p)" for p
  have f: "f p < length m \<and> m ! f p = Some p" if "p \<in> placed m" for p
    unfolding f_def by (rule someI_ex) (use that in \<open>simp add: placed_simps(2)\<close>)
  have "inj_on f (placed m)" by (rule inj_onI) (metis f option.inject)
  moreover have "\<forall>p\<in>placed m. f p < slots \<and> fits p (f p)" using f fit len by (auto simp: fitting_def)
  ultimately have "assignment fits slots n (placed m) f" using below by (simp add: assignment_def)
  then show ?thesis using size' by blast
qed

lemma maximumFill_correct:
  "(\<exists>A f. assignment fits slots n A f \<and> card A = maximumFill fits slots n) \<and>
   (\<forall>A f. assignment fits slots n A f \<longrightarrow> card A \<le> maximumFill fits slots n)"
proof -
  obtain m filled where run: "fold (placePlayer fits) [0..<n] (replicate slots None, 0) = (m, filled)" by fastforce
  then have "maximumFill fits slots n = filled" by (simp add: maximumFill_def)
  moreover note inv = fillInv_run [OF run]
  ultimately show ?thesis using fillInv_reached [OF inv] fillInv_upper [OF inv] by blast
qed

section \<open>The starters of a roster\<close>

text \<open>An assignment of some of the players, by index, to different starting slots that fit them.\<close>

definition lineupAssignment :: "player list \<Rightarrow> roster_preset \<Rightarrow> nat set \<Rightarrow> (nat \<Rightarrow> nat) \<Rightarrow> bool" where
  "lineupAssignment players preset A f \<longleftrightarrow> A \<subseteq> {..<length players} \<and> inj_on f A \<and>
     (\<forall>p\<in>A. f p < length (lineupSlots preset) \<and>
        slotFits (siDef (lineupSlots preset ! f p)) (playerPosition (players ! p)))"

lemma lineupAssignment_alt:
  "lineupAssignment players preset A f =
   assignment (playerFits players (lineupSlots preset)) (length (lineupSlots preset)) (length players) A f"
  by (simp add: lineupAssignment_def assignment_def playerFits_def)

text \<open>
  C7: The draft's matcher is a maximum matcher: the number it returns is the size of some assignment of
  the roster's players to different slots they are eligible for, and no assignment fills more slots.
\<close>

theorem starter_fill_is_maximum:
  "(\<exists>A f. lineupAssignment players preset A f \<and> int (card A) = maximumDraftStarterFill players preset) \<and>
   (\<forall>A f. lineupAssignment players preset A f \<longrightarrow> int (card A) \<le> maximumDraftStarterFill players preset)"
  using maximumFill_correct [of "playerFits players (lineupSlots preset)" "length (lineupSlots preset)" "length players"]
  unfolding lineupAssignment_alt maximumDraftStarterFill_def Let_def of_nat_eq_iff of_nat_le_iff .

definition draftPlayer :: "player_id \<Rightarrow> string \<Rightarrow> player" where
  "draftPlayer p position = zeroPlayer\<lparr>playerID := p, playerName := p, playerPosition := position\<rparr>"

definition draftPreset :: roster_preset where
  "draftPreset = \<lparr>presetSlots = [(''RB'', 1), (''WR'', 1), (''FLEX'', 1)], presetBench = 1, presetReserve = [],
     presetIR = 0, presetLimits = []\<rparr>"

theorem starter_fill_is_maximum_witness:
  "maximumDraftStarterFill [draftPlayer ''r1'' ''RB'', draftPlayer ''r2'' ''RB'', draftPlayer ''r3'' ''RB'',
      draftPlayer ''w1'' ''WR''] draftPreset = 3 \<and>
   \<not> lineupAssignment [draftPlayer ''r1'' ''RB'', draftPlayer ''r2'' ''RB'', draftPlayer ''r3'' ''RB'',
      draftPlayer ''w1'' ''WR''] draftPreset {0, 1, 2, 3} id"
proof -
  have "maximumDraftStarterFill [draftPlayer ''r1'' ''RB'', draftPlayer ''r2'' ''RB'', draftPlayer ''r3'' ''RB'',
      draftPlayer ''w1'' ''WR''] draftPreset = 3" by code_simp
  then show ?thesis
    using starter_fill_is_maximum [of "[draftPlayer ''r1'' ''RB'', draftPlayer ''r2'' ''RB'', draftPlayer ''r3'' ''RB'',
      draftPlayer ''w1'' ''WR'']" draftPreset] by fastforce
qed

lemma starter_fill_bounds: "0 \<le> maximumDraftStarterFill players preset"
  "maximumDraftStarterFill players preset \<le> int (length players)"
proof -
  show "0 \<le> maximumDraftStarterFill players preset" by (simp add: maximumDraftStarterFill_def Let_def)
  obtain A f where "lineupAssignment players preset A f" "int (card A) = maximumDraftStarterFill players preset"
    using maximumFill_correct [of "playerFits players (lineupSlots preset)" "length (lineupSlots preset)" "length players"]
    unfolding lineupAssignment_alt maximumDraftStarterFill_def Let_def of_nat_eq_iff by blast
  moreover have "card A \<le> card {..<length players}"
    by (rule card_mono) (use calculation in \<open>auto simp: lineupAssignment_def\<close>)
  ultimately show "maximumDraftStarterFill players preset \<le> int (length players)" by simp
qed

end
