(* ===== verification/Lineups.thy ===== *)
theory Lineups
  imports DraftFill
begin

text \<open>
  The starting lineup of a week (src/internal/league/lineup.go): how it is resolved from the stored slots
  and the roster, the automatic fill, the Store's lineup writes (store.go) and the manager's actions. A
  stored week is an association list from slot to player with distinct keys, the automatic markers a list
  of slots. The texts an action answers with are left out.
\<close>

section \<open>Candidates for a slot\<close>

definition slotWarnsBye :: "player \<Rightarrow> int \<Rightarrow> bool" where
  "slotWarnsBye p week = (playerByeWeek p = week)"

definition injuryWarnPrefixes :: "string list" where
  "injuryWarnPrefixes = [''Out'', ''IR'', ''Doubtful'']"

definition slotWarnsInjury :: "player \<Rightarrow> bool" where
  "slotWarnsInjury p =
     (let injury = trimSpace (playerInjury p) in
      injury \<noteq> [] \<and> list_ex (\<lambda>prefix. length injury \<ge> length prefix \<and>
        toUpper (take (length prefix) injury) = toUpper prefix) injuryWarnPrefixes)"

definition betterFill :: "player \<Rightarrow> player \<Rightarrow> bool" where
  "betterFill p best \<longleftrightarrow> playerProjection p > playerProjection best \<or>
     (playerProjection p = playerProjection best \<and> playerID p < playerID best)"

definition bestAutoFillCandidate :: "player list \<Rightarrow> int \<Rightarrow> player option" where
  "bestAutoFillCandidate candidates week =
     (let clean = filter (\<lambda>p. \<not> slotWarnsBye p week \<and> \<not> slotWarnsInjury p) candidates in
      case (if clean = [] then candidates else clean) of
        [] \<Rightarrow> None
      | p # ps \<Rightarrow> Some (foldl (\<lambda>best q. if betterFill q best then q else best) p ps))"

section \<open>The effective lineup\<close>

record slot_assignment =
  saSlot :: slot_instance
  saPlayer :: "player option"
  saAutoFilled :: bool
  saLocked :: bool
  saWarnBye :: bool
  saWarnInjury :: bool

record effective_lineup =
  elWeek :: int
  elSlots :: "slot_assignment list"
  elBench :: "player list"

type_synonym slot_map = "(string \<times> player_id) list"

definition slotRead :: "slot_map \<Rightarrow> string \<Rightarrow> player_id" where
  "slotRead m slot = (case map_of m slot of None \<Rightarrow> [] | Some p \<Rightarrow> p)"

text \<open>The nearest stored week at or before a week, walking back to week 1.\<close>

fun sourceWeek :: "(int \<Rightarrow> slot_map option) \<Rightarrow> nat \<Rightarrow> (int \<times> slot_map) option" where
  "sourceWeek stored 0 = None"
| "sourceWeek stored (Suc w) =
     (case stored (int (Suc w)) of Some m \<Rightarrow> Some (int (Suc w), m) | None \<Rightarrow> sourceWeek stored w)"

definition explicitSlots :: "(int \<Rightarrow> slot_map option) \<Rightarrow> int \<Rightarrow> slot_map" where
  "explicitSlots stored week = (case sourceWeek stored (nat week) of None \<Rightarrow> [] | Some (w, m) \<Rightarrow> m)"

definition rosterRead :: "player list \<Rightarrow> player_id \<Rightarrow> player option" where
  "rosterRead roster p = find (\<lambda>x. playerID x = p) (rev roster)"

definition emptyAssignment :: "slot_instance \<Rightarrow> slot_assignment" where
  "emptyAssignment s = \<lparr>saSlot = s, saPlayer = None, saAutoFilled = False, saLocked = False, saWarnBye = False, saWarnInjury = False\<rparr>"

definition explicitAssignment :: "player list \<Rightarrow> slot_map \<Rightarrow> slot_instance \<Rightarrow> slot_assignment" where
  "explicitAssignment roster explicit s =
     (let p = slotRead explicit (siID s) in
      if p = [] then emptyAssignment s else (emptyAssignment s)\<lparr>saPlayer := rosterRead roster p\<rparr>)"

definition takenBy :: "slot_assignment list \<Rightarrow> player_id list" where
  "takenBy as = map playerID (List.map_filter saPlayer as)"

fun fillGaps :: "player list \<Rightarrow> int \<Rightarrow> player_id list \<Rightarrow> slot_assignment list \<Rightarrow> slot_assignment list" where
  "fillGaps roster week taken [] = []"
| "fillGaps roster week taken (a # as) =
     (case saPlayer a of
        Some p \<Rightarrow> a # fillGaps roster week taken as
      | None \<Rightarrow>
          (case bestAutoFillCandidate (filter (\<lambda>p. playerID p \<notin> set taken \<and> slotFits (siDef (saSlot a)) (playerPosition p)) roster) week of
             None \<Rightarrow> a # fillGaps roster week taken as
           | Some best \<Rightarrow> a\<lparr>saPlayer := Some best, saAutoFilled := True\<rparr> # fillGaps roster week (playerID best # taken) as))"

definition decorate :: "game_info list \<Rightarrow> int \<Rightarrow> time \<Rightarrow> slot_assignment \<Rightarrow> slot_assignment" where
  "decorate games week now a =
     (case saPlayer a of None \<Rightarrow> a
      | Some p \<Rightarrow> a\<lparr>saLocked := playerLocked games week (playerNFLTeam p) now, saWarnBye := slotWarnsBye p week,
                    saWarnInjury := slotWarnsInjury p\<rparr>)"

definition benchPositionOrder :: "string list" where
  "benchPositionOrder = [''QB'', ''RB'', ''WR'', ''TE'', ''K'', ''DST'']"

definition benchPositionRank :: "string \<Rightarrow> nat" where
  "benchPositionRank position =
     (case indexWhere (\<lambda>p. p = position) benchPositionOrder of None \<Rightarrow> length benchPositionOrder | Some i \<Rightarrow> i)"

definition benchLess :: "player \<Rightarrow> player \<Rightarrow> bool" where
  "benchLess p q =
     (if benchPositionRank (playerPosition p) \<noteq> benchPositionRank (playerPosition q)
      then benchPositionRank (playerPosition p) < benchPositionRank (playerPosition q)
      else if playerProjection p \<noteq> playerProjection q then playerProjection p > playerProjection q
      else playerID p < playerID q)"

definition resolvedSlots :: "roster_preset \<Rightarrow> player list \<Rightarrow> slot_map \<Rightarrow> int \<Rightarrow> slot_assignment list" where
  "resolvedSlots preset roster explicit week =
     (let as = map (explicitAssignment roster explicit) (lineupSlots preset)
      in fillGaps roster week (takenBy as) as)"

definition effectiveLineup :: "roster_preset \<Rightarrow> player list \<Rightarrow> (int \<Rightarrow> slot_map option) \<Rightarrow> int \<Rightarrow> game_info list \<Rightarrow> time \<Rightarrow>
    effective_lineup" where
  "effectiveLineup preset roster stored week games now =
     (let as = resolvedSlots preset roster (explicitSlots stored week) week
      in \<lparr>elWeek = week, elSlots = map (decorate games week now) as,
          elBench = sortStable benchLess (filter (\<lambda>p. playerID p \<notin> set (takenBy as)) roster)\<rparr>)"

definition slotAssignment :: "effective_lineup \<Rightarrow> string \<Rightarrow> slot_assignment option" where
  "slotAssignment l slotID = find (\<lambda>a. siID (saSlot a) = slotID) (elSlots l)"

definition autoFillWeek :: "roster_preset \<Rightarrow> player list \<Rightarrow> effective_lineup \<Rightarrow> int \<Rightarrow> game_info list \<Rightarrow> time \<Rightarrow> slot_map" where
  "autoFillWeek preset roster current week games now =
     (let pinned = List.map_filter (\<lambda>a. case saPlayer a of None \<Rightarrow> None
             | Some p \<Rightarrow> if saLocked a then Some (siID (saSlot a), playerID p) else None) (elSlots current)
      in fst (fold (\<lambda>slot (resolved, taken).
           if map_of resolved (siID slot) \<noteq> None then (resolved, taken)
           else (case bestAutoFillCandidate (filter (\<lambda>p. playerID p \<notin> set taken \<and> slotFits (siDef slot) (playerPosition p)
                        \<and> \<not> playerLocked games week (playerNFLTeam p) now) roster) week of
                   None \<Rightarrow> (resolved, taken)
                 | Some best \<Rightarrow> (AList.update (siID slot) (playerID best) resolved, playerID best # taken)))
           (lineupSlots preset) (pinned, map snd pinned)))"

section \<open>Stored weeks and markers\<close>

definition storedLineupWeek :: "persisted_state \<Rightarrow> team_id \<Rightarrow> int \<Rightarrow> slot_map" where
  "storedLineupWeek st t week = (case lineups st t week of None \<Rightarrow> [] | Some m \<Rightarrow> m)"

definition storedLineupSource :: "persisted_state \<Rightarrow> team_id \<Rightarrow> int \<Rightarrow> int \<times> slot_map" where
  "storedLineupSource st t week = (case sourceWeek (lineups st t) (nat week) of None \<Rightarrow> (0, []) | Some r \<Rightarrow> r)"

definition storedLineupAutoFilledWeek :: "persisted_state \<Rightarrow> team_id \<Rightarrow> int \<Rightarrow> string list" where
  "storedLineupAutoFilledWeek st t week = lineupAutoFilled st t week"

definition storedLineupSourceAutoFilled :: "persisted_state \<Rightarrow> team_id \<Rightarrow> int \<Rightarrow> string list" where
  "storedLineupSourceAutoFilled st t week =
     (let w = fst (storedLineupSource st t week) in if w = 0 then [] else storedLineupAutoFilledWeek st t w)"

definition effectiveLineupWithState :: "roster_preset \<Rightarrow> player list \<Rightarrow> persisted_state \<Rightarrow> team_id \<Rightarrow> int \<Rightarrow> game_info list \<Rightarrow>
    time \<Rightarrow> effective_lineup" where
  "effectiveLineupWithState preset roster st t week games now =
     (let l = effectiveLineup preset roster (lineups st t) week games now;
          source = storedLineupSource st t week;
          markers = storedLineupAutoFilledWeek st t (fst source);
          mark = (\<lambda>a. case saPlayer a of None \<Rightarrow> a
            | Some p \<Rightarrow> if siID (saSlot a) \<in> set markers \<and> slotRead (snd source) (siID (saSlot a)) = playerID p
                       then a\<lparr>saAutoFilled := True\<rparr> else a)
      in if fst source = 0 then l else l\<lparr>elSlots := map mark (elSlots l)\<rparr>)"

definition lineupMapsEqual :: "slot_map \<Rightarrow> slot_map \<Rightarrow> bool" where
  "lineupMapsEqual a b \<longleftrightarrow> length a = length b \<and> list_all (\<lambda>(slot, p). slotRead b slot = p) a"

definition lineupFlagsEqual :: "string list \<Rightarrow> string list \<Rightarrow> bool" where
  "lineupFlagsEqual a b \<longleftrightarrow> length a = length b \<and> list_all (\<lambda>slot. slot \<in> set b) a"

section \<open>Store writes\<close>

datatype lineup_error = LineupUnknownTeam team_id | UnknownLineupWeek int | LineupWeekClosed int
  | WeekNotPublished int | LineupChanged | UnknownSlot string | NotOnYourRoster | SlotMismatch string string
  | LineupLocked player_id | SlotEmpty string | NoLineupTeam | InvalidPosition int

definition putLineup :: "team_id \<Rightarrow> int \<Rightarrow> slot_map \<Rightarrow> persisted_state \<Rightarrow> persisted_state" where
  "putLineup t week m st = st\<lparr>lineups := (lineups st)(t := (lineups st t)(week := Some m))\<rparr>"

definition putMarkers :: "team_id \<Rightarrow> int \<Rightarrow> string list \<Rightarrow> persisted_state \<Rightarrow> persisted_state" where
  "putMarkers t week ms st = st\<lparr>lineupAutoFilled := (lineupAutoFilled st)(t := (lineupAutoFilled st t)(week := ms))\<rparr>"

definition setLineupSlot :: "league_env \<Rightarrow> team_id \<Rightarrow> int \<Rightarrow> string \<Rightarrow> string \<Rightarrow> bool \<Rightarrow> store \<Rightarrow> (store, lineup_error, unit) outcome" where
  "setLineupSlot env t week slot requested ok s =
     (if \<not> knownTeam env t then rejected (LineupUnknownTeam t) s
      else if week < 1 then rejected (UnknownLineupWeek week) s
      else gated s
        (let st = stState s; p = trimSpace requested; m = storedLineupWeek st t week; ms = lineupAutoFilled st t week in
         if lineupWeekFinalLocked st week then rejected (LineupWeekClosed week) s
         else if p = [] then
           commitOnly ok s (putMarkers t week (filter (\<lambda>x. x \<noteq> slot) ms) (putLineup t week (AList.delete slot m) st)) ()
         else (let moved = map fst (filter (\<lambda>(other, q). other \<noteq> slot \<and> q = p) m) in
           commitOnly ok s (putMarkers t week (filter (\<lambda>x. x \<noteq> slot \<and> x \<notin> set moved) ms)
             (putLineup t week (AList.update slot p (filter (\<lambda>(other, q). \<not> (other \<noteq> slot \<and> q = p)) m)) st)) ())))"

definition setLineupWeek :: "league_env \<Rightarrow> team_id \<Rightarrow> int \<Rightarrow> slot_map \<Rightarrow> bool \<Rightarrow> store \<Rightarrow> (store, lineup_error, unit) outcome" where
  "setLineupWeek env t week m ok s =
     (if \<not> knownTeam env t then rejected (LineupUnknownTeam t) s
      else if week < 1 then rejected (UnknownLineupWeek week) s
      else gated s
        (if lineupWeekFinalLocked (stState s) week then rejected (LineupWeekClosed week) s
         else commitOnly ok s (putMarkers t week [] (putLineup t week m (stState s))) ()))"

text \<open>What a guarded write expects to find: the stored week, its source, and the markers of both.\<close>

record lineup_expect =
  lxStored :: slot_map
  lxSource :: "int \<times> slot_map"
  lxAutoFilled :: "string list"
  lxSourceAutoFilled :: "string list"

definition lineupExpect :: "persisted_state \<Rightarrow> team_id \<Rightarrow> int \<Rightarrow> lineup_expect" where
  "lineupExpect st t week = \<lparr>lxStored = storedLineupWeek st t week, lxSource = storedLineupSource st t week,
     lxAutoFilled = storedLineupAutoFilledWeek st t week, lxSourceAutoFilled = storedLineupSourceAutoFilled st t week\<rparr>"

definition expectationMet :: "lineup_expect \<Rightarrow> persisted_state \<Rightarrow> team_id \<Rightarrow> int \<Rightarrow> bool" where
  "expectationMet x st t week \<longleftrightarrow>
     lineupMapsEqual (storedLineupWeek st t week) (lxStored x) \<and>
     fst (storedLineupSource st t week) = fst (lxSource x) \<and>
     lineupMapsEqual (snd (storedLineupSource st t week)) (snd (lxSource x)) \<and>
     lineupFlagsEqual (storedLineupAutoFilledWeek st t week) (lxAutoFilled x) \<and>
     lineupFlagsEqual (storedLineupSourceAutoFilled st t week) (lxSourceAutoFilled x)"

definition setLineupWeekIfUnchanged :: "league_env \<Rightarrow> team_id \<Rightarrow> int \<Rightarrow> lineup_expect \<Rightarrow> slot_map \<Rightarrow> string list \<Rightarrow> bool \<Rightarrow> store \<Rightarrow>
    (store, lineup_error, unit) outcome" where
  "setLineupWeekIfUnchanged env t week x m markers ok s =
     (if \<not> knownTeam env t then rejected (LineupUnknownTeam t) s
      else if week < 1 then rejected (UnknownLineupWeek week) s
      else gated s
        (if \<not> expectationMet x (stState s) t week then rejected LineupChanged s
         else if lineupWeekFinalLocked (stState s) week then rejected (LineupWeekClosed week) s
         else commitOnly ok s (putMarkers t week markers (putLineup t week m (stState s))) ()))"

section \<open>The manager's actions\<close>

definition pickemWeeks :: "game_info list \<Rightarrow> int list" where
  "pickemWeeks games = sort (remdups (filter (\<lambda>w. w > 0) (map gameWeek games)))"

definition lineupWeekForAction :: "int \<Rightarrow> game_info list \<Rightarrow> time \<Rightarrow> lineup_error option" where
  "lineupWeekForAction week games now =
     (if week \<le> 0 \<or> week < lineupCurrentWeekAt games now then Some (LineupWeekClosed week)
      else if games \<noteq> [] \<and> week \<notin> set (pickemWeeks games) then Some (WeekNotPublished week)
      else None)"

definition rosterForTeam :: "(player_id \<Rightarrow> player option) \<Rightarrow> persisted_state \<Rightarrow> team_id \<Rightarrow> player list" where
  "rosterForTeam pool st t = List.map_filter pool (rosterOf st t)"

definition generalRoster :: "(player_id \<Rightarrow> player option) \<Rightarrow> persisted_state \<Rightarrow> team_id \<Rightarrow> player list" where
  "generalRoster pool st t = fst (splitRosterZones st t (rosterForTeam pool st t))"

text \<open>
  The base of an edit: the explicit slots of the source week, with the locked automatic occupants pinned
  and marked.
\<close>

definition pinnedPairs :: "effective_lineup \<Rightarrow> (string \<times> player_id) list" where
  "pinnedPairs l = List.map_filter (\<lambda>a. case saPlayer a of None \<Rightarrow> None
     | Some p \<Rightarrow> if saAutoFilled a \<and> saLocked a then Some (siID (saSlot a), playerID p) else None) (elSlots l)"

definition editBase :: "persisted_state \<Rightarrow> team_id \<Rightarrow> int \<Rightarrow> effective_lineup \<Rightarrow> slot_map \<times> string list" where
  "editBase st t week current =
     (fold (\<lambda>(slot, p). AList.update slot p) (pinnedPairs current) (snd (storedLineupSource st t week)),
      fold (List.insert \<circ> fst) (pinnedPairs current) (storedLineupSourceAutoFilled st t week))"

definition removePlayer :: "player_id \<Rightarrow> slot_map \<times> string list \<Rightarrow> slot_map \<times> string list" where
  "removePlayer p base =
     (filter (\<lambda>(slot, q). q \<noteq> p) (fst base),
      filter (\<lambda>slot. slot \<notin> set (map fst (filter (\<lambda>(slot, q). q = p) (fst base)))) (snd base))"

record lineup_input =
  liPool :: "player_id \<Rightarrow> player option"
  liGames :: "game_info list"
  liNow :: time

definition currentLineup :: "league_env \<Rightarrow> lineup_input \<Rightarrow> persisted_state \<Rightarrow> team_id \<Rightarrow> int \<Rightarrow> effective_lineup" where
  "currentLineup env li st t week =
     effectiveLineupWithState (envRoster env) (generalRoster (liPool li) st t) st t week (liGames li) (liNow li)"

text \<open>Refusals of the locks: the occupant of a slot must not have kicked off.\<close>

definition occupantLocked :: "slot_assignment option \<Rightarrow> player_id option" where
  "occupantLocked a = (case a of None \<Rightarrow> None
     | Some x \<Rightarrow> (case saPlayer x of None \<Rightarrow> None | Some p \<Rightarrow> if saLocked x then Some (playerID p) else None))"

text \<open>The player moves to the slot; any other slot that named him is freed.\<close>

definition startAt :: "string \<Rightarrow> player_id \<Rightarrow> slot_map \<times> string list \<Rightarrow> slot_map \<times> string list" where
  "startAt slot p base =
     (AList.update slot p (filter (\<lambda>(other, q). \<not> (other \<noteq> slot \<and> q = p)) (fst base)),
      filter (\<lambda>x. x \<noteq> slot \<and> x \<notin> set (map fst (filter (\<lambda>(other, q). other \<noteq> slot \<and> q = p) (fst base)))) (snd base))"

definition clearAt :: "string \<Rightarrow> slot_map \<times> string list \<Rightarrow> slot_map \<times> string list" where
  "clearAt slot base = (AList.delete slot (fst base), filter (\<lambda>x. x \<noteq> slot) (snd base))"

definition writeBase :: "league_env \<Rightarrow> persisted_state \<Rightarrow> team_id \<Rightarrow> int \<Rightarrow> slot_map \<times> string list \<Rightarrow> bool \<Rightarrow> store \<Rightarrow>
    (store, lineup_error, unit) outcome" where
  "writeBase env st t week base ok s = setLineupWeekIfUnchanged env t week (lineupExpect st t week) (fst base) (snd base) ok s"

definition setLineup :: "league_env \<Rightarrow> lineup_input \<Rightarrow> team_id option \<Rightarrow> int \<Rightarrow> string \<Rightarrow> string \<Rightarrow> persisted_state \<Rightarrow> bool \<Rightarrow> store \<Rightarrow>
    (store, lineup_error, unit) outcome" where
  "setLineup env li acting week slotID requested st ok s =
     (case acting of None \<Rightarrow> rejected NoLineupTeam s
      | Some t \<Rightarrow>
     (case lineupWeekForAction week (liGames li) (liNow li) of Some e \<Rightarrow> rejected e s
      | None \<Rightarrow>
     (case lineupSlotByID (envRoster env) slotID of None \<Rightarrow> rejected (UnknownSlot slotID) s
      | Some slot \<Rightarrow>
        (let current = currentLineup env li st t week;
             held = occupantLocked (slotAssignment current (siID slot));
             base = editBase st t week current;
             p = trimSpace requested
         in if p = [] then
              (if held \<noteq> None then rejected (LineupLocked (the held)) s
               else writeBase env st t week (clearAt (siID slot) base) ok s)
            else (case rosterRead (generalRoster (liPool li) st t) p of None \<Rightarrow> rejected NotOnYourRoster s
             | Some player \<Rightarrow>
                if \<not> slotFits (siDef slot) (playerPosition player) then rejected (SlotMismatch (playerPosition player) (siID slot)) s
                else if playerLocked (liGames li) week (playerNFLTeam player) (liNow li) then rejected (LineupLocked p) s
                else if held \<noteq> None \<and> held \<noteq> Some (playerID player) then rejected (LineupLocked (the held)) s
                else writeBase env st t week (startAt (siID slot) (playerID player) base) ok s)))))"

text \<open>The two occupants are taken out of the base and put back in each other's slots.\<close>

definition transferBase :: "string option \<Rightarrow> player_id \<Rightarrow> string \<Rightarrow> player_id option \<Rightarrow> slot_map \<times> string list \<Rightarrow>
    slot_map \<times> string list" where
  "transferBase fromSlot p toSlot q base =
     (let b1 = removePlayer p base;
          b2 = (case q of None \<Rightarrow> b1 | Some x \<Rightarrow> removePlayer x b1);
          m = (case fromSlot of None \<Rightarrow> fst b2
               | Some f \<Rightarrow> (case q of None \<Rightarrow> AList.delete f (fst b2) | Some x \<Rightarrow> AList.update f x (fst b2)))
      in (AList.update toSlot p m, filter (\<lambda>x. Some x \<noteq> fromSlot \<and> x \<noteq> toSlot) (snd b2)))"

text \<open>The checks of a swap of two starters, in the order of the code.\<close>

definition swapGuard :: "slot_assignment \<Rightarrow> player \<Rightarrow> slot_assignment \<Rightarrow> lineup_error option" where
  "swapGuard a p b =
     (if saLocked a then Some (LineupLocked (playerID p))
      else if occupantLocked (Some b) \<noteq> None then Some (LineupLocked (the (occupantLocked (Some b))))
      else if \<not> slotFits (siDef (saSlot b)) (playerPosition p) then Some (SlotMismatch (playerPosition p) (siID (saSlot b)))
      else (case saPlayer b of None \<Rightarrow> None
            | Some q \<Rightarrow> if \<not> slotFits (siDef (saSlot a)) (playerPosition q)
                        then Some (SlotMismatch (playerPosition q) (siID (saSlot a))) else None))"

definition swapSlots :: "league_env \<Rightarrow> persisted_state \<Rightarrow> team_id \<Rightarrow> int \<Rightarrow> effective_lineup \<Rightarrow> slot_assignment \<Rightarrow> player \<Rightarrow>
    slot_assignment \<Rightarrow> bool \<Rightarrow> store \<Rightarrow> (store, lineup_error, unit) outcome" where
  "swapSlots env st t week current a p b ok s =
     (case swapGuard a p b of Some e \<Rightarrow> rejected e s
      | None \<Rightarrow> writeBase env st t week
          (transferBase (Some (siID (saSlot a))) (playerID p) (siID (saSlot b)) (map_option playerID (saPlayer b)) (editBase st t week current)) ok s)"

definition startsAt :: "effective_lineup \<Rightarrow> player_id \<Rightarrow> slot_assignment option" where
  "startsAt l p = find (\<lambda>a. case saPlayer a of None \<Rightarrow> False | Some x \<Rightarrow> playerID x = p) (elSlots l)"

definition lineupMovePlayerTo :: "league_env \<Rightarrow> lineup_input \<Rightarrow> team_id option \<Rightarrow> int \<Rightarrow> string \<Rightarrow> string \<Rightarrow> persisted_state \<Rightarrow>
    bool \<Rightarrow> store \<Rightarrow> (store, lineup_error, unit) outcome" where
  "lineupMovePlayerTo env li acting week requested toSlotID st ok s =
     (case acting of None \<Rightarrow> rejected NoLineupTeam s
      | Some t \<Rightarrow>
     (case lineupWeekForAction week (liGames li) (liNow li) of Some e \<Rightarrow> rejected e s
      | None \<Rightarrow>
     (case lineupSlotByID (envRoster env) (trimSpace toSlotID) of None \<Rightarrow> rejected (UnknownSlot toSlotID) s
      | Some toSlot \<Rightarrow>
        (let current = currentLineup env li st t week; wanted = trimSpace requested in
         case startsAt current wanted of
           Some a \<Rightarrow>
             (if siID (saSlot a) = siID toSlot then (Inr (), s)
              else (case slotAssignment current (siID toSlot) of None \<Rightarrow> rejected (UnknownSlot (siID toSlot)) s
                | Some b \<Rightarrow> swapSlots env st t week current a (the (saPlayer a)) b ok s))
         | None \<Rightarrow>
             (case find (\<lambda>x. playerID x = wanted) (elBench current) of None \<Rightarrow> rejected NotOnYourRoster s
              | Some p \<Rightarrow>
                 if playerLocked (liGames li) week (playerNFLTeam p) (liNow li) then rejected (LineupLocked (playerID p)) s
                 else if \<not> slotFits (siDef toSlot) (playerPosition p) then rejected (SlotMismatch (playerPosition p) (siID toSlot)) s
                 else (case slotAssignment current (siID toSlot) of None \<Rightarrow> rejected (UnknownSlot (siID toSlot)) s
                   | Some b \<Rightarrow>
                       if occupantLocked (Some b) \<noteq> None then rejected (LineupLocked (the (occupantLocked (Some b)))) s
                       else writeBase env st t week
                         (transferBase None (playerID p) (siID toSlot) (map_option playerID (saPlayer b)) (editBase st t week current)) ok s))))))"

definition lineupMove :: "league_env \<Rightarrow> lineup_input \<Rightarrow> team_id option \<Rightarrow> int \<Rightarrow> string \<Rightarrow> string \<Rightarrow> persisted_state \<Rightarrow>
    bool \<Rightarrow> store \<Rightarrow> (store, lineup_error, unit) outcome" where
  "lineupMove env li acting week fromSlotID toSlotID st ok s =
     (case acting of None \<Rightarrow> rejected NoLineupTeam s
      | Some t \<Rightarrow>
     (case lineupWeekForAction week (liGames li) (liNow li) of Some e \<Rightarrow> rejected e s
      | None \<Rightarrow>
     (case lineupSlotByID (envRoster env) (trimSpace fromSlotID) of None \<Rightarrow> rejected (UnknownSlot fromSlotID) s
      | Some fromSlot \<Rightarrow>
     (case lineupSlotByID (envRoster env) (trimSpace toSlotID) of None \<Rightarrow> rejected (UnknownSlot toSlotID) s
      | Some toSlot \<Rightarrow>
        (if siID fromSlot = siID toSlot then (Inr (), s)
         else (let current = currentLineup env li st t week in
           case slotAssignment current (siID fromSlot) of None \<Rightarrow> rejected (SlotEmpty (siID fromSlot)) s
           | Some a \<Rightarrow>
              (case saPlayer a of None \<Rightarrow> rejected (SlotEmpty (siID fromSlot)) s
               | Some p \<Rightarrow>
                  if saLocked a then rejected (LineupLocked (playerID p)) s
                  else (case slotAssignment current (siID toSlot) of None \<Rightarrow> rejected (UnknownSlot (siID toSlot)) s
                    | Some b \<Rightarrow> swapSlots env st t week current a p b ok s))))))))"

definition lineupMoveTo :: "league_env \<Rightarrow> lineup_input \<Rightarrow> team_id option \<Rightarrow> int \<Rightarrow> string \<Rightarrow> int \<Rightarrow> persisted_state \<Rightarrow>
    bool \<Rightarrow> store \<Rightarrow> (store, lineup_error, unit) outcome" where
  "lineupMoveTo env li acting week fromSlotID target st ok s =
     (let slots = lineupSlots (envRoster env) in
      if target < 0 \<or> target \<ge> int (length slots) then rejected (InvalidPosition target) s
      else lineupMove env li acting week fromSlotID (siID (slots ! nat target)) st ok s)"

definition lineupAuto :: "league_env \<Rightarrow> lineup_input \<Rightarrow> team_id option \<Rightarrow> int \<Rightarrow> persisted_state \<Rightarrow> bool \<Rightarrow> store \<Rightarrow>
    (store, lineup_error, unit) outcome" where
  "lineupAuto env li acting week st ok s =
     (case acting of None \<Rightarrow> rejected NoLineupTeam s
      | Some t \<Rightarrow>
     (case lineupWeekForAction week (liGames li) (liNow li) of Some e \<Rightarrow> rejected e s
      | None \<Rightarrow> setLineupWeek env t week
          (autoFillWeek (envRoster env) (generalRoster (liPool li) st t) (currentLineup env li st t week) week (liGames li) (liNow li)) ok s))"

end
