(* ===== verification/LineupProps.thy ===== *)
theory LineupProps
  imports Lineups
begin

text \<open>
  The facts of the lineup engine: slots have different IDs, the automatic fill never uses a player twice
  and leaves no slot empty that somebody fits, and the resolution does not depend on the clock.
\<close>

section \<open>Slot IDs\<close>

definition isLetter :: "char \<Rightarrow> bool" where
  "isLetter c = (let n = (of_char c :: nat) in 65 \<le> n \<and> n \<le> 90)"

lemma natDigits_not_letters: "c \<in> set (natDigits n) \<Longrightarrow> \<not> isLetter c"
proof (induction n rule: natDigits.induct)
  case (1 n)
  have "\<not> isLetter (char_of (48 + k))" if "k < 10" for k :: nat using that by (simp add: isLetter_def Let_def)
  then show ?case using 1 by (subst (asm) (2) natDigits.simps) (auto split: if_splits)
qed

lemma natDigits_nonempty: "natDigits n \<noteq> []"
  by (subst natDigits.simps) simp

lemma itoa_not_letters: "0 \<le> i \<Longrightarrow> takeWhile isLetter (itoa i) = []"
proof -
  assume "0 \<le> i"
  then have d: "itoa i = natDigits (nat i)" by (simp add: itoa_def)
  obtain c cs where "natDigits (nat i) = c # cs" using natDigits_nonempty [of "nat i"] by (cases "natDigits (nat i)") auto
  then show ?thesis unfolding d using natDigits_not_letters [of c "nat i"] by simp
qed

lemma slotTable_keys: "distinct (map sdKey slotTable)" "\<forall>d\<in>set slotTable. \<forall>c\<in>set (sdKey d). isLetter c"
  by (code_simp, code_simp)

lemma instance_key:
  assumes "d \<in> set slotTable" "x \<in> set (slotInstances preset d)"
  shows "siDef x = d \<and> takeWhile isLetter (siID x) = sdKey d"
proof -
  have letters: "\<forall>c\<in>set (sdKey d). isLetter c" using slotTable_keys(2) assms(1) by blast
  then have plain: "takeWhile isLetter (sdKey d) = sdKey d" by (simp add: takeWhile_eq_all_conv)
  have numbered: "takeWhile isLetter (sdKey d @ itoa i) = sdKey d" if "0 \<le> i" for i
    using letters itoa_not_letters [OF that] by simp
  show ?thesis using assms(2) plain numbered by (auto simp: slotInstances_def Let_def split: if_splits)
qed

lemma instance_ids_distinct: "distinct (map siID (slotInstances preset d))"
proof -
  have "inj_on (\<lambda>i. sdKey d @ itoa i) {1..n}" for n by (rule inj_onI) (auto simp: itoa_def eq_nat_nat_iff)
  then have "distinct (map (\<lambda>i. sdKey d @ itoa i) [1..n])" for n by (simp add: distinct_map)
  then show ?thesis by (simp add: slotInstances_def Let_def comp_def)
qed

lemma slot_ids_distinct: "distinct (map siID (lineupSlots preset))"
proof -
  have "distinct (map siID (concat (map (slotInstances preset) ds)))"
    if "distinct (map sdKey ds)" "set ds \<subseteq> set slotTable" for ds
    using that
  proof (induction ds)
    case (Cons d ds)
    have "set (map siID (slotInstances preset d)) \<inter> set (map siID (concat (map (slotInstances preset) ds))) = {}"
    proof (rule equals0I, elim IntE)
      fix k assume "k \<in> set (map siID (slotInstances preset d))" "k \<in> set (map siID (concat (map (slotInstances preset) ds)))"
      then obtain x e y where xy: "x \<in> set (slotInstances preset d)" "e \<in> set ds" "y \<in> set (slotInstances preset e)" "siID x = siID y" by auto
      then have "sdKey d = sdKey e" using instance_key [of d x] instance_key [of e y] Cons.prems(2) by auto
      then show False using Cons.prems(1) xy(2) by auto
    qed
    then show ?case using Cons instance_ids_distinct by (simp add: distinct_append)
  qed simp
  then show ?thesis unfolding lineupSlots_def using slotTable_keys(1) by blast
qed

section \<open>Candidates\<close>

lemma best_from: "bestAutoFillCandidate cs week = Some b \<Longrightarrow> b \<in> set cs"
proof -
  assume a: "bestAutoFillCandidate cs week = Some b"
  define clean where "clean = filter (\<lambda>p. \<not> slotWarnsBye p week \<and> \<not> slotWarnsInjury p) cs"
  define ks where "ks = (if clean = [] then cs else clean)"
  have fold_in: "foldl (\<lambda>best q. if betterFill q best then q else best) p ps \<in> set (p # ps)" for p ps
    by (induction ps arbitrary: p) auto
  have "(case ks of [] \<Rightarrow> None | p # ps \<Rightarrow> Some (foldl (\<lambda>best q. if betterFill q best then q else best) p ps)) = Some b"
    using a unfolding bestAutoFillCandidate_def Let_def clean_def ks_def .
  then have "b \<in> set ks" using fold_in by (cases ks) auto
  moreover have "set ks \<subseteq> set cs" by (auto simp: ks_def clean_def)
  ultimately show ?thesis by blast
qed

lemma best_None: "bestAutoFillCandidate cs week = None \<longleftrightarrow> cs = []"
  by (auto simp: bestAutoFillCandidate_def Let_def filter_empty_conv split: list.splits if_splits)

section \<open>The fill\<close>

lemma takenBy_Cons: "takenBy (a # as) = (case saPlayer a of None \<Rightarrow> takenBy as | Some p \<Rightarrow> playerID p # takenBy as)"
  by (simp add: takenBy_def map_filter_simps split: option.split)

lemma takenBy_mem: "i \<in> set (takenBy as) \<longleftrightarrow> (\<exists>a\<in>set as. \<exists>p. saPlayer a = Some p \<and> playerID p = i)"
  by (induction as) (auto simp: takenBy_Cons takenBy_def[of "[]"] map_filter_simps split: option.splits)

lemma fillGaps_induct [consumes 1, case_names Nil Held Empty Filled]:
  assumes "fillGaps roster week taken as = rs"
    and "\<And>taken. P taken [] []"
    and "\<And>taken a as rs p. saPlayer a = Some p \<Longrightarrow> P taken as rs \<Longrightarrow> P taken (a # as) (a # rs)"
    and "\<And>taken a as rs. saPlayer a = None \<Longrightarrow>
      \<forall>p\<in>set roster. slotFits (siDef (saSlot a)) (playerPosition p) \<longrightarrow> playerID p \<in> set taken \<Longrightarrow>
      P taken as rs \<Longrightarrow> P taken (a # as) (a # rs)"
    and "\<And>taken a as rs b. saPlayer a = None \<Longrightarrow> b \<in> set roster \<Longrightarrow> playerID b \<notin> set taken \<Longrightarrow>
      slotFits (siDef (saSlot a)) (playerPosition b) \<Longrightarrow> P (playerID b # taken) as rs \<Longrightarrow>
      P taken (a # as) (a\<lparr>saPlayer := Some b, saAutoFilled := True\<rparr> # rs)"
  shows "P taken as rs"
  using assms(1)
proof (induction as arbitrary: taken rs)
  case Nil
  then show ?case using assms(2) by simp
next
  case (Cons a as)
  show ?case
  proof (cases "saPlayer a")
    case (Some p)
    then show ?thesis using assms(3) [OF Some] Cons by auto
  next
    case None
    let ?cs = "filter (\<lambda>p. playerID p \<notin> set taken \<and> slotFits (siDef (saSlot a)) (playerPosition p)) roster"
    show ?thesis
    proof (cases "bestAutoFillCandidate ?cs week")
      case none: None
      then have "\<forall>p\<in>set roster. slotFits (siDef (saSlot a)) (playerPosition p) \<longrightarrow> playerID p \<in> set taken"
        by (auto simp: best_None filter_empty_conv)
      then show ?thesis using assms(4) [OF None] Cons None none by auto
    next
      case (Some b)
      then have "b \<in> set roster" "playerID b \<notin> set taken" "slotFits (siDef (saSlot a)) (playerPosition b)"
        using best_from by fastforce+
      then show ?thesis using assms(5) [OF None, of b] Cons None Some by auto
    qed
  qed
qed

lemma fill_slots: "fillGaps roster week taken as = rs \<Longrightarrow> map saSlot rs = map saSlot as"
  by (induction taken as rs rule: fillGaps_induct) simp_all

lemma fill_distinct:
  "fillGaps roster week taken as = rs \<Longrightarrow> distinct (takenBy as) \<Longrightarrow> set (takenBy as) \<subseteq> set taken \<Longrightarrow>
    distinct (takenBy rs) \<and> set (takenBy rs) \<subseteq> set (takenBy as) \<union> - set taken"
  by (induction taken as rs rule: fillGaps_induct) (auto simp: takenBy_Cons takenBy_def [of "[]"] map_filter_simps)

lemma fill_no_gap:
  "fillGaps roster week taken as = rs \<Longrightarrow> a \<in> set rs \<Longrightarrow> saPlayer a = None \<Longrightarrow> p \<in> set roster \<Longrightarrow>
    slotFits (siDef (saSlot a)) (playerPosition p) \<Longrightarrow> playerID p \<in> set taken \<union> set (takenBy rs)"
  by (induction taken as rs rule: fillGaps_induct) (auto simp: takenBy_Cons split: option.splits)

text \<open>Slot by slot: an explicit occupant stays, an automatic one was free, on the roster and fits.\<close>

definition filledFrom :: "player list \<Rightarrow> player_id list \<Rightarrow> slot_assignment \<Rightarrow> slot_assignment \<Rightarrow> bool" where
  "filledFrom roster taken a r \<longleftrightarrow> r = a \<or> (saPlayer a = None \<and> (\<exists>b\<in>set roster. playerID b \<notin> set taken \<and>
     slotFits (siDef (saSlot a)) (playerPosition b) \<and> r = a\<lparr>saPlayer := Some b, saAutoFilled := True\<rparr>))"

lemma fill_at: "fillGaps roster week taken as = rs \<Longrightarrow> list_all2 (filledFrom roster taken) as rs"
proof (induction taken as rs rule: fillGaps_induct)
  case (Filled taken a as rs b)
  have "list_all2 (filledFrom roster taken) as rs" by (rule list_all2_mono [OF Filled(5)]) (auto simp: filledFrom_def)
  moreover have "filledFrom roster taken a (a\<lparr>saPlayer := Some b, saAutoFilled := True\<rparr>)"
    using Filled(1-4) by (auto simp: filledFrom_def)
  ultimately show ?case by simp
qed (simp_all add: filledFrom_def)


section \<open>The resolution\<close>

text \<open>No player is named by two slots of the roster shape.\<close>

definition oneSlotEach :: "roster_preset \<Rightarrow> slot_map \<Rightarrow> bool" where
  "oneSlotEach preset m \<longleftrightarrow> (\<forall>a\<in>set (lineupSlots preset). \<forall>b\<in>set (lineupSlots preset).
     slotRead m (siID a) = slotRead m (siID b) \<longrightarrow> slotRead m (siID a) \<noteq> [] \<longrightarrow> a = b)"

lemma rosterRead_Some: "rosterRead roster p = Some x \<Longrightarrow> x \<in> set roster \<and> playerID x = p"
  by (auto simp: rosterRead_def find_Some_iff) (metis nth_mem length_rev set_rev)

lemma rosterRead_own: "distinct (map playerID roster) \<Longrightarrow> x \<in> set roster \<Longrightarrow> rosterRead roster (playerID x) = Some x"
proof (cases "rosterRead roster (playerID x)")
  case None
  assume "x \<in> set roster"
  then show ?thesis using None by (auto simp: rosterRead_def find_None_iff)
next
  case (Some y)
  assume d: "distinct (map playerID roster)" "x \<in> set roster"
  have "y \<in> set roster" "playerID y = playerID x" using rosterRead_Some [OF Some] by auto
  then have "y = x" using d by (auto simp: distinct_map inj_on_def)
  then show ?thesis using Some by simp
qed

lemma explicit_simps [simp]:
  "saSlot (explicitAssignment roster m s) = s" "saAutoFilled (explicitAssignment roster m s) = False"
  "saPlayer (explicitAssignment roster m s) = (if slotRead m (siID s) = [] then None else rosterRead roster (slotRead m (siID s)))"
  by (simp_all add: explicitAssignment_def emptyAssignment_def Let_def)

lemma explicit_distinct:
  "distinct ss \<Longrightarrow> (\<forall>a\<in>set ss. \<forall>b\<in>set ss. slotRead m (siID a) = slotRead m (siID b) \<longrightarrow> slotRead m (siID a) \<noteq> [] \<longrightarrow> a = b) \<Longrightarrow>
    distinct (takenBy (map (explicitAssignment roster m) ss))"
proof (induction ss)
  case (Cons a ss)
  have "playerID p \<notin> set (takenBy (map (explicitAssignment roster m) ss))" if p: "saPlayer (explicitAssignment roster m a) = Some p" for p
  proof
    assume "playerID p \<in> set (takenBy (map (explicitAssignment roster m) ss))"
    then obtain b q where b: "b \<in> set ss" "saPlayer (explicitAssignment roster m b) = Some q" "playerID q = playerID p"
      by (auto simp: takenBy_mem)
    have "slotRead m (siID a) = playerID p" "slotRead m (siID a) \<noteq> []" using p rosterRead_Some by (auto split: if_splits)
    moreover have "slotRead m (siID b) = playerID q" using b(2) rosterRead_Some by (auto split: if_splits)
    ultimately have "a = b" using Cons.prems(2) b by auto
    then show False using Cons.prems(1) b(1) by simp
  qed
  moreover have "distinct (takenBy (map (explicitAssignment roster m) ss))" using Cons by simp
  ultimately show ?case unfolding list.map takenBy_Cons by (cases "saPlayer (explicitAssignment roster m a)") simp_all
qed (simp add: takenBy_def map_filter_simps)

lemma slots_distinct: "distinct (lineupSlots preset)"
  using slot_ids_distinct [of preset] by (simp add: distinct_map)

lemma resolved_slots: "map saSlot (resolvedSlots preset roster m week) = lineupSlots preset"
  unfolding resolvedSlots_def Let_def by (subst fill_slots [OF refl]) (simp add: comp_def)

lemma resolved_distinct:
  assumes "oneSlotEach preset m"
  shows "distinct (takenBy (resolvedSlots preset roster m week))"
proof -
  have "distinct (takenBy (map (explicitAssignment roster m) (lineupSlots preset)))"
    by (rule explicit_distinct [OF slots_distinct]) (use assms in \<open>simp add: oneSlotEach_def\<close>)
  then show ?thesis unfolding resolvedSlots_def Let_def using fill_distinct [OF refl] by blast
qed

text \<open>Every resolved slot is explicit or was filled with a fitting player of the roster.\<close>

lemma resolved_at:
  assumes "a \<in> set (resolvedSlots preset roster m week)"
  shows "a = explicitAssignment roster m (saSlot a) \<or>
    (saPlayer (explicitAssignment roster m (saSlot a)) = None \<and>
     (\<exists>b\<in>set roster. slotFits (siDef (saSlot a)) (playerPosition b) \<and> saPlayer a = Some b \<and> saAutoFilled a))"
proof -
  let ?as = "map (explicitAssignment roster m) (lineupSlots preset)"
  have l: "list_all2 (filledFrom roster (takenBy ?as)) ?as (resolvedSlots preset roster m week)"
    unfolding resolvedSlots_def Let_def by (rule fill_at [OF refl])
  obtain k where k: "k < length (resolvedSlots preset roster m week)" "a = resolvedSlots preset roster m week ! k"
    using assms by (auto simp: in_set_conv_nth)
  have "filledFrom roster (takenBy ?as) (?as ! k) a"
    unfolding k(2) by (rule list_all2_nthD2 [OF l k(1)])
  moreover have "?as ! k = explicitAssignment roster m (lineupSlots preset ! k)" using k(1) list_all2_lengthD [OF l] by simp
  ultimately show ?thesis by (auto simp: filledFrom_def)
qed

lemma resolved_roster:
  assumes "a \<in> set (resolvedSlots preset roster m week)" "saPlayer a = Some p"
  shows "p \<in> set roster"
proof -
  from resolved_at [OF assms(1)] consider (own) "a = explicitAssignment roster m (saSlot a)"
    | (fill) b where "b \<in> set roster" "saPlayer a = Some b" by blast
  then show ?thesis
  proof cases
    case own
    then have "saPlayer (explicitAssignment roster m (saSlot a)) = Some p" using assms(2) by simp
    then show ?thesis using rosterRead_Some by (auto split: if_splits)
  qed (use assms(2) in simp)
qed

lemma resolved_no_gap:
  "a \<in> set (resolvedSlots preset roster m week) \<Longrightarrow> saPlayer a = None \<Longrightarrow> p \<in> set roster \<Longrightarrow>
    slotFits (siDef (saSlot a)) (playerPosition p) \<Longrightarrow> playerID p \<in> set (takenBy (resolvedSlots preset roster m week))"
proof -
  let ?as = "map (explicitAssignment roster m) (lineupSlots preset)" and ?rs = "resolvedSlots preset roster m week"
  assume a: "a \<in> set ?rs" "saPlayer a = None" "p \<in> set roster" "slotFits (siDef (saSlot a)) (playerPosition p)"
  have eq: "fillGaps roster week (takenBy ?as) ?as = ?rs" by (simp add: resolvedSlots_def Let_def)
  have "set (takenBy ?as) \<subseteq> set (takenBy ?rs)"
  proof
    fix i assume "i \<in> set (takenBy ?as)"
    then obtain x q where x: "x \<in> set ?as" "saPlayer x = Some q" "playerID q = i" unfolding takenBy_mem by blast
    obtain k where "k < length ?as" "?as ! k = x" using x(1) by (meson in_set_conv_nth)
    then have k: "k < length ?as" "saPlayer (?as ! k) = Some q" "playerID q = i" using x by simp_all
    have "filledFrom roster (takenBy ?as) (?as ! k) (?rs ! k)" by (rule list_all2_nthD [OF fill_at [OF eq] k(1)])
    then have "?rs ! k = ?as ! k" using k(2) by (auto simp: filledFrom_def)
    moreover have "k < length ?rs" using k(1) list_all2_lengthD [OF fill_at [OF eq]] by simp
    ultimately show "i \<in> set (takenBy ?rs)" unfolding takenBy_mem using k(2,3) nth_mem by metis
  qed
  then show ?thesis using fill_no_gap [OF eq a] by blast
qed

text \<open>A stored entry whose player is on the roster is what the slot resolves to.\<close>

lemma resolved_explicit:
  assumes "a \<in> set (resolvedSlots preset roster m week)" "slotRead m (siID (saSlot a)) = playerID x" "playerID x \<noteq> []"
    and "rosterRead roster (playerID x) = Some x"
  shows "saPlayer a = Some x \<and> \<not> saAutoFilled a"
proof -
  have e: "saPlayer (explicitAssignment roster m (saSlot a)) = Some x" using assms(2-4) by simp
  then have "a = explicitAssignment roster m (saSlot a)" using resolved_at [OF assms(1)] by auto
  then show ?thesis using e explicit_simps(2) by metis
qed

end
