(* ===== verification/LineupLocks.thy ===== *)
theory LineupLocks
  imports LineupProps
begin

text \<open>
  What an edit of a lineup writes: the base of an edit names the occupant of every locked slot, and every
  action builds on it a map that keeps those entries and names no player twice.
\<close>

section \<open>Reads of edited maps\<close>

lemma slotRead_filter:
  "distinct (map fst m) \<Longrightarrow> slotRead (filter (\<lambda>(k, v). P k v) m) j = (if P j (slotRead m j) then slotRead m j else [])"
  by (induction m) (auto simp: slotRead_def split: option.splits, (force dest: map_of_SomeD)+)

lemma slotRead_update [simp]: "slotRead (AList.update k v m) j = (if j = k then v else slotRead m j)"
  by (simp add: slotRead_def update_conv)

lemma slotRead_delete [simp]: "slotRead (AList.delete k m) j = (if j = k then [] else slotRead m j)"
  by (simp add: slotRead_def delete_conv)

lemma slotRead_some: "slotRead m k \<noteq> [] \<Longrightarrow> map_of m k = Some (slotRead m k)"
  by (auto simp: slotRead_def split: option.splits)

definition readsOnce :: "string set \<Rightarrow> slot_map \<Rightarrow> bool" where
  "readsOnce K m \<longleftrightarrow> (\<forall>j\<in>K. \<forall>k\<in>K. slotRead m j = slotRead m k \<longrightarrow> slotRead m j \<noteq> [] \<longrightarrow> j = k)"

definition slotMapOK :: "string set \<Rightarrow> slot_map \<Rightarrow> bool" where
  "slotMapOK K m \<longleftrightarrow> distinct (map fst m) \<and> readsOnce K m"

definition slotIDs :: "roster_preset \<Rightarrow> string set" where
  "slotIDs preset = siID ` set (lineupSlots preset)"

lemma slot_id_inj: "a \<in> set (lineupSlots preset) \<Longrightarrow> b \<in> set (lineupSlots preset) \<Longrightarrow> siID a = siID b \<Longrightarrow> a = b"
  using slot_ids_distinct [of preset] by (auto simp: distinct_map inj_on_def)

lemma oneSlotEach_reads: "readsOnce (slotIDs preset) m \<Longrightarrow> oneSlotEach preset m"
  unfolding readsOnce_def oneSlotEach_def slotIDs_def using slot_id_inj by blast

lemma distinct_filter_keys: "distinct (map fst m) \<Longrightarrow> distinct (map fst (filter P m))"
  by (simp add: distinct_map_filter)

lemma startAt_read:
  assumes "distinct (map fst (fst base))" "p \<noteq> []"
  shows "slotRead (fst (startAt slot p base)) k =
    (if k = slot then p else if slotRead (fst base) k = p then [] else slotRead (fst base) k)"
  by (simp add: startAt_def slotRead_filter [OF assms(1), where P = "\<lambda>other q. other = slot \<or> q \<noteq> p"])

lemma removePlayer_read:
  assumes "distinct (map fst (fst base))"
  shows "slotRead (fst (removePlayer p base)) k = (if slotRead (fst base) k = p then [] else slotRead (fst base) k)"
  by (simp add: removePlayer_def slotRead_filter [OF assms, where P = "\<lambda>other q. q \<noteq> p"])

lemma startAt_OK:
  assumes "slotMapOK K (fst base)" "p \<noteq> []"
  shows "slotMapOK K (fst (startAt slot p base))"
proof -
  have d: "distinct (map fst (fst base))" and r: "readsOnce K (fst base)" using assms(1) by (simp_all add: slotMapOK_def)
  have "distinct (map fst (fst (startAt slot p base)))"
    by (simp add: startAt_def distinct_update distinct_filter_keys [OF d])
  moreover have "readsOnce K (fst (startAt slot p base))"
    using r unfolding readsOnce_def startAt_read [OF d assms(2)] by (auto split: if_splits)
  ultimately show ?thesis by (simp add: slotMapOK_def)
qed

lemma delete_OK: "slotMapOK K m \<Longrightarrow> slotMapOK K (AList.delete slot m)"
  by (auto simp: slotMapOK_def readsOnce_def distinct_delete)

lemma clearAt_OK: "slotMapOK K (fst base) \<Longrightarrow> slotMapOK K (fst (clearAt slot base))"
  by (simp add: clearAt_def delete_OK)

text \<open>Entering a player no slot names keeps the map sound.\<close>

lemma enter_OK:
  assumes "slotMapOK K m" "\<forall>k\<in>K. slotRead m k = p \<longrightarrow> k = slot"
  shows "slotMapOK K (AList.update slot p m)"
proof -
  have "readsOnce K (AList.update slot p m)"
    using assms unfolding slotMapOK_def readsOnce_def slotRead_update by (metis (no_types))
  then show ?thesis using assms(1) by (simp add: slotMapOK_def distinct_update)
qed

lemma transferBase_read:
  assumes "distinct (map fst (fst base))" "p \<noteq> []" "q \<noteq> Some []" "q \<noteq> Some p"
  shows "slotRead (fst (transferBase f p slot q base)) k =
    (if k = slot then p else if f = Some k then (case q of None \<Rightarrow> [] | Some x \<Rightarrow> x)
     else if slotRead (fst base) k = p \<or> q = Some (slotRead (fst base) k) then [] else slotRead (fst base) k)"
proof -
  have d: "distinct (map fst (fst (removePlayer p base)))"
    by (simp add: removePlayer_def distinct_filter_keys [OF assms(1)])
  show ?thesis using assms(2-4)
    by (cases f; cases q) (auto simp: transferBase_def Let_def removePlayer_read [OF assms(1)] removePlayer_read [OF d])
qed

lemma removePlayer_OK: "slotMapOK K (fst base) \<Longrightarrow> slotMapOK K (fst (removePlayer p base))"
proof -
  assume ok: "slotMapOK K (fst base)"
  then have d: "distinct (map fst (fst base))" by (simp add: slotMapOK_def)
  have "distinct (map fst (fst (removePlayer p base)))" by (simp add: removePlayer_def distinct_filter_keys [OF d])
  moreover have "readsOnce K (fst (removePlayer p base))"
    using ok unfolding slotMapOK_def readsOnce_def removePlayer_read [OF d] by (auto split: if_splits)
  ultimately show ?thesis by (simp add: slotMapOK_def)
qed

lemma transferBase_OK:
  assumes ok: "slotMapOK K (fst base)" and p: "p \<noteq> []" "q \<noteq> Some []" "q \<noteq> Some p"
  shows "slotMapOK K (fst (transferBase f p slot q base))"
proof -
  have keys: "slotMapOK K m \<Longrightarrow> distinct (map fst m)" for m by (simp add: slotMapOK_def)
  have ok1: "slotMapOK K (fst (removePlayer p base))" by (rule removePlayer_OK [OF ok])
  note r1 = removePlayer_read [OF keys [OF ok]]
  show ?thesis
  proof (cases q)
    case None
    show ?thesis
    proof (cases f)
      case f: None
      show ?thesis unfolding None f transferBase_def Let_def option.case fst_conv
        by (rule enter_OK [OF ok1]) (use p in \<open>auto simp: r1\<close>)
    next
      case (Some g)
      show ?thesis unfolding None Some transferBase_def Let_def option.case fst_conv
        by (rule enter_OK [OF delete_OK [OF ok1]]) (use p in \<open>auto simp: r1\<close>)
    qed
  next
    case (Some x)
    have ok2: "slotMapOK K (fst (removePlayer x (removePlayer p base)))" by (rule removePlayer_OK [OF ok1])
    note r2 = removePlayer_read [OF keys [OF ok1]]
    have x: "x \<noteq> []" "x \<noteq> p" using p Some by auto
    show ?thesis
    proof (cases f)
      case None
      show ?thesis unfolding None Some transferBase_def Let_def option.case fst_conv
        by (rule enter_OK [OF ok2]) (use p in \<open>auto simp: r1 r2\<close>)
    next
      case f: (Some g)
      have ok3: "slotMapOK K (AList.update g x (fst (removePlayer x (removePlayer p base))))"
        by (rule enter_OK [OF ok2]) (use x in \<open>auto simp: r1 r2\<close>)
      show ?thesis unfolding f Some transferBase_def Let_def option.case fst_conv
        by (rule enter_OK [OF ok3]) (use p x in \<open>auto simp: r1 r2\<close>)
    qed
  qed
qed

section \<open>The current lineup\<close>

text \<open>What an assignment of the current lineup shares with the resolved one it was made from.\<close>

definition sameSeat :: "game_info list \<Rightarrow> int \<Rightarrow> time \<Rightarrow> slot_map \<Rightarrow> slot_assignment \<Rightarrow> slot_assignment \<Rightarrow> bool" where
  "sameSeat games week now m a c \<longleftrightarrow> saSlot c = saSlot a \<and> saPlayer c = saPlayer a \<and>
     (\<forall>p. saPlayer a = Some p \<longrightarrow> saLocked c = playerLocked games week (playerNFLTeam p) now) \<and>
     (saAutoFilled a \<longrightarrow> saAutoFilled c) \<and>
     (saAutoFilled c \<longrightarrow> saAutoFilled a \<or> (\<exists>p. saPlayer a = Some p \<and> slotRead m (siID (saSlot a)) = playerID p))"

lemma source_explicit: "snd (storedLineupSource st t week) = explicitSlots (lineups st t) week"
  by (simp add: storedLineupSource_def explicitSlots_def split: option.split)

lemma current_seats:
  "list_all2 (sameSeat games week now (explicitSlots (lineups st t) week))
     (resolvedSlots preset roster (explicitSlots (lineups st t) week) week)
     (elSlots (effectiveLineupWithState preset roster st t week games now))"
  unfolding effectiveLineupWithState_def effectiveLineup_def Let_def
  by (auto simp: list_all2_map2 list_all2_same sameSeat_def decorate_def source_explicit split: option.splits)

lemma current_bench:
  "elBench (effectiveLineupWithState preset roster st t week games now) = elBench (effectiveLineup preset roster (lineups st t) week games now)"
  by (simp add: effectiveLineupWithState_def Let_def)

lemma seats_slots: "list_all2 (sameSeat games week now m) as cs \<Longrightarrow> map saSlot cs = map saSlot as"
  by (induction as cs rule: list_all2_induct) (simp_all add: sameSeat_def)

lemma seats_taken: "list_all2 (sameSeat games week now m) as cs \<Longrightarrow> takenBy cs = takenBy as"
  by (induction as cs rule: list_all2_induct) (simp_all add: sameSeat_def takenBy_Cons takenBy_def [of "[]"] split: option.split)

lemma seats_at: "list_all2 (sameSeat games week now m) as cs \<Longrightarrow> c \<in> set cs \<Longrightarrow> \<exists>a\<in>set as. sameSeat games week now m a c"
  by (induction as cs rule: list_all2_induct) auto

text \<open>The occupied slots of a list of assignments: distinct IDs name distinct players.\<close>

definition seatPairs :: "(slot_assignment \<Rightarrow> bool) \<Rightarrow> slot_assignment list \<Rightarrow> (string \<times> player_id) list" where
  "seatPairs P cs = List.map_filter (\<lambda>a. case saPlayer a of None \<Rightarrow> None
     | Some p \<Rightarrow> if P a then Some (siID (saSlot a), playerID p) else None) cs"

lemma seatPairs_simps [simp]:
  "seatPairs P [] = []"
  "seatPairs P (a # as) = (case saPlayer a of None \<Rightarrow> seatPairs P as
     | Some p \<Rightarrow> if P a then (siID (saSlot a), playerID p) # seatPairs P as else seatPairs P as)"
  by (simp_all add: seatPairs_def map_filter_simps split: option.split)

lemma seatPairs_mem: "(k, i) \<in> set (seatPairs P cs) \<longleftrightarrow> (\<exists>a\<in>set cs. \<exists>p. saPlayer a = Some p \<and> P a \<and> k = siID (saSlot a) \<and> i = playerID p)"
  by (induction cs) (auto split: option.splits)

lemma seatPairs_keys: "distinct (map (siID \<circ> saSlot) cs) \<Longrightarrow> distinct (map fst (seatPairs P cs))"
proof (induction cs)
  case (Cons a cs)
  have "set (map fst (seatPairs P cs)) \<subseteq> (siID \<circ> saSlot) ` set cs" by (auto simp: seatPairs_mem)
  then show ?case using Cons by (auto split: option.splits)
qed simp

lemma seatPairs_values: "distinct (takenBy cs) \<Longrightarrow> distinct (map snd (seatPairs P cs))"
proof (induction cs)
  case (Cons a cs)
  have "set (map snd (seatPairs P cs)) \<subseteq> set (takenBy cs)"
  proof
    fix i assume "i \<in> set (map snd (seatPairs P cs))"
    then obtain k where "(k, i) \<in> set (seatPairs P cs)" by auto
    then show "i \<in> set (takenBy cs)" unfolding seatPairs_mem takenBy_mem by blast
  qed
  then show ?case using Cons by (auto simp: takenBy_Cons split: option.splits)
qed simp

lemma pinned_seats: "pinnedPairs l = seatPairs (\<lambda>a. saAutoFilled a \<and> saLocked a) (elSlots l)"
  by (simp add: pinnedPairs_def seatPairs_def)

section \<open>The base of an edit\<close>

lemma fold_pins_read:
  "slotRead (fold (\<lambda>(slot, p). AList.update slot p) ps m) k = (case map_of (rev ps) k of None \<Rightarrow> slotRead m k | Some v \<Rightarrow> v)"
  by (induction ps arbitrary: m) (auto simp: map_add_def split: option.splits)

lemma pins_read:
  assumes "distinct (map fst ps)" "(k, v) \<in> set ps"
  shows "slotRead (fold (\<lambda>(slot, p). AList.update slot p) ps m) k = v"
proof -
  have "map_of (rev ps) k = Some v" using assms by (intro map_of_is_SomeI) (simp_all add: rev_map [symmetric])
  then show ?thesis by (simp add: fold_pins_read)
qed

lemma pins_read_other: "k \<notin> fst ` set ps \<Longrightarrow> slotRead (fold (\<lambda>(slot, p). AList.update slot p) ps m) k = slotRead m k"
proof -
  assume "k \<notin> fst ` set ps"
  then have "map_of (rev ps) k = None" by (simp add: map_of_eq_None_iff)
  then show ?thesis by (simp add: fold_pins_read)
qed

lemma pins_OK:
  "slotMapOK K m \<Longrightarrow> distinct (map snd ps) \<Longrightarrow> (\<And>k v j. (k, v) \<in> set ps \<Longrightarrow> j \<in> K \<Longrightarrow> slotRead m j = v \<Longrightarrow> j = k) \<Longrightarrow>
    slotMapOK K (fold (\<lambda>(slot, p). AList.update slot p) ps m)"
proof (induction ps arbitrary: m)
  case (Cons kv ps)
  obtain k v where kv: "kv = (k, v)" by (cases kv)
  have e: "j = k" if "j \<in> K" "slotRead m j = v" for j by (rule Cons.prems(3) [of k v]) (use kv that in simp_all)
  have u: "slotMapOK K (AList.update k v m)" by (rule enter_OK [OF Cons.prems(1)]) (use e in blast)
  have n: "j = k'" if "(k', v') \<in> set ps" "j \<in> K" "slotRead (AList.update k v m) j = v'" for k' v' j
  proof -
    have "v' \<noteq> v" using Cons.prems(2) that(1) kv by force
    then have "slotRead m j = v'" using that(3) unfolding slotRead_update by (cases "j = k") simp_all
    then show ?thesis by (rule Cons.prems(3) [rotated 2]) (use that(1,2) in simp_all)
  qed
  have "distinct (map snd ps)" using Cons.prems(2) by simp
  then show ?case unfolding kv using Cons.IH [OF u _ n] by simp
qed simp

text \<open>A roster a lineup is resolved on: no player twice, no empty ID.\<close>

definition rosterOK :: "player list \<Rightarrow> bool" where
  "rosterOK roster \<longleftrightarrow> distinct (map playerID roster) \<and> (\<forall>x\<in>set roster. playerID x \<noteq> [])"

definition poolOK :: "(player_id \<Rightarrow> player option) \<Rightarrow> bool" where
  "poolOK pool \<longleftrightarrow> (\<forall>p x. pool p = Some x \<longrightarrow> playerID x = p)"

lemma pool_roster_mem: "x \<in> set (List.map_filter pool ps) \<longleftrightarrow> (\<exists>p\<in>set ps. pool p = Some x)"
  by (induction ps) (auto simp: map_filter_simps split: option.splits)

lemma pool_roster_distinct: "poolOK pool \<Longrightarrow> distinct ps \<Longrightarrow> distinct (map playerID (List.map_filter pool ps))"
proof (induction ps)
  case (Cons p ps)
  have "playerID x = p \<and> p \<notin> playerID ` set (List.map_filter pool ps)" if "pool p = Some x" for x
    using Cons.prems that by (auto simp: poolOK_def pool_roster_mem)
  then show ?case using Cons by (auto simp: map_filter_simps split: option.splits)
qed (simp add: map_filter_simps)

lemma generalRoster_mem:
  "x \<in> set (generalRoster pool st t) \<Longrightarrow> \<exists>p\<in>set (rosterOf st t). pool p = Some x"
  by (auto simp: generalRoster_def splitRosterZones_def rosterForTeam_def pool_roster_mem)

lemma generalRoster_OK:
  assumes "poolOK pool"
  shows "rosterOK (generalRoster pool st t)"
proof -
  have "distinct (map playerID (rosterForTeam pool st t))"
    unfolding rosterForTeam_def by (rule pool_roster_distinct [OF assms rosterOf_distinct])
  then have "distinct (map playerID (generalRoster pool st t))"
    by (simp add: generalRoster_def splitRosterZones_def distinct_map_filter)
  moreover have "playerID x \<noteq> []" if x: "x \<in> set (generalRoster pool st t)" for x
  proof -
    obtain p where "p \<in> set (rosterOf st t)" "playerID x = p"
      using generalRoster_mem [OF x] assms by (auto simp: poolOK_def)
    then show ?thesis using onRoster_nonempty [OF replayWf_state] by (auto simp: rosterOf_onRoster)
  qed
  ultimately show ?thesis by (simp add: rosterOK_def)
qed

text \<open>The occupants of the current lineup, and what they rest on.\<close>

definition sourceOK :: "roster_preset \<Rightarrow> persisted_state \<Rightarrow> team_id \<Rightarrow> int \<Rightarrow> bool" where
  "sourceOK preset st t week \<longleftrightarrow> slotMapOK (slotIDs preset) (snd (storedLineupSource st t week))"

lemma current_ids: "distinct (map (siID \<circ> saSlot) (elSlots (effectiveLineupWithState preset roster st t week games now)))"
proof -
  have "map saSlot (elSlots (effectiveLineupWithState preset roster st t week games now)) = lineupSlots preset"
    using seats_slots [OF current_seats] resolved_slots by metis
  then have "map siID (map saSlot (elSlots (effectiveLineupWithState preset roster st t week games now))) = map siID (lineupSlots preset)" by simp
  then show ?thesis using slot_ids_distinct [of preset] by (simp add: comp_def)
qed

lemma current_slot_mem:
  assumes "c \<in> set (elSlots (effectiveLineupWithState preset roster st t week games now))"
  shows "saSlot c \<in> set (lineupSlots preset)" "siID (saSlot c) \<in> slotIDs preset"
proof -
  have "saSlot ` set (elSlots (effectiveLineupWithState preset roster st t week games now)) = set (lineupSlots preset)"
    using seats_slots [OF current_seats] resolved_slots by (metis list.set_map)
  then show "saSlot c \<in> set (lineupSlots preset)" using assms by blast
  then show "siID (saSlot c) \<in> slotIDs preset" by (simp add: slotIDs_def)
qed

lemma current_distinct:
  "sourceOK preset st t week \<Longrightarrow> distinct (takenBy (elSlots (effectiveLineupWithState preset roster st t week games now)))"
  unfolding seats_taken [OF current_seats]
  by (rule resolved_distinct) (simp add: sourceOK_def slotMapOK_def source_explicit oneSlotEach_reads)

lemma current_seat:
  assumes "c \<in> set (elSlots (effectiveLineupWithState preset roster st t week games now))"
  obtains a where "a \<in> set (resolvedSlots preset roster (explicitSlots (lineups st t) week) week)"
    "sameSeat games week now (explicitSlots (lineups st t) week) a c"
  using seats_at [OF current_seats assms] by blast

text \<open>An occupant is on the roster; unless marked as filled, the source names him.\<close>

lemma current_occupant:
  assumes "c \<in> set (elSlots (effectiveLineupWithState preset roster st t week games now))" "saPlayer c = Some p"
  shows "p \<in> set roster" "saLocked c = playerLocked games week (playerNFLTeam p) now"
    "\<not> saAutoFilled c \<Longrightarrow> slotRead (snd (storedLineupSource st t week)) (siID (saSlot c)) = playerID p"
proof -
  obtain a where a: "a \<in> set (resolvedSlots preset roster (explicitSlots (lineups st t) week) week)"
    "sameSeat games week now (explicitSlots (lineups st t) week) a c" by (rule current_seat [OF assms(1)])
  then show "p \<in> set roster" using resolved_roster [OF a(1)] assms(2) by (simp add: sameSeat_def)
  show "saLocked c = playerLocked games week (playerNFLTeam p) now" using a(2) assms(2) by (simp add: sameSeat_def)
  assume "\<not> saAutoFilled c"
  then have "\<not> saAutoFilled a" "saPlayer a = Some p" "saSlot c = saSlot a" using a(2) assms(2) by (auto simp: sameSeat_def)
  then have "saPlayer (explicitAssignment roster (explicitSlots (lineups st t) week) (saSlot a)) = Some p"
    using resolved_at [OF a(1)] by auto
  then show "slotRead (snd (storedLineupSource st t week)) (siID (saSlot c)) = playerID p"
    using rosterRead_Some \<open>saSlot c = saSlot a\<close> by (auto simp: source_explicit split: if_splits)
qed

text \<open>A slot whose stored entry is on the roster resolves to it.\<close>

lemma current_explicit:
  assumes "c \<in> set (elSlots (effectiveLineupWithState preset roster st t week games now))" "rosterOK roster" "x \<in> set roster"
    and "slotRead (snd (storedLineupSource st t week)) (siID (saSlot c)) = playerID x"
  shows "saPlayer c = Some x"
proof -
  obtain a where a: "a \<in> set (resolvedSlots preset roster (explicitSlots (lineups st t) week) week)"
    "sameSeat games week now (explicitSlots (lineups st t) week) a c" by (rule current_seat [OF assms(1)])
  have "saPlayer a = Some x"
    using resolved_explicit [OF a(1)] rosterRead_own assms(2-4) a(2) by (simp add: rosterOK_def sameSeat_def source_explicit)
  then show ?thesis using a(2) by (simp add: sameSeat_def)
qed

text \<open>With distinct occupants, a player sits in one slot.\<close>

lemma takenBy_once:
  "distinct (takenBy cs) \<Longrightarrow> c \<in> set cs \<Longrightarrow> d \<in> set cs \<Longrightarrow> saPlayer c = Some p \<Longrightarrow> saPlayer d = Some q \<Longrightarrow>
    playerID p = playerID q \<Longrightarrow> c = d"
proof (induction cs)
  case (Cons a cs)
  have no: "playerID x \<notin> set (takenBy cs)" if "saPlayer a = Some x" for x using Cons.prems(1) that by (simp add: takenBy_Cons)
  have "distinct (takenBy cs)" using Cons.prems(1) by (simp add: takenBy_Cons split: option.splits)
  then show ?case using Cons.IH Cons.prems(2-) no unfolding takenBy_mem by (metis set_ConsD)
qed simp

end
