(* ===== verification/LineupActions.thy ===== *)
theory LineupActions
  imports LineupLocks
begin

text \<open>
  What the manager's actions write, and the lineups they lead to: locked starters stay, no player is named
  twice, every named player fits his slot, and the resolution uses the whole roster.
\<close>

section \<open>The base of an edit\<close>

abbreviation viewOf :: "roster_preset \<Rightarrow> player list \<Rightarrow> persisted_state \<Rightarrow> team_id \<Rightarrow> int \<Rightarrow> game_info list \<Rightarrow> time \<Rightarrow> effective_lineup" where
  "viewOf \<equiv> effectiveLineupWithState"

text \<open>The map names the occupant of every locked slot.\<close>

definition keepsLocked :: "effective_lineup \<Rightarrow> slot_map \<Rightarrow> bool" where
  "keepsLocked l m \<longleftrightarrow> (\<forall>c\<in>set (elSlots l). \<forall>p. saPlayer c = Some p \<longrightarrow> saLocked c \<longrightarrow> slotRead m (siID (saSlot c)) = playerID p)"

text \<open>
  Every player the map names fits his slot. The table pos says what position a player has: the pools the
  actions read may differ in everything else (teams, projections, who is listed), not in a player's position.
\<close>

definition fitsMap :: "roster_preset \<Rightarrow> (player_id \<Rightarrow> string) \<Rightarrow> slot_map \<Rightarrow> bool" where
  "fitsMap preset pos m \<longleftrightarrow> (\<forall>s\<in>set (lineupSlots preset). slotRead m (siID s) \<noteq> [] \<longrightarrow>
     slotFits (siDef s) (pos (slotRead m (siID s))))"

definition mapOK :: "roster_preset \<Rightarrow> (player_id \<Rightarrow> string) \<Rightarrow> slot_map \<Rightarrow> bool" where
  "mapOK preset pos m \<longleftrightarrow> slotMapOK (slotIDs preset) m \<and> fitsMap preset pos m"

lemma pins_mem:
  assumes "l = viewOf preset roster st t week games now" "(k, i) \<in> set (pinnedPairs l)"
  obtains c p where "c \<in> set (elSlots l)" "saPlayer c = Some p" "saAutoFilled c" "saLocked c" "k = siID (saSlot c)"
    "i = playerID p" "p \<in> set roster"
  using assms(2) unfolding pinned_seats seatPairs_mem using current_occupant(1) assms(1) by metis

lemma pins_keys: "l = viewOf preset roster st t week games now \<Longrightarrow> distinct (map fst (pinnedPairs l))"
  by (simp add: pinned_seats seatPairs_keys current_ids)

lemma base_OK:
  assumes l: "l = viewOf preset roster st t week games now" and src: "sourceOK preset st t week" and ros: "rosterOK roster"
  shows "slotMapOK (slotIDs preset) (fst (editBase st t week l))"
  unfolding editBase_def fst_conv
proof (rule pins_OK)
  show "slotMapOK (slotIDs preset) (snd (storedLineupSource st t week))" using src by (simp add: sourceOK_def)
  show "distinct (map snd (pinnedPairs l))" by (simp add: pinned_seats seatPairs_values l current_distinct [OF src])
next
  fix k v j
  assume kv: "(k, v) \<in> set (pinnedPairs l)" and j: "j \<in> slotIDs preset" "slotRead (snd (storedLineupSource st t week)) j = v"
  obtain c p where c: "c \<in> set (elSlots l)" "saPlayer c = Some p" "k = siID (saSlot c)" "v = playerID p" "p \<in> set roster"
    by (rule pins_mem [OF l kv])
  have "map saSlot (elSlots l) = lineupSlots preset" unfolding l using seats_slots [OF current_seats] resolved_slots by metis
  then have "saSlot ` set (elSlots l) = set (lineupSlots preset)" by (metis list.set_map)
  then obtain d where d: "d \<in> set (elSlots l)" "siID (saSlot d) = j" using j(1) by (auto simp: slotIDs_def) (metis imageE)
  have "saPlayer d = Some p" by (rule current_explicit [OF d(1) [unfolded l] ros c(5)]) (use d j c(4) in simp)
  moreover have "distinct (takenBy (elSlots l))" unfolding l by (rule current_distinct [OF src])
  ultimately have "d = c" using c(1,2) d(1)
    by (metis (no_types, lifting) takenBy_once)
  then show "j = k" using c(3) d(2) by simp
qed

lemma base_keeps:
  assumes l: "l = viewOf preset roster st t week games now"
  shows "keepsLocked l (fst (editBase st t week l))"
  unfolding keepsLocked_def
proof (intro ballI allI impI)
  fix c p assume c: "c \<in> set (elSlots l)" "saPlayer c = Some p" "saLocked c"
  show "slotRead (fst (editBase st t week l)) (siID (saSlot c)) = playerID p"
  proof (cases "saAutoFilled c")
    case True
    then have "(siID (saSlot c), playerID p) \<in> set (pinnedPairs l)" unfolding pinned_seats seatPairs_mem using c by blast
    then show ?thesis unfolding editBase_def fst_conv by (rule pins_read [OF pins_keys [OF l]])
  next
    case False
    have "siID (saSlot c) \<notin> fst ` set (pinnedPairs l)"
    proof
      assume "siID (saSlot c) \<in> fst ` set (pinnedPairs l)"
      then obtain i where "(siID (saSlot c), i) \<in> set (pinnedPairs l)" by force
      then obtain d where d: "d \<in> set (elSlots l)" "saAutoFilled d" "siID (saSlot c) = siID (saSlot d)"
        unfolding pinned_seats seatPairs_mem by blast
      have "distinct (map (siID \<circ> saSlot) (elSlots l))" unfolding l by (rule current_ids)
      then have "d = c" using d(1,3) c(1) by (auto simp: distinct_map inj_on_def)
      then show False using d(2) False by simp
    qed
    then show ?thesis using current_occupant(3) [of c preset roster st t week games now p] c False
      by (simp add: editBase_def pins_read_other l)
  qed
qed

definition poolFits :: "(player_id \<Rightarrow> string) \<Rightarrow> (player_id \<Rightarrow> player option) \<Rightarrow> bool" where
  "poolFits pos pool \<longleftrightarrow> poolOK pool \<and> (\<forall>i x. pool i = Some x \<longrightarrow> playerPosition x = pos i)"

definition rosterIn :: "(player_id \<Rightarrow> string) \<Rightarrow> player list \<Rightarrow> bool" where
  "rosterIn pos roster \<longleftrightarrow> rosterOK roster \<and> (\<forall>x\<in>set roster. playerPosition x = pos (playerID x))"

lemma generalRoster_in: "poolFits pos pool \<Longrightarrow> rosterIn pos (generalRoster pool st t)"
  unfolding rosterIn_def using generalRoster_OK generalRoster_mem unfolding poolFits_def poolOK_def by metis

lemma rosterIn_inj: "rosterIn pos roster \<Longrightarrow> p \<in> set roster \<Longrightarrow> q \<in> set roster \<Longrightarrow> playerID q = playerID p \<Longrightarrow> q = p"
  by (auto simp: rosterIn_def rosterOK_def distinct_map inj_on_def)

lemma occupant_fits:
  assumes "c \<in> set (elSlots (viewOf preset roster st t week games now))" "saPlayer c = Some p"
    and "fitsMap preset pos (snd (storedLineupSource st t week))" "rosterIn pos roster"
  shows "slotFits (siDef (saSlot c)) (playerPosition p)"
proof -
  obtain a where a: "a \<in> set (resolvedSlots preset roster (explicitSlots (lineups st t) week) week)"
    "sameSeat games week now (explicitSlots (lineups st t) week) a c" by (rule current_seat [OF assms(1)])
  have ac: "saSlot a = saSlot c" "saPlayer a = Some p" using a(2) assms(2) by (auto simp: sameSeat_def)
  from resolved_at [OF a(1)] consider (own) "a = explicitAssignment roster (explicitSlots (lineups st t) week) (saSlot a)"
    | (fill) b where "slotFits (siDef (saSlot a)) (playerPosition b)" "saPlayer a = Some b" by blast
  then show ?thesis
  proof cases
    case own
    then have "saPlayer (explicitAssignment roster (explicitSlots (lineups st t) week) (saSlot a)) = Some p" using ac by simp
    then have r: "slotRead (explicitSlots (lineups st t) week) (siID (saSlot a)) \<noteq> []"
      "rosterRead roster (slotRead (explicitSlots (lineups st t) week) (siID (saSlot a))) = Some p" by (auto split: if_splits)
    then have "p \<in> set roster" "playerID p = slotRead (explicitSlots (lineups st t) week) (siID (saSlot a))" using rosterRead_Some by auto
    then have "playerPosition p = pos (slotRead (explicitSlots (lineups st t) week) (siID (saSlot a)))" using assms(4) by (auto simp: rosterIn_def)
    then show ?thesis using assms(3) r(1) current_slot_mem(1) [OF assms(1)] ac(1) by (auto simp: fitsMap_def source_explicit)
  qed (use ac in auto)
qed

lemma occupant_at:
  assumes "c \<in> set (elSlots (viewOf preset roster st t week games now))" "saPlayer c = Some p"
    and "s \<in> set (lineupSlots preset)" "siID s = siID (saSlot c)"
    and "fitsMap preset pos (snd (storedLineupSource st t week))" "rosterIn pos roster"
  shows "slotFits (siDef s) (pos (playerID p))"
proof -
  have "p \<in> set roster" by (rule current_occupant(1) [OF assms(1,2)])
  then have "playerPosition p = pos (playerID p)" using assms(6) by (simp add: rosterIn_def)
  moreover have "s = saSlot c" by (rule slot_id_inj [OF assms(3) current_slot_mem(1) [OF assms(1)] assms(4)])
  ultimately show ?thesis using occupant_fits [OF assms(1,2,5,6)] by simp
qed

lemma base_reads:
  assumes l: "l = viewOf preset roster st t week games now"
  shows "slotRead (fst (editBase st t week l)) k = slotRead (snd (storedLineupSource st t week)) k \<or>
    (\<exists>c\<in>set (elSlots l). \<exists>p. saPlayer c = Some p \<and> k = siID (saSlot c) \<and> slotRead (fst (editBase st t week l)) k = playerID p)"
proof (cases "k \<in> fst ` set (pinnedPairs l)")
  case True
  then obtain i where i: "(k, i) \<in> set (pinnedPairs l)" by force
  then have "slotRead (fst (editBase st t week l)) k = i" unfolding editBase_def fst_conv by (rule pins_read [OF pins_keys [OF l]])
  then show ?thesis using i unfolding pinned_seats seatPairs_mem by blast
qed (simp add: editBase_def pins_read_other)

lemma base_fits:
  assumes l: "l = viewOf preset roster st t week games now" and "fitsMap preset pos (snd (storedLineupSource st t week))"
    and "rosterIn pos roster"
  shows "fitsMap preset pos (fst (editBase st t week l))"
  unfolding fitsMap_def
proof (intro ballI impI)
  fix s assume s: "s \<in> set (lineupSlots preset)" "slotRead (fst (editBase st t week l)) (siID s) \<noteq> []"
  from base_reads [OF l, of "siID s"] show "slotFits (siDef s) (pos (slotRead (fst (editBase st t week l)) (siID s)))"
  proof (elim disjE bexE exE conjE)
    assume "slotRead (fst (editBase st t week l)) (siID s) = slotRead (snd (storedLineupSource st t week)) (siID s)"
    then show ?thesis using assms(2) s by (simp add: fitsMap_def)
  next
    fix c p assume c: "c \<in> set (elSlots l)" "saPlayer c = Some p" "siID s = siID (saSlot c)"
      "slotRead (fst (editBase st t week l)) (siID s) = playerID p"
    show ?thesis unfolding c(4) using occupant_at [OF c(1) [unfolded l] c(2) s(1) c(3) assms(2,3)] .
  qed
qed

section \<open>Good maps\<close>

definition goodMap :: "roster_preset \<Rightarrow> (player_id \<Rightarrow> string) \<Rightarrow> effective_lineup \<Rightarrow> slot_map \<Rightarrow> bool" where
  "goodMap preset pos l m \<longleftrightarrow> mapOK preset pos m \<and> keepsLocked l m"

definition freeSlot :: "effective_lineup \<Rightarrow> string \<Rightarrow> bool" where
  "freeSlot l k \<longleftrightarrow> (\<forall>c\<in>set (elSlots l). siID (saSlot c) = k \<longrightarrow> saPlayer c \<noteq> None \<longrightarrow> \<not> saLocked c)"

definition unlockedIn :: "effective_lineup \<Rightarrow> player_id \<Rightarrow> bool" where
  "unlockedIn l i \<longleftrightarrow> (\<forall>c\<in>set (elSlots l). \<forall>p. saPlayer c = Some p \<longrightarrow> playerID p = i \<longrightarrow> \<not> saLocked c)"

lemma good_keys: "goodMap preset pos l m \<Longrightarrow> distinct (map fst m)"
  by (simp add: goodMap_def mapOK_def slotMapOK_def)

lemma good_enter:
  assumes "slot \<in> set (lineupSlots preset)" "freeSlot l (siID slot)" "slotFits (siDef slot) (pos i)"
    and "goodMap preset pos l m" "\<And>k. slotRead m k = i \<Longrightarrow> k = siID slot"
  shows "goodMap preset pos l (AList.update (siID slot) i m)"
proof -
  have "slotMapOK (slotIDs preset) (AList.update (siID slot) i m)"
    by (rule enter_OK) (use assms(4,5) in \<open>auto simp: goodMap_def mapOK_def\<close>)
  moreover have "fitsMap preset pos (AList.update (siID slot) i m)"
    unfolding fitsMap_def
  proof (intro ballI impI)
    fix s assume s: "s \<in> set (lineupSlots preset)" "slotRead (AList.update (siID slot) i m) (siID s) \<noteq> []"
    show "slotFits (siDef s) (pos (slotRead (AList.update (siID slot) i m) (siID s)))"
    proof (cases "siID s = siID slot")
      case True
      then have "s = slot" using slot_id_inj [OF s(1) assms(1)] by simp
      then show ?thesis using assms(3) by simp
    next
      case False
      then show ?thesis using s assms(4) by (simp add: goodMap_def mapOK_def fitsMap_def)
    qed
  qed
  moreover have "keepsLocked l (AList.update (siID slot) i m)"
    using assms(2,4) by (auto simp: goodMap_def keepsLocked_def freeSlot_def)
  ultimately show ?thesis by (simp add: goodMap_def mapOK_def)
qed

lemma good_delete: "goodMap preset pos l m \<Longrightarrow> freeSlot l k \<Longrightarrow> goodMap preset pos l (AList.delete k m)"
  using delete_OK [of "slotIDs preset" m k]
  by (auto simp: goodMap_def mapOK_def fitsMap_def keepsLocked_def freeSlot_def split: if_splits)

lemma good_filter:
  assumes "goodMap preset pos l m" "unlockedIn l i" "\<And>k q. \<not> P k q \<Longrightarrow> q = i"
  shows "goodMap preset pos l (filter (\<lambda>(k, q). P k q) m)"
proof -
  note r = slotRead_filter [OF good_keys [OF assms(1)], of P]
  have "readsOnce (slotIDs preset) (filter (\<lambda>(k, q). P k q) m)"
    using assms(1) unfolding goodMap_def mapOK_def slotMapOK_def readsOnce_def r by (auto split: if_splits)
  moreover have "distinct (map fst (filter (\<lambda>(k, q). P k q) m))" by (rule distinct_filter_keys [OF good_keys [OF assms(1)]])
  moreover have "fitsMap preset pos (filter (\<lambda>(k, q). P k q) m)"
    using assms(1) unfolding goodMap_def mapOK_def fitsMap_def r by (auto split: if_splits)
  moreover have "keepsLocked l (filter (\<lambda>(k, q). P k q) m)"
    unfolding keepsLocked_def r
  proof (intro ballI allI impI)
    fix c p assume c: "c \<in> set (elSlots l)" "saPlayer c = Some p" "saLocked c"
    have "slotRead m (siID (saSlot c)) = playerID p" using assms(1) c by (simp add: goodMap_def keepsLocked_def)
    moreover have "playerID p \<noteq> i" using assms(2) c by (auto simp: unlockedIn_def)
    ultimately show "(if P (siID (saSlot c)) (slotRead m (siID (saSlot c))) then slotRead m (siID (saSlot c)) else []) = playerID p"
      using assms(3) by auto
  qed
  ultimately show ?thesis by (simp add: goodMap_def mapOK_def slotMapOK_def)
qed

lemma good_startAt:
  assumes "goodMap preset pos l (fst base)" "freeSlot l (siID slot)" "unlockedIn l i" "slot \<in> set (lineupSlots preset)"
    and "slotFits (siDef slot) (pos i)" "i \<noteq> []"
  shows "goodMap preset pos l (fst (startAt (siID slot) i base))"
  unfolding startAt_def fst_conv
proof (rule good_enter [of slot preset l pos i, OF assms(4,2,5)])
  show "goodMap preset pos l (filter (\<lambda>(other, q). \<not> (other \<noteq> siID slot \<and> q = i)) (fst base))"
    by (rule good_filter [OF assms(1,3)]) auto
next
  fix k assume k: "slotRead (filter (\<lambda>(other, q). \<not> (other \<noteq> siID slot \<and> q = i)) (fst base)) k = i"
  then show "k = siID slot"
    unfolding slotRead_filter [OF good_keys [OF assms(1)], where P = "\<lambda>other q. \<not> (other \<noteq> siID slot \<and> q = i)"]
    using assms(6) by (auto split: if_splits)
qed

lemma good_clearAt: "goodMap preset pos l (fst base) \<Longrightarrow> freeSlot l k \<Longrightarrow> goodMap preset pos l (fst (clearAt k base))"
  by (simp add: clearAt_def good_delete)

lemma good_remove:
  "goodMap preset pos l (fst base) \<Longrightarrow> unlockedIn l i \<Longrightarrow> goodMap preset pos l (fst (removePlayer i base))"
  unfolding removePlayer_def fst_conv by (rule good_filter) auto

text \<open>The transfer: the target slot is free and fits the player, the source slot fits the one replaced.\<close>

lemma good_transfer:
  assumes base: "goodMap preset pos l (fst base)"
    and slot: "slot \<in> set (lineupSlots preset)" "freeSlot l (siID slot)"
    and p: "unlockedIn l i" "slotFits (siDef slot) (pos i)" "i \<noteq> []"
    and q: "\<And>j. q = Some j \<Longrightarrow> unlockedIn l j \<and> j \<noteq> [] \<and> j \<noteq> i"
    and f: "\<And>k. f = Some k \<Longrightarrow> freeSlot l k"
    and fq: "\<And>k j. f = Some k \<Longrightarrow> q = Some j \<Longrightarrow>
      \<exists>s. s \<in> set (lineupSlots preset) \<and> k = siID s \<and> slotFits (siDef s) (pos j)"
  shows "goodMap preset pos l (fst (transferBase f i (siID slot) q base))"
proof -
  have g1: "goodMap preset pos l (fst (removePlayer i base))" by (rule good_remove [OF base p(1)])
  note r1 = removePlayer_read [OF good_keys [OF base]]
  show ?thesis
  proof (cases q)
    case None
    show ?thesis
    proof (cases f)
      case f: None
      show ?thesis unfolding None f transferBase_def Let_def option.case fst_conv
        by (rule good_enter [of slot preset l pos i, OF slot p(2) g1]) (use p(3) in \<open>auto simp: r1 split: if_splits\<close>)
    next
      case (Some k)
      show ?thesis unfolding None Some transferBase_def Let_def option.case fst_conv
        by (rule good_enter [of slot preset l pos i, OF slot p(2) good_delete [OF g1 f [OF Some]]])
          (use p(3) in \<open>auto simp: r1 split: if_splits\<close>)
    qed
  next
    case (Some j)
    have j: "unlockedIn l j" "j \<noteq> []" "j \<noteq> i" using q [OF Some] by auto
    have g2: "goodMap preset pos l (fst (removePlayer j (removePlayer i base)))" by (rule good_remove [OF g1 j(1)])
    note r2 = removePlayer_read [OF good_keys [OF g1]]
    show ?thesis
    proof (cases f)
      case None
      show ?thesis unfolding None Some transferBase_def Let_def option.case fst_conv
        by (rule good_enter [of slot preset l pos i, OF slot p(2) g2]) (use p(3) in \<open>auto simp: r1 r2 split: if_splits\<close>)
    next
      case k: (Some k)
      obtain s where s: "s \<in> set (lineupSlots preset)" "k = siID s" "slotFits (siDef s) (pos j)"
        using fq [OF k Some] by blast
      have g3: "goodMap preset pos l (AList.update (siID s) j (fst (removePlayer j (removePlayer i base))))"
        by (rule good_enter [of s preset l pos j, OF s(1) f [OF k, unfolded s(2)] s(3) g2]) (use j in \<open>auto simp: r1 r2 split: if_splits\<close>)
      show ?thesis unfolding k Some s(2) transferBase_def Let_def option.case fst_conv
        by (rule good_enter [of slot preset l pos i, OF slot p(2) g3]) (use p(3) j in \<open>auto simp: r1 r2 split: if_splits\<close>)
    qed
  qed
qed

section \<open>The automatic week\<close>

definition lineupsOK :: "roster_preset \<Rightarrow> (player_id \<Rightarrow> string) \<Rightarrow> persisted_state \<Rightarrow> bool" where
  "lineupsOK preset pos st \<longleftrightarrow> (\<forall>t w m. lineups st t w = Some m \<longrightarrow> mapOK preset pos m)"

lemma mapOK_empty: "mapOK preset pos []"
  by (simp add: mapOK_def slotMapOK_def readsOnce_def fitsMap_def slotRead_def)

lemma sourceWeek_stored: "sourceWeek stored n = Some (w, m) \<Longrightarrow> stored w = Some m \<and> 1 \<le> w \<and> w \<le> int n"
  by (induction n) (auto split: option.splits)

lemma source_mapOK: "lineupsOK preset pos st \<Longrightarrow> mapOK preset pos (snd (storedLineupSource st t week))"
proof (cases "sourceWeek (lineups st t) (nat week)")
  case (Some r)
  assume "lineupsOK preset pos st"
  then show ?thesis using Some sourceWeek_stored [of "lineups st t" "nat week" "fst r" "snd r"]
    by (cases r) (auto simp: lineupsOK_def storedLineupSource_def)
qed (simp add: storedLineupSource_def mapOK_empty)

lemma sources:
  assumes "lineupsOK preset pos st"
  shows "sourceOK preset st t week" "fitsMap preset pos (snd (storedLineupSource st t week))"
  using source_mapOK [OF assms, of t week] by (simp_all add: sourceOK_def mapOK_def)

lemma base_good:
  assumes "l = viewOf preset roster st t week games now" "lineupsOK preset pos st" "rosterIn pos roster"
  shows "goodMap preset pos l (fst (editBase st t week l))"
  using base_OK [OF assms(1) sources(1) [OF assms(2)]] base_fits [OF assms(1) sources(2) [OF assms(2)] assms(3)]
    base_keeps [OF assms(1)] assms(3) by (simp add: goodMap_def mapOK_def rosterIn_def)

lemma pairs_read:
  assumes "distinct (map (siID \<circ> saSlot) cs)"
  shows "slotRead (seatPairs P cs) k = i \<Longrightarrow> i \<noteq> [] \<Longrightarrow> (k, i) \<in> set (seatPairs P cs)"
    and "(k, i) \<in> set (seatPairs P cs) \<Longrightarrow> slotRead (seatPairs P cs) k = i"
  using seatPairs_keys [OF assms, of P]
  by (auto simp: slotRead_def dest: map_of_SomeD split: option.splits)

text \<open>Any part of a resolved lineup is a map that names distinct players at slots they fit.\<close>

lemma seats_mapOK:
  assumes l: "l = viewOf preset roster st t week games now" and ok: "lineupsOK preset pos st" and ros: "rosterIn pos roster"
  shows "mapOK preset pos (seatPairs P (elSlots l))"
proof -
  let ?m = "seatPairs P (elSlots l)"
  have ids: "distinct (map (siID \<circ> saSlot) (elSlots l))" unfolding l by (rule current_ids)
  have "distinct (takenBy (elSlots l))" unfolding l by (rule current_distinct [OF sources(1) [OF ok]])
  then have v: "distinct (map snd ?m)" by (rule seatPairs_values)
  have "readsOnce (slotIDs preset) ?m"
    unfolding readsOnce_def
  proof (intro ballI impI)
    fix j k assume jk: "slotRead ?m j = slotRead ?m k" "slotRead ?m j \<noteq> []"
    have "(j, slotRead ?m j) \<in> set ?m" by (rule pairs_read(1) [OF ids refl jk(2)])
    moreover have "(k, slotRead ?m j) \<in> set ?m" by (rule pairs_read(1) [OF ids]) (use jk in simp_all)
    ultimately have "(j, slotRead ?m j) \<in> set ?m" "(k, slotRead ?m j) \<in> set ?m" by simp_all
    then show "j = k" using v unfolding distinct_map inj_on_def by (metis prod.inject snd_conv)
  qed
  moreover have "fitsMap preset pos ?m"
    unfolding fitsMap_def
  proof (intro ballI impI)
    fix s assume s: "s \<in> set (lineupSlots preset)" "slotRead ?m (siID s) \<noteq> []"
    have "(siID s, slotRead ?m (siID s)) \<in> set ?m" using pairs_read(1) [OF ids] s(2) by auto
    then obtain c p where c: "c \<in> set (elSlots l)" "saPlayer c = Some p" "siID s = siID (saSlot c)" "slotRead ?m (siID s) = playerID p"
      unfolding seatPairs_mem by blast
    show "slotFits (siDef s) (pos (slotRead ?m (siID s)))"
      unfolding c(4) by (rule occupant_at [OF c(1) [unfolded l] c(2) s(1) c(3) sources(2) [OF ok] ros])
  qed
  ultimately show ?thesis by (simp add: mapOK_def slotMapOK_def seatPairs_keys [OF ids])
qed

lemma pinned_good:
  assumes l: "l = viewOf preset roster st t week games now" and "lineupsOK preset pos st" "rosterIn pos roster"
  shows "goodMap preset pos l (seatPairs saLocked (elSlots l))"
proof -
  have ids: "distinct (map (siID \<circ> saSlot) (elSlots l))" unfolding l by (rule current_ids)
  have "keepsLocked l (seatPairs saLocked (elSlots l))"
    unfolding keepsLocked_def using pairs_read(2) [OF ids] seatPairs_mem by blast
  then show ?thesis using seats_mapOK [OF assms] by (simp add: goodMap_def)
qed

definition autoStep :: "player list \<Rightarrow> int \<Rightarrow> game_info list \<Rightarrow> time \<Rightarrow> slot_instance \<Rightarrow> slot_map \<times> player_id list \<Rightarrow>
    slot_map \<times> player_id list" where
  "autoStep roster week games now = (\<lambda>slot (resolved, taken).
     if map_of resolved (siID slot) \<noteq> None then (resolved, taken)
     else (case bestAutoFillCandidate (filter (\<lambda>p. playerID p \<notin> set taken \<and> slotFits (siDef slot) (playerPosition p)
                  \<and> \<not> playerLocked games week (playerNFLTeam p) now) roster) week of
             None \<Rightarrow> (resolved, taken)
           | Some best \<Rightarrow> (AList.update (siID slot) (playerID best) resolved, playerID best # taken)))"

lemma auto_fold:
  "autoFillWeek preset roster l week games now =
    fst (fold (autoStep roster week games now) (lineupSlots preset) (seatPairs saLocked (elSlots l), map snd (seatPairs saLocked (elSlots l))))"
  by (simp add: autoFillWeek_def autoStep_def seatPairs_def Let_def)

definition autoInv :: "roster_preset \<Rightarrow> (player_id \<Rightarrow> string) \<Rightarrow> effective_lineup \<Rightarrow> slot_map \<times> player_id list \<Rightarrow> bool" where
  "autoInv preset pos l r \<longleftrightarrow> goodMap preset pos l (fst r) \<and> (\<forall>k. slotRead (fst r) k \<noteq> [] \<longrightarrow> slotRead (fst r) k \<in> set (snd r))"

lemma auto_step:
  assumes "autoInv preset pos l r" "slot \<in> set (lineupSlots preset)" "rosterIn pos roster"
    "l = viewOf preset roster st t week games now"
  shows "autoInv preset pos l (autoStep roster week games now slot r)"
proof (cases "map_of (fst r) (siID slot)")
  case (Some v)
  then have "autoStep roster week games now slot r = r" by (cases r) (simp add: autoStep_def)
  then show ?thesis using assms(1) by simp
next
  case None
  let ?best = "bestAutoFillCandidate (filter (\<lambda>p. playerID p \<notin> set (snd r) \<and> slotFits (siDef slot) (playerPosition p)
    \<and> \<not> playerLocked games week (playerNFLTeam p) now) roster) week"
  show ?thesis
  proof (cases ?best)
    case none: None
    have "autoStep roster week games now slot r = r" using None none by (cases r) (simp add: autoStep_def)
    then show ?thesis using assms(1) by simp
  next
    case (Some b)
    have eq: "autoStep roster week games now slot r = (AList.update (siID slot) (playerID b) (fst r), playerID b # snd r)"
      using None Some by (cases r) (simp add: autoStep_def)
    have b: "b \<in> set roster" "playerID b \<notin> set (snd r)" "slotFits (siDef slot) (playerPosition b)" using best_from [OF Some] by auto
    have id: "playerID b \<noteq> []" "slotFits (siDef slot) (pos (playerID b))" using b(1,3) assms(3) by (auto simp: rosterIn_def rosterOK_def)
    have g: "goodMap preset pos l (fst r)" and tk: "\<And>k. slotRead (fst r) k \<noteq> [] \<Longrightarrow> slotRead (fst r) k \<in> set (snd r)"
      using assms(1) by (auto simp: autoInv_def)
    have "freeSlot l (siID slot)"
      unfolding freeSlot_def
    proof (intro ballI impI notI)
      fix c assume c: "c \<in> set (elSlots l)" "siID (saSlot c) = siID slot" "saPlayer c \<noteq> None" "saLocked c"
      then obtain p where p: "saPlayer c = Some p" by blast
      have "slotRead (fst r) (siID slot) = playerID p" using g c p by (auto simp: goodMap_def keepsLocked_def)
      moreover have "playerID p \<noteq> []" using current_occupant(1) [OF c(1) [unfolded assms(4)] p] assms(3) by (auto simp: rosterIn_def rosterOK_def)
      ultimately show False using None by (simp add: slotRead_def)
    qed
    moreover have "k = siID slot" if "slotRead (fst r) k = playerID b" for k using tk [of k] id(1) b(2) that by simp
    ultimately have "goodMap preset pos l (AList.update (siID slot) (playerID b) (fst r))"
      by (rule good_enter [of slot preset l pos "playerID b", OF assms(2) _ id(2) g])
    then show ?thesis using tk unfolding eq by (auto simp: autoInv_def)
  qed
qed

lemma auto_good:
  assumes "l = viewOf preset roster st t week games now" "lineupsOK preset pos st" "rosterIn pos roster"
  shows "goodMap preset pos l (autoFillWeek preset roster l week games now)"
proof -
  have ids: "distinct (map (siID \<circ> saSlot) (elSlots l))" unfolding assms(1) by (rule current_ids)
  have "slotRead (seatPairs saLocked (elSlots l)) k \<in> set (map snd (seatPairs saLocked (elSlots l)))"
    if "slotRead (seatPairs saLocked (elSlots l)) k \<noteq> []" for k using pairs_read(1) [OF ids refl that] by force
  then have "autoInv preset pos l (seatPairs saLocked (elSlots l), map snd (seatPairs saLocked (elSlots l)))"
    using pinned_good [OF assms] by (simp add: autoInv_def)
  moreover have "autoInv preset pos l (fold (autoStep roster week games now) ss r)"
    if "set ss \<subseteq> set (lineupSlots preset)" "autoInv preset pos l r" for ss r
    using that auto_step [OF _ _ assms(3,1)] by (induction ss arbitrary: r) auto
  ultimately show ?thesis unfolding auto_fold by (simp add: autoInv_def)
qed

section \<open>What the actions write\<close>

text \<open>An action leaves the store alone or stores a good map for its week, which is then not final.\<close>

definition wrote :: "league_env \<Rightarrow> (player_id \<Rightarrow> string) \<Rightarrow> lineup_input \<Rightarrow> persisted_state \<Rightarrow> team_id \<Rightarrow> int \<Rightarrow> store \<Rightarrow> store \<Rightarrow> bool" where
  "wrote env pos li st t week s s' \<longleftrightarrow> s' = s \<or> (\<exists>m ms. goodMap (envRoster env) pos (currentLineup env li st t week) m \<and>
     s' = s\<lparr>stState := putMarkers t week ms (putLineup t week m (stState s))\<rparr> \<and> 1 \<le> week \<and>
     \<not> lineupWeekFinalLocked (stState s) week)"

lemma wrote_base:
  "writeBase env st t week base ok s = (r, s') \<Longrightarrow> goodMap (envRoster env) pos (currentLineup env li st t week) (fst base) \<Longrightarrow>
    wrote env pos li st t week s s'"
  unfolding writeBase_def setLineupWeekIfUnchanged_def wrote_def
  by (auto simp: gated_def rejected_def commitOnly_def split: if_splits)

lemma wrote_same: "wrote env pos li st t week s s"
  by (simp add: wrote_def)

lemma view_unlocked:
  assumes "l = viewOf preset roster st t week games now" "rosterIn pos roster" "p \<in> set roster"
    "\<not> playerLocked games week (playerNFLTeam p) now"
  shows "unlockedIn l (playerID p)"
  unfolding unlockedIn_def
proof (intro ballI allI impI)
  fix c q assume c: "c \<in> set (elSlots l)" "saPlayer c = Some q" "playerID q = playerID p"
  have "q \<in> set roster" by (rule current_occupant(1) [OF c(1) [unfolded assms(1)] c(2)])
  then have "q = p" using rosterIn_inj [OF assms(2,3)] c(3) by blast
  then show "\<not> saLocked c" using current_occupant(2) [OF c(1) [unfolded assms(1)] c(2)] assms(4) by simp
qed

lemma occupant_unlocked:
  assumes "l = viewOf preset roster st t week games now" "rosterIn pos roster" "c \<in> set (elSlots l)" "saPlayer c = Some p"
    "\<not> saLocked c"
  shows "unlockedIn l (playerID p)"
  by (rule view_unlocked [OF assms(1,2)]) (use current_occupant(1,2) [of c preset roster st t week games now p] assms in auto)

lemma held_free:
  assumes "l = viewOf preset roster st t week games now" "slotAssignment l k = Some c" "saPlayer c = None \<or> \<not> saLocked c"
  shows "freeSlot l k"
  unfolding freeSlot_def
proof (intro ballI impI)
  have ids: "distinct (map (siID \<circ> saSlot) (elSlots l))" unfolding assms(1) by (rule current_ids)
  have c: "c \<in> set (elSlots l)" "siID (saSlot c) = k" using assms(2) by (auto simp: slotAssignment_def find_Some_iff)
  fix d assume d: "d \<in> set (elSlots l)" "siID (saSlot d) = k" "saPlayer d \<noteq> None"
  then have "d = c" using ids c by (auto simp: distinct_map inj_on_def)
  then show "\<not> saLocked d" using assms(3) d(3) by auto
qed

lemma slot_known:
  assumes "l = viewOf preset roster st t week games now" "s \<in> set (lineupSlots preset)"
  obtains c where "slotAssignment l (siID s) = Some c" "c \<in> set (elSlots l)" "saSlot c = s"
proof -
  have "map saSlot (elSlots l) = lineupSlots preset" unfolding assms(1) using seats_slots [OF current_seats] resolved_slots by metis
  then have "saSlot ` set (elSlots l) = set (lineupSlots preset)" by (metis list.set_map)
  then obtain d where d: "d \<in> set (elSlots l)" "saSlot d = s" using assms(2) by (metis imageE)
  then have "slotAssignment l (siID s) \<noteq> None" by (auto simp: slotAssignment_def find_None_iff)
  then obtain c where c: "slotAssignment l (siID s) = Some c" by blast
  then have m: "c \<in> set (elSlots l)" "siID (saSlot c) = siID s" by (auto simp: slotAssignment_def find_Some_iff)
  have "saSlot c = s" by (rule slot_id_inj [OF current_slot_mem(1) [OF m(1) [unfolded assms(1)]] assms(2) m(2)])
  then show thesis using that c m(1) by blast
qed

lemma known_slot: "lineupSlotByID preset k = Some s \<Longrightarrow> s \<in> set (lineupSlots preset)"
  by (auto simp: lineupSlotByID_def find_Some_iff)

lemma occupantLocked_None: "occupantLocked (Some c) = None \<longleftrightarrow> saPlayer c = None \<or> \<not> saLocked c"
  by (simp add: occupantLocked_def split: option.splits)

lemma occupantLocked_Some: "occupantLocked (Some c) = Some i \<longleftrightarrow> (\<exists>p. saPlayer c = Some p \<and> saLocked c \<and> i = playerID p)"
  by (auto simp: occupantLocked_def split: option.splits)

lemma setLineup_wrote:
  assumes run: "setLineup env li (Some t) week slotID requested st ok s = (r, s')"
    and ok: "lineupsOK (envRoster env) pos st" and pool: "poolFits pos (liPool li)"
  shows "wrote env pos li st t week s s'"
proof (cases "lineupWeekForAction week (liGames li) (liNow li)")
  case (Some e)
  then show ?thesis using run by (simp add: setLineup_def rejected_def wrote_same)
next
  case week: None
  show ?thesis
  proof (cases "lineupSlotByID (envRoster env) slotID")
    case None
    then show ?thesis using run week by (simp add: setLineup_def rejected_def wrote_same)
  next
    case (Some slot)
    define l where l: "l = currentLineup env li st t week"
    define roster where "roster = generalRoster (liPool li) st t"
    have view: "l = viewOf (envRoster env) roster st t week (liGames li) (liNow li)" unfolding l currentLineup_def roster_def ..
    have ros: "rosterIn pos roster" unfolding roster_def by (rule generalRoster_in [OF pool])
    have good: "goodMap (envRoster env) pos l (fst (editBase st t week l))" by (rule base_good [OF view ok ros])
    have slot: "slot \<in> set (lineupSlots (envRoster env))" by (rule known_slot [OF Some])
    obtain c where c: "slotAssignment l (siID slot) = Some c" "c \<in> set (elSlots l)" "saSlot c = slot" by (rule slot_known [OF view slot])
    note run' = run [unfolded setLineup_def Let_def option.case week Some, folded l roster_def, unfolded c(1)]
    show ?thesis
    proof (cases "trimSpace requested = []")
      case True
      show ?thesis
      proof (cases "occupantLocked (Some c)")
        case None
        then have "freeSlot l (siID slot)" using held_free [OF view c(1)] by (simp add: occupantLocked_None)
        then have "goodMap (envRoster env) pos l (fst (clearAt (siID slot) (editBase st t week l)))" by (rule good_clearAt [OF good])
        moreover have "writeBase env st t week (clearAt (siID slot) (editBase st t week l)) ok s = (r, s')" using run' True None by simp
        ultimately show ?thesis using wrote_base unfolding l by blast
      qed (use run' True in \<open>simp add: rejected_def wrote_same\<close>)
    next
      case False
      show ?thesis
      proof (cases "rosterRead roster (trimSpace requested)")
        case (Some p)
        have p: "p \<in> set roster" "playerID p \<noteq> []" "playerPosition p = pos (playerID p)"
          using rosterRead_Some [OF Some] ros by (auto simp: rosterIn_def rosterOK_def)
        show ?thesis
        proof (cases "slotFits (siDef slot) (playerPosition p) \<and> \<not> playerLocked (liGames li) week (playerNFLTeam p) (liNow li) \<and>
            \<not> (occupantLocked (Some c) \<noteq> None \<and> occupantLocked (Some c) \<noteq> Some (playerID p))")
          case True
          have un: "unlockedIn l (playerID p)" by (rule view_unlocked [OF view ros p(1)]) (use True in simp)
          have "saPlayer c = None \<or> \<not> saLocked c"
            using True un c(2) unfolding unlockedIn_def occupantLocked_None occupantLocked_Some by (cases "saPlayer c") (simp, metis)
          then have "freeSlot l (siID slot)" by (rule held_free [OF view c(1)])
          then have "goodMap (envRoster env) pos l (fst (startAt (siID slot) (playerID p) (editBase st t week l)))"
            by (rule good_startAt [OF good _ un slot _ p(2)]) (use True p(3) in simp)
          moreover have "writeBase env st t week (startAt (siID slot) (playerID p) (editBase st t week l)) ok s = (r, s')"
            using run' False Some True by (auto split: if_splits)
          ultimately show ?thesis using wrote_base unfolding l by blast
        qed (use run' False Some in \<open>auto simp: rejected_def wrote_same split: if_splits\<close>)
      qed (use run' False in \<open>simp add: rejected_def wrote_same\<close>)
    qed
  qed
qed

lemma seat_free:
  assumes "l = viewOf preset roster st t week games now" "c \<in> set (elSlots l)" "saPlayer c = None \<or> \<not> saLocked c"
  shows "freeSlot l (siID (saSlot c))"
  unfolding freeSlot_def
proof (intro ballI impI)
  have ids: "distinct (map (siID \<circ> saSlot) (elSlots l))" unfolding assms(1) by (rule current_ids)
  fix d assume d: "d \<in> set (elSlots l)" "siID (saSlot d) = siID (saSlot c)" "saPlayer d \<noteq> None"
  then have "d = c" using ids assms(2) by (auto simp: distinct_map inj_on_def)
  then show "\<not> saLocked d" using assms(3) d(3) by auto
qed

lemma swapGuard_None:
  assumes "swapGuard a p b = None"
  shows "\<not> saLocked a" "saPlayer b = None \<or> \<not> saLocked b" "slotFits (siDef (saSlot b)) (playerPosition p)"
    "\<And>q. saPlayer b = Some q \<Longrightarrow> slotFits (siDef (saSlot a)) (playerPosition q)"
  using assms by (auto simp: swapGuard_def occupantLocked_def split: if_splits option.splits)

lemma swap_wrote:
  assumes run: "swapSlots env st t week l a p b ok s = (r, s')" and l: "l = currentLineup env li st t week"
    and ok: "lineupsOK (envRoster env) pos st" and pool: "poolFits pos (liPool li)"
    and ab: "a \<in> set (elSlots l)" "b \<in> set (elSlots l)" "saPlayer a = Some p" "siID (saSlot a) \<noteq> siID (saSlot b)"
  shows "wrote env pos li st t week s s'"
proof (cases "swapGuard a p b")
  case (Some e)
  then show ?thesis using run by (simp add: swapSlots_def rejected_def wrote_same)
next
  case None
  note g = swapGuard_None [OF None]
  define roster where "roster = generalRoster (liPool li) st t"
  have view: "l = viewOf (envRoster env) roster st t week (liGames li) (liNow li)" unfolding l currentLineup_def roster_def ..
  have ros: "rosterIn pos roster" unfolding roster_def by (rule generalRoster_in [OF pool])
  have known: "x \<in> set roster \<and> playerID x \<noteq> [] \<and> playerPosition x = pos (playerID x)" if "c \<in> set (elSlots l)" "saPlayer c = Some x" for c x
    using current_occupant(1) [OF that(1) [unfolded view] that(2)] ros by (auto simp: rosterIn_def rosterOK_def)
  note slots = current_slot_mem(1) [of _ "envRoster env" roster st t week "liGames li" "liNow li", folded view]
  have differ: "playerID q \<noteq> playerID p" if "saPlayer b = Some q" for q
  proof
    assume "playerID q = playerID p"
    moreover have "distinct (takenBy (elSlots l))" unfolding view by (rule current_distinct [OF sources(1) [OF ok]])
    ultimately have "b = a" using takenBy_once ab that by blast
    then show False using ab(4) by simp
  qed
  have "goodMap (envRoster env) pos l
    (fst (transferBase (Some (siID (saSlot a))) (playerID p) (siID (saSlot b)) (map_option playerID (saPlayer b)) (editBase st t week l)))"
  proof (rule good_transfer [OF base_good [OF view ok ros] slots [OF ab(2)] seat_free [OF view ab(2) g(2)] occupant_unlocked [OF view ros ab(1,3) g(1)]])
    show "slotFits (siDef (saSlot b)) (pos (playerID p))" "playerID p \<noteq> []" using known [OF ab(1,3)] g(3) by auto
  next
    fix j assume "map_option playerID (saPlayer b) = Some j"
    then obtain q where q: "saPlayer b = Some q" "j = playerID q" by auto
    then show "unlockedIn l j \<and> j \<noteq> [] \<and> j \<noteq> playerID p"
      using occupant_unlocked [OF view ros ab(2) q(1)] g(2) known [OF ab(2) q(1)] differ by auto
  next
    fix k assume "Some (siID (saSlot a)) = Some k"
    then show "freeSlot l k" using seat_free [OF view ab(1)] g(1) by simp
  next
    fix k j assume k: "Some (siID (saSlot a)) = Some k" "map_option playerID (saPlayer b) = Some j"
    then obtain q where q: "saPlayer b = Some q" "j = playerID q" by auto
    show "\<exists>s. s \<in> set (lineupSlots (envRoster env)) \<and> k = siID s \<and> slotFits (siDef s) (pos j)"
      by (rule exI [where x = "saSlot a"])
        (use slots [OF ab(1)] k(1) known [OF ab(2) q(1)] g(4) [OF q(1)] q(2) in simp)
  qed
  moreover have "writeBase env st t week (transferBase (Some (siID (saSlot a))) (playerID p) (siID (saSlot b))
      (map_option playerID (saPlayer b)) (editBase st t week l)) ok s = (r, s')"
    using run None by (simp add: swapSlots_def)
  ultimately show ?thesis using wrote_base unfolding l by blast
qed

lemma slotAssignment_Some: "slotAssignment l k = Some c \<Longrightarrow> c \<in> set (elSlots l) \<and> siID (saSlot c) = k"
  by (auto simp: slotAssignment_def find_Some_iff)

lemma startsAt_Some: "startsAt l i = Some a \<Longrightarrow> a \<in> set (elSlots l) \<and> (\<exists>p. saPlayer a = Some p \<and> playerID p = i)"
  by (auto simp: startsAt_def find_Some_iff split: option.splits)

lemma lineupMove_wrote:
  assumes run: "lineupMove env li (Some t) week fromSlotID toSlotID st ok s = (r, s')"
    and ok: "lineupsOK (envRoster env) pos st" and pool: "poolFits pos (liPool li)"
  shows "wrote env pos li st t week s s'"
proof (rule ccontr)
  assume no: "\<not> wrote env pos li st t week s s'"
  define l where l: "l = currentLineup env li st t week"
  have ns: "s' \<noteq> s" using no wrote_same by blast
  from run ns obtain i k a p b where w: "slotAssignment l i = Some a" "saPlayer a = Some p"
    "slotAssignment l k = Some b" "i \<noteq> k" "swapSlots env st t week l a p b ok s = (r, s')"
    unfolding lineupMove_def l by (auto simp: Let_def rejected_def split: option.splits if_splits)
  then show False using swap_wrote [OF w(5) l ok pool] slotAssignment_Some no by metis
qed

lemma lineupMoveTo_wrote:
  "lineupMoveTo env li (Some t) week fromSlotID target st ok s = (r, s') \<Longrightarrow> lineupsOK (envRoster env) pos st \<Longrightarrow>
    poolFits pos (liPool li) \<Longrightarrow> wrote env pos li st t week s s'"
  using lineupMove_wrote by (auto simp: lineupMoveTo_def Let_def rejected_def wrote_same split: if_splits)

lemma lineupAuto_wrote:
  assumes run: "lineupAuto env li (Some t) week st ok s = (r, s')"
    and ok: "lineupsOK (envRoster env) pos st" and pool: "poolFits pos (liPool li)"
  shows "wrote env pos li st t week s s'"
proof -
  let ?m = "autoFillWeek (envRoster env) (generalRoster (liPool li) st t) (currentLineup env li st t week) week (liGames li) (liNow li)"
  have "goodMap (envRoster env) pos (currentLineup env li st t week) ?m"
    by (rule auto_good [OF _ ok generalRoster_in [OF pool]]) (rule currentLineup_def)
  then show ?thesis using run unfolding lineupAuto_def setLineupWeek_def wrote_def
    by (auto simp: gated_def rejected_def commitOnly_def split: if_splits option.splits)
qed

lemma lineupMovePlayerTo_wrote:
  assumes run: "lineupMovePlayerTo env li (Some t) week requested toSlotID st ok s = (r, s')"
    and ok: "lineupsOK (envRoster env) pos st" and pool: "poolFits pos (liPool li)"
  shows "wrote env pos li st t week s s'"
proof (rule ccontr)
  assume no: "\<not> wrote env pos li st t week s s'"
  then have ns: "s' \<noteq> s" using wrote_same by blast
  define l where l: "l = currentLineup env li st t week"
  define roster where "roster = generalRoster (liPool li) st t"
  have view: "l = viewOf (envRoster env) roster st t week (liGames li) (liNow li)" unfolding l currentLineup_def roster_def ..
  have ros: "rosterIn pos roster" unfolding roster_def by (rule generalRoster_in [OF pool])
  from run ns obtain toSlot where to: "lineupSlotByID (envRoster env) (trimSpace toSlotID) = Some toSlot"
    unfolding lineupMovePlayerTo_def by (auto simp: rejected_def split: option.splits)
  have slot: "toSlot \<in> set (lineupSlots (envRoster env))" by (rule known_slot [OF to])
  obtain b where b: "slotAssignment l (siID toSlot) = Some b" "b \<in> set (elSlots l)" "saSlot b = toSlot" by (rule slot_known [OF view slot])
  show False
  proof (cases "startsAt l (trimSpace requested)")
    case (Some a)
    obtain p where a: "a \<in> set (elSlots l)" "saPlayer a = Some p" using startsAt_Some [OF Some] by blast
    have "siID (saSlot a) \<noteq> siID toSlot \<and> swapSlots env st t week l a p b ok s = (r, s')"
      using run ns to Some a(2) b(1) unfolding lineupMovePlayerTo_def l
      by (auto simp: Let_def rejected_def split: option.splits if_splits)
    then show False using swap_wrote [OF _ l ok pool a(1) b(2) a(2)] b(3) no by auto
  next
    case None
    from run ns to None b(1) obtain p where p: "find (\<lambda>x. playerID x = trimSpace requested) (elBench l) = Some p"
      "\<not> playerLocked (liGames li) week (playerNFLTeam p) (liNow li)" "slotFits (siDef toSlot) (playerPosition p)" "occupantLocked (Some b) = None"
      and w: "writeBase env st t week (transferBase None (playerID p) (siID toSlot) (map_option playerID (saPlayer b)) (editBase st t week l)) ok s = (r, s')"
      unfolding lineupMovePlayerTo_def l by (auto simp: Let_def rejected_def split: option.splits if_splits)
    have bench: "p \<in> set (elBench l)" using p(1) by (auto simp: find_Some_iff)
    then have pr: "p \<in> set roster" "playerID p \<notin> set (takenBy (elSlots l))"
      unfolding view current_bench seats_taken [OF current_seats] by (simp_all add: effectiveLineup_def Let_def)
    have known: "playerID x \<noteq> []" "playerPosition x = pos (playerID x)" if "x \<in> set roster" for x
      using that ros by (auto simp: rosterIn_def rosterOK_def)
    have free: "saPlayer b = None \<or> \<not> saLocked b" using p(4) by (simp add: occupantLocked_None)
    have "goodMap (envRoster env) pos l
      (fst (transferBase None (playerID p) (siID toSlot) (map_option playerID (saPlayer b)) (editBase st t week l)))"
    proof (rule good_transfer [OF base_good [OF view ok ros] slot held_free [OF view b(1) free] view_unlocked [OF view ros pr(1) p(2)]
          p(3) [unfolded known(2) [OF pr(1)]] known(1) [OF pr(1)]])
      fix j assume "map_option playerID (saPlayer b) = Some j"
      then obtain q where q: "saPlayer b = Some q" "j = playerID q" by auto
      have "playerID q \<in> set (takenBy (elSlots l))" unfolding takenBy_mem using b(2) q(1) by blast
      moreover have "q \<in> set roster" by (rule current_occupant(1) [OF b(2) [unfolded view] q(1)])
      ultimately show "unlockedIn l j \<and> j \<noteq> [] \<and> j \<noteq> playerID p"
        using occupant_unlocked [OF view ros b(2) q(1)] free q known(1) pr(2) by auto
    qed simp_all
    then show False using wrote_base [OF w] no unfolding l by blast
  qed
qed

section \<open>Any action\<close>

datatype lineup_action = SetSlot string string | MovePlayer string string | MoveSlots string string
  | MoveToIndex string int | AutoWeek

fun runLineup :: "lineup_action \<Rightarrow> league_env \<Rightarrow> lineup_input \<Rightarrow> team_id option \<Rightarrow> int \<Rightarrow> persisted_state \<Rightarrow> bool \<Rightarrow> store \<Rightarrow>
    (store, lineup_error, unit) outcome" where
  "runLineup (SetSlot slot p) env li acting week st ok s = setLineup env li acting week slot p st ok s"
| "runLineup (MovePlayer p slot) env li acting week st ok s = lineupMovePlayerTo env li acting week p slot st ok s"
| "runLineup (MoveSlots f slot) env li acting week st ok s = lineupMove env li acting week f slot st ok s"
| "runLineup (MoveToIndex f i) env li acting week st ok s = lineupMoveTo env li acting week f i st ok s"
| "runLineup AutoWeek env li acting week st ok s = lineupAuto env li acting week st ok s"

lemma action_wrote:
  assumes "runLineup a env li (Some t) week st ok s = (r, s')" "lineupsOK (envRoster env) pos st" "poolFits pos (liPool li)"
  shows "wrote env pos li st t week s s'"
  using assms(1) setLineup_wrote [OF _ assms(2,3)] lineupMovePlayerTo_wrote [OF _ assms(2,3)] lineupMove_wrote [OF _ assms(2,3)]
    lineupMoveTo_wrote [OF _ assms(2,3)] lineupAuto_wrote [OF _ assms(2,3)] by (cases a) auto

lemma action_nobody: "runLineup a env li None week st ok s = (r, s') \<Longrightarrow> s' = s"
  by (cases a) (auto simp: setLineup_def lineupMovePlayerTo_def lineupMove_def lineupMoveTo_def lineupAuto_def rejected_def Let_def
    split: if_splits)

lemma put_source:
  assumes "1 \<le> week"
  shows "storedLineupSource (putMarkers t week ms (putLineup t week m st)) t week = (week, m)"
proof -
  have n: "nat week = Suc (nat week - 1)" "week = int (Suc (nat week - 1))" using assms by simp_all
  have "sourceWeek (lineups (putMarkers t week ms (putLineup t week m st)) t) (Suc (nat week - 1)) = Some (week, m)"
    unfolding sourceWeek.simps n(2) [symmetric] by (simp add: putMarkers_def putLineup_def)
  then show ?thesis unfolding storedLineupSource_def n(1) [symmetric] by simp
qed

lemma put_ok:
  "lineupsOK preset pos st \<Longrightarrow> mapOK preset pos m \<Longrightarrow> lineupsOK preset pos (putMarkers t week ms (putLineup t week m st))"
  by (auto simp: lineupsOK_def putMarkers_def putLineup_def split: if_splits)

text \<open>What it means that a lineup is sound for a roster.\<close>

definition soundLineup :: "roster_preset \<Rightarrow> player list \<Rightarrow> effective_lineup \<Rightarrow> bool" where
  "soundLineup preset roster l \<longleftrightarrow> map saSlot (elSlots l) = lineupSlots preset \<and>
     mset (map playerID roster) = mset (takenBy (elSlots l)) + mset (map playerID (elBench l)) \<and>
     (\<forall>a\<in>set (elSlots l). \<forall>p. saPlayer a = Some p \<longrightarrow> p \<in> set roster \<and> slotFits (siDef (saSlot a)) (playerPosition p)) \<and>
     (\<forall>a\<in>set (elSlots l). saPlayer a = None \<longrightarrow> (\<forall>p\<in>set (elBench l). \<not> slotFits (siDef (saSlot a)) (playerPosition p)))"

lemma filter_split_mset: "distinct (map f xs) \<Longrightarrow> distinct ys \<Longrightarrow> set ys \<subseteq> f ` set xs \<Longrightarrow>
    mset (map f xs) = mset ys + mset (map f (filter (\<lambda>x. f x \<notin> set ys) xs))"
proof -
  assume a: "distinct (map f xs)" "distinct ys" "set ys \<subseteq> f ` set xs"
  have "mset (map f xs) = mset (map f (filter (\<lambda>x. f x \<in> set ys) xs)) + mset (map f (filter (\<lambda>x. f x \<notin> set ys) xs))"
    by (induction xs) auto
  moreover have "mset (map f (filter (\<lambda>x. f x \<in> set ys) xs)) = mset ys"
    using a by (intro set_eq_iff_mset_eq_distinct [THEN iffD1]) (auto simp: distinct_map_filter)
  ultimately show ?thesis by simp
qed

lemma view_sound:
  assumes "lineupsOK preset pos st" "rosterIn pos roster"
  shows "soundLineup preset roster (viewOf preset roster st t week games now)"
proof -
  let ?l = "viewOf preset roster st t week games now"
  let ?rs = "resolvedSlots preset roster (explicitSlots (lineups st t) week) week"
  have tk: "takenBy (elSlots ?l) = takenBy ?rs" by (rule seats_taken [OF current_seats])
  have bench: "elBench ?l = sortStable benchLess (filter (\<lambda>p. playerID p \<notin> set (takenBy ?rs)) roster)"
    by (simp add: current_bench effectiveLineup_def Let_def)
  have slots: "map saSlot (elSlots ?l) = lineupSlots preset" using seats_slots [OF current_seats] resolved_slots by metis
  have occ: "p \<in> set roster \<and> slotFits (siDef (saSlot a)) (playerPosition p)" if "a \<in> set (elSlots ?l)" "saPlayer a = Some p" for a p
    using current_occupant(1) [OF that] occupant_fits [OF that sources(2) [OF assms(1)] assms(2)] by simp
  have sub: "set (takenBy ?rs) \<subseteq> playerID ` set roster"
    unfolding tk [symmetric] takenBy_mem subset_iff using occ by blast
  have "distinct (takenBy ?rs)" using current_distinct [OF sources(1) [OF assms(1)]] tk by metis
  then have split: "mset (map playerID roster) = mset (takenBy ?rs) + mset (map playerID (filter (\<lambda>p. playerID p \<notin> set (takenBy ?rs)) roster))"
    using filter_split_mset [OF _ _ sub] assms(2) by (simp add: rosterIn_def rosterOK_def)
  have gap: "\<not> slotFits (siDef (saSlot c)) (playerPosition p)" if c: "c \<in> set (elSlots ?l)" "saPlayer c = None" "p \<in> set (elBench ?l)" for c p
  proof
    obtain a where a: "a \<in> set ?rs" "sameSeat games week now (explicitSlots (lineups st t) week) a c" by (rule current_seat [OF c(1)])
    assume "slotFits (siDef (saSlot c)) (playerPosition p)"
    then have "playerID p \<in> set (takenBy ?rs)"
      using resolved_no_gap [OF a(1), of p] a(2) c(2,3) by (simp add: sameSeat_def bench)
    then show False using c(3) by (simp add: bench)
  qed
  have "mset (map playerID (elBench ?l)) = mset (map playerID (filter (\<lambda>p. playerID p \<notin> set (takenBy ?rs)) roster))"
    by (simp add: bench)
  then have "mset (map playerID roster) = mset (takenBy (elSlots ?l)) + mset (map playerID (elBench ?l))"
    unfolding split tk by (rule arg_cong [OF sym])
  then show ?thesis unfolding soundLineup_def using slots occ gap by blast
qed

end
