(* ===== verification/Scoring.thy ===== *)
theory Scoring
  imports LineupActions Playoffs
begin

text \<open>
  Fantasy scoring (src/internal/league/scoring.go, scorer.go, breakdown.go): the rules and their commissioner
  overrides, the allowance ladders, how a stat line joins a player and what a lineup scores. Points are exact
  rationals, so the guards against NaN and infinities have no counterpart. Characters above ASCII count as
  letters and keep their case.
\<close>

section \<open>Rules\<close>

record scoring_rule =
  srKey :: string
  srLabel :: string
  srGroup :: string
  srPoints :: rat

definition rule :: "string \<Rightarrow> string \<Rightarrow> string \<Rightarrow> rat \<Rightarrow> scoring_rule" where
  "rule key label section points = \<lparr>srKey = key, srLabel = label, srGroup = section, srPoints = points\<rparr>"

definition defaultScoringRules :: "scoring_rule list" where
  "defaultScoringRules =
   [rule ''passYards'' ''Passing yards (per yard)'' ''PASSING'' (1 / 25),
    rule ''passTD'' ''Passing TD'' ''PASSING'' (4),
    rule ''passInt'' ''Interception thrown'' ''PASSING'' (- 2),
    rule ''rushYards'' ''Rushing yards (per yard)'' ''RUSHING'' (1 / 10),
    rule ''rushTD'' ''Rushing TD'' ''RUSHING'' (6),
    rule ''reception'' ''Reception'' ''RECEIVING'' (1 / 2),
    rule ''recYards'' ''Receiving yards (per yard)'' ''RECEIVING'' (1 / 10),
    rule ''recTD'' ''Receiving TD'' ''RECEIVING'' (6),
    rule ''fumbleLost'' ''Fumble lost'' ''MISC'' (- 2),
    rule ''twoPt'' ''Two-point conversion'' ''MISC'' (2),
    rule ''returnTD'' ''Kick or punt return TD'' ''MISC'' (6),
    rule ''fgMade'' ''Field goal made'' ''KICKING'' (3),
    rule ''fgMissed'' ''Field goal missed'' ''KICKING'' (- 1),
    rule ''xpMade'' ''Extra point made'' ''KICKING'' (1),
    rule ''dstSack'' ''Sack'' ''DEFENSE'' (1),
    rule ''dstInt'' ''Interception'' ''DEFENSE'' (2),
    rule ''dstFumbleRec'' ''Fumble recovery'' ''DEFENSE'' (2),
    rule ''dstForcedFumble'' ''Forced fumble'' ''DEFENSE'' (1),
    rule ''dstTD'' ''Defensive TD'' ''DEFENSE'' (6),
    rule ''dstSafety'' ''Safety'' ''DEFENSE'' (2),
    rule ''dstBlockedKick'' ''Blocked kick (punt, PAT, or FG)'' ''DEFENSE'' (2),
    rule ''dstTwoPtReturn'' ''Defensive two-point return'' ''DEFENSE'' (2),
    rule ''dstSpecialTeamsTD'' ''Special-teams TD'' ''DEFENSE'' (6),
    rule ''dstPointsAllowed0'' ''Shutout (0 points allowed)'' ''POINTS ALLOWED'' (10),
    rule ''dstPointsAllowed1'' ''1-6 points allowed'' ''POINTS ALLOWED'' (7),
    rule ''dstPointsAllowed7'' ''7-13 points allowed'' ''POINTS ALLOWED'' (4),
    rule ''dstPointsAllowed14'' ''14-20 points allowed'' ''POINTS ALLOWED'' (1),
    rule ''dstPointsAllowed21'' ''21-27 points allowed'' ''POINTS ALLOWED'' (0),
    rule ''dstPointsAllowed28'' ''28-34 points allowed'' ''POINTS ALLOWED'' (- 1),
    rule ''dstPointsAllowed35'' ''35 or more points allowed'' ''POINTS ALLOWED'' (- 4),
    rule ''dstYardsAllowed0'' ''Under 100 total yards allowed'' ''YARDS ALLOWED'' (5),
    rule ''dstYardsAllowed100'' ''100-199 yards allowed'' ''YARDS ALLOWED'' (3),
    rule ''dstYardsAllowed200'' ''200-299 yards allowed'' ''YARDS ALLOWED'' (2),
    rule ''dstYardsAllowed300'' ''300-399 yards allowed'' ''YARDS ALLOWED'' (0),
    rule ''dstYardsAllowed400'' ''400-449 yards allowed'' ''YARDS ALLOWED'' (- 1),
    rule ''dstYardsAllowed450'' ''450-499 yards allowed'' ''YARDS ALLOWED'' (- 3),
    rule ''dstYardsAllowed500'' ''500 or more yards allowed'' ''YARDS ALLOWED'' (- 5),
    rule ''puntYards'' ''Punting yards, 40+ yard punts only (per yard)'' ''PUNTING'' (1 / 50),
    rule ''puntIn20'' ''Punt downed inside the 20'' ''PUNTING'' (3 / 2),
    rule ''coffinCorner'' ''Coffin corner (out-of-bounds inside the 10)'' ''PUNTING'' (1),
    rule ''puntDownedInside5'' ''Punt downed inside the 5'' ''PUNTING'' (2),
    rule ''puntLong50'' ''Punt 50+ yards (each)'' ''PUNTING'' (1),
    rule ''puntTouchback'' ''Punt touchback'' ''PUNTING'' (- (1 / 2)),
    rule ''puntBlocked'' ''Punt blocked'' ''PUNTING'' (- 2)]"

definition scoringRuleByKey :: "string \<Rightarrow> scoring_rule option" where
  "scoringRuleByKey key = find (\<lambda>r. srKey r = key) defaultScoringRules"

definition minScoringPoints :: rat where "minScoringPoints = - 25"
definition maxScoringPoints :: rat where "maxScoringPoints = 25"

definition validateScoringPoints :: "rat \<Rightarrow> bool" where
  "validateScoringPoints points \<longleftrightarrow> \<not> (points < minScoringPoints \<or> points > maxScoringPoints)"

text \<open>math.Round rounds halves away from zero.\<close>

definition goRound :: "rat \<Rightarrow> int" where
  "goRound x = (if 0 \<le> x then \<lfloor>x + 1 / 2\<rfloor> else - \<lfloor>1 / 2 - x\<rfloor>)"

definition roundPoints :: "rat \<Rightarrow> rat" where
  "roundPoints points = of_int (goRound (points * 100)) / 100"

definition scoringPoints :: "(string \<times> rat) list \<Rightarrow> string \<Rightarrow> rat" where
  "scoringPoints values key =
     (case map_of values key of Some points \<Rightarrow> points
      | None \<Rightarrow> (case scoringRuleByKey key of Some r \<Rightarrow> srPoints r | None \<Rightarrow> 0))"

definition pointsAllowedBands :: "(rat \<times> string) list" where
  "pointsAllowedBands = [(0, ''dstPointsAllowed0''), (1, ''dstPointsAllowed1''), (7, ''dstPointsAllowed7''),
     (14, ''dstPointsAllowed14''), (21, ''dstPointsAllowed21''), (28, ''dstPointsAllowed28''), (35, ''dstPointsAllowed35'')]"

definition yardsAllowedBands :: "(rat \<times> string) list" where
  "yardsAllowedBands = [(0, ''dstYardsAllowed0''), (100, ''dstYardsAllowed100''), (200, ''dstYardsAllowed200''),
     (300, ''dstYardsAllowed300''), (400, ''dstYardsAllowed400''), (450, ''dstYardsAllowed450''), (500, ''dstYardsAllowed500'')]"

text \<open>The ladder is walked from its worst band back to its best.\<close>

definition bandKey :: "rat \<Rightarrow> (rat \<times> string) list \<Rightarrow> string" where
  "bandKey v bands = (case find (\<lambda>(threshold, key). v \<ge> threshold) (rev bands) of Some (threshold, key) \<Rightarrow> key | None \<Rightarrow> snd (hd bands))"

definition PointsAllowedRuleKey :: "rat \<Rightarrow> string" where
  "PointsAllowedRuleKey pointsAllowed = bandKey pointsAllowed pointsAllowedBands"

definition YardsAllowedRuleKey :: "rat \<Rightarrow> string" where
  "YardsAllowedRuleKey yardsAllowed = (if yardsAllowed \<le> 0 then [] else bandKey yardsAllowed yardsAllowedBands)"

definition ReceptionPointsForScoringFormat :: "string \<Rightarrow> rat" where
  "ReceptionPointsForScoringFormat format = (if format = ''standard'' then 0 else if format = ''ppr'' then 1 else 1 / 2)"

section \<open>Overrides\<close>

datatype scoring_error = UnknownScoringKey string | PointsOutOfRange | ScoringIsLocked | NotANumber | NotCommissionerScoring

definition breakdownDefaultValues :: "(string \<times> rat) list" where
  "breakdownDefaultValues = map (\<lambda>r. (srKey r, srPoints r)) defaultScoringRules"

definition currentScoringValues :: "persisted_state \<Rightarrow> (string \<times> rat) list" where
  "currentScoringValues st =
     fold (\<lambda>(key, points) values. if map_of values key \<noteq> None then AList.update key points values else values)
       (scoringOverrides st) breakdownDefaultValues"

definition setScoringValue :: "string \<Rightarrow> rat \<Rightarrow> time \<Rightarrow> bool \<Rightarrow> store \<Rightarrow> (store, scoring_error, unit) outcome" where
  "setScoringValue key points editAt ok s =
     (case scoringRuleByKey key of None \<Rightarrow> rejected (UnknownScoringKey key) s
      | Some r \<Rightarrow>
        if \<not> validateScoringPoints points then rejected PointsOutOfRange s
        else gated s
          (let st = stState s; overrides = scoringOverrides st;
               changed = (case map_of overrides key of Some current \<Rightarrow> points = srPoints r \<or> current \<noteq> points
                          | None \<Rightarrow> points \<noteq> srPoints r)
           in commitOrRestore ok s
                (st\<lparr>scoringOverrides := (if points = srPoints r then AList.delete key overrides else AList.update key points overrides),
                    scoringChangedAt := (if changed then editAt else scoringChangedAt st)\<rparr>) ()))"

definition initReceptionFromScoringFormat :: "rat \<Rightarrow> bool \<Rightarrow> store \<Rightarrow> (store, scoring_error, unit) outcome" where
  "initReceptionFromScoringFormat points ok s = gated s
     (let st = stState s in
      if scoringOverrides st \<noteq> [] then (Inr (), s)
      else (case scoringRuleByKey ''reception'' of None \<Rightarrow> (Inr (), s)
            | Some r \<Rightarrow> if points = srPoints r then (Inr (), s)
                else commitOrRestore ok s (st\<lparr>scoringOverrides := [(''reception'', points)]\<rparr>) ()))"

definition resetScoring :: "time \<Rightarrow> bool \<Rightarrow> store \<Rightarrow> (store, scoring_error, unit) outcome" where
  "resetScoring editAt ok s = gated s
     (let st = stState s in
      commitOrRestore ok s (st\<lparr>scoringOverrides := [],
        scoringChangedAt := (if scoringOverrides st \<noteq> [] then editAt else scoringChangedAt st)\<rparr>) ())"

text \<open>The two migrations of old keys that run on every load.\<close>

definition migrateLegacyShutoutOverride :: "(string \<times> rat) list \<Rightarrow> (string \<times> rat) list" where
  "migrateLegacyShutoutOverride scoring =
     (case map_of scoring ''dstShutout'' of None \<Rightarrow> scoring
      | Some v \<Rightarrow> (let rest = AList.delete ''dstShutout'' scoring in
          if map_of rest ''dstPointsAllowed0'' = None then AList.update ''dstPointsAllowed0'' v rest else rest))"

definition legacyTwoPointRuleKeys :: "string list" where
  "legacyTwoPointRuleKeys = [''pass2pt'', ''rush2pt'', ''rec2pt'']"

definition migrateLegacyTwoPointOverrides :: "(string \<times> rat) list \<Rightarrow> (string \<times> rat) list" where
  "migrateLegacyTwoPointOverrides scoring =
     (case List.map_filter (map_of scoring) legacyTwoPointRuleKeys of [] \<Rightarrow> scoring
      | v # vs \<Rightarrow> (let best = foldl (\<lambda>best w. if w > best then w else best) v vs;
                     rest = fold AList.delete legacyTwoPointRuleKeys scoring in
          if map_of rest ''twoPt'' = None then AList.update ''twoPt'' best rest else rest))"

text \<open>The lock: the earlier of the configured season start and the first kickoff of the schedule.\<close>

definition scoringLockAt :: "persisted_state \<Rightarrow> game_info list \<Rightarrow> time \<Rightarrow> time" where
  "scoringLockAt st games seasonStart =
     (case (case seasonSchedule st of None \<Rightarrow> None
            | Some sch \<Rightarrow> if schWeeks sch = [] then None
                else earliestKickoffForWeek games (seasonStartWeekForSchedule (Some sch))) of
        None \<Rightarrow> seasonStart | Some kickoff \<Rightarrow> if kickoff < seasonStart then kickoff else seasonStart)"

definition ScoringLocked :: "persisted_state \<Rightarrow> game_info list \<Rightarrow> time \<Rightarrow> time \<Rightarrow> bool" where
  "ScoringLocked st games seasonStart now \<longleftrightarrow> \<not> now < scoringLockAt st games seasonStart"

text \<open>The commissioner's edits; the value is the parsed text, None when it is no number.\<close>

definition adminSetScoring :: "bool \<Rightarrow> persisted_state \<Rightarrow> game_info list \<Rightarrow> time \<Rightarrow> time \<Rightarrow> string \<Rightarrow> rat option \<Rightarrow> bool \<Rightarrow> store \<Rightarrow>
    (store, scoring_error, unit) outcome" where
  "adminSetScoring commissioner st games seasonStart now key value ok s =
     (if \<not> commissioner then rejected NotCommissionerScoring s
      else if ScoringLocked st games seasonStart now then rejected ScoringIsLocked s
      else if scoringRuleByKey key = None then rejected (UnknownScoringKey key) s
      else (case value of None \<Rightarrow> rejected NotANumber s
            | Some points \<Rightarrow> if \<not> validateScoringPoints points then rejected PointsOutOfRange s
                else setScoringValue key points now ok s))"

definition adminResetScoring :: "bool \<Rightarrow> persisted_state \<Rightarrow> game_info list \<Rightarrow> time \<Rightarrow> time \<Rightarrow> bool \<Rightarrow> store \<Rightarrow>
    (store, scoring_error, unit) outcome" where
  "adminResetScoring commissioner st games seasonStart now ok s =
     (if \<not> commissioner then rejected NotCommissionerScoring s
      else if ScoringLocked st games seasonStart now then rejected ScoringIsLocked s
      else resetScoring now ok s)"

section \<open>Stat lines\<close>

record week_stat_line =
  wsKey :: string
  wsStats :: "(string \<times> rat) list"
  wsSource :: string

definition isWordChar :: "char \<Rightarrow> bool" where
  "isWordChar c = (let n = (of_char c :: nat) in
     (97 \<le> n \<and> n \<le> 122) \<or> (65 \<le> n \<and> n \<le> 90) \<or> (48 \<le> n \<and> n \<le> 57) \<or> 128 \<le> n)"

text \<open>strings.FieldsFunc; the first argument collects the current field backwards.\<close>

fun wordsFrom :: "string \<Rightarrow> string \<Rightarrow> string list" where
  "wordsFrom cur [] = (if cur = [] then [] else [rev cur])"
| "wordsFrom cur (c # cs) =
     (if isWordChar c then wordsFrom (c # cur) cs else if cur = [] then wordsFrom [] cs else rev cur # wordsFrom [] cs)"

definition nameSuffixes :: "string list" where
  "nameSuffixes = [''jr'', ''sr'', ''ii'', ''iii'', ''iv'', ''v'']"

definition nameAliases :: "(string \<times> string) list" where
  "nameAliases = [(''andrewogletree'', ''drewogletree''), (''marquisebrown'', ''hollywoodbrown''), (''joshpalmer'', ''joshuapalmer'')]"

definition normalizePlayerKey :: "string \<Rightarrow> string \<Rightarrow> string" where
  "normalizePlayerKey name position =
     (let parts = map toLower (wordsFrom [] name);
          kept = (if length parts > 1 \<and> last parts \<in> set nameSuffixes then butlast parts else parts);
          nameKey = concat kept
      in (case map_of nameAliases nameKey of Some k \<Rightarrow> k | None \<Rightarrow> nameKey) @ ''|'' @ toUpper (trimSpace position))"

definition DSTStatKey :: "string \<Rightarrow> string" where
  "DSTStatKey nflTeam = normalizePlayerKey (''DST '' @ normalizeNFLAbbreviation nflTeam) ''DST''"

definition StatLineKey :: "string \<Rightarrow> string \<Rightarrow> string \<Rightarrow> string" where
  "StatLineKey name position nflTeam =
     (if toUpper (trimSpace position) = ''DST'' then DSTStatKey nflTeam else normalizePlayerKey name position)"

definition playerStatKey :: "player \<Rightarrow> string" where
  "playerStatKey p =
     (if toUpper (trimSpace (playerPosition p)) = ''DST'' then DSTStatKey (playerNFLTeam p)
      else normalizePlayerKey (playerName p) (playerPosition p))"

definition weekStatsByKey :: "week_stat_line list \<Rightarrow> string \<Rightarrow> (string \<times> rat) list option" where
  "weekStatsByKey stat_lines key = map_option wsStats (find (\<lambda>l. wsKey l = key) (rev stat_lines))"

section \<open>Scores\<close>

definition scorePlayerStats :: "(string \<times> rat) list \<Rightarrow> (string \<times> rat) list \<Rightarrow> rat" where
  "scorePlayerStats stats values = roundPoints (sum_list (map (\<lambda>(ruleKey, v). v * scoringPoints values ruleKey) stats))"

definition ScoreRuleStats :: "(string \<times> rat) list \<Rightarrow> (string \<times> rat) list option \<Rightarrow> rat" where
  "ScoreRuleStats stats values = scorePlayerStats stats (case values of None \<Rightarrow> breakdownDefaultValues | Some v \<Rightarrow> v)"

definition scorePlayerPoints :: "player \<Rightarrow> (string \<Rightarrow> (string \<times> rat) list option) \<Rightarrow> (string \<times> rat) list \<Rightarrow> rat option" where
  "scorePlayerPoints p byKey values = map_option (\<lambda>stats. scorePlayerStats stats values) (byKey (playerStatKey p))"

record join_miss =
  jmWeek :: int
  jmTeamID :: team_id
  jmPlayerID :: player_id
  jmPlayerName :: string
  jmPosition :: string

definition missOf :: "int \<Rightarrow> team_id \<Rightarrow> player \<Rightarrow> join_miss" where
  "missOf week t p = \<lparr>jmWeek = week, jmTeamID = t, jmPlayerID = playerID p, jmPlayerName = playerName p, jmPosition = playerPosition p\<rparr>"

definition scorePlayers :: "player list \<Rightarrow> week_stat_line list \<Rightarrow> (string \<times> rat) list \<Rightarrow> int \<Rightarrow> team_id \<Rightarrow> rat \<times> join_miss list" where
  "scorePlayers players stat_lines values week t =
     (let r = foldl (\<lambda>(total, misses) p. case scorePlayerPoints p (weekStatsByKey stat_lines) values of
                  None \<Rightarrow> (total, misses @ [missOf week t p]) | Some points \<Rightarrow> (total + points, misses)) (0, []) players
      in (roundPoints (fst r), snd r))"

type_synonym stats_source = "(int \<Rightarrow> week_stat_line list) option"

definition weekStatsSnapshot :: "stats_source \<Rightarrow> int \<Rightarrow> (week_stat_line list \<times> bool) option" where
  "weekStatsSnapshot source week = map_option (\<lambda>f. (f week, f week \<noteq> [])) source"

text \<open>The starters of a team: the pins of a closed week, or the lineup of an open one.\<close>

definition pinnedStarters :: "(player_id \<Rightarrow> player option) \<Rightarrow> persisted_state \<Rightarrow> team_id \<Rightarrow> int \<Rightarrow> player list option" where
  "pinnedStarters pool st t week =
     (if \<not> weekIsFinalInSchedule (seasonSchedule st) week then None
      else Some (List.map_filter pool (map snd (storedLineupWeek st t week))))"

definition startersOf :: "effective_lineup \<Rightarrow> player list" where
  "startersOf l = List.map_filter saPlayer (elSlots l)"

definition lineupStarters :: "league_env \<Rightarrow> lineup_input \<Rightarrow> persisted_state \<Rightarrow> team_id \<Rightarrow> int \<Rightarrow> player list" where
  "lineupStarters env li st t week =
     (case pinnedStarters (liPool li) st t week of Some ps \<Rightarrow> ps | None \<Rightarrow> startersOf (currentLineup env li st t week))"

definition teamWeekScore :: "league_env \<Rightarrow> lineup_input \<Rightarrow> persisted_state \<Rightarrow> stats_source \<Rightarrow> (string \<times> rat) list \<Rightarrow> team_id \<Rightarrow> int \<Rightarrow>
    ((rat \<times> join_miss list) \<times> bool) option" where
  "teamWeekScore env li st source values t week =
     map_option (\<lambda>(stat_lines, final). (scorePlayers (lineupStarters env li st t week) stat_lines values week t, final))
       (weekStatsSnapshot source week)"

section \<open>Live box scores\<close>

record breakdown_row =
  brStatKey :: string
  brRuleKey :: string

definition brow :: "string \<Rightarrow> string \<Rightarrow> breakdown_row" where
  "brow stat r = \<lparr>brStatKey = stat, brRuleKey = r\<rparr>"

definition breakdownRows :: "breakdown_row list" where
  "breakdownRows =
   [brow ''passYds'' ''passYards'',
    brow ''passTD'' ''passTD'',
    brow ''passInt'' ''passInt'',
    brow ''carries'' [],
    brow ''rushYds'' ''rushYards'',
    brow ''rushTD'' ''rushTD'',
    brow ''targets'' [],
    brow ''receptions'' ''reception'',
    brow ''recYds'' ''recYards'',
    brow ''recTD'' ''recTD'',
    brow ''fumblesLost'' ''fumbleLost'',
    brow ''twoPt'' ''twoPt'',
    brow ''returnTD'' ''returnTD'',
    brow ''fgMade'' ''fgMade'',
    brow ''fgMissed'' ''fgMissed'',
    brow ''xpMade'' ''xpMade'',
    brow ''puntYards'' ''puntYards'',
    brow ''puntIn20'' ''puntIn20'',
    brow ''coffinCorner'' ''coffinCorner'',
    brow ''puntDownedInside5'' ''puntDownedInside5'',
    brow ''puntLong50'' ''puntLong50'',
    brow ''puntTouchback'' ''puntTouchback'',
    brow ''puntBlocked'' ''puntBlocked'']"

definition tank01DSTRows :: "breakdown_row list" where
  "tank01DSTRows =
   [brow ''sacks'' ''dstSack'',
    brow ''defensiveInterceptions'' ''dstInt'',
    brow ''fumblesRecovered'' ''dstFumbleRec'',
    brow ''forcedFumbles'' ''dstForcedFumble'',
    brow ''defTD'' ''dstTD'',
    brow ''safeties'' ''dstSafety'',
    brow ''blockedKicks'' ''dstBlockedKick'',
    brow ''twoPointReturns'' ''dstTwoPtReturn'',
    brow ''specialTeamsTD'' ''dstSpecialTeamsTD'']"

definition liveDSTPointsAllowedKey :: string where "liveDSTPointsAllowedKey = ''liveDSTPointsAllowed''"
definition liveDSTYardsAllowedKey :: string where "liveDSTYardsAllowedKey = ''liveDSTYardsAllowed''"

definition RuleStatsFromTank01 :: "(string \<times> rat) list \<Rightarrow> bool \<Rightarrow> (string \<times> rat) list" where
  "RuleStatsFromTank01 stats final =
     (let scored = fold (\<lambda>row out. if brRuleKey row = [] then out
            else (case map_of stats (brStatKey row) of None \<Rightarrow> out | Some v \<Rightarrow> if v \<noteq> 0 then AList.update (brRuleKey row) v out else out))
            (breakdownRows @ tank01DSTRows) [];
          banded = (\<lambda>stat keyOf out. case map_of stats stat of None \<Rightarrow> out
            | Some v \<Rightarrow> if keyOf v \<noteq> [] then AList.update (keyOf v) 1 out else out);
          shown = (\<lambda>stat key out. case map_of stats stat of None \<Rightarrow> out
            | Some v \<Rightarrow> if v \<ge> 0 then AList.update key v out else out)
      in if final then banded ''ydsAllowed'' YardsAllowedRuleKey (banded ''ptsAllowed'' PointsAllowedRuleKey scored)
         else shown ''ydsAllowed'' liveDSTYardsAllowedKey (shown ''ptsAllowed'' liveDSTPointsAllowedKey scored))"

end
