(* ===== verification/Autopick.thy ===== *)
theory Autopick
  imports DraftFill
begin

text \<open>
  The selection rules of the draft (src/internal/league/draftclock.go): the roster viability boundary,
  the scarcity guard, the position cap, the board value guard and the choice an auto-pick makes. The
  memo tables of autopickChoiceWith cache pure calls and are not modelled.
\<close>

section \<open>Rosters under way\<close>

record player_pool =
  poolPlayers :: "player list"
  poolByID :: "player_id \<Rightarrow> player option"
  poolByHouse :: "player list"

definition pickedIn :: "persisted_state \<Rightarrow> player_id \<Rightarrow> bool" where
  "pickedIn st p = list_ex (\<lambda>k. pickPlayerID k = p) (picks st)"

definition teamDraftedPlayers :: "persisted_state \<Rightarrow> (player_id \<Rightarrow> player option) \<Rightarrow> team_id \<Rightarrow> player list \<times> int" where
  "teamDraftedPlayers st byID t =
     (let own = filter (\<lambda>k. pickTeamID k = t) (picks st)
      in (List.map_filter (\<lambda>k. byID (pickPlayerID k)) own, int (length own)))"

definition blankPlayer :: "string \<Rightarrow> player" where
  "blankPlayer position = zeroPlayer\<lparr>playerPosition := position\<rparr>"

definition teamCoversPositionRequirement :: "player list \<Rightarrow> roster_preset \<Rightarrow> string \<Rightarrow> bool" where
  "teamCoversPositionRequirement players preset position =
     (maximumDraftStarterFill (players @ [blankPlayer position]) preset \<le> maximumDraftStarterFill players preset)"

definition draftCandidateKeepsRosterViable :: "league_env \<Rightarrow> persisted_state \<Rightarrow> (player_id \<Rightarrow> player option) \<Rightarrow>
    team_id \<Rightarrow> player_id \<Rightarrow> bool" where
  "draftCandidateKeepsRosterViable env st byID t p =
     (case byID p of None \<Rightarrow> False
      | Some candidate \<Rightarrow>
          (case teamDraftedPlayers st byID t of (players, n) \<Rightarrow>
             (let remaining = envRounds env - (n + 1);
                  missing = presetStarters (envRoster env)
                    - maximumDraftStarterFill (players @ [candidate]) (envRoster env)
              in \<not> remaining < 0 \<and> missing \<le> remaining)))"

section \<open>The guards of the automatic choice\<close>

definition undraftedPositionSupply :: "player list \<Rightarrow> (player_id \<Rightarrow> bool) \<Rightarrow> string \<Rightarrow> int" where
  "undraftedPositionSupply players picked position =
     int (length (filter (\<lambda>p. playerPosition p = position \<and> \<not> picked (playerID p)) players))"

definition positionScarcityDetail :: "persisted_state \<Rightarrow> player_pool \<Rightarrow> (player_id \<Rightarrow> bool) \<Rightarrow> roster_preset \<Rightarrow>
    team_id \<Rightarrow> string \<Rightarrow> team_id list \<Rightarrow> bool \<times> int \<times> int" where
  "positionScarcityDetail st pool picked preset t position others =
     (let covers = (\<lambda>u. teamCoversPositionRequirement (fst (teamDraftedPlayers st (poolByID pool) u)) preset position)
      in if \<not> covers t then (False, 0, 0)
         else (let stillMissing = int (length (filter (\<lambda>u. \<not> covers u) others))
               in if stillMissing = 0 then (False, 0, 0)
                  else (let supply = undraftedPositionSupply (poolPlayers pool) picked position
                        in (supply \<le> stillMissing, supply, stillMissing))))"

definition positionScarcityBlocksCandidate :: "persisted_state \<Rightarrow> player_pool \<Rightarrow> (player_id \<Rightarrow> bool) \<Rightarrow>
    roster_preset \<Rightarrow> team_id \<Rightarrow> string \<Rightarrow> team_id list \<Rightarrow> bool" where
  "positionScarcityBlocksCandidate st pool picked preset t position others =
     fst (positionScarcityDetail st pool picked preset t position others)"

definition autopickPositionCapDefault :: int where "autopickPositionCapDefault = 1"
definition autopickPositionCapFinalRounds :: int where "autopickPositionCapFinalRounds = 2"
definition autopickBoardValueGuardMargin :: int where "autopickBoardValueGuardMargin = 24"

definition autopickPositionCap :: "roster_preset \<Rightarrow> string \<Rightarrow> int \<Rightarrow> int \<Rightarrow> int option" where
  "autopickPositionCap preset position currentRound totalRounds =
     (if position = ''K'' \<or> position = ''P'' \<or> position = ''DST'' then
        (if totalRounds - currentRound < autopickPositionCapFinalRounds then None
         else Some autopickPositionCapDefault)
      else Some (sum_list (map (\<lambda>d. readCount (presetSlots preset) (sdKey d))
                   (filter (\<lambda>d. slotFits d position) slotTable)) + 1))"

definition autopickPositionCapBlocksCandidate :: "player list \<Rightarrow> roster_preset \<Rightarrow> string \<Rightarrow> int \<Rightarrow> int \<Rightarrow> bool" where
  "autopickPositionCapBlocksCandidate own preset position currentRound totalRounds =
     (case autopickPositionCap preset position currentRound totalRounds of
        None \<Rightarrow> False
      | Some cap \<Rightarrow> int (length (filter (\<lambda>p. playerPosition p = position) own)) \<ge> cap)"

definition isSpecialistPosition :: "string \<Rightarrow> bool" where
  "isSpecialistPosition position \<longleftrightarrow>
     position \<noteq> ''QB'' \<and> position \<noteq> ''RB'' \<and> position \<noteq> ''WR'' \<and> position \<noteq> ''TE''"

definition housePassOrder :: "player_pool \<Rightarrow> (player_id \<Rightarrow> bool) \<Rightarrow> (player_id \<Rightarrow> bool) \<Rightarrow> (player \<Rightarrow> bool) \<Rightarrow> player_id option" where
  "housePassOrder pool picked accept want =
     map_option playerID (find (\<lambda>p. \<not> picked (playerID p) \<and> want p \<and> accept (playerID p)) (poolByHouse pool))"

definition autopickHouseWalk :: "player_pool \<Rightarrow> (player_id \<Rightarrow> bool) \<Rightarrow> (player_id \<Rightarrow> bool) \<Rightarrow> (string \<Rightarrow> bool) \<Rightarrow> player_id option" where
  "autopickHouseWalk pool picked accept fillsHole =
     (case housePassOrder pool picked accept
             (\<lambda>p. \<not> isSpecialistPosition (playerPosition p) \<and> fillsHole (playerPosition p)) of
        Some p \<Rightarrow> Some p
      | None \<Rightarrow>
          (case housePassOrder pool picked accept (\<lambda>p. \<not> isSpecialistPosition (playerPosition p)) of
             Some p \<Rightarrow> Some p
           | None \<Rightarrow> housePassOrder pool picked accept (\<lambda>p. isSpecialistPosition (playerPosition p))))"

definition autopickBoardEntryFailsValueGuard :: "player \<Rightarrow> int \<Rightarrow> player_pool \<Rightarrow> (player_id \<Rightarrow> bool) \<Rightarrow>
    (player_id \<Rightarrow> bool) \<Rightarrow> (string \<Rightarrow> bool) \<Rightarrow> bool" where
  "autopickBoardEntryFailsValueGuard candidate number pool picked accept fillsHole =
     (if playerHouseRank candidate \<le> 0 \<or> playerHouseRank candidate - number \<le> autopickBoardValueGuardMargin then False
      else housePassOrder pool picked accept
             (\<lambda>p. playerID p \<noteq> playerID candidate \<and> \<not> isSpecialistPosition (playerPosition p) \<and> fillsHole (playerPosition p)) \<noteq> None)"

section \<open>The choice\<close>

definition firstChoice :: "'a option \<Rightarrow> 'a option \<Rightarrow> 'a option" where
  "firstChoice a b = (case a of Some x \<Rightarrow> Some x | None \<Rightarrow> b)"

text \<open>The closures of autopickChoiceWith, over its arguments.\<close>

definition choiceFillsHole :: "league_env \<Rightarrow> persisted_state \<Rightarrow> player_pool \<Rightarrow> team_id \<Rightarrow> string \<Rightarrow> bool" where
  "choiceFillsHole env st pool t position =
     (\<not> teamCoversPositionRequirement (fst (teamDraftedPlayers st (poolByID pool) t)) (envRoster env) position)"

definition choiceGuarded :: "league_env \<Rightarrow> persisted_state \<Rightarrow> player_pool \<Rightarrow> team_id list \<Rightarrow> team_id \<Rightarrow> string \<Rightarrow> bool" where
  "choiceGuarded env st pool teams t position =
     (let number = int (length (picks st)) + 1
      in positionScarcityBlocksCandidate st pool (pickedIn st) (envRoster env) t position (filter (\<lambda>u. u \<noteq> t) teams)
         \<or> autopickPositionCapBlocksCandidate (fst (teamDraftedPlayers st (poolByID pool) t)) (envRoster env) position
             (DraftOrder.pickRound (activeTeamCount env (draftOrder st)) number) (envRounds env))"

definition choiceViable :: "league_env \<Rightarrow> persisted_state \<Rightarrow> player_pool \<Rightarrow> team_id list \<Rightarrow> team_id \<Rightarrow> player_id \<Rightarrow> bool" where
  "choiceViable env st pool teams t p =
     (case poolByID pool p of None \<Rightarrow> False
      | Some player \<Rightarrow> draftCandidateKeepsRosterViable env st (poolByID pool) t p
          \<and> \<not> choiceGuarded env st pool teams t (playerPosition player))"

definition choiceFits :: "league_env \<Rightarrow> persisted_state \<Rightarrow> player_pool \<Rightarrow> team_id list \<Rightarrow> team_id \<Rightarrow> player_id \<Rightarrow> bool" where
  "choiceFits env st pool teams t p =
     (case poolByID pool p of None \<Rightarrow> False
      | Some player \<Rightarrow> teamWouldBreachLimit env st (poolByID pool) t [p] [] = None
          \<and> draftCandidateKeepsRosterViable env st (poolByID pool) t p
          \<and> \<not> choiceGuarded env st pool teams t (playerPosition player))"

definition choiceSafe :: "league_env \<Rightarrow> persisted_state \<Rightarrow> player_pool \<Rightarrow> team_id \<Rightarrow> player_id \<Rightarrow> bool" where
  "choiceSafe env st pool t p = draftCandidateKeepsRosterViable env st (poolByID pool) t p"

text \<open>One pass over the Big Board: the first undrafted entry that resolves and is accepted.\<close>

definition boardPass :: "league_env \<Rightarrow> persisted_state \<Rightarrow> player_pool \<Rightarrow> team_id \<Rightarrow> (player_id \<Rightarrow> bool) \<Rightarrow> player_id list \<Rightarrow> player_id option" where
  "boardPass env st pool t accept board =
     find (\<lambda>p. \<not> pickedIn st p \<and>
       (case poolByID pool p of None \<Rightarrow> False
        | Some player \<Rightarrow> accept p \<and>
            \<not> autopickBoardEntryFailsValueGuard player (int (length (picks st)) + 1) pool (pickedIn st) accept
                (choiceFillsHole env st pool t))) board"

definition autopickChoiceWith :: "league_env \<Rightarrow> persisted_state \<Rightarrow> player_pool \<Rightarrow> team_id list \<Rightarrow> string \<Rightarrow> team_id \<Rightarrow> player_id option" where
  "autopickChoiceWith env st pool teams boardKey t =
     (let picked = pickedIn st;
          fillsHole = choiceFillsHole env st pool t;
          fits = choiceFits env st pool teams t;
          viable = choiceViable env st pool teams t;
          safe = choiceSafe env st pool t;
          board = mapList (boards st) boardKey
      in firstChoice (boardPass env st pool t fits board)
          (firstChoice (autopickHouseWalk pool picked fits fillsHole)
          (firstChoice (boardPass env st pool t viable board)
          (firstChoice (autopickHouseWalk pool picked viable fillsHole)
          (firstChoice (find (\<lambda>p. \<not> picked p \<and> poolByID pool p \<noteq> None \<and> safe p) board)
            (autopickHouseWalk pool picked safe fillsHole))))))"

section \<open>What a choice promises\<close>

text \<open>The players an automatic choice looks at: the seat's board and the house order.\<close>

definition candidateIDs :: "player_pool \<Rightarrow> player_id list \<Rightarrow> player_id set" where
  "candidateIDs pool board = set board \<union> playerID ` set (poolByHouse pool)"

lemma firstChoice_simps [simp]:
  "firstChoice a b = None \<longleftrightarrow> a = None \<and> b = None"
  "firstChoice a b = Some x \<longleftrightarrow> a = Some x \<or> (a = None \<and> b = Some x)"
  by (auto simp: firstChoice_def split: option.splits)

lemma housePass_Some:
  "housePassOrder pool picked accept want = Some p \<Longrightarrow>
    \<not> picked p \<and> accept p \<and> (\<exists>x\<in>set (poolByHouse pool). playerID x = p \<and> want x)"
  by (auto simp: housePassOrder_def find_Some_iff)

lemma housePass_None:
  "housePassOrder pool picked accept want = None \<longleftrightarrow>
    (\<forall>x\<in>set (poolByHouse pool). want x \<longrightarrow> \<not> picked (playerID x) \<longrightarrow> \<not> accept (playerID x))"
  by (auto simp: housePassOrder_def find_None_iff)

lemma houseWalk_Some:
  "autopickHouseWalk pool picked accept fillsHole = Some p \<Longrightarrow>
    \<not> picked p \<and> accept p \<and> p \<in> playerID ` set (poolByHouse pool)"
  by (auto simp: autopickHouseWalk_def dest!: housePass_Some split: option.splits)

lemma houseWalk_None:
  "autopickHouseWalk pool picked accept fillsHole = None \<longleftrightarrow>
    (\<forall>x\<in>set (poolByHouse pool). \<not> picked (playerID x) \<longrightarrow> \<not> accept (playerID x))"
proof (cases "autopickHouseWalk pool picked accept fillsHole")
  case None
  then show ?thesis by (auto simp: autopickHouseWalk_def housePass_None split: option.splits)
next
  case (Some p)
  then show ?thesis using houseWalk_Some [OF Some] by auto
qed

lemma boardPass_Some:
  "boardPass env st pool t accept board = Some p \<Longrightarrow> \<not> pickedIn st p \<and> accept p \<and> p \<in> set board"
  by (auto simp: boardPass_def find_Some_iff split: option.splits)

lemma viable_safe: "choiceViable env st pool teams t p \<Longrightarrow> choiceSafe env st pool t p"
  by (simp add: choiceViable_def choiceSafe_def split: option.splits)

lemma fits_viable: "choiceFits env st pool teams t p \<Longrightarrow> choiceViable env st pool teams t p"
  by (simp add: choiceFits_def choiceViable_def split: option.splits)

lemma safe_resolves: "choiceSafe env st pool t p \<Longrightarrow> poolByID pool p \<noteq> None"
  by (auto simp: choiceSafe_def draftCandidateKeepsRosterViable_def split: option.splits)

lemmas choice_strength = safe_resolves viable_safe fits_viable

lemma choice_sound:
  assumes "autopickChoiceWith env st pool teams boardKey t = Some p"
  shows "\<not> pickedIn st p \<and> choiceSafe env st pool t p \<and> p \<in> candidateIDs pool (mapList (boards st) boardKey)"
  using assms by (auto simp: autopickChoiceWith_def Let_def candidateIDs_def find_Some_iff
      dest!: boardPass_Some houseWalk_Some intro: choice_strength)

lemma choice_none:
  "autopickChoiceWith env st pool teams boardKey t = None \<longleftrightarrow>
    (\<forall>p\<in>candidateIDs pool (mapList (boards st) boardKey). \<not> pickedIn st p \<longrightarrow> \<not> choiceSafe env st pool t p)"
  (is "?none \<longleftrightarrow> ?all")
proof
  assume ?none
  then have "find (\<lambda>p. \<not> pickedIn st p \<and> poolByID pool p \<noteq> None \<and> choiceSafe env st pool t p) (mapList (boards st) boardKey) = None"
    and "autopickHouseWalk pool (pickedIn st) (choiceSafe env st pool t) (choiceFillsHole env st pool t) = None"
    by (simp_all add: autopickChoiceWith_def Let_def)
  then show ?all unfolding houseWalk_None find_None_iff candidateIDs_def using safe_resolves by blast
next
  assume none: ?all
  show ?none
  proof (cases "autopickChoiceWith env st pool teams boardKey t")
    case (Some p)
    then show ?thesis using choice_sound [OF Some] none by blast
  qed
qed

section \<open>Properties\<close>

text \<open>
  C14: An automatic choice is a player nobody has drafted, from the seat's board or the house order, who
  keeps the roster viable: the starters still missing afterwards are at most the picks the team has left.
  And no choice is made only when every candidate is drafted or would break that boundary.
\<close>

theorem autopick_choice_viable:
  "case autopickChoiceWith env st pool teams boardKey t of
     Some p \<Rightarrow> \<not> pickedIn st p \<and> draftCandidateKeepsRosterViable env st (poolByID pool) t p \<and>
       p \<in> candidateIDs pool (mapList (boards st) boardKey)
   | None \<Rightarrow> (\<forall>p\<in>candidateIDs pool (mapList (boards st) boardKey).
       pickedIn st p \<or> \<not> draftCandidateKeepsRosterViable env st (poolByID pool) t p)"
  using choice_sound [of env st pool teams boardKey t] choice_none [of env st pool teams boardKey t]
  unfolding choiceSafe_def by (auto split: option.split)

definition draftPool :: player_pool where
  "draftPool = (let ps = [draftPlayer ''r1'' ''RB'', draftPlayer ''r2'' ''RB'', draftPlayer ''r3'' ''RB'',
       draftPlayer ''r4'' ''RB'', draftPlayer ''w1'' ''WR'', draftPlayer ''w2'' ''WR'', draftPlayer ''w3'' ''WR'',
       draftPlayer ''w4'' ''WR'']
     in \<lparr>poolPlayers = ps, poolByID = (\<lambda>p. find (\<lambda>x. playerID x = p) ps), poolByHouse = ps\<rparr>)"

definition draftEnv :: league_env where
  "draftEnv = sampleEnv\<lparr>envRoster := draftPreset, envRounds := 4\<rparr>"

text \<open>Team a holds two backs and is on the clock with its board in hand.\<close>

definition draftState :: persisted_state where
  "draftState = freshState\<lparr>draftStarted := True, boards := [(''ann'', [''r1'', ''w2'', ''w1''])],
     picks := [samplePick 1 ''a'' ''r1'', samplePick 2 ''b'' ''w1'', samplePick 3 ''b'' ''w3'', samplePick 4 ''a'' ''r2'']\<rparr>"

theorem autopick_choice_viable_witness:
  "autopickChoiceWith draftEnv draftState draftPool [''a'', ''b''] [] ''a'' = Some ''w2'' \<and>
   draftCandidateKeepsRosterViable draftEnv draftState (poolByID draftPool) ''a'' ''w2''"
proof -
  have "autopickChoiceWith draftEnv draftState draftPool [''a'', ''b''] [] ''a'' = Some ''w2''" by code_simp
  then show ?thesis
    using autopick_choice_viable [where env = draftEnv and st = draftState and pool = draftPool
        and teams = "[''a'', ''b'']" and boardKey = "[]" and t = "''a''"] by simp
qed

lemma boardPass_first:
  assumes "board = before @ p # rest" "\<forall>q\<in>set before. pickedIn st q \<or> \<not> accept q"
    and "\<not> pickedIn st p" "accept p" "poolByID pool p = Some player"
    and "playerHouseRank player \<le> int (length (picks st)) + 1 + autopickBoardValueGuardMargin"
  shows "boardPass env st pool t accept board = Some p"
proof -
  define ok where "ok q \<longleftrightarrow> \<not> pickedIn st q \<and>
    (case poolByID pool q of None \<Rightarrow> False
     | Some player \<Rightarrow> accept q \<and>
        \<not> autopickBoardEntryFailsValueGuard player (int (length (picks st)) + 1) pool (pickedIn st) accept
            (choiceFillsHole env st pool t))" for q
  have "find ok before = None" using assms(2) by (auto simp: find_None_iff ok_def split: option.splits)
  moreover have "ok p" using assms(3-6) by (simp add: ok_def autopickBoardEntryFailsValueGuard_def)
  ultimately have "find ok board = Some p" unfolding assms(1) by (induction before) (auto split: if_splits)
  then show ?thesis unfolding boardPass_def ok_def .
qed

text \<open>
  The manager's Big Board comes first: the first entry of it that is undrafted and acceptable is
  taken, unless the house ranks it more than 24 places below the pick.
\<close>

theorem autopick_follows_board:
  assumes "mapList (boards st) boardKey = before @ p # rest"
    and "\<forall>q\<in>set before. pickedIn st q \<or> \<not> choiceFits env st pool teams t q"
    and "\<not> pickedIn st p" "choiceFits env st pool teams t p" "poolByID pool p = Some player"
    and "playerHouseRank player \<le> int (length (picks st)) + 25"
  shows "autopickChoiceWith env st pool teams boardKey t = Some p"
proof -
  have "boardPass env st pool t (choiceFits env st pool teams t) (mapList (boards st) boardKey) = Some p"
    by (rule boardPass_first [OF assms(1-5)]) (use assms(6) in \<open>simp add: autopickBoardValueGuardMargin_def\<close>)
  then show ?thesis by (simp add: autopickChoiceWith_def Let_def)
qed

theorem autopick_follows_board_witness:
  "autopickChoiceWith draftEnv draftState draftPool [''a'', ''b''] ''ann'' ''a'' = Some ''w2''"
proof (rule autopick_follows_board [where before = "[''r1'']" and rest = "[''w1'']" and player = "draftPlayer ''w2'' ''WR''"])
  show "mapList (boards draftState) ''ann'' = [''r1''] @ ''w2'' # [''w1'']" by code_simp
  show "\<forall>q\<in>set [''r1'']. pickedIn draftState q \<or> \<not> choiceFits draftEnv draftState draftPool [''a'', ''b''] ''a'' q"
    by code_simp
  show "\<not> pickedIn draftState ''w2''" by code_simp
  show "choiceFits draftEnv draftState draftPool [''a'', ''b''] ''a'' ''w2''" by code_simp
  show "poolByID draftPool ''w2'' = Some (draftPlayer ''w2'' ''WR'')" by code_simp
  show "playerHouseRank (draftPlayer ''w2'' ''WR'') \<le> int (length (picks draftState)) + 25" by code_simp
qed

end
