(* ===== verification/DraftRoom.thy ===== *)
theory DraftRoom
  imports Autopick
begin

text \<open>
  The draft room: the Store's picks, undo, pick clock, draft order and reset (src/internal/league/
  store.go), the confirmation tokens (confirmations.go), the Service's clock tick, restart recovery and
  manual pick (draftclock.go, service.go) and the commissioner's controls (admin.go). The map
  SentLog, which these operations also touch, is not part of the model's state; backups, events and
  notifications are left out.
\<close>

section \<open>Tokens\<close>

text \<open>
  A token is the SHA-256 digest, in hex, of a payload that lists the fields a rendered control depends
  on. The digest and the rendering of an instant are parameters.
\<close>

record token_fns =
  tfDigest :: "string \<Rightarrow> string"
  tfTime :: "time \<Rightarrow> string"
  tfOrder :: "team_id list \<Rightarrow> string"

fun joinOn :: "string \<Rightarrow> string list \<Rightarrow> string" where
  "joinOn sep [] = []"
| "joinOn sep [x] = x"
| "joinOn sep (x # y # xs) = x @ sep @ joinOn sep (y # xs)"

definition formatBool :: "bool \<Rightarrow> string" where
  "formatBool b = (if b then ''true'' else ''false'')"

definition deadlineText :: "token_fns \<Rightarrow> persisted_state \<Rightarrow> string" where
  "deadlineText tf st = (if isZero (clockDeadline st) then [] else tfTime tf (clockDeadline st))"

definition nextNumber :: "persisted_state \<Rightarrow> int" where
  "nextNumber st = int (length (picks st)) + 1"

definition onClock :: "league_env \<Rightarrow> persisted_state \<Rightarrow> team_id" where
  "onClock env st = teamOnClock env (draftOrder st) (nextNumber st)"

definition currentPickPayload :: "league_env \<Rightarrow> token_fns \<Rightarrow> persisted_state \<Rightarrow> string list" where
  "currentPickPayload env tf st = [''draft-current-pick-v1'', itoa (nextNumber st), onClock env st, deadlineText tf st,
     formatBool (clockPaused st), itoa (clockRemainingSec st), itoa (clockDurationSec st), formatBool (draftStarted st)]"

definition draftCurrentPickToken :: "league_env \<Rightarrow> token_fns \<Rightarrow> persisted_state \<Rightarrow> string" where
  "draftCurrentPickToken env tf st = tfDigest tf (joinOn [char_of (1 :: nat)] (currentPickPayload env tf st))"

definition madeByText :: "made_by \<Rightarrow> string" where
  "madeByText b = (case b of ByManager \<Rightarrow> ''manager'' | ByAuto \<Rightarrow> ''auto'' | ByCommissioner \<Rightarrow> ''commissioner'')"

definition draftPreviousPickToken :: "token_fns \<Rightarrow> persisted_state \<Rightarrow> string" where
  "draftPreviousPickToken tf st =
     (if picks st = [] then []
      else (let k = List.last (picks st)
            in tfDigest tf (joinOn [char_of (1 :: nat)]
                 [''draft-previous-pick-v1'', itoa (pickNumber k), pickTeamID k, pickPlayerID k, tfTime tf (pickMadeAt k),
                  madeByText (pickMadeBy k), deadlineText tf st, formatBool (clockPaused st),
                  itoa (clockRemainingSec st), itoa (clockDurationSec st)])))"

definition staleToken :: "string \<Rightarrow> string \<Rightarrow> bool" where
  "staleToken expected current \<longleftrightarrow> trimSpace expected = [] \<or> expected \<noteq> current"

section \<open>The pick clock\<close>

definition DefaultPickClock :: duration where "DefaultPickClock = 120 * second"
definition MinPickClock :: duration where "MinPickClock = 10 * second"
definition MaxPickClock :: duration where "MaxPickClock = 10 * minute"
definition AutopickGrace :: duration where "AutopickGrace = 3 * second"
definition RestartGrace :: duration where "RestartGrace = 30 * second"
definition NotSeenClock :: duration where "NotSeenClock = 20 * second"
definition NotSeenBootGrace :: duration where "NotSeenBootGrace = 2 * minute"

definition clampPickClock :: "duration \<Rightarrow> duration" where
  "clampPickClock d = (if d < MinPickClock then MinPickClock else if d > MaxPickClock then MaxPickClock else d)"

text \<open>time.Duration is an int64: a product of an int of seconds wraps around.\<close>

definition wrap64 :: "int \<Rightarrow> int" where
  "wrap64 x = (x + 2 ^ 63) mod 2 ^ 64 - 2 ^ 63"

definition clockDurationOf :: "persisted_state \<Rightarrow> duration \<Rightarrow> duration" where
  "clockDurationOf st fallback =
     (if clockDurationSec st > 0 then clampPickClock (wrap64 (clockDurationSec st * second)) else clampPickClock fallback)"

definition pickClock :: "duration \<Rightarrow> persisted_state \<Rightarrow> duration" where
  "pickClock configured st =
     (if clockDurationSec st > 0 then clampPickClock (wrap64 (clockDurationSec st * second))
      else if configured > 0 then configured else DefaultPickClock)"

datatype clock_error = ClockDraftNotStarted | ClockDraftComplete | ClockNotRunning | ClockRunning
  | ClockInvalid | ClockActionStale | MeetingAfterStart

definition draftOpen :: "store \<Rightarrow> bool" where
  "draftOpen s \<longleftrightarrow> draftStarted (stState s) \<or> stLifecycleBypass s"

definition armClock :: "time \<Rightarrow> bool \<Rightarrow> store \<Rightarrow> (store, clock_error, unit) outcome" where
  "armClock deadline ok s = gated s
     (if \<not> draftOpen s then rejected ClockDraftNotStarted s
      else commitOnly ok s ((stState s)\<lparr>clockDeadline := deadline\<rparr>) ())"

definition startDraft :: "time \<Rightarrow> duration \<Rightarrow> bool \<Rightarrow> store \<Rightarrow> (store, clock_error, bool) outcome" where
  "startDraft now d ok s = gated s
     (if draftStarted (stState s) then (Inr False, s)
      else commitOrRestore ok s ((stState s)\<lparr>draftStarted := True, draftStartedAt := now, clockPaused := False,
             clockRemainingSec := 0, clockDeadline := now + d\<rparr>) True)"

definition setDraftAtOverride :: "time \<Rightarrow> bool \<Rightarrow> store \<Rightarrow> (store, clock_error, unit) outcome" where
  "setDraftAtOverride t ok s = gated s
     (if draftStarted (stState s) then rejected MeetingAfterStart s
      else commitOrRestore ok s ((stState s)\<lparr>draftAtOverride := t\<rparr>) ())"

text \<open>int(d.Seconds()) truncates toward zero; a negative remainder becomes zero.\<close>

definition remainingSeconds :: "time \<Rightarrow> time \<Rightarrow> int" where
  "remainingSeconds deadline now = (if deadline < now then 0 else (deadline - now) div second)"

definition pauseClock :: "league_env \<Rightarrow> time \<Rightarrow> bool \<Rightarrow> store \<Rightarrow> (store, clock_error, unit) outcome" where
  "pauseClock env now ok s = gated s
     (let st = stState s in
      if \<not> draftOpen s then rejected ClockDraftNotStarted s
      else if draftComplete env st then rejected ClockDraftComplete s
      else if clockPaused st \<or> isZero (clockDeadline st) \<or> clockRemainingSec st \<noteq> 0 then rejected ClockNotRunning s
      else commitOrRestore ok s (st\<lparr>clockRemainingSec := remainingSeconds (clockDeadline st) now,
             clockDeadline := 0, clockPaused := True\<rparr>) ())"

definition resumeClock :: "league_env \<Rightarrow> time \<Rightarrow> duration \<Rightarrow> bool \<Rightarrow> store \<Rightarrow> (store, clock_error, unit) outcome" where
  "resumeClock env now d ok s = gated s
     (let st = stState s; remaining = clockRemainingSec st * second in
      if \<not> draftOpen s then rejected ClockDraftNotStarted s
      else if draftComplete env st then rejected ClockDraftComplete s
      else if \<not> isZero (clockDeadline st) then rejected (if clockPaused st then ClockInvalid else ClockRunning) s
      else if \<not> clockPaused st \<and> clockRemainingSec st \<noteq> 0 then rejected ClockInvalid s
      else commitOrRestore ok s (st\<lparr>clockDeadline := now + (if remaining \<le> 0 then d else remaining),
             clockPaused := False, clockRemainingSec := 0\<rparr>) ())"

definition extendClock :: "league_env \<Rightarrow> token_fns \<Rightarrow> time \<Rightarrow> duration \<Rightarrow> string option \<Rightarrow> bool \<Rightarrow> store \<Rightarrow>
    (store, clock_error, unit) outcome" where
  "extendClock env tf now delta expected ok s = gated s
     (let st = stState s;
          stale = (case expected of None \<Rightarrow> False | Some e \<Rightarrow> staleToken e (draftCurrentPickToken env tf st));
          d1 = clockDeadline st + delta;
          d2 = (if d1 < now + MinPickClock then now + MinPickClock else d1);
          d3 = (if d2 > now + MaxPickClock then now + MaxPickClock else d2)
      in if stale then rejected ClockActionStale s
         else if clockPaused st \<or> isZero (clockDeadline st) then rejected ClockNotRunning s
         else commitOnly ok s (st\<lparr>clockDeadline := d3\<rparr>) ())"

definition setClockDuration :: "int \<Rightarrow> bool \<Rightarrow> store \<Rightarrow> (store, clock_error, unit) outcome" where
  "setClockDuration secs ok s = gated s
     (commitOnly ok s ((stState s)\<lparr>clockDurationSec := clampPickClock (wrap64 (secs * second)) div second\<rparr>) ())"

definition clearClock :: "bool \<Rightarrow> store \<Rightarrow> (store, clock_error, unit) outcome" where
  "clearClock ok s = gated s
     (let st = stState s in
      if isZero (clockDeadline st) \<and> \<not> clockPaused st \<and> clockRemainingSec st = 0 then (Inr (), s)
      else commitOnly ok s (st\<lparr>clockDeadline := 0, clockPaused := False, clockRemainingSec := 0\<rparr>) ())"

section \<open>Automatic seats\<close>

datatype seat_error = SeatUnknownTeam team_id | SeatUnclaimed

definition setAutopick :: "league_env \<Rightarrow> team_id \<Rightarrow> bool \<Rightarrow> bool \<Rightarrow> store \<Rightarrow> (store, seat_error, unit) outcome" where
  "setAutopick env t on ok s =
     (if \<not> knownTeam env t then rejected (SeatUnknownTeam t) s
      else gated s (commitOnly ok s ((stState s)\<lparr>autopick := (autopick (stState s))(t := on)\<rparr>) ()))"

definition setAutopickIfClaimed :: "league_env \<Rightarrow> team_id \<Rightarrow> bool \<Rightarrow> bool \<Rightarrow> store \<Rightarrow>
    (store, seat_error, unit) outcome" where
  "setAutopickIfClaimed env t on ok s =
     (if \<not> knownTeam env t then rejected (SeatUnknownTeam t) s
      else gated s
        (if trimSpace (memEmail (memberForTeam (members (stState s)) t)) = [] then rejected SeatUnclaimed s
         else commitOnly ok s ((stState s)\<lparr>autopick := (autopick (stState s))(t := on)\<rparr>) ()))"

section \<open>Picks\<close>

datatype pick_error = DraftNotStarted | PickUnknownTeam team_id | AlreadyDrafted | DraftIsComplete
  | OnTheClock team_id | StaleAutoPick | PickActionStale | NoPicksToUndo

definition totalPicks :: "league_env \<Rightarrow> int" where
  "totalPicks env = int (length (envTeams env)) * envRounds env"

definition newPick :: "league_env \<Rightarrow> persisted_state \<Rightarrow> team_id \<Rightarrow> player_id \<Rightarrow> made_by \<Rightarrow> time \<Rightarrow> draft_pick" where
  "newPick env st t p madeBy now = \<lparr>pickNumber = nextNumber st,
     draft_pick.pickRound = DraftOrder.pickRound (activeTeamCount env (draftOrder st)) (nextNumber st),
     pickTeamID = t, pickPlayerID = p, pickMadeAt = now, pickMadeBy = madeBy\<rparr>"

definition appendPick :: "draft_pick \<Rightarrow> persisted_state \<Rightarrow> persisted_state" where
  "appendPick k st = st\<lparr>picks := picks st @ [k]\<rparr>"

definition disarmed :: "persisted_state \<Rightarrow> persisted_state" where
  "disarmed st = st\<lparr>clockDeadline := 0, clockPaused := False, clockRemainingSec := 0\<rparr>"

text \<open>
  The state after an accepted pick: the terminal pick disarms the clock, a paused clock stays unarmed
  (hold is what else happens then), a running one takes the next deadline.
\<close>

definition afterPick :: "league_env \<Rightarrow> persisted_state \<Rightarrow> draft_pick \<Rightarrow> (persisted_state \<Rightarrow> persisted_state) \<Rightarrow> time \<Rightarrow>
    persisted_state" where
  "afterPick env st k hold nextDeadline =
     (let st1 = appendPick k st in
      if int (length (picks st1)) \<ge> totalPicks env then disarmed st1
      else if clockPaused st1 then hold (st1\<lparr>clockDeadline := 0\<rparr>)
      else st1\<lparr>clockDeadline := nextDeadline\<rparr>)"

definition makePick :: "league_env \<Rightarrow> team_id \<Rightarrow> player_id \<Rightarrow> made_by \<Rightarrow> time \<Rightarrow> time \<Rightarrow> bool \<Rightarrow> store \<Rightarrow>
    (store, pick_error, draft_pick) outcome" where
  "makePick env t p madeBy now nextDeadline ok s = gated s
     (let st = stState s; k = newPick env st t p madeBy now in
      if \<not> draftOpen s then rejected DraftNotStarted s
      else if \<not> knownTeam env t then rejected (PickUnknownTeam t) s
      else if pickedIn st p then rejected AlreadyDrafted s
      else if int (length (picks st)) \<ge> totalPicks env then rejected DraftIsComplete s
      else if onClock env st \<noteq> t then rejected (OnTheClock (onClock env st)) s
      else commitOrRestore ok s (afterPick env st k id nextDeadline) k)"

definition undoLastPick :: "token_fns \<Rightarrow> time \<Rightarrow> string option \<Rightarrow> bool \<Rightarrow> store \<Rightarrow> (store, pick_error, unit) outcome" where
  "undoLastPick tf nextDeadline expected ok s = gated s
     (let st = stState s;
          stale = (case expected of None \<Rightarrow> False | Some e \<Rightarrow> staleToken e (draftPreviousPickToken tf st));
          st1 = st\<lparr>picks := butlast (picks st)\<rparr>
      in if stale then rejected PickActionStale s
         else if picks st = [] then rejected NoPicksToUndo s
         else commitOrRestore ok s
                (if clockPaused st then st1 else st1\<lparr>clockDeadline := nextDeadline, clockRemainingSec := 0\<rparr>) ())"

definition undoLastPickIfCurrent :: "token_fns \<Rightarrow> time \<Rightarrow> duration \<Rightarrow> string \<Rightarrow> bool \<Rightarrow> store \<Rightarrow>
    (store, pick_error, unit) outcome" where
  "undoLastPickIfCurrent tf now fallback expected ok s = gated s
     (if staleToken expected (draftPreviousPickToken tf (stState s)) then rejected PickActionStale s
      else undoLastPick tf (now + clockDurationOf (stState s) fallback) (Some expected) ok s)"

text \<open>expected carries the token and the fallback duration of AutoPickIfCurrent.\<close>

definition autoPick :: "league_env \<Rightarrow> token_fns \<Rightarrow> team_id \<Rightarrow> player_id \<Rightarrow> made_by \<Rightarrow> int \<Rightarrow> time \<Rightarrow> time \<Rightarrow> time \<Rightarrow>
    (string \<times> duration) option \<Rightarrow> bool \<Rightarrow> store \<Rightarrow> (store, pick_error, draft_pick) outcome" where
  "autoPick env tf t p madeBy expectedNumber deadlineSeen now nextDeadline expected ok s = gated s
     (let st = stState s; number = nextNumber st;
          stale = (case expected of None \<Rightarrow> False | Some (e, d) \<Rightarrow> staleToken e (draftCurrentPickToken env tf st));
          next = (case expected of None \<Rightarrow> nextDeadline
                  | Some (e, d) \<Rightarrow> if \<not> clockPaused st \<and> number < totalPicks env then now + clockDurationOf st d
                                   else nextDeadline);
          k = newPick env st t p madeBy now in
      if stale then rejected PickActionStale s
      else if \<not> draftOpen s then rejected StaleAutoPick s
      else if \<not> knownTeam env t then rejected (PickUnknownTeam t) s
      else if number \<noteq> expectedNumber then rejected StaleAutoPick s
      else if madeBy \<noteq> ByCommissioner \<and> clockPaused st then rejected StaleAutoPick s
      else if clockDeadline st \<noteq> deadlineSeen then rejected StaleAutoPick s
      else if int (length (picks st)) \<ge> totalPicks env then rejected StaleAutoPick s
      else if onClock env st \<noteq> t then rejected StaleAutoPick s
      else if pickedIn st p then rejected StaleAutoPick s
      else commitOrRestore ok s (afterPick env st k (clockRemainingSec_update (\<lambda>n. 0)) next) k)"

definition autoPickIfCurrent :: "league_env \<Rightarrow> token_fns \<Rightarrow> team_id \<Rightarrow> player_id \<Rightarrow> made_by \<Rightarrow> int \<Rightarrow> time \<Rightarrow> time \<Rightarrow>
    duration \<Rightarrow> string \<Rightarrow> bool \<Rightarrow> store \<Rightarrow> (store, pick_error, draft_pick) outcome" where
  "autoPickIfCurrent env tf t p madeBy expectedNumber deadlineSeen now fallback expected ok s =
     autoPick env tf t p madeBy expectedNumber deadlineSeen now 0 (Some (expected, fallback)) ok s"

section \<open>Reset and draft order\<close>

definition clearClockFields :: "persisted_state \<Rightarrow> persisted_state" where
  "clearClockFields st = (disarmed st)\<lparr>clockDurationSec := 0, autopick := (\<lambda>t. False)\<rparr>"

definition resetDraft :: "bool \<Rightarrow> store \<Rightarrow> (store, pick_error, unit) outcome" where
  "resetDraft ok s = gated s
     (commitOrRestore ok s (clearClockFields ((stState s)\<lparr>picks := [], ready := [], transactions := [],
        lineups := (\<lambda>t w. None), lineupAutoFilled := (\<lambda>t w. []), waiverClaims := [], waiverReceipts := [],
        waiversProcessedThrough := 0, tradeOffers := [], rosterZones := [], draftStarted := False,
        draftStartedAt := 0\<rparr>)) ())"

datatype order_error = OrderLength nat | OrderStale | OrderUnknownTeam team_id | OrderDuplicate team_id
  | OrderAfterStart | OrderChanged | OrderNotCommissioner | OrderNoSchedule

fun orderScan :: "team_id set \<Rightarrow> (team_id \<Rightarrow> bool) \<Rightarrow> (team_id \<Rightarrow> bool) \<Rightarrow> team_id list \<Rightarrow> order_error option" where
  "orderScan seen trimmed allowed [] = None"
| "orderScan seen trimmed allowed (t # ts) =
     (if trimmed t then Some OrderStale
      else if \<not> allowed t then Some (OrderUnknownTeam t)
      else if t \<in> seen then Some (OrderDuplicate t)
      else orderScan (insert t seen) trimmed allowed ts)"

text \<open>active stands for activeTeams, the full configured team list.\<close>

definition allowedTeams :: "team list \<Rightarrow> persisted_state \<Rightarrow> team_id list" where
  "allowedTeams active st = remdups (filter (\<lambda>t. t \<notin> set (trimmedTeamIDs st)) (map teamID active))"

definition validateDraftOrderForState :: "team list \<Rightarrow> team_id list \<Rightarrow> persisted_state \<Rightarrow> order_error option" where
  "validateDraftOrderForState active order st =
     (let allowed = allowedTeams active st in
      if length order \<noteq> length allowed then Some (OrderLength (length allowed))
      else orderScan {} (\<lambda>t. t \<in> set (trimmedTeamIDs st)) (\<lambda>t. t \<in> set allowed) order)"

definition validateScheduleForState :: "season_schedule \<Rightarrow> persisted_state \<Rightarrow> order_error option" where
  "validateScheduleForState sch st =
     (if trimmedTeamIDs st = [] then None
      else if list_ex (\<lambda>w. swBye w \<in> set (trimmedTeamIDs st) \<or>
             list_ex (\<lambda>m. lmHome m \<in> set (trimmedTeamIDs st) \<or> lmAway m \<in> set (trimmedTeamIDs st)) (swMatchups w)) (schWeeks sch)
        then Some OrderStale else None)"

definition setDraftOrder :: "team list \<Rightarrow> team_id list \<Rightarrow> bool \<Rightarrow> store \<Rightarrow> (store, order_error, unit) outcome" where
  "setDraftOrder active order ok s = gated s
     (case validateDraftOrderForState active order (stState s) of
        Some e \<Rightarrow> rejected e s
      | None \<Rightarrow>
          if draftStarted (stState s) then rejected OrderAfterStart s
          else commitOrRestore ok s ((stState s)\<lparr>draftOrder := order\<rparr>) ())"

definition drawDraftOrder :: "team list \<Rightarrow> token_fns \<Rightarrow> team_id list \<Rightarrow> string \<Rightarrow> season_schedule option \<Rightarrow> bool \<Rightarrow> store \<Rightarrow>
    (store, order_error, bool) outcome" where
  "drawDraftOrder active tf order expected schedule ok s = gated s
     (let st = stState s;
          current = (if draftOrder st = [] then [] else tfOrder tf (draftOrder st));
          created = (seasonSchedule st = None \<and> schedule \<noteq> None) in
      case validateDraftOrderForState active order st of
        Some e \<Rightarrow> rejected e s
      | None \<Rightarrow>
          (case (case schedule of None \<Rightarrow> None | Some sch \<Rightarrow> validateScheduleForState sch st) of
             Some e \<Rightarrow> rejected e s
           | None \<Rightarrow>
               if draftStarted st then rejected OrderAfterStart s
               else if expected \<noteq> current then rejected OrderChanged s
               else commitOrRestore ok s
                      (st\<lparr>draftOrder := order, seasonSchedule := (if created then schedule else seasonSchedule st)\<rparr>) created))"

section \<open>Outcomes\<close>

text \<open>What a guarded operation can return, one equivalence per building block.\<close>

lemma gated_iff: "gated s k = (r, s') \<longleftrightarrow> stWriteError s \<and> r = Inl Unhealthy \<and> s' = s \<or> \<not> stWriteError s \<and> k = (r, s')"
  by (auto simp: gated_def)

lemma reject_iff: "rejected e s = (r, s') \<longleftrightarrow> r = Inl (Rejected e) \<and> s' = s"
  by (auto simp: rejected_def)

lemma guard_iff:
  "(if b then rejected e s else k) = (r, s') \<longleftrightarrow> b \<and> r = Inl (Rejected e) \<and> s' = s \<or> \<not> b \<and> k = (r, s')"
  by (auto simp: rejected_def)

lemma restore_iff:
  "commitOrRestore ok s st x = (r, s') \<longleftrightarrow> ok \<and> r = Inr x \<and> s' = s\<lparr>stState := st\<rparr> \<or> \<not> ok \<and> r = Inl PersistFailed \<and> s' = s"
  by (auto simp: commitOrRestore_def)

lemma only_iff:
  "commitOnly ok s st x = (r, s') \<longleftrightarrow> s' = s\<lparr>stState := st\<rparr> \<and> (ok \<and> r = Inr x \<or> \<not> ok \<and> r = Inl PersistFailed)"
  by (auto simp: commitOnly_def)

lemmas op_iffs = gated_iff guard_iff reject_iff restore_iff only_iff

end
