(* ===== verification/WeekClose.thy ===== *)
theory WeekClose
  imports Scoring SeasonSchedule DraftRoom
begin

text \<open>
  Closing a league week (src/internal/league/season.go, rosterops.go): the readiness of a week, the close that
  scores its matchups and pins its lineups, the automatic close, and the Store's writes to the schedule and
  the season phase (store.go). The notices and posts that follow a close are left out.
\<close>

section \<open>Readiness\<close>

text \<open>The saved final box of a game (final_game_stats.go), as far as the readiness reads it.\<close>

record final_box =
  fbComplete :: bool
  fbSeason :: int
  fbWeek :: int
  fbGameID :: string
  fbCapturedAt :: time

type_synonym box_table = "int \<Rightarrow> int \<Rightarrow> string \<Rightarrow> final_box option"

definition weekCloseFinalBoxTime :: "persisted_state \<Rightarrow> box_table \<Rightarrow> game_info \<Rightarrow> time \<Rightarrow> time option" where
  "weekCloseFinalBoxTime st boxes g now =
     (case seasonSchedule st of None \<Rightarrow> None
      | Some sch \<Rightarrow>
         if gameID g = [] \<or> isZero (gameKickoff g) then None
         else (case boxes (schSeason sch) (gameWeek g) (gameID g) of None \<Rightarrow> None
               | Some b \<Rightarrow> if \<not> fbComplete b \<or> fbSeason b \<noteq> schSeason sch \<or> fbWeek b \<noteq> gameWeek g \<or> fbGameID b \<noteq> gameID g \<or>
                     isZero (fbCapturedAt b) \<or> fbCapturedAt b < gameKickoff g \<or> fbCapturedAt b > now
                   then None else Some (fbCapturedAt b)))"

text \<open>Why a week is not ready, one constructor for each of the texts.\<close>

datatype close_reason = NoReason | NoScheduleYet | WeekMissing | AlreadyFinal | WaitingForSchedule | WaitingForGames nat nat
  | KickoffUnavailable | WaitingForStats | StatsPending | NotReadyYet

record week_close_info =
  wcExists :: bool
  wcFinal :: bool
  wcReady :: bool
  wcGamesKnown :: bool
  wcGamesTotal :: nat
  wcGamesFinal :: nat
  wcStatsUpdatedAt :: time
  wcStatsFresh :: bool
  wcReason :: close_reason
  wcStaleFeed :: bool
  wcAutoCloseAt :: "time option"
  wcAutoCloseBlocked :: turn_block

definition blankInfo :: week_close_info where
  "blankInfo = \<lparr>wcExists = False, wcFinal = False, wcReady = False, wcGamesKnown = False, wcGamesTotal = 0, wcGamesFinal = 0,
     wcStatsUpdatedAt = 0, wcStatsFresh = False, wcReason = NoScheduleYet, wcStaleFeed = False, wcAutoCloseAt = None,
     wcAutoCloseBlocked = TurnNotReached\<rparr>"

definition gamesInWeek :: "game_info list \<Rightarrow> int \<Rightarrow> game_info list" where
  "gamesInWeek games week = filter (\<lambda>g. gameWeek g = week) games"

definition closeReason :: "week_close_info \<Rightarrow> bool \<Rightarrow> close_reason" where
  "closeReason info kickoffOK =
     (if \<not> wcGamesKnown info then WaitingForSchedule
      else if wcGamesFinal info < wcGamesTotal info then WaitingForGames (wcGamesFinal info) (wcGamesTotal info)
      else if \<not> kickoffOK then KickoffUnavailable
      else if isZero (wcStatsUpdatedAt info) then WaitingForStats
      else if \<not> wcStatsFresh info then StatsPending
      else if \<not> wcReady info then NotReadyYet else NoReason)"

definition adminWeekCloseInfo :: "persisted_state \<Rightarrow> game_info list \<Rightarrow> box_table \<Rightarrow> time \<Rightarrow> location option \<Rightarrow> int \<Rightarrow> time \<Rightarrow>
    week_close_info" where
  "adminWeekCloseInfo st allGames boxes statsAt location week now =
     (case seasonSchedule st of None \<Rightarrow> blankInfo
      | Some sch \<Rightarrow>
     (case scheduleWeekByNumber sch week of None \<Rightarrow> blankInfo\<lparr>wcReason := WeekMissing\<rparr>
      | Some wk \<Rightarrow>
         if scheduleWeekIsFinal wk then blankInfo\<lparr>wcExists := True, wcFinal := True, wcReason := AlreadyFinal\<rparr>
         else
          (let raw = gamesInWeek allGames week;
               box = (\<lambda>g. weekCloseFinalBoxTime st boxes g now);
               games = map (\<lambda>g. if box g \<noteq> None then g\<lparr>gameFinal := True\<rparr> else g) raw;
               known = (games \<noteq> []);
               allBoxes = (known \<and> list_all (\<lambda>g. box g \<noteq> None) raw);
               boxesAt = fold (\<lambda>g t. case box g of None \<Rightarrow> t | Some c \<Rightarrow> if c > t then c else t) raw 0;
               kick = weekCloseLastKickoff games week;
               fresh = (known \<and> snd (snd kick) \<and> (case weekCloseStatsSettleFloor games week of None \<Rightarrow> False
                          | Some settled \<Rightarrow> \<not> now < settled \<and> \<not> isZero statsAt \<and> \<not> statsAt < settled));
               stats = (if allBoxes then boxesAt else statsAt);
               turn = weekCloseTurnAt games week location;
               info = blankInfo\<lparr>wcExists := True, wcGamesKnown := known, wcGamesTotal := length games,
                 wcGamesFinal := length (filter gameFinal games), wcStatsUpdatedAt := stats, wcStatsFresh := (allBoxes \<or> fresh),
                 wcStaleFeed := (\<not> allBoxes \<and> known \<and> snd (snd kick) \<and> \<not> isZero stats \<and> stats < fst kick),
                 wcAutoCloseAt := (if allBoxes then Some boxesAt else turn),
                 wcAutoCloseBlocked := (case turn of None \<Rightarrow> TurnNotReached | Some t \<Rightarrow>
                    if allBoxes \<or> now < t then TurnNotReached
                    else (case weekCloseTurnDue games week stats now location of (due, why) \<Rightarrow> if due then TurnNotReached else why)),
                 wcReady := (allBoxes \<or> weekCloseReady games week stats now)\<rparr>
           in info\<lparr>wcReason := closeReason info (snd (snd kick))\<rparr>)))"

section \<open>Store writes\<close>

datatype week_error = NoScheduleStored | WeekNotInSchedule int | WeekIsFinal int | ScheduleNamesTrimmed | NotCommissionerWeek
  | NoStatsSource | ScheduleExists | ScheduleLockedBySeason | ScheduleLockedByScore | ScheduleInvalid schedule_error

definition phaseNeedsPlayoffRepair :: "phase \<Rightarrow> bool" where
  "phaseNeedsPlayoffRepair phase \<longleftrightarrow> phase = PhaseNone \<or> phase = PhaseRegularSeason"

definition scheduleHasFinalMatchup :: "season_schedule \<Rightarrow> bool" where
  "scheduleHasFinalMatchup sch = list_ex (\<lambda>wk. list_ex lmFinal (swMatchups wk)) (schWeeks sch)"

definition setSchedule :: "season_schedule \<Rightarrow> bool \<Rightarrow> store \<Rightarrow> (store, week_error, unit) outcome" where
  "setSchedule sch ok s = gated s
     (if validateScheduleForState sch (stState s) \<noteq> None then rejected ScheduleNamesTrimmed s
      else commitOrRestore ok s ((stState s)\<lparr>seasonSchedule := Some sch\<rparr>) ())"

text \<open>The first week of the schedule with the number is replaced.\<close>

fun putWeek :: "schedule_week \<Rightarrow> schedule_week list \<Rightarrow> schedule_week list" where
  "putWeek wk [] = []"
| "putWeek wk (w # ws) = (if swWeek w = swWeek wk then wk # ws else w # putWeek wk ws)"

definition withWeek :: "season_schedule \<Rightarrow> schedule_week \<Rightarrow> persisted_state \<Rightarrow> persisted_state" where
  "withWeek sch wk st = st\<lparr>seasonSchedule := Some (sch\<lparr>schWeeks := putWeek wk (schWeeks sch)\<rparr>)\<rparr>"

definition setScheduleWeek :: "schedule_week \<Rightarrow> bool \<Rightarrow> store \<Rightarrow> (store, week_error, unit) outcome" where
  "setScheduleWeek week ok s = gated s
     (case seasonSchedule (stState s) of None \<Rightarrow> rejected NoScheduleStored s
      | Some sch \<Rightarrow>
     (case scheduleWeekByNumber sch (swWeek week) of None \<Rightarrow> rejected (WeekNotInSchedule (swWeek week)) s
      | Some wk \<Rightarrow>
         if scheduleWeekIsFinal wk then (if wk = week then (Inr (), s) else rejected (WeekIsFinal (swWeek week)) s)
         else commitOnly ok s (withWeek sch week (stState s)) ()))"

definition repairPhase :: "persisted_state \<Rightarrow> persisted_state" where
  "repairPhase st = (if scheduleHasAllFinalWeeks (seasonSchedule st) \<and> phaseNeedsPlayoffRepair (seasonPhase st)
     then st\<lparr>seasonPhase := PhasePlayoffs\<rparr> else st)"

text \<open>The pins of a close: one stored week per team, with distinct teams.\<close>

definition putPins :: "int \<Rightarrow> (team_id \<times> slot_map) list \<Rightarrow> persisted_state \<Rightarrow> persisted_state" where
  "putPins week pins st = fold (\<lambda>(t, m). putLineup t week m) pins st"

definition setScheduleWeekWithLineups :: "schedule_week \<Rightarrow> (team_id \<times> slot_map) list \<Rightarrow> persist_result \<Rightarrow> store \<Rightarrow>
    (store, week_error, unit) outcome" where
  "setScheduleWeekWithLineups week pins res s = gated s
     (case seasonSchedule (stState s) of None \<Rightarrow> rejected NoScheduleStored s
      | Some sch \<Rightarrow>
     (case scheduleWeekByNumber sch (swWeek week) of None \<Rightarrow> rejected (WeekNotInSchedule (swWeek week)) s
      | Some wk \<Rightarrow>
         if matchupsAllFinal (swMatchups wk)
         then (if scheduleHasAllFinalWeeks (Some sch) \<and> phaseNeedsPlayoffRepair (seasonPhase (stState s))
               then commitDisposed res s (repairPhase (stState s)) () else (Inr (), s))
         else commitDisposed res s (repairPhase (putPins (swWeek week) pins (withWeek sch week (stState s)))) ()))"

definition commitScheduleWeekClose :: "schedule_week \<Rightarrow> (team_id \<times> slot_map) list \<Rightarrow> persist_result \<Rightarrow> store \<Rightarrow>
    (store, week_error, unit) outcome" where
  "commitScheduleWeekClose = setScheduleWeekWithLineups"

definition setPhase :: "phase \<Rightarrow> bool \<Rightarrow> store \<Rightarrow> (store, week_error, unit) outcome" where
  "setPhase phase ok s = gated s (commitOnly ok s ((stState s)\<lparr>seasonPhase := phase\<rparr>) ())"

definition setPlayoffs :: "playoff_state \<Rightarrow> bool \<Rightarrow> store \<Rightarrow> (store, week_error, unit) outcome" where
  "setPlayoffs state ok s = gated s (commitOnly ok s ((stState s)\<lparr>playoffs := Some state\<rparr>) ())"

section \<open>The close\<close>

definition pinMap :: "effective_lineup \<Rightarrow> slot_map" where
  "pinMap l = List.map_filter (\<lambda>a. map_option (\<lambda>p. (siID (saSlot a), playerID p)) (saPlayer a)) (elSlots l)"

definition weekTeams :: "schedule_week \<Rightarrow> team_id list" where
  "weekTeams wk = remdups (concat (map (\<lambda>m. [lmHome m, lmAway m]) (swMatchups wk)))"

text \<open>What a close reads besides the store: schedule feed, pool and clock, the stat source and the rule values.\<close>

record close_input =
  ciLineup :: lineup_input
  ciStats :: stats_source
  ciValues :: "(string \<times> rat) list"

definition closePins :: "league_env \<Rightarrow> close_input \<Rightarrow> persisted_state \<Rightarrow> schedule_week \<Rightarrow> int \<Rightarrow> (team_id \<times> slot_map) list" where
  "closePins env ci st wk week = map (\<lambda>t. (t, pinMap (currentLineup env (ciLineup ci) st t week))) (weekTeams wk)"

definition scoreMatchup :: "league_env \<Rightarrow> close_input \<Rightarrow> persisted_state \<Rightarrow> int \<Rightarrow> league_matchup \<Rightarrow> (league_matchup \<times> join_miss list) option" where
  "scoreMatchup env ci st week m =
     (case teamWeekScore env (ciLineup ci) st (ciStats ci) (ciValues ci) (lmHome m) week of None \<Rightarrow> None
      | Some ((home, missH), f) \<Rightarrow>
     (case teamWeekScore env (ciLineup ci) st (ciStats ci) (ciValues ci) (lmAway m) week of None \<Rightarrow> None
      | Some ((away, missA), f') \<Rightarrow>
          Some (m\<lparr>lmHomeScore := home, lmAwayScore := away, lmFinal := True\<rparr>, missH @ missA)))"

fun scoreMatchups :: "league_env \<Rightarrow> close_input \<Rightarrow> persisted_state \<Rightarrow> int \<Rightarrow> league_matchup list \<Rightarrow>
    (league_matchup list \<times> join_miss list) option" where
  "scoreMatchups env ci st week [] = Some ([], [])"
| "scoreMatchups env ci st week (m # ms) =
     (case scoreMatchup env ci st week m of None \<Rightarrow> None
      | Some (m', miss) \<Rightarrow>
     (case scoreMatchups env ci st week ms of None \<Rightarrow> None
      | Some (ms', misses) \<Rightarrow> Some (m' # ms', miss @ misses)))"

definition andThen :: "(store, week_error, unit) outcome \<Rightarrow> 'a \<Rightarrow> (store, week_error, 'a) outcome" where
  "andThen r x = (case r of (Inl e, s) \<Rightarrow> (Inl e, s) | (Inr u, s) \<Rightarrow> (Inr x, s))"

text \<open>
  closeWeek takes one snapshot for the week and its pins and a second one for the scores (matchupScorer).
\<close>

definition closeWeek :: "league_env \<Rightarrow> close_input \<Rightarrow> persisted_state \<Rightarrow> persisted_state \<Rightarrow> int \<Rightarrow> time \<Rightarrow> persist_result \<Rightarrow> store \<Rightarrow>
    (store, week_error, schedule_week \<times> join_miss list) outcome" where
  "closeWeek env ci st scorerView week now res s =
     (case seasonSchedule st of None \<Rightarrow> rejected NoScheduleStored s
      | Some sch \<Rightarrow>
     (case scheduleWeekByNumber sch week of None \<Rightarrow> rejected (WeekNotInSchedule week) s
      | Some target \<Rightarrow>
         if scheduleWeekIsFinal target then andThen (commitScheduleWeekClose target [] res s) (target, [])
         else (case scoreMatchups env ci scorerView week (swMatchups target) of None \<Rightarrow> rejected NoStatsSource s
               | Some (ms, misses) \<Rightarrow>
                   (let updated = target\<lparr>swMatchups := ms, swClosedAt := now\<rparr>
                    in andThen (commitScheduleWeekClose updated (closePins env ci st target week) res s) (updated, misses)))))"

definition adminCloseWeek :: "bool \<Rightarrow> league_env \<Rightarrow> close_input \<Rightarrow> persisted_state \<Rightarrow> persisted_state \<Rightarrow> int \<Rightarrow> time \<Rightarrow> persist_result \<Rightarrow> store \<Rightarrow>
    (store, week_error, schedule_week \<times> join_miss list) outcome" where
  "adminCloseWeek commissioner env ci st scorerView week now res s =
     (if \<not> commissioner then rejected NotCommissionerWeek s else closeWeek env ci st scorerView week now res s)"

text \<open>The automatic close of a tick: the weeks in order, up to the first that is not due.\<close>

definition weekDue :: "close_input \<Rightarrow> box_table \<Rightarrow> time \<Rightarrow> location option \<Rightarrow> time \<Rightarrow> persisted_state \<Rightarrow> int \<Rightarrow> bool" where
  "weekDue ci boxes statsAt location now st week \<longleftrightarrow>
     wcReady (adminWeekCloseInfo st (liGames (ciLineup ci)) boxes statsAt location week now) \<or>
     fst (weekCloseTurnDue (liGames (ciLineup ci)) week statsAt now location)"

fun autoCloseFrom :: "league_env \<Rightarrow> close_input \<Rightarrow> box_table \<Rightarrow> time \<Rightarrow> location option \<Rightarrow> time \<Rightarrow> (int \<Rightarrow> persist_result) \<Rightarrow>
    schedule_week list \<Rightarrow> store \<Rightarrow> store" where
  "autoCloseFrom env ci boxes statsAt location now res [] s = s"
| "autoCloseFrom env ci boxes statsAt location now res (wk # wks) s =
     (if scheduleWeekIsFinal wk then autoCloseFrom env ci boxes statsAt location now res wks s
      else if \<not> weekDue ci boxes statsAt location now (stState s) (swWeek wk) then s
      else (case closeWeek env ci (stState s) (stState s) (swWeek wk) now (res (swWeek wk)) s of
              (Inl e, s') \<Rightarrow> s'
            | (Inr x, s') \<Rightarrow> autoCloseFrom env ci boxes statsAt location now res wks s'))"

definition evalWeekAutoClose :: "league_env \<Rightarrow> close_input \<Rightarrow> box_table \<Rightarrow> time \<Rightarrow> location option \<Rightarrow> time \<Rightarrow> (int \<Rightarrow> persist_result) \<Rightarrow>
    store \<Rightarrow> store" where
  "evalWeekAutoClose env ci boxes statsAt location now res s =
     (case seasonSchedule (stState s) of None \<Rightarrow> s
      | Some sch \<Rightarrow> autoCloseFrom env ci boxes statsAt location now res (schWeeks sch) s)"

section \<open>Generating the schedule\<close>

definition teamDivisionMap :: "team list \<Rightarrow> (team_id \<times> string) list" where
  "teamDivisionMap teams = List.map_filter (\<lambda>t. if teamDivision t \<noteq> [] then Some (teamID t, teamDivision t) else None) teams"

definition buildSchedule :: "(int \<Rightarrow> nat \<Rightarrow> nat \<Rightarrow> nat) \<Rightarrow> int \<Rightarrow> int \<Rightarrow> team list \<Rightarrow> int \<Rightarrow> int \<Rightarrow> int \<Rightarrow> time \<Rightarrow> schedule_error + season_schedule" where
  "buildSchedule rnd drawn season teams weeks startWeek seed now =
     (case generateSchedule rnd \<lparr>spSeason = season, spTeamIDs = map teamID teams, spDivisions = teamDivisionMap teams,
             spStartWeek = (if startWeek \<le> 0 then 1 else startWeek), spWeeks = weeks, spSeed = (if seed = 0 then drawn else seed)\<rparr> of
        Inl e \<Rightarrow> Inl e | Inr sch \<Rightarrow> Inr (sch\<lparr>schGeneratedAt := now\<rparr>))"

definition buildAndStoreSchedule :: "(int \<Rightarrow> nat \<Rightarrow> nat \<Rightarrow> nat) \<Rightarrow> int \<Rightarrow> int \<Rightarrow> team list \<Rightarrow> int \<Rightarrow> int \<Rightarrow> int \<Rightarrow> time \<Rightarrow> bool \<Rightarrow> store \<Rightarrow>
    (store, week_error, season_schedule) outcome" where
  "buildAndStoreSchedule rnd drawn season teams weeks startWeek seed now ok s =
     (case buildSchedule rnd drawn season teams weeks startWeek seed now of Inl e \<Rightarrow> rejected (ScheduleInvalid e) s
      | Inr sch \<Rightarrow> andThen (setSchedule sch ok s) sch)"

definition adminGenerateSchedule :: "bool \<Rightarrow> (int \<Rightarrow> nat \<Rightarrow> nat \<Rightarrow> nat) \<Rightarrow> int \<Rightarrow> int \<Rightarrow> team list \<Rightarrow> persisted_state \<Rightarrow> int \<Rightarrow> int \<Rightarrow> int \<Rightarrow> time \<Rightarrow>
    bool \<Rightarrow> store \<Rightarrow> (store, week_error, season_schedule) outcome" where
  "adminGenerateSchedule commissioner rnd drawn season teams st weeks startWeek seed now ok s =
     (if \<not> commissioner then rejected NotCommissionerWeek s
      else if seasonSchedule st \<noteq> None then rejected ScheduleExists s
      else buildAndStoreSchedule rnd drawn season teams weeks startWeek seed now ok s)"

definition adminRegenerateSchedule :: "bool \<Rightarrow> (int \<Rightarrow> nat \<Rightarrow> nat \<Rightarrow> nat) \<Rightarrow> int \<Rightarrow> int \<Rightarrow> team list \<Rightarrow> persisted_state \<Rightarrow> time \<Rightarrow> int \<Rightarrow> int \<Rightarrow> time \<Rightarrow>
    bool \<Rightarrow> store \<Rightarrow> (store, week_error, season_schedule) outcome" where
  "adminRegenerateSchedule commissioner rnd drawn season teams st seasonStart weeks startWeek now ok s =
     (if \<not> commissioner then rejected NotCommissionerWeek s
      else if \<not> now < seasonStart then rejected ScheduleLockedBySeason s
      else (case seasonSchedule st of None \<Rightarrow> rejected NoScheduleStored s
            | Some sch \<Rightarrow>
               if scheduleHasFinalMatchup sch then rejected ScheduleLockedByScore s
               else buildAndStoreSchedule rnd drawn season teams
                      (if weeks \<le> 0 then int (length (schWeeks sch)) else weeks)
                      (if startWeek \<le> 0 then schStartWeek sch else startWeek) drawn now ok s))"

end
