(* ===== verification/DraftService.thy ===== *)
theory DraftService
  imports DraftRoom
begin

text \<open>
  The service layer of the draft (src/internal/league/draftclock.go, presence.go, service.go, admin.go):
  the enforcement tick, restart recovery, the manual pick and the commissioner's controls. A request is
  modelled by what it resolves to (its acting team, whether it is a commissioner's); each operation takes
  the snapshot it decides on apart from the store it then acts on, since other requests may run between.
\<close>

record draft_ctx =
  dcConfigured :: duration
  dcPool :: player_pool
  dcTeams :: "team_id list"
  dcBoardKey :: "team_id \<Rightarrow> string"
  dcStartedAt :: time
  dcKeys :: "team_id \<Rightarrow> string list"
  dcSeen :: "string \<Rightarrow> time option"
  dcDemo :: bool

section \<open>Presence\<close>

datatype presence = NotSeen | Here | Idle | Away

definition PresenceConnectedWithin :: duration where "PresenceConnectedWithin = 12 * second"
definition PresenceIdleWithin :: duration where "PresenceIdleWithin = 60 * second"

definition presenceState :: "time \<Rightarrow> time \<Rightarrow> presence" where
  "presenceState lastSeen now =
     (if isZero lastSeen then Away
      else if now - lastSeen \<le> PresenceConnectedWithin then Here
      else if now - lastSeen \<le> PresenceIdleWithin then Idle
      else Away)"

definition presenceStateSince :: "time option \<Rightarrow> time \<Rightarrow> time \<Rightarrow> presence" where
  "presenceStateSince lastSeen now startedAt =
     (case lastSeen of None \<Rightarrow> NotSeen
      | Some t \<Rightarrow> if isZero t \<or> t < startedAt then NotSeen else presenceState t now)"

definition teamNeverSeen :: "draft_ctx \<Rightarrow> team_id \<Rightarrow> time \<Rightarrow> bool" where
  "teamNeverSeen ctx t now =
     (if now - dcStartedAt ctx < NotSeenBootGrace then False
      else if dcKeys ctx t = [] then False
      else list_all (\<lambda>k. presenceStateSince (dcSeen ctx k) now (dcStartedAt ctx) = NotSeen) (dcKeys ctx t))"

section \<open>The enforcement tick\<close>

datatype pick_reason = ByClock | ByAutoFlag | ByNotSeen

definition effectiveDeadline :: "league_env \<Rightarrow> draft_ctx \<Rightarrow> persisted_state \<Rightarrow> time \<Rightarrow> time \<times> pick_reason" where
  "effectiveDeadline env ctx st now =
     (let deadline = clockDeadline st;
          armAt = deadline - pickClock (dcConfigured ctx) st;
          t = onClock env st
      in if autopick st t then
           (if armAt + AutopickGrace < deadline then (armAt + AutopickGrace, ByAutoFlag) else (deadline, ByClock))
         else if teamNeverSeen ctx t now then
           (if armAt + NotSeenClock < deadline then (armAt + NotSeenClock, ByNotSeen) else (deadline, ByClock))
         else (deadline, ByClock))"

definition autopickChoice :: "league_env \<Rightarrow> draft_ctx \<Rightarrow> persisted_state \<Rightarrow> team_id \<Rightarrow> player_id option" where
  "autopickChoice env ctx st t = autopickChoiceWith env st (dcPool ctx) (dcTeams ctx) (dcBoardKey ctx t) t"

definition bootRecoverClock :: "draft_ctx \<Rightarrow> persisted_state \<Rightarrow> time \<Rightarrow> bool \<Rightarrow> store \<Rightarrow> store" where
  "bootRecoverClock ctx st now ok s =
     (if \<not> draftStarted st \<or> clockPaused st \<or> isZero (clockDeadline st) then s
      else if clockDeadline st > now then s
      else snd (armClock (now + (if pickClock (dcConfigured ctx) st < RestartGrace
                                 then pickClock (dcConfigured ctx) st else RestartGrace)) ok s))"

definition clockTick :: "league_env \<Rightarrow> token_fns \<Rightarrow> draft_ctx \<Rightarrow> persisted_state \<Rightarrow> time \<Rightarrow> bool \<Rightarrow> store \<Rightarrow> store" where
  "clockTick env tf ctx st now ok s =
     (let number = nextNumber st; t = onClock env st in
      if \<not> draftStarted st then s
      else if int (length (picks st)) \<ge> totalPicks env then
        (if \<not> isZero (clockDeadline st) \<or> clockPaused st \<or> clockRemainingSec st \<noteq> 0 then snd (clearClock ok s) else s)
      else if clockPaused st then s
      else if isZero (clockDeadline st) then snd (armClock (now + pickClock (dcConfigured ctx) st) ok s)
      else if now < fst (effectiveDeadline env ctx st now) then s
      else (case autopickChoice env ctx st t of
              None \<Rightarrow> snd (pauseClock env now ok s)
            | Some p \<Rightarrow> snd (autoPick env tf t p ByAuto number (clockDeadline st) now
                  (if number < totalPicks env then now + pickClock (dcConfigured ctx) st else 0) None ok s)))"

section \<open>The manual pick\<close>

datatype service_pick_error = NotAvailable | NoActingTeam | RoomNotOpen | PickLimit string int
  | PickNotViable | PickScarce string int int | PickStore pick_error | NotCommissioner
  | PickNotConfirmed | ServiceActionStale | ServiceDraftComplete | NothingToPick

definition liftPick :: "(store, pick_error, 'a) outcome \<Rightarrow> (store, service_pick_error, 'a) outcome" where
  "liftPick r = (case r of
     (Inl (Rejected e), s) \<Rightarrow> (Inl (Rejected (PickStore e)), s)
   | (Inl Unhealthy, s) \<Rightarrow> (Inl Unhealthy, s)
   | (Inl PersistFailed, s) \<Rightarrow> (Inl PersistFailed, s)
   | (Inr x, s) \<Rightarrow> (Inr x, s))"

definition serviceMakePick :: "league_env \<Rightarrow> draft_ctx \<Rightarrow> team_id option \<Rightarrow> string \<Rightarrow> persisted_state \<Rightarrow> time \<Rightarrow> bool \<Rightarrow> store \<Rightarrow>
    (store, service_pick_error, draft_pick) outcome" where
  "serviceMakePick env ctx acting requested st now ok s =
     (let p = trimSpace requested; pool = dcPool ctx in
      case poolByID pool p of
        None \<Rightarrow> rejected NotAvailable s
      | Some player \<Rightarrow>
          (case acting of
             None \<Rightarrow> rejected NoActingTeam s
           | Some own \<Rightarrow>
               (let t = (if dcDemo ctx then onClock env st else own) in
                if \<not> draftOpen s then rejected RoomNotOpen s
                else (case teamWouldBreachLimit env st (poolByID pool) t [p] [] of
                    Some (position, cap) \<Rightarrow> rejected (PickLimit position cap) s
                  | None \<Rightarrow>
                      if \<not> draftCandidateKeepsRosterViable env st (poolByID pool) t p then rejected PickNotViable s
                      else (case positionScarcityDetail st pool (pickedIn st) (envRoster env) t (playerPosition player)
                                   (filter (\<lambda>u. u \<noteq> t) (dcTeams ctx)) of
                          (blocked, supply, missing) \<Rightarrow>
                            if blocked then rejected (PickScarce (playerPosition player) supply missing) s
                            else liftPick (makePick env t p ByManager now
                                   (if \<not> clockPaused st \<and> nextNumber st < totalPicks env
                                    then now + pickClock (dcConfigured ctx) st else 0) ok s))))))"

section \<open>Commissioner controls\<close>

definition ForceCurrentPickConfirmation :: string where
  "ForceCurrentPickConfirmation = ''FORCE CURRENT PICK''"

definition adminForceAutopick :: "league_env \<Rightarrow> token_fns \<Rightarrow> draft_ctx \<Rightarrow> bool \<Rightarrow> string \<Rightarrow> string \<Rightarrow> persisted_state \<Rightarrow> time \<Rightarrow>
    bool \<Rightarrow> store \<Rightarrow> (store, service_pick_error, draft_pick) outcome" where
  "adminForceAutopick env tf ctx commissioner confirmation expected st now ok s =
     (let token = trimSpace expected; t = onClock env st in
      if \<not> commissioner then rejected NotCommissioner s
      else if trimSpace confirmation \<noteq> ForceCurrentPickConfirmation then rejected PickNotConfirmed s
      else if token = [] then rejected ServiceActionStale s
      else if \<not> draftOpen s then rejected RoomNotOpen s
      else if token \<noteq> draftCurrentPickToken env tf st then rejected ServiceActionStale s
      else if nextNumber st > totalPicks env then rejected ServiceDraftComplete s
      else (case autopickChoice env ctx st t of
              None \<Rightarrow> rejected NothingToPick s
            | Some p \<Rightarrow> liftPick (autoPickIfCurrent env tf t p ByCommissioner (nextNumber st) (clockDeadline st) now
                  (pickClock (dcConfigured ctx) st) token ok s)))"

definition adminUndoPick :: "token_fns \<Rightarrow> draft_ctx \<Rightarrow> bool \<Rightarrow> string \<Rightarrow> persisted_state \<Rightarrow> time \<Rightarrow> bool \<Rightarrow> store \<Rightarrow>
    (store, service_pick_error, unit) outcome" where
  "adminUndoPick tf ctx commissioner expected st now ok s =
     (let token = trimSpace expected in
      if \<not> commissioner then rejected NotCommissioner s
      else if token = [] \<or> token \<noteq> draftPreviousPickToken tf st then rejected ServiceActionStale s
      else if picks st = [] then rejected (PickStore NoPicksToUndo) s
      else liftPick (undoLastPickIfCurrent tf now (pickClock (dcConfigured ctx) st) token ok s))"

datatype admin_clock_error = ClockNotCommissioner | ClockServiceStale | PoolNotReady | PoolTooSmall int int
  | ClockStore clock_error

definition liftClock :: "(store, clock_error, 'a) outcome \<Rightarrow> (store, admin_clock_error, 'a) outcome" where
  "liftClock r = (case r of
     (Inl (Rejected e), s) \<Rightarrow> (Inl (Rejected (ClockStore e)), s)
   | (Inl Unhealthy, s) \<Rightarrow> (Inl Unhealthy, s)
   | (Inl PersistFailed, s) \<Rightarrow> (Inl PersistFailed, s)
   | (Inr x, s) \<Rightarrow> (Inr x, s))"

definition adminPauseClock :: "league_env \<Rightarrow> bool \<Rightarrow> persisted_state \<Rightarrow> time \<Rightarrow> bool \<Rightarrow> store \<Rightarrow>
    (store, admin_clock_error, unit) outcome" where
  "adminPauseClock env commissioner st now ok s =
     (if \<not> commissioner then rejected ClockNotCommissioner s
      else if isZero (clockDeadline st) \<or> clockPaused st then rejected (ClockStore ClockNotRunning) s
      else liftClock (pauseClock env now ok s))"

definition adminResumeClock :: "league_env \<Rightarrow> draft_ctx \<Rightarrow> bool \<Rightarrow> persisted_state \<Rightarrow> time \<Rightarrow> bool \<Rightarrow> store \<Rightarrow>
    (store, admin_clock_error, unit) outcome" where
  "adminResumeClock env ctx commissioner st now ok s =
     (if \<not> commissioner then rejected ClockNotCommissioner s
      else if \<not> draftStarted st then rejected (ClockStore ClockDraftNotStarted) s
      else if draftComplete env st then rejected (ClockStore ClockDraftComplete) s
      else if \<not> isZero (clockDeadline st) \<and> \<not> clockPaused st then rejected (ClockStore ClockRunning) s
      else liftClock (resumeClock env now (pickClock (dcConfigured ctx) st) ok s))"

text \<open>label is the source label of the pool.\<close>

definition draftStartReadiness :: "player_pool \<Rightarrow> string \<Rightarrow> bool \<Rightarrow> int \<Rightarrow> admin_clock_error option" where
  "draftStartReadiness pool label demo required =
     (if \<not> demo \<and> label \<notin> set [''live'', ''cached'', ''stale'', ''degraded''] then Some PoolNotReady
      else (let unique = int (card (set (filter (\<lambda>i. i \<noteq> []) (map (\<lambda>p. trimSpace (playerID p)) (poolPlayers pool)))))
            in if unique < required then Some (PoolTooSmall unique required) else None))"

definition adminStartDraft :: "league_env \<Rightarrow> draft_ctx \<Rightarrow> string \<Rightarrow> bool \<Rightarrow> persisted_state \<Rightarrow> time \<Rightarrow> bool \<Rightarrow> store \<Rightarrow>
    (store, admin_clock_error, bool) outcome" where
  "adminStartDraft env ctx label commissioner st now ok s =
     (if \<not> commissioner then rejected ClockNotCommissioner s
      else if draftStarted st then (Inr False, s)
      else (case draftStartReadiness (dcPool ctx) label (dcDemo ctx) (int (length (dcTeams ctx)) * envRounds env) of
              Some e \<Rightarrow> rejected e s
            | None \<Rightarrow> liftClock (startDraft now (pickClock (dcConfigured ctx) st) ok s)))"

definition adminExtendClock :: "league_env \<Rightarrow> token_fns \<Rightarrow> bool \<Rightarrow> int \<Rightarrow> string \<Rightarrow> persisted_state \<Rightarrow> time \<Rightarrow> bool \<Rightarrow> store \<Rightarrow>
    (store, admin_clock_error, unit) outcome" where
  "adminExtendClock env tf commissioner secs expected st now ok s =
     (let token = trimSpace expected in
      if \<not> commissioner then rejected ClockNotCommissioner s
      else if token = [] \<or> token \<noteq> draftCurrentPickToken env tf st then rejected ClockServiceStale s
      else liftClock (extendClock env tf now (wrap64 (secs * second)) (Some token) ok s))"

definition adminSetClockSeconds :: "bool \<Rightarrow> int \<Rightarrow> bool \<Rightarrow> store \<Rightarrow> (store, admin_clock_error, unit) outcome" where
  "adminSetClockSeconds commissioner secs ok s =
     (if \<not> commissioner then rejected ClockNotCommissioner s else liftClock (setClockDuration secs ok s))"

definition toggleAutopick :: "league_env \<Rightarrow> team_id \<Rightarrow> persisted_state \<Rightarrow> bool \<Rightarrow> store \<Rightarrow> (store, seat_error, bool) outcome" where
  "toggleAutopick env t st ok s =
     (let on = \<not> autopick st t in
      case setAutopick env t on ok s of (Inl e, s') \<Rightarrow> (Inl e, s') | (Inr u, s') \<Rightarrow> (Inr on, s'))"

section \<open>The draw of the draft order\<close>

text \<open>
  draws pass i stands for rand.Int: an index below i + 1. The schedule the draw publishes is an argument,
  None when its generation failed (SeasonSchedule models it).
\<close>

definition swapAt :: "nat \<Rightarrow> nat \<Rightarrow> 'a list \<Rightarrow> 'a list" where
  "swapAt i j xs = xs[i := xs ! j, j := xs ! i]"

definition shufflePass :: "(nat \<Rightarrow> nat) \<Rightarrow> 'a list \<Rightarrow> 'a list" where
  "shufflePass draw xs = fold (\<lambda>i. swapAt i (draw i)) (rev [1..<length xs]) xs"

definition draftOrderShufflePasses :: nat where "draftOrderShufflePasses = 6"

definition drawnOrder :: "(nat \<Rightarrow> nat \<Rightarrow> nat) \<Rightarrow> team_id list \<Rightarrow> team_id list \<Rightarrow> team_id list" where
  "drawnOrder draws teams previous =
     (let order = fold (\<lambda>k. shufflePass (draws k)) [0..<draftOrderShufflePasses] teams
      in if previous = order \<and> 1 < length order then swapAt 0 1 order else order)"

definition adminRandomizeDraftOrder :: "league_env \<Rightarrow> team list \<Rightarrow> token_fns \<Rightarrow> (nat \<Rightarrow> nat \<Rightarrow> nat) \<Rightarrow>
    season_schedule option \<Rightarrow> bool \<Rightarrow> string \<Rightarrow> persisted_state \<Rightarrow> bool \<Rightarrow> store \<Rightarrow> (store, order_error, bool) outcome" where
  "adminRandomizeDraftOrder env active tf draws built commissioner expected st ok s =
     (if \<not> commissioner then rejected OrderNotCommissioner s
      else (case built of
              None \<Rightarrow> rejected OrderNoSchedule s
            | Some schedule \<Rightarrow>
                drawDraftOrder active tf (drawnOrder draws (defaultTeamIDs env) (draftOrder st)) (trimSpace expected)
                  (Some schedule) ok s))"

end
