(* ===== verification/DraftProps.thy ===== *)
theory DraftProps
  imports DraftService
begin

text \<open>
  The draft room over its whole life: the tape of picks keeps its shape under every operation, in any order
  and with any stale snapshot, the clock does while ticks run on the current state, and a finished draft is a
  fair snake whose teams can field a lineup.
\<close>

section \<open>The shape of the room\<close>

definition tapeInv :: "league_env \<Rightarrow> persisted_state \<Rightarrow> bool" where
  "tapeInv env st \<longleftrightarrow>
     (\<forall>i<length (picks st). pickNumber (picks st ! i) = int i + 1 \<and>
        Model.pickRound (picks st ! i) = DraftOrder.pickRound (activeTeamCount env (draftOrder st)) (int i + 1) \<and>
        pickTeamID (picks st ! i) = teamOnClock env (draftOrder st) (int i + 1)) \<and>
     distinct (map pickPlayerID (picks st)) \<and> int (length (picks st)) \<le> totalPicks env \<and>
     (picks st \<noteq> [] \<longrightarrow> draftStarted st)"

definition clockInv :: "league_env \<Rightarrow> persisted_state \<Rightarrow> bool" where
  "clockInv env st \<longleftrightarrow>
     (clockPaused st \<longrightarrow> clockDeadline st = 0) \<and> (\<not> clockPaused st \<longrightarrow> clockRemainingSec st = 0) \<and>
     (draftComplete env st \<longrightarrow> clockDeadline st = 0 \<and> \<not> clockPaused st)"

definition draftInv :: "league_env \<Rightarrow> persisted_state \<Rightarrow> bool" where
  "draftInv env st \<longleftrightarrow> tapeInv env st \<and> clockInv env st"

text \<open>Fields the two invariants do not read.\<close>

lemma tapeInv_frame [simp]:
  "tapeInv env (st\<lparr>clockDeadline := d\<rparr>) = tapeInv env st" "tapeInv env (st\<lparr>clockPaused := b\<rparr>) = tapeInv env st"
  "tapeInv env (st\<lparr>clockRemainingSec := n\<rparr>) = tapeInv env st" "tapeInv env (st\<lparr>clockDurationSec := n\<rparr>) = tapeInv env st"
  "tapeInv env (st\<lparr>autopick := f\<rparr>) = tapeInv env st" "tapeInv env (st\<lparr>draftStartedAt := d\<rparr>) = tapeInv env st"
  "tapeInv env (st\<lparr>draftAtOverride := d\<rparr>) = tapeInv env st" "tapeInv env (st\<lparr>seasonSchedule := sch\<rparr>) = tapeInv env st"
  by (simp_all add: tapeInv_def)

lemma complete_frame [simp]:
  "draftComplete env (st\<lparr>clockDeadline := d\<rparr>) = draftComplete env st" "draftComplete env (st\<lparr>clockPaused := b\<rparr>) = draftComplete env st"
  "draftComplete env (st\<lparr>clockRemainingSec := n\<rparr>) = draftComplete env st" "draftComplete env (st\<lparr>clockDurationSec := n\<rparr>) = draftComplete env st"
  "draftComplete env (st\<lparr>autopick := f\<rparr>) = draftComplete env st" "draftComplete env (st\<lparr>draftStartedAt := d\<rparr>) = draftComplete env st"
  "draftComplete env (st\<lparr>draftAtOverride := d\<rparr>) = draftComplete env st" "draftComplete env (st\<lparr>seasonSchedule := sch\<rparr>) = draftComplete env st"
  "draftComplete env (st\<lparr>draftStarted := b\<rparr>) = draftComplete env st" "draftComplete env (st\<lparr>draftOrder := ids\<rparr>) = draftComplete env st"
  by (simp_all add: draftComplete_def)

lemma clockInv_frame [simp]:
  "clockInv env (st\<lparr>clockDurationSec := n\<rparr>) = clockInv env st" "clockInv env (st\<lparr>autopick := f\<rparr>) = clockInv env st"
  "clockInv env (st\<lparr>draftAtOverride := d\<rparr>) = clockInv env st" "clockInv env (st\<lparr>seasonSchedule := sch\<rparr>) = clockInv env st"
  "clockInv env (st\<lparr>draftOrder := ids\<rparr>) = clockInv env st"
  by (simp_all add: clockInv_def)

lemma pickedIn_set: "pickedIn st p \<longleftrightarrow> p \<in> set (map pickPlayerID (picks st))"
  by (auto simp: pickedIn_def list_ex_iff)

lemma complete_total: "draftComplete env st \<longleftrightarrow> totalPicks env \<le> int (length (picks st))"
  by (simp add: draftComplete_def totalPicks_def)

lemma tapeInv_append:
  assumes "tapeInv env st" "onClock env st = t" "\<not> pickedIn st p" "\<not> totalPicks env \<le> int (length (picks st))" "draftStarted st"
  shows "tapeInv env (appendPick (newPick env st t p madeBy now) st)"
  using assms unfolding tapeInv_def pickedIn_set
  by (auto simp: appendPick_def newPick_def onClock_def nextNumber_def nth_append less_Suc_eq)

lemma tapeInv_butlast: "tapeInv env st \<Longrightarrow> tapeInv env (st\<lparr>picks := butlast (picks st)\<rparr>)"
  unfolding tapeInv_def by (auto simp: nth_butlast map_butlast distinct_butlast)

lemma tapeInv_fresh: "picks st = [] \<Longrightarrow> 0 < totalPicks env \<Longrightarrow> tapeInv env st"
  by (simp add: tapeInv_def)

section \<open>What each operation writes\<close>

text \<open>
  A control is any operation that makes no pick. A step of the room is one control, one pick with
  whatever its caller saw, or one tick or restart on the current state.
\<close>

inductive control_step :: "league_env \<Rightarrow> token_fns \<Rightarrow> team list \<Rightarrow> store \<Rightarrow> store \<Rightarrow> bool" for env tf active where
  undo: "undoLastPick tf nx expected ok s = (r, s') \<Longrightarrow> control_step env tf active s s'"
| start: "startDraft now d ok s = (r, s') \<Longrightarrow> control_step env tf active s s'"
| meet: "setDraftAtOverride now ok s = (r, s') \<Longrightarrow> control_step env tf active s s'"
| pause: "pauseClock env now ok s = (r, s') \<Longrightarrow> control_step env tf active s s'"
| resume: "resumeClock env now d ok s = (r, s') \<Longrightarrow> control_step env tf active s s'"
| extend: "extendClock env tf now d expected ok s = (r, s') \<Longrightarrow> control_step env tf active s s'"
| duration: "setClockDuration n ok s = (r, s') \<Longrightarrow> control_step env tf active s s'"
| clear: "clearClock ok s = (r, s') \<Longrightarrow> control_step env tf active s s'"
| flag: "setAutopick env t b ok s = (r, s') \<Longrightarrow> control_step env tf active s s'"
| claimed: "setAutopickIfClaimed env t b ok s = (r, s') \<Longrightarrow> control_step env tf active s s'"
| reset: "resetDraft ok s = (r, s') \<Longrightarrow> control_step env tf active s s'"
| order: "setDraftOrder active ids ok s = (r, s') \<Longrightarrow> control_step env tf active s s'"
| draw: "drawDraftOrder active tf ids e sch ok s = (r, s') \<Longrightarrow> control_step env tf active s s'"
| boot: "control_step env tf active s (bootRecoverClock ctx (stState s) now ok s)"

inductive draft_step :: "league_env \<Rightarrow> token_fns \<Rightarrow> team list \<Rightarrow> store \<Rightarrow> store \<Rightarrow> bool" for env tf active where
  pick: "makePick env t p madeBy now nx ok s = (r, s') \<Longrightarrow> draft_step env tf active s s'"
| auto: "autoPick env tf t p madeBy n seenDeadline now nx expected ok s = (r, s') \<Longrightarrow> draft_step env tf active s s'"
| tick: "draft_step env tf active s (clockTick env tf ctx (stState s) now ok s)"
| control: "control_step env tf active s s' \<Longrightarrow> draft_step env tf active s s'"

lemma makePick_cases:
  "makePick env t p madeBy now nx ok s = (r, s') \<Longrightarrow> s' = s \<and> (\<forall>x. r \<noteq> Inr x) \<or>
    draftOpen s \<and> onClock env (stState s) = t \<and> \<not> pickedIn (stState s) p \<and>
    \<not> totalPicks env \<le> int (length (picks (stState s))) \<and> r = Inr (newPick env (stState s) t p madeBy now) \<and>
    s' = s\<lparr>stState := afterPick env (stState s) (newPick env (stState s) t p madeBy now) id nx\<rparr>"
  unfolding makePick_def Let_def op_iffs by blast

lemma autoPick_cases:
  "autoPick env tf t p madeBy n seenDeadline now nx expected ok s = (r, s') \<Longrightarrow> s' = s \<and> (\<forall>x. r \<noteq> Inr x) \<or>
    draftOpen s \<and> onClock env (stState s) = t \<and> \<not> pickedIn (stState s) p \<and>
    \<not> totalPicks env \<le> int (length (picks (stState s))) \<and> r = Inr (newPick env (stState s) t p madeBy now) \<and>
    n = nextNumber (stState s) \<and> seenDeadline = clockDeadline (stState s) \<and>
    (madeBy = ByCommissioner \<or> \<not> clockPaused (stState s)) \<and>
    (\<exists>nx'. s' = s\<lparr>stState := afterPick env (stState s) (newPick env (stState s) t p madeBy now)
       (clockRemainingSec_update (\<lambda>n. 0)) nx'\<rparr>)"
  unfolding autoPick_def Let_def op_iffs by blast

lemma undoLastPick_cases:
  "undoLastPick tf nx expected ok s = (r, s') \<Longrightarrow> s' = s \<or> picks (stState s) \<noteq> [] \<and>
    s' = s\<lparr>stState := (if clockPaused (stState s) then (stState s)\<lparr>picks := butlast (picks (stState s))\<rparr>
      else (stState s)\<lparr>picks := butlast (picks (stState s)), clockDeadline := nx, clockRemainingSec := 0\<rparr>)\<rparr>"
  unfolding undoLastPick_def Let_def op_iffs by (cases "clockPaused (stState s)", simp_all) blast+

lemma draftInv_pick:
  assumes "draftInv env st" "onClock env st = t" "\<not> pickedIn st p" "\<not> totalPicks env \<le> int (length (picks st))"
    "draftStarted st" "hold = id \<or> hold = clockRemainingSec_update (\<lambda>n. 0)"
  shows "draftInv env (afterPick env st (newPick env st t p madeBy now) hold nx)"
proof -
  let ?st = "appendPick (newPick env st t p madeBy now) st"
  have tape: "tapeInv env ?st" by (rule tapeInv_append) (use assms in \<open>simp_all add: draftInv_def\<close>)
  have clock: "clockInv env st" using assms(1) by (simp add: draftInv_def)
  have same: "clockPaused ?st = clockPaused st" "clockRemainingSec ?st = clockRemainingSec st"
    by (simp_all add: appendPick_def)
  show ?thesis
  proof (cases "totalPicks env \<le> int (length (picks ?st))")
    case True
    then have "afterPick env st (newPick env st t p madeBy now) hold nx = disarmed ?st" by (simp add: afterPick_def)
    then show ?thesis using tape by (simp add: draftInv_def disarmed_def clockInv_def)
  next
    case False
    then have part: "\<not> draftComplete env ?st" by (simp add: complete_total)
    have "clockPaused ?st \<Longrightarrow> draftInv env (hold (?st\<lparr>clockDeadline := 0\<rparr>))"
      using assms(6) part tape by (elim disjE) (simp_all add: draftInv_def clockInv_def)
    moreover have "\<not> clockPaused ?st \<Longrightarrow> draftInv env (?st\<lparr>clockDeadline := nx\<rparr>)"
      using part tape clock same by (simp add: draftInv_def clockInv_def)
    ultimately show ?thesis using False by (simp add: afterPick_def Let_def)
  qed
qed

lemma draftInv_undo:
  assumes "draftInv env st" "picks st \<noteq> []"
  shows "draftInv env (if clockPaused st then st\<lparr>picks := butlast (picks st)\<rparr>
    else st\<lparr>picks := butlast (picks st), clockDeadline := nx, clockRemainingSec := 0\<rparr>)"
proof -
  have tape: "tapeInv env (st\<lparr>picks := butlast (picks st)\<rparr>)" using assms(1) by (simp add: draftInv_def tapeInv_butlast)
  have "int (length (butlast (picks st))) < totalPicks env"
    using assms by (cases "picks st" rule: rev_cases) (auto simp: draftInv_def tapeInv_def)
  then have "\<not> draftComplete env (st\<lparr>picks := butlast (picks st)\<rparr>)" by (simp add: complete_total)
  then show ?thesis using tape assms(1) by (simp add: draftInv_def clockInv_def)
qed

lemma draftInv_arm:
  "draftInv env st \<Longrightarrow> \<not> clockPaused st \<Longrightarrow> \<not> draftComplete env st \<Longrightarrow> draftInv env (st\<lparr>clockDeadline := d\<rparr>)"
  by (simp add: draftInv_def clockInv_def)

text \<open>The operations on the clock, the seats and the order: each keeps the store or installs a state.\<close>

definition keeps :: "league_env \<Rightarrow> store \<Rightarrow> store \<Rightarrow> bool" where
  "keeps env s s' \<longleftrightarrow> stLifecycleBypass s' = stLifecycleBypass s \<and>
     (draftInv env (stState s) \<longrightarrow> \<not> stLifecycleBypass s \<longrightarrow> 0 < totalPicks env \<longrightarrow> draftInv env (stState s'))"

lemma keeps_same: "keeps env s s"
  by (simp add: keeps_def)

lemma keeps_state: "(draftInv env (stState s) \<Longrightarrow> \<not> stLifecycleBypass s \<Longrightarrow> 0 < totalPicks env \<Longrightarrow> draftInv env st) \<Longrightarrow>
    keeps env s (s\<lparr>stState := st\<rparr>)"
  by (simp add: keeps_def)

lemma keeps_makePick: "makePick env t p madeBy now nx ok s = (r, s') \<Longrightarrow> keeps env s s'"
  by (drule makePick_cases) (auto simp: keeps_same draftOpen_def intro!: keeps_state draftInv_pick)

lemma keeps_autoPick: "autoPick env tf t p madeBy n seenDeadline now nx expected ok s = (r, s') \<Longrightarrow> keeps env s s'"
  by (drule autoPick_cases) (auto simp: keeps_same draftOpen_def intro!: keeps_state draftInv_pick)

lemma keeps_undo: "undoLastPick tf nx expected ok s = (r, s') \<Longrightarrow> keeps env s s'"
  by (drule undoLastPick_cases, elim disjE conjE, simp only: keeps_same)
    (hypsubst, rule keeps_state [OF draftInv_undo], assumption+)

lemma keeps_start: "startDraft now d ok s = (r, s') \<Longrightarrow> keeps env s s'"
proof -
  let ?st = "(stState s)\<lparr>draftStarted := True, draftStartedAt := now, clockPaused := False,
             clockRemainingSec := 0, clockDeadline := now + d\<rparr>"
  assume "startDraft now d ok s = (r, s')"
  then have "s' = s \<or> \<not> draftStarted (stState s) \<and> s' = s\<lparr>stState := ?st\<rparr>"
    unfolding startDraft_def op_iffs by (auto split: if_splits simp: restore_iff)
  moreover have "draftInv env ?st" if "draftInv env (stState s)" "0 < totalPicks env" "\<not> draftStarted (stState s)"
  proof -
    have "picks (stState s) = []" using that by (auto simp: draftInv_def tapeInv_def)
    then show ?thesis using that(2) by (simp add: draftInv_def tapeInv_fresh clockInv_def complete_total)
  qed
  ultimately show ?thesis using keeps_same keeps_state by blast
qed

lemma keeps_meet: "setDraftAtOverride now ok s = (r, s') \<Longrightarrow> keeps env s s'"
  unfolding setDraftAtOverride_def op_iffs by (auto simp: keeps_same draftInv_def intro!: keeps_state)

lemma keeps_pause: "pauseClock env now ok s = (r, s') \<Longrightarrow> keeps env s s'"
  unfolding pauseClock_def op_iffs Let_def
  by (auto simp: keeps_same draftInv_def clockInv_def intro!: keeps_state)

lemma keeps_resume: "resumeClock env now d ok s = (r, s') \<Longrightarrow> keeps env s s'"
  unfolding resumeClock_def op_iffs Let_def
  by (auto simp: keeps_same draftInv_def clockInv_def intro!: keeps_state)

lemma keeps_extend: "extendClock env tf now d expected ok s = (r, s') \<Longrightarrow> keeps env s s'"
proof -
  assume "extendClock env tf now d expected ok s = (r, s')"
  then have "s' = s \<or> \<not> clockPaused (stState s) \<and> \<not> isZero (clockDeadline (stState s)) \<and>
      (\<exists>x. s' = s\<lparr>stState := (stState s)\<lparr>clockDeadline := x\<rparr>\<rparr>)"
    unfolding extendClock_def op_iffs Let_def by blast
  moreover have "draftInv env ((stState s)\<lparr>clockDeadline := x\<rparr>)"
    if "draftInv env (stState s)" "\<not> clockPaused (stState s)" "\<not> isZero (clockDeadline (stState s))" for x
    by (rule draftInv_arm) (use that in \<open>auto simp: draftInv_def clockInv_def\<close>)
  ultimately show ?thesis using keeps_same keeps_state by blast
qed

lemma keeps_duration: "setClockDuration n ok s = (r, s') \<Longrightarrow> keeps env s s'"
  unfolding setClockDuration_def op_iffs by (auto simp: keeps_same draftInv_def intro!: keeps_state)

lemma keeps_clear: "clearClock ok s = (r, s') \<Longrightarrow> keeps env s s'"
  unfolding clearClock_def gated_iff Let_def
  by (auto simp: keeps_same only_iff draftInv_def clockInv_def split: if_splits intro!: keeps_state)

lemma keeps_flag: "setAutopick env t b ok s = (r, s') \<Longrightarrow> keeps env s s'"
  unfolding setAutopick_def op_iffs by (auto simp: keeps_same draftInv_def intro!: keeps_state)

lemma keeps_claimed: "setAutopickIfClaimed env t b ok s = (r, s') \<Longrightarrow> keeps env s s'"
  unfolding setAutopickIfClaimed_def op_iffs by (auto simp: keeps_same draftInv_def intro!: keeps_state)

lemma keeps_reset: "resetDraft ok s = (r, s') \<Longrightarrow> keeps env s s'"
  unfolding resetDraft_def op_iffs clearClockFields_def disarmed_def
  by (auto simp: keeps_same draftInv_def clockInv_def complete_total tapeInv_fresh intro!: keeps_state)

lemma unstarted_order:
  assumes "draftInv env st" "0 < totalPicks env" "\<not> draftStarted st"
  shows "draftInv env (st\<lparr>draftOrder := ids\<rparr>)"
proof -
  have "picks st = []" using assms by (auto simp: draftInv_def tapeInv_def)
  then show ?thesis using assms by (simp add: draftInv_def tapeInv_fresh)
qed

lemma keeps_order: "setDraftOrder active ids ok s = (r, s') \<Longrightarrow> keeps env s s'"
  unfolding setDraftOrder_def gated_iff
  by (auto simp: keeps_same op_iffs unstarted_order split: option.splits intro!: keeps_state)

lemma unstarted_draw:
  "draftInv env st \<Longrightarrow> 0 < totalPicks env \<Longrightarrow> \<not> draftStarted st \<Longrightarrow> draftInv env (st\<lparr>draftOrder := ids, seasonSchedule := x\<rparr>)"
  using unstarted_order [of env st ids] by (simp add: draftInv_def)

lemma keeps_draw: "drawDraftOrder active tf ids e sch ok s = (r, s') \<Longrightarrow> keeps env s s'"
  unfolding drawDraftOrder_def gated_iff Let_def
  by (auto simp: op_iffs keeps_same unstarted_order unstarted_draw split: option.splits intro!: keeps_state)

lemma keeps_armed:
  assumes "\<not> clockPaused (stState s)" "\<not> draftComplete env (stState s) \<or> \<not> isZero (clockDeadline (stState s))"
  shows "keeps env s (snd (armClock d ok s))"
proof -
  obtain r s' where arm: "armClock d ok s = (r, s')" by fastforce
  then have "s' = s \<or> s' = s\<lparr>stState := (stState s)\<lparr>clockDeadline := d\<rparr>\<rparr>"
    unfolding armClock_def op_iffs by blast
  moreover have "draftInv env ((stState s)\<lparr>clockDeadline := d\<rparr>)" if "draftInv env (stState s)"
    by (rule draftInv_arm) (use that assms in \<open>auto simp: draftInv_def clockInv_def\<close>)
  ultimately show ?thesis unfolding arm using keeps_same keeps_state by auto
qed

lemma keeps_boot: "keeps env s (bootRecoverClock ctx (stState s) now ok s)"
  by (simp add: bootRecoverClock_def keeps_same keeps_armed)

lemma keeps_tick: "keeps env s (clockTick env tf ctx (stState s) now ok s)"
proof -
  have "keeps env s (snd (clearClock ok s))" "keeps env s (snd (pauseClock env now ok s))"
    "keeps env s (snd (autoPick env tf t p b n d now nx e ok s))" for t p b n d nx e
    by (metis keeps_clear prod.collapse, metis keeps_pause prod.collapse, metis keeps_autoPick prod.collapse)
  moreover have "keeps env s (snd (armClock d ok s))" if "\<not> totalPicks env \<le> int (length (picks (stState s)))" "\<not> clockPaused (stState s)" for d
    using keeps_armed that by (simp add: complete_total)
  ultimately show ?thesis unfolding clockTick_def Let_def by (simp add: keeps_same split: option.split)
qed

lemmas keeps_ops = keeps_makePick keeps_autoPick keeps_undo keeps_start keeps_meet keeps_pause keeps_resume keeps_extend
  keeps_duration keeps_clear keeps_flag keeps_claimed keeps_reset keeps_order keeps_draw keeps_boot keeps_tick

lemma control_keeps: "control_step env tf active s s' \<Longrightarrow> keeps env s s'"
  by (induction rule: control_step.induct) (rule keeps_ops; assumption)+

lemma step_keeps: "draft_step env tf active s s' \<Longrightarrow> keeps env s s'"
  by (induction rule: draft_step.induct) (rule keeps_ops control_keeps; assumption)+

lemma run_keeps: "(draft_step env tf active)\<^sup>*\<^sup>* s s' \<Longrightarrow> keeps env s s'"
proof (induction rule: rtranclp_induct)
  case base
  show ?case by (rule keeps_same)
next
  case (step y z)
  then show ?case using step_keeps [OF step(2)] by (auto simp: keeps_def)
qed

section \<open>Ticks that come late\<close>

text \<open>
  A tick or a restart reads its snapshot before it takes the lock. A late step may use any snapshot; the tape
  still keeps its shape, since every write that touches it checks the current state under the lock.
\<close>

inductive late_step :: "league_env \<Rightarrow> token_fns \<Rightarrow> team list \<Rightarrow> store \<Rightarrow> store \<Rightarrow> bool" for env tf active where
  current: "draft_step env tf active s s' \<Longrightarrow> late_step env tf active s s'"
| late_tick: "late_step env tf active s (clockTick env tf ctx view now ok s)"
| late_boot: "late_step env tf active s (bootRecoverClock ctx view now ok s)"

definition keepsTape :: "league_env \<Rightarrow> store \<Rightarrow> store \<Rightarrow> bool" where
  "keepsTape env s s' \<longleftrightarrow> stLifecycleBypass s' = stLifecycleBypass s \<and>
     (tapeInv env (stState s) \<longrightarrow> \<not> stLifecycleBypass s \<longrightarrow> 0 < totalPicks env \<longrightarrow> tapeInv env (stState s'))"

lemma tape_same: "keepsTape env s s"
  by (simp add: keepsTape_def)

lemma tape_state: "(tapeInv env (stState s) \<Longrightarrow> \<not> stLifecycleBypass s \<Longrightarrow> 0 < totalPicks env \<Longrightarrow> tapeInv env st) \<Longrightarrow>
    keepsTape env s (s\<lparr>stState := st\<rparr>)"
  by (simp add: keepsTape_def)

lemma tapeInv_pick:
  assumes "tapeInv env st" "onClock env st = t" "\<not> pickedIn st p" "\<not> totalPicks env \<le> int (length (picks st))"
    "draftStarted st" "hold = id \<or> hold = clockRemainingSec_update (\<lambda>n. 0)"
  shows "tapeInv env (afterPick env st (newPick env st t p madeBy now) hold nx)"
  using tapeInv_append [OF assms(1-5)] assms(6) by (auto simp: afterPick_def Let_def disarmed_def)

lemma tape_makePick: "makePick env t p madeBy now nx ok s = (r, s') \<Longrightarrow> keepsTape env s s'"
  by (drule makePick_cases) (auto simp: tape_same draftOpen_def intro!: tape_state tapeInv_pick)

lemma tape_autoPick: "autoPick env tf t p madeBy n seenDeadline now nx expected ok s = (r, s') \<Longrightarrow> keepsTape env s s'"
  by (drule autoPick_cases) (auto simp: tape_same draftOpen_def intro!: tape_state tapeInv_pick)

lemma tape_undo: "undoLastPick tf nx expected ok s = (r, s') \<Longrightarrow> keepsTape env s s'"
  by (drule undoLastPick_cases) (auto simp: tape_same tapeInv_butlast intro!: tape_state)

lemma tape_unstarted:
  assumes "tapeInv env st" "0 < totalPicks env" "\<not> draftStarted st" "picks st' = picks st"
  shows "tapeInv env st'"
  using assms by (auto simp: tapeInv_def)

lemma tape_start: "startDraft now d ok s = (r, s') \<Longrightarrow> keepsTape env s s'"
  unfolding startDraft_def op_iffs
  by (auto simp: tape_same restore_iff split: if_splits intro!: tape_state elim!: tape_unstarted)

lemma tape_clock:
  "setDraftAtOverride now ok s = (r1, s') \<Longrightarrow> keepsTape env s s'"
  "pauseClock env now ok s = (r2, s') \<Longrightarrow> keepsTape env s s'"
  "resumeClock env now d ok s = (r3, s') \<Longrightarrow> keepsTape env s s'"
  "extendClock env tf now d expected ok s = (r4, s') \<Longrightarrow> keepsTape env s s'"
  "setClockDuration n ok s = (r5, s') \<Longrightarrow> keepsTape env s s'"
  "setAutopick env t b ok s = (r6, s') \<Longrightarrow> keepsTape env s s'"
  "setAutopickIfClaimed env t b ok s = (r7, s') \<Longrightarrow> keepsTape env s s'"
  "armClock d ok s = (r8, s') \<Longrightarrow> keepsTape env s s'"
  unfolding setDraftAtOverride_def pauseClock_def resumeClock_def extendClock_def setClockDuration_def setAutopick_def
    setAutopickIfClaimed_def armClock_def op_iffs Let_def
  by (auto simp: tape_same intro!: tape_state)

lemma tape_clear: "clearClock ok s = (r, s') \<Longrightarrow> keepsTape env s s'"
  unfolding clearClock_def gated_iff Let_def by (auto simp: tape_same only_iff disarmed_def split: if_splits intro!: tape_state)

lemma tape_reset: "resetDraft ok s = (r, s') \<Longrightarrow> keepsTape env s s'"
  unfolding resetDraft_def op_iffs clearClockFields_def disarmed_def
  by (auto simp: tape_same tapeInv_fresh intro!: tape_state)

lemma tape_order: "setDraftOrder active ids ok s = (r, s') \<Longrightarrow> keepsTape env s s'"
  unfolding setDraftOrder_def gated_iff
  by (auto simp: tape_same op_iffs split: option.splits intro!: tape_state elim!: tape_unstarted)

lemma tape_draw: "drawDraftOrder active tf ids e sch ok s = (r, s') \<Longrightarrow> keepsTape env s s'"
  unfolding drawDraftOrder_def gated_iff Let_def
  by (auto simp: tape_same op_iffs split: option.splits intro!: tape_state elim!: tape_unstarted)

lemma tape_boot: "keepsTape env s (bootRecoverClock ctx view now ok s)"
proof -
  have "keepsTape env s (snd (armClock d ok s))" for d by (metis tape_clock(8) prod.collapse)
  then show ?thesis by (simp add: bootRecoverClock_def tape_same)
qed

lemma tape_tick: "keepsTape env s (clockTick env tf ctx view now ok s)"
proof -
  have "keepsTape env s (snd (clearClock ok s))" "keepsTape env s (snd (pauseClock env now ok s))"
    "keepsTape env s (snd (autoPick env tf t p b n d now nx e ok s))" "keepsTape env s (snd (armClock d ok s))" for t p b n d nx e
    by (metis tape_clear prod.collapse, metis tape_clock(2) prod.collapse, metis tape_autoPick prod.collapse,
      metis tape_clock(8) prod.collapse)
  then show ?thesis unfolding clockTick_def Let_def by (simp add: tape_same split: option.split)
qed

lemmas tape_ops = tape_makePick tape_autoPick tape_undo tape_start tape_clock tape_clear tape_reset tape_order tape_draw
  tape_boot tape_tick

lemma control_tape: "control_step env tf active s s' \<Longrightarrow> keepsTape env s s'"
  by (induction rule: control_step.induct) (rule tape_ops; assumption)+

lemma step_tape: "draft_step env tf active s s' \<Longrightarrow> keepsTape env s s'"
  by (induction rule: draft_step.induct) (rule tape_ops control_tape; assumption)+

lemma late_tape: "late_step env tf active s s' \<Longrightarrow> keepsTape env s s'"
  by (induction rule: late_step.induct) (rule tape_boot tape_tick step_tape; assumption)+

lemma late_run_tape: "(late_step env tf active)\<^sup>*\<^sup>* s s' \<Longrightarrow> keepsTape env s s'"
proof (induction rule: rtranclp_induct)
  case (step y z)
  then show ?case using late_tape [OF step(2)] by (auto simp: keepsTape_def)
qed (rule tape_same)

section \<open>The draft order\<close>

definition orderOK :: "league_env \<Rightarrow> persisted_state \<Rightarrow> bool" where
  "orderOK env st \<longleftrightarrow> draftOrder st = [] \<or>
     distinct (draftOrder st) \<and> set (draftOrder st) = set (defaultTeamIDs env)"

lemma orderScan_None:
  "orderScan seen trimmed allowed ts = None \<longleftrightarrow>
    distinct ts \<and> set ts \<inter> seen = {} \<and> (\<forall>t\<in>set ts. allowed t \<and> \<not> trimmed t)"
  by (induction ts arbitrary: seen) auto

lemma validOrder_set:
  assumes "validateDraftOrderForState active ids st = None"
  shows "distinct ids \<and> set ids = set (allowedTeams active st)"
proof -
  have "length ids = length (allowedTeams active st)" "distinct ids" "set ids \<subseteq> set (allowedTeams active st)"
    using assms by (auto simp: validateDraftOrderForState_def Let_def orderScan_None split: if_splits)
  moreover have "distinct (allowedTeams active st)" by (simp add: allowedTeams_def)
  ultimately show ?thesis by (metis card_subset_eq distinct_card List.finite_set)
qed

text \<open>What a step does to the order and to the trim.\<close>

definition orderStep :: "team list \<Rightarrow> store \<Rightarrow> store \<Rightarrow> bool" where
  "orderStep active s s' \<longleftrightarrow> trimmedTeamIDs (stState s') = trimmedTeamIDs (stState s) \<and>
     (draftOrder (stState s') = draftOrder (stState s) \<or>
      validateDraftOrderForState active (draftOrder (stState s')) (stState s) = None)"

lemma orderStep_same: "orderStep active s s"
  by (simp add: orderStep_def)

lemma orderStep_state:
  "draftOrder st = draftOrder (stState s) \<Longrightarrow> trimmedTeamIDs st = trimmedTeamIDs (stState s) \<Longrightarrow> orderStep active s (s\<lparr>stState := st\<rparr>)"
  by (simp add: orderStep_def)

lemma afterPick_frame: "hold = id \<or> hold = clockRemainingSec_update (\<lambda>n. 0) \<Longrightarrow>
   draftOrder (afterPick env st k hold nx) = draftOrder st \<and> trimmedTeamIDs (afterPick env st k hold nx) = trimmedTeamIDs st \<and>
   picks (afterPick env st k hold nx) = picks st @ [k] \<and> draftStarted (afterPick env st k hold nx) = draftStarted st \<and>
   clockDurationSec (afterPick env st k hold nx) = clockDurationSec st"
  by (auto simp: afterPick_def appendPick_def disarmed_def Let_def)

lemma orderStep_makePick: "makePick env t p madeBy now nx ok s = (r, s') \<Longrightarrow> orderStep active s s'"
  by (drule makePick_cases) (auto simp: orderStep_same afterPick_frame intro!: orderStep_state)

lemma orderStep_autoPick: "autoPick env tf t p madeBy n seenDeadline now nx expected ok s = (r, s') \<Longrightarrow> orderStep active s s'"
  by (drule autoPick_cases) (auto simp: orderStep_same afterPick_frame intro!: orderStep_state)

lemma orderStep_control: "control_step env tf active s s' \<Longrightarrow> orderStep active s s'"
proof (induction rule: control_step.induct)
  case (undo nx expected ok s r s')
  then show ?case by (auto simp: orderStep_same dest!: undoLastPick_cases intro!: orderStep_state)
next
  case (boot s ctx now ok)
  then show ?case
    by (auto simp: bootRecoverClock_def armClock_def gated_def rejected_def commitOnly_def orderStep_same intro!: orderStep_state)
next
  case (order ids ok s r s')
  then show ?case by (auto simp: setDraftOrder_def op_iffs orderStep_def split: option.splits)
next
  case (draw ids e sch ok s r s')
  then show ?case by (auto simp: drawDraftOrder_def op_iffs orderStep_def Let_def split: option.splits)
next
  case (start now d ok s r s')
  then show ?case by (auto simp: startDraft_def gated_iff restore_iff orderStep_same split: if_splits intro!: orderStep_state)
next
  case (clear ok s r s')
  then show ?case by (auto simp: clearClock_def gated_iff only_iff Let_def orderStep_same split: if_splits intro!: orderStep_state)
qed (auto simp: op_iffs setDraftAtOverride_def pauseClock_def resumeClock_def extendClock_def setClockDuration_def
      setAutopick_def setAutopickIfClaimed_def resetDraft_def clearClockFields_def disarmed_def Let_def
      orderStep_same intro!: orderStep_state)


lemma orderStep_step: "draft_step env tf active s s' \<Longrightarrow> orderStep active s s'"
proof (induction rule: draft_step.induct)
  case (tick s ctx now ok)
  have "orderStep active s (snd (clearClock ok s))" "orderStep active s (snd (pauseClock env now ok s))" for env
    by (metis orderStep_control control_step.clear prod.collapse, metis orderStep_control control_step.pause prod.collapse)
  moreover have "orderStep active s (snd (armClock d ok s))" for d
    by (auto simp: armClock_def gated_def rejected_def commitOnly_def orderStep_same intro!: orderStep_state)
  moreover have "orderStep active s (snd (autoPick env tf t p b n d now nx e ok s))" for env tf t p b n d nx e
    by (metis orderStep_autoPick prod.collapse)
  ultimately show ?case unfolding clockTick_def Let_def by (simp add: orderStep_same split: option.split)
qed (rule orderStep_makePick orderStep_autoPick orderStep_control; assumption)+

text \<open>The teams of the league are the configured ones that were not trimmed.\<close>

definition leagueTeams :: "league_env \<Rightarrow> team list \<Rightarrow> persisted_state \<Rightarrow> bool" where
  "leagueTeams env active st \<longleftrightarrow> distinct (defaultTeamIDs env) \<and> set (allowedTeams active st) = set (defaultTeamIDs env)"

lemma run_order:
  "(draft_step env tf active)\<^sup>*\<^sup>* s s' \<Longrightarrow> leagueTeams env active (stState s) \<Longrightarrow> orderOK env (stState s) \<Longrightarrow>
    leagueTeams env active (stState s') \<and> orderOK env (stState s')"
proof (induction rule: rtranclp_induct)
  case (step y z)
  then have y: "leagueTeams env active (stState y)" "orderOK env (stState y)" by simp_all
  have st: "orderStep active y z" by (rule orderStep_step [OF step(2)])
  then have "leagueTeams env active (stState z)" using y(1) by (simp add: leagueTeams_def orderStep_def allowedTeams_def)
  moreover have "orderOK env (stState z)"
  proof (cases "draftOrder (stState z) = draftOrder (stState y)")
    case False
    then have "validateDraftOrderForState active (draftOrder (stState z)) (stState y) = None" using st by (simp add: orderStep_def)
    from validOrder_set [OF this] show ?thesis using y(1) by (simp add: orderOK_def leagueTeams_def)
  qed (use y in \<open>simp add: orderOK_def\<close>)
  ultimately show ?case by simp
qed simp

lemma orderOK_ids:
  assumes "orderOK env st" "distinct (defaultTeamIDs env)"
  shows "distinct (draftIDs env (draftOrder st))" "set (draftIDs env (draftOrder st)) = set (defaultTeamIDs env)"
    "length (draftIDs env (draftOrder st)) = length (envTeams env)"
proof -
  show d: "distinct (draftIDs env (draftOrder st))" and e: "set (draftIDs env (draftOrder st)) = set (defaultTeamIDs env)"
    using assms by (auto simp: orderOK_def draftIDs_def)
  have "length (draftIDs env (draftOrder st)) = length (defaultTeamIDs env)"
    using d e assms(2) by (metis distinct_card)
  then show "length (draftIDs env (draftOrder st)) = length (envTeams env)" by (simp add: defaultTeamIDs_def)
qed

lemma tape_teams: "tapeInv env st \<Longrightarrow> map pickTeamID (picks st) = clockTeams env (draftOrder st) (length (picks st))"
  by (rule nth_equalityI) (simp_all add: tapeInv_def clockTeams_def)

lemma count_filter: "length (filter (\<lambda>k. f k = t) xs) = count_list (map f xs) t"
  by (induction xs) auto

lemma finished_picks:
  assumes "tapeInv env st" "orderOK env st" "distinct (defaultTeamIDs env)" "draftComplete env st" "0 \<le> envRounds env"
    and "t \<in> set (defaultTeamIDs env)"
  shows "int (length (filter (\<lambda>k. pickTeamID k = t) (picks st))) = envRounds env"
proof -
  note ids = orderOK_ids [OF assms(2,3)]
  have "int (length (picks st)) = totalPicks env" using assms(1,4) by (simp add: tapeInv_def complete_total)
  then have len: "length (picks st) = nat (envRounds env) * length (draftIDs env (draftOrder st))"
    using assms(5) ids(3) unfolding totalPicks_def
    by (metis int_nat_eq mult.commute nat_int of_nat_mult)
  have "length (filter (\<lambda>k. pickTeamID k = t) (picks st)) = nat (envRounds env)"
    unfolding count_filter tape_teams [OF assms(1)] len using clockTeams_count [OF ids(1)] ids(2) assms(6) by simp
  then show ?thesis using assms(5) by simp
qed

section \<open>Rosters that can be fielded\<close>

text \<open>Every pick on the tape passed the viability boundary of the state it was made in.\<close>

definition viableTape :: "league_env \<Rightarrow> (player_id \<Rightarrow> player option) \<Rightarrow> persisted_state \<Rightarrow> bool" where
  "viableTape env byID st \<longleftrightarrow> (\<forall>i<length (picks st).
     draftCandidateKeepsRosterViable env (st\<lparr>picks := take i (picks st)\<rparr>) byID (pickTeamID (picks st ! i)) (pickPlayerID (picks st ! i)))"

lemma viable_picks:
  "picks st = picks st' \<Longrightarrow> draftCandidateKeepsRosterViable env st byID t p = draftCandidateKeepsRosterViable env st' byID t p"
proof -
  assume "picks st = picks st'"
  then have "teamDraftedPlayers st byID t = teamDraftedPlayers st' byID t" by (simp add: teamDraftedPlayers_def)
  then show ?thesis by (simp only: draftCandidateKeepsRosterViable_def)
qed

lemma viableTape_alt:
  "viableTape env byID st \<longleftrightarrow> (\<forall>i<length (picks st). draftCandidateKeepsRosterViable env (freshState\<lparr>picks := take i (picks st)\<rparr>) byID
     (pickTeamID (picks st ! i)) (pickPlayerID (picks st ! i)))"
proof -
  have "draftCandidateKeepsRosterViable env (st\<lparr>picks := ks\<rparr>) byID t p = draftCandidateKeepsRosterViable env (freshState\<lparr>picks := ks\<rparr>) byID t p" for ks t p
    by (rule viable_picks) simp
  then show ?thesis unfolding viableTape_def by simp
qed

lemma viableTape_prefix: "viableTape env byID st \<Longrightarrow> picks st' = take n (picks st) \<Longrightarrow> viableTape env byID st'"
  unfolding viableTape_alt by (auto simp: min_def)

lemma viableTape_append:
  assumes "viableTape env byID st" "picks st' = picks st @ [k]"
    and "draftCandidateKeepsRosterViable env st byID (pickTeamID k) (pickPlayerID k)"
  shows "viableTape env byID st'"
proof -
  have "draftCandidateKeepsRosterViable env (freshState\<lparr>picks := picks st\<rparr>) byID (pickTeamID k) (pickPlayerID k)"
    using assms(3) by (subst viable_picks [of _ st]) simp_all
  then show ?thesis using assms(1,2) unfolding viableTape_alt by (auto simp: nth_append less_Suc_eq)
qed

lemma last_occurrence:
  "0 < length (filter P xs) \<Longrightarrow> \<exists>i<length xs. P (xs ! i) \<and> filter P xs = filter P (take i xs) @ [xs ! i]"
proof (induction xs rule: rev_induct)
  case (snoc x xs)
  show ?case
  proof (cases "P x")
    case True
    then show ?thesis by (intro exI [of _ "length xs"]) simp
  next
    case False
    then obtain i where "i < length xs" "P (xs ! i)" "filter P xs = filter P (take i xs) @ [xs ! i]"
      using snoc by auto
    then show ?thesis using False by (intro exI [of _ i]) (simp add: nth_append)
  qed
qed simp

lemma full_roster_fills:
  assumes "viableTape env byID st" "int (length (filter (\<lambda>k. pickTeamID k = t) (picks st))) = envRounds env" "0 < envRounds env"
  shows "presetStarters (envRoster env) \<le> maximumDraftStarterFill (fst (teamDraftedPlayers st byID t)) (envRoster env)"
proof -
  have "0 < length (filter (\<lambda>k. pickTeamID k = t) (picks st))" using assms(2,3) by linarith
  from last_occurrence [OF this] obtain i where i: "i < length (picks st)" "pickTeamID (picks st ! i) = t"
    "filter (\<lambda>k. pickTeamID k = t) (picks st) = filter (\<lambda>k. pickTeamID k = t) (take i (picks st)) @ [picks st ! i]" by blast
  define st0 where "st0 = st\<lparr>picks := take i (picks st)\<rparr>"
  have v: "draftCandidateKeepsRosterViable env st0 byID t (pickPlayerID (picks st ! i))"
    using assms(1) i(1,2) by (auto simp: viableTape_def st0_def)
  then obtain c where c: "byID (pickPlayerID (picks st ! i)) = Some c"
    by (auto simp: draftCandidateKeepsRosterViable_def split: option.splits)
  have n: "snd (teamDraftedPlayers st0 byID t) + 1 = envRounds env"
    using assms(2) i(3) by (simp add: teamDraftedPlayers_def st0_def Let_def)
  have all: "fst (teamDraftedPlayers st byID t) = fst (teamDraftedPlayers st0 byID t) @ [c]"
    using i(3) c by (simp add: teamDraftedPlayers_def st0_def Let_def map_filter_simps map_filter_def)
  show ?thesis using v c n by (simp add: draftCandidateKeepsRosterViable_def all split: prod.splits)
qed


text \<open>
  The service makes picks in three ways, each on the state it has just read: a manager's pick, a
  commissioner's forced pick and the tick. No other write comes between that reading and the store of the pick,
  which the code does not rule out (stale_manual_pick_breaks_viability in DraftLife). The player data is the
  same throughout the draft.
\<close>

inductive service_step :: "league_env \<Rightarrow> token_fns \<Rightarrow> team list \<Rightarrow> (player_id \<Rightarrow> player option) \<Rightarrow> store \<Rightarrow> store \<Rightarrow> bool"
  for env tf active byID where
  manual: "serviceMakePick env ctx acting requested (stState s) now ok s = (r, s') \<Longrightarrow> poolByID (dcPool ctx) = byID \<Longrightarrow>
    service_step env tf active byID s s'"
| force: "adminForceAutopick env tf ctx commissioner confirmation expected (stState s) now ok s = (r, s') \<Longrightarrow>
    poolByID (dcPool ctx) = byID \<Longrightarrow> service_step env tf active byID s s'"
| tick: "poolByID (dcPool ctx) = byID \<Longrightarrow> service_step env tf active byID s (clockTick env tf ctx (stState s) now ok s)"
| control: "control_step env tf active s s' \<Longrightarrow> service_step env tf active byID s s'"

lemma liftPick_state: "snd (liftPick r) = snd r"
  by (auto simp: liftPick_def split: prod.splits sum.splits failure.splits)

lemma serviceMakePick_cases:
  assumes "serviceMakePick env ctx acting requested st now ok s = (r, s')"
  shows "s' = s \<or> (\<exists>t p nx. draftCandidateKeepsRosterViable env st (poolByID (dcPool ctx)) t p \<and>
    s' = snd (makePick env t p ByManager now nx ok s))"
proof -
  have s': "s' = snd (serviceMakePick env ctx acting requested st now ok s)" using assms by simp
  define p where "p = trimSpace requested"
  show ?thesis
  proof (cases "poolByID (dcPool ctx) p = None \<or> acting = None")
    case True
    then have "s' = s"
    proof (cases "poolByID (dcPool ctx) p")
      case None
      then show ?thesis unfolding s' serviceMakePick_def Let_def p_def [symmetric] by (simp add: rejected_def)
    next
      case (Some player)
      then show ?thesis using True unfolding s' serviceMakePick_def Let_def p_def [symmetric] by (simp add: rejected_def)
    qed
    then show ?thesis ..
  next
    case False
    then obtain player own where some: "poolByID (dcPool ctx) p = Some player" "acting = Some own" by auto
    define t where "t = (if dcDemo ctx then onClock env st else own)"
    define nx where "nx = (if \<not> clockPaused st \<and> nextNumber st < totalPicks env then now + pickClock (dcConfigured ctx) st else 0)"
    have "s' = s \<or> draftCandidateKeepsRosterViable env st (poolByID (dcPool ctx)) t p \<and>
        s' = snd (makePick env t p ByManager now nx ok s)"
      unfolding s' serviceMakePick_def Let_def p_def [symmetric] some option.case t_def [symmetric] nx_def [symmetric]
      by (simp add: liftPick_state rejected_def split: option.split prod.split)
    then show ?thesis by blast
  qed
qed

lemma forced_cases:
  assumes "adminForceAutopick env tf ctx commissioner confirmation expected st now ok s = (r, s')"
  shows "s' = s \<or> (\<exists>t p n d nx e. autopickChoice env ctx st t = Some p \<and>
    s' = snd (autoPick env tf t p ByCommissioner n d now nx e ok s))"
proof -
  have s': "s' = snd (adminForceAutopick env tf ctx commissioner confirmation expected st now ok s)" using assms by simp
  show ?thesis
  proof (cases "autopickChoice env ctx st (onClock env st)")
    case None
    then show ?thesis unfolding s' adminForceAutopick_def Let_def by (simp add: rejected_def)
  next
    case (Some p)
    then have "s' = s \<or> s' = snd (autoPick env tf (onClock env st) p ByCommissioner (nextNumber st) (clockDeadline st) now 0
        (Some (trimSpace expected, pickClock (dcConfigured ctx) st)) ok s)"
      unfolding s' adminForceAutopick_def Let_def autoPickIfCurrent_def by (simp add: liftPick_state rejected_def)
    then show ?thesis using Some by blast
  qed
qed

lemma tick_cases:
  "clockTick env tf ctx st now ok s = s \<or> (\<exists>d. clockTick env tf ctx st now ok s = snd (armClock d ok s)) \<or>
   clockTick env tf ctx st now ok s = snd (clearClock ok s) \<or> clockTick env tf ctx st now ok s = snd (pauseClock env now ok s) \<or>
   (\<exists>t p nx. autopickChoice env ctx st t = Some p \<and>
     clockTick env tf ctx st now ok s = snd (autoPick env tf t p ByAuto (nextNumber st) (clockDeadline st) now nx None ok s))"
  unfolding clockTick_def Let_def by (auto split: option.splits)

lemma choice_viable:
  "autopickChoice env ctx st t = Some p \<Longrightarrow> draftCandidateKeepsRosterViable env st (poolByID (dcPool ctx)) t p"
  unfolding autopickChoice_def using choice_sound choiceSafe_def by blast

text \<open>Every service step is a step of the room.\<close>

lemma service_is_draft_step: "service_step env tf active byID s s' \<Longrightarrow> (draft_step env tf active)\<^sup>*\<^sup>* s s'"
proof (induction rule: service_step.induct)
  case (manual ctx acting requested s now ok r s')
  from serviceMakePick_cases [OF manual(1)] show ?case
    by (metis draft_step.pick prod.collapse r_into_rtranclp rtranclp.rtrancl_refl)
next
  case (force ctx commissioner confirmation expected s now ok r s')
  from forced_cases [OF force(1)] show ?case
    by (metis draft_step.auto prod.collapse r_into_rtranclp rtranclp.rtrancl_refl)
next
  case (tick ctx s now ok)
  show ?case by (rule r_into_rtranclp) (rule draft_step.tick)
next
  case (control s s')
  then show ?case by (intro r_into_rtranclp draft_step.control)
qed

lemma control_picks:
  "control_step env tf active s s' \<Longrightarrow> \<exists>n. picks (stState s') = take n (picks (stState s))"
proof (induction rule: control_step.induct)
  case (undo nx expected ok s r s')
  then show ?case by (auto simp: butlast_conv_take dest!: undoLastPick_cases intro: exI [of _ "length (picks (stState s))"])
next
  case (reset ok s r s')
  then show ?case
    by (auto simp: resetDraft_def op_iffs clearClockFields_def disarmed_def intro: exI [of _ 0] exI [of _ "length (picks (stState s))"])
next
  case (boot s ctx now ok)
  show ?case by (intro exI [of _ "length (picks (stState s))"])
    (auto simp: bootRecoverClock_def armClock_def gated_def rejected_def commitOnly_def)
next
  case (order ids ok s r s')
  then show ?case by (intro exI [of _ "length (picks (stState s))"]) (auto simp: setDraftOrder_def op_iffs split: option.splits)
next
  case (draw ids e sch ok s r s')
  then show ?case by (intro exI [of _ "length (picks (stState s))"])
    (auto simp: drawDraftOrder_def op_iffs Let_def split: option.splits)
next
  case (start now d ok s r s')
  then show ?case by (intro exI [of _ "length (picks (stState s))"])
    (auto simp: startDraft_def gated_iff restore_iff split: if_splits)
next
  case (clear ok s r s')
  then show ?case by (intro exI [of _ "length (picks (stState s))"])
    (auto simp: clearClock_def gated_iff only_iff Let_def split: if_splits)
next
  case (meet now ok s r s')
  then show ?case by (intro exI [of _ "length (picks (stState s))"]) (auto simp: op_iffs setDraftAtOverride_def)
next
  case (pause now ok s r s')
  then show ?case by (intro exI [of _ "length (picks (stState s))"]) (auto simp: op_iffs pauseClock_def Let_def)
next
  case (resume now d ok s r s')
  then show ?case by (intro exI [of _ "length (picks (stState s))"]) (auto simp: op_iffs resumeClock_def Let_def)
next
  case (extend now d expected ok s r s')
  then show ?case by (intro exI [of _ "length (picks (stState s))"]) (auto simp: op_iffs extendClock_def Let_def)
next
  case (duration n ok s r s')
  then show ?case by (intro exI [of _ "length (picks (stState s))"]) (auto simp: op_iffs setClockDuration_def)
next
  case (flag t b ok s r s')
  then show ?case by (intro exI [of _ "length (picks (stState s))"]) (auto simp: op_iffs setAutopick_def)
next
  case (claimed t b ok s r s')
  then show ?case by (intro exI [of _ "length (picks (stState s))"]) (auto simp: op_iffs setAutopickIfClaimed_def)
qed

lemma viableTape_afterPick:
  assumes "viableTape env byID st" "draftCandidateKeepsRosterViable env st byID t p" "hold = id \<or> hold = clockRemainingSec_update (\<lambda>n. 0)"
  shows "viableTape env byID (afterPick env st (newPick env st t p b now) hold nx)"
  by (rule viableTape_append [OF assms(1), of _ "newPick env st t p b now"])
    (use assms(2) afterPick_frame [OF assms(3)] in \<open>simp_all add: newPick_def\<close>)

lemma viable_makePick:
  assumes "viableTape env byID (stState s)" "draftCandidateKeepsRosterViable env (stState s) byID t p"
  shows "viableTape env byID (stState (snd (makePick env t p b now nx ok s)))"
proof -
  obtain r s' where eq: "makePick env t p b now nx ok s = (r, s')" by fastforce
  then have "s' = s \<or> s' = s\<lparr>stState := afterPick env (stState s) (newPick env (stState s) t p b now) id nx\<rparr>"
    using makePick_cases by blast
  then show ?thesis unfolding eq using assms(1) viableTape_afterPick [OF assms] by auto
qed

lemma viable_autoPick:
  assumes "viableTape env byID (stState s)" "draftCandidateKeepsRosterViable env (stState s) byID t p"
  shows "viableTape env byID (stState (snd (autoPick env tf t p b n d now nx e ok s)))"
proof -
  obtain r s' where eq: "autoPick env tf t p b n d now nx e ok s = (r, s')" by fastforce
  then have "s' = s \<or> (\<exists>x. s' = s\<lparr>stState := afterPick env (stState s) (newPick env (stState s) t p b now)
      (clockRemainingSec_update (\<lambda>n. 0)) x\<rparr>)"
    using autoPick_cases by blast
  then show ?thesis unfolding eq using assms(1) viableTape_afterPick [OF assms] by auto
qed

lemma viable_control: "control_step env tf active s s' \<Longrightarrow> viableTape env byID (stState s) \<Longrightarrow> viableTape env byID (stState s')"
  using control_picks viableTape_prefix by blast

lemma viable_step: "service_step env tf active byID s s' \<Longrightarrow> viableTape env byID (stState s) \<Longrightarrow> viableTape env byID (stState s')"
proof (induction rule: service_step.induct)
  case (manual ctx acting requested s now ok r s')
  then show ?case using serviceMakePick_cases [OF manual(1)] viable_makePick by blast
next
  case (force ctx commissioner confirmation expected s now ok r s')
  then show ?case using forced_cases [OF force(1)] viable_autoPick choice_viable by blast
next
  case (tick ctx s now ok)
  have arm: "viableTape env byID (stState (snd (armClock d ok s)))" for d
    using tick(2) by (auto simp: armClock_def gated_def rejected_def commitOnly_def viableTape_alt)
  have control: "viableTape env byID (stState x)" if "control_step env tf active s x" for x
    by (rule viable_control [OF that tick(2)])
  have "control_step env tf active s (snd (clearClock ok s))" "control_step env tf active s (snd (pauseClock env now ok s))"
    by (metis control_step.clear prod.collapse, metis control_step.pause prod.collapse)
  then have other: "viableTape env byID (stState (snd (clearClock ok s)))" "viableTape env byID (stState (snd (pauseClock env now ok s)))"
    by (simp_all add: control)
  have auto: "viableTape env byID (stState (snd (autoPick env tf t p ByAuto n d now nx None ok s)))"
    if "autopickChoice env ctx (stState s) t = Some p" for t p n d nx
    by (rule viable_autoPick [OF tick(2)]) (use choice_viable [OF that] tick(1) in simp)
  from tick_cases [of env tf ctx "stState s" now ok s] show ?case
  proof (elim disjE exE conjE)
    fix d assume "clockTick env tf ctx (stState s) now ok s = snd (armClock d ok s)"
    then show ?thesis using arm by simp
  next
    fix t p nx assume c: "autopickChoice env ctx (stState s) t = Some p"
      "clockTick env tf ctx (stState s) now ok s = snd (autoPick env tf t p ByAuto (nextNumber (stState s)) (clockDeadline (stState s)) now nx None ok s)"
    show ?thesis unfolding c(2) by (rule auto [OF c(1)])
  qed (simp_all only: other tick(2))
next
  case (control s s')
  then show ?case using viable_control by blast
qed

end
