(* ===== verification/DraftLife.thy ===== *)
theory DraftLife
  imports DraftProps
begin

text \<open>
  The properties of the draft room, with a small league that drafts itself as their concrete run.
\<close>

section \<open>A league that drafts itself\<close>

definition pairEnv :: league_env where
  "pairEnv = sampleEnv\<lparr>envRoster := \<lparr>presetSlots = [(''RB'', 1), (''WR'', 1)], presetBench = 0, presetReserve = [],
     presetIR = 0, presetLimits = []\<rparr>, envRounds := 2\<rparr>"

definition draftTf :: token_fns where
  "draftTf = \<lparr>tfDigest = (\<lambda>s. s), tfTime = itoa, tfOrder = concat\<rparr>"

definition draftCtx :: draft_ctx where
  "draftCtx = \<lparr>dcConfigured = 60 * second, dcPool = draftPool, dcTeams = [''a'', ''b''], dcBoardKey = (\<lambda>t. t),
     dcStartedAt = 0, dcKeys = (\<lambda>t. []), dcSeen = (\<lambda>k. None), dcDemo = False\<rparr>"

definition lobby :: store where
  "lobby = sampleStore freshState"

definition opened :: store where
  "opened = snd (startDraft 100 (60 * second) True lobby)"

text \<open>One tick a minute after the draft has been opened.\<close>

definition tickAt :: "nat \<Rightarrow> store \<Rightarrow> store" where
  "tickAt n s = clockTick pairEnv draftTf draftCtx (stState s) ((int n + 2) * 60 * second) True s"

fun ticked :: "nat \<Rightarrow> store" where
  "ticked 0 = opened"
| "ticked (Suc n) = tickAt n (ticked n)"

lemma lobby_facts: "draftInv pairEnv (stState lobby)" "\<not> stLifecycleBypass lobby" "0 < totalPicks pairEnv"
  "leagueTeams pairEnv (envTeams pairEnv) (stState lobby)" "orderOK pairEnv (stState lobby)"
  "viableTape pairEnv (poolByID draftPool) (stState lobby)"
proof -
  show "0 < totalPicks pairEnv" by code_simp
  then show "draftInv pairEnv (stState lobby)"
    by (simp add: draftInv_def clockInv_def tapeInv_fresh lobby_def sampleStore_def freshState_def complete_total)
  show "leagueTeams pairEnv (envTeams pairEnv) (stState lobby)"
    by (auto simp: leagueTeams_def allowedTeams_def lobby_def sampleStore_def freshState_def pairEnv_def sampleEnv_def
        sampleTeam_def defaultTeamIDs_def)
qed (simp_all add: lobby_def sampleStore_def freshState_def orderOK_def viableTape_def)

lemma ticked_run: "(service_step pairEnv draftTf (envTeams pairEnv) (poolByID draftPool))\<^sup>*\<^sup>* lobby (ticked n)"
proof (induction n)
  case 0
  have "startDraft 100 (60 * second) True lobby = (fst (startDraft 100 (60 * second) True lobby), opened)" by (simp add: opened_def)
  then show ?case unfolding ticked.simps by (intro r_into_rtranclp service_step.control control_step.start)
next
  case (Suc n)
  have "service_step pairEnv draftTf (envTeams pairEnv) (poolByID draftPool) (ticked n) (ticked (Suc n))"
    unfolding ticked.simps tickAt_def by (rule service_step.tick) (simp add: draftCtx_def)
  then show ?case using Suc by (rule rtranclp.rtrancl_into_rtrancl [rotated])
qed

lemma ticked_done: "draftComplete pairEnv (stState (ticked 4))"
  by code_simp

section \<open>Properties\<close>

text \<open>
  C5: Whatever operations run in the draft room, in any order and with whatever their callers had seen, ticks
  and restarts on a stale snapshot included, the tape stays a snake draft: pick i carries number i + 1, its
  round and the team on the clock, no player appears twice, nothing follows the last pick. As long as ticks and
  restarts run on the current state (picks, undos and controls may still be stale) the clock stays consistent
  too: a paused clock has no deadline, a running one no stored remainder, and a finished draft has neither; the
  lemma late_arm_breaks_pause shows that a stale tick can break the clock.
\<close>

theorem draft_room_invariant:
  assumes "(late_step env tf active)\<^sup>*\<^sup>* s0 s" "\<not> stLifecycleBypass s0" "0 < totalPicks env" "draftInv env (stState s0)"
  shows "tapeInv env (stState s) \<and> ((draft_step env tf active)\<^sup>*\<^sup>* s0 s \<longrightarrow> draftInv env (stState s))"
  using late_run_tape [OF assms(1)] run_keeps [of env tf active s0 s] assms(2-4)
  by (auto simp: keepsTape_def keeps_def draftInv_def)

lemma service_run: "(service_step env tf active byID)\<^sup>*\<^sup>* s0 s \<Longrightarrow> (draft_step env tf active)\<^sup>*\<^sup>* s0 s"
  by (induction rule: rtranclp_induct) (auto dest: service_is_draft_step)

lemma late_run: "(draft_step env tf active)\<^sup>*\<^sup>* s0 s \<Longrightarrow> (late_step env tf active)\<^sup>*\<^sup>* s0 s"
  by (induction rule: rtranclp_induct) (auto dest: late_step.current)

theorem draft_room_invariant_witness:
  "tapeInv pairEnv (stState (clockTick pairEnv draftTf draftCtx (stState (ticked 1)) (300 * second) True (ticked 3))) \<and>
   draftInv pairEnv (stState (ticked 3)) \<and> length (picks (stState (ticked 3))) = 3"
proof (intro conjI)
  have run: "(draft_step pairEnv draftTf (envTeams pairEnv))\<^sup>*\<^sup>* lobby (ticked 3)" by (rule service_run [OF ticked_run])
  have "(late_step pairEnv draftTf (envTeams pairEnv))\<^sup>*\<^sup>* lobby
      (clockTick pairEnv draftTf draftCtx (stState (ticked 1)) (300 * second) True (ticked 3))"
    by (rule rtranclp.rtrancl_into_rtrancl [OF late_run [OF run] late_step.late_tick])
  from draft_room_invariant [OF this lobby_facts(2,3,1)]
  show "tapeInv pairEnv (stState (clockTick pairEnv draftTf draftCtx (stState (ticked 1)) (300 * second) True (ticked 3)))" by blast
  show "draftInv pairEnv (stState (ticked 3))" using draft_room_invariant [OF late_run [OF run] lobby_facts(2,3,1)] run by blast
  show "length (picks (stState (ticked 3))) = 3" by code_simp
qed

lemma service_viable:
  "(service_step env tf active byID)\<^sup>*\<^sup>* s0 s \<Longrightarrow> viableTape env byID (stState s0) \<Longrightarrow> viableTape env byID (stState s)"
  by (induction rule: rtranclp_induct) (auto dest: viable_step)

text \<open>
  C4: When the draft ends every team has made exactly as many picks as there are rounds, its drafted
  players can fill every starting slot at once, and the clock is disarmed, provided that every manual, automatic
  and forced pick was validated on the state it was stored in. The code validates on a snapshot it takes before
  the store's lock; the lemma stale_manual_pick_breaks_viability shows what two simultaneous picks can do.
\<close>

theorem finished_draft_fields_lineups:
  assumes "(service_step env tf active byID)\<^sup>*\<^sup>* s0 s" "\<not> stLifecycleBypass s0" "0 < envRounds env"
    and "leagueTeams env active (stState s0)" "orderOK env (stState s0)" "draftInv env (stState s0)" "viableTape env byID (stState s0)"
    and "draftComplete env (stState s)" "t \<in> set (defaultTeamIDs env)"
  shows "int (length (filter (\<lambda>k. pickTeamID k = t) (picks (stState s)))) = envRounds env \<and>
    presetStarters (envRoster env) \<le> maximumDraftStarterFill (fst (teamDraftedPlayers (stState s) byID t)) (envRoster env) \<and>
    clockDeadline (stState s) = 0 \<and> \<not> clockPaused (stState s)"
proof -
  have "envTeams env \<noteq> []" using assms(9) by (auto simp: defaultTeamIDs_def)
  then have pos: "0 < totalPicks env" using assms(3) by (simp add: totalPicks_def)
  have run: "(draft_step env tf active)\<^sup>*\<^sup>* s0 s" by (rule service_run [OF assms(1)])
  have inv: "draftInv env (stState s)" using run_keeps [OF run] assms(2,6) pos by (simp add: keeps_def)
  have ord: "leagueTeams env active (stState s)" "orderOK env (stState s)" using run_order [OF run assms(4,5)] by simp_all
  have all: "int (length (filter (\<lambda>k. pickTeamID k = t) (picks (stState s)))) = envRounds env"
    by (rule finished_picks) (use inv ord assms(3,8,9) in \<open>simp_all add: draftInv_def leagueTeams_def\<close>)
  show ?thesis using all full_roster_fills [OF service_viable [OF assms(1,7)] all assms(3)] inv assms(8)
    by (simp add: draftInv_def clockInv_def)
qed

theorem finished_draft_fields_lineups_witness:
  "2 \<le> maximumDraftStarterFill (fst (teamDraftedPlayers (stState (ticked 4)) (poolByID draftPool) ''b'')) (envRoster pairEnv)"
proof -
  have "0 < envRounds pairEnv" "''b'' \<in> set (defaultTeamIDs pairEnv)" by code_simp+
  moreover have "presetStarters (envRoster pairEnv) = 2" by code_simp
  ultimately show ?thesis
    using finished_draft_fields_lineups [OF ticked_run [of 4] lobby_facts(2) _ lobby_facts(4,5,1,6) ticked_done] by metis
qed


text \<open>
  C31: An undo is the inverse of a pick: after a successful pick on a running clock, undoing it with the
  deadline of before gives back the very same store.
\<close>

theorem undo_restores_pick:
  assumes "draftInv env (stState s)" "\<not> clockPaused (stState s)"
    and "makePick env t p madeBy now nx ok s = (Inr k, s1)"
  shows "undoLastPick tf (clockDeadline (stState s)) None True s1 = (Inr (), s)"
proof -
  have gate: "\<not> stWriteError s" using assms(3) by (auto simp: makePick_def gated_def)
  have s1: "s1 = s\<lparr>stState := afterPick env (stState s) k id nx\<rparr>" using makePick_cases [OF assms(3)] by auto
  define st1 where "st1 = afterPick env (stState s) k id nx"
  have st1: "picks st1 = picks (stState s) @ [k]" "\<not> clockPaused st1"
    "st1\<lparr>picks := picks (stState s), clockDeadline := clockDeadline (stState s), clockRemainingSec := 0\<rparr> = stState s"
    using assms(1,2) by (auto simp: st1_def afterPick_def appendPick_def disarmed_def Let_def draftInv_def clockInv_def)
  show ?thesis unfolding s1 st1_def [symmetric] undoLastPick_def
    using gate st1 by (simp add: gated_def commitOrRestore_def Let_def)
qed

theorem undo_restores_pick_witness:
  "undoLastPick draftTf (clockDeadline (stState opened)) None True
     (snd (makePick pairEnv ''a'' ''w1'' ByManager 130 190 True opened)) = (Inr (), opened)"
proof -
  have ok: "succeeded (makePick pairEnv ''a'' ''w1'' ByManager 130 190 True opened)" by code_simp
  obtain k s1 where op: "makePick pairEnv ''a'' ''w1'' ByManager 130 190 True opened = (Inr k, s1)"
    using ok by (auto elim: succeeded.elims)
  have "draftInv pairEnv (stState (ticked 0))"
    using run_keeps [OF service_run [OF ticked_run [of 0]]] lobby_facts by (simp add: keeps_def)
  moreover have "\<not> clockPaused (stState opened)" by code_simp
  ultimately show ?thesis using undo_restores_pick [OF _ _ op] op by simp
qed

text \<open>
  C38: A stale automatic pick changes nothing: when the draft has moved to another pick, the deadline has
  been moved, or the clock has been paused (the commissioner's forced pick apart), it is refused and the
  store is as before; so is a forced pick whose token does not describe the current pick.
\<close>

theorem stale_auto_pick_refused:
  assumes "n \<noteq> nextNumber (stState s) \<or> seenDeadline \<noteq> clockDeadline (stState s) \<or>
      (madeBy \<noteq> ByCommissioner \<and> clockPaused (stState s)) \<or>
      (\<exists>token d. expected = Some (token, d) \<and> token \<noteq> draftCurrentPickToken env tf (stState s))"
    and "autoPick env tf t p madeBy n seenDeadline now nx expected ok s = (r, s')"
  shows "s' = s \<and> (\<forall>k. r \<noteq> Inr k)"
proof (cases "\<exists>token d. expected = Some (token, d) \<and> token \<noteq> draftCurrentPickToken env tf (stState s)")
  case True
  then show ?thesis using assms(2) by (auto simp: autoPick_def staleToken_def gated_iff reject_iff Let_def)
next
  case False
  then show ?thesis using assms(1) autoPick_cases [OF assms(2)] by auto
qed

theorem stale_auto_pick_refused_witness:
  "snd (autoPick pairEnv draftTf ''a'' ''w1'' ByAuto 1 59 130 190 None True opened) = opened"
proof -
  have "59 \<noteq> clockDeadline (stState opened)" by code_simp
  then show ?thesis
    using stale_auto_pick_refused [of 1 opened 59 ByAuto None pairEnv draftTf "''a''" "''w1''" 130 190 True]
    by (metis prod.collapse)
qed

section \<open>The clock\<close>

lemma clamp_bounds: "10 * second \<le> clampPickClock d" "clampPickClock d \<le> 600 * second"
  by (simp_all add: clampPickClock_def MinPickClock_def MaxPickClock_def minute_def second_def)

text \<open>
  No operation sets a clock out of bounds: an extended deadline lies between ten seconds and ten
  minutes from now, whatever the delta; the stored duration lies between 10 and 600 seconds, whatever
  number of seconds is asked for, overflow of the 64-bit product included; and the clock that is armed
  from it is never shorter or longer than that.
\<close>

theorem pick_clock_bounds:
  "(extendClock env tf now delta expected ok s = (Inr (), s1) \<longrightarrow>
     now + 10 * second \<le> clockDeadline (stState s1) \<and> clockDeadline (stState s1) \<le> now + 600 * second) \<and>
   (setClockDuration secs ok s = (Inr (), s2) \<longrightarrow>
     10 \<le> clockDurationSec (stState s2) \<and> clockDurationSec (stState s2) \<le> 600 \<and>
     pickClock configured (stState s2) = clockDurationSec (stState s2) * second)"
proof (intro conjI impI)
  assume "extendClock env tf now delta expected ok s = (Inr (), s1)"
  then have d: "clockDeadline (stState s1) = (let d1 = clockDeadline (stState s) + delta;
          d2 = (if d1 < now + MinPickClock then now + MinPickClock else d1)
      in if d2 > now + MaxPickClock then now + MaxPickClock else d2)"
    unfolding extendClock_def op_iffs Let_def by auto
  show "now + 10 * second \<le> clockDeadline (stState s1)" "clockDeadline (stState s1) \<le> now + 600 * second"
    unfolding d Let_def by (simp_all add: MinPickClock_def MaxPickClock_def minute_def second_def)
next
  assume "setClockDuration secs ok s = (Inr (), s2)"
  then have n: "clockDurationSec (stState s2) = clampPickClock (wrap64 (secs * second)) div second"
    unfolding setClockDuration_def op_iffs by auto
  have lo: "10 * second div second \<le> clampPickClock (wrap64 (secs * second)) div second"
    by (rule zdiv_mono1 [OF clamp_bounds(1) second_pos])
  have hi: "clampPickClock (wrap64 (secs * second)) div second \<le> 600 * second div second"
    by (rule zdiv_mono1 [OF clamp_bounds(2) second_pos])
  show b: "10 \<le> clockDurationSec (stState s2)" "clockDurationSec (stState s2) \<le> 600" using lo hi n by (simp_all add: second_def)
  then have "wrap64 (clockDurationSec (stState s2) * second) = clockDurationSec (stState s2) * second"
    by (simp add: wrap64_def second_def)
  then show "pickClock configured (stState s2) = clockDurationSec (stState s2) * second"
    using b by (simp add: pickClock_def clampPickClock_def MinPickClock_def MaxPickClock_def minute_def second_def)
qed

theorem pick_clock_bounds_witness:
  "pickClock (60 * second) (stState (snd (setClockDuration 5 True opened))) = 10 * second"
proof -
  have op: "setClockDuration 5 True opened = (Inr (), snd (setClockDuration 5 True opened))"
  proof -
    have "fst (setClockDuration 5 True opened) = Inr ()" by code_simp
    then show ?thesis by (metis prod.collapse)
  qed
  then have "pickClock (60 * second) (stState (snd (setClockDuration 5 True opened)))
      = clockDurationSec (stState (snd (setClockDuration 5 True opened))) * second"
    using pick_clock_bounds by blast
  moreover have "clockDurationSec (stState (snd (setClockDuration 5 True opened))) = 10" by code_simp
  ultimately show ?thesis by simp
qed

section \<open>Ticks make progress\<close>

lemma pickClock_pos: "0 < pickClock configured st"
  using clamp_bounds(1) [of "wrap64 (clockDurationSec st * second)"]
  by (auto simp: pickClock_def DefaultPickClock_def second_def)

lemma effective_le: "fst (effectiveDeadline env ctx st now) \<le> clockDeadline st"
  by (simp add: effectiveDeadline_def Let_def)

text \<open>A room whose clock runs: started, healthy, in order, neither paused nor finished.\<close>

definition roomReady :: "league_env \<Rightarrow> team list \<Rightarrow> store \<Rightarrow> bool" where
  "roomReady env active s \<longleftrightarrow> \<not> stWriteError s \<and> \<not> stLifecycleBypass s \<and> draftStarted (stState s) \<and> envTeams env \<noteq> [] \<and>
     leagueTeams env active (stState s) \<and> orderOK env (stState s) \<and> draftInv env (stState s)"

definition settled :: "league_env \<Rightarrow> store \<Rightarrow> bool" where
  "settled env s \<longleftrightarrow> draftComplete env (stState s) \<or> clockPaused (stState s)"

definition owed :: "league_env \<Rightarrow> store \<Rightarrow> int" where
  "owed env s = 2 * (totalPicks env - int (length (picks (stState s)))) - (if clockDeadline (stState s) \<noteq> 0 then 1 else 0)"

lemma onClock_known:
  assumes "orderOK env st" "distinct (defaultTeamIDs env)" "envTeams env \<noteq> []"
  shows "knownTeam env (onClock env st)"
proof -
  note ids = orderOK_ids [OF assms(1,2)]
  let ?n = "int (length (draftIDs env (draftOrder st)))"
  have n: "0 < ?n" using ids(3) assms(3) by simp
  define j where "j = (nextNumber st - 1) mod ?n"
  have j: "0 \<le> j" "j < ?n" using n by (simp_all add: j_def)
  have "\<not> nextNumber st < 1" by (simp add: nextNumber_def)
  then have "onClock env st = draftIDs env (draftOrder st) ! nat (?n - 1 - j) \<or> onClock env st = draftIDs env (draftOrder st) ! nat j"
    by (simp add: onClock_def teamOnClock_def Let_def j_def)
  moreover have "nat (?n - 1 - j) < length (draftIDs env (draftOrder st))" "nat j < length (draftIDs env (draftOrder st))"
    using j by linarith+
  ultimately have "onClock env st \<in> set (draftIDs env (draftOrder st))" by (metis nth_mem)
  then show ?thesis using ids(2) by (simp add: knownTeam_def)
qed

lemma tick_ready:
  assumes "roomReady env active s" "0 < totalPicks env"
  shows "roomReady env active (clockTick env tf ctx (stState s) now True s)"
    "clockDurationSec (stState (clockTick env tf ctx (stState s) now True s)) = clockDurationSec (stState s)"
proof -
  let ?s = "clockTick env tf ctx (stState s) now True s"
  have step: "(draft_step env tf active)\<^sup>*\<^sup>* s ?s" by (rule r_into_rtranclp) (rule draft_step.tick)
  have frame: "stWriteError ?s = stWriteError s \<and> draftStarted (stState ?s) = draftStarted (stState s) \<and>
      clockDurationSec (stState ?s) = clockDurationSec (stState s)"
  proof -
    have "stWriteError (snd (autoPick env tf t p b n d now nx e True s)) = stWriteError s \<and>
        draftStarted (stState (snd (autoPick env tf t p b n d now nx e True s))) = draftStarted (stState s) \<and>
        clockDurationSec (stState (snd (autoPick env tf t p b n d now nx e True s))) = clockDurationSec (stState s)" for t p b n d nx e
    proof -
      obtain r' s1 where eq: "autoPick env tf t p b n d now nx e True s = (r', s1)" by fastforce
      show ?thesis using autoPick_cases [OF eq] unfolding eq by (auto simp: afterPick_frame)
    qed
    moreover have "stWriteError (snd (armClock d True s)) = stWriteError s \<and>
        draftStarted (stState (snd (armClock d True s))) = draftStarted (stState s) \<and>
        clockDurationSec (stState (snd (armClock d True s))) = clockDurationSec (stState s)" for d
      by (simp add: armClock_def gated_def rejected_def commitOnly_def)
    moreover have "stWriteError (snd (clearClock True s)) = stWriteError s \<and>
        draftStarted (stState (snd (clearClock True s))) = draftStarted (stState s) \<and>
        clockDurationSec (stState (snd (clearClock True s))) = clockDurationSec (stState s)"
      by (simp add: clearClock_def gated_def commitOnly_def Let_def)
    moreover have "stWriteError (snd (pauseClock env now True s)) = stWriteError s \<and>
        draftStarted (stState (snd (pauseClock env now True s))) = draftStarted (stState s) \<and>
        clockDurationSec (stState (snd (pauseClock env now True s))) = clockDurationSec (stState s)"
      by (simp add: pauseClock_def gated_def rejected_def commitOrRestore_def Let_def)
    ultimately show ?thesis using tick_cases [of env tf ctx "stState s" now True s] by (elim disjE exE conjE) simp_all
  qed
  show "clockDurationSec (stState ?s) = clockDurationSec (stState s)" using frame by simp
  show "roomReady env active ?s"
    using run_order [OF step] run_keeps [OF step] frame assms by (simp add: roomReady_def keeps_def)
qed

lemma tick_settled: "settled env s \<Longrightarrow> settled env (clockTick env tf ctx (stState s) now True s)"
  by (auto simp: settled_def clockTick_def complete_total clearClock_def gated_def commitOnly_def Let_def)

lemma tick_progress:
  fixes env :: league_env and tf :: token_fns and ctx :: draft_ctx and s :: store and now :: time
  assumes "roomReady env active s" "\<not> settled env s" "clockDeadline (stState s) \<le> now" "0 \<le> now" "0 < totalPicks env"
  defines "s' \<equiv> clockTick env tf ctx (stState s) now True s"
  shows "settled env s' \<or> owed env s' < owed env s \<and> clockDeadline (stState s') \<le> now + pickClock (dcConfigured ctx) (stState s)"
proof -
  define st where "st = stState s"
  define pc where "pc = pickClock (dcConfigured ctx) st"
  have part: "\<not> totalPicks env \<le> int (length (picks st))" "\<not> clockPaused st" "\<not> draftComplete env st"
    using assms(2) by (simp_all add: settled_def complete_total st_def)
  have ready: "\<not> stWriteError s" "draftStarted st" "clockRemainingSec st = 0" "draftOpen s" "knownTeam env (onClock env st)"
    using assms(1) part(2) onClock_known [of env st]
    by (simp_all add: roomReady_def draftInv_def clockInv_def leagueTeams_def draftOpen_def st_def)
  have pc: "0 < pc" unfolding pc_def by (rule pickClock_pos)
  show ?thesis
  proof (cases "isZero (clockDeadline st)")
    case True
    then have "s' = s\<lparr>stState := st\<lparr>clockDeadline := now + pc\<rparr>\<rparr>"
      using part ready unfolding s'_def clockTick_def st_def [symmetric] pc_def [symmetric] Let_def
      by (simp add: armClock_def gated_def commitOnly_def st_def [symmetric])
    then show ?thesis using True pc assms(4) by (simp add: owed_def st_def [symmetric] pc_def [symmetric])
  next
    case False
    have due: "\<not> now < fst (effectiveDeadline env ctx st now)"
      using effective_le [of env ctx st now] assms(3) by (simp add: st_def)
    show ?thesis
    proof (cases "autopickChoice env ctx st (onClock env st)")
      case None
      then have "s' = snd (pauseClock env now True s)"
        using part ready False due unfolding s'_def clockTick_def st_def [symmetric] Let_def by simp
      then have "clockPaused (stState s')"
        using part ready False by (simp add: pauseClock_def gated_def commitOrRestore_def Let_def st_def [symmetric])
      then show ?thesis by (simp add: settled_def)
    next
      case (Some p)
      define nx where "nx = (if nextNumber st < totalPicks env then now + pc else 0)"
      have "s' = snd (autoPick env tf (onClock env st) p ByAuto (nextNumber st) (clockDeadline st) now nx None True s)"
        using part ready False due Some unfolding s'_def clockTick_def st_def [symmetric] Let_def nx_def pc_def by simp
      moreover have "\<not> pickedIn st p" using choice_sound Some unfolding autopickChoice_def by blast
      ultimately have "s' = s\<lparr>stState := afterPick env st (newPick env st (onClock env st) p ByAuto now)
          (clockRemainingSec_update (\<lambda>n. 0)) nx\<rparr>"
        using part ready by (simp add: autoPick_def gated_def commitOrRestore_def Let_def st_def [symmetric])
      then have s': "stState s' = afterPick env st (newPick env st (onClock env st) p ByAuto now) (clockRemainingSec_update (\<lambda>n. 0)) nx"
        by simp
      have "owed env s' < owed env s" unfolding owed_def s' st_def [symmetric] by (simp add: afterPick_frame False)
      moreover have "clockDeadline (stState s') \<le> now + pc" unfolding s'
        using pc assms(4) part(2) by (simp add: afterPick_def appendPick_def disarmed_def nx_def Let_def)
      ultimately show ?thesis by (simp add: pc_def st_def)
    qed
  qed
qed

definition tickRun :: "league_env \<Rightarrow> token_fns \<Rightarrow> draft_ctx \<Rightarrow> time list \<Rightarrow> store \<Rightarrow> store" where
  "tickRun env tf ctx instants s = fold (\<lambda>now s. clockTick env tf ctx (stState s) now True s) instants s"

lemma tickRun_settled: "settled env s \<Longrightarrow> settled env (tickRun env tf ctx instants s)"
  unfolding tickRun_def by (induction instants arbitrary: s) (auto simp: tick_settled)

lemma tickRun_finishes:
  assumes "roomReady env active s" "0 < totalPicks env" "owed env s \<le> int (length instants)"
    and "sorted_wrt (\<lambda>x y. x + pickClock (dcConfigured ctx) (stState s) \<le> y) instants"
    and "\<forall>x\<in>set instants. 0 \<le> x \<and> clockDeadline (stState s) \<le> x"
  shows "settled env (tickRun env tf ctx instants s)"
  using assms
proof (induction instants arbitrary: s)
  case Nil
  then show ?case by (auto simp: owed_def settled_def complete_total tickRun_def split: if_splits)
next
  case (Cons x instants)
  let ?s = "clockTick env tf ctx (stState s) x True s"
  have run: "tickRun env tf ctx (x # instants) s = tickRun env tf ctx instants ?s" by (simp add: tickRun_def)
  show ?case
  proof (cases "settled env s \<or> settled env ?s")
    case True
    then show ?thesis unfolding run using tickRun_settled tick_settled by blast
  next
    case False
    have pr: "owed env ?s < owed env s" "clockDeadline (stState ?s) \<le> x + pickClock (dcConfigured ctx) (stState s)"
      using tick_progress [OF Cons.prems(1), of x tf ctx] False Cons.prems(2,5) by auto
    note ready = tick_ready [OF Cons.prems(1,2), of tf ctx x]
    have same: "pickClock (dcConfigured ctx) (stState ?s) = pickClock (dcConfigured ctx) (stState s)"
      using ready(2) by (simp add: pickClock_def)
    show ?thesis unfolding run
    proof (rule Cons.IH [OF ready(1) Cons.prems(2)])
      show "owed env ?s \<le> int (length instants)" using pr(1) Cons.prems(3) by simp
      show "sorted_wrt (\<lambda>x y. x + pickClock (dcConfigured ctx) (stState ?s) \<le> y) instants" using Cons.prems(4) by (simp add: same)
      show "\<forall>y\<in>set instants. 0 \<le> y \<and> clockDeadline (stState ?s) \<le> y"
        using Cons.prems(4,5) pr(2) by (auto intro: order_trans)
    qed
  qed
qed

text \<open>
  C6: An unattended draft ends: from any open room, if the tick runs at instants at least one pick clock
  apart, the first of them past the current deadline, and writes succeed, then after at most two ticks
  for every missing pick the draft is complete or the clock has paused for the commissioner.
\<close>

theorem unattended_draft_finishes:
  assumes "roomReady env active s" "0 < totalPicks env"
    and "sorted_wrt (\<lambda>x y. x + pickClock (dcConfigured ctx) (stState s) \<le> y) instants"
    and "\<forall>x\<in>set instants. 0 \<le> x \<and> clockDeadline (stState s) \<le> x"
    and "2 * (totalPicks env - int (length (picks (stState s)))) \<le> int (length instants)"
  shows "draftComplete env (stState (tickRun env tf ctx instants s)) \<or> clockPaused (stState (tickRun env tf ctx instants s))"
proof -
  have "owed env s \<le> int (length instants)" using assms(5) by (simp add: owed_def)
  from tickRun_finishes [OF assms(1,2) this assms(3,4)] show ?thesis by (simp add: settled_def)
qed

lemma opened_ready: "roomReady pairEnv (envTeams pairEnv) opened"
proof -
  have run: "(draft_step pairEnv draftTf (envTeams pairEnv))\<^sup>*\<^sup>* lobby opened"
    using service_run [OF ticked_run [of 0]] by simp
  have "\<not> stWriteError opened" "\<not> stLifecycleBypass opened" "draftStarted (stState opened)" by code_simp+
  moreover have "envTeams pairEnv \<noteq> []" by (simp add: pairEnv_def sampleEnv_def)
  ultimately show ?thesis
    using run_order [OF run lobby_facts(4,5)] run_keeps [OF run] lobby_facts by (simp add: roomReady_def keeps_def)
qed

theorem unattended_draft_finishes_witness:
  "draftComplete pairEnv (stState (tickRun pairEnv draftTf draftCtx (map (\<lambda>i. (int i + 2) * 60 * second) [0..<8]) opened)) \<or>
   clockPaused (stState (tickRun pairEnv draftTf draftCtx (map (\<lambda>i. (int i + 2) * 60 * second) [0..<8]) opened))"
proof (rule unattended_draft_finishes [OF opened_ready lobby_facts(3)])
  have pc: "pickClock (dcConfigured draftCtx) (stState opened) = 60 * second" by code_simp
  show "sorted_wrt (\<lambda>x y. x + pickClock (dcConfigured draftCtx) (stState opened) \<le> y) (map (\<lambda>i. (int i + 2) * 60 * second) [0..<8])"
    unfolding pc by code_simp
  have "clockDeadline (stState opened) = 100 + 60 * second" by code_simp
  then show "\<forall>x\<in>set (map (\<lambda>i. (int i + 2) * 60 * second) [0..<8]). 0 \<le> x \<and> clockDeadline (stState opened) \<le> x"
    by (auto simp: second_def)
  show "2 * (totalPicks pairEnv - int (length (picks (stState opened)))) \<le> int (length (map (\<lambda>i. (int i + 2) * 60 * second) [0..<8]))"
    by code_simp
qed

section \<open>The draw\<close>

lemma swapAt_mset: "i < length xs \<Longrightarrow> j < length xs \<Longrightarrow> mset (swapAt i j xs) = mset xs"
  by (simp add: swapAt_def mset_swap)

lemma swapAt_length [simp]: "length (swapAt i j xs) = length xs"
  by (simp add: swapAt_def)

lemma swapAt_front: "1 < length xs \<Longrightarrow> mset (swapAt 0 1 xs) = mset xs"
  by (rule swapAt_mset) linarith+

lemma shufflePass_mset:
  assumes "\<forall>i<length xs. draw i \<le> i"
  shows "mset (shufflePass draw xs) = mset xs"
proof -
  have "mset (fold (\<lambda>i. swapAt i (draw i)) ks ys) = mset ys \<and> length (fold (\<lambda>i. swapAt i (draw i)) ks ys) = length ys"
    if "\<forall>i\<in>set ks. i < length ys \<and> draw i < length ys" for ks and ys :: "'a list"
    using that
  proof (induction ks arbitrary: ys)
    case (Cons k ks)
    have "\<forall>i\<in>set ks. i < length (swapAt k (draw k) ys) \<and> draw i < length (swapAt k (draw k) ys)" using Cons.prems by simp
    from Cons.IH [OF this] show ?case using Cons.prems by (simp add: swapAt_mset)
  qed simp
  moreover have "\<forall>i\<in>set (rev [1..<length xs]). i < length xs \<and> draw i < length xs" using assms by fastforce
  ultimately show ?thesis unfolding shufflePass_def by blast
qed

lemma drawnOrder_mset:
  assumes "\<forall>k i. i < length ids \<longrightarrow> draws k i \<le> i"
  shows "mset (drawnOrder draws ids previous) = mset ids"
proof -
  have "mset (fold (\<lambda>k. shufflePass (draws k)) ks ids) = mset ids" for ks
  proof (induction ks rule: rev_induct)
    case (snoc k ks)
    have "length (fold (\<lambda>k. shufflePass (draws k)) ks ids) = length ids" by (rule mset_eq_length [OF snoc])
    then show ?case using snoc assms by (simp add: shufflePass_mset)
  qed simp
  then show ?thesis by (simp add: drawnOrder_def Let_def swapAt_front del: One_nat_def)
qed

text \<open>
  A draw of the draft order that succeeds publishes a permutation of the league's teams, different
  from the order it replaces whenever there are two teams or more, on a draft that has not started; the
  tape is untouched.
\<close>

theorem redraw_is_new_permutation:
  assumes "adminRandomizeDraftOrder env active tf draws built commissioner expected (stState s) ok s = (Inr created, s')"
    and "\<forall>k i. i < length (defaultTeamIDs env) \<longrightarrow> draws k i \<le> i" "distinct (defaultTeamIDs env)"
  shows "mset (draftOrder (stState s')) = mset (defaultTeamIDs env) \<and> \<not> draftStarted (stState s) \<and>
    picks (stState s') = picks (stState s) \<and>
    (1 < length (envTeams env) \<longrightarrow> draftOrder (stState s') \<noteq> draftOrder (stState s))"
proof -
  define ids where "ids = drawnOrder draws (defaultTeamIDs env) (draftOrder (stState s))"
  have ids: "mset ids = mset (defaultTeamIDs env)" unfolding ids_def by (rule drawnOrder_mset [OF assms(2)])
  obtain sch where "drawDraftOrder active tf ids (trimSpace expected) (Some sch) ok s = (Inr created, s')"
    using assms(1) unfolding adminRandomizeDraftOrder_def ids_def [symmetric] by (auto simp: rejected_def split: if_splits option.splits)
  then have st: "\<not> draftStarted (stState s)" "draftOrder (stState s') = ids" "picks (stState s') = picks (stState s)"
    unfolding drawDraftOrder_def gated_iff Let_def by (auto simp: op_iffs split: option.splits)
  have "ids \<noteq> draftOrder (stState s)" if "1 < length (envTeams env)"
  proof -
    define raw where "raw = fold (\<lambda>k. shufflePass (draws k)) [0..<draftOrderShufflePasses] (defaultTeamIDs env)"
    have same: "draftOrder (stState s) = raw \<Longrightarrow> 1 < length raw \<Longrightarrow> ids = swapAt 0 1 raw"
      and other: "draftOrder (stState s) \<noteq> raw \<Longrightarrow> ids = raw"
      by (simp_all add: ids_def drawnOrder_def raw_def Let_def)
    show ?thesis
    proof (cases "draftOrder (stState s) = raw")
      case True
      have len: "1 < length raw"
      proof (rule ccontr)
        assume "\<not> 1 < length raw"
        then have "ids = raw" using True by (simp add: ids_def drawnOrder_def raw_def [symmetric] Let_def)
        then show False using mset_eq_length [OF ids] that \<open>\<not> 1 < length raw\<close> by (simp add: defaultTeamIDs_def)
      qed
      have "mset raw = mset (defaultTeamIDs env)" using ids same [OF True len] swapAt_front [OF len] by simp
      then have "distinct raw" using assms(3) by (metis mset_eq_imp_distinct_iff)
      then have "raw ! 0 \<noteq> raw ! 1" using nth_eq_iff_index_eq [of raw 0 1] len by linarith
      then have "swapAt 0 1 raw ! 0 \<noteq> raw ! 0" using len by (cases raw) (simp_all add: swapAt_def)
      then show ?thesis using True same [OF True len] by auto
    qed (use other in auto)
  qed
  then show ?thesis using st ids by simp
qed

definition pairSchedule :: season_schedule where
  "pairSchedule = \<lparr>schSeason = 2026, schSeed = 1, schGeneratedAt = 0, schStartWeek = 1, schWeeks = []\<rparr>"

theorem redraw_is_new_permutation_witness:
  "draftOrder (stState (snd (adminRandomizeDraftOrder pairEnv (envTeams pairEnv) draftTf (\<lambda>k i. i) (Some pairSchedule) True []
     (stState lobby) True lobby))) \<noteq> []"
proof -
  let ?r = "adminRandomizeDraftOrder pairEnv (envTeams pairEnv) draftTf (\<lambda>k i. i) (Some pairSchedule) True [] (stState lobby) True lobby"
  have "succeeded ?r" by code_simp
  then obtain c s' where r: "?r = (Inr c, s')" by (auto elim: succeeded.elims)
  have "distinct (defaultTeamIDs pairEnv)" by code_simp
  then have "mset (draftOrder (stState s')) = mset (defaultTeamIDs pairEnv)"
    using redraw_is_new_permutation [OF r] by simp
  then show ?thesis unfolding r by (auto simp: defaultTeamIDs_def pairEnv_def sampleEnv_def)
qed

section \<open>Where the room falls short\<close>

text \<open>
  A manual pick during a pause keeps the remainder of the seat before: after the resume the next seat has
  20 seconds, not a fresh minute. A forced pick clears it.
\<close>

lemma paused_pick_keeps_remainder:
  "clockDeadline (stState (snd (resumeClock pairEnv (100 * second) (60 * second) True
     (snd (makePick pairEnv ''a'' ''w1'' ByManager (50 * second) 0 True
       (snd (pauseClock pairEnv (40 * second) True opened))))))) = 120 * second \<and>
   clockDeadline (stState (snd (resumeClock pairEnv (100 * second) (60 * second) True
     (snd (autoPick pairEnv draftTf ''a'' ''w1'' ByCommissioner 1 0 (50 * second) 0 None True
       (snd (pauseClock pairEnv (40 * second) True opened))))))) = 160 * second"
  by (intro conjI) code_simp+

text \<open>
  The manual pick checks viability on its snapshot and the Store does not compare the pick number: at the
  turn of the snake a second submission of the same seat lands as its next pick and leaves the team without
  a receiver it can still draft.
\<close>

definition turnStore :: store where
  "turnStore = snd (makePick pairEnv ''a'' ''w1'' ByManager (2 * second) (62 * second) True opened)"

definition turnOnce :: store where
  "turnOnce = snd (serviceMakePick pairEnv draftCtx (Some ''b'') ''r1'' (stState turnStore) (3 * second) True turnStore)"

definition turnTwice :: store where
  "turnTwice = snd (serviceMakePick pairEnv draftCtx (Some ''b'') ''r2'' (stState turnStore) (3 * second) True turnOnce)"

lemma stale_manual_pick_breaks_viability:
  "\<not> draftCandidateKeepsRosterViable pairEnv (stState turnOnce) (poolByID draftPool) ''b'' ''r2''"
  "map pickPlayerID (picks (stState turnTwice)) = [''w1'', ''r1'', ''r2'']"
  "maximumDraftStarterFill (fst (teamDraftedPlayers (stState turnTwice) (poolByID draftPool) ''b'')) (envRoster pairEnv)
     < presetStarters (envRoster pairEnv)"
  by code_simp+

text \<open>The tick's re-arm does not look at the pause under the lock either.\<close>

lemma late_arm_breaks_pause:
  "clockPaused (stState (clockTick pairEnv draftTf draftCtx ((stState opened)\<lparr>clockDeadline := 0\<rparr>) (50 * second) True
     (snd (pauseClock pairEnv (40 * second) True opened)))) \<and>
   clockDeadline (stState (clockTick pairEnv draftTf draftCtx ((stState opened)\<lparr>clockDeadline := 0\<rparr>) (50 * second) True
     (snd (pauseClock pairEnv (40 * second) True opened)))) = 110 * second"
  by (intro conjI) code_simp+

end
