(* ===== verification/LineupLife.thy ===== *)
theory LineupLife
  imports LineupActions DraftLife WeekClose
begin

text \<open>
  The life of a league's lineups and its properties: manager actions, week closes and resets, in whatever
  order and on whatever stale view of the state.
\<close>

section \<open>What a close writes\<close>

lemma pins_seats: "pinMap l = seatPairs (\<lambda>a. True) (elSlots l)"
proof -
  have "List.map_filter (\<lambda>a. map_option (\<lambda>p. (siID (saSlot a), playerID p)) (saPlayer a)) cs = seatPairs (\<lambda>a. True) cs" for cs
    by (induction cs) (simp_all add: map_filter_simps split: option.split)
  then show ?thesis by (simp add: pinMap_def)
qed

lemma putPins_cong: "lineups a = lineups b \<Longrightarrow> lineups (putPins w pins a) = lineups (putPins w pins b)"
proof (induction pins arbitrary: a b)
  case (Cons x pins)
  have "lineups (putLineup (fst x) w (snd x) a) = lineups (putLineup (fst x) w (snd x) b)" by (simp add: putLineup_def Cons.prems)
  from Cons.IH [OF this] show ?case by (simp only: putPins_def fold.simps case_prod_beta comp_apply)
qed (simp add: putPins_def)

lemma commit_lineups:
  assumes "setScheduleWeekWithLineups wk pins res s = (r, s')"
  shows "lineups (stState s') = lineups (stState s) \<or> lineups (stState s') = lineups (putPins (swWeek wk) pins (stState s))"
proof -
  have phase: "lineups (repairPhase st) = lineups st" for st by (simp add: repairPhase_def)
  have pins: "lineups (putPins (swWeek wk) pins (withWeek sch wk (stState s))) = lineups (putPins (swWeek wk) pins (stState s))" for sch
    by (rule putPins_cong) (simp add: withWeek_def)
  show ?thesis
    using assms unfolding setScheduleWeekWithLineups_def gated_def rejected_def commitDisposed_def
    by (auto simp: phase pins split: if_splits option.splits persist_result.splits)
qed

lemma putPins_empty [simp]: "putPins w [] st = st"
  by (simp add: putPins_def)

lemma close_lineups:
  assumes "closeWeek env ci st scorerView week now res s = (r, s')"
  shows "lineups (stState s') = lineups (stState s) \<or>
    (\<exists>w target. lineups (stState s') = lineups (putPins w (closePins env ci st target week) (stState s)))"
proof (cases "s' = s")
  case False
  then obtain wk pins e where w: "setScheduleWeekWithLineups wk pins res s = (e, s')"
    "pins = [] \<or> (\<exists>target. pins = closePins env ci st target week)"
    using assms unfolding closeWeek_def commitScheduleWeekClose_def Let_def andThen_def
    by (auto simp: rejected_def split: option.splits prod.splits if_splits sum.splits)
  show ?thesis using commit_lineups [OF w(1)] w(2) by auto
qed simp

lemma lineupsOK_cong: "lineups a = lineups b \<Longrightarrow> lineupsOK preset pos a = lineupsOK preset pos b"
  by (simp add: lineupsOK_def)

lemma putPins_ok:
  "lineupsOK preset pos st \<Longrightarrow> \<forall>(t, m)\<in>set pins. mapOK preset pos m \<Longrightarrow> lineupsOK preset pos (putPins w pins st)"
proof (induction pins arbitrary: st)
  case (Cons x pins)
  have "lineupsOK preset pos (putLineup (fst x) w (snd x) st)"
    using Cons.prems by (auto simp: lineupsOK_def putLineup_def)
  then show ?case using Cons by (simp add: putPins_def case_prod_beta)
qed simp

lemma close_ok:
  assumes "closeWeek env ci st scorerView week now res s = (r, s')"
    and "lineupsOK (envRoster env) pos (stState s)" "lineupsOK (envRoster env) pos st" "poolFits pos (liPool (ciLineup ci))"
  shows "lineupsOK (envRoster env) pos (stState s')"
proof -
  have "mapOK (envRoster env) pos (pinMap (currentLineup env (ciLineup ci) st t week))" for t
    unfolding pins_seats by (rule seats_mapOK [OF currentLineup_def assms(3) generalRoster_in [OF assms(4)]])
  then have "\<forall>(t, m)\<in>set (closePins env ci st target week). mapOK (envRoster env) pos m" for target by (auto simp: closePins_def)
  then have "lineupsOK (envRoster env) pos (putPins w (closePins env ci st target week) (stState s))" for w target
    by (rule putPins_ok [OF assms(2)])
  then show ?thesis using close_lineups [OF assms(1)] assms(2) lineupsOK_cong by metis
qed

section \<open>The life of the lineups\<close>

text \<open>
  The history of a league's lineups, newest state first. A manager's action and the close of a week decide on a
  snapshot of any state so far; the player pools they read may differ, players coming, going and changing
  teams, as long as nobody changes his position (pos). A reset of the draft or of the league clears the
  lineups, and no operation but these writes them: SetLineupSlot is called by the fixture SeedStarterForTest
  alone, which production refuses.
\<close>

inductive lineup_life :: "league_env \<Rightarrow> (player_id \<Rightarrow> string) \<Rightarrow> store list \<Rightarrow> bool" for env pos where
  life_start: "lineups (stState s) = (\<lambda>t w. None) \<Longrightarrow> lineup_life env pos [s]"
| life_action: "lineup_life env pos (s # h) \<Longrightarrow> v \<in> set (s # h) \<Longrightarrow> poolFits pos (liPool li) \<Longrightarrow>
    runLineup a env li acting week (stState v) ok s = (r, s') \<Longrightarrow> lineup_life env pos (s' # s # h)"
| life_close: "lineup_life env pos (s # h) \<Longrightarrow> v \<in> set (s # h) \<Longrightarrow> poolFits pos (liPool (ciLineup ci)) \<Longrightarrow>
    closeWeek env ci (stState v) scorerView week now res s = (r', s') \<Longrightarrow> lineup_life env pos (s' # s # h)"
| life_reset: "lineup_life env pos (s # h) \<Longrightarrow> lineups (stState s') = (\<lambda>t w. None) \<Longrightarrow> lineup_life env pos (s' # s # h)"
| life_other: "lineup_life env pos (s # h) \<Longrightarrow> lineups (stState s') = lineups (stState s) \<Longrightarrow> lineup_life env pos (s' # s # h)"

lemma life_ok: "lineup_life env pos h \<Longrightarrow> \<forall>v\<in>set h. lineupsOK (envRoster env) pos (stState v)"
proof (induction rule: lineup_life.induct)
  case (life_action s h v li a acting week ok r s')
  have "lineupsOK (envRoster env) pos (stState s')"
  proof (cases acting)
    case None
    have "s' = s" by (rule action_nobody [OF life_action(4) [unfolded None]])
    then show ?thesis using life_action by simp
  next
    case (Some t)
    have "lineupsOK (envRoster env) pos (stState v)" using life_action by auto
    then have "wrote env pos li (stState v) t week s s'" using action_wrote life_action(3,4) Some by blast
    then show ?thesis using life_action by (auto simp: wrote_def goodMap_def intro!: put_ok)
  qed
  then show ?case using life_action by simp
next
  case (life_close s h v ci scorerView week now res r' s')
  have "lineupsOK (envRoster env) pos (stState s')"
    by (rule close_ok [OF life_close(4) _ _ life_close(3)]) (use life_close in auto)
  then show ?case using life_close by simp
qed (simp_all add: lineupsOK_def)

section \<open>A league of four players\<close>

text \<open>Two running backs and two receivers; the first back plays early, the others late.\<close>

definition lineupPlayer :: "player_id \<Rightarrow> string \<Rightarrow> string \<Rightarrow> int \<Rightarrow> player" where
  "lineupPlayer p position nfl projection = zeroPlayer\<lparr>playerID := p, playerName := p, playerPosition := position,
     playerNFLTeam := nfl, playerProjection := of_int projection\<rparr>"

definition lineupPool :: "player_id \<Rightarrow> player option" where
  "lineupPool = map_of [(''r1'', lineupPlayer ''r1'' ''RB'' ''KC'' 9), (''r2'', lineupPlayer ''r2'' ''RB'' ''BUF'' 1),
     (''w1'', lineupPlayer ''w1'' ''WR'' ''BUF'' 5), (''w2'', lineupPlayer ''w2'' ''WR'' ''BUF'' 3)]"

definition lineupGames :: "game_info list" where
  "lineupGames =
     [\<lparr>gameID = ''early'', gameWeek = 1, gameKickoff = 100 * second, gameAway = ''DEN'', gameHome = ''KC'', gameFinal = False\<rparr>,
      \<lparr>gameID = ''late'', gameWeek = 1, gameKickoff = 9000 * second, gameAway = ''NYJ'', gameHome = ''BUF'', gameFinal = False\<rparr>]"

definition lineupAt :: "int \<Rightarrow> lineup_input" where
  "lineupAt t = \<lparr>liPool = lineupPool, liGames = lineupGames, liNow = t * second\<rparr>"

definition lineupStore :: store where
  "lineupStore = sampleStore (freshState\<lparr>picks := [samplePick 1 ''a'' ''r1'', samplePick 2 ''a'' ''w1'', samplePick 3 ''a'' ''w2'',
     samplePick 4 ''a'' ''r2'']\<rparr>)"

definition actAt :: "int \<Rightarrow> lineup_action \<Rightarrow> store \<Rightarrow> (store, lineup_error, unit) outcome" where
  "actAt t a s = runLineup a pairEnv (lineupAt t) (Some ''a'') 1 (stState s) True s"

definition starting :: "int \<Rightarrow> store \<Rightarrow> (string \<times> player_id option \<times> bool \<times> bool) list" where
  "starting t s = map (\<lambda>a. (siID (saSlot a), map_option playerID (saPlayer a), saAutoFilled a, saLocked a))
     (elSlots (currentLineup pairEnv (lineupAt t) (stState s) ''a'' 1))"

lemma lineup_pool_ok: "poolOK lineupPool"
  by (auto simp: poolOK_def lineupPool_def lineupPlayer_def split: if_splits)

definition lineupPos :: "player_id \<Rightarrow> string" where
  "lineupPos p = (case lineupPool p of None \<Rightarrow> [] | Some x \<Rightarrow> playerPosition x)"

lemma lineup_pool_fits: "poolFits lineupPos lineupPool"
  using lineup_pool_ok by (simp add: poolFits_def lineupPos_def)

lemma lineup_start: "lineup_life pairEnv lineupPos [lineupStore]"
  by (rule life_start) (simp add: lineupStore_def sampleStore_def freshState_def)

lemma lineup_acted:
  "lineup_life pairEnv lineupPos (s # h) \<Longrightarrow> lineup_life pairEnv lineupPos (snd (actAt t a s) # s # h)"
  by (rule life_action [where v = s and li = "lineupAt t"])
    (auto simp: lineupAt_def actAt_def lineup_pool_fits intro: prod.collapse [symmetric])

section \<open>Properties\<close>

text \<open>
  C8: A starter whose game has kicked off stays. Whatever lineup action a manager or the commissioner runs,
  when it changes the store then every slot whose occupant was locked in the view the action was decided on (the
  current state or an earlier one) resolves to the same player in the new state, at any later clock and with
  any later player pool, unless he has left the roster.
\<close>

theorem locked_starters_stay:
  assumes "lineup_life env pos (s # h)" "v \<in> set (s # h)" "poolFits pos (liPool li)"
    and "runLineup a env li (Some t) week (stState v) ok s = (r, s')" "s' \<noteq> s"
    and "c \<in> set (elSlots (currentLineup env li (stState v) t week))" "saPlayer c = Some p" "saLocked c"
    and "poolOK (liPool li')" "q \<in> set (generalRoster (liPool li') (stState s') t)" "playerID q = playerID p"
  shows "\<exists>d\<in>set (elSlots (currentLineup env li' (stState s') t week)). saSlot d = saSlot c \<and> saPlayer d = Some q"
proof -
  have "lineupsOK (envRoster env) pos (stState v)" using life_ok [OF assms(1)] assms(2) by blast
  then have "wrote env pos li (stState v) t week s s'" using action_wrote [OF assms(4) _ assms(3)] by blast
  then obtain m ms where m: "goodMap (envRoster env) pos (currentLineup env li (stState v) t week) m" "1 \<le> week"
    "stState s' = putMarkers t week ms (putLineup t week m (stState s))" using assms(5) by (auto simp: wrote_def)
  have src: "snd (storedLineupSource (stState s') t week) = m" using put_source [OF m(2)] by (simp add: m(3))
  have k: "slotRead m (siID (saSlot c)) = playerID p" using m(1) assms(6-8) by (simp add: goodMap_def keepsLocked_def)
  have ros: "rosterOK (generalRoster (liPool li') (stState s') t)" by (rule generalRoster_OK [OF assms(9)])
  have "saSlot c \<in> set (lineupSlots (envRoster env))" using current_slot_mem(1) assms(6) unfolding currentLineup_def by blast
  then obtain d where d: "d \<in> set (elSlots (currentLineup env li' (stState s') t week))" "saSlot d = saSlot c"
    using slot_known [OF currentLineup_def] by metis
  have "saPlayer d = Some q"
    by (rule current_explicit [OF d(1) [unfolded currentLineup_def] ros assms(10)]) (simp add: src d(2) k assms(11))
  then show ?thesis using d by blast
qed

theorem locked_starters_stay_witness:
  "\<exists>d\<in>set (elSlots (currentLineup pairEnv (lineupAt 300) (stState (snd (actAt 200 (MovePlayer ''w2'' ''WR'') lineupStore))) ''a'' 1)).
     saSlot d = saSlot (hd (elSlots (currentLineup pairEnv (lineupAt 200) (stState lineupStore) ''a'' 1))) \<and>
     saPlayer d = Some (lineupPlayer ''r1'' ''RB'' ''KC'' 9)"
proof -
  let ?s' = "snd (actAt 200 (MovePlayer ''w2'' ''WR'') lineupStore)"
  let ?c = "hd (elSlots (currentLineup pairEnv (lineupAt 200) (stState lineupStore) ''a'' 1))"
  have "starting 200 ?s' = [(''RB'', Some ''r1'', True, True), (''WR'', Some ''w2'', False, False)]"
    "starting 200 lineupStore = [(''RB'', Some ''r1'', True, True), (''WR'', Some ''w1'', True, False)]" by code_simp+
  then have ne: "?s' \<noteq> lineupStore" by auto
  have c: "elSlots (currentLineup pairEnv (lineupAt 200) (stState lineupStore) ''a'' 1) \<noteq> []"
    "saPlayer ?c = Some (lineupPlayer ''r1'' ''RB'' ''KC'' 9)" "saLocked ?c" by code_simp+
  have p: "lineupPlayer ''r1'' ''RB'' ''KC'' 9 \<in> set (generalRoster lineupPool (stState ?s') ''a'')" by code_simp
  have pools: "liPool (lineupAt t) = lineupPool" for t by (simp add: lineupAt_def)
  have run: "runLineup (MovePlayer ''w2'' ''WR'') pairEnv (lineupAt 200) (Some ''a'') 1 (stState lineupStore) True lineupStore =
    (fst (actAt 200 (MovePlayer ''w2'' ''WR'') lineupStore), ?s')" by (simp add: actAt_def)
  show ?thesis
    by (rule locked_starters_stay [OF lineup_start _ _ run ne hd_in_set [OF c(1)] c(2,3)]) (use lineup_pool_fits lineup_pool_ok p in \<open>simp_all add: pools\<close>)
qed

text \<open>
  C9: At every moment of a league's life, through manager actions, week closes and resets, with player pools
  that change in everything but the players' positions, every team's lineup is sound: the slots of the roster shape in order,
  every starter on the roster and at a slot his position fits, starters and bench together exactly the active
  roster with nobody twice, and no slot left empty while somebody on the bench fits it.
\<close>

theorem lineups_always_sound:
  assumes "lineup_life env pos h" "v \<in> set h" "poolFits pos (liPool li)"
  shows "soundLineup (envRoster env) (generalRoster (liPool li) (stState v) t) (currentLineup env li (stState v) t week)"
  unfolding currentLineup_def
  by (rule view_sound) (use life_ok [OF assms(1)] assms(2) generalRoster_in [OF assms(3)] in blast)+

theorem lineups_always_sound_witness:
  "soundLineup (envRoster pairEnv) (generalRoster lineupPool (stState (snd (actAt 50 (SetSlot ''RB'' ''r2'') lineupStore))) ''a'')
     (currentLineup pairEnv (lineupAt 200) (stState (snd (actAt 50 (SetSlot ''RB'' ''r2'') lineupStore))) ''a'' 1)"
  using lineups_always_sound [where li = "lineupAt 200" and h = "[snd (actAt 50 (SetSlot ''RB'' ''r2'') lineupStore), lineupStore]"
      and v = "snd (actAt 50 (SetSlot ''RB'' ''r2'') lineupStore)" and env = pairEnv and pos = lineupPos and t = "''a''" and week = 1]
    lineup_acted [OF lineup_start] lineup_pool_fits by (simp add: lineupAt_def)

text \<open>
  The clock never changes who starts: for whatever game schedule and at whatever time a lineup is resolved,
  the slots hold the same players, filled automatically or not alike, and the bench is the same. Games and
  clock only decide which slots show as locked.
\<close>

theorem lineup_ignores_clock:
  "map (\<lambda>a. (saSlot a, saPlayer a, saAutoFilled a)) (elSlots (effectiveLineupWithState preset roster st t week games now)) =
   map (\<lambda>a. (saSlot a, saPlayer a, saAutoFilled a)) (elSlots (effectiveLineupWithState preset roster st t week games' now')) \<and>
   elBench (effectiveLineupWithState preset roster st t week games now) =
   elBench (effectiveLineupWithState preset roster st t week games' now')"
  unfolding effectiveLineupWithState_def effectiveLineup_def Let_def
  by (auto simp: decorate_def split: option.split)

section \<open>A locked player starts after all\<close>

text \<open>
  Clearing a slot is only refused when its occupant is locked. The automatic fill ignores the locks, so
  clearing a slot whose occupant has yet to play brings in a benched player whose game is under way, which
  setting the slot to him is refused for.
\<close>

lemma clearing_starts_locked_player:
  "starting 200 (snd (actAt 50 (SetSlot ''RB'' ''r2'') lineupStore)) = [(''RB'', Some ''r2'', False, False), (''WR'', Some ''w1'', True, False)]"
  "fst (actAt 200 (SetSlot ''RB'' ''r1'') (snd (actAt 50 (SetSlot ''RB'' ''r2'') lineupStore))) = Inl (Rejected (LineupLocked ''r1''))"
  "starting 200 (snd (actAt 200 (SetSlot ''RB'' []) (snd (actAt 50 (SetSlot ''RB'' ''r2'') lineupStore)))) =
     [(''RB'', Some ''r1'', True, True), (''WR'', Some ''w1'', True, False)]"
  by code_simp+

end
