(* ===== verification/SeasonLife.thy ===== *)
theory SeasonLife
  imports WeekClose LineupLife
begin

text \<open>
  The life of the league's weeks: a closed week is frozen, its scores are those of its pins, weeks close in
  order, and the rules the scores are counted with stay well formed.
\<close>

section \<open>Where lineups are written\<close>

text \<open>Every manager's action writes at most one stored week, of a week that is not final.\<close>

definition openPut :: "store \<Rightarrow> store \<Rightarrow> bool" where
  "openPut s s' \<longleftrightarrow> s' = s \<or> (\<exists>t week m ms. s' = s\<lparr>stState := putMarkers t week ms (putLineup t week m (stState s))\<rparr> \<and>
     \<not> weekIsFinalInSchedule (seasonSchedule (stState s)) week)"

lemma openPut_same [simp]: "openPut s s"
  by (simp add: openPut_def)

lemma week_put: "setLineupWeek env t week m ok s = (r, s') \<Longrightarrow> openPut s s'"
  unfolding setLineupWeek_def openPut_def lineupWeekFinalLocked_def
  by (auto simp: gated_def rejected_def commitOnly_def split: if_splits)

lemma base_put: "writeBase env st t week base ok s = (r, s') \<Longrightarrow> openPut s s'"
  unfolding writeBase_def setLineupWeekIfUnchanged_def openPut_def lineupWeekFinalLocked_def
  by (auto simp: gated_def rejected_def commitOnly_def split: if_splits)

lemma slot_put: "setLineupSlot env t week slot p ok s = (r, s') \<Longrightarrow> openPut s s'"
  unfolding setLineupSlot_def openPut_def lineupWeekFinalLocked_def Let_def
  by (auto simp: gated_def rejected_def commitOnly_def split: if_splits)

lemma swap_put: "swapSlots env st t week l a p b ok s = (r, s') \<Longrightarrow> openPut s s'"
  by (auto simp: swapSlots_def rejected_def dest: base_put split: option.splits)

lemma action_put:
  assumes "runLineup a env li acting week st ok s = (r, s')"
  shows "openPut s s'"
proof (cases a)
  case (SetSlot slot p)
  then show ?thesis using assms
    by (auto simp: setLineup_def rejected_def Let_def dest: base_put split: option.splits if_splits)
next
  case (MovePlayer p slot)
  then show ?thesis using assms
    by (auto simp: lineupMovePlayerTo_def rejected_def Let_def dest: base_put swap_put split: option.splits if_splits)
next
  case (MoveSlots f slot)
  then show ?thesis using assms
    by (auto simp: lineupMove_def rejected_def Let_def dest: swap_put split: option.splits if_splits)
next
  case (MoveToIndex f i)
  then show ?thesis using assms
    by (auto simp: lineupMoveTo_def lineupMove_def rejected_def Let_def dest: swap_put split: option.splits if_splits)
next
  case AutoWeek
  then show ?thesis using assms by (auto simp: lineupAuto_def rejected_def dest: week_put split: option.splits)
qed

section \<open>Frozen weeks\<close>

definition weekKept :: "int \<Rightarrow> persisted_state \<Rightarrow> persisted_state \<Rightarrow> bool" where
  "weekKept w st st' \<longleftrightarrow> (\<forall>sch wk. seasonSchedule st = Some sch \<longrightarrow> scheduleWeekByNumber sch w = Some wk \<longrightarrow> scheduleWeekIsFinal wk \<longrightarrow>
     (\<exists>sch'. seasonSchedule st' = Some sch' \<and> scheduleWeekByNumber sch' w = Some wk) \<and> (\<forall>t. lineups st' t w = lineups st t w))"

lemma kept_same: "seasonSchedule st' = seasonSchedule st \<Longrightarrow> lineups st' = lineups st \<Longrightarrow> weekKept w st st'"
  by (simp add: weekKept_def)

lemma kept_trans: "weekKept w a b \<Longrightarrow> weekKept w b c \<Longrightarrow> weekKept w a c"
  unfolding weekKept_def by metis

lemma final_number: "weekIsFinalInSchedule (Some sch) w \<longleftrightarrow> (\<exists>wk. scheduleWeekByNumber sch w = Some wk \<and> scheduleWeekIsFinal wk)"
  by (auto simp: weekIsFinalInSchedule_def scheduleWeekByNumber_def scheduleWeekIsFinal_def split: option.splits)

lemma put_week_find:
  "find (\<lambda>x. swWeek x = w) (putWeek wk ws) =
    (if w = swWeek wk \<and> find (\<lambda>x. swWeek x = w) ws \<noteq> None then Some wk else find (\<lambda>x. swWeek x = w) ws)"
  by (induction ws) auto

lemma put_week_number:
  "scheduleWeekByNumber (sch\<lparr>schWeeks := putWeek wk (schWeeks sch)\<rparr>) w =
    (if w = swWeek wk \<and> scheduleWeekByNumber sch w \<noteq> None then Some wk else scheduleWeekByNumber sch w)"
  by (auto simp: scheduleWeekByNumber_def put_week_find)

lemma putLineup_fields [simp]:
  "seasonSchedule (putLineup t w m st) = seasonSchedule st" "seasonSchedule (putMarkers t w ms st) = seasonSchedule st"
  "lineups (putMarkers t w ms st) = lineups st" "seasonPhase (putLineup t w m st) = seasonPhase st"
  by (simp_all add: putLineup_def putMarkers_def)

lemma putPins_schedule [simp]: "seasonSchedule (putPins w pins st) = seasonSchedule st" "seasonPhase (putPins w pins st) = seasonPhase st"
  unfolding putPins_def by (induction pins arbitrary: st) auto

lemma putPins_other: "v \<noteq> w \<Longrightarrow> lineups (putPins w pins st) t v = lineups st t v"
  unfolding putPins_def by (induction pins arbitrary: st) (auto simp: putLineup_def)

lemma putPins_at: "distinct (map fst pins) \<Longrightarrow> (t, m) \<in> set pins \<Longrightarrow> lineups (putPins w pins st) t w = Some m"
proof -
  have keep: "t \<notin> fst ` set ps \<Longrightarrow> lineups (putPins w ps st) t w = lineups st t w" for ps st
    unfolding putPins_def by (induction ps arbitrary: st) (auto simp: putLineup_def)
  show "distinct (map fst pins) \<Longrightarrow> (t, m) \<in> set pins \<Longrightarrow> lineups (putPins w pins st) t w = Some m"
  proof (induction pins arbitrary: st)
    case (Cons x pins)
    show ?case
    proof (cases "x = (t, m)")
      case True
      have "lineups (putPins w pins (putLineup t w m st)) t w = lineups (putLineup t w m st) t w"
        by (rule keep) (use Cons.prems(1) True in auto)
      then show ?thesis using True by (simp add: putPins_def putLineup_def)
    next
      case False
      then have "lineups (putPins w pins (putLineup (fst x) w (snd x) st)) t w = Some m" using Cons by auto
      then show ?thesis by (simp add: putPins_def case_prod_beta)
    qed
  qed simp
qed

lemma repair_fields [simp]: "seasonSchedule (repairPhase st) = seasonSchedule st" "lineups (repairPhase st) = lineups st"
  by (simp_all add: repairPhase_def)

lemma withWeek_fields [simp]:
  "seasonSchedule (withWeek sch wk st) = Some (sch\<lparr>schWeeks := putWeek wk (schWeeks sch)\<rparr>)" "lineups (withWeek sch wk st) = lineups st"
  "seasonPhase (withWeek sch wk st) = seasonPhase st"
  by (simp_all add: withWeek_def)

lemma openPut_kept: "openPut s s' \<Longrightarrow> weekKept w (stState s) (stState s')"
proof -
  assume "openPut s s'"
  then consider "s' = s" | t week m ms where "s' = s\<lparr>stState := putMarkers t week ms (putLineup t week m (stState s))\<rparr>"
    "\<not> weekIsFinalInSchedule (seasonSchedule (stState s)) week" by (auto simp: openPut_def)
  then show ?thesis
  proof cases
    case 1
    then show ?thesis by (simp add: kept_same)
  next
    case 2
    show ?thesis unfolding weekKept_def
    proof (intro allI impI)
      fix sch wk assume f: "seasonSchedule (stState s) = Some sch" "scheduleWeekByNumber sch w = Some wk" "scheduleWeekIsFinal wk"
      then have "week \<noteq> w" using 2(2) final_number by auto
      then show "(\<exists>sch'. seasonSchedule (stState s') = Some sch' \<and> scheduleWeekByNumber sch' w = Some wk) \<and>
        (\<forall>t. lineups (stState s') t w = lineups (stState s) t w)" using f by (simp add: 2(1) putLineup_def putMarkers_def)
    qed
  qed
qed

text \<open>The state a close leads to: nothing, the phase alone, or the open week replaced with its pins.\<close>

lemma commit_cases:
  assumes "setScheduleWeekWithLineups wk pins res s = (r, s')"
  obtains (same) "s' = s" | (repaired) "s' = s\<lparr>stState := repairPhase (stState s)\<rparr>"
  | (closed) sch old where "seasonSchedule (stState s) = Some sch" "scheduleWeekByNumber sch (swWeek wk) = Some old"
      "\<not> scheduleWeekIsFinal old" "s' = s\<lparr>stState := repairPhase (putPins (swWeek wk) pins (withWeek sch wk (stState s)))\<rparr>"
proof -
  have disposed: "commitDisposed res s st u = (r, s') \<Longrightarrow> s' = s \<or> s' = s\<lparr>stState := st\<rparr>" for st u
    by (auto simp: commitDisposed_def split: persist_result.splits)
  show thesis
  proof (cases "s' = s")
    case True
    then show thesis by (rule same)
  next
    case False
    then obtain sch old where w: "seasonSchedule (stState s) = Some sch" "scheduleWeekByNumber sch (swWeek wk) = Some old"
      using assms by (auto simp: setScheduleWeekWithLineups_def gated_def rejected_def split: if_splits option.splits)
    note run = assms [unfolded setScheduleWeekWithLineups_def w option.case]
    show thesis
    proof (cases "scheduleWeekIsFinal old")
      case True
      then have "commitDisposed res s (repairPhase (stState s)) () = (r, s')"
        using run False by (auto simp: scheduleWeekIsFinal_def gated_def split: if_splits)
      then show thesis using disposed False repaired by blast
    next
      case opened: False
      then have "commitDisposed res s (repairPhase (putPins (swWeek wk) pins (withWeek sch wk (stState s)))) () = (r, s')"
        using run False by (auto simp: scheduleWeekIsFinal_def gated_def split: if_splits)
      then show thesis using disposed False closed [OF w opened] by blast
    qed
  qed
qed

lemma replaced_kept:
  assumes "seasonSchedule st = Some sch" "scheduleWeekByNumber sch (swWeek wk) = Some old" "\<not> scheduleWeekIsFinal old"
  shows "weekKept w st (withWeek sch wk st)"
  using assms by (auto simp: weekKept_def put_week_number)

lemma commit_kept: "setScheduleWeekWithLineups wk pins res s = (r, s') \<Longrightarrow> weekKept w (stState s) (stState s')"
proof (erule commit_cases)
  fix sch old assume c: "seasonSchedule (stState s) = Some sch" "scheduleWeekByNumber sch (swWeek wk) = Some old"
    "\<not> scheduleWeekIsFinal old" "s' = s\<lparr>stState := repairPhase (putPins (swWeek wk) pins (withWeek sch wk (stState s)))\<rparr>"
  show "weekKept w (stState s) (stState s')"
  proof (cases "w = swWeek wk")
    case True
    then show ?thesis using c by (simp add: weekKept_def)
  next
    case False
    then show ?thesis using replaced_kept [OF c(1-3), of w] unfolding weekKept_def c(4) by (simp add: putPins_other)
  qed
qed (simp_all add: kept_same)

text \<open>
  The steps of a season, with arbitrary stale views for lineup actions and closes. The commissioner's schedule
  generation and regeneration check the current state (stale_regeneration_reopens_week in SeasonProps shows what a
  stale check can do). Resets and the trim of unclaimed seats, which withdraw the schedule and end the season,
  are no steps; every other operation, the draw of a draft order included, leaves the lineups and a schedule
  that exists alone.
\<close>

inductive season_step :: "league_env \<Rightarrow> store \<Rightarrow> store \<Rightarrow> bool" for env where
  manager: "runLineup a env li acting week st ok s = (r, s') \<Longrightarrow> season_step env s s'"
| slot: "setLineupSlot env t week k p ok s = (r, s') \<Longrightarrow> season_step env s s'"
| close: "closeWeek env ci st scorerView week now res s = (r, s') \<Longrightarrow> season_step env s s'"
| commit: "setScheduleWeekWithLineups wk pins res s = (r', s') \<Longrightarrow> season_step env s s'"
| replace: "setScheduleWeek wk ok s = (r', s') \<Longrightarrow> season_step env s s'"
| generate: "adminGenerateSchedule commissioner rnd drawn season teams (stState s) weeks startWeek seed now ok s = (r', s') \<Longrightarrow> season_step env s s'"
| regenerate: "adminRegenerateSchedule commissioner rnd drawn season teams (stState s) seasonStart weeks startWeek now ok s = (r', s') \<Longrightarrow>
    season_step env s s'"
| other: "(seasonSchedule (stState s) \<noteq> None \<Longrightarrow> seasonSchedule (stState s') = seasonSchedule (stState s)) \<Longrightarrow> lineups (stState s') = lineups (stState s) \<Longrightarrow> season_step env s s'"

lemma andThen_state: "andThen r x = (y, s') \<Longrightarrow> \<exists>e. r = (e, s')"
  by (cases r) (auto simp: andThen_def split: sum.splits)

lemma close_commit:
  assumes "closeWeek env ci st scorerView week now res s = (r, s')"
  shows "s' = s \<or> (\<exists>wk pins e. setScheduleWeekWithLineups wk pins res s = (e, s'))"
proof (cases "s' = s")
  case False
  then obtain wk pins x where w: "andThen (setScheduleWeekWithLineups wk pins res s) x = (r, s')"
    using assms unfolding closeWeek_def commitScheduleWeekClose_def Let_def
    by (auto simp: rejected_def split: option.splits prod.splits if_splits)
  show ?thesis using andThen_state [OF w] by blast
qed simp

lemma replace_kept: "setScheduleWeek wk ok s = (r, s') \<Longrightarrow> weekKept w (stState s) (stState s')"
proof (cases "s' = s")
  case False
  assume run: "setScheduleWeek wk ok s = (r, s')"
  then obtain sch old where w: "seasonSchedule (stState s) = Some sch" "scheduleWeekByNumber sch (swWeek wk) = Some old"
    using False by (auto simp: setScheduleWeek_def gated_def rejected_def split: if_splits option.splits)
  then have "\<not> scheduleWeekIsFinal old \<and> s' = s\<lparr>stState := withWeek sch wk (stState s)\<rparr>"
    using run False by (auto simp: setScheduleWeek_def gated_def rejected_def commitOnly_def split: if_splits)
  then show ?thesis using replaced_kept [OF w] by simp
qed (simp add: kept_same)

lemma final_has_matchup: "scheduleWeekByNumber sch w = Some wk \<Longrightarrow> scheduleWeekIsFinal wk \<Longrightarrow> scheduleHasFinalMatchup sch"
proof -
  assume wk: "scheduleWeekByNumber sch w = Some wk" and fin: "scheduleWeekIsFinal wk"
  from fin have "list_ex lmFinal (swMatchups wk)"
    by (cases "swMatchups wk") (auto simp: scheduleWeekIsFinal_def matchupsAllFinal_def)
  moreover from wk have "wk \<in> set (schWeeks sch)" by (auto simp: scheduleWeekByNumber_def find_Some_iff)
  ultimately show ?thesis unfolding scheduleHasFinalMatchup_def list_ex_iff by blast
qed

lemma step_kept: "season_step env s s' \<Longrightarrow> weekKept w (stState s) (stState s')"
proof (induction rule: season_step.induct)
  case (manager a li acting week st ok s r s')
  show ?case by (rule openPut_kept [OF action_put [OF manager]])
next
  case (slot t week k p ok s r s')
  show ?case by (rule openPut_kept [OF slot_put [OF slot]])
next
  case (close ci st scorerView week now res s r s')
  from close_commit [OF close] show ?case using commit_kept kept_same by fastforce
next
  case (commit wk pins res s r' s')
  show ?case by (rule commit_kept [OF commit])
next
  case (replace wk ok s r' s')
  show ?case by (rule replace_kept [OF replace])
next
  case (generate commissioner rnd drawn season teams s weeks startWeek seed now ok r' s')
  then have "s' = s \<or> seasonSchedule (stState s) = None" by (auto simp: adminGenerateSchedule_def rejected_def split: if_splits)
  then show ?case by (auto simp: weekKept_def)
next
  case (regenerate commissioner rnd drawn season teams s seasonStart weeks startWeek now ok r' s')
  then have "s' = s \<or> (\<forall>sch. seasonSchedule (stState s) = Some sch \<longrightarrow> \<not> scheduleHasFinalMatchup sch)"
    by (auto simp: adminRegenerateSchedule_def rejected_def split: if_splits option.splits)
  then show ?case using final_has_matchup by (auto simp: weekKept_def)
next
  case (other s s')
  then show ?case by (auto simp: weekKept_def)
qed

lemma run_kept: "(season_step env)\<^sup>*\<^sup>* s s' \<Longrightarrow> weekKept w (stState s) (stState s')"
proof (induction rule: rtranclp_induct)
  case (step y z)
  show ?case by (rule kept_trans [OF step.IH step_kept [OF step.hyps(2)]])
qed (simp add: kept_same)

section \<open>Scores and pins\<close>

lemma pins_starters:
  assumes "\<And>a p. a \<in> set (elSlots l) \<Longrightarrow> saPlayer a = Some p \<Longrightarrow> pool (playerID p) = Some p"
  shows "List.map_filter pool (map snd (pinMap l)) = startersOf l"
proof -
  have "List.map_filter pool (map snd (List.map_filter (\<lambda>a. map_option (\<lambda>p. (siID (saSlot a), playerID p)) (saPlayer a)) as)) =
    List.map_filter saPlayer as" if "\<And>a p. a \<in> set as \<Longrightarrow> saPlayer a = Some p \<Longrightarrow> pool (playerID p) = Some p" for as
    using that
  proof (induction as)
    case (Cons a as)
    have tail: "List.map_filter pool (map snd (List.map_filter (\<lambda>a. map_option (\<lambda>p. (siID (saSlot a), playerID p)) (saPlayer a)) as)) =
      List.map_filter saPlayer as" by (rule Cons.IH) (use Cons.prems in auto)
    show ?case
    proof (cases "saPlayer a")
      case None
      then show ?thesis using tail by (simp add: map_filter_simps)
    next
      case (Some p)
      then have "pool (playerID p) = Some p" using Cons.prems [of a p] by simp
      then show ?thesis using tail Some by (simp add: map_filter_simps)
    qed
  qed (simp add: map_filter_simps)
  then show ?thesis unfolding pinMap_def startersOf_def using assms by blast
qed

lemma current_pins:
  assumes "poolOK (liPool li)"
  shows "List.map_filter (liPool li) (map snd (pinMap (currentLineup env li st t week))) = startersOf (currentLineup env li st t week)"
proof (rule pins_starters)
  fix a p assume a: "a \<in> set (elSlots (currentLineup env li st t week))" "saPlayer a = Some p"
  have "p \<in> set (generalRoster (liPool li) st t)" by (rule current_occupant(1) [OF a(1) [unfolded currentLineup_def] a(2)])
  then show "liPool li (playerID p) = Some p" using generalRoster_mem assms by (metis poolOK_def)
qed

text \<open>The score of an open week, and of a closed one.\<close>

lemma open_score:
  "\<not> weekIsFinalInSchedule (seasonSchedule st) week \<Longrightarrow> teamWeekScore env li st source values t week =
    map_option (\<lambda>(ls, final). (scorePlayers (startersOf (currentLineup env li st t week)) ls values week t, final)) (weekStatsSnapshot source week)"
  by (simp add: teamWeekScore_def lineupStarters_def pinnedStarters_def)

lemma closed_score:
  "weekIsFinalInSchedule (seasonSchedule st) week \<Longrightarrow> teamWeekScore env li st source values t week =
    map_option (\<lambda>(ls, final). (scorePlayers (List.map_filter (liPool li) (map snd (storedLineupWeek st t week))) ls values week t, final))
      (weekStatsSnapshot source week)"
  by (simp add: teamWeekScore_def lineupStarters_def pinnedStarters_def)

lemma scored_matchups:
  assumes "scoreMatchups env ci st week ms = Some (ms', misses)"
  shows "list_all2 (\<lambda>m m'. \<exists>h a f g. teamWeekScore env (ciLineup ci) st (ciStats ci) (ciValues ci) (lmHome m) week = Some ((lmHomeScore m', h), f) \<and>
      teamWeekScore env (ciLineup ci) st (ciStats ci) (ciValues ci) (lmAway m) week = Some ((lmAwayScore m', a), g) \<and>
      lmHome m' = lmHome m \<and> lmAway m' = lmAway m \<and> lmFinal m') ms ms'"
  using assms
proof (induction ms arbitrary: ms' misses)
  case (Cons m ms)
  from Cons.prems obtain m1 miss ms1 misses1 where s: "scoreMatchup env ci st week m = Some (m1, miss)"
    "scoreMatchups env ci st week ms = Some (ms1, misses1)" "ms' = m1 # ms1" by (auto split: option.splits)
  have "\<exists>h a f g. teamWeekScore env (ciLineup ci) st (ciStats ci) (ciValues ci) (lmHome m) week = Some ((lmHomeScore m1, h), f) \<and>
      teamWeekScore env (ciLineup ci) st (ciStats ci) (ciValues ci) (lmAway m) week = Some ((lmAwayScore m1, a), g) \<and>
      lmHome m1 = lmHome m \<and> lmAway m1 = lmAway m \<and> lmFinal m1"
    using s(1) by (auto simp: scoreMatchup_def split: option.splits prod.splits)
  then show ?case using Cons.IH [OF s(2)] s(3) by simp
qed simp

lemma closed_state:
  assumes run: "closeWeek env ci st scorerView week now res s = (Inr (wk, misses), s')"
    and opened: "\<not> weekIsFinalInSchedule (seasonSchedule st) week" "\<not> weekIsFinalInSchedule (seasonSchedule (stState s)) week"
  obtains target ms sch where "scoreMatchups env ci scorerView week (swMatchups target) = Some (ms, misses)"
    "wk = target\<lparr>swMatchups := ms, swClosedAt := now\<rparr>" "swWeek wk = week"
    "seasonSchedule (stState s) = Some sch" "scheduleWeekByNumber sch week \<noteq> None"
    "stState s' = repairPhase (putPins week (closePins env ci st target week) (withWeek sch wk (stState s)))"
proof -
  from run obtain sch0 target where t: "seasonSchedule st = Some sch0" "scheduleWeekByNumber sch0 week = Some target"
    by (auto simp: closeWeek_def rejected_def split: option.splits)
  then have nf: "\<not> scheduleWeekIsFinal target" using opened(1) final_number by auto
  note run1 = run [unfolded closeWeek_def t option.case]
  obtain ms miss where m: "scoreMatchups env ci scorerView week (swMatchups target) = Some (ms, miss)"
    using run1 nf by (auto simp: rejected_def split: option.splits)
  let ?wk = "target\<lparr>swMatchups := ms, swClosedAt := now\<rparr>"
  have c: "andThen (setScheduleWeekWithLineups ?wk (closePins env ci st target week) res s) (?wk, miss) = (Inr (wk, misses), s')"
    using run1 nf m by (simp add: commitScheduleWeekClose_def Let_def)
  have "swWeek target = week" using t(2) by (auto simp: scheduleWeekByNumber_def find_Some_iff)
  then have num: "swWeek ?wk = week" by simp
  obtain e where e: "setScheduleWeekWithLineups ?wk (closePins env ci st target week) res s = (Inr e, s')" "wk = ?wk" "misses = miss"
    using c by (auto simp: andThen_def split: prod.splits sum.splits)
  from e(1) obtain sch old where o: "seasonSchedule (stState s) = Some sch" "scheduleWeekByNumber sch week = Some old"
    unfolding setScheduleWeekWithLineups_def num by (auto simp: gated_def rejected_def split: if_splits option.splits)
  then have "\<not> matchupsAllFinal (swMatchups old)" using opened(2) final_number by (auto simp: scheduleWeekIsFinal_def)
  then have "stState s' = repairPhase (putPins week (closePins env ci st target week) (withWeek sch ?wk (stState s)))"
    using e(1) o unfolding setScheduleWeekWithLineups_def num by (auto simp: gated_def commitDisposed_def split: if_splits persist_result.splits)
  then show thesis using that [of target ms sch] m e(2,3) num o by simp
qed

section \<open>The automatic close\<close>

lemma put_week_at:
  assumes "distinct (map swWeek ws)" "k < length ws" "swWeek wk = swWeek (ws ! k)"
  shows "putWeek wk ws = ws[k := wk]"
  using assms
proof (induction ws arbitrary: k)
  case (Cons w ws)
  show ?case
  proof (cases k)
    case (Suc j)
    then have "swWeek w \<noteq> swWeek wk" using Cons.prems by auto
    then show ?thesis using Cons Suc by simp
  qed (use Cons.prems in simp)
qed simp

lemma number_at:
  assumes "distinct (map swWeek (schWeeks sch))" "k < length (schWeeks sch)"
  shows "scheduleWeekByNumber sch (swWeek (schWeeks sch ! k)) = Some (schWeeks sch ! k)"
proof -
  have "find (\<lambda>x. swWeek x = swWeek (ws ! k)) ws = Some (ws ! k)" if "distinct (map swWeek ws)" "k < length ws" for ws :: "schedule_week list"
    using that by (subst find_Some_iff) (auto simp: distinct_conv_nth)
  then show ?thesis using assms by (simp add: scheduleWeekByNumber_def)
qed

lemma scored_final: "scoreMatchups env ci st week ms = Some (ms', misses) \<Longrightarrow> ms \<noteq> [] \<Longrightarrow> matchupsAllFinal ms'"
proof -
  assume a: "scoreMatchups env ci st week ms = Some (ms', misses)" "ms \<noteq> []"
  have l: "list_all2 (\<lambda>m m'. lmFinal m') ms ms'" by (rule list_all2_mono [OF scored_matchups [OF a(1)]]) blast
  then have "length ms' = length ms" "\<forall>i<length ms'. lmFinal (ms' ! i)" by (auto simp: list_all2_conv_all_nth)
  then show ?thesis using a(2) by (auto simp: matchupsAllFinal_def list_all_length)
qed

text \<open>One close on the state it reads: it fails and changes nothing, or the week is closed.\<close>

lemma close_own:
  assumes run: "closeWeek env ci (stState s) scorerView week now res s = (r, s')"
    and sch: "seasonSchedule (stState s) = Some sch" "scheduleWeekByNumber sch week = Some wk" "\<not> scheduleWeekIsFinal wk" "swMatchups wk \<noteq> []"
  shows "(\<exists>e. r = Inl e) \<and> s' = s \<or>
    (\<exists>wk'. swWeek wk' = week \<and> scheduleWeekIsFinal wk' \<and> seasonSchedule (stState s') = Some (sch\<lparr>schWeeks := putWeek wk' (schWeeks sch)\<rparr>))"
proof (cases "scoreMatchups env ci scorerView week (swMatchups wk)")
  case None
  then show ?thesis using run sch by (auto simp: closeWeek_def rejected_def)
next
  case (Some x)
  obtain ms misses where m: "scoreMatchups env ci scorerView week (swMatchups wk) = Some (ms, misses)" using Some by (cases x) auto
  let ?wk = "wk\<lparr>swMatchups := ms, swClosedAt := now\<rparr>"
  have num: "swWeek ?wk = week" using sch(2) by (auto simp: scheduleWeekByNumber_def find_Some_iff)
  have fin: "scheduleWeekIsFinal ?wk" using scored_final [OF m sch(4)] by (simp add: scheduleWeekIsFinal_def)
  have c: "andThen (setScheduleWeekWithLineups ?wk (closePins env ci (stState s) wk week) res s) (?wk, misses) = (r, s')"
    using run sch m by (simp add: closeWeek_def commitScheduleWeekClose_def Let_def)
  have e: "setScheduleWeekWithLineups ?wk (closePins env ci (stState s) wk week) res s =
      (if stWriteError s then (Inl Unhealthy, s)
       else commitDisposed res s (repairPhase (putPins week (closePins env ci (stState s) wk week) (withWeek sch ?wk (stState s)))) ())"
    using sch by (simp add: setScheduleWeekWithLineups_def num [simplified] gated_def scheduleWeekIsFinal_def)
  show ?thesis
  proof (cases "s' = s \<and> (\<exists>e. r = Inl e)")
    case False
    then have "stState s' = repairPhase (putPins week (closePins env ci (stState s) wk week) (withWeek sch ?wk (stState s)))"
      using c unfolding e by (auto simp: andThen_def commitDisposed_def split: if_splits persist_result.splits)
    then have "seasonSchedule (stState s') = Some (sch\<lparr>schWeeks := putWeek ?wk (schWeeks sch)\<rparr>)" by simp
    then show ?thesis using fin num by blast
  qed blast
qed

text \<open>Up to some position everything is final, from it on nothing has changed.\<close>

definition closedUpTo :: "schedule_week list \<Rightarrow> nat \<Rightarrow> store \<Rightarrow> bool" where
  "closedUpTo W k s \<longleftrightarrow> (\<exists>sch. seasonSchedule (stState s) = Some sch \<and> length (schWeeks sch) = length W \<and>
     map swWeek (schWeeks sch) = map swWeek W \<and> (\<forall>i<length W. if i < k then scheduleWeekIsFinal (schWeeks sch ! i) else schWeeks sch ! i = W ! i))"

lemma closed_next:
  assumes W: "distinct (map swWeek W)" and k: "k < length W" and up: "closedUpTo W k s" and wk: "\<not> scheduleWeekIsFinal (W ! k)" "swMatchups (W ! k) \<noteq> []"
    and run: "closeWeek env ci (stState s) scorerView (swWeek (W ! k)) now res s = (r, s')"
  shows "closedUpTo W (Suc k) s' \<or> (\<exists>e. r = Inl e) \<and> s' = s"
proof -
  obtain sch where sch: "seasonSchedule (stState s) = Some sch" "length (schWeeks sch) = length W" "map swWeek (schWeeks sch) = map swWeek W"
    and at: "\<And>i. i < length W \<Longrightarrow> if i < k then scheduleWeekIsFinal (schWeeks sch ! i) else schWeeks sch ! i = W ! i"
    using up by (auto simp: closedUpTo_def)
  have d: "distinct (map swWeek (schWeeks sch))" using W sch(3) by simp
  have kk: "schWeeks sch ! k = W ! k" using at [OF k] by simp
  have num: "scheduleWeekByNumber sch (swWeek (W ! k)) = Some (W ! k)" using number_at [OF d] k sch(2) kk by metis
  from close_own [OF run sch(1) num wk] show ?thesis
  proof
    assume "\<exists>wk'. swWeek wk' = swWeek (W ! k) \<and> scheduleWeekIsFinal wk' \<and>
      seasonSchedule (stState s') = Some (sch\<lparr>schWeeks := putWeek wk' (schWeeks sch)\<rparr>)"
    then obtain wk' where w: "swWeek wk' = swWeek (W ! k)" "scheduleWeekIsFinal wk'"
      "seasonSchedule (stState s') = Some (sch\<lparr>schWeeks := putWeek wk' (schWeeks sch)\<rparr>)" by blast
    have p: "putWeek wk' (schWeeks sch) = (schWeeks sch)[k := wk']"
      by (rule put_week_at [OF d]) (use k sch(2) kk w(1) in auto)
    have "map swWeek ((schWeeks sch)[k := wk']) = map swWeek W"
      using sch(3) w(1) by (simp add: map_update list_update_same_conv k)
    moreover have "\<forall>i<length W. if i < Suc k then scheduleWeekIsFinal ((schWeeks sch)[k := wk'] ! i) else (schWeeks sch)[k := wk'] ! i = W ! i"
    proof (intro allI impI)
      fix i assume "i < length W"
      then show "if i < Suc k then scheduleWeekIsFinal ((schWeeks sch)[k := wk'] ! i) else (schWeeks sch)[k := wk'] ! i = W ! i"
        using at [of i] w(2) sch(2) k by (cases "i = k") (auto split: if_splits)
    qed
    moreover define sch' where "sch' = sch\<lparr>schWeeks := (schWeeks sch)[k := wk']\<rparr>"
    moreover have "seasonSchedule (stState s') = Some sch'" "schWeeks sch' = (schWeeks sch)[k := wk']" using w(3) p by (simp_all add: sch'_def)
    ultimately have "closedUpTo W (Suc k) s'" unfolding closedUpTo_def using sch(2) by (metis length_list_update)
    then show ?thesis ..
  qed blast
qed

lemma auto_run:
  assumes "distinct (map swWeek W)" "\<forall>wk\<in>set W. swMatchups wk \<noteq> []"
  shows "k \<le> length W \<Longrightarrow> closedUpTo W k s \<Longrightarrow> \<exists>n. closedUpTo W n (autoCloseFrom env ci boxes statsAt location now res (drop k W) s)"
proof (induction "length W - k" arbitrary: k s)
  case 0
  then show ?case by auto
next
  case (Suc d)
  then have k: "k < length W" by simp
  have dr: "drop k W = W ! k # drop (Suc k) W" by (rule Cons_nth_drop_Suc [OF k, symmetric])
  have next1: "\<exists>n. closedUpTo W n (autoCloseFrom env ci boxes statsAt location now res (drop (Suc k) W) s1)" if "closedUpTo W (Suc k) s1" for s1
    by (rule Suc.hyps(1)) (use Suc.hyps(2) k that in simp_all)
  show ?case
  proof (cases "scheduleWeekIsFinal (W ! k)")
    case True
    then have "closedUpTo W (Suc k) s" using Suc.prems(2) unfolding closedUpTo_def by (auto simp: less_Suc_eq)
    then show ?thesis using next1 True unfolding dr by simp
  next
    case False
    obtain r s1 where run: "closeWeek env ci (stState s) (stState s) (swWeek (W ! k)) now (res (swWeek (W ! k))) s = (r, s1)" by fastforce
    have m: "swMatchups (W ! k) \<noteq> []" using assms(2) k by simp
    from closed_next [OF assms(1) k Suc.prems(2) False m run] have c: "closedUpTo W (Suc k) s1 \<or> (\<exists>e. r = Inl e) \<and> s1 = s" .
    have "autoCloseFrom env ci boxes statsAt location now res (drop k W) s =
      (if \<not> weekDue ci boxes statsAt location now (stState s) (swWeek (W ! k)) then s
       else case r of Inl e \<Rightarrow> s1 | Inr x \<Rightarrow> autoCloseFrom env ci boxes statsAt location now res (drop (Suc k) W) s1)"
      unfolding dr using False run by (simp split: sum.split)
    then show ?thesis using c next1 Suc.prems(2) by (cases r) (auto split: if_splits)
  qed
qed

end
