(* ===== verification/SeasonProps.thy ===== *)
theory SeasonProps
  imports SeasonLife
begin

text \<open>
  The properties of scoring and of closing weeks, with their witnesses on a league of two teams and one week.
\<close>

section \<open>A week of two teams\<close>

definition seasonMatchup :: league_matchup where
  "seasonMatchup = \<lparr>lmID = ''m1'', lmWeek = 1, lmHome = ''a'', lmAway = ''b'', lmHomeScore = 0, lmAwayScore = 0, lmFinal = False\<rparr>"

definition seasonWeek :: "int \<Rightarrow> schedule_week" where
  "seasonWeek w = \<lparr>swWeek = w, swMatchups = [seasonMatchup], swBye = [], swClosedAt = 0\<rparr>"

definition seasonOpen :: store where
  "seasonOpen = lineupStore\<lparr>stState := (stState lineupStore)\<lparr>seasonSchedule :=
     Some \<lparr>schSeason = 2026, schSeed = 1, schGeneratedAt = 0, schStartWeek = 1, schWeeks = [seasonWeek 1, seasonWeek 2]\<rparr>\<rparr>\<rparr>"

definition seasonStats :: "int \<Rightarrow> week_stat_line list" where
  "seasonStats w = [\<lparr>wsKey = ''r1|RB'', wsStats = [(''rushYards'', 100)], wsSource = ''ledger''\<rparr>,
     \<lparr>wsKey = ''w1|WR'', wsStats = [(''reception'', 4)], wsSource = ''ledger''\<rparr>]"

definition seasonClose :: close_input where
  "seasonClose = \<lparr>ciLineup = lineupAt 200, ciStats = Some seasonStats, ciValues = breakdownDefaultValues\<rparr>"

definition closeOne :: "store \<Rightarrow> (store, week_error, schedule_week \<times> join_miss list) outcome" where
  "closeOne s = closeWeek pairEnv seasonClose (stState s) (stState s) 1 500 Persisted s"

definition seasonClosed :: store where "seasonClosed = snd (closeOne seasonOpen)"

definition seasonLater :: store where
  "seasonLater = snd (setLineupSlot pairEnv ''a'' 2 ''RB'' ''r2'' True seasonClosed)"

definition closedWeek :: schedule_week where
  "closedWeek = (case fst (closeOne seasonOpen) of Inr x \<Rightarrow> fst x | Inl e \<Rightarrow> seasonWeek 1)"

lemma season_later: "(season_step pairEnv)\<^sup>*\<^sup>* seasonClosed seasonLater"
  unfolding seasonLater_def by (intro r_into_rtranclp season_step.slot) (rule prod.collapse [symmetric])

lemma season_close_run:
  obtains misses where "closeWeek pairEnv seasonClose (stState seasonOpen) (stState seasonOpen) 1 500 Persisted seasonOpen =
    (Inr (closedWeek, misses), seasonClosed)"
proof -
  have "case fst (closeOne seasonOpen) of Inr x \<Rightarrow> True | Inl e \<Rightarrow> False" by code_simp
  then obtain x where x: "fst (closeOne seasonOpen) = Inr x" by (auto split: sum.splits)
  then have "closeOne seasonOpen = (Inr (closedWeek, snd x), seasonClosed)"
    by (intro prod_eqI) (simp_all add: closedWeek_def seasonClosed_def)
  then show thesis using that by (simp add: closeOne_def)
qed

text \<open>The close is a moment of the league's life: the lineups of the closed league are sound too.\<close>

lemma season_life: "lineup_life pairEnv lineupPos [seasonClosed, seasonOpen, lineupStore]"
proof -
  obtain misses where run: "closeWeek pairEnv seasonClose (stState seasonOpen) (stState seasonOpen) 1 500 Persisted seasonOpen =
    (Inr (closedWeek, misses), seasonClosed)" by (rule season_close_run)
  have "lineup_life pairEnv lineupPos [seasonOpen, lineupStore]"
    by (rule life_other [OF lineup_start]) (simp add: seasonOpen_def)
  then show ?thesis
    by (rule life_close [OF _ _ _ run]) (use lineup_pool_fits in \<open>simp_all add: seasonClose_def lineupAt_def\<close>)
qed

section \<open>Closed weeks\<close>

text \<open>
  C10: A closed week is frozen for the rest of the season. Once every matchup of a week is final, then whatever
  lineup actions and further closes run afterwards, in any order and on views of any age, and whatever schedule
  the commissioner asks to generate or regenerate, as long as that request is checked on the current state and
  neither a reset nor a trim of seats withdraws the schedule, the week keeps its matchups, scores and closing
  time to the last field, and no team's stored lineup of that week changes.
\<close>

theorem closed_week_frozen:
  assumes "(season_step env)\<^sup>*\<^sup>* s s'" "seasonSchedule (stState s) = Some sch" "scheduleWeekByNumber sch w = Some wk" "scheduleWeekIsFinal wk"
  shows "(\<exists>sch'. seasonSchedule (stState s') = Some sch' \<and> scheduleWeekByNumber sch' w = Some wk) \<and>
    (\<forall>t. lineups (stState s') t w = lineups (stState s) t w)"
  using run_kept [OF assms(1), of w] assms(2-4) unfolding weekKept_def by blast

theorem closed_week_frozen_witness:
  "lineups (stState seasonLater) ''a'' 1 = lineups (stState seasonClosed) ''a'' 1 \<and> lineups (stState seasonLater) ''a'' 2 \<noteq> None \<and>
   (\<exists>sch. seasonSchedule (stState seasonLater) = Some sch \<and> scheduleWeekByNumber sch 1 = Some closedWeek)"
proof -
  have "seasonSchedule (stState seasonClosed) \<noteq> None" by code_simp
  then obtain sch where sch: "seasonSchedule (stState seasonClosed) = Some sch" by blast
  then have "the (seasonSchedule (stState seasonClosed)) = sch" by simp
  moreover have "scheduleWeekByNumber (the (seasonSchedule (stState seasonClosed))) 1 = Some closedWeek" by code_simp
  ultimately have wk: "scheduleWeekByNumber sch 1 = Some closedWeek" by simp
  have fin: "scheduleWeekIsFinal closedWeek" by code_simp
  have "lineups (stState seasonLater) ''a'' 2 \<noteq> None" by code_simp
  then show ?thesis using closed_week_frozen [OF season_later sch wk fin] by blast
qed

text \<open>
  C11: The scores of a closed week are the scores of its pins. When a close reads one state throughout and
  succeeds, then at any later moment, after any trades, drops, lineup edits and further closes, counting either
  side of any of its matchups again from the pinned players with the same stats and rules gives the stored score.
\<close>

theorem closed_scores_recount:
  assumes "closeWeek env ci st st week now res s = (Inr (wk, misses), s')"
    and "\<not> weekIsFinalInSchedule (seasonSchedule st) week" "\<not> weekIsFinalInSchedule (seasonSchedule (stState s)) week"
    and "(season_step env)\<^sup>*\<^sup>* s' s''" "m \<in> set (swMatchups wk)" "poolOK (liPool (ciLineup ci))" "liPool li = liPool (ciLineup ci)"
  shows "map_option (fst \<circ> fst) (teamWeekScore env li (stState s'') (ciStats ci) (ciValues ci) (lmHome m) week) = Some (lmHomeScore m) \<and>
    map_option (fst \<circ> fst) (teamWeekScore env li (stState s'') (ciStats ci) (ciValues ci) (lmAway m) week) = Some (lmAwayScore m)"
proof -
  obtain target ms sch where c: "scoreMatchups env ci st week (swMatchups target) = Some (ms, misses)"
    "wk = target\<lparr>swMatchups := ms, swClosedAt := now\<rparr>" "swWeek wk = week" "seasonSchedule (stState s) = Some sch"
    "scheduleWeekByNumber sch week \<noteq> None"
    "stState s' = repairPhase (putPins week (closePins env ci st target week) (withWeek sch wk (stState s)))"
    by (rule closed_state [OF assms(1-3)])
  have "swMatchups target \<noteq> []" using list_all2_lengthD [OF scored_matchups [OF c(1)]] assms(5) by (auto simp: c(2))
  then have fin: "scheduleWeekIsFinal wk" using scored_final [OF c(1)] by (simp add: c(2) scheduleWeekIsFinal_def)
  have sch1: "seasonSchedule (stState s') = Some (sch\<lparr>schWeeks := putWeek wk (schWeeks sch)\<rparr>)" by (simp add: c(6))
  have num1: "scheduleWeekByNumber (sch\<lparr>schWeeks := putWeek wk (schWeeks sch)\<rparr>) week = Some wk" using c(3,5) by (simp add: put_week_number)
  have kept: "(\<exists>sch'. seasonSchedule (stState s'') = Some sch' \<and> scheduleWeekByNumber sch' week = Some wk)"
    "\<And>t. lineups (stState s'') t week = lineups (stState s') t week"
    using run_kept [OF assms(4), of week] sch1 num1 fin unfolding weekKept_def by blast+
  have closed: "weekIsFinalInSchedule (seasonSchedule (stState s'')) week" using kept(1) fin final_number by auto
  have again: "map_option (fst \<circ> fst) (teamWeekScore env li (stState s'') (ciStats ci) (ciValues ci) t week) = Some x"
    if t: "t \<in> set (weekTeams target)" and x: "teamWeekScore env (ciLineup ci) st (ciStats ci) (ciValues ci) t week = Some ((x, h), f)" for t x h f
  proof -
    have "(t, pinMap (currentLineup env (ciLineup ci) st t week)) \<in> set (closePins env ci st target week)"
      using t by (simp add: closePins_def)
    moreover have "distinct (map fst (closePins env ci st target week))" by (simp add: closePins_def comp_def weekTeams_def)
    ultimately have "lineups (stState s'') t week = Some (pinMap (currentLineup env (ciLineup ci) st t week))"
      unfolding kept(2) using putPins_at by (simp add: c(6))
    then have "List.map_filter (liPool li) (map snd (storedLineupWeek (stState s'') t week)) = startersOf (currentLineup env (ciLineup ci) st t week)"
      using current_pins [OF assms(6)] by (simp add: storedLineupWeek_def assms(7))
    then show ?thesis using x open_score [OF assms(2), of env "ciLineup ci"] closed_score [OF closed, of env li]
      by (auto simp: option.map_comp comp_def split: prod.splits)
  qed
  obtain k where k: "k < length ms" "m = ms ! k" using assms(5) by (auto simp: c(2) in_set_conv_nth)
  note at = list_all2_nthD2 [OF scored_matchups [OF c(1)] k(1)]
  have "swMatchups target ! k \<in> set (swMatchups target)" using k(1) list_all2_lengthD [OF scored_matchups [OF c(1)]] by simp
  then have "lmHome m \<in> set (weekTeams target)" "lmAway m \<in> set (weekTeams target)" using at k(2) by (auto simp: weekTeams_def)
  then show ?thesis using at again unfolding k(2) by metis
qed

theorem closed_scores_recount_witness:
  "map_option (fst \<circ> fst) (teamWeekScore pairEnv (lineupAt 900) (stState seasonLater) (Some seasonStats) breakdownDefaultValues ''a'' 1) = Some 12 \<and>
   map_option (fst \<circ> fst) (teamWeekScore pairEnv (lineupAt 900) (stState seasonLater) (Some seasonStats) breakdownDefaultValues ''b'' 1) = Some 0"
proof -
  obtain misses where run: "closeWeek pairEnv seasonClose (stState seasonOpen) (stState seasonOpen) 1 500 Persisted seasonOpen =
    (Inr (closedWeek, misses), seasonClosed)" by (rule season_close_run)
  have open1: "\<not> weekIsFinalInSchedule (seasonSchedule (stState seasonOpen)) 1" by code_simp
  define m where "m = hd (swMatchups closedWeek)"
  have "swMatchups closedWeek \<noteq> []" by code_simp
  then have mem: "m \<in> set (swMatchups closedWeek)" by (simp add: m_def)
  have "lmHome m = ''a'' \<and> lmAway m = ''b'' \<and> lmHomeScore m = 12 \<and> lmAwayScore m = 0" unfolding m_def by code_simp
  moreover have "poolOK (liPool (ciLineup seasonClose))" using lineup_pool_ok by (simp add: seasonClose_def lineupAt_def)
  ultimately show ?thesis
    using closed_scores_recount [OF run open1 open1 season_later mem, of "lineupAt 900"] by (simp add: seasonClose_def lineupAt_def)
qed

text \<open>
  closeWeek takes the pins from one snapshot and the scores from a second one. A lineup edit that commits in
  between is scored but not pinned, and the stored score of the closed week is not the score of its pins.
\<close>

definition seasonEdited :: store where
  "seasonEdited = snd (setLineupSlot pairEnv ''a'' 1 ''RB'' ''r2'' True seasonOpen)"

definition mixedClose :: "(store, week_error, schedule_week \<times> join_miss list) outcome" where
  "mixedClose = closeWeek pairEnv seasonClose (stState seasonOpen) (stState seasonEdited) 1 500 Persisted seasonEdited"

lemma late_edit_scored_not_pinned:
  "(case fst mixedClose of Inr x \<Rightarrow> map lmHomeScore (swMatchups (fst x)) | Inl e \<Rightarrow> []) = [2] \<and>
   map_option (fst \<circ> fst) (teamWeekScore pairEnv (lineupAt 900) (stState (snd mixedClose)) (Some seasonStats) breakdownDefaultValues ''a'' 1) = Some 12"
  by code_simp

text \<open>
  AdminRegenerateSchedule checks for scored matchups on a snapshot, Store.SetSchedule does not check again: a
  close that commits in between is overwritten and its week is open again. So closed_week_frozen assumes a check
  on the current state.
\<close>

lemma stale_regeneration_reopens_week:
  "weekIsFinalInSchedule (seasonSchedule (stState seasonClosed)) 1 \<and>
   \<not> weekIsFinalInSchedule (seasonSchedule (stState (snd (adminRegenerateSchedule True (\<lambda>a b c. 0) 7 2026 (map sampleTeam [''a'', ''b'', ''c'', ''d''])
       (stState seasonOpen) 1000 0 0 600 True seasonClosed)))) 1"
  by (intro conjI) code_simp+

text \<open>
  C29: The ticker closes weeks in order. Whatever it finds due, if an automatic run closes a week that was open,
  then afterwards every week before it in the schedule is closed too.
\<close>

theorem weeks_close_in_order:
  assumes "seasonSchedule (stState s) = Some sch" "distinct (map swWeek (schWeeks sch))" "\<forall>wk\<in>set (schWeeks sch). swMatchups wk \<noteq> []"
    and "s' = evalWeekAutoClose env ci boxes statsAt location now res s"
    and "i < j" "j < length (schWeeks sch)" "\<not> scheduleWeekIsFinal (schWeeks sch ! j)"
    and "seasonSchedule (stState s') = Some sch'" "scheduleWeekIsFinal (schWeeks sch' ! j)"
  shows "scheduleWeekIsFinal (schWeeks sch' ! i)"
proof -
  have "closedUpTo (schWeeks sch) 0 s" using assms(1) by (simp add: closedUpTo_def)
  then obtain n where n: "closedUpTo (schWeeks sch) n s'"
    using auto_run [OF assms(2,3), of 0 s env ci boxes statsAt location now res] assms(1,4) by (auto simp: evalWeekAutoClose_def)
  then have "j < n" using assms(6-9) by (auto simp: closedUpTo_def split: if_splits)
  then show ?thesis using n assms(5,6,8) by (auto simp: closedUpTo_def)
qed

text \<open>Two weeks whose turns have long passed: one run closes both.\<close>

definition seasonTick :: store where
  "seasonTick = evalWeekAutoClose pairEnv
     (seasonClose\<lparr>ciLineup := (lineupAt 200)\<lparr>liGames := lineupGames @
        [\<lparr>gameID = ''next'', gameWeek = 2, gameKickoff = 8 * dayLength, gameAway = ''DEN'', gameHome = ''KC'', gameFinal = False\<rparr>]\<rparr>\<rparr>)
     (\<lambda>a b c. None) (90 * dayLength) None (91 * dayLength) (\<lambda>w. Persisted) seasonOpen"

theorem weeks_close_in_order_witness:
  "\<exists>sch. seasonSchedule (stState seasonTick) = Some sch \<and> scheduleWeekIsFinal (schWeeks sch ! 1) \<and> scheduleWeekIsFinal (schWeeks sch ! 0)"
proof -
  have "seasonSchedule (stState seasonOpen) \<noteq> None" "seasonSchedule (stState seasonTick) \<noteq> None" by code_simp+
  then obtain sch sch' where sch: "seasonSchedule (stState seasonOpen) = Some sch" "seasonSchedule (stState seasonTick) = Some sch'" by blast
  then have the: "the (seasonSchedule (stState seasonOpen)) = sch" "the (seasonSchedule (stState seasonTick)) = sch'" by simp_all
  have "distinct (map swWeek (schWeeks (the (seasonSchedule (stState seasonOpen)))))"
    "list_all (\<lambda>wk. swMatchups wk \<noteq> []) (schWeeks (the (seasonSchedule (stState seasonOpen))))"
    "1 < length (schWeeks (the (seasonSchedule (stState seasonOpen))))"
    "\<not> scheduleWeekIsFinal (schWeeks (the (seasonSchedule (stState seasonOpen))) ! 1)" by code_simp+
  note f = this [unfolded the list_all_iff]
  have l: "scheduleWeekIsFinal (schWeeks (the (seasonSchedule (stState seasonTick))) ! 1)" by code_simp
  show ?thesis
    using weeks_close_in_order [OF sch(1) f(1,2) seasonTick_def _ f(3,4) sch(2) l [unfolded the], of 0] l [unfolded the] sch(2) by simp
qed

end
