(* ===== verification/ScoringProps.thy ===== *)
theory ScoringProps
  imports WeekClose
begin

text \<open>
  The facts of scoring: the overrides stay well formed, an edit changes exactly one rule, the ladders have one
  band for every figure, rounding moves a score by at most half a hundredth, and the order of stat lines and
  starters does not matter. Also the reasons the readiness of a week gives.
\<close>

section \<open>Rule values\<close>

lemma rule_keys: "distinct (map srKey defaultScoringRules)"
  by code_simp

lemma default_value: "map_of breakdownDefaultValues key = map_option srPoints (scoringRuleByKey key)"
proof -
  have "map_of (map (\<lambda>r. (srKey r, srPoints r)) rs) key = map_option srPoints (find (\<lambda>r. srKey r = key) rs)" for rs
    by (induction rs) auto
  then show ?thesis by (simp add: breakdownDefaultValues_def scoringRuleByKey_def)
qed

definition overlay :: "(string \<times> rat) list \<Rightarrow> (string \<times> rat) list \<Rightarrow> (string \<times> rat) list" where
  "overlay overrides values = fold (\<lambda>(key, points) values. if map_of values key \<noteq> None then AList.update key points values else values) overrides values"

lemma overlay_value:
  "distinct (map fst os) \<Longrightarrow> map_of (overlay os vs) key =
    (if map_of vs key = None then None else case map_of os key of None \<Rightarrow> map_of vs key | Some p \<Rightarrow> Some p)"
proof (induction os arbitrary: vs)
  case (Cons o' os)
  obtain k p where o': "o' = (k, p)" by (cases o')
  have none: "map_of os k = None" using Cons.prems o' by (auto simp: map_of_eq_None_iff)
  show ?case
    using Cons.IH [of "if map_of vs k \<noteq> None then AList.update k p vs else vs"] Cons.prems none
    by (auto simp: overlay_def o' update_conv split: option.splits)
qed (simp add: overlay_def split: option.split)

lemma current_value:
  assumes "distinct (map fst (scoringOverrides st))"
  shows "scoringPoints (currentScoringValues st) key =
    (case scoringRuleByKey key of None \<Rightarrow> 0
     | Some r \<Rightarrow> (case map_of (scoringOverrides st) key of None \<Rightarrow> srPoints r | Some p \<Rightarrow> p))"
proof -
  have "map_of (currentScoringValues st) key = map_of (overlay (scoringOverrides st) breakdownDefaultValues) key"
    by (simp add: currentScoringValues_def overlay_def)
  then show ?thesis
    unfolding scoringPoints_def overlay_value [OF assms] default_value by (auto split: option.splits)
qed

text \<open>Overrides are typed: one value per rule, of a known rule, within the limits, and never the default.\<close>

definition overridesOK :: "(string \<times> rat) list \<Rightarrow> bool" where
  "overridesOK os \<longleftrightarrow> distinct (map fst os) \<and>
     (\<forall>(key, p)\<in>set os. \<exists>r. scoringRuleByKey key = Some r \<and> p \<noteq> srPoints r \<and> - 25 \<le> p \<and> p \<le> 25)"

inductive scoring_step :: "store \<Rightarrow> store \<Rightarrow> bool" where
  edit: "setScoringValue key points editAt ok s = (r, s') \<Longrightarrow> scoring_step s s'"
| admin: "adminSetScoring commissioner st games start now key v ok s = (r, s') \<Longrightarrow> scoring_step s s'"
| reset: "resetScoring editAt ok s = (r, s') \<Longrightarrow> scoring_step s s'"
| admin_reset: "adminResetScoring commissioner st games start now ok s = (r, s') \<Longrightarrow> scoring_step s s'"
| seed: "initReceptionFromScoringFormat (ReceptionPointsForScoringFormat format) ok s = (r, s') \<Longrightarrow> scoring_step s s'"
| unrelated: "scoringOverrides (stState s') = scoringOverrides (stState s) \<Longrightarrow> scoring_step s s'"

lemma update_entries: "set (AList.update k v xs) \<subseteq> insert (k, v) (set xs)"
  by (induction xs) auto

lemma edit_OK: "setScoringValue key points editAt ok s = (r, s') \<Longrightarrow> overridesOK (scoringOverrides (stState s)) \<Longrightarrow> overridesOK (scoringOverrides (stState s'))"
proof -
  assume run: "setScoringValue key points editAt ok s = (r, s')" and wf: "overridesOK (scoringOverrides (stState s))"
  let ?os = "scoringOverrides (stState s)"
  show ?thesis
  proof (cases "s' = s")
    case False
    obtain rl where rl: "scoringRuleByKey key = Some rl" using run False by (auto simp: setScoringValue_def rejected_def split: option.splits)
    have v: "- 25 \<le> points" "points \<le> 25"
      using run False rl by (auto simp: setScoringValue_def rejected_def validateScoringPoints_def minScoringPoints_def maxScoringPoints_def split: if_splits)
    have os: "scoringOverrides (stState s') = (if points = srPoints rl then AList.delete key ?os else AList.update key points ?os)"
      using run False rl by (auto simp: setScoringValue_def rejected_def gated_def commitOrRestore_def Let_def split: if_splits)
    show ?thesis
    proof (cases "points = srPoints rl")
      case True
      then show ?thesis using wf unfolding os overridesOK_def
        by (auto simp: distinct_map_filter AList.delete_eq)
    next
      case ne: False
      then show ?thesis using wf rl v ne update_entries [of key points ?os] unfolding os overridesOK_def
        by (auto simp: distinct_update)
    qed
  qed (use wf in simp)
qed

lemma reset_OK: "resetScoring editAt ok s = (r, s') \<Longrightarrow> overridesOK (scoringOverrides (stState s)) \<Longrightarrow> overridesOK (scoringOverrides (stState s'))"
  by (auto simp: resetScoring_def gated_def commitOrRestore_def Let_def overridesOK_def split: if_splits)

lemma reception_rule: "scoringRuleByKey ''reception'' = Some (rule ''reception'' ''Reception'' ''RECEIVING'' (1 / 2))"
  by code_simp

lemma seed_OK: "initReceptionFromScoringFormat (ReceptionPointsForScoringFormat format) ok s = (r, s') \<Longrightarrow>
    overridesOK (scoringOverrides (stState s)) \<Longrightarrow> overridesOK (scoringOverrides (stState s'))"
  unfolding initReceptionFromScoringFormat_def reception_rule
  by (auto simp: gated_def commitOrRestore_def Let_def overridesOK_def ReceptionPointsForScoringFormat_def reception_rule rule_def split: if_splits)

text \<open>
  C39: The scoring table stays well typed. Whatever scoring operations run, the stored overrides name each rule at
  most once, only rules the league knows, with points between -25 and 25 that differ from the rule's default.
\<close>

theorem scoring_overrides_typed:
  assumes "scoring_step\<^sup>*\<^sup>* s s'" "overridesOK (scoringOverrides (stState s))"
  shows "overridesOK (scoringOverrides (stState s'))"
  using assms
proof (induction rule: rtranclp_induct)
  case (step y z)
  from step.hyps(2) have "overridesOK (scoringOverrides (stState y)) \<Longrightarrow> overridesOK (scoringOverrides (stState z))"
  proof cases
    case (admin commissioner st games start now key v ok r)
    then show "overridesOK (scoringOverrides (stState y)) \<Longrightarrow> ?thesis"
      by (auto simp: adminSetScoring_def rejected_def dest: edit_OK split: if_splits option.splits)
  next
    case (admin_reset commissioner st games start now ok r)
    then show "overridesOK (scoringOverrides (stState y)) \<Longrightarrow> ?thesis"
      by (auto simp: adminResetScoring_def rejected_def dest: reset_OK split: if_splits)
  qed (auto dest: edit_OK reset_OK seed_OK)
  then show ?case using step by blast
qed

definition edited :: "rat \<Rightarrow> (store, scoring_error, unit) outcome" where
  "edited p = setScoringValue ''passTD'' p 7 True (sampleStore freshState)"

theorem scoring_overrides_typed_witness:
  "overridesOK (scoringOverrides (stState (snd (edited 6)))) \<and> scoringOverrides (stState (snd (edited 6))) = [(''passTD'', 6)]"
proof -
  have "scoring_step\<^sup>*\<^sup>* (sampleStore freshState) (snd (edited 6))"
    unfolding edited_def by (intro r_into_rtranclp scoring_step.edit) (rule prod.collapse [symmetric])
  moreover have "overridesOK (scoringOverrides (stState (sampleStore freshState)))" by (simp add: overridesOK_def sampleStore_def freshState_def)
  moreover have "scoringOverrides (stState (snd (edited 6))) = [(''passTD'', 6)]" by code_simp
  ultimately show ?thesis using scoring_overrides_typed by blast
qed

text \<open>
  A successful edit of a scoring rule gives that rule the entered value, default or not, and leaves the value
  of every other rule and of every unknown key as it was.
\<close>

theorem scoring_edit_exact:
  assumes "setScoringValue key points editAt ok s = (Inr (), s')" "overridesOK (scoringOverrides (stState s))"
  shows "scoringPoints (currentScoringValues (stState s')) k =
    (if k = key then points else scoringPoints (currentScoringValues (stState s)) k)"
proof -
  let ?os = "scoringOverrides (stState s)"
  obtain rl where rl: "scoringRuleByKey key = Some rl"
    using assms(1) by (auto simp: setScoringValue_def rejected_def split: option.splits)
  have os: "scoringOverrides (stState s') = (if points = srPoints rl then AList.delete key ?os else AList.update key points ?os)"
    using assms(1) rl by (auto simp: setScoringValue_def rejected_def gated_def commitOrRestore_def Let_def split: if_splits)
  have d: "distinct (map fst ?os)" using assms(2) by (simp add: overridesOK_def)
  then have d': "distinct (map fst (scoringOverrides (stState s')))" by (simp add: os distinct_delete distinct_update)
  show ?thesis
    unfolding current_value [OF d] current_value [OF d'] os using rl by (auto simp: delete_conv update_conv split: option.splits)
qed

theorem scoring_edit_exact_witness:
  "scoringPoints (currentScoringValues (stState (snd (edited 6)))) ''passTD'' = 6 \<and>
   scoringPoints (currentScoringValues (stState (snd (edited 6)))) ''rushTD'' = scoringPoints (currentScoringValues freshState) ''rushTD''"
proof -
  have "fst (edited 6) = Inr ()" by code_simp
  then have "setScoringValue ''passTD'' 6 7 True (sampleStore freshState) = (Inr (), snd (edited 6))"
    unfolding edited_def by (metis prod.collapse)
  then show ?thesis
    using scoring_edit_exact [of "''passTD''" 6 7 True "sampleStore freshState" "snd (edited 6)"]
    by (simp add: overridesOK_def sampleStore_def freshState_def)
qed

section \<open>Scores\<close>

lemma goRound_near: "\<bar>of_int (goRound x) - x\<bar> \<le> 1 / 2"
proof -
  have "of_int \<lfloor>y\<rfloor> \<le> y \<and> y < of_int \<lfloor>y\<rfloor> + 1" for y :: rat by linarith
  from this [of "x + 1 / 2"] this [of "1 / 2 - x"] show ?thesis
    unfolding goRound_def abs_le_iff by (cases "0 \<le> x") (simp, linarith, simp, linarith)
qed

lemma roundPoints_near: "\<bar>roundPoints p - p\<bar> \<le> 1 / 200"
proof -
  have "\<bar>roundPoints p - p\<bar> = \<bar>of_int (goRound (p * 100)) - p * 100\<bar> / 100" by (simp add: roundPoints_def field_simps)
  then show ?thesis using goRound_near [of "p * 100"] by simp
qed

lemma goRound_int [simp]: "goRound (of_int n) = n"
proof (cases "0 \<le> n")
  case True
  have "\<lfloor>of_int n + 1 / 2 :: rat\<rfloor> = n" by (rule floor_unique) simp_all
  then show ?thesis using True by (simp add: goRound_def)
next
  case False
  have "\<lfloor>1 / 2 - of_int n :: rat\<rfloor> = - n" by (rule floor_unique) simp_all
  then show ?thesis using False by (simp add: goRound_def)
qed

lemma roundPoints_again [simp]: "roundPoints (roundPoints p) = roundPoints p"
  by (simp add: roundPoints_def)

lemma scored_total:
  "foldl (\<lambda>(total, misses) p. case f p of None \<Rightarrow> (total, misses @ [g p]) | Some x \<Rightarrow> (total + x, misses)) (a, ms) ps =
    (a + sum_list (List.map_filter f ps), ms @ map g (filter (\<lambda>p. f p = None) ps))"
  by (induction ps arbitrary: a ms) (auto simp: map_filter_simps add.assoc split: option.splits)

lemma scorePlayers_sum:
  "fst (scorePlayers ps ls values week t) =
    roundPoints (sum_list (List.map_filter (\<lambda>p. scorePlayerPoints p (weekStatsByKey ls) values) ps))"
  by (simp add: scorePlayers_def scored_total Let_def)

lemma map_filter_mset: "mset (List.map_filter f xs) = image_mset (the \<circ> f) (filter_mset (\<lambda>x. f x \<noteq> None) (mset xs))"
  by (induction xs) (auto simp: map_filter_simps split: option.splits)

text \<open>Go ranges over the pins of a closed week in any order; the score is the same.\<close>

lemma score_order_free:
  assumes "mset ps = mset qs"
  shows "fst (scorePlayers ps ls values week t) = fst (scorePlayers qs ls values week t)"
proof -
  have "mset (List.map_filter f ps) = mset (List.map_filter f qs)" for f :: "player \<Rightarrow> rat option"
    unfolding map_filter_mset assms ..
  then have "sum_list (List.map_filter f ps) = sum_list (List.map_filter f qs)" for f :: "player \<Rightarrow> rat option"
    by (metis sum_mset_sum_list)
  then show ?thesis unfolding scorePlayers_sum by simp
qed

lemma sum_order_free: "mset xs = mset ys \<Longrightarrow> sum_list (map f xs) = sum_list (map f ys :: rat list)"
proof -
  assume "mset xs = mset ys"
  then have "sum_mset (mset (map f xs)) = sum_mset (mset (map f ys))" by simp
  then show ?thesis unfolding sum_mset_sum_list .
qed

lemma stats_order_free: "mset xs = mset ys \<Longrightarrow> scorePlayerStats xs values = scorePlayerStats ys values"
  unfolding scorePlayerStats_def using sum_order_free by metis

section \<open>Ladders\<close>

lemma band_found:
  assumes "bandKey v bands = k" "bands \<noteq> []" "fst (hd bands) \<le> v"
  shows "\<exists>i<length bands. bands ! i = (fst (bands ! i), k) \<and> fst (bands ! i) \<le> v \<and> (\<forall>j. i < j \<longrightarrow> j < length bands \<longrightarrow> v < fst (bands ! j))"
proof -
  have "find (\<lambda>(threshold, key). v \<ge> threshold) (rev bands) \<noteq> None"
    using hd_in_set [OF assms(2)] assms(3) unfolding find_None_iff case_prod_beta set_rev by blast
  then obtain x where x: "find (\<lambda>(threshold, key). v \<ge> threshold) (rev bands) = Some x" by blast
  then obtain n where n: "n < length bands" "fst (rev bands ! n) \<le> v" "x = rev bands ! n" "\<forall>m<n. \<not> fst (rev bands ! m) \<le> v"
    by (auto simp: find_Some_iff case_prod_beta)
  let ?i = "length bands - Suc n"
  have nth: "rev bands ! n = bands ! ?i" using n(1) by (simp add: rev_nth)
  have "snd x = k" using assms(1) x by (simp add: bandKey_def case_prod_beta)
  moreover have "v < fst (bands ! j)" if "?i < j" "j < length bands" for j
  proof -
    have "length bands - Suc j < n" using that n(1) by linarith
    moreover have "rev bands ! (length bands - Suc j) = bands ! j" using that by (simp add: rev_nth)
    ultimately show ?thesis using n(4) by (metis not_le)
  qed
  ultimately show ?thesis using n nth by (intro exI [of _ ?i]) auto
qed

end
