(* ===== verification/Seats.thy ===== *)
theory Seats
  imports Playoffs DraftRoom "HOL-Library.AList"
begin

text \<open>
  Seats and boards: who holds a team (src/internal/league/store.go, the member, invite and co-manager mutators, and
  the Service actions around them in service.go), the identity resolver (src/internal/identity), the ranked draft
  boards (store.go) and the confirmation tokens of seats (confirmations.go). SHA-256 in hexadecimal, the JSON form
  of a schedule and net/mail's address parser are parameters. An email is an ASCII string. A map is an association
  list in the order of its iteration.
\<close>

section \<open>Identities\<close>

type_synonym resolver = "(string \<times> string) list"

definition normalizeEmail :: "string \<Rightarrow> string" where
  "normalizeEmail email = toLower (trimSpace email)"

datatype identity_error = EmptyIdentity string | NotBareEmail string string | AliasOfItself string
  | AliasConflict string string string | AliasChain string string

definition validateEmail :: "(string \<Rightarrow> string option) \<Rightarrow> string \<Rightarrow> string \<Rightarrow> identity_error option" where
  "validateEmail parse v label =
     (if v = [] then Some (EmptyIdentity label)
      else if parse v \<noteq> Some v \<or> char_of (13::nat) \<in> set v \<or> char_of (10::nat) \<in> set v then Some (NotBareEmail label v)
      else if CHR ''@'' \<notin> set v then Some (NotBareEmail label v)
      else None)"

fun addAliases :: "(string \<Rightarrow> string option) \<Rightarrow> resolver \<Rightarrow> (string \<times> string) list \<Rightarrow> identity_error + resolver" where
  "addAliases parse aliases [] = Inr aliases"
| "addAliases parse aliases ((rawAlias, rawCanonical) # mappings) =
     (let alias = normalizeEmail rawAlias; canonical = normalizeEmail rawCanonical in
      case validateEmail parse alias ''alias'' of Some e \<Rightarrow> Inl e | None \<Rightarrow>
      (case validateEmail parse canonical ''canonical identity'' of Some e \<Rightarrow> Inl e | None \<Rightarrow>
       if alias = canonical then Inl (AliasOfItself alias)
       else (case map_of aliases alias of
          Some previous \<Rightarrow> if previous \<noteq> canonical then Inl (AliasConflict alias previous canonical) else addAliases parse aliases mappings
        | None \<Rightarrow> addAliases parse ((alias, canonical) # aliases) mappings)))"

definition newResolver :: "(string \<Rightarrow> string option) \<Rightarrow> (string \<times> string) list \<Rightarrow> identity_error + resolver" where
  "newResolver parse mappings =
     (case addAliases parse [] mappings of Inl e \<Rightarrow> Inl e
      | Inr aliases \<Rightarrow>
          (case find (\<lambda>(alias, canonical). map_of aliases canonical \<noteq> None) aliases of
             Some (alias, canonical) \<Rightarrow> Inl (AliasChain alias canonical) | None \<Rightarrow> Inr aliases))"

definition resolve :: "resolver \<Rightarrow> string \<Rightarrow> string" where
  "resolve aliases email = (let normalized = normalizeEmail email
     in case map_of aliases normalized of Some canonical \<Rightarrow> canonical | None \<Rightarrow> normalized)"

definition admissionEmail :: "string \<Rightarrow> string" where
  "admissionEmail email = toLower (trimSpace email)"

definition validAddress :: "string \<Rightarrow> bool" where
  "validAddress email \<longleftrightarrow> email \<noteq> [] \<and> CHR ''@'' \<in> set email"

section \<open>Boards\<close>

definition boardLimit :: nat where "boardLimit = 100"

definition boardOf :: "(string \<times> player_id list) list \<Rightarrow> string \<Rightarrow> player_id list" where
  "boardOf bs owner = (case map_of bs owner of None \<Rightarrow> [] | Some b \<Rightarrow> b)"

fun mergeInto :: "player_id list \<Rightarrow> player_id list \<Rightarrow> player_id list option" where
  "mergeInto merged [] = Some merged"
| "mergeInto merged (p # ps) =
     (if p \<in> set merged then mergeInto merged ps
      else if length (merged @ [p]) > boardLimit then None
      else mergeInto (merged @ [p]) ps)"

definition mergeUniqueBoardOrders :: "player_id list list \<Rightarrow> player_id list option" where
  "mergeUniqueBoardOrders orders = mergeInto [] (concat orders)"

definition seatBoardEscrowKey :: "team_id \<Rightarrow> string" where
  "seatBoardEscrowKey t = ''seat:'' @ toLower (trimSpace t)"

datatype board_error = BoardOwnerRequired | BoardIsFull | NotOnBoard

definition boardAdd :: "resolver \<Rightarrow> string \<Rightarrow> player_id \<Rightarrow> bool \<Rightarrow> store \<Rightarrow> (store, board_error, unit) outcome" where
  "boardAdd as owner0 p ok s =
     (let owner = resolve as owner0; st = stState s; board = boardOf (boards st) owner in
      if owner = [] \<or> p = [] then rejected BoardOwnerRequired s
      else gated s
        (if p \<in> set board then (Inr (), s)
         else if length board \<ge> boardLimit then rejected BoardIsFull s
         else commitOnly ok s (st\<lparr>boards := AList.update owner (board @ [p]) (boards st)\<rparr>) ()))"

definition boardMove :: "resolver \<Rightarrow> string \<Rightarrow> player_id \<Rightarrow> int \<Rightarrow> bool \<Rightarrow> store \<Rightarrow> (store, board_error, unit) outcome" where
  "boardMove as owner0 p delta ok s = gated s
     (let owner = resolve as owner0; st = stState s; board = boardOf (boards st) owner in
      case indexWhere (\<lambda>q. q = p) board of None \<Rightarrow> rejected NotOnBoard s
      | Some i \<Rightarrow>
          (let target = int i + delta in
           if target < 0 \<or> target \<ge> int (length board) then (Inr (), s)
           else commitOnly ok s (st\<lparr>boards := AList.update owner (swapAt i (nat target) board) (boards st)\<rparr>) ()))"

definition moveEntry :: "nat \<Rightarrow> nat \<Rightarrow> player_id list \<Rightarrow> player_id list" where
  "moveEntry pos index board =
     (let rest = take pos board @ List.drop (Suc pos) board in take index rest @ [board ! pos] @ List.drop index rest)"

definition clampIndex :: "int \<Rightarrow> nat \<Rightarrow> nat" where
  "clampIndex index len = nat (let low = (if index < 0 then 0 else index) in if low > int len - 1 then int len - 1 else low)"

definition boardMoveTo :: "resolver \<Rightarrow> string \<Rightarrow> player_id \<Rightarrow> int \<Rightarrow> bool \<Rightarrow> store \<Rightarrow> (store, board_error, unit) outcome" where
  "boardMoveTo as owner0 p index ok s = gated s
     (let owner = resolve as owner0; st = stState s; board = boardOf (boards st) owner in
      case indexWhere (\<lambda>q. q = p) board of None \<Rightarrow> rejected NotOnBoard s
      | Some pos \<Rightarrow>
          (let target = clampIndex index (length board) in
           if target = pos then (Inr (), s)
           else commitOnly ok s (st\<lparr>boards := AList.update owner (moveEntry pos target board) (boards st)\<rparr>) ()))"

definition boardRemove :: "resolver \<Rightarrow> string \<Rightarrow> player_id \<Rightarrow> bool \<Rightarrow> store \<Rightarrow> (store, board_error, unit) outcome" where
  "boardRemove as owner0 p ok s = gated s
     (let owner = resolve as owner0; st = stState s; board = boardOf (boards st) owner in
      commitOnly ok s (st\<lparr>boards := AList.update owner (filter (\<lambda>q. q \<noteq> p) board) (boards st)\<rparr>) ())"

definition boardRemoveTaken :: "resolver \<Rightarrow> string \<Rightarrow> (player_id \<Rightarrow> bool) \<Rightarrow> bool \<Rightarrow> store \<Rightarrow> (store, board_error, nat) outcome" where
  "boardRemoveTaken as owner0 taken ok s = gated s
     (let owner = resolve as owner0; st = stState s; board = boardOf (boards st) owner;
          removed = length (filter taken board) in
      if removed = 0 then (Inr 0, s)
      else commitOnly ok s (st\<lparr>boards := AList.update owner (filter (\<lambda>q. \<not> taken q) board) (boards st)\<rparr>) removed)"

definition boardClear :: "resolver \<Rightarrow> string \<Rightarrow> bool \<Rightarrow> store \<Rightarrow> (store, board_error, unit) outcome" where
  "boardClear as owner0 ok s = gated s
     (let st = stState s in commitOnly ok s (st\<lparr>boards := AList.delete (resolve as owner0) (boards st)\<rparr>) ())"

section \<open>Members\<close>

datatype seat_action_error = EmailRequired | LeagueIsFull | BoardMergeLimit | BadAddress | NoSuchTeam team_id | SeatActionStale
  | SeatConfirmation string | AlreadySeated string | CoManagerLimit | HoldsOtherTeam string team_id | IsThePrimary string
  | NameTooLong | BlankTeamName | UnknownMotif | BadgeClaimed team_id | HoldsSeatAlready | ReadyUnclaimed | TrimAfterStart
  | TooFewClaimed | SignInFirst | NoPendingInvite | PendingInvite team_id | NotAdmitted | IdentityUnavailable
  | NotThePrimary | CannotDetach | NoBadgeChosen | SeatNotCommissioner

definition memberOf :: "persisted_state \<Rightarrow> string \<Rightarrow> member option" where
  "memberOf st email = map_of (members st) email"

definition setMember :: "member \<Rightarrow> persisted_state \<Rightarrow> persisted_state" where
  "setMember m st = st\<lparr>members := AList.update (memEmail m) m (members st)\<rparr>"

definition bumpRevision :: "team_id \<Rightarrow> persisted_state \<Rightarrow> persisted_state" where
  "bumpRevision t st = st\<lparr>seatRevisions := (seatRevisions st)(t := (seatRevisions st t + 1) mod 2 ^ 64)\<rparr>"

definition recordSeatTenure :: "string \<Rightarrow> team_id \<Rightarrow> persisted_state \<Rightarrow> persisted_state" where
  "recordSeatTenure email t st =
     (let (season, first) = (case seasonSchedule st of None \<Rightarrow> (0, 1)
            | Some sch \<Rightarrow>
                (let last' = fold (\<lambda>wk l. if swWeek wk > l then swWeek wk else l) (schWeeks sch) 0;
                     first = fold (\<lambda>wk f. if \<not> scheduleWeekIsFinal wk \<and> (f = 0 \<or> swWeek wk < f) then swWeek wk else f) (schWeeks sch) 0
                 in (schSeason sch, if first = 0 then last' + 1 else first)))
      in st\<lparr>seatTenures := AList.update email \<lparr>tenTeam = t, tenSeason = season, tenFirstWeek = first\<rparr> (seatTenures st)\<rparr>)"

text \<open>
  The scan of AssignMember for the first seat nobody holds; active stands for activeTeams, the configured teams.
\<close>

definition openSeat :: "team list \<Rightarrow> persisted_state \<Rightarrow> team option" where
  "openSeat active st = find (\<lambda>tm. teamID tm \<notin> set (map (memTeam \<circ> snd) (members st)) \<and> teamID tm \<notin> set (trimmedTeamIDs st)) active"

text \<open>A released seat's shared board waits in escrow and becomes the next claimant's; None when the merge is too long.\<close>

definition promotedBoards :: "team_id \<Rightarrow> string \<Rightarrow> (string \<times> player_id list) list \<Rightarrow> (string \<times> player_id list) list option" where
  "promotedBoards t email bs =
     (case map_of bs (seatBoardEscrowKey t) of None \<Rightarrow> Some bs
      | Some escrow \<Rightarrow> (case mergeUniqueBoardOrders [escrow, boardOf bs email] of None \<Rightarrow> None
           | Some board \<Rightarrow> Some (AList.delete (seatBoardEscrowKey t) (AList.update email board bs))))"

definition seatedMember :: "team_id \<Rightarrow> string \<Rightarrow> string \<Rightarrow> member" where
  "seatedMember t name email = \<lparr>memTeam = t, memName = name, memEmail = email, memRole = PrimaryManager\<rparr>"

definition seatClaimed :: "team \<Rightarrow> string \<Rightarrow> string \<Rightarrow> (string \<times> player_id list) list \<Rightarrow> persisted_state \<Rightarrow> persisted_state" where
  "seatClaimed tm name email bs st =
     (bumpRevision (teamID tm) (recordSeatTenure email (teamID tm)
        (setMember (seatedMember (teamID tm) (if name = [] then teamManager tm else name) email) st)))\<lparr>boards := bs\<rparr>"

text \<open>A member who exists keeps his record, but for a new display name.\<close>

definition refreshName :: "string \<Rightarrow> member \<Rightarrow> string \<Rightarrow> bool \<Rightarrow> store \<Rightarrow> (store, seat_action_error, member \<times> bool) outcome" where
  "refreshName email m name ok s =
     (if name \<noteq> [] \<and> memName m \<noteq> name
      then commitOrRestore ok s ((stState s)\<lparr>members := AList.update email (m\<lparr>memName := name\<rparr>) (members (stState s))\<rparr>)
             (m\<lparr>memName := name\<rparr>, False)
      else (Inr (m, False), s))"

definition claimOpenSeat :: "team list \<Rightarrow> string \<Rightarrow> string \<Rightarrow> bool \<Rightarrow> store \<Rightarrow> (store, seat_action_error, member \<times> bool) outcome" where
  "claimOpenSeat active email name ok s =
     (let st = stState s in
      case openSeat active st of None \<Rightarrow> rejected LeagueIsFull s
      | Some tm \<Rightarrow>
          (case promotedBoards (teamID tm) email (boards st) of None \<Rightarrow> rejected BoardMergeLimit s
           | Some bs \<Rightarrow> commitOrRestore ok s (seatClaimed tm name email bs st)
               (seatedMember (teamID tm) (if name = [] then teamManager tm else name) email, True)))"

definition assignMember :: "team list \<Rightarrow> resolver \<Rightarrow> string \<Rightarrow> string \<Rightarrow> bool \<Rightarrow> store \<Rightarrow>
    (store, seat_action_error, member \<times> bool) outcome" where
  "assignMember active as email0 name0 ok s =
     (let email = resolve as email0; name = trimSpace name0 in
      if email = [] then rejected EmailRequired s
      else gated s
        (case memberOf (stState s) email of
           None \<Rightarrow> claimOpenSeat active email name ok s
         | Some m \<Rightarrow> if memTeam m \<noteq> [] then refreshName email m name ok s else claimOpenSeat active email name ok s))"

definition ensureMember :: "resolver \<Rightarrow> string \<Rightarrow> string \<Rightarrow> bool \<Rightarrow> store \<Rightarrow> (store, seat_action_error, member \<times> bool) outcome" where
  "ensureMember as email0 name0 ok s =
     (let email = resolve as email0; name = trimSpace name0; m' = seatedMember [] name email in
      if email = [] then rejected EmailRequired s
      else gated s
        (case memberOf (stState s) email of
           Some m \<Rightarrow> refreshName email m name ok s
         | None \<Rightarrow> commitOrRestore ok s ((stState s)\<lparr>members := AList.update email m' (members (stState s))\<rparr>) (m', True)))"

section \<open>Signing up with a name and a badge\<close>

definition badgeMotifs :: "string list" where
  "badgeMotifs = [''helmet'', ''bull'', ''wolf'', ''bolt'', ''rocket'', ''star'', ''crown'', ''eagle'', ''robot'', ''ram'', ''shark'',
     ''astronaut'', ''dice'', ''fireball'', ''dolphin'', ''phoenix'']"

definition knownMotif :: "string \<Rightarrow> bool" where
  "knownMotif slug \<longleftrightarrow> slug \<in> set badgeMotifs"

definition isHexDigit :: "char \<Rightarrow> bool" where
  "isHexDigit c = (let n = (of_char c :: nat) in 48 \<le> n \<and> n \<le> 57 \<or> 97 \<le> n \<and> n \<le> 102)"

text \<open>A lower-case SHA-256 in hexadecimal.\<close>

definition validAvatarRef :: "string \<Rightarrow> bool" where
  "validAvatarRef ref \<longleftrightarrow> length ref = 64 \<and> list_all isHexDigit ref"

definition normalizeBadgeClaims :: "league_env \<Rightarrow> (team_id \<times> string) list \<Rightarrow> (team_id \<times> string) list" where
  "normalizeBadgeClaims env claims =
     fst (fold (\<lambda>t (kept, seen). case map_of claims t of None \<Rightarrow> (kept, seen)
         | Some motif \<Rightarrow>
             if \<not> knownTeam env t \<or> \<not> knownMotif motif \<or> motif \<in> set seen then (AList.delete t kept, seen)
             else (kept, motif # seen))
       (sort (remdups (map fst claims))) (claims, []))"

definition normalizeIdentityCollections :: "league_env \<Rightarrow> persisted_state \<Rightarrow> persisted_state" where
  "normalizeIdentityCollections env st =
     (let refs = filter (\<lambda>(t, ref). knownTeam env t \<and> validAvatarRef ref) (avatarRefs st)
      in st\<lparr>avatarRefs := refs,
            badgeClaims := normalizeBadgeClaims env (filter (\<lambda>(t, motif). map_of refs t = None) (badgeClaims st))\<rparr>)"

definition validateTeamName :: "string \<Rightarrow> seat_action_error + string" where
  "validateTeamName name0 = (let name = trimSpace name0 in if length name > 40 then Inl NameTooLong else Inr name)"

definition signedUp :: "league_env \<Rightarrow> team \<Rightarrow> string \<Rightarrow> string \<Rightarrow> string \<Rightarrow> string \<Rightarrow> (string \<times> player_id list) list \<Rightarrow>
    persisted_state \<Rightarrow> persisted_state" where
  "signedUp env tm name email displayName motif bs st =
     normalizeIdentityCollections env ((seatClaimed tm name email bs st)\<lparr>teamNames := (teamNames st)(teamID tm := displayName),
       badgeClaims := AList.update (teamID tm) motif (badgeClaims st), avatarRefs := AList.delete (teamID tm) (avatarRefs st)\<rparr>)"

definition claimFantasySeatTransaction :: "league_env \<Rightarrow> team list \<Rightarrow> resolver \<Rightarrow> string \<Rightarrow> string \<Rightarrow> string \<Rightarrow> string \<Rightarrow> bool \<Rightarrow> store \<Rightarrow>
    (store, seat_action_error, member) outcome" where
  "claimFantasySeatTransaction env active as email0 name0 displayName0 motif0 ok s =
     (let email = resolve as email0; name = trimSpace name0; motif = trimSpace motif0; st = stState s in
      if email = [] then rejected EmailRequired s
      else (case validateTeamName displayName0 of Inl e \<Rightarrow> rejected e s
      | Inr displayName \<Rightarrow>
          if displayName = [] then rejected BlankTeamName s
          else if \<not> knownMotif motif then rejected UnknownMotif s
          else gated s
            (if (case memberOf st email of None \<Rightarrow> False | Some m \<Rightarrow> memTeam m \<noteq> []) then rejected HoldsSeatAlready s
             else (case openSeat active st of None \<Rightarrow> rejected LeagueIsFull s
             | Some tm \<Rightarrow> (case promotedBoards (teamID tm) email (boards st) of None \<Rightarrow> rejected BoardMergeLimit s
                | Some bs \<Rightarrow> (case find (\<lambda>(holder, claimed). claimed = motif \<and> holder \<noteq> teamID tm) (badgeClaims st) of
                    Some (holder, claimed) \<Rightarrow> rejected (BadgeClaimed holder) s
                  | None \<Rightarrow> commitOrRestore ok s (signedUp env tm name email displayName motif bs st)
                      (seatedMember (teamID tm) (if name = [] then teamManager tm else name) email)))))))"

text \<open>
  The Service action decides on a snapshot first. Its snapshot, and the identity health it reads, may be older than
  the store the transaction runs on; the lock it takes (topologyMutationMu) does not keep other members out.
\<close>

definition claimFantasySeat :: "league_env \<Rightarrow> team list \<Rightarrow> resolver \<Rightarrow> string \<Rightarrow> string \<Rightarrow> string \<Rightarrow> string \<Rightarrow> bool \<Rightarrow> persisted_state \<Rightarrow>
    bool \<Rightarrow> store \<Rightarrow> (store, seat_action_error, member) outcome" where
  "claimFantasySeat env active as email0 name teamName0 motif0 healthy view ok s =
     (let email = resolve as email0; motif = trimSpace motif0 in
      case map_of (coInvites view) email of Some t \<Rightarrow> rejected (PendingInvite t) s
      | None \<Rightarrow>
     (case memberOf view email of None \<Rightarrow> rejected NotAdmitted s
      | Some m \<Rightarrow>
          if memTeam m \<noteq> [] then rejected HoldsSeatAlready s
          else if \<not> healthy then rejected IdentityUnavailable s
          else (case validateTeamName teamName0 of Inl e \<Rightarrow> rejected e s
          | Inr displayName \<Rightarrow>
              if displayName = [] then rejected BlankTeamName s
              else if motif = [] then rejected NoBadgeChosen s
              else if \<not> knownMotif motif then rejected UnknownMotif s
              else (case find (\<lambda>(holder, claimed). claimed = motif) (badgeClaims view) of
                      Some (holder, claimed) \<Rightarrow> rejected (BadgeClaimed holder) s
                    | None \<Rightarrow> claimFantasySeatTransaction env active as email name displayName motif ok s))))"

section \<open>Invites and co-managers\<close>

definition addInvite :: "string \<Rightarrow> bool \<Rightarrow> store \<Rightarrow> (store, seat_action_error, unit) outcome" where
  "addInvite email0 ok s =
     (let email = admissionEmail email0 in
      if \<not> validAddress email then rejected BadAddress s
      else gated s (if email \<in> set (invites (stState s)) then (Inr (), s)
                    else commitOnly ok s ((stState s)\<lparr>invites := invites (stState s) @ [email]\<rparr>) ()))"

definition removeInvite :: "string \<Rightarrow> bool \<Rightarrow> store \<Rightarrow> (store, seat_action_error, unit) outcome" where
  "removeInvite email0 ok s = gated s
     (commitOnly ok s ((stState s)\<lparr>invites := filter (\<lambda>e. e \<noteq> admissionEmail email0) (invites (stState s))\<rparr>) ())"

definition invited :: "string \<Rightarrow> persisted_state \<Rightarrow> bool" where
  "invited email st \<longleftrightarrow> admissionEmail email \<in> set (invites st)"

definition inviteCoManager :: "league_env \<Rightarrow> resolver \<Rightarrow> team_id \<Rightarrow> string \<Rightarrow> bool \<Rightarrow> store \<Rightarrow> (store, seat_action_error, unit) outcome" where
  "inviteCoManager env as t email0 ok s =
     (let email = admissionEmail email0; canonical = resolve as email; st = stState s in
      if \<not> knownTeam env t then rejected (NoSuchTeam t) s
      else if \<not> validAddress email then rejected BadAddress s
      else gated s
        (if (case memberOf st canonical of None \<Rightarrow> False | Some m \<Rightarrow> memTeam m \<noteq> []) then rejected (AlreadySeated canonical) s
         else if seatHolders (members st) t CoManager \<noteq> [] then rejected CoManagerLimit s
         else if map_of (coInvites st) canonical = Some t then (Inr (), s)
         else if list_ex (\<lambda>(candidate, pending). pending = t \<and> candidate \<noteq> canonical) (coInvites st) then rejected CoManagerLimit s
         else commitOnly ok s (st\<lparr>invites := (if email \<in> set (invites st) then invites st else invites st @ [email]),
                coInvites := AList.update canonical t (coInvites st)\<rparr>) ()))"

definition primaryBoardOwnerKey :: "resolver \<Rightarrow> persisted_state \<Rightarrow> team_id \<Rightarrow> string" where
  "primaryBoardOwnerKey as st t =
     (case sort (map fst (filter (\<lambda>(e, m). memTeam m = t \<and> memRole m = PrimaryManager) (members st))) of
        [] \<Rightarrow> []
      | key # _ \<Rightarrow> (let owner = resolve as (case memberOf st key of None \<Rightarrow> [] | Some m \<Rightarrow> memEmail m)
                   in if owner \<noteq> [] then owner else resolve as key))"

text \<open>The board of a co-manager joins the board of the primary; None when the merge is too long.\<close>

definition mergeLegacyCoBoard :: "resolver \<Rightarrow> persisted_state \<Rightarrow> team_id \<Rightarrow> string \<Rightarrow> (string \<times> player_id list) list option" where
  "mergeLegacyCoBoard as st t coEmail =
     (let key = primaryBoardOwnerKey as st t in
      if key = [] \<or> key = coEmail then Some (boards st)
      else (case map_of (boards st) coEmail of None \<Rightarrow> Some (boards st)
            | Some coBoard \<Rightarrow> (case mergeUniqueBoardOrders [boardOf (boards st) key, coBoard] of None \<Rightarrow> None
                 | Some merged \<Rightarrow> Some (AList.delete coEmail (AList.update key merged (boards st))))))"

definition coMember :: "team_id \<Rightarrow> string \<Rightarrow> string \<Rightarrow> member" where
  "coMember t name email = \<lparr>memTeam = t, memName = name, memEmail = email, memRole = CoManager\<rparr>"

definition joinSeat :: "resolver \<Rightarrow> team_id \<Rightarrow> string \<Rightarrow> (string \<times> member) list \<Rightarrow> member \<Rightarrow> bool \<Rightarrow> store \<Rightarrow>
    (store, seat_action_error, member option) outcome" where
  "joinSeat as t email ms m ok s =
     (let st = stState s in
      case mergeLegacyCoBoard as st t email of None \<Rightarrow> rejected BoardMergeLimit s
      | Some bs \<Rightarrow> commitOrRestore ok s (st\<lparr>boards := bs, coInvites := AList.delete email (coInvites st), members := ms\<rparr>) (Some m))"

definition bindCoManager :: "resolver \<Rightarrow> string \<Rightarrow> string \<Rightarrow> bool \<Rightarrow> store \<Rightarrow> (store, seat_action_error, member option) outcome" where
  "bindCoManager as email0 name0 ok s =
     (let email = resolve as email0; name = trimSpace name0; st = stState s in
      if email = [] then rejected EmailRequired s
      else gated s
        (case map_of (coInvites st) email of None \<Rightarrow> (Inr None, s)
         | Some t \<Rightarrow>
             (case (case memberOf st email of None \<Rightarrow> None | Some m \<Rightarrow> if memTeam m = [] then None else Some m) of
                Some m \<Rightarrow>
                  if memTeam m \<noteq> t then rejected (HoldsOtherTeam email (memTeam m)) s
                  else if memRole m \<noteq> CoManager then rejected (IsThePrimary email) s
                  else joinSeat as t email (members st) m ok s
              | None \<Rightarrow> joinSeat as t email (AList.update email (coMember t name email) (members st)) (coMember t name email) ok s)))"

definition detachCoManager :: "league_env \<Rightarrow> team_id \<Rightarrow> bool \<Rightarrow> store \<Rightarrow> (store, seat_action_error, unit) outcome" where
  "detachCoManager env t ok s =
     (let st = stState s; bound = (\<lambda>(e, m). memTeam m = t \<and> memRole m = CoManager); pending = (\<lambda>(e, p). p = t) in
      if \<not> knownTeam env t then rejected (NoSuchTeam t) s
      else gated s
        (if \<not> list_ex bound (members st) \<and> \<not> list_ex pending (coInvites st) then (Inr (), s)
         else commitOnly ok s (st\<lparr>members := filter (\<lambda>x. \<not> bound x) (members st),
                coInvites := filter (\<lambda>x. \<not> pending x) (coInvites st)\<rparr>) ()))"

text \<open>
  The Service actions around them: a request is what it resolves to, the member its session names (in demo mode
  every known seat is actable) and whether it is a commissioner's.
\<close>

definition isPrimaryOfTeam :: "league_env \<Rightarrow> bool \<Rightarrow> resolver \<Rightarrow> string option \<Rightarrow> persisted_state \<Rightarrow> team_id \<Rightarrow> bool" where
  "isPrimaryOfTeam env demo as user st t =
     (if demo then knownTeam env t
      else (case user of None \<Rightarrow> False
            | Some email \<Rightarrow> (case memberOf st (resolve as email) of None \<Rightarrow> False
                | Some m \<Rightarrow> memTeam m = t \<and> memRole m = PrimaryManager)))"

definition serviceInviteCoManager :: "league_env \<Rightarrow> bool \<Rightarrow> resolver \<Rightarrow> string option \<Rightarrow> persisted_state \<Rightarrow> team_id \<Rightarrow> string \<Rightarrow> bool \<Rightarrow> store \<Rightarrow>
    (store, seat_action_error, unit) outcome" where
  "serviceInviteCoManager env demo as user view t0 email ok s =
     (let t = trimSpace t0 in
      if \<not> knownTeam env t then rejected (NoSuchTeam t) s
      else if \<not> isPrimaryOfTeam env demo as user view t then rejected NotThePrimary s
      else inviteCoManager env as t email ok s)"

definition serviceDetachCoManager :: "league_env \<Rightarrow> bool \<Rightarrow> resolver \<Rightarrow> string option \<Rightarrow> bool \<Rightarrow> persisted_state \<Rightarrow> team_id \<Rightarrow> bool \<Rightarrow> store \<Rightarrow>
    (store, seat_action_error, unit) outcome" where
  "serviceDetachCoManager env demo as user commissioner view t0 ok s =
     (let t = trimSpace t0 in
      if \<not> knownTeam env t then rejected (NoSuchTeam t) s
      else if \<not> commissioner \<and> \<not> isPrimaryOfTeam env demo as user view t then rejected CannotDetach s
      else detachCoManager env t ok s)"

definition confirmCoManagerJoin :: "resolver \<Rightarrow> (string \<times> string) option \<Rightarrow> bool \<Rightarrow> store \<Rightarrow> (store, seat_action_error, member) outcome" where
  "confirmCoManagerJoin as user ok s =
     (case user of None \<Rightarrow> rejected SignInFirst s
      | Some (email, name) \<Rightarrow>
          (case bindCoManager as (resolve as email) name ok s of
             (Inl e, s') \<Rightarrow> (Inl e, s')
           | (Inr None, s') \<Rightarrow> rejected NoPendingInvite s'
           | (Inr (Some m), s') \<Rightarrow> (Inr m, s')))"

section \<open>Releasing a seat\<close>

definition joinStrings :: "string \<Rightarrow> string list \<Rightarrow> string" where
  "joinStrings sep xs = (case xs of [] \<Rightarrow> [] | x # rest \<Rightarrow> x @ concat (map (\<lambda>y. sep @ y) rest))"

definition nul :: string where "nul = [char_of (0::nat)]"
definition soh :: string where "soh = [char_of (1::nat)]"
definition stx :: string where "stx = [char_of (2::nat)]"

definition roleText :: "member_role \<Rightarrow> string" where
  "roleText r = (case r of PrimaryManager \<Rightarrow> [] | CoManager \<Rightarrow> ''co'')"

definition requireMutationConfirmation :: "string \<Rightarrow> string \<Rightarrow> bool" where
  "requireMutationConfirmation expected actual \<longleftrightarrow> trimSpace actual = expected"

definition seatReleaseConfirmation :: "team_id \<Rightarrow> string \<Rightarrow> string" where
  "seatReleaseConfirmation t teamname =
     (let name = toUpper (trimSpace teamname); parts = [''RELEASE'', toUpper (trimSpace t)]
      in joinStrings '' '' (if name \<noteq> [] then parts @ [name] else parts))"

definition seatOccupants :: "persisted_state \<Rightarrow> team_id \<Rightarrow> string list" where
  "seatOccupants st t = sort
     (map (\<lambda>(email, m). ''member:'' @ email @ '':'' @ roleText (memRole m)) (filter (\<lambda>(email, m). memTeam m = t) (members st)) @
      map (\<lambda>(email, p). ''pending:'' @ email) (filter (\<lambda>(email, p). p = t) (coInvites st)))"

definition seatReleaseToken :: "(string \<Rightarrow> string) \<Rightarrow> persisted_state \<Rightarrow> team_id \<Rightarrow> string \<Rightarrow> string" where
  "seatReleaseToken sha st t teamname =
     sha (joinStrings soh [t, trimSpace teamname, itoa (seatRevisions st t), joinStrings nul (seatOccupants st t)])"

definition seatName :: "team list \<Rightarrow> persisted_state \<Rightarrow> team_id \<Rightarrow> string" where
  "seatName active st t =
     (let name = (case find (\<lambda>tm. teamID tm = t) active of None \<Rightarrow> [] | Some tm \<Rightarrow> teamName tm)
      in if trimSpace (teamNames st t) \<noteq> [] then trimSpace (teamNames st t) else name)"

text \<open>The boards of the seat's members, the primary's first, go into escrow.\<close>

definition escrowOwners :: "resolver \<Rightarrow> persisted_state \<Rightarrow> team_id \<Rightarrow> string list" where
  "escrowOwners as st t = filter (\<lambda>owner. owner \<noteq> [] \<and> owner \<noteq> seatBoardEscrowKey t) (map (resolve as \<circ> memEmail) (teamMembers (members st) t))"

definition escrowedBoards :: "resolver \<Rightarrow> persisted_state \<Rightarrow> team_id \<Rightarrow> (string \<times> player_id list) list option" where
  "escrowedBoards as st t =
     (if teamMembers (members st) t = [] then Some (boards st)
      else (case mergeUniqueBoardOrders (map (boardOf (boards st)) (escrowOwners as st t) @
                   (case map_of (boards st) (seatBoardEscrowKey t) of None \<Rightarrow> [] | Some b \<Rightarrow> [b])) of
              None \<Rightarrow> None
            | Some board \<Rightarrow> Some (fold AList.delete (escrowOwners as st t) (AList.update (seatBoardEscrowKey t) board (boards st)))))"

definition releasedState :: "team_id \<Rightarrow> (string \<times> player_id list) list \<Rightarrow> persisted_state \<Rightarrow> persisted_state" where
  "releasedState t bs st = bumpRevision t (st\<lparr>boards := bs, members := filter (\<lambda>(e, m). memTeam m \<noteq> t) (members st),
     coInvites := filter (\<lambda>(e, p). p \<noteq> t) (coInvites st), ready := AList.delete t (ready st), autopick := (autopick st)(t := False)\<rparr>)"

definition releaseSeat :: "league_env \<Rightarrow> team list \<Rightarrow> resolver \<Rightarrow> (string \<Rightarrow> string) \<Rightarrow> team_id \<Rightarrow> (string \<times> string) option \<Rightarrow> bool \<Rightarrow> store \<Rightarrow>
    (store, seat_action_error, unit) outcome" where
  "releaseSeat env active as sha t confirmed ok s =
     (let st = stState s; name = seatName active st t in
      if (case confirmed of None \<Rightarrow> False | Some (confirmation, token) \<Rightarrow> trimSpace confirmation = [])
        then rejected (SeatConfirmation ''RELEASE SEAT'') s
      else if \<not> knownTeam env t then rejected (if confirmed = None then NoSuchTeam t else SeatActionStale) s
      else gated s
        (case (case confirmed of None \<Rightarrow> None
               | Some (confirmation, token) \<Rightarrow>
                   if memEmail (memberForTeam (members st) t) = [] then Some SeatActionStale
                   else if trimSpace token = [] \<or> token \<noteq> seatReleaseToken sha st t name then Some SeatActionStale
                   else if \<not> requireMutationConfirmation (seatReleaseConfirmation t name) confirmation
                     then Some (SeatConfirmation (seatReleaseConfirmation t name))
                   else None) of
           Some e \<Rightarrow> rejected e s
         | None \<Rightarrow>
             (case escrowedBoards as st t of None \<Rightarrow> rejected BoardMergeLimit s
              | Some bs \<Rightarrow>
                  if \<not> list_ex (\<lambda>(e, m). memTeam m = t) (members st) \<and> \<not> list_ex (\<lambda>(e, p). p = t) (coInvites st) \<and>
                     map_of (ready st) t = None \<and> \<not> autopick st t
                  then (Inr (), s)
                  else commitOrRestore ok s (releasedState t bs st) ())))"

definition adminReleaseSeat :: "bool \<Rightarrow> league_env \<Rightarrow> team list \<Rightarrow> resolver \<Rightarrow> (string \<Rightarrow> string) \<Rightarrow> team_id \<Rightarrow> string \<Rightarrow> string \<Rightarrow> bool \<Rightarrow> store \<Rightarrow>
    (store, seat_action_error, unit) outcome" where
  "adminReleaseSeat commissioner env active as sha t confirmation token ok s =
     (if \<not> commissioner then rejected SeatNotCommissioner s
      else releaseSeat env active as sha t (Some (confirmation, token)) ok s)"

section \<open>Flags, names and trimming\<close>

definition toggleReady :: "league_env \<Rightarrow> team_id \<Rightarrow> bool \<Rightarrow> store \<Rightarrow> (store, seat_action_error, bool) outcome" where
  "toggleReady env t ok s = gated s
     (if \<not> knownTeam env t then rejected (NoSuchTeam t) s
      else (let flag = (map_of (ready (stState s)) t \<noteq> Some True)
            in commitOnly ok s ((stState s)\<lparr>ready := AList.update t flag (ready (stState s))\<rparr>) flag))"

definition setReady :: "league_env \<Rightarrow> team_id \<Rightarrow> bool \<Rightarrow> bool \<Rightarrow> store \<Rightarrow> (store, seat_action_error, unit) outcome" where
  "setReady env t flag ok s = gated s
     (if \<not> knownTeam env t then rejected (NoSuchTeam t) s
      else if trimSpace (memEmail (memberForTeam (members (stState s)) t)) = [] then rejected ReadyUnclaimed s
      else commitOnly ok s ((stState s)\<lparr>ready := AList.update t flag (ready (stState s))\<rparr>) ())"

text \<open>An empty team name stands for a missing override.\<close>

definition setTeamName :: "league_env \<Rightarrow> team_id \<Rightarrow> string \<Rightarrow> bool \<Rightarrow> store \<Rightarrow> (store, seat_action_error, unit) outcome" where
  "setTeamName env t name0 ok s =
     (if \<not> knownTeam env t then rejected (NoSuchTeam t) s
      else (case validateTeamName name0 of Inl e \<Rightarrow> rejected e s
      | Inr name \<Rightarrow>
          if name = [] then rejected BlankTeamName s
          else gated s (if teamNames (stState s) t = name then commitOnly ok s (stState s) ()
            else commitOrRestore ok s (bumpRevision t ((stState s)\<lparr>teamNames := (teamNames (stState s))(t := name)\<rparr>)) ())))"

definition resetTeamName :: "league_env \<Rightarrow> team_id \<Rightarrow> bool \<Rightarrow> store \<Rightarrow> (store, seat_action_error, unit) outcome" where
  "resetTeamName env t ok s =
     (if \<not> knownTeam env t then rejected (NoSuchTeam t) s
      else gated s (if teamNames (stState s) t = [] then commitOnly ok s (stState s) ()
        else commitOrRestore ok s (bumpRevision t ((stState s)\<lparr>teamNames := (teamNames (stState s))(t := [])\<rparr>)) ()))"

definition minTeams :: nat where "minTeams = 4"

definition seatTrimConfirmation :: "nat \<Rightarrow> string" where
  "seatTrimConfirmation n = ''DROP '' @ itoa (int n) @ '' UNCLAIMED SEAT'' @ (if n = 1 then [] else ''S'')"

definition seatTrimToken :: "(string \<Rightarrow> string) \<Rightarrow> (season_schedule \<Rightarrow> string) \<Rightarrow> team_id list \<Rightarrow> team_id list \<Rightarrow> season_schedule option \<Rightarrow> string" where
  "seatTrimToken sha json ids order schedule =
     (let digest = (case schedule of None \<Rightarrow> [] | Some sch \<Rightarrow> if schWeeks sch = [] then [] else sha (json sch))
      in sha (joinStrings nul ids @ soh @ joinStrings nul order @ stx @ digest))"

definition trimUnclaimedSeatsConfirmed :: "team list \<Rightarrow> (string \<Rightarrow> string) \<Rightarrow> (season_schedule \<Rightarrow> string) \<Rightarrow> string \<Rightarrow> string \<Rightarrow> bool \<Rightarrow> store \<Rightarrow>
    (store, seat_action_error, team list \<times> team_id list) outcome" where
  "trimUnclaimedSeatsConfirmed active sha json confirmation token ok s = gated s
     (let st = stState s; claimed = (\<lambda>tm. memEmail (memberForTeam (members st) (teamID tm)) \<noteq> []);
          kept = filter claimed active; removed = map teamID (filter (\<lambda>tm. \<not> claimed tm) active) in
      if draftStarted st then rejected TrimAfterStart s
      else if trimmedTeamIDs st \<noteq> [] then rejected SeatActionStale s
      else if length kept < minTeams then rejected TooFewClaimed s
      else if trimSpace token = [] \<or> token \<noteq> seatTrimToken sha json removed (draftOrder st) (seasonSchedule st) then rejected SeatActionStale s
      else if \<not> requireMutationConfirmation (seatTrimConfirmation (length removed)) confirmation
        then rejected (SeatConfirmation (seatTrimConfirmation (length removed))) s
      else commitOrRestore ok s (st\<lparr>trimmedTeamIDs := removed, draftOrder := [], seasonSchedule := None\<rparr>) (kept, removed))"

section \<open>Resetting the league\<close>

text \<open>What a fresh read of the database shows after a write whose outcome is unknown.\<close>

datatype read_back = ReadDesired | ReadPrevious | ReadOther

definition resetState :: "team list \<Rightarrow> persisted_state \<Rightarrow> persisted_state" where
  "resetState active st = clearClockFields ((fold (bumpRevision \<circ> teamID) active st)\<lparr>picks := [], ready := [], members := [], seatTenures := [],
     coInvites := [], boards := [], pickems := [], pickemEnteredAt := [], pickemMarkets := [], draftOrder := [], rosterOverride := None,
     trimmedTeamIDs := [], seasonSchedule := None, playoffs := None, seasonPhase := PhaseNone, badgeClaims := [], avatarRefs := [],
     transactions := [], lineups := (\<lambda>t w. None), lineupAutoFilled := (\<lambda>t w. []), waiverClaims := [], waiverReceipts := [],
     waiversProcessedThrough := 0, tradeOffers := [], rosterZones := [], draftStarted := False, draftStartedAt := 0, draftAtOverride := 0\<rparr>)"

text \<open>A store whose database matches neither side refuses every later write.\<close>

definition resetLeague :: "team list \<Rightarrow> persist_result \<Rightarrow> read_back \<Rightarrow> store \<Rightarrow> (store, seat_action_error, unit) outcome" where
  "resetLeague active res reread s = gated s
     (let desired = resetState active (stState s) in
      case res of Persisted \<Rightarrow> (Inr (), s\<lparr>stState := desired\<rparr>)
      | NotCommitted \<Rightarrow> (Inl PersistFailed, s)
      | CommittedUnverified \<Rightarrow>
          (case reread of ReadDesired \<Rightarrow> (Inr (), s\<lparr>stState := desired\<rparr>)
           | ReadPrevious \<Rightarrow> (Inl PersistFailed, s)
           | ReadOther \<Rightarrow> (Inl PersistFailed, s\<lparr>stWriteError := True\<rparr>)))"

lemma set_update: "set (AList.update k v xs) \<subseteq> insert (k, v) (set xs)"
  by (induction xs) auto

end
