(* ===== verification/SeatsProps.thy ===== *)
theory SeatsProps
  imports Seats
begin

text \<open>
  The facts of seats and boards: the resolver is idempotent, a seat has one primary and one co-manager at most, boards
  name each player once and stay within their limit, and the board of a released seat waits for the next claimant.
\<close>

section \<open>The resolver\<close>

lemma lower_code: "of_char (lowerChar c) = (let n = (of_char c :: nat) in if 65 \<le> n \<and> n \<le> 90 then n + 32 else n)"
  by (simp add: lowerChar_def Let_def of_char_of)

lemma lowerChar_again [simp]: "lowerChar (lowerChar c) = lowerChar c"
  unfolding lowerChar_def [of "lowerChar c"] lower_code by (auto simp: Let_def split: if_splits)

lemma space_lower [simp]: "isSpaceChar (lowerChar c) = isSpaceChar c"
  unfolding isSpaceChar_def lower_code by (auto simp: Let_def)

lemma dropWhile_lower: "dropWhile isSpaceChar (map lowerChar s) = map lowerChar (dropWhile isSpaceChar s)"
  by (simp add: dropWhile_map comp_def)

lemma trim_lower [simp]: "trimSpace (toLower s) = toLower (trimSpace s)"
  by (simp add: trimSpace_def toLower_def dropWhile_lower rev_map)

lemma dropWhile_again [simp]: "dropWhile P (dropWhile P s) = dropWhile P s"
  by (induction s) auto

lemma dropWhile_hd: "xs = [] \<or> \<not> P (hd xs) \<Longrightarrow> dropWhile P xs = xs"
  by (cases xs) auto

lemma dropWhile_prefix:
  assumes "\<not> P (hd d) \<or> d = []"
  shows "dropWhile P (rev (dropWhile P (rev d))) = rev (dropWhile P (rev d))"
proof (rule dropWhile_hd)
  have "d = rev (dropWhile P (rev d)) @ rev (takeWhile P (rev d))" by (metis rev_append rev_rev_ident takeWhile_dropWhile_id)
  then have "rev (dropWhile P (rev d)) = [] \<or> hd (rev (dropWhile P (rev d))) = hd d" "d = [] \<longrightarrow> rev (dropWhile P (rev d)) = []"
    by (metis hd_append2, simp)
  then show "rev (dropWhile P (rev d)) = [] \<or> \<not> P (hd (rev (dropWhile P (rev d))))" using assms by metis
qed

lemma trim_again [simp]: "trimSpace (trimSpace s) = trimSpace s"
proof -
  have "\<not> isSpaceChar (hd (dropWhile isSpaceChar s)) \<or> dropWhile isSpaceChar s = []" using hd_dropWhile by blast
  then have d: "dropWhile isSpaceChar (rev (dropWhile isSpaceChar (rev (dropWhile isSpaceChar s)))) = rev (dropWhile isSpaceChar (rev (dropWhile isSpaceChar s)))"
    by (rule dropWhile_prefix)
  show ?thesis unfolding trimSpace_def by (simp only: d rev_rev_ident dropWhile_again)
qed

lemma normalize_again [simp]: "normalizeEmail (normalizeEmail e) = normalizeEmail e"
  by (simp add: normalizeEmail_def) (simp add: toLower_def comp_def)

lemma aliases_normal:
  "addAliases parse aliases ms = Inr aliases' \<Longrightarrow> \<forall>(a, c)\<in>set aliases. normalizeEmail c = c \<Longrightarrow> \<forall>(a, c)\<in>set aliases'. normalizeEmail c = c"
proof (induction parse aliases ms rule: addAliases.induct)
  case (2 parse aliases a c ms)
  then show ?case by (auto simp: Let_def split: option.splits if_splits)
qed simp

text \<open>Resolving an identity twice gives what resolving it once gives, whatever aliases the operator configures.\<close>

lemma resolve_again:
  assumes "newResolver parse ms = Inr as"
  shows "resolve as (resolve as email) = resolve as email"
proof -
  have "\<forall>(a, c)\<in>set as. normalizeEmail c = c" "find (\<lambda>(alias, canonical). map_of as canonical \<noteq> None) as = None"
    using assms aliases_normal [of parse "[]" ms as] by (auto simp: newResolver_def split: sum.splits option.splits)
  then show ?thesis
    by (fastforce simp: resolve_def Let_def find_None_iff split: option.splits dest: map_of_SomeD)
qed

section \<open>Maps\<close>

lemma update_set: "distinct (map fst xs) \<Longrightarrow> set (AList.update k v xs) = insert (k, v) {x \<in> set xs. fst x \<noteq> k}"
  by (induction xs) (auto simp: image_iff)

lemma delete_set: "set (AList.delete k xs) = {x \<in> set xs. fst x \<noteq> k}"
  by (auto simp: AList.delete_eq)

section \<open>One primary and one co-manager\<close>

definition seatSound :: "resolver \<Rightarrow> (string \<times> member) list \<Rightarrow> (string \<times> team_id) list \<Rightarrow> bool" where
  "seatSound as ms cs \<longleftrightarrow> distinct (map fst ms) \<and> distinct (map fst cs) \<and>
     (\<forall>e m. (e, m) \<in> set ms \<longrightarrow> memEmail m = e \<and> e \<noteq> [] \<and> resolve as e = e) \<and>
     (\<forall>e m e' m'. (e, m) \<in> set ms \<longrightarrow> (e', m') \<in> set ms \<longrightarrow> memTeam m \<noteq> [] \<longrightarrow> memTeam m' = memTeam m \<longrightarrow> memRole m' = memRole m \<longrightarrow> e' = e) \<and>
     (\<forall>e e' t. (e, t) \<in> set cs \<longrightarrow> (e', t) \<in> set cs \<longrightarrow> e' = e) \<and>
     (\<forall>e m e'. (e, m) \<in> set ms \<longrightarrow> memRole m = CoManager \<longrightarrow> (e', memTeam m) \<notin> set cs)"

lemma sound_unique: "seatSound as ms cs \<Longrightarrow> (e, m) \<in> set ms \<Longrightarrow> (e, m') \<in> set ms \<Longrightarrow> m' = m"
  unfolding seatSound_def by (metis eq_key_imp_eq_value)

lemma sound_claim:
  assumes "seatSound as ms cs" "e \<noteq> []" "resolve as e = e" "memEmail m = e" "memRole m = PrimaryManager" "memTeam m \<notin> memTeam ` snd ` set ms \<or> memTeam m = []"
  shows "seatSound as (AList.update e m ms) cs"
proof -
  have "\<forall>e' m'. (e', m') \<in> set ms \<longrightarrow> memTeam m' \<noteq> memTeam m \<or> memTeam m = []" using assms(6) by (metis image_eqI snd_conv)
  then show ?thesis using assms(1-5) unfolding seatSound_def
    by (auto simp: update_set distinct_update) blast
qed

lemma sound_rename:
  assumes "seatSound as ms cs" "(e, m) \<in> set ms" "memEmail m' = memEmail m" "memTeam m' = memTeam m" "memRole m' = memRole m"
  shows "seatSound as (AList.update e m' ms) cs"
  using assms unfolding seatSound_def by (auto simp: update_set distinct_update)

lemma sound_invite:
  assumes "seatSound as ms cs" "seatHolders ms t CoManager = []" "\<not> list_ex (\<lambda>(candidate, pending). pending = t \<and> candidate \<noteq> e) cs"
  shows "seatSound as ms (AList.update e t cs)"
proof -
  have "memTeam m \<noteq> t" if "(e', m) \<in> set ms" "memRole m = CoManager" for e' m
    using assms(2) that by (force simp: seatHolders_def filter_empty_conv)
  then show ?thesis using assms(1,3) unfolding seatSound_def
    by (auto simp: update_set distinct_update list_ex_iff)
qed

lemma sound_drop_pending: "seatSound as ms cs \<Longrightarrow> seatSound as ms (AList.delete e cs)"
  unfolding seatSound_def by (auto simp: delete_set distinct_delete)

lemma sound_join:
  assumes "seatSound as ms cs" "map_of cs e = Some t" "e \<noteq> []" "resolve as e = e" "\<And>m. (e, m) \<in> set ms \<Longrightarrow> memTeam m = []"
  shows "seatSound as (AList.update e (coMember t name e) ms) (AList.delete e cs)"
proof -
  have mem: "(e, t) \<in> set cs" using assms(2) by (rule map_of_SomeD)
  have parts: "distinct (map fst ms)" "distinct (map fst cs)" "\<And>e m. (e, m) \<in> set ms \<Longrightarrow> memEmail m = e \<and> e \<noteq> [] \<and> resolve as e = e"
    "\<And>e m e' m'. (e, m) \<in> set ms \<Longrightarrow> (e', m') \<in> set ms \<Longrightarrow> memTeam m \<noteq> [] \<Longrightarrow> memTeam m' = memTeam m \<Longrightarrow> memRole m' = memRole m \<Longrightarrow> e' = e"
    "\<And>e e' t. (e, t) \<in> set cs \<Longrightarrow> (e', t) \<in> set cs \<Longrightarrow> e' = e"
    "\<And>e m e'. (e, m) \<in> set ms \<Longrightarrow> memRole m = CoManager \<Longrightarrow> (e', memTeam m) \<notin> set cs"
    using assms(1) unfolding seatSound_def by blast+
  have free: "memRole m = CoManager \<Longrightarrow> memTeam m \<noteq> t" if "(e', m) \<in> set ms" for e' m using parts(6) [OF that] mem by metis
  have set1: "(e', m) \<in> set (AList.update e (coMember t name e) ms) \<longleftrightarrow> (e' = e \<and> m = coMember t name e) \<or> (e' \<noteq> e \<and> (e', m) \<in> set ms)" for e' m
    using parts(1) by (auto simp: update_set)
  have set2: "(e', t') \<in> set (AList.delete e cs) \<longleftrightarrow> e' \<noteq> e \<and> (e', t') \<in> set cs" for e' t' by (auto simp: delete_set)
  have co: "memTeam (coMember t name e) = t" "memRole (coMember t name e) = CoManager" "memEmail (coMember t name e) = e" by (simp_all add: coMember_def)
  show ?thesis unfolding seatSound_def set1 set2
  proof (intro conjI allI impI)
    show "distinct (map fst (AList.update e (coMember t name e) ms))" "distinct (map fst (AList.delete e cs))"
      using parts(1,2) by (simp_all add: distinct_update distinct_delete)
  next
    fix e' m assume "e' = e \<and> m = coMember t name e \<or> e' \<noteq> e \<and> (e', m) \<in> set ms"
    then show "memEmail m = e'" "e' \<noteq> []" "resolve as e' = e'" using parts(3) [of e' m] assms(3,4) co(3) by metis+
  next
    fix e1 m1 e2 m2
    assume "e1 = e \<and> m1 = coMember t name e \<or> e1 \<noteq> e \<and> (e1, m1) \<in> set ms" "e2 = e \<and> m2 = coMember t name e \<or> e2 \<noteq> e \<and> (e2, m2) \<in> set ms"
      "memTeam m1 \<noteq> []" "memTeam m2 = memTeam m1" "memRole m2 = memRole m1"
    then show "e2 = e1" using parts(4) [of e1 m1 e2 m2] free [of e1 m1] free [of e2 m2] co by metis
  next
    fix e1 e2 t' assume "e1 \<noteq> e \<and> (e1, t') \<in> set cs" "e2 \<noteq> e \<and> (e2, t') \<in> set cs"
    then show "e2 = e1" using parts(5) by blast
  next
    fix e1 m e2 assume a: "e1 = e \<and> m = coMember t name e \<or> e1 \<noteq> e \<and> (e1, m) \<in> set ms" "memRole m = CoManager"
    show "\<not> (e2 \<noteq> e \<and> (e2, memTeam m) \<in> set cs)"
    proof (cases "e1 = e \<and> m = coMember t name e")
      case True
      then show ?thesis using parts(5) [OF mem, of e2] co(1) by auto
    next
      case False
      then show ?thesis using a parts(6) by blast
    qed
  qed
qed

lemma sound_filter: "seatSound as ms cs \<Longrightarrow> seatSound as (filter P ms) (filter Q cs)"
  unfolding seatSound_def by (auto simp: distinct_map_filter)

definition seatsOK :: "resolver \<Rightarrow> persisted_state \<Rightarrow> bool" where
  "seatsOK as st \<longleftrightarrow> seatSound as (members st) (coInvites st)"

definition keepsSeats :: "resolver \<Rightarrow> store \<Rightarrow> store \<Rightarrow> bool" where
  "keepsSeats as s s' \<longleftrightarrow> (seatsOK as (stState s) \<longrightarrow> seatsOK as (stState s'))"

lemma keeps_same_seats: "members (stState s') = members (stState s) \<Longrightarrow> coInvites (stState s') = coInvites (stState s) \<Longrightarrow> keepsSeats as s s'"
  by (simp add: keepsSeats_def seatsOK_def)

lemma keeps_self [simp]: "keepsSeats as s s"
  by (simp add: keepsSeats_def)

lemma keeps_restore: "commitOrRestore ok s st r = (x, s') \<Longrightarrow> (seatsOK as (stState s) \<Longrightarrow> seatsOK as st) \<Longrightarrow> keepsSeats as s s'"
  by (auto simp: commitOrRestore_def keepsSeats_def split: if_splits)

lemma keeps_commit: "commitOnly ok s st r = (x, s') \<Longrightarrow> (seatsOK as (stState s) \<Longrightarrow> seatsOK as st) \<Longrightarrow> keepsSeats as s s'"
  by (auto simp: commitOnly_def keepsSeats_def)

lemma claimed_fields [simp]:
  "members (seatClaimed tm name email bs st) =
     AList.update email (seatedMember (teamID tm) (if name = [] then teamManager tm else name) email) (members st)"
  "coInvites (seatClaimed tm name email bs st) = coInvites st" "boards (seatClaimed tm name email bs st) = bs"
  by (simp_all add: seatClaimed_def setMember_def bumpRevision_def recordSeatTenure_def seatedMember_def case_prod_beta)

lemma signed_fields [simp]:
  "members (signedUp env tm name email d motif bs st) = members (seatClaimed tm name email bs st)"
  "coInvites (signedUp env tm name email d motif bs st) = coInvites st" "boards (signedUp env tm name email d motif bs st) = bs"
  by (simp_all add: signedUp_def normalizeIdentityCollections_def Let_def)

lemma open_seat_free: "openSeat active st = Some tm \<Longrightarrow> teamID tm \<notin> memTeam ` snd ` set (members st)"
  by (auto simp: openSeat_def find_Some_iff image_image)

lemma claim_OK:
  assumes "openSeat active st = Some tm" "e \<noteq> []" "resolve as e = e" "seatsOK as st"
  shows "seatSound as (AList.update e (seatedMember (teamID tm) name e) (members st)) (coInvites st)"
  by (rule sound_claim) (use assms open_seat_free [OF assms(1)] in \<open>auto simp: seatsOK_def seatedMember_def\<close>)

lemma unseated_OK:
  assumes "e \<noteq> []" "resolve as e = e" "seatsOK as st"
  shows "seatsOK as (st\<lparr>members := AList.update e (seatedMember [] name e) (members st)\<rparr>)"
proof -
  have "seatSound as (AList.update e (seatedMember [] name e) (members st)) (coInvites st)"
    by (rule sound_claim) (use assms in \<open>auto simp: seatsOK_def seatedMember_def\<close>)
  then show ?thesis by (simp add: seatsOK_def)
qed

lemma rename_OK:
  "memberOf st e = Some m \<Longrightarrow> seatsOK as st \<Longrightarrow> seatSound as (AList.update e (m\<lparr>memName := name\<rparr>) (members st)) (coInvites st)"
  unfolding seatsOK_def memberOf_def by (rule sound_rename) (auto dest: map_of_SomeD)

lemma refresh_keeps: "refreshName e m name ok s = (r, s') \<Longrightarrow> memberOf (stState s) e = Some m \<Longrightarrow> keepsSeats as s s'"
  unfolding refreshName_def
  by (auto simp: seatsOK_def [of _ "stState s\<lparr>members := ms\<rparr>" for ms] rename_OK intro: keeps_restore split: if_splits)

definition stable :: "resolver \<Rightarrow> bool" where
  "stable as \<longleftrightarrow> (\<forall>e. resolve as (resolve as e) = resolve as e)"

lemma resolved: "stable as \<Longrightarrow> resolve as (resolve as e) = resolve as e"
  by (simp add: stable_def)

lemma open_keeps: "claimOpenSeat active e name ok s = (r, s') \<Longrightarrow> e \<noteq> [] \<Longrightarrow> resolve as e = e \<Longrightarrow> keepsSeats as s s'"
  unfolding claimOpenSeat_def Let_def
  by (auto simp: rejected_def seatsOK_def [of _ "seatClaimed tm n e bs st" for tm n bs st] claim_OK intro: keeps_restore split: option.splits)

lemma assign_keeps: "assignMember active as e name ok s = (r, s') \<Longrightarrow> stable as \<Longrightarrow> keepsSeats as s s'"
  unfolding assignMember_def Let_def gated_def
  by (auto simp: rejected_def dest: open_keeps [OF _ _ resolved] refresh_keeps split: if_splits option.splits)

lemma ensure_keeps: "ensureMember as e name ok s = (r, s') \<Longrightarrow> stable as \<Longrightarrow> keepsSeats as s s'"
  unfolding ensureMember_def Let_def gated_def
  by (auto simp: rejected_def dest: refresh_keeps intro: keeps_restore unseated_OK [OF _ resolved] split: if_splits option.splits)

lemma signup_keeps: "claimFantasySeatTransaction env active as e name d motif ok s = (r, s') \<Longrightarrow> stable as \<Longrightarrow> keepsSeats as s s'"
  unfolding claimFantasySeatTransaction_def Let_def gated_def
  by (auto simp: rejected_def seatsOK_def [of _ "signedUp env tm n e d m bs st" for tm n e d m bs st] claim_OK resolved
    intro: keeps_restore split: if_splits option.splits sum.splits)

lemma signup_service_keeps: "claimFantasySeat env active as e name d motif healthy view ok s = (r, s') \<Longrightarrow> stable as \<Longrightarrow> keepsSeats as s s'"
  unfolding claimFantasySeat_def Let_def
  by (auto simp: rejected_def dest: signup_keeps split: if_splits option.splits sum.splits)

lemma invite_keeps: "inviteCoManager env as t e ok s = (r, s') \<Longrightarrow> keepsSeats as s s'"
proof (cases "s' = s")
  case False
  assume run: "inviteCoManager env as t e ok s = (r, s')"
  let ?e = "resolve as (admissionEmail e)" and ?st = "stState s"
  have "seatHolders (members ?st) t CoManager = []" "\<not> list_ex (\<lambda>(candidate, pending). pending = t \<and> candidate \<noteq> ?e) (coInvites ?st)"
    "members (stState s') = members ?st" "coInvites (stState s') = AList.update ?e t (coInvites ?st)"
    using run False unfolding inviteCoManager_def Let_def gated_def rejected_def commitOnly_def by (auto split: if_splits option.splits)
  then show ?thesis using sound_invite unfolding keepsSeats_def seatsOK_def by simp
qed simp

lemma join_keeps:
  assumes "joinSeat as t e ms m ok s = (r, s')" "seatsOK as (stState s) \<Longrightarrow> seatSound as ms (AList.delete e (coInvites (stState s)))"
  shows "keepsSeats as s s'"
  using assms unfolding joinSeat_def Let_def rejected_def
  by (auto simp: seatsOK_def intro: keeps_restore split: option.splits)

lemma bind_keeps:
  assumes "bindCoManager as e name ok s = (r, s')" "stable as"
  shows "keepsSeats as s s'"
proof (cases "s' = s")
  case False
  let ?e = "resolve as e" and ?st = "stState s"
  obtain t where t: "map_of (coInvites ?st) ?e = Some t" "?e \<noteq> []"
    using assms(1) False by (auto simp: bindCoManager_def gated_def rejected_def Let_def split: if_splits option.splits)
  show ?thesis
  proof (cases "\<exists>m. memberOf ?st ?e = Some m \<and> memTeam m \<noteq> []")
    case True
    then obtain m where "memberOf ?st ?e = Some m" "memTeam m \<noteq> []" by blast
    then have "joinSeat as t ?e (members ?st) m ok s = (r, s')"
      using assms(1) False t by (auto simp: bindCoManager_def gated_def rejected_def Let_def split: if_splits)
    then show ?thesis by (rule join_keeps) (simp add: seatsOK_def sound_drop_pending)
  next
    case unseated: False
    then have "joinSeat as t ?e (AList.update ?e (coMember t (trimSpace name) ?e) (members ?st)) (coMember t (trimSpace name) ?e) ok s = (r, s')"
      using assms(1) False t by (auto simp: bindCoManager_def gated_def rejected_def Let_def split: if_splits option.splits)
    then show ?thesis
    proof (rule join_keeps)
      assume ok: "seatsOK as ?st"
      have "memTeam m = []" if "(?e, m) \<in> set (members ?st)" for m
        using unseated that ok unfolding seatsOK_def seatSound_def memberOf_def by (metis map_of_eq_Some_iff)
      then show "seatSound as (AList.update ?e (coMember t (trimSpace name) ?e) (members ?st)) (AList.delete ?e (coInvites ?st))"
        using ok t resolved [OF assms(2)] unfolding seatsOK_def by (intro sound_join) auto
    qed
  qed
qed simp

lemma confirm_keeps: "confirmCoManagerJoin as user ok s = (r, s') \<Longrightarrow> stable as \<Longrightarrow> keepsSeats as s s'"
  unfolding confirmCoManagerJoin_def rejected_def
  by (auto dest: bind_keeps split: option.splits prod.splits sum.splits)

lemma filtered_keeps:
  assumes "stState s' = stState s \<or> (members (stState s') = filter P (members (stState s)) \<and> coInvites (stState s') = filter Q (coInvites (stState s)))"
  shows "keepsSeats as s s'"
  using assms sound_filter unfolding keepsSeats_def seatsOK_def by metis

lemma detach_keeps: "detachCoManager env t ok s = (r, s') \<Longrightarrow> keepsSeats as s s'"
  unfolding detachCoManager_def Let_def gated_def rejected_def commitOnly_def
  by (rule filtered_keeps [where P = "\<lambda>x. \<not> (case x of (e, m) \<Rightarrow> memTeam m = t \<and> memRole m = CoManager)" and
        Q = "\<lambda>x. \<not> (case x of (e, p) \<Rightarrow> p = t)"]) (auto split: if_splits)

lemma released_fields [simp]:
  "members (releasedState t bs st) = filter (\<lambda>(e, m). memTeam m \<noteq> t) (members st)"
  "coInvites (releasedState t bs st) = filter (\<lambda>(e, p). p \<noteq> t) (coInvites st)" "boards (releasedState t bs st) = bs"
  by (simp_all add: releasedState_def bumpRevision_def)

lemma release_cases:
  assumes "releaseSeat env active as sha t c ok s = (r, s')"
  shows "s' = s \<or> (\<exists>bs. escrowedBoards as (stState s) t = Some bs \<and> stState s' = releasedState t bs (stState s) \<and> r = Inr ())"
  using assms unfolding releaseSeat_def Let_def gated_def rejected_def commitOrRestore_def
  by (auto split: if_splits option.splits prod.splits)

lemma release_keeps: "releaseSeat env active as sha t c ok s = (r, s') \<Longrightarrow> keepsSeats as s s'"
  using release_cases [of env active as sha t c ok s r s']
  by (intro filtered_keeps [where P = "\<lambda>(e, m). memTeam m \<noteq> t" and Q = "\<lambda>(e, p). p \<noteq> t"]) auto

lemma reset_fields [simp]: "members (resetState active st) = []" "coInvites (resetState active st) = []" "boards (resetState active st) = []"
  by (simp_all add: resetState_def clearClockFields_def disarmed_def)

lemma reset_keeps:
  assumes "resetLeague active res reread s = (r, s')"
  shows "keepsSeats as s s'"
proof -
  have "stState s' = stState s \<or> stState s' = resetState active (stState s)"
    using assms unfolding resetLeague_def Let_def gated_def by (auto split: if_splits persist_result.splits read_back.splits)
  moreover have "seatSound as [] []" by (simp add: seatSound_def)
  ultimately show ?thesis by (auto simp: keepsSeats_def seatsOK_def)
qed

section \<open>Boards\<close>

definition boardsOK :: "(string \<times> player_id list) list \<Rightarrow> bool" where
  "boardsOK bs \<longleftrightarrow> distinct (map fst bs) \<and> (\<forall>(k, b)\<in>set bs. distinct b \<and> length b \<le> boardLimit)"

lemma boardOf_OK: "boardsOK bs \<Longrightarrow> distinct (boardOf bs k) \<and> length (boardOf bs k) \<le> boardLimit"
  by (auto simp: boardsOK_def boardOf_def split: option.splits dest: map_of_SomeD)

lemma boards_update: "boardsOK bs \<Longrightarrow> distinct b \<Longrightarrow> length b \<le> boardLimit \<Longrightarrow> boardsOK (AList.update k b bs)"
  by (auto simp: boardsOK_def update_set distinct_update)

lemma boards_delete: "boardsOK bs \<Longrightarrow> boardsOK (AList.delete k bs)"
  by (auto simp: boardsOK_def delete_set distinct_delete)

lemma boards_delete_all: "boardsOK bs \<Longrightarrow> boardsOK (fold AList.delete ks bs)"
  by (induction ks arbitrary: bs) (auto simp: boards_delete)

lemma boardOf_update: "boardOf (AList.update k b bs) j = (if j = k then b else boardOf bs j)"
  by (simp add: boardOf_def update_conv')

lemma boardOf_delete: "boardOf (AList.delete k bs) j = (if j = k then [] else boardOf bs j)"
  by (simp add: boardOf_def delete_conv')

lemma boardOf_delete_all: "j \<notin> set ks \<Longrightarrow> map_of (fold AList.delete ks bs) j = map_of bs j"
  by (induction ks arbitrary: bs) auto

lemma merge_OK:
  "mergeInto merged ps = Some r \<Longrightarrow> distinct merged \<Longrightarrow> length merged \<le> boardLimit \<Longrightarrow>
    distinct r \<and> length r \<le> boardLimit \<and> set r = set merged \<union> set ps \<and> take (length merged) r = merged"
proof (induction merged ps rule: mergeInto.induct)
  case (2 merged p ps)
  show ?case
  proof (cases "p \<in> set merged")
    case True
    then show ?thesis using 2 by auto
  next
    case False
    then have "length (merged @ [p]) \<le> boardLimit" "mergeInto (merged @ [p]) ps = Some r" using 2(3) by (auto split: if_splits)
    then have r: "distinct r \<and> length r \<le> boardLimit \<and> set r = set (merged @ [p]) \<union> set ps \<and> take (length (merged @ [p])) r = merged @ [p]"
      using 2(2,4) False by (auto simp del: length_append)
    have "take (length merged) (take (length (merged @ [p])) r) = take (length merged) r" by (simp add: min_def)
    then have "take (length merged) (merged @ [p]) = take (length merged) r" using r by metis
    then show ?thesis using r by simp
  qed
qed simp

lemma merge_first: "distinct (merged @ b) \<Longrightarrow> length (merged @ b) \<le> boardLimit \<Longrightarrow> mergeInto merged (b @ ps) = mergeInto (merged @ b) ps"
  by (induction b arbitrary: merged) auto

lemma merged_OK: "mergeUniqueBoardOrders orders = Some r \<Longrightarrow> distinct r \<and> length r \<le> boardLimit"
  using merge_OK [of "[]" "concat orders" r] by (simp add: mergeUniqueBoardOrders_def)

lemma merged_prefix:
  assumes "mergeUniqueBoardOrders (b # orders) = Some r" "distinct b" "length b \<le> boardLimit"
  shows "take (length b) r = b"
  using merge_OK [of b "concat orders" r] merge_first [of "[]" b "concat orders"] assms by (simp add: mergeUniqueBoardOrders_def)

lemma promoted_OK: "promotedBoards t e bs = Some bs' \<Longrightarrow> boardsOK bs \<Longrightarrow> boardsOK bs'"
  by (auto simp: promotedBoards_def dest: merged_OK intro!: boards_delete boards_update split: option.splits)

lemma legacy_OK: "mergeLegacyCoBoard as st t e = Some bs \<Longrightarrow> boardsOK (boards st) \<Longrightarrow> boardsOK bs"
  by (auto simp: mergeLegacyCoBoard_def Let_def dest: merged_OK intro!: boards_delete boards_update split: option.splits if_splits)

lemma escrowed_OK: "escrowedBoards as st t = Some bs \<Longrightarrow> boardsOK (boards st) \<Longrightarrow> boardsOK bs"
  by (auto simp: escrowedBoards_def dest: merged_OK intro!: boards_delete_all boards_update split: option.splits if_splits)

lemma moved_mset: "pos < length b \<Longrightarrow> mset (moveEntry pos i b) = mset b"
proof -
  assume pos: "pos < length b"
  let ?rest = "take pos b @ drop (Suc pos) b"
  have "mset (moveEntry pos i b) = mset (take i ?rest @ drop i ?rest) + {#b ! pos#}" by (simp add: moveEntry_def Let_def)
  also have "\<dots> = mset ?rest + {#b ! pos#}" by (simp only: append_take_drop_id)
  also have "\<dots> = mset b" using id_take_nth_drop [OF pos] by (metis add_mset_add_single mset.simps(2) mset_append union_mset_add_mset_right)
  finally show ?thesis .
qed

lemma mset_board: "mset b' = mset b \<Longrightarrow> distinct b \<and> length b \<le> boardLimit \<Longrightarrow> distinct b' \<and> length b' \<le> boardLimit"
  by (metis mset_eq_imp_distinct_iff size_mset)

section \<open>The club over its life\<close>

text \<open>
  Every operation on seats and boards, with arbitrary stale views for the Service actions that decide on a snapshot;
  everything else leaves members, pending co-managers and boards alone.
\<close>

inductive seat_step :: "league_env \<Rightarrow> team list \<Rightarrow> resolver \<Rightarrow> (string \<Rightarrow> string) \<Rightarrow> store \<Rightarrow> store \<Rightarrow> bool" for env active as sha where
  assign: "assignMember active as e name ok s = (r, s') \<Longrightarrow> seat_step env active as sha s s'"
| ensure: "ensureMember as e name ok s = (r, s') \<Longrightarrow> seat_step env active as sha s s'"
| signup: "claimFantasySeat env active as e name d motif healthy view ok s = (r1, s') \<Longrightarrow> seat_step env active as sha s s'"
| signup_direct: "claimFantasySeatTransaction env active as e name d motif ok s = (r1, s') \<Longrightarrow> seat_step env active as sha s s'"
| invite: "serviceInviteCoManager env demo as user view t e ok s = (r2, s') \<Longrightarrow> seat_step env active as sha s s'"
| join: "confirmCoManagerJoin as who ok s = (r1, s') \<Longrightarrow> seat_step env active as sha s s'"
| detach: "serviceDetachCoManager env demo as user commissioner view t ok s = (r2, s') \<Longrightarrow> seat_step env active as sha s s'"
| release: "releaseSeat env active as sha t c ok s = (r2, s') \<Longrightarrow> seat_step env active as sha s s'"
| reset: "resetLeague active res reread s = (r2, s') \<Longrightarrow> seat_step env active as sha s s'"
| board_add: "boardAdd as e p ok s = (r3, s') \<Longrightarrow> seat_step env active as sha s s'"
| board_move: "boardMove as e p delta ok s = (r3, s') \<Longrightarrow> seat_step env active as sha s s'"
| board_move_to: "boardMoveTo as e p i ok s = (r3, s') \<Longrightarrow> seat_step env active as sha s s'"
| board_remove: "boardRemove as e p ok s = (r3, s') \<Longrightarrow> seat_step env active as sha s s'"
| board_remove_taken: "boardRemoveTaken as e taken ok s = (r4, s') \<Longrightarrow> seat_step env active as sha s s'"
| board_clear: "boardClear as e ok s = (r3, s') \<Longrightarrow> seat_step env active as sha s s'"
| other: "members (stState s') = members (stState s) \<Longrightarrow> coInvites (stState s') = coInvites (stState s) \<Longrightarrow>
    boards (stState s') = boards (stState s) \<Longrightarrow> seat_step env active as sha s s'"

lemma board_frames:
  "boardAdd as e p ok s = (r, s') \<Longrightarrow> keepsSeats as s s'"
  "boardMove as e p delta ok s = (r, s') \<Longrightarrow> keepsSeats as s s'"
  "boardMoveTo as e p i ok s = (r, s') \<Longrightarrow> keepsSeats as s s'"
  "boardRemove as e p ok s = (r, s') \<Longrightarrow> keepsSeats as s s'"
  "boardRemoveTaken as e taken ok s = (r', s') \<Longrightarrow> keepsSeats as s s'"
  "boardClear as e ok s = (r, s') \<Longrightarrow> keepsSeats as s s'"
  unfolding boardAdd_def boardMove_def boardMoveTo_def boardRemove_def boardRemoveTaken_def boardClear_def Let_def gated_def rejected_def commitOnly_def
  by (auto intro!: keeps_same_seats split: if_splits option.splits)

lemma seat_step_keeps: "seat_step env active as sha s s' \<Longrightarrow> stable as \<Longrightarrow> keepsSeats as s s'"
proof (induction rule: seat_step.induct)
  case (invite demo user view t e ok s r2 s')
  then show ?case by (auto simp: serviceInviteCoManager_def rejected_def Let_def dest: invite_keeps split: if_splits)
next
  case (detach demo user commissioner view t ok s r2 s')
  then show ?case by (auto simp: serviceDetachCoManager_def rejected_def Let_def dest: detach_keeps split: if_splits)
next
  case (other s' s)
  then show ?case by (intro keeps_same_seats)
qed (auto dest: assign_keeps ensure_keeps signup_service_keeps signup_keeps confirm_keeps release_keeps reset_keeps board_frames)

definition keepsBoards :: "store \<Rightarrow> store \<Rightarrow> bool" where
  "keepsBoards s s' \<longleftrightarrow> (boardsOK (boards (stState s)) \<longrightarrow> boardsOK (boards (stState s')))"

lemma boards_same: "boards (stState s') = boards (stState s) \<Longrightarrow> keepsBoards s s'"
  by (simp add: keepsBoards_def)

lemma boards_self [simp]: "keepsBoards s s"
  by (simp add: keepsBoards_def)

lemma boards_to: "boards (stState s') = bs \<Longrightarrow> (boardsOK (boards (stState s)) \<Longrightarrow> boardsOK bs) \<Longrightarrow> keepsBoards s s'"
  by (simp add: keepsBoards_def)

lemma refresh_boards: "refreshName e m name ok s = (r, s') \<Longrightarrow> boards (stState s') = boards (stState s)"
  by (auto simp: refreshName_def commitOrRestore_def split: if_splits)

lemma open_boards: "claimOpenSeat active e name ok s = (r, s') \<Longrightarrow> keepsBoards s s'"
  unfolding claimOpenSeat_def Let_def rejected_def commitOrRestore_def
  by (auto simp: keepsBoards_def promoted_OK split: option.splits if_splits)

lemma assign_boards: "assignMember active as e name ok s = (r, s') \<Longrightarrow> keepsBoards s s'"
  unfolding assignMember_def Let_def gated_def rejected_def
  by (auto dest: open_boards intro: boards_same [OF refresh_boards] split: if_splits option.splits)

lemma ensure_boards: "ensureMember as e name ok s = (r, s') \<Longrightarrow> keepsBoards s s'"
  unfolding ensureMember_def Let_def gated_def rejected_def commitOrRestore_def
  by (auto simp: keepsBoards_def dest: refresh_boards split: if_splits option.splits)

lemma signup_boards: "claimFantasySeatTransaction env active as e name d motif ok s = (r, s') \<Longrightarrow> keepsBoards s s'"
  unfolding claimFantasySeatTransaction_def Let_def gated_def rejected_def commitOrRestore_def
  by (auto simp: keepsBoards_def promoted_OK split: if_splits option.splits sum.splits)

lemma signup_service_boards: "claimFantasySeat env active as e name d motif healthy view ok s = (r, s') \<Longrightarrow> keepsBoards s s'"
  unfolding claimFantasySeat_def Let_def rejected_def
  by (auto dest: signup_boards split: if_splits option.splits sum.splits)

lemma invite_boards: "inviteCoManager env as t e ok s = (r, s') \<Longrightarrow> keepsBoards s s'"
  unfolding inviteCoManager_def Let_def gated_def rejected_def commitOnly_def
  by (auto intro!: boards_same split: if_splits option.splits)

lemma join_boards: "joinSeat as t e ms m ok s = (r, s') \<Longrightarrow> keepsBoards s s'"
  unfolding joinSeat_def Let_def rejected_def commitOrRestore_def
  by (auto simp: keepsBoards_def dest: legacy_OK split: if_splits option.splits)

lemma bind_boards: "bindCoManager as e name ok s = (r, s') \<Longrightarrow> keepsBoards s s'"
  unfolding bindCoManager_def Let_def gated_def rejected_def
  by (auto dest: join_boards split: if_splits option.splits)

lemma detach_boards: "detachCoManager env t ok s = (r, s') \<Longrightarrow> keepsBoards s s'"
  unfolding detachCoManager_def Let_def gated_def rejected_def commitOnly_def
  by (auto intro!: boards_same split: if_splits)

lemma release_boards: "releaseSeat env active as sha t c ok s = (r, s') \<Longrightarrow> keepsBoards s s'"
  using release_cases [of env active as sha t c ok s r s'] by (auto simp: keepsBoards_def escrowed_OK)

lemma reset_boards: "resetLeague active res reread s = (r, s') \<Longrightarrow> keepsBoards s s'"
  unfolding resetLeague_def Let_def gated_def
  by (auto simp: keepsBoards_def boardsOK_def split: if_splits persist_result.splits read_back.splits)

lemma changed_board:
  assumes "stState s' = stState s\<lparr>boards := AList.update k b (boards (stState s))\<rparr>"
    and "boardsOK (boards (stState s)) \<Longrightarrow> distinct b \<and> length b \<le> boardLimit"
  shows "keepsBoards s s'"
  using assms boards_update by (auto simp: keepsBoards_def)

lemma add_boards: "boardAdd as e p ok s = (r, s') \<Longrightarrow> keepsBoards s s'"
  unfolding boardAdd_def Let_def gated_def rejected_def commitOnly_def
  using boardOf_OK [of "boards (stState s)" "resolve as e"] by (auto intro!: changed_board split: if_splits)

lemma move_boards: "boardMove as e p delta ok s = (r, s') \<Longrightarrow> keepsBoards s s'"
proof (cases "s' = s")
  case False
  assume run: "boardMove as e p delta ok s = (r, s')"
  let ?b = "boardOf (boards (stState s)) (resolve as e)"
  obtain i where i: "indexWhere (\<lambda>q. q = p) ?b = Some i" "\<not> (int i + delta < 0 \<or> int (length ?b) \<le> int i + delta)"
    "stState s' = stState s\<lparr>boards := AList.update (resolve as e) (swapAt i (nat (int i + delta)) ?b) (boards (stState s))\<rparr>"
    using run False unfolding boardMove_def Let_def gated_def rejected_def commitOnly_def by (auto split: if_splits option.splits)
  have "i < length ?b" using indexWhere_Some [OF i(1)] by simp
  then have "mset (swapAt i (nat (int i + delta)) ?b) = mset ?b" using i(2) by (intro mset_swapAt) auto
  from mset_board [OF this] show ?thesis by (intro changed_board [OF i(3)]) (auto dest: boardOf_OK)
qed simp

lemma move_to_boards: "boardMoveTo as e p j ok s = (r, s') \<Longrightarrow> keepsBoards s s'"
proof (cases "s' = s")
  case False
  assume run: "boardMoveTo as e p j ok s = (r, s')"
  let ?b = "boardOf (boards (stState s)) (resolve as e)"
  obtain i where i: "indexWhere (\<lambda>q. q = p) ?b = Some i"
    "stState s' = stState s\<lparr>boards := AList.update (resolve as e) (moveEntry i (clampIndex j (length ?b)) ?b) (boards (stState s))\<rparr>"
    using run False unfolding boardMoveTo_def Let_def gated_def rejected_def commitOnly_def by (auto split: if_splits option.splits)
  have "i < length ?b" using indexWhere_Some [OF i(1)] by simp
  from mset_board [OF moved_mset [OF this]] show ?thesis by (intro changed_board [OF i(2)]) (auto dest: boardOf_OK)
qed simp

lemma filter_board: "distinct b \<and> length b \<le> boardLimit \<Longrightarrow> distinct (filter P b) \<and> length (filter P b) \<le> boardLimit"
  by (auto intro: le_trans [OF length_filter_le])

lemma remove_boards: "boardRemove as e p ok s = (r, s') \<Longrightarrow> keepsBoards s s'"
  unfolding boardRemove_def Let_def gated_def rejected_def commitOnly_def
  by (auto intro!: changed_board dest: filter_board [OF boardOf_OK] split: if_splits)

lemma taken_boards: "boardRemoveTaken as e taken ok s = (r, s') \<Longrightarrow> keepsBoards s s'"
  unfolding boardRemoveTaken_def Let_def gated_def rejected_def commitOnly_def
  by (auto intro!: changed_board dest: filter_board [OF boardOf_OK] split: if_splits)

lemma clear_boards: "boardClear as e ok s = (r, s') \<Longrightarrow> keepsBoards s s'"
  unfolding boardClear_def Let_def gated_def commitOnly_def
  by (auto simp: keepsBoards_def boards_delete split: if_splits)

lemma seat_step_boards: "seat_step env active as sha s s' \<Longrightarrow> keepsBoards s s'"
proof (induction rule: seat_step.induct)
  case (invite demo user view t e ok s r2 s')
  then show ?case by (auto simp: serviceInviteCoManager_def rejected_def Let_def dest: invite_boards split: if_splits)
next
  case (join who ok s r1 s')
  then show ?case by (auto simp: confirmCoManagerJoin_def rejected_def dest: bind_boards split: option.splits prod.splits sum.splits)
next
  case (detach demo user commissioner view t ok s r2 s')
  then show ?case by (auto simp: serviceDetachCoManager_def rejected_def Let_def dest: detach_boards split: if_splits)
qed (auto intro: boards_same dest: assign_boards ensure_boards signup_service_boards signup_boards release_boards reset_boards
  add_boards move_boards move_to_boards remove_boards taken_boards clear_boards)

section \<open>Properties\<close>

lemma at_most_one:
  assumes "distinct xs" "\<And>x y. x \<in> set xs \<Longrightarrow> y \<in> set xs \<Longrightarrow> P x \<Longrightarrow> P y \<Longrightarrow> x = y"
  shows "length (filter P xs) \<le> 1"
proof -
  have "card (set (filter P xs)) \<le> 1" by (rule card_le_Suc0_iff_eq [THEN iffD2, THEN order_trans]) (use assms(2) in auto)
  then show ?thesis using distinct_card [OF distinct_filter [OF assms(1), of P]] by simp
qed

lemma holders_entries: "length (seatHolders ms t r) = length (filter (\<lambda>(e, m). memTeam m = t \<and> memRole m = r) ms)"
  unfolding seatHolders_def by (induction ms) auto

lemma sound_counts:
  assumes "seatSound as ms cs" "t \<noteq> []"
  shows "length (seatHolders ms t r) \<le> 1" "length (seatHolders ms t CoManager) + length (filter (\<lambda>(e, p). p = t) cs) \<le> 1"
proof -
  have d: "distinct ms" "distinct cs" using assms(1) by (auto simp: seatSound_def distinct_map)
  show one: "length (seatHolders ms t r) \<le> 1" for r
    unfolding holders_entries
  proof (rule at_most_one [OF d(1)])
    fix x y assume a: "x \<in> set ms" "y \<in> set ms" "case x of (e, m) \<Rightarrow> memTeam m = t \<and> memRole m = r" "case y of (e, m) \<Rightarrow> memTeam m = t \<and> memRole m = r"
    obtain e m e' m' where xy: "x = (e, m)" "y = (e', m')" by (cases x; cases y)
    then have "e' = e" using a assms unfolding seatSound_def by auto
    then show "x = y" using a(1,2) sound_unique [OF assms(1)] unfolding xy by auto
  qed
  have pend: "length (filter (\<lambda>(e, p). p = t) cs) \<le> 1"
    by (rule at_most_one [OF d(2)]) (use assms in \<open>auto simp: seatSound_def\<close>)
  have "seatHolders ms t CoManager = [] \<or> filter (\<lambda>(e, p). p = t) cs = []"
    using assms(1) unfolding seatSound_def seatHolders_def filter_empty_conv by fastforce
  then show "length (seatHolders ms t CoManager) + length (filter (\<lambda>(e, p). p = t) cs) \<le> 1" using one pend by auto
qed

lemma seats_run: "(seat_step env active as sha)\<^sup>*\<^sup>* s s' \<Longrightarrow> stable as \<Longrightarrow> seatsOK as (stState s) \<Longrightarrow> seatsOK as (stState s')"
  by (induction rule: rtranclp_induct) (auto dest: seat_step_keeps simp: keepsSeats_def)

lemma boards_run: "(seat_step env active as sha)\<^sup>*\<^sup>* s s' \<Longrightarrow> boardsOK (boards (stState s)) \<Longrightarrow> boardsOK (boards (stState s'))"
  by (induction rule: rtranclp_induct) (auto dest: seat_step_boards simp: keepsBoards_def)

lemma resolver_stable: "newResolver parse mappings = Inr as \<Longrightarrow> stable as"
  by (simp add: stable_def resolve_again)

text \<open>
  C17: A seat is never shared beyond its two places. Under any claims, sign-ups, co-manager invitations, joins and
  removals, releases and resets, in any order and decided on views of any age, every team has at most one primary
  manager and at most one co-manager, counting an invitation that is still pending.
\<close>

theorem seats_never_shared:
  assumes "newResolver parse mappings = Inr as" "(seat_step env active as sha)\<^sup>*\<^sup>* s s'" "seatsOK as (stState s)" "t \<noteq> []"
  shows "length (seatHolders (members (stState s')) t PrimaryManager) \<le> 1 \<and>
    length (seatHolders (members (stState s')) t CoManager) + length (filter (\<lambda>(e, p). p = t) (coInvites (stState s'))) \<le> 1"
  using sound_counts [of as "members (stState s')" "coInvites (stState s')" t]
    seats_run [OF assms(2) resolver_stable [OF assms(1)] assms(3)] assms(4) unfolding seatsOK_def by blast

text \<open>
  Every ranked board names each player once and holds at most a hundred. Adding, moving, removing, clearing,
  and the merges of boards when a seat is released, claimed again or joined by a co-manager keep it so.
\<close>

theorem boards_stay_bounded:
  assumes "(seat_step env active as sha)\<^sup>*\<^sup>* s s'" "boardsOK (boards (stState s))"
  shows "distinct (boardOf (boards (stState s')) owner) \<and> length (boardOf (boards (stState s')) owner) \<le> 100"
  using boardOf_OK [OF boards_run [OF assms], of owner] by (simp add: boardLimit_def)

lemma assign_claimed:
  assumes "assignMember active as e name ok s = (Inr (m, True), s')"
  obtains tm bs where "openSeat active (stState s) = Some tm" "memTeam m = teamID tm"
    "promotedBoards (teamID tm) (resolve as e) (boards (stState s)) = Some bs" "boards (stState s') = bs"
proof -
  have "\<exists>name'. claimOpenSeat active (resolve as e) name' ok s = (Inr (m, True), s')"
    using assms by (auto simp: assignMember_def Let_def gated_def rejected_def refreshName_def commitOrRestore_def split: if_splits option.splits)
  then obtain n where c: "claimOpenSeat active (resolve as e) n ok s = (Inr (m, True), s')" by blast
  then obtain tm where tm: "openSeat active (stState s) = Some tm" by (auto simp: claimOpenSeat_def rejected_def Let_def split: option.splits)
  then obtain bs where bs: "promotedBoards (teamID tm) (resolve as e) (boards (stState s)) = Some bs"
    using c by (auto simp: claimOpenSeat_def rejected_def Let_def split: option.splits)
  have "memTeam m = teamID tm" "boards (stState s') = bs"
    using c by (auto simp: claimOpenSeat_def Let_def tm bs commitOrRestore_def seatedMember_def split: if_splits)
  then show thesis using that tm bs by blast
qed

lemma primary_first:
  assumes "seatSound as ms cs" "(e, m) \<in> set ms" "memTeam m = t" "memRole m = PrimaryManager" "t \<noteq> []"
  shows "\<exists>rest. teamMembers ms t = m # rest"
proof -
  have "m \<in> set (seatHolders ms t PrimaryManager)" using assms(2-4) by (force simp: seatHolders_def)
  moreover have "length (seatHolders ms t PrimaryManager) \<le> 1" by (rule sound_counts [OF assms(1,5)])
  ultimately have "seatHolders ms t PrimaryManager = [m]" by (cases "seatHolders ms t PrimaryManager") auto
  then show ?thesis by (simp add: teamMembers_def)
qed

lemma take_prefix: "take (length a) b = a \<Longrightarrow> take (length b) c = b \<Longrightarrow> take (length a) c = a"
  by (metis length_take min.absorb_iff1 min.cobounded2 take_take)

lemma released_escrow:
  assumes "seatSound as (members st) cs" "(e, m) \<in> set (members st)" "memTeam m = t" "memRole m = PrimaryManager" "t \<noteq> []"
    "e \<noteq> seatBoardEscrowKey t" "boardsOK (boards st)" "escrowedBoards as st t = Some bs"
  obtains board where "map_of bs (seatBoardEscrowKey t) = Some board" "take (length (boardOf (boards st) e)) board = boardOf (boards st) e"
proof -
  obtain rest where tm: "teamMembers (members st) t = m # rest" using primary_first [OF assms(1-5)] by blast
  have "memEmail m = e" "resolve as e = e" "e \<noteq> []" using assms(1,2) unfolding seatSound_def by blast+
  then obtain owners where owners: "escrowOwners as st t = e # owners" using tm assms(6) by (simp add: escrowOwners_def)
  have no: "seatBoardEscrowKey t \<notin> set (escrowOwners as st t)" by (simp add: escrowOwners_def)
  obtain board where b: "mergeUniqueBoardOrders (map (boardOf (boards st)) (escrowOwners as st t) @
      (case map_of (boards st) (seatBoardEscrowKey t) of None \<Rightarrow> [] | Some b \<Rightarrow> [b])) = Some board"
    "bs = fold AList.delete (escrowOwners as st t) (AList.update (seatBoardEscrowKey t) board (boards st))"
    using assms(8) tm by (auto simp: escrowedBoards_def split: option.splits)
  have "map_of bs (seatBoardEscrowKey t) = Some board" unfolding b(2) boardOf_delete_all [OF no] by (simp add: update_conv')
  moreover have "take (length (boardOf (boards st) e)) board = boardOf (boards st) e"
    using b(1) boardOf_OK [OF assms(7), of e] unfolding owners list.map append_Cons by (intro merged_prefix) auto
  ultimately show thesis using that by blast
qed

text \<open>
  C37: The board of a released seat comes back with the seat. When a seat with a primary manager is released and the
  next claim takes it, the new manager's board begins with the old manager's board, entry by entry, and loses
  nothing of what the claimant had ranked before.
\<close>

theorem released_board_returns:
  assumes "seatsOK as (stState s)" "boardsOK (boards (stState s))"
    and "(e, m) \<in> set (members (stState s))" "memTeam m = t" "memRole m = PrimaryManager" "t \<noteq> []" "e \<noteq> seatBoardEscrowKey t"
    and "releaseSeat env active as sha t c ok s = (Inr (), s')"
    and "assignMember active as claimant name ok' s' = (Inr (m', True), s'')" "memTeam m' = t" "resolve as claimant \<noteq> seatBoardEscrowKey t"
  shows "take (length (boardOf (boards (stState s)) e)) (boardOf (boards (stState s'')) (resolve as claimant)) = boardOf (boards (stState s)) e \<and>
    set (boardOf (boards (stState s')) (resolve as claimant)) \<subseteq> set (boardOf (boards (stState s'')) (resolve as claimant))"
proof -
  let ?esc = "seatBoardEscrowKey t"
  obtain tm bs2 where a: "openSeat active (stState s') = Some tm" "teamID tm = t"
    "promotedBoards t (resolve as claimant) (boards (stState s')) = Some bs2" "boards (stState s'') = bs2"
    by (rule assign_claimed [OF assms(9)]) (use assms(10) in auto)
  have "s' \<noteq> s" using open_seat_free [OF a(1)] a(2) assms(3,4) by (metis image_eqI snd_conv)
  then obtain bs1 where r: "escrowedBoards as (stState s) t = Some bs1" "stState s' = releasedState t bs1 (stState s)"
    using release_cases [OF assms(8)] by blast
  obtain board where board: "map_of bs1 ?esc = Some board" "take (length (boardOf (boards (stState s)) e)) board = boardOf (boards (stState s)) e"
    by (rule released_escrow [OF assms(1) [unfolded seatsOK_def] assms(3-7) assms(2) r(1)])
  obtain b2 where b2: "mergeUniqueBoardOrders [board, boardOf bs1 (resolve as claimant)] = Some b2"
    "bs2 = AList.delete ?esc (AList.update (resolve as claimant) b2 bs1)"
    using a(3) board(1) by (auto simp: promotedBoards_def r(2) split: option.splits)
  have "boardsOK bs1" by (rule escrowed_OK [OF r(1) assms(2)])
  then have "distinct board \<and> length board \<le> boardLimit" using board(1) boardOf_OK [of bs1 ?esc] by (simp add: boardOf_def)
  then have "take (length board) b2 = board" using b2(1) by (intro merged_prefix) auto
  moreover have "boardOf bs2 (resolve as claimant) = b2" using assms(11) by (simp add: b2(2) boardOf_delete boardOf_update)
  moreover have "set (boardOf bs1 (resolve as claimant)) \<subseteq> set b2"
    using merge_OK [of "[]" "concat [board, boardOf bs1 (resolve as claimant)]" b2] b2(1) by (auto simp: mergeUniqueBoardOrders_def)
  ultimately show ?thesis using take_prefix [OF board(2)] by (simp add: a(4) r(2))
qed

section \<open>A league of two seats\<close>

definition seatTeams :: "team list" where "seatTeams = [sampleTeam ''a'', sampleTeam ''b'']"

definition claimedBy :: "string \<Rightarrow> store \<Rightarrow> (store, seat_action_error, member \<times> bool) outcome" where
  "claimedBy e s = assignMember seatTeams [] e ''Someone'' True s"

definition ranked :: "string \<Rightarrow> player_id \<Rightarrow> store \<Rightarrow> store" where
  "ranked e p s = snd (boardAdd [] e p True s)"

definition clubOpen :: store where "clubOpen = sampleStore freshState"

definition clubRanked :: store where
  "clubRanked = ranked ''bob@x'' ''p1'' (ranked ''bob@x'' ''p3'' (ranked ''ann@x'' ''p2'' (ranked ''ann@x'' ''p1'' (snd (claimedBy ''Ann@X'' clubOpen)))))"

definition clubReleased :: "(store, seat_action_error, unit) outcome" where
  "clubReleased = releaseSeat sampleEnv seatTeams [] (\<lambda>x. x) ''a'' None True clubRanked"

lemma club_run: "(seat_step sampleEnv seatTeams [] (\<lambda>x. x))\<^sup>*\<^sup>* clubOpen clubRanked"
proof -
  have add: "(seat_step sampleEnv seatTeams [] (\<lambda>x. x))\<^sup>*\<^sup>* s (ranked e p s)" for s e p
    unfolding ranked_def by (intro r_into_rtranclp seat_step.board_add) (rule prod.collapse [symmetric])
  have "(seat_step sampleEnv seatTeams [] (\<lambda>x. x))\<^sup>*\<^sup>* clubOpen (snd (claimedBy ''Ann@X'' clubOpen))"
    unfolding claimedBy_def by (intro r_into_rtranclp seat_step.assign) (rule prod.collapse [symmetric])
  then show ?thesis unfolding clubRanked_def by (intro rtranclp_trans [OF _ add])
qed

lemma club_open: "seatsOK as (stState clubOpen)" "boardsOK (boards (stState clubOpen))"
  by (simp_all add: seatsOK_def seatSound_def boardsOK_def clubOpen_def sampleStore_def freshState_def)

theorem seats_never_shared_witness:
  "length (seatHolders (members (stState clubRanked)) ''a'' PrimaryManager) \<le> 1 \<and> members (stState clubRanked) \<noteq> []"
proof -
  have "newResolver (\<lambda>e. Some e) [] = Inr []" by (simp add: newResolver_def)
  moreover have "members (stState clubRanked) \<noteq> []" by code_simp
  ultimately show ?thesis using seats_never_shared [OF _ club_run club_open(1), of _ _ "''a''"] by blast
qed

theorem boards_stay_bounded_witness:
  "boardOf (boards (stState clubRanked)) ''ann@x'' = [''p1'', ''p2''] \<and> length (boardOf (boards (stState clubRanked)) ''ann@x'') \<le> 100"
proof -
  have "boardOf (boards (stState clubRanked)) ''ann@x'' = [''p1'', ''p2'']" by code_simp
  then show ?thesis using boards_stay_bounded [OF club_run club_open(2), of "''ann@x''"] by blast
qed

theorem released_board_returns_witness:
  "take 2 (boardOf (boards (stState (snd (claimedBy ''bob@x'' (snd clubReleased))))) ''bob@x'') = [''p1'', ''p2'']"
proof -
  let ?s' = "snd clubReleased" and ?e = "''ann@x''"
  define m where "m = \<lparr>memTeam = ''a'', memName = ''Someone'', memEmail = ?e, memRole = PrimaryManager\<rparr>"
  have ok: "seatsOK [] (stState clubRanked)" "boardsOK (boards (stState clubRanked))"
    using seats_run [OF club_run resolver_stable [of "\<lambda>e. Some e" "[]"] club_open(1)] boards_run [OF club_run club_open(2)]
    by (simp_all add: newResolver_def)
  have mem: "(?e, m) \<in> set (members (stState clubRanked))" unfolding m_def by code_simp
  have "fst clubReleased = Inr ()" by code_simp
  then have rel: "releaseSeat sampleEnv seatTeams [] (\<lambda>x. x) ''a'' None True clubRanked = (Inr (), ?s')"
    unfolding clubReleased_def by (metis prod.collapse)
  have "case fst (claimedBy ''bob@x'' ?s') of Inr (m', new) \<Rightarrow> new \<and> memTeam m' = ''a'' | Inl e \<Rightarrow> False" by code_simp
  then obtain m' where claim: "claimedBy ''bob@x'' ?s' = (Inr (m', True), snd (claimedBy ''bob@x'' ?s'))" "memTeam m' = ''a''"
    by (cases "claimedBy ''bob@x'' ?s'") (auto split: sum.splits)
  have keys: "?e \<noteq> seatBoardEscrowKey ''a''" "resolve [] ''bob@x'' \<noteq> seatBoardEscrowKey ''a''" "resolve [] ''bob@x'' = ''bob@x''" by code_simp+
  have old: "boardOf (boards (stState clubRanked)) ?e = [''p1'', ''p2'']" by code_simp
  have "memTeam m = ''a''" "memRole m = PrimaryManager" by (simp_all add: m_def)
  note returned = released_board_returns [OF ok mem this _ keys(1) rel claim(1) [unfolded claimedBy_def] claim(2) keys(2)]
  show ?thesis using returned unfolding old keys(3) claimedBy_def by (simp add: numeral_2_eq_2)
qed

end
