(* ===== verification/Pickem.thy ===== *)
theory Pickem
  imports Postseason Seats Lineups
begin

text \<open>
  Pick'em, the league's contest against the spread (src/internal/league/pickem.go, pickem_market.go and the Pick'em
  mutators of store.go): the weekly freeze of the market lines, the picks, their grading, records, streaks and
  leaderboards. Display names of teams are a parameter; the ranks of a board are numbers, not their two digits.
\<close>

section \<open>Games with scores and lines\<close>

record pickem_game = game_info +
  pgAwayScore :: int
  pgHomeScore :: int
  pgScoresPresent :: bool
  pgLineTenths :: int
  pgLinePresent :: bool
  pgObservedAt :: time
  pgUpdatedAt :: time
  pgSourceURL :: string
  pgProvenance :: string

definition equalFold :: "string \<Rightarrow> string \<Rightarrow> bool" where
  "equalFold a b \<longleftrightarrow> toLower a = toLower b"

text \<open>The index of a game ID is the last one in the schedule.\<close>

definition lastGameIndex :: "string \<Rightarrow> pickem_game list \<Rightarrow> nat option" where
  "lastGameIndex i base = (if i = [] then None
     else fold (\<lambda>k found. if gameID (base ! k) = i then Some k else found) [0..<length base] None)"

definition overlayOne :: "pickem_game list \<Rightarrow> pickem_game \<Rightarrow> pickem_game list \<Rightarrow> pickem_game list" where
  "overlayOne base final out =
     (if gameID final = [] \<or> gameWeek final < 1 \<or> gameAway final = [] \<or> gameHome final = [] \<or> \<not> gameFinal final \<or> \<not> pgScoresPresent final \<or>
         pgAwayScore final < 0 \<or> pgHomeScore final < 0 then out
      else (case lastGameIndex (gameID final) base of None \<Rightarrow> out
      | Some k \<Rightarrow>
          (let game = base ! k in
           if gameWeek game \<noteq> gameWeek final \<or> \<not> equalFold (trimSpace (gameAway game)) (trimSpace (gameAway final)) \<or>
              \<not> equalFold (trimSpace (gameHome game)) (trimSpace (gameHome final)) then out
           else if gameFinal game \<and> pgScoresPresent game then out
           else out[k := game\<lparr>gameFinal := True, pgScoresPresent := True, pgAwayScore := pgAwayScore final, pgHomeScore := pgHomeScore final\<rparr>])))"

definition overlayPickemLiveFinals :: "pickem_game list \<Rightarrow> pickem_game list \<Rightarrow> pickem_game list" where
  "overlayPickemLiveFinals base live = (if base = [] \<or> live = [] then base else fold (overlayOne base) live base)"

definition weekGames :: "pickem_game list \<Rightarrow> int \<Rightarrow> pickem_game list" where
  "weekGames games week = filter (\<lambda>g. gameWeek g = week) games"

definition sortGamesByKickoff :: "pickem_game list \<Rightarrow> pickem_game list" where
  "sortGamesByKickoff games =
     sortStable (\<lambda>a b. if gameKickoff a = gameKickoff b then gameID a < gameID b else gameKickoff a < gameKickoff b) games"

definition gameInfos :: "pickem_game list \<Rightarrow> game_info list" where
  "gameInfos games = map game_info.truncate games"

definition pickemWeek :: "season_schedule option \<Rightarrow> pickem_game list \<Rightarrow> time \<Rightarrow> int" where
  "pickemWeek schedule games now =
     (if pickemWeeks (gameInfos games) = [] then seasonStartWeekForSchedule schedule
      else (let calendar = pickemWeekAt (gameInfos games) now in
        case schedule of None \<Rightarrow> calendar
        | Some sch \<Rightarrow>
            (let current = currentScheduleWeek sch in
             if weekIsFinalInSchedule (Some sch) current
             then (if current + 1 > calendar \<and> current + 1 \<in> set (pickemWeeks (gameInfos games)) then current + 1 else calendar)
             else if current \<in> set (pickemWeeks (gameInfos games)) then current else calendar)))"

section \<open>Grading\<close>

datatype pickem_outcome = PickPending | PickWin | PickLoss | PickMissedLoss | PickVoid

record pickem_grade =
  grOutcome :: pickem_outcome
  grCover :: string
  grPush :: bool
  grAwaitingMarket :: bool

definition graded :: "pickem_outcome \<Rightarrow> pickem_grade" where
  "graded r = \<lparr>grOutcome = r, grCover = [], grPush = False, grAwaitingMarket = False\<rparr>"

definition validPick :: "pickem_game \<Rightarrow> string \<Rightarrow> bool" where
  "validPick g pick \<longleftrightarrow> pick = gameAway g \<or> pick = gameHome g"

definition pickOf :: "(string \<times> string) list \<Rightarrow> string \<Rightarrow> string" where
  "pickOf ps i = (case map_of ps i of None \<Rightarrow> [] | Some t \<Rightarrow> t)"

definition legacyPickemEnteredAt :: "pickem_game list \<Rightarrow> (string \<times> string) list \<Rightarrow> time" where
  "legacyPickemEnteredAt games ps =
     fold (\<lambda>g enteredAt. if isZero (gameKickoff g) \<or> \<not> validPick g (pickOf ps (gameID g)) then enteredAt
        else if isZero enteredAt \<or> gameKickoff g < enteredAt then gameKickoff g else enteredAt) games 0"

definition enteredAtOf :: "persisted_state \<Rightarrow> string \<Rightarrow> time" where
  "enteredAtOf st owner = (case map_of (pickemEnteredAt st) owner of None \<Rightarrow> 0 | Some t \<Rightarrow> t)"

definition picksOf :: "persisted_state \<Rightarrow> string \<Rightarrow> (string \<times> string) list" where
  "picksOf st owner = (case map_of (pickems st) owner of None \<Rightarrow> [] | Some ps \<Rightarrow> ps)"

definition effectivePickemEnteredAt :: "persisted_state \<Rightarrow> string \<Rightarrow> pickem_game list \<Rightarrow> time" where
  "effectivePickemEnteredAt st owner games =
     (if \<not> isZero (enteredAtOf st owner) then enteredAtOf st owner else legacyPickemEnteredAt games (picksOf st owner))"

definition pickemGameIsObligation :: "pickem_game \<Rightarrow> time \<Rightarrow> bool" where
  "pickemGameIsObligation g enteredAt \<longleftrightarrow> \<not> isZero enteredAt \<and> \<not> isZero (gameKickoff g) \<and> \<not> gameKickoff g < enteredAt"

definition pickemEntryAppliesToAnyGame :: "pickem_game list \<Rightarrow> time \<Rightarrow> bool" where
  "pickemEntryAppliesToAnyGame games enteredAt = list_ex (\<lambda>g. pickemGameIsObligation g enteredAt) games"

definition noMarket :: pickem_market where
  "noMarket = \<lparr>mkWeek = 0, mkKickoff = 0, mkAway = [], mkHome = [], mkLockAt = 0, mkLineTenths = 0, mkLinePresent = False, mkObservedAt = 0,
     mkSourceUpdatedAt = 0, mkSourceURL = [], mkSourceProvenance = [], mkFrozen = False, mkFrozenAt = 0, mkVoid = False, mkVoidReason = []\<rparr>"

definition marketOf :: "(string \<times> pickem_market) list \<Rightarrow> string \<Rightarrow> pickem_market" where
  "marketOf mks i = (case map_of mks i of None \<Rightarrow> noMarket | Some mk \<Rightarrow> mk)"

definition gradePickemAt :: "pickem_game \<Rightarrow> pickem_market \<Rightarrow> string \<Rightarrow> time \<Rightarrow> time \<Rightarrow> pickem_grade" where
  "gradePickemAt g mk pick enteredAt now =
     (if isZero (gameKickoff g) \<or> now < gameKickoff g then graded PickPending
      else if mkVoid mk then graded PickVoid
      else if \<not> mkFrozen mk then (graded PickPending)\<lparr>grAwaitingMarket := True\<rparr>
      else if \<not> mkLinePresent mk then graded PickVoid
      else if \<not> validPick g pick then (if pickemGameIsObligation g enteredAt then graded PickMissedLoss else graded PickPending)
      else if \<not> gameFinal g \<or> \<not> pgScoresPresent g then graded PickPending
      else
        (let margin = (pgHomeScore g - pgAwayScore g) * 10 - mkLineTenths mk; push = (margin = 0);
             adjusted = (if push then (pgHomeScore g - pgAwayScore g) * 10 else margin) in
         if adjusted = 0 then graded PickLoss
         else (let cover = (if adjusted > 0 then gameHome g else gameAway g)
               in \<lparr>grOutcome = (if pick = cover then PickWin else PickLoss), grCover = cover, grPush = push, grAwaitingMarket = False\<rparr>)))"

section \<open>Records\<close>

record ats_record =
  atsWins :: nat
  atsLosses :: nat
  atsParticipated :: bool

definition gradeOf :: "(string \<times> pickem_market) list \<Rightarrow> (string \<times> string) list \<Rightarrow> time \<Rightarrow> time \<Rightarrow> pickem_game \<Rightarrow> pickem_outcome" where
  "gradeOf mks ps enteredAt now g = grOutcome (gradePickemAt g (marketOf mks (gameID g)) (pickOf ps (gameID g)) enteredAt now)"

definition tallyPicks :: "pickem_game list \<Rightarrow> (string \<times> pickem_market) list \<Rightarrow> (string \<times> string) list \<Rightarrow> time \<Rightarrow> time \<Rightarrow> ats_record" where
  "tallyPicks games mks ps enteredAt now =
     fold (\<lambda>g r. case gradeOf mks ps enteredAt now g of
          PickWin \<Rightarrow> r\<lparr>atsWins := atsWins r + 1\<rparr>
        | PickLoss \<Rightarrow> r\<lparr>atsLosses := atsLosses r + 1\<rparr>
        | PickMissedLoss \<Rightarrow> r\<lparr>atsLosses := atsLosses r + 1\<rparr>
        | _ \<Rightarrow> r) games \<lparr>atsWins = 0, atsLosses = 0, atsParticipated = (\<not> isZero enteredAt)\<rparr>"

text \<open>The games that count for a record: None when one of them is still undecided.\<close>

fun recordGames :: "(string \<times> pickem_market) list \<Rightarrow> int \<Rightarrow> pickem_game list \<Rightarrow> pickem_game list option" where
  "recordGames mks finalWeek [] = Some []"
| "recordGames mks finalWeek (g # gs) =
     (if gameWeek g < 1 \<or> gameWeek g > finalWeek then recordGames mks finalWeek gs
      else if \<not> gameFinal g \<or> \<not> pgScoresPresent g
        then (if mkVoid (marketOf mks (gameID g)) then recordGames mks finalWeek gs else None)
      else map_option (\<lambda>rest. g # rest) (recordGames mks finalWeek gs))"

definition postseasonPickemRecords :: "time \<Rightarrow> persisted_state \<Rightarrow> pickem_game list \<Rightarrow> int \<Rightarrow> time \<Rightarrow> (team_id \<times> pickem_record) list option" where
  "postseasonPickemRecords clock st allGames finalWeek now0 =
     (let now = playoffNow clock now0 in
      if allGames = [] then None
      else (case recordGames (pickemMarkets st) finalWeek allGames of None \<Rightarrow> None
      | Some games \<Rightarrow> Some
          (fold (\<lambda>owner records.
             case memberOf st owner of None \<Rightarrow> records
             | Some m \<Rightarrow>
                 if memTeam m = [] \<or> memRole m = CoManager \<or> map_of records (memTeam m) \<noteq> None then records
                 else (let enteredAt = effectivePickemEnteredAt st owner allGames in
                   if \<not> pickemEntryAppliesToAnyGame games enteredAt then records
                   else (let entry = tallyPicks games (pickemMarkets st) (picksOf st owner) enteredAt now
                         in AList.update (memTeam m) \<lparr>pkCorrect = int (atsWins entry), pkTotal = int (atsWins entry + atsLosses entry)\<rparr> records)))
           (sort (map fst (members st))) [])))"

section \<open>Streaks\<close>

text \<open>The run of games that share a kickoff, and what follows it.\<close>

definition streakBlock :: "(time \<times> pickem_outcome) list \<Rightarrow> (time \<times> pickem_outcome) list \<times> (time \<times> pickem_outcome) list" where
  "streakBlock entries = (takeWhile (\<lambda>x. fst x = fst (hd entries)) entries, dropWhile (\<lambda>x. fst x = fst (hd entries)) entries)"

function streakFrom :: "(time \<times> pickem_outcome) list \<Rightarrow> nat" where
  "streakFrom entries =
     (case entries of [] \<Rightarrow> 0
      | e # es \<Rightarrow>
          (case streakBlock entries of (block, rest) \<Rightarrow>
             if list_ex (\<lambda>x. snd x = PickLoss \<or> snd x = PickMissedLoss) block then 0
             else length (filter (\<lambda>x. snd x = PickWin) block) + streakFrom rest))"
  by pat_completeness auto

termination streakFrom
  by (relation "measure length") (auto simp: streakBlock_def intro: le_less_trans [OF length_dropWhile_le])

declare streakFrom.simps [simp del]

definition streakEntries :: "pickem_game list \<Rightarrow> (pickem_game \<Rightarrow> pickem_outcome) \<Rightarrow> (time \<times> pickem_outcome) list" where
  "streakEntries games grade = map (\<lambda>g. (gameKickoff g, grade g)) (filter (\<lambda>g. grade g \<noteq> PickPending \<and> grade g \<noteq> PickVoid) games)"

definition pickemStreak :: "pickem_game list \<Rightarrow> (string \<times> pickem_market) list \<Rightarrow> (string \<times> string) list \<Rightarrow> time \<Rightarrow> time \<Rightarrow> nat" where
  "pickemStreak games mks ps enteredAt now =
     streakFrom (sortStable (\<lambda>a b. fst a > fst b) (streakEntries games (gradeOf mks ps enteredAt now)))"

section \<open>Boards of the contest\<close>

record pickem_consensus =
  pcHasPicks :: bool
  pcTotal :: nat
  pcAwayPct :: int
  pcHomePct :: int

definition pickemConsensus :: "persisted_state \<Rightarrow> pickem_game \<Rightarrow> pickem_consensus" where
  "pickemConsensus st g =
     (let picked = map (\<lambda>(owner, ps). pickOf ps (gameID g)) (pickems st);
          away = length (filter (\<lambda>t. t = gameAway g) picked);
          home = length (filter (\<lambda>t. t \<noteq> gameAway g \<and> t = gameHome g) picked);
          total = away + home;
          awayPct = (if total > 0 then \<lfloor>(of_nat away / of_nat total :: rat) * 100 + 1 / 2\<rfloor> else 0);
          homePct = (if total > 0 then 100 - awayPct else 0)
      in \<lparr>pcHasPicks = (total > 0), pcTotal = total, pcAwayPct = awayPct, pcHomePct = homePct\<rparr>)"

definition displayName :: "persisted_state \<Rightarrow> string \<Rightarrow> string" where
  "displayName st owner =
     (let name = (case memberOf st owner of None \<Rightarrow> [] | Some m \<Rightarrow> trimSpace (memName m))
      in if name = [] then takeWhile (\<lambda>c. c \<noteq> CHR ''@'') owner else name)"

record pick_view =
  pvName :: string
  pvLabel :: string
  pvHasPick :: bool
  pvOutcome :: pickem_outcome
  pvIsViewer :: bool

definition pickemGamePickLedger :: "persisted_state \<Rightarrow> pickem_game \<Rightarrow> pickem_market \<Rightarrow> pickem_game list \<Rightarrow> string \<Rightarrow> time \<Rightarrow> pick_view list" where
  "pickemGamePickLedger st g mk allGames viewer now =
     map snd (sortStable (\<lambda>a b. if pvName (snd a) \<noteq> pvName (snd b) then pvName (snd a) < pvName (snd b) else fst a < fst b)
       (List.map_filter (\<lambda>(owner, ps).
          (let pick = pickOf ps (gameID g); enteredAt = effectivePickemEnteredAt st owner allGames; valid = validPick g pick in
           if \<not> valid \<and> \<not> pickemGameIsObligation g enteredAt then None
           else Some (owner, \<lparr>pvName = displayName st owner, pvLabel = (if valid then pick else ''NO PICK''), pvHasPick = valid,
             pvOutcome = grOutcome (gradePickemAt g mk pick enteredAt now), pvIsViewer = (viewer \<noteq> [] \<and> owner = viewer)\<rparr>))) (pickems st)))"

record leaderboard_entry =
  leRank :: nat
  leName :: string
  leTeam :: string
  leCorrect :: nat
  leTotal :: nat
  leWins :: nat
  leLosses :: nat

text \<open>Competition ranks over a board sorted by correct picks; the running rank and score of the loop are arguments.\<close>

fun assignRanksFrom :: "nat \<Rightarrow> nat \<Rightarrow> nat option \<Rightarrow> leaderboard_entry list \<Rightarrow> leaderboard_entry list" where
  "assignRanksFrom index rank prev [] = []"
| "assignRanksFrom index rank prev (e # es) =
     (let rank' = (if index = 0 \<or> Some (leCorrect e) \<noteq> prev then index + 1 else rank)
      in e\<lparr>leRank := rank'\<rparr> # assignRanksFrom (index + 1) rank' (Some (leCorrect e)) es)"

definition assignSharedRanks :: "leaderboard_entry list \<Rightarrow> leaderboard_entry list" where
  "assignSharedRanks board = assignRanksFrom 0 0 None board"

definition boardLess :: "leaderboard_entry \<Rightarrow> leaderboard_entry \<Rightarrow> bool" where
  "boardLess a b = (if leWins a \<noteq> leWins b then leWins a > leWins b else leName a < leName b)"

definition boardEntry :: "(team_id \<Rightarrow> string) \<Rightarrow> persisted_state \<Rightarrow> string \<Rightarrow> ats_record \<Rightarrow> leaderboard_entry" where
  "boardEntry abbr st owner r = \<lparr>leRank = 0, leName = displayName st owner,
     leTeam = (case memberOf st owner of None \<Rightarrow> [] | Some m \<Rightarrow> if memTeam m \<noteq> [] then abbr (memTeam m) else []),
     leCorrect = atsWins r, leTotal = atsWins r + atsLosses r, leWins = atsWins r, leLosses = atsLosses r\<rparr>"

definition pickemLeaderboard :: "(team_id \<Rightarrow> string) \<Rightarrow> persisted_state \<Rightarrow> pickem_game list \<Rightarrow> pickem_game list \<Rightarrow> time \<Rightarrow> leaderboard_entry list" where
  "pickemLeaderboard abbr st games entryGames now =
     assignSharedRanks (sortStable boardLess
       (List.map_filter (\<lambda>(owner, ps).
          (let enteredAt = effectivePickemEnteredAt st owner entryGames in
           if pickemEntryAppliesToAnyGame games enteredAt
           then Some (boardEntry abbr st owner (tallyPicks games (pickemMarkets st) ps enteredAt now)) else None)) (pickems st)))"

text \<open>The names of the leaders and the record of the first.\<close>

definition pickemWeekWinner :: "leaderboard_entry list \<Rightarrow> (string list \<times> nat \<times> nat) option" where
  "pickemWeekWinner board =
     (case board of [] \<Rightarrow> None
      | best # _ \<Rightarrow> if leWins best = 0 then None
          else Some (map leName (takeWhile (\<lambda>e. leWins e = leWins best) board), leWins best, leLosses best))"

definition pickemNotEnteredNames :: "persisted_state \<Rightarrow> string list" where
  "pickemNotEnteredNames st = sort (List.map_filter (\<lambda>(key, m).
     (let given = toLower (trimSpace (memEmail m)); owner = (if given = [] then toLower (trimSpace key) else given) in
      if picksOf st owner \<noteq> [] \<or> picksOf st key \<noteq> [] \<or> picksOf st (memEmail m) \<noteq> [] then None
      else Some (let name = trimSpace (memName m) in if name = [] then takeWhile (\<lambda>c. c \<noteq> CHR ''@'') owner else name))) (members st))"

section \<open>Markets\<close>

definition pickemWeekMarketLock :: "location \<Rightarrow> pickem_game list \<Rightarrow> time" where
  "pickemWeekMarketLock eastern games =
     (let kicks = filter (\<lambda>k. \<not> isZero k) (map gameKickoff games);
          first = (\<lambda>ks. fold (\<lambda>k best. if isZero best \<or> k < best then k else best) ks 0);
          earliest = first kicks;
          thursday = first (filter (\<lambda>k. weekdayOf eastern k = 4) kicks) in
      if \<not> isZero thursday then thursday
      else if isZero earliest then 0
      else (let back = (weekdayOf eastern earliest - 4 + 7) mod 7;
                day = addDays eastern (- (if back = 0 then 7 else back)) earliest
            in dateIn eastern (wallMidnight eastern day + 20 * hour + 15 * minute)))"

definition pickemMarketLock :: "pickem_game \<Rightarrow> time \<Rightarrow> time" where
  "pickemMarketLock g weekLock =
     (if isZero (gameKickoff g) then 0
      else if isZero weekLock \<or> gameKickoff g < weekLock then gameKickoff g else weekLock)"

definition marketFromGame :: "pickem_game \<Rightarrow> time \<Rightarrow> pickem_market" where
  "marketFromGame g lockAt = \<lparr>mkWeek = gameWeek g, mkKickoff = gameKickoff g, mkAway = gameAway g, mkHome = gameHome g, mkLockAt = lockAt,
     mkLineTenths = pgLineTenths g, mkLinePresent = pgLinePresent g, mkObservedAt = pgObservedAt g, mkSourceUpdatedAt = pgUpdatedAt g,
     mkSourceURL = pgSourceURL g, mkSourceProvenance = pgProvenance g, mkFrozen = False, mkFrozenAt = 0, mkVoid = False, mkVoidReason = []\<rparr>"

definition marketObservationEligible :: "pickem_game \<Rightarrow> time \<Rightarrow> bool" where
  "marketObservationEligible g t \<longleftrightarrow> pgLinePresent g \<and> \<not> isZero (pgObservedAt g) \<and> \<not> pgObservedAt g > t"

definition voidReasonText :: string where
  "voidReasonText = ''no eligible market line before lock''"

text \<open>The market of a game at or after its lock: the latest eligible observation, frozen, or void.\<close>

definition lockedMarket :: "pickem_game \<Rightarrow> pickem_market option \<Rightarrow> time \<Rightarrow> time \<Rightarrow> pickem_market" where
  "lockedMarket g current lockAt now =
     (let held = (case current of None \<Rightarrow> None
            | Some c \<Rightarrow> if mkLinePresent c \<and> \<not> isZero (mkObservedAt c) \<and> \<not> mkObservedAt c > lockAt then Some c else None);
          candidate = (if marketObservationEligible g lockAt \<and> (case held of None \<Rightarrow> True | Some c \<Rightarrow> \<not> pgObservedAt g < mkObservedAt c)
                       then Some (marketFromGame g lockAt) else held)
      in case candidate of
           Some c \<Rightarrow> c\<lparr>mkLockAt := lockAt, mkFrozen := True, mkFrozenAt := now, mkVoid := False, mkVoidReason := []\<rparr>
         | None \<Rightarrow> (marketFromGame g lockAt)\<lparr>mkLinePresent := False, mkFrozen := False, mkVoid := True,
                     mkVoidReason := voidReasonText, mkFrozenAt := now\<rparr>)"

definition marketStep :: "location \<Rightarrow> pickem_game list \<Rightarrow> time \<Rightarrow> pickem_game \<Rightarrow> (string \<times> pickem_market) list \<times> bool \<Rightarrow>
    (string \<times> pickem_market) list \<times> bool" where
  "marketStep eastern games now g acc =
     (case acc of (mks, changed) \<Rightarrow>
       (let lockAt = pickemMarketLock g (pickemWeekMarketLock eastern (weekGames games (gameWeek g)));
            current = map_of mks (gameID g) in
        if isZero lockAt then (mks, changed)
        else if (case current of None \<Rightarrow> False | Some c \<Rightarrow> mkFrozen c \<or> mkVoid c) then (mks, changed)
        else if now < lockAt
          then (if marketObservationEligible g now \<and> (case current of None \<Rightarrow> True
                     | Some c \<Rightarrow> isZero (mkObservedAt c) \<or> \<not> pgObservedAt g < mkObservedAt c)
                then (AList.update (gameID g) (marketFromGame g lockAt) mks, True) else (mks, changed))
        else (AList.update (gameID g) (lockedMarket g current lockAt now) mks, True)))"

datatype pickem_error = PickOwnerRequired | UnknownGame | NotATeamOfTheGame | GameIsLocked | MarketUnavailable | NotAnEntrant

definition reconcilePickemMarkets :: "location \<Rightarrow> pickem_game list \<Rightarrow> time \<Rightarrow> bool \<Rightarrow> store \<Rightarrow> (store, pickem_error, unit) outcome" where
  "reconcilePickemMarkets eastern games now ok s = gated s
     (case fold (marketStep eastern games now) games (pickemMarkets (stState s), False) of
        (mks, changed) \<Rightarrow> if \<not> changed then (Inr (), s) else commitOnly ok s ((stState s)\<lparr>pickemMarkets := mks\<rparr>) ())"

section \<open>Picks\<close>

definition setPickem :: "resolver \<Rightarrow> string \<Rightarrow> string \<Rightarrow> string \<Rightarrow> time \<Rightarrow> persist_result \<Rightarrow> store \<Rightarrow> (store, pickem_error, unit) outcome" where
  "setPickem as owner0 game team submittedAt res s =
     (let owner = resolve as owner0; st = stState s in
      if owner = [] \<or> game = [] \<or> isZero submittedAt then rejected PickOwnerRequired s
      else gated s (commitDisposed res s
        (st\<lparr>pickems := AList.update owner (AList.update game team (picksOf st owner)) (pickems st),
            pickemEnteredAt := (if isZero (enteredAtOf st owner) then AList.update owner submittedAt (pickemEnteredAt st) else pickemEnteredAt st)\<rparr>) ()))"

definition backfilled :: "pickem_game list \<Rightarrow> persisted_state \<Rightarrow> (string \<times> time) list" where
  "backfilled games st = filter (\<lambda>(owner, t). \<not> isZero t)
     (map (\<lambda>(owner, ps). (owner, legacyPickemEnteredAt games ps)) (filter (\<lambda>(owner, ps). isZero (enteredAtOf st owner)) (pickems st)))"

definition backfillPickemEnteredAt :: "pickem_game list \<Rightarrow> persist_result \<Rightarrow> store \<Rightarrow> (store, pickem_error, unit) outcome" where
  "backfillPickemEnteredAt games res s = gated s
     (let st = stState s in
      if backfilled games st = [] then (Inr (), s)
      else commitDisposed res s (st\<lparr>pickemEnteredAt := fold (\<lambda>(owner, t). AList.update owner t) (backfilled games st) (pickemEnteredAt st)\<rparr>) ())"

definition pickemMarketUnavailable :: "pickem_market \<Rightarrow> bool" where
  "pickemMarketUnavailable mk \<longleftrightarrow> mkVoid mk \<or> \<not> mkLinePresent mk"

text \<open>
  PickemSet: the owner its session resolves to (None when it is not admitted), the guards, then three writes. Each write
  is also a step of its own in the life of the contest, so other requests may come between.
\<close>

definition pickemGuard :: "pickem_game list \<Rightarrow> string \<Rightarrow> string \<Rightarrow> time \<Rightarrow> pickem_error + pickem_game" where
  "pickemGuard games game team now =
     (case find (\<lambda>g. gameID g = trimSpace game) games of None \<Rightarrow> Inl UnknownGame
      | Some g \<Rightarrow>
          if \<not> validPick g (trimSpace team) then Inl NotATeamOfTheGame
          else if isZero (gameKickoff g) \<or> \<not> now < gameKickoff g then Inl GameIsLocked else Inr g)"

definition pickemSet :: "resolver \<Rightarrow> string option \<Rightarrow> location \<Rightarrow> pickem_game list \<Rightarrow> string \<Rightarrow> string \<Rightarrow> time \<Rightarrow> bool \<Rightarrow> persist_result \<Rightarrow> persist_result \<Rightarrow>
    store \<Rightarrow> (store, pickem_error, pickem_game) outcome" where
  "pickemSet as owner eastern games game team now ok1 res2 res3 s =
     (case owner of None \<Rightarrow> rejected NotAnEntrant s
      | Some o' \<Rightarrow>
     (case pickemGuard games game team now of Inl e \<Rightarrow> rejected e s
      | Inr g \<Rightarrow>
     (case reconcilePickemMarkets eastern games now ok1 s of
        (Inl e, s1) \<Rightarrow> (Inl e, s1)
      | (Inr u, s1) \<Rightarrow>
          if (case map_of (pickemMarkets (stState s1)) (trimSpace game) of None \<Rightarrow> False | Some mk \<Rightarrow> pickemMarketUnavailable mk)
            then rejected MarketUnavailable s1
          else (case backfillPickemEnteredAt games res2 s1 of
             (Inl e, s2) \<Rightarrow> (Inl e, s2)
           | (Inr u, s2) \<Rightarrow>
               (case setPickem as o' (trimSpace game) (trimSpace team) now res3 s2 of
                  (Inl e, s3) \<Rightarrow> (Inl e, s3) | (Inr u, s3) \<Rightarrow> (Inr g, s3))))))"

definition pickemMarketTick :: "location \<Rightarrow> pickem_game list \<Rightarrow> time \<Rightarrow> bool \<Rightarrow> persist_result \<Rightarrow> store \<Rightarrow> (store, pickem_error, unit) outcome" where
  "pickemMarketTick eastern games now ok1 res2 s =
     (case reconcilePickemMarkets eastern games now ok1 s of (Inl e, s1) \<Rightarrow> (Inl e, s1)
      | (Inr u, s1) \<Rightarrow> backfillPickemEnteredAt games res2 s1)"

text \<open>Each write keeps the contract of a mutator; the two that note a disposition also restore after a failed write.\<close>

lemmas contest_op_defs = gated_def rejected_def commitOnly_def commitDisposed_def disposition_def reconcilePickemMarkets_def
  backfillPickemEnteredAt_def setPickem_def

interpretation market_op: gated_op "\<lambda>ok. reconcilePickemMarkets eastern games now ok"
  by unfold_locales (auto simp: contest_op_defs split: prod.splits if_splits)

interpretation backfill_op: restoring_op "\<lambda>ok. backfillPickemEnteredAt games (disposition ok)"
  by unfold_locales (auto simp: contest_op_defs Let_def split: prod.splits if_splits)

end
