(* ===== verification/PickemProps.thy ===== *)
theory PickemProps
  imports Pickem
begin

text \<open>
  The facts of Pick'em: a market closes once and for good, the season entry of an owner is set once, an accepted pick is
  for an open game with a live line, a refused one leaves no trace; a graded game has one winning side, the record of an
  entrant counts every game with a frozen line, the streak and the ranks agree with their reference definitions.
\<close>

section \<open>Markets\<close>

definition closedMarket :: "pickem_market \<Rightarrow> bool" where
  "closedMarket mk \<longleftrightarrow> mkFrozen mk \<or> mkVoid mk"

text \<open>An open or frozen market has a line that was observed; a frozen one was observed before its lock; a void one has none.\<close>

definition marketOK :: "pickem_market \<Rightarrow> bool" where
  "marketOK mk \<longleftrightarrow>
     (if mkVoid mk then \<not> mkFrozen mk \<and> \<not> mkLinePresent mk \<and> mkLockAt mk \<le> mkFrozenAt mk
      else mkLinePresent mk \<and> mkObservedAt mk \<noteq> 0 \<and>
        (if mkFrozen mk then mkObservedAt mk \<le> mkLockAt mk \<and> mkLockAt mk \<le> mkFrozenAt mk else True))"

definition marketsOK :: "(string \<times> pickem_market) list \<Rightarrow> bool" where
  "marketsOK mks \<longleftrightarrow> distinct (map fst mks) \<and> (\<forall>x\<in>set mks. marketOK (snd x))"

definition contestOK :: "persisted_state \<Rightarrow> bool" where
  "contestOK st \<longleftrightarrow> marketsOK (pickemMarkets st) \<and> distinct (map fst (pickems st)) \<and> distinct (map fst (pickemEnteredAt st)) \<and>
     (\<forall>(owner, ps)\<in>set (pickems st). distinct (map fst ps)) \<and> (\<forall>(owner, t)\<in>set (pickemEnteredAt st). t \<noteq> 0)"

lemma marketsOK_update: "marketsOK mks \<Longrightarrow> marketOK mk \<Longrightarrow> marketsOK (AList.update i mk mks)"
  using set_update [of i mk mks] unfolding marketsOK_def by (auto simp: distinct_update)

lemma marketsOK_lookup: "marketsOK mks \<Longrightarrow> map_of mks i = Some mk \<Longrightarrow> marketOK mk"
  unfolding marketsOK_def using map_of_SomeD by fastforce

lemma observed_market: "marketObservationEligible g t \<Longrightarrow> marketOK (marketFromGame g lockAt)"
  by (simp add: marketOK_def marketFromGame_def marketObservationEligible_def)

lemma lockedMarket_OK: "\<not> now < lockAt \<Longrightarrow> marketOK (lockedMarket g current lockAt now)"
  by (auto simp: marketOK_def lockedMarket_def marketFromGame_def marketObservationEligible_def Let_def
      split: option.splits if_splits)

lemma lockedMarket_closed: "closedMarket (lockedMarket g current lockAt now)"
  by (auto simp: closedMarket_def lockedMarket_def Let_def split: option.splits)

lemma marketStep_OK: "marketsOK mks \<Longrightarrow> marketStep eastern games now g (mks, b) = (mks', b') \<Longrightarrow> marketsOK mks'"
  by (auto simp: marketStep_def Let_def intro: marketsOK_update observed_market lockedMarket_OK split: if_splits option.splits)

text \<open>A market that is closed keeps its value under every step.\<close>

definition keepsClosed :: "(string \<times> pickem_market) list \<Rightarrow> (string \<times> pickem_market) list \<Rightarrow> bool" where
  "keepsClosed mks mks' \<longleftrightarrow> (\<forall>i mk. map_of mks i = Some mk \<longrightarrow> closedMarket mk \<longrightarrow> map_of mks' i = Some mk)"

lemma keepsClosed_refl: "keepsClosed mks mks"
  by (simp add: keepsClosed_def)

lemma keepsClosed_trans: "keepsClosed a b \<Longrightarrow> keepsClosed b c \<Longrightarrow> keepsClosed a c"
  by (simp add: keepsClosed_def)

lemma keepsClosed_update: "map_of mks i = None \<or> \<not> closedMarket (the (map_of mks i)) \<Longrightarrow> keepsClosed mks (AList.update i mk mks)"
  unfolding keepsClosed_def by (auto simp: update_conv')

lemma marketStep_keeps: "marketStep eastern games now g (mks, b) = (mks', b') \<Longrightarrow> keepsClosed mks mks'"
  by (auto simp: marketStep_def Let_def closedMarket_def intro: keepsClosed_refl keepsClosed_update split: if_splits option.splits)

lemma marketSteps:
  "marketsOK mks \<Longrightarrow> fold (marketStep eastern games now) gs (mks, b) = (mks', b') \<Longrightarrow> marketsOK mks' \<and> keepsClosed mks mks'"
proof (induction gs arbitrary: mks b)
  case Nil
  then show ?case by (simp add: keepsClosed_refl)
next
  case (Cons g gs)
  obtain mks1 b1 where step: "marketStep eastern games now g (mks, b) = (mks1, b1)" by fastforce
  have "marketsOK mks' \<and> keepsClosed mks1 mks'"
    using Cons.IH [OF marketStep_OK [OF Cons.prems(1) step]] Cons.prems(2) step by simp
  then show ?case using marketStep_keeps [OF step] keepsClosed_trans by blast
qed

section \<open>The life of the contest\<close>

text \<open>
  Every write of the contest, with any schedule, clock and outcome of the persist; each holds the store lock, so requests
  interleave as a sequence of these.
\<close>

inductive contest_step :: "store \<Rightarrow> store \<Rightarrow> bool" where
  reconcile: "contest_step s (snd (reconcilePickemMarkets eastern games now ok s))"
| backfill: "contest_step s (snd (backfillPickemEnteredAt games res s))"
| pick: "contest_step s (snd (setPickem as owner game team now res s))"

text \<open>What a step does to the three maps of the contest.\<close>

definition keepsEntries :: "(string \<times> time) list \<Rightarrow> (string \<times> time) list \<Rightarrow> bool" where
  "keepsEntries es es' \<longleftrightarrow> (\<forall>owner t. map_of es owner = Some t \<longrightarrow> t \<noteq> 0 \<longrightarrow> map_of es' owner = Some t)"

lemma keepsEntries_refl: "keepsEntries es es"
  by (simp add: keepsEntries_def)

lemma keepsEntries_trans: "keepsEntries a b \<Longrightarrow> keepsEntries b c \<Longrightarrow> keepsEntries a c"
  by (simp add: keepsEntries_def)

lemma keepsEntries_update: "map_of es owner = None \<or> map_of es owner = Some 0 \<Longrightarrow> keepsEntries es (AList.update owner t es)"
  unfolding keepsEntries_def by (auto simp: update_conv')

definition contestNext :: "persisted_state \<Rightarrow> persisted_state \<Rightarrow> bool" where
  "contestNext st st' \<longleftrightarrow> contestOK st' \<and> keepsClosed (pickemMarkets st) (pickemMarkets st') \<and>
     keepsEntries (pickemEnteredAt st) (pickemEnteredAt st')"

lemma contestNext_refl: "contestOK st \<Longrightarrow> contestNext st st"
  by (simp add: contestNext_def keepsClosed_refl keepsEntries_refl)

lemma contestNext_trans: "contestNext a b \<Longrightarrow> contestNext b c \<Longrightarrow> contestNext a c"
  unfolding contestNext_def using keepsClosed_trans keepsEntries_trans by blast

lemma reconcile_state:
  "stState (snd (reconcilePickemMarkets eastern games now ok s)) = stState s \<or>
   (\<exists>b. fold (marketStep eastern games now) games (pickemMarkets (stState s), False) =
     (pickemMarkets (stState (snd (reconcilePickemMarkets eastern games now ok s))), b)) \<and>
   (\<exists>mks. stState (snd (reconcilePickemMarkets eastern games now ok s)) = (stState s)\<lparr>pickemMarkets := mks\<rparr>)"
  by (auto simp: reconcilePickemMarkets_def gated_def commitOnly_def split: prod.splits)

lemma reconcile_next:
  assumes "contestOK (stState s)"
  shows "contestNext (stState s) (stState (snd (reconcilePickemMarkets eastern games now ok s)))"
  using reconcile_state [of eastern games now ok s]
proof
  assume "stState (snd (reconcilePickemMarkets eastern games now ok s)) = stState s"
  then show ?thesis using contestNext_refl [OF assms] by simp
next
  let ?st = "stState (snd (reconcilePickemMarkets eastern games now ok s))"
  assume "(\<exists>b. fold (marketStep eastern games now) games (pickemMarkets (stState s), False) = (pickemMarkets ?st, b)) \<and>
    (\<exists>mks. ?st = (stState s)\<lparr>pickemMarkets := mks\<rparr>)"
  then obtain b mks where f: "fold (marketStep eastern games now) games (pickemMarkets (stState s), False) = (pickemMarkets ?st, b)"
    and st: "?st = (stState s)\<lparr>pickemMarkets := mks\<rparr>" by blast
  have ok: "marketsOK (pickemMarkets (stState s))" using assms by (simp add: contestOK_def)
  have mks: "marketsOK (pickemMarkets ?st) \<and> keepsClosed (pickemMarkets (stState s)) (pickemMarkets ?st)"
    by (rule marketSteps [OF ok f])
  have rest: "pickems ?st = pickems (stState s)" "pickemEnteredAt ?st = pickemEnteredAt (stState s)" by (simp_all add: st)
  show ?thesis using mks assms unfolding contestNext_def contestOK_def rest by (simp add: keepsEntries_refl)
qed

text \<open>A backfill writes only entries that were unset, each once.\<close>

lemma backfilled_facts:
  assumes "contestOK st"
  shows "distinct (map fst (backfilled games st))"
    and "\<forall>(owner, t)\<in>set (backfilled games st). t \<noteq> 0 \<and> enteredAtOf st owner = 0"
  using assms by (auto simp: backfilled_def contestOK_def comp_def case_prod_beta intro!: distinct_map_filter)

lemma entry_unset: "contestOK st \<Longrightarrow> enteredAtOf st owner = 0 \<Longrightarrow> map_of (pickemEnteredAt st) owner = None"
  by (auto simp: enteredAtOf_def contestOK_def split: option.splits dest: map_of_SomeD)

lemma entries_fold:
  assumes "distinct (map fst new)" "\<forall>(owner, t)\<in>set new. t \<noteq> 0 \<and> map_of es owner = None"
    "distinct (map fst es)" "\<forall>(owner, t)\<in>set es. t \<noteq> 0"
  shows "distinct (map fst (fold (\<lambda>(owner, t). AList.update owner t) new es)) \<and>
    (\<forall>(owner, t)\<in>set (fold (\<lambda>(owner, t). AList.update owner t) new es). t \<noteq> 0) \<and>
    keepsEntries es (fold (\<lambda>(owner, t). AList.update owner t) new es)"
  using assms
proof (induction new arbitrary: es)
  case Nil
  then show ?case by (simp add: keepsEntries_refl)
next
  case (Cons x new)
  obtain owner t where x: "x = (owner, t)" by (cases x)
  have fresh: "\<forall>(o', t')\<in>set new. t' \<noteq> 0 \<and> map_of (AList.update owner t es) o' = None"
    using Cons.prems(1,2) by (auto simp: x update_conv' rev_image_eqI)
  have clean: "\<forall>(o', t')\<in>set (AList.update owner t es). t' \<noteq> 0"
    using Cons.prems(2,4) set_update [of owner t es] by (fastforce simp: x)
  have es: "keepsEntries es (AList.update owner t es)" by (rule keepsEntries_update) (use Cons.prems(2) in \<open>simp add: x\<close>)
  have "distinct (map fst new)" "distinct (map fst (AList.update owner t es))" using Cons.prems(1,3) by (simp_all add: distinct_update)
  from Cons.IH [OF this(1) fresh this(2) clean] show ?case using keepsEntries_trans [OF es] by (simp add: x)
qed

lemma backfill_next:
  assumes ok: "contestOK (stState s)"
  shows "contestNext (stState s) (stState (snd (backfillPickemEnteredAt games res s)))"
proof -
  let ?new = "fold (\<lambda>(owner, t). AList.update owner t) (backfilled games (stState s)) (pickemEnteredAt (stState s))"
  have "stState (snd (backfillPickemEnteredAt games res s)) = stState s \<or>
      stState (snd (backfillPickemEnteredAt games res s)) = (stState s)\<lparr>pickemEnteredAt := ?new\<rparr>"
    by (auto simp: backfillPickemEnteredAt_def gated_def commitDisposed_def Let_def split: persist_result.splits)
  moreover have "distinct (map fst ?new) \<and> (\<forall>(owner, t)\<in>set ?new. t \<noteq> 0) \<and> keepsEntries (pickemEnteredAt (stState s)) ?new"
  proof (rule entries_fold)
    show "\<forall>(owner, t)\<in>set (backfilled games (stState s)). t \<noteq> 0 \<and> map_of (pickemEnteredAt (stState s)) owner = None"
      using backfilled_facts(2) [OF ok] entry_unset [OF ok] by fast
  qed (use backfilled_facts(1) [OF ok] ok in \<open>simp_all add: contestOK_def\<close>)
  ultimately show ?thesis
  proof (elim disjE)
    assume "stState (snd (backfillPickemEnteredAt games res s)) = stState s"
    then show ?thesis using contestNext_refl [OF ok] by simp
  next
    assume st: "stState (snd (backfillPickemEnteredAt games res s)) = (stState s)\<lparr>pickemEnteredAt := ?new\<rparr>"
      and new: "distinct (map fst ?new) \<and> (\<forall>(owner, t)\<in>set ?new. t \<noteq> 0) \<and> keepsEntries (pickemEnteredAt (stState s)) ?new"
    show ?thesis unfolding st contestNext_def contestOK_def using new ok by (simp add: keepsClosed_refl contestOK_def)
  qed
qed

lemma picksOf_distinct: "contestOK st \<Longrightarrow> distinct (map fst (picksOf st owner))"
  by (auto simp: contestOK_def picksOf_def split: option.splits dest: map_of_SomeD)

definition picked :: "persisted_state \<Rightarrow> string \<Rightarrow> string \<Rightarrow> string \<Rightarrow> time \<Rightarrow> persisted_state" where
  "picked st owner game team now =
     st\<lparr>pickems := AList.update owner (AList.update game team (picksOf st owner)) (pickems st),
        pickemEnteredAt := (if isZero (enteredAtOf st owner) then AList.update owner now (pickemEnteredAt st) else pickemEnteredAt st)\<rparr>"

lemma picked_next:
  assumes ok: "contestOK st" and now: "now \<noteq> 0"
  shows "contestNext st (picked st owner game team now)"
proof -
  let ?st = "picked st owner game team now"
  have "distinct (map fst (pickems ?st))" "distinct (map fst (pickemEnteredAt ?st))"
    using ok by (simp_all add: picked_def contestOK_def distinct_update)
  moreover have "\<forall>(owner, ps)\<in>set (pickems ?st). distinct (map fst ps)"
    using ok set_update [of owner "AList.update game team (picksOf st owner)" "pickems st"] picksOf_distinct [OF ok, of owner]
    by (auto simp: picked_def contestOK_def distinct_update)
  moreover have "\<forall>(owner, t)\<in>set (pickemEnteredAt ?st). t \<noteq> 0"
    using ok now set_update [of owner now "pickemEnteredAt st"] by (auto simp: picked_def contestOK_def)
  moreover have "keepsEntries (pickemEnteredAt st) (pickemEnteredAt ?st)"
    using entry_unset [OF ok, of owner] by (simp add: picked_def keepsEntries_refl keepsEntries_update)
  moreover have "pickemMarkets ?st = pickemMarkets st" by (simp add: picked_def)
  ultimately show ?thesis using ok by (simp add: contestNext_def contestOK_def keepsClosed_refl)
qed

lemma setPickem_outcome:
  "setPickem as owner game team now res s =
     (if resolve as owner = [] \<or> game = [] \<or> now = 0 then rejected PickOwnerRequired s
      else gated s (commitDisposed res s (picked (stState s) (resolve as owner) game team now) ()))"
  by (simp add: setPickem_def picked_def Let_def)

lemma pick_next:
  assumes "contestOK (stState s)"
  shows "contestNext (stState s) (stState (snd (setPickem as owner game team now res s)))"
  unfolding setPickem_outcome using contestNext_refl [OF assms] picked_next [OF assms]
  by (auto simp: rejected_def gated_def commitDisposed_def split: persist_result.splits)

lemma contest_step_next: "contest_step s s' \<Longrightarrow> contestOK (stState s) \<Longrightarrow> contestNext (stState s) (stState s')"
  by (induction rule: contest_step.induct) (auto intro: reconcile_next backfill_next pick_next)

lemma contest_run_next: "contest_step\<^sup>*\<^sup>* s s' \<Longrightarrow> contestOK (stState s) \<Longrightarrow> contestNext (stState s) (stState s')"
proof (induction rule: rtranclp_induct)
  case base
  then show ?case by (rule contestNext_refl)
next
  case (step s1 s2)
  then have "contestNext (stState s) (stState s1)" by simp
  moreover from this have "contestNext (stState s1) (stState s2)"
    using contest_step_next [OF step.hyps(2)] by (simp add: contestNext_def)
  ultimately show ?case by (rule contestNext_trans)
qed

text \<open>
  the invariant of the contest, over every interleaving of its writes, clocks, schedules and failed persists: games
  have one market each; a market is open or frozen with a line that was observed, a frozen one at or before its lock, or
  it is void and has no line; each owner has one entry, with a real time, and one pick for a game.
\<close>

theorem contest_invariant:
  assumes "contestOK (stState s)" and "contest_step\<^sup>*\<^sup>* s s'"
  shows "contestOK (stState s')"
  using contest_run_next [OF assms(2,1)] by (simp add: contestNext_def)

text \<open>
  C18: a market that was frozen or declared void keeps its line, its lock and its verdict for good, and the time at which
  an owner entered the season, once set, is never moved, whatever schedules and lines arrive later.
\<close>

theorem closed_markets_and_entries_permanent:
  assumes "contestOK (stState s)" and "contest_step\<^sup>*\<^sup>* s s'"
  shows "(\<forall>i mk. map_of (pickemMarkets (stState s)) i = Some mk \<longrightarrow> closedMarket mk \<longrightarrow> map_of (pickemMarkets (stState s')) i = Some mk) \<and>
    (\<forall>owner t. map_of (pickemEnteredAt (stState s)) owner = Some t \<longrightarrow> t \<noteq> 0 \<longrightarrow> map_of (pickemEnteredAt (stState s')) owner = Some t)"
  using contest_run_next [OF assms(2,1)] by (simp add: contestNext_def keepsClosed_def keepsEntries_def)

definition finalGame :: "string \<Rightarrow> time \<Rightarrow> int \<Rightarrow> int \<Rightarrow> pickem_game" where
  "finalGame i kickoff away home = \<lparr>gameID = i, gameWeek = 1, gameKickoff = kickoff, gameAway = ''BUF'', gameHome = ''KC'', gameFinal = True,
     pgAwayScore = away, pgHomeScore = home, pgScoresPresent = True, pgLineTenths = 35, pgLinePresent = True, pgObservedAt = 5, pgUpdatedAt = 5,
     pgSourceURL = [], pgProvenance = []\<rparr>"

definition sampleMarket :: "time \<Rightarrow> pickem_market" where
  "sampleMarket kickoff = (marketFromGame (finalGame ''g'' kickoff 0 0) kickoff)\<lparr>mkFrozen := True, mkFrozenAt := kickoff\<rparr>"

definition contestStore :: store where
  "contestStore = sampleStore (freshState\<lparr>pickemMarkets := [(''g1'', sampleMarket 100)], pickemEnteredAt := [(''a@x'', 9)]\<rparr>)"

lemma contestStore_OK: "contestOK (stState contestStore)"
  by (simp add: contestOK_def contestStore_def sampleStore_def freshState_def marketsOK_def marketOK_def sampleMarket_def finalGame_def
      marketFromGame_def)

lemma contestStore_step: "contest_step\<^sup>*\<^sup>* contestStore (snd (setPickem [] ''a@x'' ''g2'' ''KC'' 50 Persisted contestStore))"
  using contest_step.pick by (rule r_into_rtranclp)

theorem contest_invariant_witness:
  "contestOK (stState (snd (setPickem [] ''a@x'' ''g2'' ''KC'' 50 Persisted contestStore)))"
  by (rule contest_invariant [OF contestStore_OK contestStore_step])

theorem closed_markets_and_entries_permanent_witness:
  "map_of (pickemMarkets (stState (snd (setPickem [] ''a@x'' ''g2'' ''KC'' 50 Persisted contestStore)))) ''g1'' = Some (sampleMarket 100) \<and>
   map_of (pickemEnteredAt (stState (snd (setPickem [] ''a@x'' ''g2'' ''KC'' 50 Persisted contestStore)))) ''a@x'' = Some 9"
proof -
  have "map_of (pickemMarkets (stState contestStore)) ''g1'' = Some (sampleMarket 100)" "closedMarket (sampleMarket 100)"
    "map_of (pickemEnteredAt (stState contestStore)) ''a@x'' = Some 9"
    by (simp_all add: contestStore_def sampleStore_def closedMarket_def sampleMarket_def)
  then show ?thesis using closed_markets_and_entries_permanent [OF contestStore_OK contestStore_step] by fastforce
qed

section \<open>Picks\<close>

lemma setPickem_accepted:
  "setPickem as owner game team now res s = (Inr u, s') \<Longrightarrow>
     resolve as owner \<noteq> [] \<and> stState s' = picked (stState s) (resolve as owner) game team now"
  by (auto simp: setPickem_outcome store_outcomes split: if_splits)

lemma picked_lookup: "pickOf (picksOf (picked st owner game team now) owner) game = team"
  by (simp add: picked_def picksOf_def pickOf_def update_conv')

lemma picked_entered: "now \<noteq> 0 \<Longrightarrow> enteredAtOf (picked st owner game team now) owner \<noteq> 0"
  by (auto simp: picked_def enteredAtOf_def update_conv' split: option.splits)

lemma backfill_markets: "pickemMarkets (stState (snd (backfillPickemEnteredAt games res s))) = pickemMarkets (stState s)"
  by (auto simp: backfillPickemEnteredAt_def gated_def commitDisposed_def Let_def split: persist_result.splits)

lemma pickemGuard_accepts:
  "pickemGuard games game team now = Inr g \<Longrightarrow>
     g \<in> set games \<and> gameID g = trimSpace game \<and> validPick g (trimSpace team) \<and> gameKickoff g \<noteq> 0 \<and> now < gameKickoff g"
  by (auto simp: pickemGuard_def find_Some_iff split: option.splits if_splits)

text \<open>
  C25: a pick that PickemSet accepts is for a game of the schedule that has not kicked off, names one of its two teams,
  comes from an admitted owner, and its market, when one is on record, has a line and is not void (a game without a
  market on record is open, as in the code); afterwards the pick is on record and its owner has entered the season.
\<close>

theorem accepted_pick_open_and_recorded:
  assumes "pickemSet as owner eastern games game team now ok1 res2 res3 s = (Inr g, s')"
  shows "g \<in> set games \<and> now < gameKickoff g \<and> validPick g (trimSpace team) \<and>
    (\<forall>mk. map_of (pickemMarkets (stState s')) (gameID g) = Some mk \<longrightarrow> mkLinePresent mk \<and> \<not> mkVoid mk) \<and>
    (\<exists>o'. owner = Some o' \<and> pickOf (picksOf (stState s') (resolve as o')) (gameID g) = trimSpace team \<and>
      enteredAtOf (stState s') (resolve as o') \<noteq> 0)"
proof -
  obtain o' s1 s2 u1 u2 u3 where o: "owner = Some o'" and guard: "pickemGuard games game team now = Inr g"
    and one: "reconcilePickemMarkets eastern games now ok1 s = (Inr u1, s1)"
    and live: "\<forall>mk. map_of (pickemMarkets (stState s1)) (trimSpace game) = Some mk \<longrightarrow> \<not> pickemMarketUnavailable mk"
    and two: "backfillPickemEnteredAt games res2 s1 = (Inr u2, s2)"
    and three: "setPickem as o' (trimSpace game) (trimSpace team) now res3 s2 = (Inr u3, s')"
    using assms by (auto simp: pickemSet_def rejected_Inr split: option.splits sum.splits prod.splits if_splits)
  note g = pickemGuard_accepts [OF guard]
  have st: "stState s' = picked (stState s2) (resolve as o') (trimSpace game) (trimSpace team) now"
    and now: "now \<noteq> 0"
    using three by (auto simp: setPickem_outcome store_outcomes split: if_splits)
  have "pickemMarkets (stState s') = pickemMarkets (stState s1)"
    using backfill_markets [of games res2 s1] two by (simp add: st picked_def)
  then have "\<forall>mk. map_of (pickemMarkets (stState s')) (gameID g) = Some mk \<longrightarrow> mkLinePresent mk \<and> \<not> mkVoid mk"
    using live g by (simp add: pickemMarketUnavailable_def)
  moreover have "pickOf (picksOf (stState s') (resolve as o')) (gameID g) = trimSpace team"
    using g by (simp add: st picked_lookup)
  moreover have "enteredAtOf (stState s') (resolve as o') \<noteq> 0" by (simp add: st picked_entered [OF now])
  ultimately show ?thesis using g o by blast
qed

lemma reconcile_keeps_picks:
  "pickems (stState (snd (reconcilePickemMarkets eastern games now ok s))) = pickems (stState s) \<and>
   pickemEnteredAt (stState (snd (reconcilePickemMarkets eastern games now ok s))) = pickemEnteredAt (stState s)"
  by (auto simp: reconcilePickemMarkets_def gated_def commitOnly_def split: prod.splits)

lemma backfill_keeps_picks: "pickems (stState (snd (backfillPickemEnteredAt games res s))) = pickems (stState s)"
  by (auto simp: backfillPickemEnteredAt_def gated_def commitDisposed_def Let_def split: persist_result.splits)

lemma contest_rejections:
  "reconcilePickemMarkets eastern games now ok s \<noteq> (Inl (Rejected e), s')"
  "backfillPickemEnteredAt games res s \<noteq> (Inl (Rejected e), s')"
  "setPickem as owner game team now res s = (Inl (Rejected e), s') \<Longrightarrow> e = PickOwnerRequired \<and> s' = s"
  by (auto simp: reconcilePickemMarkets_def backfillPickemEnteredAt_def setPickem_outcome gated_def rejected_def commitOnly_def
      commitDisposed_def Let_def split: persist_result.splits prod.splits if_splits)

text \<open>
  C35: a submission that is refused for its game, its team, its clock, its owner or its market records neither a pick nor
  the owner's entry into the season; only the market it found void or closed may have been settled on the way.
\<close>

theorem refused_pick_leaves_no_trace:
  assumes "pickemSet as owner eastern games game team now ok1 res2 res3 s = (Inl (Rejected e), s')" and "e \<noteq> PickOwnerRequired"
  shows "pickems (stState s') = pickems (stState s) \<and> pickemEnteredAt (stState s') = pickemEnteredAt (stState s)"
proof (cases "(\<exists>o'. owner = Some o') \<and> (\<exists>g. pickemGuard games game team now = Inr g)")
  case False
  then have "s' = s" using assms(1) by (auto simp: pickemSet_def rejected_def split: option.splits sum.splits)
  then show ?thesis by simp
next
  case True
  then obtain o' g where o: "owner = Some o'" and g: "pickemGuard games game team now = Inr g" by blast
  obtain r1 s1 where one: "reconcilePickemMarkets eastern games now ok1 s = (r1, s1)" by fastforce
  have "s' = s1"
  proof (cases r1)
    case (Inl x)
    then show ?thesis using assms(1) one contest_rejections(1) by (auto simp: pickemSet_def o g)
  next
    case (Inr u)
    obtain r2 s2 where two: "backfillPickemEnteredAt games res2 s1 = (r2, s2)" by fastforce
    obtain r3 s3 where three: "setPickem as o' (trimSpace game) (trimSpace team) now res3 s2 = (r3, s3)" by fastforce
    from assms contest_rejections(2) [of games res2 s1] contest_rejections(3) [of as o' "trimSpace game" "trimSpace team" now res3 s2] show ?thesis
      by (auto simp: pickemSet_def o g one Inr two three rejected_def split: if_splits sum.splits option.splits)
  qed
  then show ?thesis using reconcile_keeps_picks [of eastern games now ok1 s] one by simp
qed

lemma reconcile_closed:
  assumes "\<not> stWriteError s" and "closedMarket mk" and "map_of (pickemMarkets (stState s)) (gameID g) = Some mk"
  shows "reconcilePickemMarkets eastern [g] now ok s = (Inr (), s)"
  using assms by (simp add: reconcilePickemMarkets_def gated_def marketStep_def Let_def closedMarket_def)

lemma contestStore_reconcile:
  "reconcilePickemMarkets eastern [finalGame ''g1'' 100 20 24] 50 True contestStore = (Inr (), contestStore)"
  by (rule reconcile_closed [where mk = "sampleMarket 100"])
    (simp_all add: contestStore_def sampleStore_def finalGame_def closedMarket_def sampleMarket_def)

lemma contestStore_backfill: "backfillPickemEnteredAt games res contestStore = (Inr (), contestStore)"
  by (simp add: backfillPickemEnteredAt_def backfilled_def gated_def contestStore_def sampleStore_def freshState_def Let_def)

lemma samplePick_accepted:
  "pickemSet [] (Some ''a@x'') eastern [finalGame ''g1'' 100 20 24] '' g1'' ''KC'' 50 True Persisted Persisted contestStore =
     (Inr (finalGame ''g1'' 100 20 24), contestStore\<lparr>stState := picked (stState contestStore) ''a@x'' ''g1'' ''KC'' 50\<rparr>)"
proof -
  have guard: "pickemGuard [finalGame ''g1'' 100 20 24] '' g1'' ''KC'' 50 = Inr (finalGame ''g1'' 100 20 24)"
    by (simp add: pickemGuard_def finalGame_def validPick_def trimSpace_def isSpaceChar_def)
  have trim: "trimSpace '' g1'' = ''g1''" "trimSpace ''KC'' = ''KC''" by (simp_all add: trimSpace_def isSpaceChar_def)
  have owner: "resolve [] ''a@x'' = ''a@x''"
    by (simp add: resolve_def normalizeEmail_def trimSpace_def isSpaceChar_def toLower_def lowerChar_def Let_def)
  have live: "\<not> (case map_of (pickemMarkets (stState contestStore)) ''g1'' of None \<Rightarrow> False | Some mk \<Rightarrow> pickemMarketUnavailable mk)"
    by (simp add: contestStore_def sampleStore_def pickemMarketUnavailable_def sampleMarket_def marketFromGame_def finalGame_def)
  have set: "setPickem [] ''a@x'' ''g1'' ''KC'' 50 Persisted contestStore =
      (Inr (), contestStore\<lparr>stState := picked (stState contestStore) ''a@x'' ''g1'' ''KC'' 50\<rparr>)"
    unfolding setPickem_outcome owner by (simp add: gated_def commitDisposed_def contestStore_def sampleStore_def)
  show ?thesis using live by (simp add: pickemSet_def guard trim contestStore_reconcile contestStore_backfill set)
qed

theorem accepted_pick_open_and_recorded_witness:
  "pickOf (picksOf (picked (stState contestStore) ''a@x'' ''g1'' ''KC'' 50) (resolve [] ''a@x'')) ''g1'' = trimSpace ''KC''"
  using accepted_pick_open_and_recorded [OF samplePick_accepted] by (simp add: finalGame_def)

definition voidedStore :: store where
  "voidedStore = sampleStore (freshState\<lparr>pickemMarkets :=
     [(''g1'', (sampleMarket 100)\<lparr>mkFrozen := False, mkLinePresent := False, mkVoid := True\<rparr>)], pickems := [(''a@x'', [(''g0'', ''KC'')])]\<rparr>)"

lemma samplePick_refused:
  "pickemSet [] (Some ''a@x'') eastern [finalGame ''g1'' 100 20 24] ''g1'' ''KC'' 50 True Persisted Persisted voidedStore =
     (Inl (Rejected MarketUnavailable), voidedStore)"
proof -
  have guard: "pickemGuard [finalGame ''g1'' 100 20 24] ''g1'' ''KC'' 50 = Inr (finalGame ''g1'' 100 20 24)"
    by (simp add: pickemGuard_def finalGame_def validPick_def trimSpace_def isSpaceChar_def)
  have "reconcilePickemMarkets eastern [finalGame ''g1'' 100 20 24] 50 True voidedStore = (Inr (), voidedStore)"
    by (rule reconcile_closed [where mk = "(sampleMarket 100)\<lparr>mkFrozen := False, mkLinePresent := False, mkVoid := True\<rparr>"])
      (simp_all add: voidedStore_def sampleStore_def finalGame_def closedMarket_def)
  then show ?thesis
    by (simp add: pickemSet_def guard trimSpace_def isSpaceChar_def rejected_def)
      (simp add: voidedStore_def sampleStore_def pickemMarketUnavailable_def)
qed

theorem refused_pick_leaves_no_trace_witness:
  "pickems (stState voidedStore) = [(''a@x'', [(''g0'', ''KC'')])] \<and> pickemEnteredAt (stState voidedStore) = []"
  using refused_pick_leaves_no_trace [OF samplePick_refused] by (simp add: voidedStore_def sampleStore_def freshState_def)

section \<open>Grading and records\<close>

lemma closed_line_outcome:
  assumes "gameKickoff g \<noteq> 0" "\<not> now < gameKickoff g" "mkFrozen mk" "mkLinePresent mk" "\<not> mkVoid mk" "gameFinal g" "pgScoresPresent g"
    and "validPick g pick"
  shows "grOutcome (gradePickemAt g mk pick entered now) =
    (let margin = (pgHomeScore g - pgAwayScore g) * 10 - mkLineTenths mk;
         adjusted = (if margin = 0 then (pgHomeScore g - pgAwayScore g) * 10 else margin) in
     if adjusted = 0 then PickLoss else if pick = (if adjusted > 0 then gameHome g else gameAway g) then PickWin else PickLoss)"
  using assms by (simp add: gradePickemAt_def graded_def Let_def)

text \<open>
  a final game with a frozen line has exactly one winning side: of two different teams one covers and the other
  loses, a push going to the winner of the game, except that a tied game at a zero line is lost by both.
\<close>

theorem one_side_covers:
  assumes "gameKickoff g \<noteq> 0" and "\<not> now < gameKickoff g" and "mkFrozen mk" and "mkLinePresent mk" and "\<not> mkVoid mk"
    and "gameFinal g" and "pgScoresPresent g" and "gameAway g \<noteq> gameHome g"
  shows "(grOutcome (gradePickemAt g mk (gameAway g) entered now), grOutcome (gradePickemAt g mk (gameHome g) entered now)) =
    (if pgHomeScore g = pgAwayScore g \<and> mkLineTenths mk = 0 then (PickLoss, PickLoss)
     else if (pgHomeScore g - pgAwayScore g) * 10 > mkLineTenths mk \<or>
             (pgHomeScore g - pgAwayScore g) * 10 = mkLineTenths mk \<and> pgHomeScore g > pgAwayScore g then (PickLoss, PickWin)
     else (PickWin, PickLoss))"
proof -
  have away: "validPick g (gameAway g)" and home: "validPick g (gameHome g)" by (simp_all add: validPick_def)
  show ?thesis
    unfolding closed_line_outcome [OF assms(1-7) away] closed_line_outcome [OF assms(1-7) home] using assms(8)
    by (auto simp: Let_def)
qed

theorem one_side_covers_witness:
  "(grOutcome (gradePickemAt (finalGame ''g1'' 100 20 24) (sampleMarket 100) ''BUF'' 0 200),
    grOutcome (gradePickemAt (finalGame ''g1'' 100 20 24) (sampleMarket 100) ''KC'' 0 200)) = (PickLoss, PickWin)"
  using one_side_covers [where g = "finalGame ''g1'' 100 20 24" and now = 200 and mk = "sampleMarket 100" and entered = 0]
  by (simp add: finalGame_def sampleMarket_def marketFromGame_def)

text \<open>A record counts outcomes.\<close>

definition lost :: "pickem_outcome \<Rightarrow> bool" where
  "lost r \<longleftrightarrow> r = PickLoss \<or> r = PickMissedLoss"

lemma tally_counts:
  "atsWins (tallyPicks games mks ps entered now) = length (filter (\<lambda>g. gradeOf mks ps entered now g = PickWin) games)"
  "atsLosses (tallyPicks games mks ps entered now) = length (filter (\<lambda>g. lost (gradeOf mks ps entered now g)) games)"
proof -
  have counted: "atsWins (fold (\<lambda>g r. case gradeOf mks ps entered now g of PickWin \<Rightarrow> r\<lparr>atsWins := atsWins r + 1\<rparr>
      | PickLoss \<Rightarrow> r\<lparr>atsLosses := atsLosses r + 1\<rparr> | PickMissedLoss \<Rightarrow> r\<lparr>atsLosses := atsLosses r + 1\<rparr> | _ \<Rightarrow> r) games r) =
      atsWins r + length (filter (\<lambda>g. gradeOf mks ps entered now g = PickWin) games) \<and>
    atsLosses (fold (\<lambda>g r. case gradeOf mks ps entered now g of PickWin \<Rightarrow> r\<lparr>atsWins := atsWins r + 1\<rparr>
      | PickLoss \<Rightarrow> r\<lparr>atsLosses := atsLosses r + 1\<rparr> | PickMissedLoss \<Rightarrow> r\<lparr>atsLosses := atsLosses r + 1\<rparr> | _ \<Rightarrow> r) games r) =
      atsLosses r + length (filter (\<lambda>g. lost (gradeOf mks ps entered now g)) games)" for r :: ats_record
    by (induction games arbitrary: r) (simp_all add: lost_def split: pickem_outcome.split)
  then show "atsWins (tallyPicks games mks ps entered now) = length (filter (\<lambda>g. gradeOf mks ps entered now g = PickWin) games)"
    "atsLosses (tallyPicks games mks ps entered now) = length (filter (\<lambda>g. lost (gradeOf mks ps entered now g)) games)"
    by (simp_all add: tallyPicks_def counted)
qed

lemma decided_split:
  assumes "\<forall>g\<in>set games. (f g = PickWin \<or> lost (f g)) = P g"
  shows "length (filter (\<lambda>g. f g = PickWin) games) + length (filter (\<lambda>g. lost (f g)) games) = length (filter P games)"
  using assms by (induction games) (auto simp: lost_def)

text \<open>A contested game: it has kicked off and its market is frozen with a line and not void.\<close>

definition contested :: "(string \<times> pickem_market) list \<Rightarrow> time \<Rightarrow> pickem_game \<Rightarrow> bool" where
  "contested mks now g \<longleftrightarrow> gameKickoff g \<noteq> 0 \<and> \<not> now < gameKickoff g \<and> mkFrozen (marketOf mks (gameID g)) \<and>
     mkLinePresent (marketOf mks (gameID g)) \<and> \<not> mkVoid (marketOf mks (gameID g))"

lemma decided_grade:
  "(gradeOf mks ps entered now g = PickWin \<or> lost (gradeOf mks ps entered now g)) =
    (contested mks now g \<and> (if validPick g (pickOf ps (gameID g)) then gameFinal g \<and> pgScoresPresent g
       else pickemGameIsObligation g entered))"
  by (auto simp: gradeOf_def gradePickemAt_def graded_def lost_def contested_def Let_def)

text \<open>
  C32: Skipping a pick never helps. Wins and losses add up to the contested games (kicked off, with a frozen line
  that is not void) that are decided: with a valid pick the final ones with scores, without one every game that
  kicked off since the owner entered the season. So once all contested games since the entry are final with
  scores, wins and losses add up to their number whatever was picked, and every entrant is judged on the same games.
\<close>

theorem record_counts_every_frozen_game:
  "atsWins (tallyPicks games mks ps entered now) + atsLosses (tallyPicks games mks ps entered now) =
     length (filter (\<lambda>g. contested mks now g \<and> (if validPick g (pickOf ps (gameID g)) then gameFinal g \<and> pgScoresPresent g
       else pickemGameIsObligation g entered)) games) \<and>
   ((\<forall>g\<in>set games. pickemGameIsObligation g entered \<and> (contested mks now g \<longrightarrow> gameFinal g \<and> pgScoresPresent g)) \<longrightarrow>
     atsWins (tallyPicks games mks ps entered now) + atsLosses (tallyPicks games mks ps entered now) =
       length (filter (contested mks now) games))"
proof (intro conjI impI)
  have all: "atsWins (tallyPicks games mks ps entered now) + atsLosses (tallyPicks games mks ps entered now) =
     length (filter (\<lambda>g. contested mks now g \<and> (if validPick g (pickOf ps (gameID g)) then gameFinal g \<and> pgScoresPresent g
       else pickemGameIsObligation g entered)) games)"
    unfolding tally_counts by (rule decided_split) (simp add: decided_grade)
  then show "atsWins (tallyPicks games mks ps entered now) + atsLosses (tallyPicks games mks ps entered now) =
     length (filter (\<lambda>g. contested mks now g \<and> (if validPick g (pickOf ps (gameID g)) then gameFinal g \<and> pgScoresPresent g
       else pickemGameIsObligation g entered)) games)" .
  assume "\<forall>g\<in>set games. pickemGameIsObligation g entered \<and> (contested mks now g \<longrightarrow> gameFinal g \<and> pgScoresPresent g)"
  then have "filter (\<lambda>g. contested mks now g \<and> (if validPick g (pickOf ps (gameID g)) then gameFinal g \<and> pgScoresPresent g
       else pickemGameIsObligation g entered)) games = filter (contested mks now) games"
    by (intro filter_cong) auto
  then show "atsWins (tallyPicks games mks ps entered now) + atsLosses (tallyPicks games mks ps entered now) =
       length (filter (contested mks now) games)" using all by simp
qed

theorem record_counts_every_frozen_game_witness:
  "atsLosses (tallyPicks [finalGame ''g1'' 100 20 24, finalGame ''g2'' 100 20 24] [(''g1'', sampleMarket 100)] [] 9 200) = 1"
proof -
  have "atsWins (tallyPicks [finalGame ''g1'' 100 20 24, finalGame ''g2'' 100 20 24] [(''g1'', sampleMarket 100)] [] 9 200) = 0"
    by (simp add: tally_counts gradeOf_def gradePickemAt_def pickOf_def finalGame_def validPick_def graded_def marketOf_def noMarket_def
        sampleMarket_def marketFromGame_def)
  then show ?thesis
    using record_counts_every_frozen_game [where games = "[finalGame ''g1'' 100 20 24, finalGame ''g2'' 100 20 24]" and now = 200
        and mks = "[(''g1'', sampleMarket 100)]" and ps = "[]" and entered = 9]
    by (simp add: finalGame_def pickemGameIsObligation_def contested_def marketOf_def noMarket_def sampleMarket_def marketFromGame_def)
qed

section \<open>Streaks\<close>

text \<open>A streak over games sorted from the last to the first, a run of equal kickoffs at a time.\<close>

definition streakOf :: "(time \<times> pickem_outcome) list \<Rightarrow> nat" where
  "streakOf es = length (filter (\<lambda>x. snd x = PickWin \<and> (\<forall>y\<in>set es. lost (snd y) \<longrightarrow> fst y < fst x)) es)"

lemma filter_none: "\<forall>x\<in>set xs. \<not> P x \<Longrightarrow> length (filter P xs) = 0"
  by simp

lemma streakFrom_counts:
  "sorted_wrt (\<lambda>a b. \<not> fst a < fst b) es \<Longrightarrow> streakFrom es = streakOf es"
proof (induction es rule: streakFrom.induct)
  case (1 entries)
  show ?case
  proof (cases entries)
    case Nil
    then show ?thesis by (simp add: streakFrom.simps [of "[]"] streakOf_def)
  next
    case (Cons e es)
    define run where "run = takeWhile (\<lambda>x. fst x = fst e) entries"
    define rest where "rest = dropWhile (\<lambda>x. fst x = fst e) entries"
    have split: "entries = run @ rest" by (simp add: run_def rest_def)
    have run: "\<forall>x\<in>set run. fst x = fst e" unfolding run_def by (auto dest: set_takeWhileD)
    have sorted_rest: "sorted_wrt (\<lambda>a b. \<not> fst a < fst b) rest" using 1(2) unfolding split by (simp add: sorted_wrt_append)
    have upper: "\<forall>x\<in>set entries. fst x \<le> fst e" using 1(2) by (auto simp: Cons not_less)
    have lower: "\<forall>x\<in>set rest. fst x < fst e"
    proof (cases rest)
      case (Cons r rs)
      then have "fst r \<noteq> fst e" using hd_dropWhile [of "\<lambda>x. fst x = fst e" entries] by (metis rest_def list.distinct(1) list.sel(1))
      moreover have "fst r \<le> fst e" using upper split Cons by auto
      ultimately have "fst r < fst e" by linarith
      then show ?thesis using sorted_rest Cons by (auto simp: not_less)
    qed simp
    have eqn: "streakFrom entries = (if list_ex (\<lambda>x. snd x = PickLoss \<or> snd x = PickMissedLoss) run then 0
        else length (filter (\<lambda>x. snd x = PickWin) run) + streakFrom rest)"
      by (subst streakFrom.simps) (simp add: Cons streakBlock_def run_def rest_def)
    show ?thesis
    proof (cases "list_ex (\<lambda>x. snd x = PickLoss \<or> snd x = PickMissedLoss) run")
      case True
      then obtain y where y: "y \<in> set run" "lost (snd y)" by (auto simp: list_ex_iff lost_def)
      then have "y \<in> set entries" "fst y = fst e" using split run by auto
      then have "\<forall>x\<in>set entries. \<not> (snd x = PickWin \<and> (\<forall>y\<in>set entries. lost (snd y) \<longrightarrow> fst y < fst x))"
        using y(2) upper by fastforce
      then show ?thesis unfolding streakOf_def using eqn True by (simp add: filter_none)
    next
      case False
      then have clean: "\<forall>x\<in>set run. \<not> lost (snd x)" by (auto simp: list_ex_iff lost_def)
      have IH: "streakFrom rest = streakOf rest"
        using 1(1) [OF Cons _ False [unfolded run_def] sorted_rest] by (simp add: streakBlock_def Cons run_def rest_def)
      have front: "filter (\<lambda>x. snd x = PickWin \<and> (\<forall>y\<in>set entries. lost (snd y) \<longrightarrow> fst y < fst x)) run = filter (\<lambda>x. snd x = PickWin) run"
        using run lower clean by (intro filter_cong) (auto simp: split)
      have behind: "filter (\<lambda>x. snd x = PickWin \<and> (\<forall>y\<in>set entries. lost (snd y) \<longrightarrow> fst y < fst x)) rest =
          filter (\<lambda>x. snd x = PickWin \<and> (\<forall>y\<in>set rest. lost (snd y) \<longrightarrow> fst y < fst x)) rest"
        using clean by (intro filter_cong) (auto simp: split)
      have "streakOf entries = length (filter (\<lambda>x. snd x = PickWin) run) + streakOf rest"
        unfolding streakOf_def front [symmetric] behind [symmetric] by (subst (2) split) simp
      then show ?thesis using eqn False IH by simp
    qed
  qed
qed

lemma streakOf_mset: "mset es = mset es' \<Longrightarrow> streakOf es = streakOf es'"
proof -
  assume perm: "mset es = mset es'"
  then have "mset (filter P es) = mset (filter P es')" for P by simp
  then have "length (filter P es) = length (filter P es')" for P by (rule mset_eq_length)
  moreover have "set es = set es'" using perm by (rule mset_eq_setD)
  ultimately show ?thesis by (simp add: streakOf_def)
qed

lemma streakOf_map:
  "streakOf (map (\<lambda>g. (f g, k g)) (filter P games)) =
     length (filter (\<lambda>g. P g \<and> k g = PickWin \<and> (\<forall>h\<in>set games. P h \<longrightarrow> lost (k h) \<longrightarrow> f h < f g)) games)"
  unfolding streakOf_def by (simp add: filter_map comp_def) (intro arg_cong [where f = length] filter_cong, auto)

interpretation latest_first: weak_order "\<lambda>a b :: time \<times> pickem_outcome. fst a > fst b"
  by unfold_locales auto

text \<open>
  C33: the streak of an entrant, computed by walking the kickoffs backwards a slate at a time, is the number of wins that
  kicked off after every loss and every missed game; the order in which the games of a slate are listed does not matter.
\<close>

theorem streak_counts_wins_after_last_loss:
  "pickemStreak games mks ps entered now =
     length (filter (\<lambda>g. gradeOf mks ps entered now g = PickWin \<and>
       (\<forall>h\<in>set games. lost (gradeOf mks ps entered now h) \<longrightarrow> gameKickoff h < gameKickoff g)) games)"
proof -
  let ?k = "gradeOf mks ps entered now" and ?es = "streakEntries games (gradeOf mks ps entered now)"
  have "pickemStreak games mks ps entered now = streakOf (sortStable (\<lambda>a b. fst a > fst b) ?es)"
    unfolding pickemStreak_def by (rule streakFrom_counts) (use latest_first.sort_sorted in simp)
  also have "\<dots> = streakOf ?es" by (rule streakOf_mset) simp
  also have "\<dots> = length (filter (\<lambda>g. (?k g \<noteq> PickPending \<and> ?k g \<noteq> PickVoid) \<and> ?k g = PickWin \<and>
      (\<forall>h\<in>set games. (?k h \<noteq> PickPending \<and> ?k h \<noteq> PickVoid) \<longrightarrow> lost (?k h) \<longrightarrow> gameKickoff h < gameKickoff g)) games)"
    unfolding streakEntries_def by (rule streakOf_map)
  also have "\<dots> = length (filter (\<lambda>g. ?k g = PickWin \<and> (\<forall>h\<in>set games. lost (?k h) \<longrightarrow> gameKickoff h < gameKickoff g)) games)"
    by (rule arg_cong [where f = length], rule filter_cong) (auto simp: lost_def)
  finally show ?thesis .
qed

theorem streak_counts_wins_after_last_loss_witness:
  "pickemStreak [finalGame ''g1'' 100 20 24] [(''g1'', sampleMarket 100)] [(''g1'', ''KC'')] 9 200 = 1"
  unfolding streak_counts_wins_after_last_loss
  by (simp add: gradeOf_def gradePickemAt_def pickOf_def finalGame_def validPick_def graded_def marketOf_def sampleMarket_def marketFromGame_def
      lost_def Let_def)

section \<open>Ranks\<close>

text \<open>On a board sorted by score, the rank the loop carries is one more than the number of entries with a better score.\<close>

definition better :: "leaderboard_entry list \<Rightarrow> nat \<Rightarrow> nat" where
  "better board c = length (filter (\<lambda>x. leCorrect x > c) board)"

lemma better_append: "better (xs @ ys) c = better xs c + better ys c"
  by (simp add: better_def)

lemma better_zero: "\<forall>x\<in>set xs. leCorrect x \<le> c \<Longrightarrow> better xs c = 0"
  by (simp add: better_def filter_empty_conv not_less)

lemma better_all: "\<forall>x\<in>set xs. leCorrect x > c \<Longrightarrow> better xs c = length xs"
  by (simp add: better_def)

definition withRank :: "leaderboard_entry list \<Rightarrow> leaderboard_entry \<Rightarrow> leaderboard_entry" where
  "withRank board e = e\<lparr>leRank := 1 + better board (leCorrect e)\<rparr>"

lemma assignRanksFrom_ranked:
  assumes "sorted_wrt (\<lambda>a b. leCorrect a \<ge> leCorrect b) (done @ es)" "index = length done"
    "done \<noteq> [] \<Longrightarrow> prev = Some (leCorrect (last done)) \<and> rank = 1 + better (done @ es) (leCorrect (last done))"
  shows "assignRanksFrom index rank prev es = map (withRank (done @ es)) es"
  using assms
proof (induction es arbitrary: "done" index rank prev)
  case (Cons e es)
  have behind: "better (e # es) (leCorrect e) = 0" by (rule better_zero) (use Cons.prems(1) in \<open>auto simp: sorted_wrt_append\<close>)
  define rank' where "rank' = (if index = 0 \<or> Some (leCorrect e) \<noteq> prev then index + 1 else rank)"
  have rank': "rank' = 1 + better (done @ e # es) (leCorrect e)"
  proof (cases "done = []")
    case True
    then show ?thesis using Cons.prems(2) behind by (simp add: rank'_def)
  next
    case False
    show ?thesis
    proof (cases "leCorrect e = leCorrect (last done)")
      case True
      then show ?thesis using False Cons.prems(2,3) by (simp add: rank'_def)
    next
      case other: False
      have "\<forall>x\<in>set done. leCorrect x \<ge> leCorrect (last done)"
        using Cons.prems(1) False by (cases "done" rule: rev_cases) (simp_all add: sorted_wrt_append)
      moreover have "leCorrect (last done) \<ge> leCorrect e" using Cons.prems(1) False by (simp add: sorted_wrt_append)
      ultimately have "\<forall>x\<in>set done. leCorrect x > leCorrect e" using other by fastforce
      then have "better done (leCorrect e) = length done" by (rule better_all)
      then show ?thesis using False other Cons.prems(2,3) behind by (simp add: rank'_def better_append)
    qed
  qed
  have "assignRanksFrom (index + 1) rank' (Some (leCorrect e)) es = map (withRank ((done @ [e]) @ es)) es"
    by (rule Cons.IH) (use Cons.prems rank' in simp_all)
  then show ?case using rank' by (simp add: rank'_def Let_def withRank_def)
qed simp

interpretation board_order: weak_order boardLess
  by unfold_locales (auto simp: boardLess_def split: if_splits)

lemma better_ranked: "better (map (withRank b) board) c = better board c"
  by (simp add: better_def withRank_def filter_map comp_def)

definition boardEntries :: "(team_id \<Rightarrow> string) \<Rightarrow> persisted_state \<Rightarrow> pickem_game list \<Rightarrow> pickem_game list \<Rightarrow> time \<Rightarrow> leaderboard_entry list" where
  "boardEntries abbr st games entryGames now = sortStable boardLess
       (List.map_filter (\<lambda>(owner, ps).
          (let enteredAt = effectivePickemEnteredAt st owner entryGames in
           if pickemEntryAppliesToAnyGame games enteredAt
           then Some (boardEntry abbr st owner (tallyPicks games (pickemMarkets st) ps enteredAt now)) else None)) (pickems st))"

lemma boardEntries_correct: "\<forall>e\<in>set (boardEntries abbr st games entryGames now). leCorrect e = leWins e"
  by (auto simp: boardEntries_def map_filter_def boardEntry_def Let_def split: if_splits)

lemma boardEntries_sorted: "sorted_wrt (\<lambda>a b. \<not> boardLess b a) (boardEntries abbr st games entryGames now)"
  unfolding boardEntries_def by (rule board_order.sort_sorted)

lemma leaderboard_ranked:
  "pickemLeaderboard abbr st games entryGames now =
     map (withRank (boardEntries abbr st games entryGames now)) (boardEntries abbr st games entryGames now)"
proof -
  have "sorted_wrt (\<lambda>a b. leCorrect a \<ge> leCorrect b) (boardEntries abbr st games entryGames now)"
    by (rule sorted_wrt_mono_rel [OF _ boardEntries_sorted]) (use boardEntries_correct in \<open>auto simp: boardLess_def split: if_splits\<close>)
  then show ?thesis using assignRanksFrom_ranked [of "[]" "boardEntries abbr st games entryGames now" 0 None 0]
    unfolding pickemLeaderboard_def assignSharedRanks_def boardEntries_def [symmetric] by simp
qed

text \<open>
  the leaderboard is sorted by wins, then by name, and the rank the loop assigns to an entry is one more than the
  number of entries with strictly more wins: tied entries share a rank and the next score skips the tied places.
\<close>

theorem leaderboard_competition_ranks:
  "sorted_wrt (\<lambda>a b. leWins a > leWins b \<or> leWins a = leWins b \<and> leName a \<le> leName b) (pickemLeaderboard abbr st games entryGames now) \<and>
   map leRank (pickemLeaderboard abbr st games entryGames now) =
     map (\<lambda>e. 1 + length (filter (\<lambda>x. leWins x > leWins e) (pickemLeaderboard abbr st games entryGames now)))
       (pickemLeaderboard abbr st games entryGames now)"
proof
  let ?es = "boardEntries abbr st games entryGames now"
  have "sorted_wrt (\<lambda>a b. leWins (withRank ?es a) > leWins (withRank ?es b) \<or>
      leWins (withRank ?es a) = leWins (withRank ?es b) \<and> leName (withRank ?es a) \<le> leName (withRank ?es b)) ?es"
    by (rule sorted_wrt_mono_rel [OF _ boardEntries_sorted]) (auto simp: boardLess_def withRank_def split: if_splits)
  then show "sorted_wrt (\<lambda>a b. leWins a > leWins b \<or> leWins a = leWins b \<and> leName a \<le> leName b) (pickemLeaderboard abbr st games entryGames now)"
    unfolding leaderboard_ranked sorted_wrt_map by simp
  have count: "leRank (withRank ?es e) = 1 + length (filter (\<lambda>x. leWins x > leWins (withRank ?es e)) (map (withRank ?es) ?es))"
    if "e \<in> set ?es" for e
  proof -
    have "filter (\<lambda>x. leCorrect e < leCorrect x) ?es = filter (\<lambda>x. leWins e < leWins x) ?es"
      by (rule filter_cong) (use that boardEntries_correct [of abbr st games entryGames now] in simp_all)
    then show ?thesis by (simp add: better_def withRank_def filter_map comp_def)
  qed
  show "map leRank (pickemLeaderboard abbr st games entryGames now) =
     map (\<lambda>e. 1 + length (filter (\<lambda>x. leWins x > leWins e) (pickemLeaderboard abbr st games entryGames now)))
       (pickemLeaderboard abbr st games entryGames now)"
    unfolding leaderboard_ranked map_map comp_def by (rule map_cong [OF refl count])
qed

end
