(* ===== verification/Badges.thy ===== *)
theory Badges
  imports Seats
begin

text \<open>
  Team badges and avatars: the atomic identity transition of src/internal/league/store.go (mutateAvatarIdentity and the four
  operations that use it) and the Service actions of badge.go. The images themselves are outside the model; an avatar is
  its content address. A read of the database after a write whose outcome is unknown is a parameter: the rows it shows and
  whether the shadow could be rebuilt from them.
\<close>

section \<open>Actors\<close>

record seat_actor =
  actEmail :: string
  actCommissioner :: bool
  actDemo :: bool

definition avatarActorAllowed :: "persisted_state \<Rightarrow> team_id \<Rightarrow> seat_actor \<Rightarrow> bool \<Rightarrow> bool" where
  "avatarActorAllowed st t actor commissionerOnly =
     (if actCommissioner actor \<or> actDemo actor then True
      else if commissionerOnly then False
      else (case memberOf st (toLower (trimSpace (actEmail actor))) of None \<Rightarrow> False | Some m \<Rightarrow> memTeam m = t))"

section \<open>The transition\<close>

datatype badge_error = BadgeForbidden | AvatarForbidden | BadgeTakenBy team_id | BadgeMotifUnknown | BadgeTeamUnknown team_id
  | AvatarRefInvalid

text \<open>The durable pair of a team: its avatar and its badge, empty where it has none.\<close>

definition avatarIdentityOf :: "persisted_state \<Rightarrow> team_id \<Rightarrow> string \<times> string" where
  "avatarIdentityOf st t =
     (case map_of (avatarRefs st) t of None \<Rightarrow> [] | Some ref \<Rightarrow> ref, case map_of (badgeClaims st) t of None \<Rightarrow> [] | Some motif \<Rightarrow> motif)"

text \<open>A change of a candidate state: an error, or the candidate, whether it changed, and what the caller wants to know.\<close>

type_synonym 'x identity_change = "persisted_state \<Rightarrow> badge_error + (persisted_state \<times> bool \<times> 'x)"

definition poisoned :: "store \<Rightarrow> (store, badge_error, 'a) outcome" where
  "poisoned s = (Inl PersistFailed, s\<lparr>stWriteError := True\<rparr>)"

definition reconcileIdentity :: "league_env \<Rightarrow> team_id \<Rightarrow> (persisted_state \<times> bool) option \<Rightarrow> persisted_state \<Rightarrow> 'a \<Rightarrow> store \<Rightarrow>
    (store, badge_error, 'a) outcome" where
  "reconcileIdentity env t reread candidate r s =
     (case reread of None \<Rightarrow> poisoned s
      | Some (rows, rebuilt) \<Rightarrow>
          (let stored = normalizeIdentityCollections env rows in
           if avatarIdentityOf stored t = avatarIdentityOf candidate t
             then (if rebuilt then (Inr r, s\<lparr>stState := stored\<rparr>) else poisoned s)
           else if avatarIdentityOf stored t = avatarIdentityOf (stState s) t
             then (if rebuilt then (Inl PersistFailed, s) else poisoned s)
           else poisoned s))"

text \<open>The actor is checked on the store of the first, optimistic read (view) and again under the write lock.\<close>

definition mutateAvatarIdentity :: "league_env \<Rightarrow> resolver \<Rightarrow> team_id \<Rightarrow> seat_actor \<Rightarrow> bool \<Rightarrow> badge_error \<Rightarrow> 'x identity_change \<Rightarrow>
    store \<Rightarrow> persist_result \<Rightarrow> (persisted_state \<times> bool) option \<Rightarrow> store \<Rightarrow> (store, badge_error, 'x) outcome" where
  "mutateAvatarIdentity env as t actor0 commissionerOnly forbidden mutate view res reread s =
     (let actor = actor0\<lparr>actEmail := resolve as (actEmail actor0)\<rparr> in
      if stWriteError view then (Inl Unhealthy, s)
      else if \<not> avatarActorAllowed (stState view) t actor commissionerOnly then rejected forbidden s
      else gated s
        (if \<not> avatarActorAllowed (stState s) t actor commissionerOnly then rejected forbidden s
         else (case mutate (stState s) of Inl e \<Rightarrow> rejected e s
         | Inr (changedState, changed, x) \<Rightarrow>
             if \<not> changed then (Inr x, s)
             else (let candidate = normalizeIdentityCollections env changedState in
               case res of Persisted \<Rightarrow> (Inr x, s\<lparr>stState := candidate\<rparr>)
               | NotCommitted \<Rightarrow> (Inl PersistFailed, s)
               | CommittedUnverified \<Rightarrow> reconcileIdentity env t reread candidate x s))))"

section \<open>The operations\<close>

definition claimBadgeChange :: "league_env \<Rightarrow> team_id \<Rightarrow> string \<Rightarrow> bool identity_change" where
  "claimBadgeChange env t motif st0 =
     (let st = normalizeIdentityCollections env st0 in
      case find (\<lambda>(holder, claimed). claimed = motif \<and> holder \<noteq> t) (badgeClaims st) of
        Some (holder, claimed) \<Rightarrow> Inl (BadgeTakenBy holder)
      | None \<Rightarrow>
          if avatarIdentityOf st t = ([], motif) then Inr (st, False, False)
          else Inr (st\<lparr>badgeClaims := AList.update t motif (badgeClaims st), avatarRefs := AList.delete t (avatarRefs st)\<rparr>, True,
                    map_of (avatarRefs st) t \<noteq> None))"

definition claimBadgeForActor :: "league_env \<Rightarrow> resolver \<Rightarrow> team_id \<Rightarrow> string \<Rightarrow> seat_actor \<Rightarrow> store \<Rightarrow> persist_result \<Rightarrow>
    (persisted_state \<times> bool) option \<Rightarrow> store \<Rightarrow> (store, badge_error, bool) outcome" where
  "claimBadgeForActor env as t0 motif0 actor view res reread s =
     (let t = trimSpace t0; motif = trimSpace motif0 in
      if \<not> knownTeam env t then rejected (BadgeTeamUnknown t) s
      else if \<not> knownMotif motif then rejected BadgeMotifUnknown s
      else mutateAvatarIdentity env as t actor False BadgeForbidden (claimBadgeChange env t motif) view res reread s)"

definition activateAvatarChange :: "team_id \<Rightarrow> string \<Rightarrow> bool identity_change" where
  "activateAvatarChange t ref st =
     (if avatarIdentityOf st t = (ref, []) then Inr (st, False, False)
      else Inr (st\<lparr>avatarRefs := AList.update t ref (avatarRefs st), badgeClaims := AList.delete t (badgeClaims st)\<rparr>, True,
                map_of (badgeClaims st) t \<noteq> None))"

definition activateAvatar :: "league_env \<Rightarrow> resolver \<Rightarrow> team_id \<Rightarrow> string \<Rightarrow> seat_actor \<Rightarrow> store \<Rightarrow> persist_result \<Rightarrow>
    (persisted_state \<times> bool) option \<Rightarrow> store \<Rightarrow> (store, badge_error, bool) outcome" where
  "activateAvatar env as t0 ref actor view res reread s =
     (let t = trimSpace t0 in
      if \<not> knownTeam env t then rejected (BadgeTeamUnknown t) s
      else if \<not> validAvatarRef ref then rejected AvatarRefInvalid s
      else mutateAvatarIdentity env as t actor False AvatarForbidden (activateAvatarChange t ref) view res reread s)"

definition clearAvatarChange :: "team_id \<Rightarrow> unit identity_change" where
  "clearAvatarChange t st =
     (if map_of (avatarRefs st) t = None then Inr (st, False, ()) else Inr (st\<lparr>avatarRefs := AList.delete t (avatarRefs st)\<rparr>, True, ()))"

definition clearAvatar :: "league_env \<Rightarrow> resolver \<Rightarrow> team_id \<Rightarrow> seat_actor \<Rightarrow> store \<Rightarrow> persist_result \<Rightarrow>
    (persisted_state \<times> bool) option \<Rightarrow> store \<Rightarrow> (store, badge_error, unit) outcome" where
  "clearAvatar env as t0 actor view res reread s =
     (let t = trimSpace t0 in
      if \<not> knownTeam env t then rejected (BadgeTeamUnknown t) s
      else mutateAvatarIdentity env as t actor True AvatarForbidden (clearAvatarChange t) view res reread s)"

definition releaseBadgeChange :: "team_id \<Rightarrow> bool identity_change" where
  "releaseBadgeChange t st =
     (if map_of (badgeClaims st) t = None then Inr (st, False, False) else Inr (st\<lparr>badgeClaims := AList.delete t (badgeClaims st)\<rparr>, True, True))"

definition releaseBadgeForActor :: "league_env \<Rightarrow> resolver \<Rightarrow> team_id \<Rightarrow> seat_actor \<Rightarrow> store \<Rightarrow> persist_result \<Rightarrow>
    (persisted_state \<times> bool) option \<Rightarrow> store \<Rightarrow> (store, badge_error, bool) outcome" where
  "releaseBadgeForActor env as t0 actor view res reread s =
     (let t = trimSpace t0 in
      if \<not> knownTeam env t then rejected (BadgeTeamUnknown t) s
      else mutateAvatarIdentity env as t actor False BadgeForbidden (releaseBadgeChange t) view res reread s)"

text \<open>The Service actions check the seat first; canSetAvatar is what the request resolves to.\<close>

definition serviceClaimBadge :: "league_env \<Rightarrow> resolver \<Rightarrow> bool \<Rightarrow> team_id \<Rightarrow> string \<Rightarrow> seat_actor \<Rightarrow> store \<Rightarrow> persist_result \<Rightarrow>
    (persisted_state \<times> bool) option \<Rightarrow> store \<Rightarrow> (store, badge_error, bool) outcome" where
  "serviceClaimBadge env as canSetAvatar t0 motif0 actor view res reread s =
     (let t = trimSpace t0; motif = trimSpace motif0 in
      if \<not> knownTeam env t then rejected (BadgeTeamUnknown t) s
      else if \<not> canSetAvatar then rejected BadgeForbidden s
      else if \<not> knownMotif motif then rejected BadgeMotifUnknown s
      else claimBadgeForActor env as t motif actor view res reread s)"

definition serviceReleaseBadge :: "league_env \<Rightarrow> resolver \<Rightarrow> bool \<Rightarrow> team_id \<Rightarrow> seat_actor \<Rightarrow> store \<Rightarrow> persist_result \<Rightarrow>
    (persisted_state \<times> bool) option \<Rightarrow> store \<Rightarrow> (store, badge_error, bool) outcome" where
  "serviceReleaseBadge env as canSetAvatar t0 actor view res reread s =
     (let t = trimSpace t0 in
      if \<not> knownTeam env t then rejected (BadgeTeamUnknown t) s
      else if \<not> canSetAvatar then rejected BadgeForbidden s
      else releaseBadgeForActor env as t actor view res reread s)"

text \<open>What a page sees of the pair of a team.\<close>

definition AvatarRef :: "league_env \<Rightarrow> store \<Rightarrow> team_id \<Rightarrow> string option" where
  "AvatarRef env s t =
     (if stWriteError s \<or> \<not> knownTeam env t then None
      else (case map_of (avatarRefs (stState s)) t of None \<Rightarrow> None | Some ref \<Rightarrow> if validAvatarRef ref then Some ref else None))"

definition BadgeClaim :: "league_env \<Rightarrow> store \<Rightarrow> team_id \<Rightarrow> string option" where
  "BadgeClaim env s t =
     (if stWriteError s \<or> \<not> knownTeam env t then None
      else (case map_of (badgeClaims (stState s)) t of None \<Rightarrow> None | Some motif \<Rightarrow> if knownMotif motif then Some motif else None))"

section \<open>One badge for a motif, one mark for a team\<close>

definition identityOK :: "league_env \<Rightarrow> persisted_state \<Rightarrow> bool" where
  "identityOK env st \<longleftrightarrow>
     distinct (map fst (avatarRefs st)) \<and> distinct (map fst (badgeClaims st)) \<and> distinct (map snd (badgeClaims st)) \<and>
     (\<forall>(t, ref)\<in>set (avatarRefs st). knownTeam env t \<and> validAvatarRef ref) \<and>
     (\<forall>(t, motif)\<in>set (badgeClaims st). knownTeam env t \<and> knownMotif motif \<and> map_of (avatarRefs st) t = None)"

definition mapsOK :: "persisted_state \<Rightarrow> bool" where
  "mapsOK st \<longleftrightarrow> distinct (map fst (avatarRefs st)) \<and> distinct (map fst (badgeClaims st))"

lemma identity_maps: "identityOK env st \<Longrightarrow> mapsOK st"
  by (simp add: identityOK_def mapsOK_def)

definition badgeStep :: "league_env \<Rightarrow> (team_id \<times> string) list \<Rightarrow> team_id \<Rightarrow> (team_id \<times> string) list \<times> string list \<Rightarrow>
    (team_id \<times> string) list \<times> string list" where
  "badgeStep env claims t acc = (case acc of (kept, seen) \<Rightarrow>
     (case map_of claims t of None \<Rightarrow> (kept, seen)
      | Some motif \<Rightarrow> if \<not> knownTeam env t \<or> \<not> knownMotif motif \<or> motif \<in> set seen then (AList.delete t kept, seen)
          else (kept, motif # seen)))"

lemma normalizeBadgeClaims_fold:
  "normalizeBadgeClaims env claims = fst (fold (badgeStep env claims) (sort (remdups (map fst claims))) (claims, []))"
proof -
  have "(\<lambda>t (kept, seen). case map_of claims t of None \<Rightarrow> (kept, seen)
         | Some motif \<Rightarrow>
             if \<not> knownTeam env t \<or> \<not> knownMotif motif \<or> motif \<in> set seen then (AList.delete t kept, seen)
             else (kept, motif # seen)) = badgeStep env claims"
    by (intro ext) (auto simp: badgeStep_def split: prod.splits)
  then show ?thesis unfolding normalizeBadgeClaims_def by simp
qed

text \<open>What the loop has achieved for the teams D it has seen, of which it dropped R.\<close>

definition sifted :: "league_env \<Rightarrow> (team_id \<times> string) list \<Rightarrow> team_id set \<Rightarrow> team_id set \<Rightarrow> (team_id \<times> string) list \<Rightarrow> string list \<Rightarrow> bool" where
  "sifted env claims D R kept seen \<longleftrightarrow>
     kept = filter (\<lambda>x. fst x \<notin> R) claims \<and> R \<subseteq> D \<and>
     (\<forall>t\<in>D - R. \<exists>motif. map_of claims t = Some motif \<and> knownTeam env t \<and> knownMotif motif) \<and>
     inj_on (map_of claims) (D - R) \<and> Some ` set seen = map_of claims ` (D - R)"

lemma sifted_step:
  assumes "sifted env claims D R kept seen" "t \<notin> D" "map_of claims t = Some motif" "badgeStep env claims t (kept, seen) = (kept', seen')"
  shows "\<exists>R'. sifted env claims (insert t D) R' kept' seen'"
proof (cases "\<not> knownTeam env t \<or> \<not> knownMotif motif \<or> motif \<in> set seen")
  case True
  then have new: "kept' = AList.delete t kept" "seen' = seen" using assms(3,4) by (simp_all add: badgeStep_def)
  have kept: "kept = filter (\<lambda>x. fst x \<notin> R) claims" using assms(1) by (simp add: sifted_def)
  have "AList.delete t kept = filter (\<lambda>x. fst x \<notin> insert t R) claims"
    unfolding kept AList.delete_eq filter_filter by (rule filter_cong) auto
  moreover have "insert t D - insert t R = D - R" using assms(1,2) by (auto simp: sifted_def)
  ultimately have "sifted env claims (insert t D) (insert t R) kept' seen'"
    using assms(1) unfolding sifted_def new by auto
  then show ?thesis by blast
next
  case False
  then have new: "kept' = kept" "seen' = motif # seen" using assms(3,4) by (simp_all add: badgeStep_def)
  have fresh: "t \<notin> R" using assms(1,2) by (auto simp: sifted_def)
  then have cut: "insert t D - R = insert t (D - R)" by blast
  have "Some motif \<notin> map_of claims ` (D - R)" using assms(1) False by (auto simp: sifted_def)
  then have "inj_on (map_of claims) (insert t (D - R))" using assms(1,2,3) by (auto simp: sifted_def)
  then have "sifted env claims (insert t D) R kept' seen'"
    using assms(1,3) False unfolding sifted_def new cut by auto
  then show ?thesis by blast
qed

lemma sifted_fold:
  assumes "sifted env claims D R kept seen" "distinct ts" "set ts \<inter> D = {}" "\<forall>t\<in>set ts. map_of claims t \<noteq> None"
    "fold (badgeStep env claims) ts (kept, seen) = (kept', seen')"
  shows "\<exists>R'. sifted env claims (set ts \<union> D) R' kept' seen'"
  using assms
proof (induction ts arbitrary: D R kept seen)
  case Nil
  then show ?case by auto
next
  case (Cons t ts)
  obtain kept1 seen1 where step: "badgeStep env claims t (kept, seen) = (kept1, seen1)" by fastforce
  obtain motif where motif: "map_of claims t = Some motif" using Cons.prems(4) by auto
  obtain R1 where "sifted env claims (insert t D) R1 kept1 seen1"
    using sifted_step [OF Cons.prems(1) _ motif step] Cons.prems(3) by auto
  from Cons.IH [OF this] Cons.prems(2,3,4,5) step show ?case by auto
qed

lemma normalized_claims:
  assumes "distinct (map fst claims)"
  shows "\<exists>R. sifted env claims (set (map fst claims)) R (normalizeBadgeClaims env claims)
    (snd (fold (badgeStep env claims) (sort (remdups (map fst claims))) (claims, [])))"
proof -
  let ?ts = "sort (remdups (map fst claims))"
  obtain kept seen where run: "fold (badgeStep env claims) ?ts (claims, []) = (kept, seen)" by fastforce
  have "sifted env claims {} {} claims []" by (simp add: sifted_def)
  from sifted_fold [OF this _ _ _ run] have "\<exists>R. sifted env claims (set (map fst claims)) R kept seen"
    by (auto simp: map_of_eq_None_iff)
  then show ?thesis by (simp add: normalizeBadgeClaims_fold run)
qed

lemma normalizeBadgeClaims_facts:
  assumes "distinct (map fst claims)"
  shows "distinct (map fst (normalizeBadgeClaims env claims))" "distinct (map snd (normalizeBadgeClaims env claims))"
    "set (normalizeBadgeClaims env claims) \<subseteq> set claims"
    "\<forall>(t, motif)\<in>set (normalizeBadgeClaims env claims). knownTeam env t \<and> knownMotif motif"
proof -
  obtain R seen where s: "sifted env claims (set (map fst claims)) R (normalizeBadgeClaims env claims) seen"
    using normalized_claims [OF assms] by blast
  then have kept: "normalizeBadgeClaims env claims = filter (\<lambda>x. fst x \<notin> R) claims" by (simp add: sifted_def)
  have worth: "x \<in> set claims \<Longrightarrow> map_of claims (fst x) = Some (snd x)" for x
    using assms by (simp add: map_of_eq_Some_iff)
  show "distinct (map fst (normalizeBadgeClaims env claims))" using assms by (simp add: kept distinct_map_filter)
  show "set (normalizeBadgeClaims env claims) \<subseteq> set claims" by (auto simp: kept)
  show "\<forall>(t, motif)\<in>set (normalizeBadgeClaims env claims). knownTeam env t \<and> knownMotif motif"
  proof safe
    fix t motif assume "(t, motif) \<in> set (normalizeBadgeClaims env claims)"
    then have mem: "(t, motif) \<in> set claims" "t \<notin> R" by (auto simp: kept)
    then have "t \<in> set (map fst claims) - R" by force
    then obtain m where "map_of claims t = Some m \<and> knownTeam env t \<and> knownMotif m" using s unfolding sifted_def by blast
    then show "knownTeam env t" "knownMotif motif" using worth [OF mem(1)] by simp_all
  qed
  have "inj_on snd (set (normalizeBadgeClaims env claims))"
  proof (rule inj_onI)
    fix x y assume x: "x \<in> set (normalizeBadgeClaims env claims)" and y: "y \<in> set (normalizeBadgeClaims env claims)" and eq: "snd x = snd y"
    have "fst x \<in> set (map fst claims) - R" "fst y \<in> set (map fst claims) - R" using x y by (auto simp: kept)
    moreover have "map_of claims (fst x) = map_of claims (fst y)" using worth x y eq by (simp add: kept)
    ultimately have "fst x = fst y" using s by (auto simp: sifted_def dest: inj_onD)
    then show "x = y" using eq by (simp add: prod_eq_iff)
  qed
  moreover have "distinct (normalizeBadgeClaims env claims)" using assms by (simp add: kept distinct_map)
  ultimately show "distinct (map snd (normalizeBadgeClaims env claims))" by (simp add: distinct_map)
qed

lemma normalized_identityOK:
  assumes "mapsOK st"
  shows "identityOK env (normalizeIdentityCollections env st)"
proof -
  let ?refs = "filter (\<lambda>(t, ref). knownTeam env t \<and> validAvatarRef ref) (avatarRefs st)"
  let ?claims = "filter (\<lambda>(t, motif). map_of ?refs t = None) (badgeClaims st)"
  have "distinct (map fst ?claims)" "distinct (map fst ?refs)" using assms by (simp_all add: mapsOK_def distinct_map_filter)
  note facts = normalizeBadgeClaims_facts [OF this(1), of env] this(2)
  have free: "map_of ?refs (fst x) = None" if "x \<in> set (normalizeBadgeClaims env ?claims)" for x
  proof -
    have "x \<in> set ?claims" using that facts(3) by blast
    then have "case x of (t, motif) \<Rightarrow> map_of ?refs t = None" unfolding set_filter by blast
    then show ?thesis by (simp add: case_prod_beta)
  qed
  have refs: "avatarRefs (normalizeIdentityCollections env st) = ?refs"
    and claims: "badgeClaims (normalizeIdentityCollections env st) = normalizeBadgeClaims env ?claims"
    by (simp_all add: normalizeIdentityCollections_def Let_def)
  show ?thesis unfolding identityOK_def refs claims
  proof (intro conjI)
    show "\<forall>(t, ref)\<in>set ?refs. knownTeam env t \<and> validAvatarRef ref" by simp
    show "\<forall>(t, motif)\<in>set (normalizeBadgeClaims env ?claims). knownTeam env t \<and> knownMotif motif \<and> map_of ?refs t = None"
    proof
      fix x assume x: "x \<in> set (normalizeBadgeClaims env ?claims)"
      then have "case x of (t, motif) \<Rightarrow> knownTeam env t \<and> knownMotif motif" using facts(4) by blast
      then show "case x of (t, motif) \<Rightarrow> knownTeam env t \<and> knownMotif motif \<and> map_of ?refs t = None" using free [OF x] by (cases x) simp
    qed
  qed (rule facts)+
qed

text \<open>Normalising changes nothing where the invariant holds already.\<close>

lemma badgeStep_idle:
  assumes "distinct (map fst claims)" "distinct (map snd claims)" "\<forall>(t, motif)\<in>set claims. knownTeam env t \<and> knownMotif motif"
    "distinct ts" "Some ` set seen \<inter> map_of claims ` set ts = {}"
  shows "fst (fold (badgeStep env claims) ts (claims, seen)) = claims"
  using assms(4,5)
proof (induction ts arbitrary: seen)
  case (Cons t ts)
  show ?case
  proof (cases "map_of claims t")
    case None
    then show ?thesis using Cons by (auto simp: badgeStep_def)
  next
    case (Some motif)
    have mem: "(t, motif) \<in> set claims" using Some by (rule map_of_SomeD)
    have good: "knownTeam env t" "knownMotif motif" using assms(3) mem by auto
    have "motif \<notin> set seen" using Cons.prems(2) Some by force
    have "map_of claims t' \<noteq> Some motif" if "t' \<in> set ts" for t'
    proof
      assume "map_of claims t' = Some motif"
      then have "(t', motif) \<in> set claims" by (rule map_of_SomeD)
      then have "(t', motif) = (t, motif)" by (intro inj_onD [of snd "set claims"]) (use mem assms(2) in \<open>simp_all add: distinct_map\<close>)
      then have "t' = t" by simp
      then show False using that Cons.prems(1) by simp
    qed
    with Cons.prems(2) have "Some ` set (motif # seen) \<inter> map_of claims ` set ts = {}" by fastforce
    then have "fst (fold (badgeStep env claims) ts (claims, motif # seen)) = claims" using Cons.prems(1) by (intro Cons.IH) simp_all
    moreover have "badgeStep env claims t (claims, seen) = (claims, motif # seen)"
      using good \<open>motif \<notin> set seen\<close> by (simp add: badgeStep_def Some)
    ultimately show ?thesis by simp
  qed
qed simp

lemma normalized_id: "identityOK env st \<Longrightarrow> normalizeIdentityCollections env st = st"
proof -
  assume ok: "identityOK env st"
  have refs: "filter (\<lambda>(t, ref). knownTeam env t \<and> validAvatarRef ref) (avatarRefs st) = avatarRefs st"
    using ok by (simp add: identityOK_def filter_id_conv)
  have free: "filter (\<lambda>(t, motif). map_of (avatarRefs st) t = None) (badgeClaims st) = badgeClaims st"
    unfolding filter_id_conv using ok by (auto simp: identityOK_def)
  have "normalizeBadgeClaims env (badgeClaims st) = badgeClaims st"
    unfolding normalizeBadgeClaims_fold by (rule badgeStep_idle) (use ok in \<open>auto simp: identityOK_def\<close>)
  then show ?thesis by (simp add: normalizeIdentityCollections_def refs free)
qed

lemma set_delete: "set (AList.delete t xs) = {x \<in> set xs. fst x \<noteq> t}"
  by (auto simp: AList.delete_eq)

lemma map_of_delete: "map_of (AList.delete t xs) u = (if u = t then None else map_of xs u)"
  by (simp add: delete_conv')

lemma distinct_snd_delete: "distinct (map snd xs) \<Longrightarrow> distinct (map snd (AList.delete t xs))"
  by (simp add: AList.delete_eq distinct_map_filter)

lemma distinct_snd_update:
  assumes "distinct (map snd xs)" "\<forall>x\<in>set xs. snd x = v \<longrightarrow> fst x = k" "distinct (map fst xs)"
  shows "distinct (map snd (AList.update k v xs))"
  using assms
proof (induction xs)
  case (Cons x xs)
  then show ?case using set_update [of k v xs] by (cases x) (auto simp: image_iff)
qed simp

lemma claimed_OK:
  assumes ok: "identityOK env st" and "knownTeam env t" "knownMotif motif"
    and free: "\<forall>x\<in>set (badgeClaims st). snd x = motif \<longrightarrow> fst x = t"
  shows "identityOK env (st\<lparr>badgeClaims := AList.update t motif (badgeClaims st), avatarRefs := AList.delete t (avatarRefs st)\<rparr>)"
proof -
  have "\<forall>x\<in>set (AList.update t motif (badgeClaims st)).
      knownTeam env (fst x) \<and> knownMotif (snd x) \<and> map_of (AList.delete t (avatarRefs st)) (fst x) = None"
  proof
    fix x assume "x \<in> set (AList.update t motif (badgeClaims st))"
    then have "x = (t, motif) \<or> x \<in> set (badgeClaims st)" using set_update [of t motif "badgeClaims st"] by blast
    then show "knownTeam env (fst x) \<and> knownMotif (snd x) \<and> map_of (AList.delete t (avatarRefs st)) (fst x) = None"
      using assms(1-3) by (auto simp: identityOK_def map_of_delete)
  qed
  moreover have "distinct (map snd (AList.update t motif (badgeClaims st)))"
    by (rule distinct_snd_update) (use ok free in \<open>simp_all add: identityOK_def\<close>)
  ultimately show ?thesis using ok
    by (simp add: identityOK_def distinct_update distinct_delete set_delete case_prod_beta)
qed

lemma activated_OK:
  assumes ok: "identityOK env st" and "knownTeam env t" "validAvatarRef ref"
  shows "identityOK env (st\<lparr>avatarRefs := AList.update t ref (avatarRefs st), badgeClaims := AList.delete t (badgeClaims st)\<rparr>)"
proof -
  have "\<forall>x\<in>set (AList.update t ref (avatarRefs st)). knownTeam env (fst x) \<and> validAvatarRef (snd x)"
    using set_update [of t ref "avatarRefs st"] assms by (fastforce simp: identityOK_def)
  then show ?thesis using ok
    by (simp add: identityOK_def distinct_update distinct_delete set_delete case_prod_beta update_conv' distinct_snd_delete)
qed

lemma cleared_OK: "identityOK env st \<Longrightarrow> identityOK env (st\<lparr>avatarRefs := AList.delete t (avatarRefs st)\<rparr>)"
  by (simp add: identityOK_def distinct_delete set_delete case_prod_beta map_of_delete)

lemma released_OK: "identityOK env st \<Longrightarrow> identityOK env (st\<lparr>badgeClaims := AList.delete t (badgeClaims st)\<rparr>)"
  by (simp add: identityOK_def distinct_delete set_delete case_prod_beta distinct_snd_delete)

text \<open>What a transition may do, whatever the write did and the database shows.\<close>

lemma reconcile_outcome:
  "reconcileIdentity env t reread cand x s = (r, s') \<Longrightarrow>
    (case r of Inl e \<Rightarrow> stState s' = stState s
     | Inr y \<Rightarrow> y = x \<and> (\<exists>rows. reread = Some (rows, True) \<and> stState s' = normalizeIdentityCollections env rows \<and>
         avatarIdentityOf (stState s') t = avatarIdentityOf cand t))"
  by (auto simp: reconcileIdentity_def poisoned_def Let_def split: option.splits if_splits)

lemma transition_outcome:
  assumes run: "mutateAvatarIdentity env as t actor c forbidden mutate view res reread s = (r, s')"
  shows "(case r of Inl e \<Rightarrow> stState s' = stState s
    | Inr x \<Rightarrow> (\<exists>cand changed. mutate (stState s) = Inr (cand, changed, x) \<and>
        (if changed then stState s' = normalizeIdentityCollections env cand \<or>
           (\<exists>rows. reread = Some (rows, True) \<and> stState s' = normalizeIdentityCollections env rows \<and>
             avatarIdentityOf (stState s') t = avatarIdentityOf (normalizeIdentityCollections env cand) t)
         else stState s' = stState s)))"
proof -
  define allowed where "allowed = (\<lambda>st. avatarActorAllowed st t (actor\<lparr>actEmail := resolve as (actEmail actor)\<rparr>) c)"
  consider "stWriteError view \<or> \<not> allowed (stState view) \<or> stWriteError s \<or> \<not> allowed (stState s)"
    | "\<not> stWriteError view" "allowed (stState view)" "\<not> stWriteError s" "allowed (stState s)" by blast
  then show ?thesis
  proof cases
    case 1
    then have "\<exists>e. r = Inl e" "s' = s"
      using run by (auto simp: mutateAvatarIdentity_def allowed_def gated_def rejected_def Let_def split: if_splits)
    then show ?thesis by auto
  next
    case 2
    show ?thesis
    proof (cases "mutate (stState s)")
      case (Inl e)
      then show ?thesis using run 2 by (auto simp: mutateAvatarIdentity_def allowed_def gated_def rejected_def)
    next
      case (Inr m)
      obtain cand changed x where m: "m = (cand, changed, x)" by (cases m)
      have run': "(if \<not> changed then (Inr x, s) else
          (case res of Persisted \<Rightarrow> (Inr x, s\<lparr>stState := normalizeIdentityCollections env cand\<rparr>)
           | NotCommitted \<Rightarrow> (Inl PersistFailed, s)
           | CommittedUnverified \<Rightarrow> reconcileIdentity env t reread (normalizeIdentityCollections env cand) x s)) = (r, s')"
        using run 2 unfolding mutateAvatarIdentity_def allowed_def gated_def Let_def by (simp add: Inr m)
      show ?thesis
      proof (cases "changed \<and> res = CommittedUnverified")
        case True
        then have "reconcileIdentity env t reread (normalizeIdentityCollections env cand) x s = (r, s')" using run' by simp
        from reconcile_outcome [OF this] show ?thesis using True by (auto simp: Inr m split: sum.splits)
      next
        case False
        then have "r = Inr x \<and> (if changed then stState s' = normalizeIdentityCollections env cand else stState s' = stState s) \<or>
            (\<exists>e. r = Inl e \<and> stState s' = stState s)" using run' by (cases res) (auto split: if_splits)
        then show ?thesis
        proof (elim disjE exE)
          assume "r = Inr x \<and> (if changed then stState s' = normalizeIdentityCollections env cand else stState s' = stState s)"
          then have r: "r = Inr x"
            and st: "mutate (stState s) = Inr (cand, changed, x) \<and> (if changed then stState s' = normalizeIdentityCollections env cand \<or>
               (\<exists>rows. reread = Some (rows, True) \<and> stState s' = normalizeIdentityCollections env rows \<and>
                 avatarIdentityOf (stState s') t = avatarIdentityOf (normalizeIdentityCollections env cand) t)
             else stState s' = stState s)" using Inr m by auto
          show ?thesis unfolding r sum.case using st by blast
        qed simp
      qed
    qed
  qed
qed

text \<open>The rows a read of the database shows have one row for a team.\<close>

definition rowsOK :: "(persisted_state \<times> bool) option \<Rightarrow> bool" where
  "rowsOK reread = (case reread of None \<Rightarrow> True | Some (rows, rebuilt) \<Rightarrow> mapsOK rows)"

lemma transition_OK:
  assumes "mutateAvatarIdentity env as t actor c forbidden mutate view res reread s = (r, s')" "identityOK env (stState s)" "rowsOK reread"
    "\<And>cand x. mutate (stState s) = Inr (cand, True, x) \<Longrightarrow> identityOK env cand"
  shows "identityOK env (stState s')"
proof (cases r)
  case (Inl e)
  then show ?thesis using transition_outcome [OF assms(1)] assms(2) by simp
next
  case (Inr x)
  then obtain cand changed where m: "mutate (stState s) = Inr (cand, changed, x)"
    and st: "if changed then stState s' = normalizeIdentityCollections env cand \<or>
           (\<exists>rows. reread = Some (rows, True) \<and> stState s' = normalizeIdentityCollections env rows \<and>
             avatarIdentityOf (stState s') t = avatarIdentityOf (normalizeIdentityCollections env cand) t)
         else stState s' = stState s"
    using transition_outcome [OF assms(1)] by auto
  show ?thesis
  proof (cases changed)
    case True
    then have "mutate (stState s) = Inr (cand, True, x)" using m by simp
    then have cand: "identityOK env cand" by (rule assms(4))
    consider "stState s' = normalizeIdentityCollections env cand" | rows where "reread = Some (rows, True)"
      "stState s' = normalizeIdentityCollections env rows" using st True by auto
    then show ?thesis
    proof cases
      case 1
      then show ?thesis using normalized_identityOK [OF identity_maps [OF cand]] by simp
    next
      case 2
      then show ?thesis using normalized_identityOK [of rows env] assms(3) by (simp add: rowsOK_def)
    qed
  next
    case False
    then show ?thesis using st assms(2) by simp
  qed
qed

section \<open>The operations keep the invariant\<close>

lemma other_holder: "find (\<lambda>(holder, claimed). claimed = motif \<and> holder \<noteq> t) xs = None \<Longrightarrow> \<forall>x\<in>set xs. snd x = motif \<longrightarrow> fst x = t"
  by (auto simp: find_None_iff)

lemma claimBadgeChange_OK:
  assumes "claimBadgeChange env t motif st = Inr (cand, True, x)" "identityOK env st" "knownTeam env t" "knownMotif motif"
  shows "identityOK env cand" "avatarIdentityOf cand t = ([], motif)"
proof -
  have free: "find (\<lambda>(holder, claimed). claimed = motif \<and> holder \<noteq> t) (badgeClaims st) = None"
    and cand: "cand = st\<lparr>badgeClaims := AList.update t motif (badgeClaims st), avatarRefs := AList.delete t (avatarRefs st)\<rparr>"
    using assms(1) by (auto simp: claimBadgeChange_def normalized_id [OF assms(2)] Let_def split: option.splits if_splits)
  show "identityOK env cand" unfolding cand by (rule claimed_OK [OF assms(2-4) other_holder [OF free]])
  show "avatarIdentityOf cand t = ([], motif)" by (simp add: cand avatarIdentityOf_def map_of_delete update_conv')
qed

lemma claim_keeps_marks: "claimBadgeForActor env as t motif actor view res reread s = (r, s') \<Longrightarrow> identityOK env (stState s) \<Longrightarrow> rowsOK reread \<Longrightarrow>
    identityOK env (stState s')"
  unfolding claimBadgeForActor_def Let_def rejected_def
  by (auto split: if_splits elim!: transition_OK dest: claimBadgeChange_OK)

lemma activate_keeps: "activateAvatar env as t ref actor view res reread s = (r, s') \<Longrightarrow> identityOK env (stState s) \<Longrightarrow> rowsOK reread \<Longrightarrow>
    identityOK env (stState s')"
  unfolding activateAvatar_def Let_def rejected_def
  by (auto simp: activateAvatarChange_def split: if_splits elim!: transition_OK intro: activated_OK)

lemma clear_keeps: "clearAvatar env as t actor view res reread s = (r, s') \<Longrightarrow> identityOK env (stState s) \<Longrightarrow> rowsOK reread \<Longrightarrow>
    identityOK env (stState s')"
  unfolding clearAvatar_def Let_def rejected_def
  by (auto simp: clearAvatarChange_def split: if_splits elim!: transition_OK intro: cleared_OK)

lemma release_keeps_marks: "releaseBadgeForActor env as t actor view res reread s = (r, s') \<Longrightarrow> identityOK env (stState s) \<Longrightarrow> rowsOK reread \<Longrightarrow>
    identityOK env (stState s')"
  unfolding releaseBadgeForActor_def Let_def rejected_def
  by (auto simp: releaseBadgeChange_def split: if_splits elim!: transition_OK intro: released_OK)

lemma signup_keeps_marks:
  assumes "claimFantasySeatTransaction env active as email name displayName motif ok s = (r, s')" "identityOK env (stState s)"
  shows "identityOK env (stState s')"
proof -
  have "identityOK env (signedUp env tm nm e d mo bs (stState s))" for tm nm e d mo bs
    unfolding signedUp_def
    by (rule normalized_identityOK) (use assms(2) in \<open>simp add: mapsOK_def identityOK_def seatClaimed_def bumpRevision_def recordSeatTenure_def
        setMember_def distinct_update distinct_delete split: prod.splits option.splits\<close>)
  then show ?thesis
    using assms by (auto simp: claimFantasySeatTransaction_def Let_def rejected_def gated_def commitOrRestore_def
        split: sum.splits if_splits option.splits prod.splits)
qed

lemma reset_blank: "identityOK env (resetState active st)"
  by (simp add: identityOK_def resetState_def clearClockFields_def disarmed_def)

lemma reset_keeps_marks: "resetLeague active res reread s = (r, s') \<Longrightarrow> identityOK env (stState s) \<Longrightarrow> identityOK env (stState s')"
  by (auto simp: resetLeague_def gated_def reset_blank Let_def split: persist_result.splits read_back.splits if_splits)

text \<open>Every operation that touches badges or avatars, by any actor, with any outcome of its write.\<close>

inductive badge_step :: "league_env \<Rightarrow> store \<Rightarrow> store \<Rightarrow> bool" for env where
  claim: "claimBadgeForActor env as t motif actor view res reread s = (r, s') \<Longrightarrow> rowsOK reread \<Longrightarrow> badge_step env s s'"
| release: "releaseBadgeForActor env as t actor view res reread s = (r, s') \<Longrightarrow> rowsOK reread \<Longrightarrow> badge_step env s s'"
| activate: "activateAvatar env as t ref actor view res reread s = (r, s') \<Longrightarrow> rowsOK reread \<Longrightarrow> badge_step env s s'"
| clear: "clearAvatar env as t actor view res reread s = (r, s') \<Longrightarrow> rowsOK reread \<Longrightarrow> badge_step env s s'"
| signup: "claimFantasySeatTransaction env active as email name displayName motif ok s = (q, s') \<Longrightarrow> badge_step env s s'"
| reset: "resetLeague active res back s = (q', s') \<Longrightarrow> badge_step env s s'"

lemma badge_step_keeps: "badge_step env s s' \<Longrightarrow> identityOK env (stState s) \<Longrightarrow> identityOK env (stState s')"
  by (induction rule: badge_step.induct)
    (blast intro: claim_keeps_marks release_keeps_marks activate_keeps clear_keeps signup_keeps_marks reset_keeps_marks)+

text \<open>
  C23: whatever badges and avatars are claimed, cleared and released, by whom and with whatever failed or unverified
  writes, no motif belongs to two teams, no team has both a badge and an avatar, and only known teams and motifs occur.
\<close>

theorem badges_never_shared:
  assumes "identityOK env (stState s)" and "(badge_step env)\<^sup>*\<^sup>* s s'"
  shows "identityOK env (stState s')"
  using assms(2,1) by (induction rule: rtranclp_induct) (auto intro: badge_step_keeps)

text \<open>
  C24: the outcome of a badge claim is always known. Success means that the team now wears the motif, with no avatar, and
  that no other team does, even when the write had to be verified by reading the database again; an error of any kind
  leaves the state in memory as it was.
\<close>

theorem badge_claim_settled:
  assumes "claimBadgeForActor env as t motif actor view res reread s = (r, s')" and "identityOK env (stState s)" and "rowsOK reread"
  shows "case r of
      Inr cleared \<Rightarrow> avatarIdentityOf (stState s') (trimSpace t) = ([], trimSpace motif) \<and>
        (\<forall>u. map_of (badgeClaims (stState s')) u = Some (trimSpace motif) \<longrightarrow> u = trimSpace t)
    | Inl e \<Rightarrow> stState s' = stState s"
proof (cases "knownTeam env (trimSpace t) \<and> knownMotif (trimSpace motif)")
  case False
  then have "\<exists>e. r = Inl e \<and> s' = s"
    using assms(1) by (cases "knownTeam env (trimSpace t)") (auto simp: claimBadgeForActor_def Let_def rejected_def)
  then show ?thesis by auto
next
  case True
  then have run: "mutateAvatarIdentity env as (trimSpace t) actor False BadgeForbidden (claimBadgeChange env (trimSpace t) (trimSpace motif))
      view res reread s = (r, s')" using assms(1) True by (simp add: claimBadgeForActor_def Let_def)
  show ?thesis
  proof (cases r)
    case (Inl e)
    then show ?thesis using transition_outcome [OF run] by simp
  next
    case (Inr x)
    have ok: "identityOK env (stState s')" by (rule claim_keeps_marks [OF assms])
    obtain cand changed where m: "claimBadgeChange env (trimSpace t) (trimSpace motif) (stState s) = Inr (cand, changed, x)"
      and st: "if changed then stState s' = normalizeIdentityCollections env cand \<or>
           (\<exists>rows. reread = Some (rows, True) \<and> stState s' = normalizeIdentityCollections env rows \<and>
             avatarIdentityOf (stState s') (trimSpace t) = avatarIdentityOf (normalizeIdentityCollections env cand) (trimSpace t))
         else stState s' = stState s"
      using transition_outcome [OF run] Inr by auto
    have pair: "avatarIdentityOf (stState s') (trimSpace t) = ([], trimSpace motif)"
    proof (cases changed)
      case True
      then have "claimBadgeChange env (trimSpace t) (trimSpace motif) (stState s) = Inr (cand, True, x)" using m by simp
      note cand = claimBadgeChange_OK [OF this assms(2)]
      have "avatarIdentityOf (normalizeIdentityCollections env cand) (trimSpace t) = ([], trimSpace motif)"
        using cand \<open>knownTeam env (trimSpace t) \<and> knownMotif (trimSpace motif)\<close> by (simp add: normalized_id)
      then show ?thesis using st True by auto
    next
      case False
      then show ?thesis using m st
        by (auto simp: claimBadgeChange_def normalized_id [OF assms(2)] Let_def split: option.splits if_splits)
    qed
    have "trimSpace motif \<noteq> []" using True by (auto simp: knownMotif_def badgeMotifs_def)
    then have worn: "map_of (badgeClaims (stState s')) (trimSpace t) = Some (trimSpace motif)"
      using pair by (auto simp: avatarIdentityOf_def split: option.splits)
    have "u = trimSpace t" if "map_of (badgeClaims (stState s')) u = Some (trimSpace motif)" for u
    proof -
      have "(u, trimSpace motif) = (trimSpace t, trimSpace motif)"
        using ok map_of_SomeD [OF that] map_of_SomeD [OF worn]
        by (intro inj_onD [of snd "set (badgeClaims (stState s'))"]) (simp_all add: identityOK_def distinct_map)
      then show ?thesis by simp
    qed
    then show ?thesis using pair Inr by simp
  qed
qed

text \<open>A first claim, whose write has to be verified.\<close>

definition marks :: store where "marks = sampleStore freshState"

definition commissioner :: seat_actor where
  "commissioner = \<lparr>actEmail = ''boss@x'', actCommissioner = True, actDemo = False\<rparr>"

definition firstMark :: "(store, badge_error, bool) outcome" where
  "firstMark = claimBadgeForActor sampleEnv [] ''a'' ''wolf'' commissioner marks CommittedUnverified
     (Some (freshState\<lparr>badgeClaims := [(''a'', ''wolf'')]\<rparr>, True)) marks"

lemma marks_OK: "identityOK sampleEnv (stState marks)"
  by (simp add: marks_def sampleStore_def freshState_def identityOK_def)

lemma firstMark_settled: "\<exists>s'. firstMark = (Inr False, s')"
proof -
  let ?won = "freshState\<lparr>badgeClaims := [(''a'', ''wolf'')]\<rparr>"
  have known: "knownTeam sampleEnv ''a''" "knownMotif ''wolf''"
    by (simp_all add: knownTeam_def sampleEnv_def sampleTeam_def defaultTeamIDs_def knownMotif_def badgeMotifs_def)
  have trim: "trimSpace ''a'' = ''a''" "trimSpace ''wolf'' = ''wolf''" by (simp_all add: trimSpace_def isSpaceChar_def)
  have fresh: "identityOK sampleEnv freshState" using marks_OK by (simp add: marks_def sampleStore_def)
  have won: "identityOK sampleEnv ?won" using known by (simp add: identityOK_def freshState_def)
  have change: "claimBadgeChange sampleEnv ''a'' ''wolf'' freshState = Inr (?won, True, False)"
    unfolding claimBadgeChange_def Let_def normalized_id [OF fresh] by (simp add: freshState_def avatarIdentityOf_def)
  have "firstMark = mutateAvatarIdentity sampleEnv [] ''a'' commissioner False BadgeForbidden (claimBadgeChange sampleEnv ''a'' ''wolf'') marks
     CommittedUnverified (Some (?won, True)) marks" using known by (simp add: firstMark_def claimBadgeForActor_def trim Let_def)
  also have "\<dots> = (Inr False, marks\<lparr>stState := ?won\<rparr>)"
    using change by (simp add: mutateAvatarIdentity_def commissioner_def avatarActorAllowed_def marks_def sampleStore_def gated_def Let_def
        reconcileIdentity_def normalized_id [OF won])
  finally show ?thesis by blast
qed

theorem badge_claim_settled_witness:
  "\<exists>s'. firstMark = (Inr False, s') \<and> avatarIdentityOf (stState s') (trimSpace ''a'') = ([], trimSpace ''wolf'')"
proof -
  obtain s' where run: "firstMark = (Inr False, s')" using firstMark_settled by blast
  have rows: "rowsOK (Some (freshState\<lparr>badgeClaims := [(''a'', ''wolf'')]\<rparr>, True))" by (simp add: rowsOK_def mapsOK_def freshState_def)
  have "avatarIdentityOf (stState s') (trimSpace ''a'') = ([], trimSpace ''wolf'')"
    using badge_claim_settled [OF run [unfolded firstMark_def] marks_OK rows] by (simp only: sum.case)
  then show ?thesis using run by blast
qed

theorem badges_never_shared_witness: "identityOK sampleEnv (stState (snd firstMark))"
proof (rule badges_never_shared [OF marks_OK r_into_rtranclp])
  have "rowsOK (Some (freshState\<lparr>badgeClaims := [(''a'', ''wolf'')]\<rparr>, True))" by (simp add: rowsOK_def mapsOK_def freshState_def)
  then show "badge_step sampleEnv marks (snd firstMark)"
    unfolding firstMark_def by (rule badge_step.claim [OF prod.collapse [symmetric]])
qed

end
