(* ===== verification/IdentityMigration.thy ===== *)
theory IdentityMigration
  imports SeatsProps
begin

text \<open>
  The migration of configured identity aliases (src/internal/league/identity_alias.go): nine collections that are keyed by a
  person are rewritten to canonical keys, and records that fall together are merged or refused. Notification preferences, Blitz
  entries, announcements and the sent log are not in persisted_state; they are a record of their own here.
\<close>

section \<open>The maps\<close>

record blitz_entry =
  bzPlayers :: "player_id list"
  bzUpdatedAt :: time

record person_maps =
  pmBlitz :: "(string \<times> (string \<times> blitz_entry) list) list"
  pmPrefs :: "(string \<times> (string \<times> bool) list) list"
  pmPosters :: "string list"
  pmSentLog :: "(string \<times> time) list"

datatype migration_error = InviteElsewhere string team_id team_id | SeatConflict string team_id team_id
  | RoleConflict string member_role member_role | InviteConflict string team_id team_id | BoardTooLong string
  | PickConflict string string | EntryConflict string string | PreferenceConflict string string

section \<open>Members\<close>

record identity_member =
  imKey :: string
  imRaw :: string
  imMember :: member

definition rawEmailOf :: "string \<times> member \<Rightarrow> string" where
  "rawEmailOf x = (if trimSpace (memEmail (snd x)) = [] then fst x else memEmail (snd x))"

definition ownerKey :: "resolver \<Rightarrow> string \<times> member \<Rightarrow> string" where
  "ownerKey as x = resolve as (rawEmailOf x)"

definition identityRecord :: "resolver \<Rightarrow> string \<times> member \<Rightarrow> identity_member" where
  "identityRecord as x = \<lparr>imKey = fst x, imRaw = rawEmailOf x, imMember = (snd x)\<lparr>memEmail := ownerKey as x\<rparr>\<rparr>"

definition preferredIdentityRecord :: "string \<Rightarrow> identity_member \<Rightarrow> bool" where
  "preferredIdentityRecord canonical r \<longleftrightarrow> normalizeEmail (imKey r) = canonical \<or> normalizeEmail (imRaw r) = canonical"

definition recordLess :: "string \<Rightarrow> identity_member \<Rightarrow> identity_member \<Rightarrow> bool" where
  "recordLess canonical a b =
     (if preferredIdentityRecord canonical a \<noteq> preferredIdentityRecord canonical b then preferredIdentityRecord canonical a
      else toLower (trimSpace (imKey a)) < toLower (trimSpace (imKey b)))"

fun mergeRecords :: "string \<Rightarrow> member \<Rightarrow> identity_member list \<Rightarrow> migration_error + member" where
  "mergeRecords canonical merged [] = Inr (merged\<lparr>memEmail := canonical\<rparr>)"
| "mergeRecords canonical merged (r # rs) =
     (let c = imMember r in
      if memTeam merged \<noteq> [] \<and> memTeam c \<noteq> [] \<and> memTeam merged \<noteq> memTeam c then Inl (SeatConflict canonical (memTeam merged) (memTeam c))
      else if memRole merged \<noteq> memRole c \<and> (memRole merged \<noteq> PrimaryManager \<or> memRole c \<noteq> PrimaryManager)
        then Inl (RoleConflict canonical (memRole merged) (memRole c))
      else mergeRecords canonical (merged\<lparr>memTeam := (if memTeam merged = [] then memTeam c else memTeam merged),
             memRole := (if memRole merged = PrimaryManager then memRole c else memRole merged),
             memName := (if memName merged = [] then memName c else memName merged)\<rparr>) rs)"

definition mergeGroup :: "resolver \<Rightarrow> (string \<times> member) list \<Rightarrow> string \<Rightarrow> migration_error + member" where
  "mergeGroup as ms canonical =
     (case sortStable (recordLess canonical) (map (identityRecord as) (filter (\<lambda>x. ownerKey as x = canonical) ms)) of
        [] \<Rightarrow> Inr noMember
      | r # rs \<Rightarrow> mergeRecords canonical (imMember r) rs)"

fun mergeGroups :: "resolver \<Rightarrow> (string \<times> member) list \<Rightarrow> string list \<Rightarrow> migration_error + (string \<times> member) list" where
  "mergeGroups as ms [] = Inr []"
| "mergeGroups as ms (c # cs) =
     (case mergeGroup as ms c of Inl e \<Rightarrow> Inl e
      | Inr m \<Rightarrow> (case mergeGroups as ms cs of Inl e \<Rightarrow> Inl e | Inr out \<Rightarrow> Inr ((c, m) # out)))"

definition reconcileMembers :: "resolver \<Rightarrow> (string \<times> member) list \<Rightarrow> migration_error + (string \<times> member) list" where
  "reconcileMembers as ms = mergeGroups as ms (remdups (map (ownerKey as) ms))"

section \<open>Invites\<close>

fun reconcileMemberCoInviteSeats :: "resolver \<Rightarrow> (string \<times> member) list \<Rightarrow> (string \<times> team_id) list \<Rightarrow> migration_error + (string \<times> team_id) list" where
  "reconcileMemberCoInviteSeats as ms [] = Inr []"
| "reconcileMemberCoInviteSeats as ms ((raw, t) # cs) =
     (case (case map_of ms (resolve as raw) of None \<Rightarrow> None | Some m \<Rightarrow> if memTeam m = [] then None else Some m) of
        None \<Rightarrow> (case reconcileMemberCoInviteSeats as ms cs of Inl e \<Rightarrow> Inl e | Inr out \<Rightarrow> Inr ((raw, t) # out))
      | Some m \<Rightarrow>
          if memTeam m \<noteq> t then Inl (InviteElsewhere (resolve as raw) (memTeam m) t)
          else (case memRole m of
              PrimaryManager \<Rightarrow> reconcileMemberCoInviteSeats as ms cs
            | CoManager \<Rightarrow> (case reconcileMemberCoInviteSeats as ms cs of Inl e \<Rightarrow> Inl e | Inr out \<Rightarrow> Inr ((raw, t) # out))))"

text \<open>Several maps are rewritten the same way: a value that meets a different one under its new key is a conflict.\<close>

fun putUnlessConflict :: "(string \<Rightarrow> 'v \<Rightarrow> 'v \<Rightarrow> 'e) \<Rightarrow> ('k \<Rightarrow> string) \<Rightarrow> ('k \<times> 'v) list \<Rightarrow> (string \<times> 'v) list \<Rightarrow> 'e + (string \<times> 'v) list" where
  "putUnlessConflict err key [] out = Inr out"
| "putUnlessConflict err key ((k, v) # xs) out =
     (case map_of out (key k) of
        Some previous \<Rightarrow> if previous \<noteq> v then Inl (err (key k) previous v) else putUnlessConflict err key xs (AList.update (key k) v out)
      | None \<Rightarrow> putUnlessConflict err key xs (AList.update (key k) v out))"

definition reconcileCoInvites :: "resolver \<Rightarrow> (string \<times> team_id) list \<Rightarrow> migration_error + (string \<times> team_id) list" where
  "reconcileCoInvites as cs = putUnlessConflict (\<lambda>email previous t. InviteConflict email previous t) (resolve as) cs []"

section \<open>Boards\<close>

definition boardKeyLess :: "resolver \<Rightarrow> string \<Rightarrow> string \<Rightarrow> bool" where
  "boardKeyLess as a b =
     (if (normalizeEmail a = resolve as a) \<noteq> (normalizeEmail b = resolve as b) then normalizeEmail a = resolve as a
      else normalizeEmail a < normalizeEmail b)"

definition appendUnique :: "string \<Rightarrow> player_id \<Rightarrow> (string \<times> player_id list) list \<Rightarrow> (string \<times> player_id list) list" where
  "appendUnique owner p groups =
     (if p \<in> set (boardOf groups owner) then groups else AList.update owner (boardOf groups owner @ [p]) groups)"

definition reconcileBoards :: "resolver \<Rightarrow> (string \<times> player_id list) list \<Rightarrow> migration_error + (string \<times> player_id list) list" where
  "reconcileBoards as bs =
     (let groups = fold (\<lambda>raw groups. fold (appendUnique (resolve as raw)) (boardOf bs raw) groups)
            (sortStable (boardKeyLess as) (map fst bs)) [] in
      case find (\<lambda>(owner, b). length b > boardLimit) groups of Some (owner, b) \<Rightarrow> Inl (BoardTooLong owner) | None \<Rightarrow> Inr groups)"

section \<open>Pick'em, Blitz, preferences and the sent log\<close>

definition innerOf :: "(string \<times> (string \<times> 'v) list) list \<Rightarrow> string \<Rightarrow> (string \<times> 'v) list" where
  "innerOf out owner = (case map_of out owner of None \<Rightarrow> [] | Some xs \<Rightarrow> xs)"

fun mergeInner :: "(string \<Rightarrow> 'e) \<Rightarrow> (string \<times> 'v) list \<Rightarrow> (string \<times> 'v) list \<Rightarrow> 'e + (string \<times> 'v) list" where
  "mergeInner err [] out = Inr out"
| "mergeInner err ((k, v) # xs) out =
     (case map_of out k of
        Some previous \<Rightarrow> if previous \<noteq> v then Inl (err k) else mergeInner err xs (AList.update k v out)
      | None \<Rightarrow> mergeInner err xs (AList.update k v out))"

fun mergeNested :: "(string \<Rightarrow> string \<Rightarrow> 'e) \<Rightarrow> resolver \<Rightarrow> (string \<times> (string \<times> 'v) list) list \<Rightarrow> (string \<times> (string \<times> 'v) list) list \<Rightarrow>
    'e + (string \<times> (string \<times> 'v) list) list" where
  "mergeNested err as [] out = Inr out"
| "mergeNested err as ((raw, xs) # rest) out =
     (case mergeInner (err (resolve as raw)) xs (innerOf out (resolve as raw)) of Inl e \<Rightarrow> Inl e
      | Inr inner \<Rightarrow> mergeNested err as rest (AList.update (resolve as raw) inner out))"

definition reconcilePickems :: "resolver \<Rightarrow> (string \<times> (string \<times> string) list) list \<Rightarrow> migration_error + (string \<times> (string \<times> string) list) list" where
  "reconcilePickems as ps = mergeNested PickConflict as ps []"

definition reconcileNotifyPrefs :: "resolver \<Rightarrow> (string \<times> (string \<times> bool) list) list \<Rightarrow> migration_error + (string \<times> (string \<times> bool) list) list" where
  "reconcileNotifyPrefs as ps = mergeNested PreferenceConflict as ps []"

definition reconcilePickemEnteredAt :: "resolver \<Rightarrow> (string \<times> time) list \<Rightarrow> (string \<times> time) list" where
  "reconcilePickemEnteredAt as es =
     fold (\<lambda>(raw, t) out. if isZero t then out
       else (case map_of out (resolve as raw) of
           None \<Rightarrow> AList.update (resolve as raw) t out
         | Some previous \<Rightarrow> if isZero previous \<or> t < previous then AList.update (resolve as raw) t out else out)) es []"

fun mergeSlates :: "string \<Rightarrow> (string \<times> blitz_entry) list \<Rightarrow> (string \<times> blitz_entry) list \<Rightarrow> migration_error + (string \<times> blitz_entry) list" where
  "mergeSlates owner [] out = Inr out"
| "mergeSlates owner ((slate, entry) # xs) out =
     (case map_of out slate of
        None \<Rightarrow> mergeSlates owner xs (AList.update slate entry out)
      | Some previous \<Rightarrow>
          if bzPlayers previous \<noteq> bzPlayers entry then Inl (EntryConflict owner slate)
          else mergeSlates owner xs (if bzUpdatedAt entry > bzUpdatedAt previous then AList.update slate entry out else out))"

fun reconcileBlitzFrom :: "resolver \<Rightarrow> (string \<times> (string \<times> blitz_entry) list) list \<Rightarrow> (string \<times> (string \<times> blitz_entry) list) list \<Rightarrow>
    migration_error + (string \<times> (string \<times> blitz_entry) list) list" where
  "reconcileBlitzFrom as [] out = Inr out"
| "reconcileBlitzFrom as ((raw, xs) # rest) out =
     (case mergeSlates (resolve as raw) xs (innerOf out (resolve as raw)) of Inl e \<Rightarrow> Inl e
      | Inr inner \<Rightarrow> reconcileBlitzFrom as rest (AList.update (resolve as raw) inner out))"

definition reconcileBlitzEntries :: "resolver \<Rightarrow> (string \<times> (string \<times> blitz_entry) list) list \<Rightarrow>
    migration_error + (string \<times> (string \<times> blitz_entry) list) list" where
  "reconcileBlitzEntries as es = reconcileBlitzFrom as es []"

text \<open>A log key ends in a person after its last colon.\<close>

definition canonicalLogKey :: "resolver \<Rightarrow> string \<Rightarrow> string" where
  "canonicalLogKey as key =
     (if CHR '':'' \<notin> set key then key
      else (let suffix = rev (takeWhile (\<lambda>c. c \<noteq> CHR '':'') (rev key)); canonical = resolve as suffix in
        if canonical \<noteq> suffix then take (length key - length suffix) key @ canonical else key))"

definition reconcileSentLog :: "resolver \<Rightarrow> (string \<times> time) list \<Rightarrow> (string \<times> time) list" where
  "reconcileSentLog as es =
     fold (\<lambda>(key, t) out. case map_of out (canonicalLogKey as key) of
         None \<Rightarrow> AList.update (canonicalLogKey as key) t out
       | Some previous \<Rightarrow> if t < previous then AList.update (canonicalLogKey as key) t out else out) es []"

section \<open>The migration\<close>

definition reconcileIdentityState :: "resolver \<Rightarrow> persisted_state \<Rightarrow> person_maps \<Rightarrow> migration_error + (persisted_state \<times> person_maps)" where
  "reconcileIdentityState as st pm =
     (if as = [] then Inr (st, pm)
      else (case reconcileMembers as (members st) of Inl e \<Rightarrow> Inl e | Inr ms \<Rightarrow>
     (case reconcileMemberCoInviteSeats as ms (coInvites st) of Inl e \<Rightarrow> Inl e | Inr kept \<Rightarrow>
     (case reconcileCoInvites as kept of Inl e \<Rightarrow> Inl e | Inr cs \<Rightarrow>
     (case reconcileBoards as (boards st) of Inl e \<Rightarrow> Inl e | Inr bs \<Rightarrow>
     (case reconcilePickems as (pickems st) of Inl e \<Rightarrow> Inl e | Inr ps \<Rightarrow>
     (case reconcileBlitzEntries as (pmBlitz pm) of Inl e \<Rightarrow> Inl e | Inr blitz \<Rightarrow>
     (case reconcileNotifyPrefs as (pmPrefs pm) of Inl e \<Rightarrow> Inl e | Inr prefs \<Rightarrow>
        Inr (st\<lparr>members := ms, coInvites := cs, boards := bs, pickems := ps,
               pickemEnteredAt := reconcilePickemEnteredAt as (pickemEnteredAt st)\<rparr>,
             \<lparr>pmBlitz = blitz, pmPrefs = prefs, pmPosters = map (resolve as) (pmPosters pm), pmSentLog = reconcileSentLog as (pmSentLog pm)\<rparr>)))))))))"

section \<open>Nothing is lost\<close>

definition canonicalKeys :: "resolver \<Rightarrow> (string \<times> 'v) list \<Rightarrow> bool" where
  "canonicalKeys as xs \<longleftrightarrow> (\<forall>k\<in>set (map fst xs). resolve as k = k)"

lemma canonical_Nil: "canonicalKeys as []"
  by (simp add: canonicalKeys_def)

lemma canonical_update: "resolve as k = k \<Longrightarrow> canonicalKeys as xs \<Longrightarrow> canonicalKeys as (AList.update k v xs)"
  unfolding canonicalKeys_def using set_update [of k v xs] by fastforce

text \<open>Members: the merged record has the role of every record and the team of each that has one.\<close>

definition carries :: "member \<Rightarrow> member \<Rightarrow> bool" where
  "carries m c \<longleftrightarrow> memRole m = memRole c \<and> (memTeam c \<noteq> [] \<longrightarrow> memTeam m = memTeam c)"

lemma carries_trans: "carries a b \<Longrightarrow> carries b c \<Longrightarrow> carries a c"
  unfolding carries_def by (metis (full_types))

lemma mergeRecords_carries:
  "mergeRecords canonical merged rs = Inr m \<Longrightarrow> carries m merged \<and> memEmail m = canonical \<and> (\<forall>r\<in>set rs. carries m (imMember r))"
proof (induction canonical merged rs rule: mergeRecords.induct)
  case (1 canonical merged)
  then show ?case by (auto simp: carries_def)
next
  case (2 canonical merged r rs)
  define next_merged where "next_merged = merged\<lparr>memTeam := (if memTeam merged = [] then memTeam (imMember r) else memTeam merged),
             memRole := (if memRole merged = PrimaryManager then memRole (imMember r) else memRole merged),
             memName := (if memName merged = [] then memName (imMember r) else memName merged)\<rparr>"
  have no: "\<not> (memTeam merged \<noteq> [] \<and> memTeam (imMember r) \<noteq> [] \<and> memTeam merged \<noteq> memTeam (imMember r))"
  proof
    assume "memTeam merged \<noteq> [] \<and> memTeam (imMember r) \<noteq> [] \<and> memTeam merged \<noteq> memTeam (imMember r)"
    with "2.prems" show False by (simp add: Let_def)
  qed
  have role: "memRole merged = memRole (imMember r)"
  proof (rule ccontr)
    assume diff: "memRole merged \<noteq> memRole (imMember r)"
    then have "memRole merged \<noteq> PrimaryManager \<or> memRole (imMember r) \<noteq> PrimaryManager" by auto
    with diff no "2.prems" show False by (auto simp: Let_def split: if_splits)
  qed
  have rec: "mergeRecords canonical next_merged rs = Inr m"
    using "2.prems" no role unfolding next_merged_def by (simp add: Let_def)
  have "carries next_merged merged" "carries next_merged (imMember r)" using no role by (auto simp: carries_def next_merged_def)
  moreover have "carries m next_merged \<and> memEmail m = canonical \<and> (\<forall>r\<in>set rs. carries m (imMember r))"
    using "2.IH" [OF refl no _ rec [unfolded next_merged_def]] role unfolding next_merged_def by simp
  ultimately show ?case using carries_trans by auto
qed

lemma mergeGroup_carries:
  assumes "mergeGroup as ms c = Inr m" "x \<in> set ms" "ownerKey as x = c"
  shows "carries m (snd x) \<and> memEmail m = c"
proof -
  let ?rs = "sortStable (recordLess c) (map (identityRecord as) (filter (\<lambda>x. ownerKey as x = c) ms))"
  have mem: "identityRecord as x \<in> set ?rs" using assms(2,3) by simp
  then obtain r rs where rs: "?rs = r # rs" by (cases ?rs) auto
  then have "mergeRecords c (imMember r) rs = Inr m" using assms(1) by (simp add: mergeGroup_def)
  from mergeRecords_carries [OF this] mem have "carries m (imMember (identityRecord as x)) \<and> memEmail m = c" unfolding rs by auto
  then show ?thesis by (simp add: carries_def identityRecord_def)
qed

lemma mergeGroups_all: "mergeGroups as ms cs = Inr out \<Longrightarrow> map fst out = cs \<and> (\<forall>(c, m)\<in>set out. mergeGroup as ms c = Inr m)"
proof (induction cs arbitrary: out)
  case (Cons c cs)
  then obtain m out' where "mergeGroup as ms c = Inr m" "mergeGroups as ms cs = Inr out'" "out = (c, m) # out'"
    by (auto split: sum.splits)
  then show ?case using Cons.IH by auto
qed simp

lemma members_carried:
  assumes "reconcileMembers as ms = Inr out"
  shows "\<forall>x\<in>set ms. \<exists>m. map_of out (ownerKey as x) = Some m \<and> carries m (snd x)" "map fst out = remdups (map (ownerKey as) ms)"
    "\<forall>(c, m)\<in>set out. memEmail m = c"
proof -
  note all = mergeGroups_all [OF assms [unfolded reconcileMembers_def]]
  show "\<forall>x\<in>set ms. \<exists>m. map_of out (ownerKey as x) = Some m \<and> carries m (snd x)"
  proof
    fix x assume x: "x \<in> set ms"
    then have "ownerKey as x \<in> fst ` set out" using all by (metis image_set set_remdups image_eqI)
    then obtain m where m: "map_of out (ownerKey as x) = Some m" by (metis map_of_eq_None_iff not_None_eq)
    then have "mergeGroup as ms (ownerKey as x) = Inr m" using all map_of_SomeD by fastforce
    then show "\<exists>m. map_of out (ownerKey as x) = Some m \<and> carries m (snd x)" using m mergeGroup_carries x by blast
  qed
  show "map fst out = remdups (map (ownerKey as) ms)" using all by simp
  show "\<forall>(c, m)\<in>set out. memEmail m = c"
  proof safe
    fix c m assume mem: "(c, m) \<in> set out"
    then have "c \<in> set (map (ownerKey as) ms)" using all by (metis fst_conv image_eqI image_set set_remdups)
    then obtain x where "x \<in> set ms" "ownerKey as x = c" by auto
    then show "memEmail m = c" using mergeGroup_carries all mem by fastforce
  qed
qed

text \<open>Invites.\<close>

lemma invites_subset: "reconcileMemberCoInviteSeats as ms cs = Inr out \<Longrightarrow> set out \<subseteq> set cs"
proof (induction cs arbitrary: out)
  case (Cons c cs)
  then have "\<exists>out'. reconcileMemberCoInviteSeats as ms cs = Inr out' \<and> set out \<subseteq> insert c (set out')"
    by (cases c) (auto split: option.splits if_splits sum.splits member_role.splits)
  then show ?case using Cons.IH by fastforce
qed simp

text \<open>An invitation is dropped only when its owner manages that very team already.\<close>

definition managesAlready :: "(string \<times> member) list \<Rightarrow> string \<Rightarrow> team_id \<Rightarrow> bool" where
  "managesAlready ms email t \<longleftrightarrow> (\<exists>m. map_of ms email = Some m \<and> memTeam m = t \<and> memRole m = PrimaryManager)"

lemma invites_left:
  "reconcileMemberCoInviteSeats as ms cs = Inr out \<Longrightarrow> x \<in> set cs \<Longrightarrow> x \<in> set out \<or> managesAlready ms (resolve as (fst x)) (snd x)"
proof (induction cs arbitrary: out)
  case (Cons c cs)
  obtain raw t where c: "c = (raw, t)" by (cases c)
  obtain out' where rest: "reconcileMemberCoInviteSeats as ms cs = Inr out'"
    and out: "out = c # out' \<or> out = out' \<and> managesAlready ms (resolve as raw) t"
    using Cons.prems(1) unfolding c managesAlready_def
    by (auto split: option.splits if_splits sum.splits member_role.splits)
  then show ?case using Cons.IH [OF rest] Cons.prems(2) by (auto simp: c)
qed simp

lemma put_kept:
  "putUnlessConflict err key xs out = Inr out' \<Longrightarrow>
    (\<forall>k v. map_of out k = Some v \<longrightarrow> map_of out' k = Some v) \<and> (\<forall>x\<in>set xs. map_of out' (key (fst x)) = Some (snd x))"
proof (induction xs arbitrary: out)
  case (Cons x xs)
  obtain k v where x: "x = (k, v)" by (cases x)
  have same: "map_of out (key k) = None \<or> map_of out (key k) = Some v"
    and rest: "putUnlessConflict err key xs (AList.update (key k) v out) = Inr out'"
    using Cons.prems by (auto simp: x split: option.splits if_splits)
  note IH = Cons.IH [OF rest]
  have "map_of out' j = Some w" if "map_of out j = Some w" for j w
  proof -
    have "map_of (AList.update (key k) v out) j = Some w" using same that by (auto simp: update_conv')
    then show ?thesis using IH by blast
  qed
  moreover have "map_of out' (key k) = Some v" using IH by (simp add: update_conv')
  ultimately show ?case using IH by (simp add: x)
qed simp

lemma put_canonical:
  "putUnlessConflict err (resolve as) xs out = Inr out' \<Longrightarrow> stable as \<Longrightarrow> canonicalKeys as out \<Longrightarrow> canonicalKeys as out'"
  by (induction err "resolve as" xs out arbitrary: out' rule: putUnlessConflict.induct)
    (auto simp: stable_def intro: canonical_update split: option.splits if_splits)

text \<open>Boards.\<close>

lemma appendUnique_facts:
  assumes "canonicalKeys as gs" "resolve as owner = owner"
  shows "canonicalKeys as (appendUnique owner p gs)"
    and "boardOf (appendUnique owner p gs) k = (if k = owner \<and> p \<notin> set (boardOf gs k) then boardOf gs k @ [p] else boardOf gs k)"
    and "distinct (map fst gs) \<Longrightarrow> distinct (map fst (appendUnique owner p gs))"
  using assms by (auto simp: appendUnique_def canonical_update boardOf_def update_conv' distinct_update)

definition growsTo :: "resolver \<Rightarrow> (string \<times> player_id list) list \<Rightarrow> (string \<times> player_id list) list \<Rightarrow> bool" where
  "growsTo as gs gs' \<longleftrightarrow> (canonicalKeys as gs \<longrightarrow> canonicalKeys as gs') \<and> (\<forall>k. set (boardOf gs k) \<subseteq> set (boardOf gs' k)) \<and>
     (\<forall>k. distinct (boardOf gs k) \<longrightarrow> distinct (boardOf gs' k)) \<and> (distinct (map fst gs) \<longrightarrow> distinct (map fst gs'))"

lemma growsTo_refl: "growsTo as gs gs"
  by (simp add: growsTo_def)

lemma growsTo_trans: "growsTo as a b \<Longrightarrow> growsTo as b c \<Longrightarrow> growsTo as a c"
  unfolding growsTo_def by blast

lemma growsTo_append: "resolve as owner = owner \<Longrightarrow> growsTo as gs (appendUnique owner p gs)"
  unfolding growsTo_def appendUnique_def
  by (auto simp: canonical_update boardOf_def update_conv' distinct_update split: if_splits)

lemma growsTo_board:
  "resolve as owner = owner \<Longrightarrow> growsTo as gs (fold (appendUnique owner) b gs) \<and> set b \<subseteq> set (boardOf (fold (appendUnique owner) b gs) owner)"
proof (induction b arbitrary: gs)
  case (Cons p b)
  have "growsTo as gs (appendUnique owner p gs)" by (rule growsTo_append [OF Cons.prems])
  moreover have "p \<in> set (boardOf (appendUnique owner p gs) owner)" by (auto simp: appendUnique_def boardOf_def update_conv')
  moreover have rest: "growsTo as (appendUnique owner p gs) (fold (appendUnique owner) b (appendUnique owner p gs)) \<and>
      set b \<subseteq> set (boardOf (fold (appendUnique owner) b (appendUnique owner p gs)) owner)" by (rule Cons.IH [OF Cons.prems])
  ultimately have "growsTo as gs (fold (appendUnique owner) b (appendUnique owner p gs))"
    "p \<in> set (boardOf (fold (appendUnique owner) b (appendUnique owner p gs)) owner)"
    using growsTo_trans unfolding growsTo_def by blast+
  then show ?case using rest by simp
qed (simp add: growsTo_refl)

lemma growsTo_boards:
  assumes "stable as"
  shows "growsTo as gs (fold (\<lambda>raw gs. fold (appendUnique (resolve as raw)) (boardOf bs raw) gs) raws gs) \<and>
    (\<forall>raw\<in>set raws. set (boardOf bs raw) \<subseteq> set (boardOf (fold (\<lambda>raw gs. fold (appendUnique (resolve as raw)) (boardOf bs raw) gs) raws gs) (resolve as raw)))"
proof (induction raws arbitrary: gs)
  case (Cons raw raws)
  define gs1 where "gs1 = fold (appendUnique (resolve as raw)) (boardOf bs raw) gs"
  have one: "growsTo as gs gs1" "set (boardOf bs raw) \<subseteq> set (boardOf gs1 (resolve as raw))"
    using growsTo_board [of as "resolve as raw" gs "boardOf bs raw"] assms by (simp_all add: stable_def gs1_def)
  note rest = Cons.IH [of gs1]
  have "set (boardOf bs raw) \<subseteq> set (boardOf (fold (\<lambda>raw gs. fold (appendUnique (resolve as raw)) (boardOf bs raw) gs) raws gs1) (resolve as raw))"
    using one(2) rest unfolding growsTo_def by blast
  then show ?case using growsTo_trans [OF one(1)] rest by (simp add: gs1_def)
qed (simp add: growsTo_refl)

lemma boards_carried:
  assumes "reconcileBoards as bs = Inr out" "stable as"
  shows "canonicalKeys as out \<and> boardsOK out \<and> (\<forall>raw. set (boardOf bs raw) \<subseteq> set (boardOf out (resolve as raw)))"
proof -
  let ?run = "fold (\<lambda>raw gs. fold (appendUnique (resolve as raw)) (boardOf bs raw) gs) (sortStable (boardKeyLess as) (map fst bs)) []"
  have out: "out = ?run" and short: "find (\<lambda>(owner, b). length b > boardLimit) ?run = None"
    using assms(1) by (auto simp: reconcileBoards_def Let_def split: option.splits)
  note facts = growsTo_boards [OF assms(2), of "[]" bs "sortStable (boardKeyLess as) (map fst bs)", folded out]
  have g: "growsTo as [] out" by (rule conjunct1 [OF facts])
  have keys: "distinct (map fst out)" using g by (simp add: growsTo_def)
  have "boardOf [] k = []" for k by (simp add: boardOf_def)
  then have boards: "distinct (boardOf out k)" for k using g by (simp add: growsTo_def)
  have "distinct b \<and> length b \<le> boardLimit" if "(k, b) \<in> set out" for k b
  proof -
    have "boardOf out k = b" using keys that by (simp add: boardOf_def)
    moreover have "\<not> length b > boardLimit" using short that unfolding out [symmetric] find_None_iff by blast
    ultimately show ?thesis using boards [of k] by simp
  qed
  then have "boardsOK out" using keys by (auto simp: boardsOK_def)
  moreover have "set (boardOf bs raw) \<subseteq> set (boardOf out (resolve as raw))" for raw
  proof (cases "raw \<in> set (map fst bs)")
    case True
    then have "raw \<in> set (sortStable (boardKeyLess as) (map fst bs))" by simp
    then show ?thesis using facts by blast
  next
    case False
    then have "boardOf bs raw = []" by (simp add: boardOf_def map_of_eq_None_iff [THEN iffD2])
    then show ?thesis by simp
  qed
  moreover have "canonicalKeys as out" using g by (simp add: growsTo_def canonical_Nil)
  ultimately show ?thesis by blast
qed

text \<open>Picks.\<close>

definition extends :: "(string \<times> 'v) list \<Rightarrow> (string \<times> 'v) list \<Rightarrow> bool" where
  "extends a b \<longleftrightarrow> (\<forall>k v. map_of a k = Some v \<longrightarrow> map_of b k = Some v)"

lemma extends_refl: "extends a a"
  by (simp add: extends_def)

lemma extends_trans: "extends a b \<Longrightarrow> extends b c \<Longrightarrow> extends a c"
  by (simp add: extends_def)

lemma mergeInner_kept:
  "mergeInner err xs out = Inr out' \<Longrightarrow> extends out out' \<and> (\<forall>x\<in>set xs. map_of out' (fst x) = Some (snd x))"
proof (induction xs arbitrary: out)
  case Nil
  then show ?case by (simp add: extends_refl)
next
  case (Cons x xs)
  obtain k v where x: "x = (k, v)" by (cases x)
  have same: "map_of out k = None \<or> map_of out k = Some v" and rest: "mergeInner err xs (AList.update k v out) = Inr out'"
    using Cons.prems by (auto simp: x split: option.splits if_splits)
  have "extends out (AList.update k v out)" using same by (auto simp: extends_def update_conv')
  moreover note IH = Cons.IH [OF rest]
  moreover have "map_of (AList.update k v out) k = Some v" by (simp add: update_conv')
  ultimately show ?case using extends_trans by (auto simp: x extends_def)
qed

definition extendsAll :: "(string \<times> (string \<times> 'v) list) list \<Rightarrow> (string \<times> (string \<times> 'v) list) list \<Rightarrow> bool" where
  "extendsAll a b \<longleftrightarrow> (\<forall>owner. extends (innerOf a owner) (innerOf b owner))"

lemma innerOf_update: "innerOf (AList.update k v xs) owner = (if owner = k then v else innerOf xs owner)"
  by (simp add: innerOf_def update_conv')

lemma mergeNested_kept:
  assumes "stable as" "mergeNested err as xss out = Inr out'" "canonicalKeys as out"
  shows "canonicalKeys as out' \<and> extendsAll out out' \<and>
    (\<forall>y\<in>set xss. \<forall>x\<in>set (snd y). map_of (innerOf out' (resolve as (fst y))) (fst x) = Some (snd x))"
  using assms(2,3)
proof (induction xss arbitrary: out)
  case Nil
  then show ?case by (simp add: extendsAll_def extends_refl)
next
  case (Cons y xss)
  obtain raw xs where y: "y = (raw, xs)" by (cases y)
  obtain inner where inner: "mergeInner (err (resolve as raw)) xs (innerOf out (resolve as raw)) = Inr inner"
    and rest: "mergeNested err as xss (AList.update (resolve as raw) inner out) = Inr out'"
    using Cons.prems(1) by (auto simp: y split: sum.splits)
  have "canonicalKeys as (AList.update (resolve as raw) inner out)"
    by (rule canonical_update) (use assms(1) Cons.prems(2) in \<open>simp_all add: stable_def\<close>)
  note IH = Cons.IH [OF rest this]
  note kept = mergeInner_kept [OF inner]
  have step: "extendsAll out (AList.update (resolve as raw) inner out)"
    using kept by (simp add: extendsAll_def innerOf_update extends_refl)
  have all: "extendsAll out out'" using step IH extends_trans unfolding extendsAll_def by blast
  have "\<forall>x\<in>set xs. map_of (innerOf out' (resolve as raw)) (fst x) = Some (snd x)"
  proof
    fix x assume "x \<in> set xs"
    then have "map_of (innerOf (AList.update (resolve as raw) inner out) (resolve as raw)) (fst x) = Some (snd x)"
      using kept by (simp add: innerOf_update)
    then show "map_of (innerOf out' (resolve as raw)) (fst x) = Some (snd x)" using IH unfolding extendsAll_def extends_def by blast
  qed
  then show ?case using IH all by (simp add: y)
qed

lemma entered_canonical:
  assumes "stable as"
  shows "canonicalKeys as (reconcilePickemEnteredAt as es)"
  unfolding reconcilePickemEnteredAt_def
proof (rule fold_invariant [where Q = "\<lambda>x. True" and P = "canonicalKeys as"])
  fix x :: "string \<times> time" and out :: "(string \<times> time) list" assume "canonicalKeys as out"
  then show "canonicalKeys as ((case x of (raw, t) \<Rightarrow> \<lambda>out. if isZero t then out
       else (case map_of out (resolve as raw) of
           None \<Rightarrow> AList.update (resolve as raw) t out
         | Some previous \<Rightarrow> if isZero previous \<or> t < previous then AList.update (resolve as raw) t out else out)) out)"
    using assms by (cases x) (auto simp: stable_def intro: canonical_update split: option.splits)
qed (simp_all add: canonical_Nil)

text \<open>Blitz entries and times: a value may be replaced, but only by one that R relates to it.\<close>

definition outlives :: "('v \<Rightarrow> 'v \<Rightarrow> bool) \<Rightarrow> (string \<times> 'v) list \<Rightarrow> (string \<times> 'v) list \<Rightarrow> bool" where
  "outlives R a b \<longleftrightarrow> (\<forall>k v. map_of a k = Some v \<longrightarrow> (\<exists>v'. map_of b k = Some v' \<and> R v' v))"

lemma outlives_refl: "(\<And>v. R v v) \<Longrightarrow> outlives R a a"
  by (simp add: outlives_def)

lemma outlives_trans: "transp R \<Longrightarrow> outlives R a b \<Longrightarrow> outlives R b c \<Longrightarrow> outlives R a c"
  unfolding outlives_def transp_def by blast

lemma outlives_at:
  assumes "transp R" "outlives R a b" "map_of a k = Some v" "R v w"
  shows "\<exists>v'. map_of b k = Some v' \<and> R v' w"
proof -
  obtain v' where "map_of b k = Some v'" "R v' v" using assms(2,3) unfolding outlives_def by blast
  then show ?thesis using transpD [OF assms(1)] assms(4) by blast
qed

lemma outlives_update: "(\<And>v. R v v) \<Longrightarrow> (\<And>v. map_of a k = Some v \<Longrightarrow> R w v) \<Longrightarrow> outlives R a (AList.update k w a)"
  by (auto simp: outlives_def update_conv')

definition laterEntry :: "blitz_entry \<Rightarrow> blitz_entry \<Rightarrow> bool" where
  "laterEntry e' e \<longleftrightarrow> bzPlayers e' = bzPlayers e \<and> bzUpdatedAt e \<le> bzUpdatedAt e'"

lemma later_refl: "laterEntry e e"
  by (simp add: laterEntry_def)

lemma later_trans: "transp laterEntry"
  by (auto simp: laterEntry_def transp_def)

lemma mergeSlates_kept:
  "mergeSlates owner xs out = Inr out' \<Longrightarrow> outlives laterEntry out out' \<and>
    (\<forall>x\<in>set xs. \<exists>e'. map_of out' (fst x) = Some e' \<and> laterEntry e' (snd x))"
proof (induction xs arbitrary: out)
  case Nil
  then show ?case by (simp add: outlives_refl later_refl)
next
  case (Cons x xs)
  obtain k e where x: "x = (k, e)" by (cases x)
  define next_out where "next_out = (case map_of out k of None \<Rightarrow> AList.update k e out
    | Some p \<Rightarrow> if bzUpdatedAt e > bzUpdatedAt p then AList.update k e out else out)"
  have same: "map_of out k = Some p \<Longrightarrow> bzPlayers p = bzPlayers e" for p
    using Cons.prems by (auto simp: x split: if_splits)
  have rest: "mergeSlates owner xs next_out = Inr out'"
    using Cons.prems by (auto simp: x next_out_def split: option.splits if_splits)
  have step: "outlives laterEntry out next_out \<and> (\<exists>e1. map_of next_out k = Some e1 \<and> laterEntry e1 e)"
  proof (cases "map_of out k")
    case None
    then have "outlives laterEntry out (AList.update k e out)" by (intro outlives_update) (simp_all add: later_refl)
    then show ?thesis using None by (simp add: next_out_def update_conv' later_refl)
  next
    case (Some p)
    have p: "bzPlayers p = bzPlayers e" by (rule same [OF Some])
    show ?thesis
    proof (cases "bzUpdatedAt e > bzUpdatedAt p")
      case True
      have "outlives laterEntry out (AList.update k e out)"
        by (rule outlives_update) (use Some p True in \<open>auto simp: laterEntry_def\<close>)
      then show ?thesis using Some True by (simp add: next_out_def update_conv' later_refl)
    qed (use Some p in \<open>simp add: next_out_def outlives_refl later_refl laterEntry_def\<close>)
  qed
  then obtain e1 where e1: "map_of next_out k = Some e1" "laterEntry e1 e" by blast
  note IH = Cons.IH [OF rest]
  have "\<exists>e'. map_of out' k = Some e' \<and> laterEntry e' e"
    by (rule outlives_at [OF later_trans conjunct1 [OF IH] e1])
  moreover have "outlives laterEntry out out'" using outlives_trans [OF later_trans conjunct1 [OF step]] IH by blast
  ultimately show ?case using IH by (simp add: x)
qed

lemma blitz_kept:
  assumes "stable as" "reconcileBlitzFrom as ess out = Inr out'" "canonicalKeys as out"
  shows "canonicalKeys as out' \<and> (\<forall>owner. outlives laterEntry (innerOf out owner) (innerOf out' owner)) \<and>
    (\<forall>y\<in>set ess. \<forall>x\<in>set (snd y). \<exists>e'. map_of (innerOf out' (resolve as (fst y))) (fst x) = Some e' \<and> laterEntry e' (snd x))"
  using assms(2,3)
proof (induction ess arbitrary: out)
  case Nil
  then show ?case by (simp add: outlives_refl later_refl)
next
  case (Cons y ess)
  obtain raw xs where y: "y = (raw, xs)" by (cases y)
  obtain inner where inner: "mergeSlates (resolve as raw) xs (innerOf out (resolve as raw)) = Inr inner"
    and rest: "reconcileBlitzFrom as ess (AList.update (resolve as raw) inner out) = Inr out'"
    using Cons.prems(1) by (auto simp: y split: sum.splits)
  have "canonicalKeys as (AList.update (resolve as raw) inner out)"
    by (rule canonical_update) (use assms(1) Cons.prems(2) in \<open>simp_all add: stable_def\<close>)
  note IH = Cons.IH [OF rest this]
  note kept = mergeSlates_kept [OF inner]
  have step: "outlives laterEntry (innerOf out owner) (innerOf (AList.update (resolve as raw) inner out) owner)" for owner
    using kept by (simp add: innerOf_update outlives_refl later_refl)
  have all: "outlives laterEntry (innerOf out owner) (innerOf out' owner)" for owner
    by (rule outlives_trans [OF later_trans step]) (use IH in blast)
  have "\<exists>e'. map_of (innerOf out' (resolve as raw)) (fst x) = Some e' \<and> laterEntry e' (snd x)" if mem: "x \<in> set xs" for x
  proof -
    obtain e where "map_of inner (fst x) = Some e" "laterEntry e (snd x)" using kept mem by blast
    moreover have "outlives laterEntry inner (innerOf out' (resolve as raw))"
      using conjunct1 [OF conjunct2 [OF IH], THEN spec [where x = "resolve as raw"]] by (simp add: innerOf_update)
    ultimately show ?thesis by (intro outlives_at [OF later_trans])
  qed
  then show ?case using IH all by (simp add: y)
qed

text \<open>The two maps of times keep the earlier of two times.\<close>

lemma earliest_fold:
  assumes "\<And>v. R v v" "transp R"
    and "\<And>x out. outlives R out (f x out)" "\<And>x out. P x \<longrightarrow> (\<exists>v. map_of (f x out) (key x) = Some v \<and> R v (snd x))"
  shows "outlives R out (fold f xs out) \<and> (\<forall>x\<in>set xs. P x \<longrightarrow> (\<exists>v. map_of (fold f xs out) (key x) = Some v \<and> R v (snd x)))"
proof (induction xs arbitrary: out)
  case (Cons x xs)
  note IH = Cons.IH [of "f x out"]
  have "outlives R out (fold f xs (f x out))" by (rule outlives_trans [OF assms(2) assms(3) conjunct1 [OF IH]])
  moreover have "\<exists>v. map_of (fold f xs (f x out)) (key x) = Some v \<and> R v (snd x)" if "P x"
    using assms(4) [of x out] that outlives_at [OF assms(2) conjunct1 [OF IH]] by blast
  ultimately show ?case using IH by simp
qed (simp add: outlives_refl [OF assms(1)])

definition earlierEntry :: "time \<Rightarrow> time \<Rightarrow> bool" where
  "earlierEntry t' t \<longleftrightarrow> (t \<noteq> 0 \<longrightarrow> t' \<noteq> 0 \<and> t' \<le> t)"

lemma entered_kept:
  "\<forall>x\<in>set es. snd x \<noteq> 0 \<longrightarrow> (\<exists>t. map_of (reconcilePickemEnteredAt as es) (resolve as (fst x)) = Some t \<and> t \<noteq> 0 \<and> t \<le> snd x)"
proof -
  have R: "earlierEntry v v" "transp earlierEntry" for v
    by (auto simp: earlierEntry_def transp_def)
  let ?f = "\<lambda>(raw, t) out. if isZero t then out
       else (case map_of out (resolve as raw) of
           None \<Rightarrow> AList.update (resolve as raw) t out
         | Some previous \<Rightarrow> if isZero previous \<or> t < previous then AList.update (resolve as raw) t out else out)"
  have keep: "outlives earlierEntry out (?f x out)" for x :: "string \<times> time" and out
    by (cases x) (auto simp: outlives_refl R(1) earlierEntry_def split: option.split intro!: outlives_update)
  have put: "snd x \<noteq> 0 \<longrightarrow> (\<exists>v. map_of (?f x out) (resolve as (fst x)) = Some v \<and> earlierEntry v (snd x))" for x :: "string \<times> time" and out
    by (cases x, cases "map_of out (resolve as (fst x))") (auto simp: earlierEntry_def update_conv')
  show ?thesis
    using earliest_fold [of earlierEntry ?f "\<lambda>x. snd x \<noteq> 0" "\<lambda>x. resolve as (fst x)" "[]" es, OF R keep put]
    unfolding reconcilePickemEnteredAt_def earlierEntry_def by blast
qed

lemma log_kept:
  "\<forall>x\<in>set es. \<exists>t. map_of (reconcileSentLog as es) (canonicalLogKey as (fst x)) = Some t \<and> t \<le> snd x"
proof -
  let ?f = "\<lambda>(key, t) out. case map_of out (canonicalLogKey as key) of
         None \<Rightarrow> AList.update (canonicalLogKey as key) t out
       | Some previous \<Rightarrow> if t < previous then AList.update (canonicalLogKey as key) t out else out"
  have keep: "outlives (\<le>) out (?f x out)" for x :: "string \<times> time" and out
    by (cases x) (auto simp: outlives_refl split: option.split intro!: outlives_update)
  have put: "True \<longrightarrow> (\<exists>v. map_of (?f x out) (canonicalLogKey as (fst x)) = Some v \<and> v \<le> snd x)" for x :: "string \<times> time" and out
    by (cases x, cases "map_of out (canonicalLogKey as (fst x))") (auto simp: update_conv')
  show ?thesis
    using earliest_fold [of "(\<le>)" ?f "\<lambda>x. True" "\<lambda>x. canonicalLogKey as (fst x)" "[]" es, OF order_refl _ keep put]
    unfolding reconcileSentLog_def by (auto simp: transp_def)
qed

lemma migration_parts:
  assumes "reconcileIdentityState as st pm = Inr (st', pm')" "as \<noteq> []"
  obtains kept where "reconcileMembers as (members st) = Inr (members st')"
    "reconcileMemberCoInviteSeats as (members st') (coInvites st) = Inr kept" "reconcileCoInvites as kept = Inr (coInvites st')"
    "reconcileBoards as (boards st) = Inr (boards st')" "reconcilePickems as (pickems st) = Inr (pickems st')"
    "pickemEnteredAt st' = reconcilePickemEnteredAt as (pickemEnteredAt st)"
    "reconcileBlitzEntries as (pmBlitz pm) = Inr (pmBlitz pm')" "reconcileNotifyPrefs as (pmPrefs pm) = Inr (pmPrefs pm')"
    "pmPosters pm' = map (resolve as) (pmPosters pm)" "pmSentLog pm' = reconcileSentLog as (pmSentLog pm)"
  using assms by (auto simp: reconcileIdentityState_def split: sum.splits)

text \<open>
  C34: A migration that succeeds rewrites members, invitations, boards, picks, entry times, Blitz entries,
  notification preferences and the posters of announcements to canonical identities and loses nothing of them: each
  member record survives under the identity of its owner with its role and its seat, each invitation stays unless
  its owner manages that team already, each ranked player stays on
  the owner's board, which names no player twice and keeps to the limit, each pick and each preference is still the
  owner's, each entry time survives or an earlier one does, each Blitz entry keeps its players with its own or a
  later time, and each logged message is still logged, under its canonical key and at its time or an earlier one. Other collections keyed by a
  person (watchlists, push subscriptions, seat tenures, release notices, reactions) are not touched by the code.
\<close>

theorem alias_migration_loses_nothing:
  assumes "newResolver parse mappings = Inr as" and "as \<noteq> []" and "reconcileIdentityState as st pm = Inr (st', pm')"
  shows "canonicalKeys as (members st') \<and> canonicalKeys as (coInvites st') \<and> canonicalKeys as (boards st') \<and>
    canonicalKeys as (pickems st') \<and> canonicalKeys as (pickemEnteredAt st') \<and>
    canonicalKeys as (pmBlitz pm') \<and> canonicalKeys as (pmPrefs pm') \<and> (\<forall>e\<in>set (pmPosters pm'). resolve as e = e) \<and>
    (\<forall>x\<in>set (members st). \<exists>m. map_of (members st') (ownerKey as x) = Some m \<and> memRole m = memRole (snd x) \<and>
       (memTeam (snd x) \<noteq> [] \<longrightarrow> memTeam m = memTeam (snd x))) \<and>
    (\<forall>x\<in>set (coInvites st). map_of (coInvites st') (resolve as (fst x)) = Some (snd x) \<or>
       (\<exists>m. map_of (members st') (resolve as (fst x)) = Some m \<and> memTeam m = snd x \<and> memRole m = PrimaryManager)) \<and>
    boardsOK (boards st') \<and> (\<forall>raw. set (boardOf (boards st) raw) \<subseteq> set (boardOf (boards st') (resolve as raw))) \<and>
    (\<forall>y\<in>set (pickems st). \<forall>x\<in>set (snd y). map_of (innerOf (pickems st') (resolve as (fst y))) (fst x) = Some (snd x)) \<and>
    (\<forall>y\<in>set (pmPrefs pm). \<forall>x\<in>set (snd y). map_of (innerOf (pmPrefs pm') (resolve as (fst y))) (fst x) = Some (snd x)) \<and>
    (\<forall>x\<in>set (pickemEnteredAt st). snd x \<noteq> 0 \<longrightarrow>
       (\<exists>t. map_of (pickemEnteredAt st') (resolve as (fst x)) = Some t \<and> t \<noteq> 0 \<and> t \<le> snd x)) \<and>
    (\<forall>y\<in>set (pmBlitz pm). \<forall>x\<in>set (snd y). \<exists>e. map_of (innerOf (pmBlitz pm') (resolve as (fst y))) (fst x) = Some e \<and>
       bzPlayers e = bzPlayers (snd x) \<and> bzUpdatedAt (snd x) \<le> bzUpdatedAt e) \<and>
    (\<forall>x\<in>set (pmSentLog pm). \<exists>t. map_of (pmSentLog pm') (canonicalLogKey as (fst x)) = Some t \<and> t \<le> snd x)"
proof -
  have stable: "stable as" by (rule resolver_stable [OF assms(1)])
  obtain kept where ms: "reconcileMembers as (members st) = Inr (members st')"
    and left: "reconcileMemberCoInviteSeats as (members st') (coInvites st) = Inr kept"
    and invites: "reconcileCoInvites as kept = Inr (coInvites st')"
    and bs: "reconcileBoards as (boards st) = Inr (boards st')" and ps: "reconcilePickems as (pickems st) = Inr (pickems st')"
    and es: "pickemEnteredAt st' = reconcilePickemEnteredAt as (pickemEnteredAt st)"
    and blitz: "reconcileBlitzEntries as (pmBlitz pm) = Inr (pmBlitz pm')"
    and prefs: "reconcileNotifyPrefs as (pmPrefs pm) = Inr (pmPrefs pm')"
    and posters: "pmPosters pm' = map (resolve as) (pmPosters pm)" and log: "pmSentLog pm' = reconcileSentLog as (pmSentLog pm)"
    by (rule migration_parts [OF assms(3,2)])
  note m = members_carried [OF ms]
  have "canonicalKeys as (members st')" using m(2) stable by (auto simp: canonicalKeys_def ownerKey_def stable_def)
  moreover have "canonicalKeys as (coInvites st')"
    using put_canonical [OF invites [unfolded reconcileCoInvites_def] stable canonical_Nil] .
  moreover have "\<forall>x\<in>set (coInvites st). map_of (coInvites st') (resolve as (fst x)) = Some (snd x) \<or>
       (\<exists>m. map_of (members st') (resolve as (fst x)) = Some m \<and> memTeam m = snd x \<and> memRole m = PrimaryManager)"
    using invites_left [OF left] put_kept [OF invites [unfolded reconcileCoInvites_def]] unfolding managesAlready_def by blast
  moreover note boards_carried [OF bs stable]
  moreover note mergeNested_kept [OF stable ps [unfolded reconcilePickems_def] canonical_Nil]
  moreover note mergeNested_kept [OF stable prefs [unfolded reconcileNotifyPrefs_def] canonical_Nil]
  moreover note blitz_kept [OF stable blitz [unfolded reconcileBlitzEntries_def] canonical_Nil, unfolded laterEntry_def]
  moreover have "\<forall>e\<in>set (pmPosters pm'). resolve as e = e" using stable by (simp add: posters stable_def)
  moreover have "canonicalKeys as (pickemEnteredAt st')" unfolding es by (rule entered_canonical [OF stable])
  moreover note entered_kept [of "pickemEnteredAt st" as, folded es]
  moreover note log_kept [of "pmSentLog pm" as, folded log]
  moreover have "\<forall>x\<in>set (members st). \<exists>m. map_of (members st') (ownerKey as x) = Some m \<and> memRole m = memRole (snd x) \<and>
       (memTeam (snd x) \<noteq> [] \<longrightarrow> memTeam m = memTeam (snd x))" using m(1) unfolding carries_def by blast
  ultimately show ?thesis by (intro conjI) fast+
qed

text \<open>A manager who signed in under two addresses.\<close>

definition splitManager :: persisted_state where
  "splitManager = freshState\<lparr>
     members := [(''ann@x'', seatedMember ''a'' ''Ann'' ''ann@x''), (''ann@y'', seatedMember [] ''Ann'' ''ann@y'')],
     boards := [(''ann@y'', [''p2'', ''p1'']), (''ann@x'', [''p1'', ''p3''])], pickems := [(''ann@y'', [(''g1'', ''KC'')])]\<rparr>"

definition annPeople :: person_maps where
  "annPeople = \<lparr>pmBlitz = [(''ann@y'', [(''s1'', \<lparr>bzPlayers = [''p1''], bzUpdatedAt = 5\<rparr>)])],
     pmPrefs = [(''ann@y'', [(''draft'', False)])], pmPosters = [''ann@y''], pmSentLog = [(''recap:ann@y'', 7)]\<rparr>"

theorem alias_migration_loses_nothing_witness:
  "\<exists>st' pm'. reconcileIdentityState [(''ann@y'', ''ann@x'')] splitManager annPeople = Inr (st', pm') \<and>
     set [''p1'', ''p2''] \<subseteq> set (boardOf (boards st') ''ann@x'') \<and> map_of (innerOf (pickems st') ''ann@x'') ''g1'' = Some ''KC'' \<and>
     map_of (innerOf (pmPrefs pm') ''ann@x'') ''draft'' = Some False"
proof -
  let ?as = "[(''ann@y'', ''ann@x'')]"
  have new: "newResolver (\<lambda>e. Some e) ?as = Inr ?as" by code_simp
  have "case reconcileIdentityState ?as splitManager annPeople of Inl e \<Rightarrow> False | Inr r \<Rightarrow> True" by code_simp
  then obtain st' pm' where run: "reconcileIdentityState ?as splitManager annPeople = Inr (st', pm')" by (auto split: sum.splits)
  note facts = alias_migration_loses_nothing [OF new _ run]
  have key: "resolve ?as ''ann@y'' = ''ann@x''" by code_simp
  have "set (boardOf (boards splitManager) ''ann@y'') \<subseteq> set (boardOf (boards st') ''ann@x'')" using facts key by (metis list.distinct(1))
  then have "set [''p1'', ''p2''] \<subseteq> set (boardOf (boards st') ''ann@x'')" by (simp add: splitManager_def boardOf_def)
  moreover have "map_of (innerOf (pickems st') ''ann@x'') ''g1'' = Some ''KC''"
    using facts key by (simp add: splitManager_def)
  moreover have "map_of (innerOf (pmPrefs pm') ''ann@x'') ''draft'' = Some False"
    using facts key by (simp add: annPeople_def)
  ultimately show ?thesis using run by blast
qed

end
