(* ===== verification/Spec2Isabelle.thy ===== *)
theory Spec2Isabelle
  imports TradeProps PostseasonProps SeasonProps ScoringProps SeatsProps PickemProps Badges IdentityMigration
begin

text \<open>
  The rules engine of the private fantasy-football league in src/internal/league: one persisted state, a Store
  that changes it under a lock, and a Service that decides what to ask of the Store. This development models the
  rules that move players, points and titles: draft, waivers, zones, trades, lineups, scoring, the weekly close,
  standings and the postseason; and what belongs to the managers: seats, boards, badges and the Pick'em contest.

  State. The Go struct PersistedState is the record persisted_state of Model, with the fields the modelled
  operations read or write; the Store is the record store (its state, the write-error latch, the filing log).
  A Store operation takes a store and returns an outcome: a result or an error, and the store after it. Errors are
  a datatype per component under Rejected, besides PersistFailed and Unhealthy. A write takes an oracle for its
  outcome, and gated, commitOnly, commitOrRestore and commitDisposed are the four ways the code treats a failed
  write; the locales gated_op and restoring_op of Model state what each promises, and every mutator of the waiver,
  trade and zone theories is an interpretation of one of them. A Service operation that decides on a snapshot and
  then calls the Store takes the snapshot and the store as two arguments, so that a property quantifies over every
  interleaving with other requests.

  Data. Instants and durations are integers in nanoseconds since Go's zero time. Points, scores and projections
  are exact rationals: the rounding, infinities and NaN of float64 are outside the model. Go's int is int, with
  wrap64 where a sum can overflow. Strings are character lists. A map the code iterates is an association list, one
  it only looks up is a function. sort.Slice and sort.SliceStable are the insertion sort of Prelude, whose results
  are characterised once for every strict weak order (locale weak_order, interpreted on each less function of
  the code; total_order and keyed_order extend it).

  Parts, in the order of the theories.
  - Prelude, Model: vocabulary, sorting, the data of model.go and the other struct declarations.
  - Calendar, DraftOrder, Rosters: wall clocks, time.Date and the daily run (waivers.go); snake arithmetic
    (store.go, waivers.go); rosters as the replay of picks and transactions (roster.go), with one owner per player.
  - WeekLocks, Zones: week resolvers, kickoff locks and close readiness (pickem.go, lineup_deadline.go, lineup.go,
    week_authority.go, season.go); reserve and IR zones, caps and limits, the transaction log (zones.go, store.go).
  - Standings: the tally and the tiebreak chain (standings.go); tiebreak_rule and tiebreak_chain are the contract
    of a rule and of the chain.
  - WaiverOrder, Claims, WaiverRun: availability, priority order and penalties (waivers.go); filing, cancelling and
    moving claims (store.go); a whole run with receipts and the FAAB budgets (store.go, rosterops.go).
  - TradeRules, Trades, TradeLife, TradeSystem, TradeProps: validation, the Store's offer mutators and the Service
    actions (trades.go, store.go, rosterops.go); the abstract specification of an offer is the relation offer_step,
    and every action and tick on any stale snapshot is a sequence of its steps.
  - RoundRobin, SeasonSchedule: the schedule generator (schedule.go).
  - Playoffs, Brackets, PlayoffRun, PlayoffSeeds, PlayoffProps, Postseason, PostseasonProps: seeding, the three
    brackets, results and champions (playoffs.go), and the preview, publication, advancement and correction of a
    bracket (postseason.go).
  - DraftFill, Autopick, DraftRoom, DraftService, DraftProps, DraftLife: the slot table and the bipartite matcher,
    the choice rules of an automatic pick, the Store's picks, undo and clock, and the tick, recovery and commissioner
    controls of the Service (draftclock.go, store.go, presence.go, confirmations.go, service.go, admin.go).
  - Lineups, LineupProps, LineupLocks, LineupActions, LineupLife: the effective lineup of a week, its automatic
    fill and every manager action (lineup.go, store.go).
  - Scoring, ScoringProps: rules, overrides, ladders, the join of stat lines to players, the score of a lineup
    (scoring.go, scorer.go, breakdown.go).
  - WeekClose, SeasonLife, SeasonProps: readiness, the close with its pins and scores, the automatic close, and the
    schedule and phase writes (season.go, rosterops.go, store.go, admin.go).
  - Seats, SeatsProps: the identity resolver (src/internal/identity), members, invitations and co-managers, boards with
    their escrow and merges, seat release, trimming and the league reset (store.go, service.go, confirmations.go).
  - Badges, IdentityMigration: the switch between badge and avatar with the reading back of an unverified write
    (store.go, badge.go); the rewriting of nine person-keyed collections to canonical identities (identity_alias.go).
  - Pickem, PickemProps: markets and their freeze, picks, grading, records, streaks and boards (pickem.go,
    pickem_market.go, store.go).

  Where a property needs a scope, a lemma beside it shows the behaviour outside: stale_manual_pick_breaks_viability
  and late_arm_breaks_pause (DraftLife), late_edit_scored_not_pinned and stale_regeneration_reopens_week (SeasonProps),
  unknown_drop_exceeds_cap (WaiverRun).

  What the lemmas show. Waivers: a run settles every due claim with one justified receipt, keeps every roster within
  cap, limits and zones as long as the pool knows the players it drops, never overspends, sends the winner to the back, and restores the state when it fails.
  Draft: under every interleaving, late ticks included, the tape stays a snake with one owner per player, and the clock
  stays well formed while ticks run on the current state; an unattended draft finishes, and one whose picks were
  validated on the state they were stored in gives every team a roster that fills the starting slots; the matcher is
  equivalent to the largest matching. Lineups: no action moves a starter who was locked in the view it was decided on,
  every lineup stays sound through actions, closes and resets while players keep their positions, and the clock never
  changes who starts. Trades: offers refine their lifecycle, execute once and swap exactly the agreed assets, as long
  as the random offer IDs are new. Schedule: a full cycle is a round robin. Weeks: until a reset or trim withdraws the
  schedule, and with schedule generation checked on the current state, a closed week is frozen, its stored scores
  are those of its pins, and weeks close in order. Scoring: the overrides stay typed
  and an edit is exact. Postseason: brackets keep their invariant, a champion has won every round, a published bracket
  is permanent up to a reset of the league and complete results always advance it. Seats: a
  team has one primary and one co-manager at most, boards stay bounded and come back with a released seat, a badge
  has one wearer and the outcome of a claim is always known, and an alias migration loses nothing of the collections it rewrites. Pick'em: a closed
  market and a season entry are permanent, accepted picks are open and recorded, refused ones leave no trace, every
  decided game with a frozen line counts for every entrant, and streaks and ranks agree with their definitions.

  Bounds and fuel. The loops of the code are structural recursions or functions with a measure, but for these: the
  search for the weekly turn (turnLoop) has ten days of fuel, enough because a Tuesday comes within seven and
  time.Date moves a midnight by less than a day, which weekly_turn_found proves; decimal rendering divides by ten with the
  number as fuel; the augmenting search (assign) recurses to a depth of the number of slots, enough because every
  level marks a slot seen, which starter_fill_is_maximum uses.

  Parameters. The clock, the random draws of shuffles and IDs, SHA-256 and token functions, the JSON form of a schedule, the
  address parser, the time-zone database, the configured teams, the seat a request resolves to, the player pool, the
  schedule feed, the stat source and the saved final boxes are arguments of the definitions that use them.

  Not modelled. Persistence (sqlstore.go, sqlmigrate.go, backup.go) is an oracle for each write. Notifications,
  events, audit rows, the images of avatars, the locker room, the pages and summaries, and the packages around the league
  (stat feeds, live scores, wire, mail, fleet configuration, setup, sessions) render, deliver or fetch; no
  rule modelled here depends on them but through the parameters above. The Blitz side game has its own state, of which
  only the alias migration is modelled.
\<close>

end
